(* ===== verification/Prelude.thy ===== *)
theory Prelude
  imports Main "HOL-Library.Word" "HOL-Library.Monad_Syntax" "HOL-Library.Multiset"
begin

text \<open>
  Shared vocabulary of the development: machine words, the memory operations of C on
  buffers (\<open>memcpy\<close>, \<open>memmove\<close>, \<open>memset\<close>, \<open>brealloc\<close>) with an out-of-range access as
  \<^term>\<open>None\<close>, and the generic list and arithmetic lemmas the components share.
\<close>

unbundle bit_operations_syntax

type_synonym byte = "8 word"
type_synonym u16 = "16 word"
type_synonym u32 = "32 word"
type_synonym u64 = "64 word"

named_theorems mem_simps \<open>pointwise behaviour of the buffer operations\<close>

section \<open>Buffers\<close>

text \<open>
  A heap block is the list of its cells. Reading or writing outside the block is
  undefined behaviour in C and is \<^term>\<open>None\<close> here, so that an operation that returns
  \<^term>\<open>Some\<close> has made no out-of-range access.
\<close>

definition mem_read :: "nat \<Rightarrow> nat \<Rightarrow> 'a list \<Rightarrow> 'a list option" where
  "mem_read off n m = (if off + n \<le> length m then Some (take n (drop off m)) else None)"

definition mem_write :: "nat \<Rightarrow> 'a list \<Rightarrow> 'a list \<Rightarrow> 'a list option" where
  "mem_write off xs m =
     (if off + length xs \<le> length m
      then Some (take off m @ xs @ drop (off + length xs) m) else None)"

definition mem_realloc :: "nat \<Rightarrow> 'a option list \<Rightarrow> 'a option list" where
  "mem_realloc n m = take n m @ replicate (n - length m) None"

lemma mem_read_Some:
  "mem_read off n m = Some xs \<longleftrightarrow> off + n \<le> length m \<and> xs = take n (drop off m)"
  by (auto simp: mem_read_def)

lemma mem_read_ok [mem_simps]:
  "off + n \<le> length m \<Longrightarrow> mem_read off n m = Some (take n (drop off m))"
  by (simp add: mem_read_def)

lemma mem_write_ok:
  "off + length xs \<le> length m \<Longrightarrow>
   mem_write off xs m = Some (take off m @ xs @ drop (off + length xs) m)"
  by (simp add: mem_write_def)

lemma mem_write_eq_None: "mem_write off xs m = None \<longleftrightarrow> length m < off + length xs"
  by (auto simp: mem_write_def)

lemma mem_write_length [mem_simps]:
  "mem_write off xs m = Some m' \<Longrightarrow> length m' = length m"
  by (auto simp: mem_write_def split: if_splits)

lemma mem_write_nth [mem_simps]:
  assumes "mem_write off xs m = Some m'" "k < length m"
  shows "m' ! k = (if off \<le> k \<and> k < off + length xs then xs ! (k - off) else m ! k)"
  using assms by (auto simp: mem_write_def nth_append min_def split: if_splits)

lemma mem_write_ex:
  "off + length xs \<le> length m \<Longrightarrow>
   \<exists>m'. mem_write off xs m = Some m' \<and> length m' = length m \<and>
     (\<forall>k < length m.
        m' ! k = (if off \<le> k \<and> k < off + length xs then xs ! (k - off) else m ! k))"
  by (metis mem_write_length mem_write_nth mem_write_ok)

lemma mem_realloc_length [mem_simps]: "length (mem_realloc n m) = n"
  by (simp add: mem_realloc_def)

lemma mem_realloc_nth [mem_simps]:
  "k < length m \<Longrightarrow> k < n \<Longrightarrow> mem_realloc n m ! k = m ! k"
  by (simp add: mem_realloc_def nth_append)

section \<open>Wrap-around of ring indices\<close>

lemma mod_wrap:
  fixes s i c :: nat
  assumes "s < c" "i \<le> c"
  shows "(s + i) mod c = (if s + i < c then s + i else s + i - c)"
proof (cases "s + i < c")
  case True
  then show ?thesis by simp
next
  case False
  then have "(s + i) mod c = (s + i - c) mod c"
    by (simp add: mod_if)
  with assms False show ?thesis by simp
qed

section \<open>Searching lists by index\<close>

text \<open>Index of the first (last) element that satisfies a predicate; \<open>-1\<close> in C is \<^term>\<open>None\<close>.\<close>

fun first_idx :: "('a \<Rightarrow> bool) \<Rightarrow> 'a list \<Rightarrow> nat option" where
  "first_idx P [] = None"
| "first_idx P (x # xs) = (if P x then Some 0 else map_option Suc (first_idx P xs))"

definition last_idx :: "('a \<Rightarrow> bool) \<Rightarrow> 'a list \<Rightarrow> nat option" where
  "last_idx P xs = map_option (\<lambda>i. length xs - 1 - i) (first_idx P (rev xs))"

lemma first_idx_None: "first_idx P xs = None \<longleftrightarrow> (\<forall>x \<in> set xs. \<not> P x)"
  by (induction xs) auto

lemma first_idx_Some:
  "first_idx P xs = Some i \<longleftrightarrow> i < length xs \<and> P (xs ! i) \<and> (\<forall>j < i. \<not> P (xs ! j))"
proof (induction xs arbitrary: i)
  case Nil
  then show ?case by simp
next
  case (Cons x xs)
  show ?case
  proof (cases i)
    case 0
    then show ?thesis by auto
  next
    case (Suc j)
    have all: "(\<forall>k < Suc j. \<not> P ((x # xs) ! k)) \<longleftrightarrow> \<not> P x \<and> (\<forall>k < j. \<not> P (xs ! k))"
      by (simp add: All_less_Suc2)
    show ?thesis using Cons.IH [of j] Suc all by (auto simp: map_option_case split: option.splits)
  qed
qed

lemma first_idx_ex: "x \<in> set xs \<Longrightarrow> P x \<Longrightarrow> \<exists>i. first_idx P xs = Some i"
  using first_idx_None [of P xs] by auto

lemma first_idx_lt: "first_idx P xs = Some i \<Longrightarrow> i < length xs"
  by (simp add: first_idx_Some)

lemma last_idx_None: "last_idx P xs = None \<longleftrightarrow> (\<forall>x \<in> set xs. \<not> P x)"
  by (simp add: last_idx_def first_idx_None)

lemma last_idx_SomeD:
  assumes "last_idx P xs = Some i"
  shows "i < length xs \<and> P (xs ! i)"
proof -
  from assms obtain j where j: "first_idx P (rev xs) = Some j" "i = length xs - 1 - j"
    by (auto simp: last_idx_def)
  then have "j < length xs" "P (rev xs ! j)" by (auto simp: first_idx_Some)
  with j show ?thesis by (simp add: rev_nth)
qed

lemma first_idx_takeWhile:
  "(case first_idx P xs of Some i \<Rightarrow> i | None \<Rightarrow> length xs) = length (takeWhile (Not \<circ> P) xs)"
  by (induction xs) (auto split: option.splits)

section \<open>Insertion before the first larger element\<close>

text \<open>
  An array kept sorted by inserting a new element before the first one that stops the
  scan: \<open>stop x y\<close> says that \<open>x\<close> goes before \<open>y\<close>.
\<close>

definition insert_at_stop :: "('a \<Rightarrow> 'a \<Rightarrow> bool) \<Rightarrow> 'a \<Rightarrow> 'a list \<Rightarrow> 'a list" where
  "insert_at_stop stop x xs =
     takeWhile (\<lambda>y. \<not> stop x y) xs @ x # dropWhile (\<lambda>y. \<not> stop x y) xs"

lemma mset_insert_at_stop [simp]: "mset (insert_at_stop stop x xs) = add_mset x (mset xs)"
  by (simp add: insert_at_stop_def) (metis mset_append takeWhile_dropWhile_id)

lemma set_insert_at_stop [simp]: "set (insert_at_stop stop x xs) = insert x (set xs)"
  using mset_insert_at_stop by (metis set_mset_add_mset_insert set_mset_mset)

lemma insert_at_stop_index:
  "(let idx = (case first_idx (stop x) xs of Some i \<Rightarrow> i | None \<Rightarrow> length xs)
    in take idx xs @ x # drop idx xs) = insert_at_stop stop x xs"
proof -
  have "take (length (takeWhile Q xs)) xs = takeWhile Q xs"
    and "drop (length (takeWhile Q xs)) xs = dropWhile Q xs" for Q :: "'a \<Rightarrow> bool"
    by (metis append_eq_conv_conj takeWhile_dropWhile_id,
        metis append_eq_conv_conj takeWhile_dropWhile_id)
  then show ?thesis by (simp add: insert_at_stop_def Let_def first_idx_takeWhile comp_def)
qed

locale stop_order =
  fixes le :: "'a \<Rightarrow> 'a \<Rightarrow> bool" and stop :: "'a \<Rightarrow> 'a \<Rightarrow> bool"
  assumes stop_le: "stop x y \<Longrightarrow> le x y"
    and pass_le: "\<not> stop x y \<Longrightarrow> le y x"
    and le_trans: "le x y \<Longrightarrow> le y z \<Longrightarrow> le x z"
begin

lemma sorted_insert:
  assumes "sorted_wrt le xs"
  shows "sorted_wrt le (insert_at_stop stop x xs)"
proof -
  let ?a = "takeWhile (\<lambda>y. \<not> stop x y) xs" and ?b = "dropWhile (\<lambda>y. \<not> stop x y) xs"
  have srt: "sorted_wrt le (?a @ ?b)" using assms by simp
  then have ab: "\<forall>y \<in> set ?a. \<forall>z \<in> set ?b. le y z" "sorted_wrt le ?a" "sorted_wrt le ?b"
    unfolding sorted_wrt_append by blast+
  have a: "\<forall>y \<in> set ?a. le y x" by (auto dest: set_takeWhileD intro: pass_le)
  have b: "\<forall>z \<in> set ?b. le x z"
  proof (cases ?b)
    case Nil
    then show ?thesis by (metis empty_iff list.set(1))
  next
    case (Cons h t)
    then have "stop x h" by (metis hd_dropWhile list.distinct(1) list.sel(1))
    then have "le x h" by (rule stop_le)
    with ab(3) Cons show ?thesis by (auto intro: le_trans)
  qed
  from a b ab show ?thesis
    by (auto simp: insert_at_stop_def sorted_wrt_append)
qed

lemma sorted_fold_insert:
  "sorted_wrt le xs \<Longrightarrow> sorted_wrt le (fold (insert_at_stop stop) ys xs)"
  by (induction ys arbitrary: xs) (auto intro: sorted_insert)

end

lemma mset_fold_insert_at_stop:
  "mset (fold (insert_at_stop stop) ys xs) = mset ys + mset xs"
  by (induction ys arbitrary: xs) auto

section \<open>Integer division of C\<close>

text \<open>Signed division of C truncates towards zero. Where the divisor is zero the C code is
  undefined; the callers' well-formedness conditions exclude it.\<close>

definition c_div :: "int \<Rightarrow> int \<Rightarrow> int" where
  "c_div a b = sgn a * sgn b * (\<bar>a\<bar> div \<bar>b\<bar>)"

lemma c_div_zero [simp]: "c_div 0 b = 0"
  by (simp add: c_div_def)

lemma c_div_pos: "0 \<le> a \<Longrightarrow> 0 < b \<Longrightarrow> c_div a b = a div b"
  by (cases "a = 0") (auto simp: c_div_def)

lemma c_div_neg: "a \<le> 0 \<Longrightarrow> 0 < b \<Longrightarrow> c_div a b = - ((- a) div b)"
  by (cases "a = 0") (auto simp: c_div_def)

lemma c_div_mono:
  assumes "a \<le> a'" "0 < b"
  shows "c_div a b \<le> c_div a' b"
proof (cases "0 \<le> a")
  case True
  with assms show ?thesis by (simp add: c_div_pos zdiv_mono1)
next
  case neg: False
  show ?thesis
  proof (cases "0 \<le> a'")
    case True
    have "c_div a b \<le> 0" using neg assms by (simp add: c_div_neg pos_imp_zdiv_nonneg_iff)
    also have "0 \<le> c_div a' b" using True assms by (simp add: c_div_pos pos_imp_zdiv_nonneg_iff)
    finally show ?thesis .
  next
    case False
    with neg assms show ?thesis by (simp add: c_div_neg zdiv_mono1)
  qed
qed

lemma c_div_abs: "0 < b \<Longrightarrow> \<bar>c_div a b\<bar> \<le> \<bar>a\<bar>"
  by (simp add: c_div_def abs_mult) (metis abs_ge_zero abs_sgn_eq_1 dual_order.refl
      mult_cancel_right1 mult_eq_0_iff sgn_0_0 div_by_1 zdiv_mono2 int_one_le_iff_zero_less zero_less_one
      abs_of_pos div_0 abs_zero pos_imp_zdiv_nonneg_iff abs_of_nonneg)

section \<open>Programs over an interface\<close>

text \<open>A program is a list of operations; each hands something out. \<^term>\<open>None\<close> stops it.\<close>

fun op_run :: "('s \<Rightarrow> 'op \<Rightarrow> ('out \<times> 's) option) \<Rightarrow> 's \<Rightarrow> 'op list \<Rightarrow> ('out list \<times> 's) option" where
  "op_run step s [] = Some ([], s)"
| "op_run step s (x # xs) = do {
     (out, s') \<leftarrow> step s x;
     (outs, s'') \<leftarrow> op_run step s' xs;
     Some (out # outs, s'')
   }"

text \<open>Operations that agree with those of an abstract state, one by one, agree over programs.\<close>

locale step_refinement =
  fixes repr :: "'c \<Rightarrow> 'a \<Rightarrow> bool"
    and cstep :: "'c \<Rightarrow> 'op \<Rightarrow> ('d \<times> 'c) option"
    and astep :: "'a \<Rightarrow> 'op \<Rightarrow> ('e \<times> 'a) option"
    and out :: "'e \<Rightarrow> 'd"
  assumes step: "repr c a \<Longrightarrow> case astep a x of None \<Rightarrow> cstep c x = None
    | Some (d, a') \<Rightarrow> \<exists>c'. cstep c x = Some (out d, c') \<and> repr c' a'"
begin

lemma run:
  "repr c a \<Longrightarrow> map_option fst (op_run cstep c ops) = map_option (map out \<circ> fst) (op_run astep a ops)"
proof (induction ops arbitrary: c a)
  case Nil
  then show ?case by simp
next
  case (Cons x ops)
  show ?case
  proof (cases "astep a x")
    case None
    with step [OF Cons.prems, of x] show ?thesis by simp
  next
    case (Some r)
    obtain d a' where r: "r = (d, a')" by (cases r)
    with Some step [OF Cons.prems, of x] obtain c' where
      c': "cstep c x = Some (out d, c')" "repr c' a'" by auto
    from Cons.IH [OF c'(2)] show ?thesis
      by (cases "op_run cstep c' ops"; cases "op_run astep a' ops") (auto simp: c' Some r)
  qed
qed

end

end
