(* ===== verification/Deque.thy ===== *)
theory Deque
  imports Prelude
begin

text \<open>
  The double-ended byte queue of \<open>libobs/util/deque.h\<close>, the ring buffer under the audio
  buffers, the output delay queue and the packet queues. A cell of the model is one unit
  of storage: a byte for byte queues, or one struct for queues that only push and pop
  whole structs of one size (every quantity of the header is then a multiple of that
  size). Cells that \<open>brealloc\<close> leaves uninitialised are \<^term>\<open>None\<close>. An operation
  returns \<^term>\<open>None\<close> when the C code would access the block out of range or fail an
  \<open>assert\<close>. The contract is the locale \<open>queue_contract\<close>: a list of cells.
\<close>

section \<open>State and operations\<close>

record 'a deque =
  dq_data :: "'a option list"
  dq_size :: nat
  dq_start :: nat
  dq_end :: nat
  dq_capacity :: nat

definition deque_init :: "'a deque" where
  "deque_init = \<lparr>dq_data = [], dq_size = 0, dq_start = 0, dq_end = 0, dq_capacity = 0\<rparr>"

definition deque_free :: "'a deque \<Rightarrow> 'a deque" where
  "deque_free dq = deque_init"

definition deque_reorder_data :: "'a deque \<Rightarrow> nat \<Rightarrow> 'a deque option" where
  "deque_reorder_data dq new_capacity =
     (if dq_size dq = 0 \<or> dq_start dq = 0 \<or> dq_end dq > dq_start dq then Some dq
      else let difference = new_capacity - dq_capacity dq in
        do {
          xs \<leftarrow> mem_read (dq_start dq) (dq_capacity dq - dq_start dq) (dq_data dq);
          d \<leftarrow> mem_write (dq_start dq + difference) xs (dq_data dq);
          Some (dq\<lparr>dq_data := d, dq_start := dq_start dq + difference\<rparr>)
        })"

definition deque_ensure_capacity :: "'a deque \<Rightarrow> 'a deque option" where
  "deque_ensure_capacity dq =
     (if dq_size dq \<le> dq_capacity dq then Some dq
      else let new_capacity =
             (if dq_size dq > dq_capacity dq * 2 then dq_size dq else dq_capacity dq * 2)
        in do {
          dq' \<leftarrow> deque_reorder_data
                   (dq\<lparr>dq_data := mem_realloc new_capacity (dq_data dq)\<rparr>) new_capacity;
          Some (dq'\<lparr>dq_capacity := new_capacity\<rparr>)
        })"

definition deque_reserve :: "'a deque \<Rightarrow> nat \<Rightarrow> 'a deque option" where
  "deque_reserve dq capacity =
     (if capacity \<le> dq_capacity dq then Some dq
      else do {
        dq' \<leftarrow> deque_reorder_data
                 (dq\<lparr>dq_data := mem_realloc capacity (dq_data dq)\<rparr>) capacity;
        Some (dq'\<lparr>dq_capacity := capacity\<rparr>)
      })"

text \<open>
  \<open>deque_push_back\<close> copies the caller's data, \<open>deque_push_back_zero\<close> clears the same
  cells with \<open>memset\<close>. Both place the data behind \<open>end_pos\<close>, wrapping at the capacity.
\<close>

definition deque_push_back :: "'a deque \<Rightarrow> 'a list \<Rightarrow> 'a deque option" where
  "deque_push_back dq data = do {
     let sz = length data;
     let new_end_pos = dq_end dq + sz;
     dq1 \<leftarrow> deque_ensure_capacity (dq\<lparr>dq_size := dq_size dq + sz\<rparr>);
     if new_end_pos > dq_capacity dq1 then do {
       let back_size = dq_capacity dq1 - dq_end dq1;
       d1 \<leftarrow> (if back_size \<noteq> 0
              then mem_write (dq_end dq1) (map Some (take back_size data)) (dq_data dq1)
              else Some (dq_data dq1));
       d2 \<leftarrow> mem_write 0 (map Some (drop back_size data)) d1;
       Some (dq1\<lparr>dq_data := d2, dq_end := new_end_pos - dq_capacity dq1\<rparr>)
     } else do {
       d1 \<leftarrow> mem_write (dq_end dq1) (map Some data) (dq_data dq1);
       Some (dq1\<lparr>dq_data := d1, dq_end := new_end_pos\<rparr>)
     }
   }"

definition deque_push_back_zero :: "'a::zero deque \<Rightarrow> nat \<Rightarrow> 'a deque option" where
  "deque_push_back_zero dq sz = do {
     let new_end_pos = dq_end dq + sz;
     dq1 \<leftarrow> deque_ensure_capacity (dq\<lparr>dq_size := dq_size dq + sz\<rparr>);
     if new_end_pos > dq_capacity dq1 then do {
       let back_size = dq_capacity dq1 - dq_end dq1;
       let loop_size = sz - back_size;
       d1 \<leftarrow> (if back_size \<noteq> 0
              then mem_write (dq_end dq1) (replicate back_size (Some 0)) (dq_data dq1)
              else Some (dq_data dq1));
       d2 \<leftarrow> mem_write 0 (replicate loop_size (Some 0)) d1;
       Some (dq1\<lparr>dq_data := d2, dq_end := new_end_pos - dq_capacity dq1\<rparr>)
     } else do {
       d1 \<leftarrow> mem_write (dq_end dq1) (replicate sz (Some 0)) (dq_data dq1);
       Some (dq1\<lparr>dq_data := d1, dq_end := new_end_pos\<rparr>)
     }
   }"

definition deque_push_front :: "'a deque \<Rightarrow> 'a list \<Rightarrow> 'a deque option" where
  "deque_push_front dq data = do {
     let sz = length data;
     dq1 \<leftarrow> deque_ensure_capacity (dq\<lparr>dq_size := dq_size dq + sz\<rparr>);
     if dq_size dq1 = sz then do {
       d1 \<leftarrow> mem_write 0 (map Some data) (dq_data dq1);
       Some (dq1\<lparr>dq_data := d1, dq_start := 0, dq_end := sz\<rparr>)
     } else if dq_start dq1 < sz then do {
       let back_size = sz - dq_start dq1;
       d1 \<leftarrow> (if dq_start dq1 \<noteq> 0
              then mem_write 0 (map Some (drop back_size data)) (dq_data dq1)
              else Some (dq_data dq1));
       let start' = dq_capacity dq1 - back_size;
       d2 \<leftarrow> mem_write start' (map Some (take back_size data)) d1;
       Some (dq1\<lparr>dq_data := d2, dq_start := start'\<rparr>)
     } else do {
       d1 \<leftarrow> mem_write (dq_start dq1 - sz) (map Some data) (dq_data dq1);
       Some (dq1\<lparr>dq_data := d1, dq_start := dq_start dq1 - sz\<rparr>)
     }
   }"

definition deque_push_front_zero :: "'a::zero deque \<Rightarrow> nat \<Rightarrow> 'a deque option" where
  "deque_push_front_zero dq sz = do {
     dq1 \<leftarrow> deque_ensure_capacity (dq\<lparr>dq_size := dq_size dq + sz\<rparr>);
     if dq_size dq1 = sz then do {
       d1 \<leftarrow> mem_write 0 (replicate sz (Some 0)) (dq_data dq1);
       Some (dq1\<lparr>dq_data := d1, dq_start := 0, dq_end := sz\<rparr>)
     } else if dq_start dq1 < sz then do {
       let back_size = sz - dq_start dq1;
       d1 \<leftarrow> (if dq_start dq1 \<noteq> 0
              then mem_write 0 (replicate (dq_start dq1) (Some 0)) (dq_data dq1)
              else Some (dq_data dq1));
       let start' = dq_capacity dq1 - back_size;
       d2 \<leftarrow> mem_write start' (replicate back_size (Some 0)) d1;
       Some (dq1\<lparr>dq_data := d2, dq_start := start'\<rparr>)
     } else do {
       d1 \<leftarrow> mem_write (dq_start dq1 - sz) (replicate sz (Some 0)) (dq_data dq1);
       Some (dq1\<lparr>dq_data := d1, dq_start := dq_start dq1 - sz\<rparr>)
     }
   }"

definition deque_upsize :: "'a::zero deque \<Rightarrow> nat \<Rightarrow> 'a deque option" where
  "deque_upsize dq sz =
     (if sz \<le> dq_size dq then Some dq
      else do {
        let add_size = sz - dq_size dq;
        let new_end_pos = dq_end dq + add_size;
        dq1 \<leftarrow> deque_ensure_capacity (dq\<lparr>dq_size := sz\<rparr>);
        if new_end_pos > dq_capacity dq1 then do {
          let back_size = dq_capacity dq1 - dq_end dq1;
          let loop_size = add_size - back_size;
          d1 \<leftarrow> (if back_size \<noteq> 0
                 then mem_write (dq_end dq1) (replicate back_size (Some 0)) (dq_data dq1)
                 else Some (dq_data dq1));
          d2 \<leftarrow> mem_write 0 (replicate loop_size (Some 0)) d1;
          Some (dq1\<lparr>dq_data := d2, dq_end := new_end_pos - dq_capacity dq1\<rparr>)
        } else do {
          d1 \<leftarrow> mem_write (dq_end dq1) (replicate add_size (Some 0)) (dq_data dq1);
          Some (dq1\<lparr>dq_data := d1, dq_end := new_end_pos\<rparr>)
        }
      })"

definition deque_place :: "'a::zero deque \<Rightarrow> nat \<Rightarrow> 'a list \<Rightarrow> 'a deque option" where
  "deque_place dq position data = do {
     let sz = length data;
     let end_point = position + sz;
     dq1 \<leftarrow> (if end_point > dq_size dq then deque_upsize dq end_point else Some dq);
     let pos0 = position + dq_start dq1;
     let pos = (if pos0 \<ge> dq_capacity dq1 then pos0 - dq_capacity dq1 else pos0);
     let data_end_pos = pos + sz;
     if data_end_pos > dq_capacity dq1 then do {
       let back_size = data_end_pos - dq_capacity dq1;
       let loop_size = sz - back_size;
       d1 \<leftarrow> mem_write pos (map Some (take loop_size data)) (dq_data dq1);
       d2 \<leftarrow> mem_write 0 (map Some (drop loop_size data)) d1;
       Some (dq1\<lparr>dq_data := d2\<rparr>)
     } else do {
       d1 \<leftarrow> mem_write pos (map Some data) (dq_data dq1);
       Some (dq1\<lparr>dq_data := d1\<rparr>)
     }
   }"

text \<open>The \<open>data\<close> pointer of the peek and pop operations may be null: \<open>want\<close> is false then.\<close>

definition deque_peek_front :: "'a deque \<Rightarrow> bool \<Rightarrow> nat \<Rightarrow> 'a option list option" where
  "deque_peek_front dq want sz =
     (if \<not> sz \<le> dq_size dq then None
      else if \<not> want then Some []
      else let start_size = dq_capacity dq - dq_start dq in
        if start_size < sz then do {
          a \<leftarrow> mem_read (dq_start dq) start_size (dq_data dq);
          b \<leftarrow> mem_read 0 (sz - start_size) (dq_data dq);
          Some (a @ b)
        } else mem_read (dq_start dq) sz (dq_data dq))"

definition deque_peek_back :: "'a deque \<Rightarrow> bool \<Rightarrow> nat \<Rightarrow> 'a option list option" where
  "deque_peek_back dq want sz =
     (if \<not> sz \<le> dq_size dq then None
      else if \<not> want then Some []
      else let back_size = (if dq_end dq \<noteq> 0 then dq_end dq else dq_capacity dq) in
        if back_size < sz then do {
          let front_size = sz - back_size;
          b \<leftarrow> mem_read 0 back_size (dq_data dq);
          a \<leftarrow> mem_read (dq_capacity dq - front_size) front_size (dq_data dq);
          Some (a @ b)
        } else if dq_end dq < sz then None
        else mem_read (dq_end dq - sz) sz (dq_data dq))"

definition deque_pop_front ::
    "'a deque \<Rightarrow> bool \<Rightarrow> nat \<Rightarrow> ('a option list \<times> 'a deque) option" where
  "deque_pop_front dq want sz = do {
     xs \<leftarrow> deque_peek_front dq want sz;
     let dq1 = dq\<lparr>dq_size := dq_size dq - sz\<rparr>;
     if dq_size dq1 = 0 then Some (xs, dq1\<lparr>dq_start := 0, dq_end := 0\<rparr>)
     else let s = dq_start dq1 + sz in
       Some (xs, dq1\<lparr>dq_start := (if s \<ge> dq_capacity dq1 then s - dq_capacity dq1 else s)\<rparr>)
   }"

definition deque_pop_back ::
    "'a deque \<Rightarrow> bool \<Rightarrow> nat \<Rightarrow> ('a option list \<times> 'a deque) option" where
  "deque_pop_back dq want sz = do {
     xs \<leftarrow> deque_peek_back dq want sz;
     let dq1 = dq\<lparr>dq_size := dq_size dq - sz\<rparr>;
     if dq_size dq1 = 0 then Some (xs, dq1\<lparr>dq_start := 0, dq_end := 0\<rparr>)
     else if dq_end dq1 \<le> sz
       then Some (xs, dq1\<lparr>dq_end := dq_capacity dq1 - (sz - dq_end dq1)\<rparr>)
       else Some (xs, dq1\<lparr>dq_end := dq_end dq1 - sz\<rparr>)
   }"

definition deque_data :: "'a deque \<Rightarrow> nat \<Rightarrow> nat option" where
  "deque_data dq idx =
     (if idx \<ge> dq_size dq then None
      else let offset = dq_start dq + idx in
        Some (if offset \<ge> dq_capacity dq then offset - dq_capacity dq else offset))"

section \<open>Invariant and abstraction\<close>

definition deque_inv :: "'a deque \<Rightarrow> bool" where
  "deque_inv dq \<longleftrightarrow>
     length (dq_data dq) = dq_capacity dq \<and> dq_size dq \<le> dq_capacity dq \<and>
     (if dq_size dq = 0 then dq_start dq = 0 \<and> dq_end dq = 0
      else dq_start dq < dq_capacity dq \<and> 0 < dq_end dq \<and> dq_end dq \<le> dq_capacity dq \<and>
        (if dq_start dq < dq_end dq then dq_size dq = dq_end dq - dq_start dq
         else dq_size dq = dq_end dq + dq_capacity dq - dq_start dq))"

definition dq_idx :: "'a deque \<Rightarrow> nat \<Rightarrow> nat" where
  "dq_idx dq i =
     (if dq_start dq + i \<ge> dq_capacity dq then dq_start dq + i - dq_capacity dq
      else dq_start dq + i)"

definition dq_cells :: "'a deque \<Rightarrow> 'a option list" where
  "dq_cells dq = map (\<lambda>i. dq_data dq ! dq_idx dq i) [0..<dq_size dq]"

text \<open>\<open>deque_repr dq xs\<close>: the queue is well formed and holds exactly the values \<open>xs\<close>.\<close>

definition deque_repr :: "'a deque \<Rightarrow> 'a list \<Rightarrow> bool" where
  "deque_repr dq xs \<longleftrightarrow> deque_inv dq \<and> dq_cells dq = map Some xs"

lemma length_dq_cells [simp]: "length (dq_cells dq) = dq_size dq"
  by (simp add: dq_cells_def)

lemma dq_cells_nth: "i < dq_size dq \<Longrightarrow> dq_cells dq ! i = dq_data dq ! dq_idx dq i"
  by (simp add: dq_cells_def)

lemma dq_cells_eqI:
  assumes "dq_size dq = length ys"
    and "\<And>i. i < length ys \<Longrightarrow> dq_data dq ! dq_idx dq i = ys ! i"
  shows "dq_cells dq = ys"
  using assms by (intro nth_equalityI) (simp_all add: dq_cells_nth)

lemma deque_repr_length: "deque_repr dq xs \<Longrightarrow> dq_size dq = length xs"
  by (metis deque_repr_def length_dq_cells length_map)

lemma deque_repr_nth:
  "deque_repr dq xs \<Longrightarrow> i < length xs \<Longrightarrow> dq_data dq ! dq_idx dq i = Some (xs ! i)"
  by (metis deque_repr_def deque_repr_length dq_cells_nth nth_map)

lemma deque_reprI:
  assumes "deque_inv dq" "dq_size dq = length xs"
    and "\<And>i. i < length xs \<Longrightarrow> dq_data dq ! dq_idx dq i = Some (xs ! i)"
  shows "deque_repr dq xs"
  unfolding deque_repr_def using assms by (auto intro: dq_cells_eqI)

lemma deque_repr_inv: "deque_repr dq xs \<Longrightarrow> deque_inv dq"
  by (simp add: deque_repr_def)

lemma deque_repr_unique: "deque_repr dq xs \<Longrightarrow> deque_repr dq ys \<Longrightarrow> xs = ys"
  by (metis deque_repr_def inj_Some inj_map_eq_map)

lemma deque_repr_init: "deque_repr deque_init []"
  by (simp add: deque_repr_def deque_inv_def deque_init_def dq_cells_def)

section \<open>Growing the block\<close>

text \<open>
  \<open>grown dq dq1 m\<close>: \<open>dq1\<close> holds what \<open>dq\<close> held in a block of at least \<open>m\<close> cells, and
  its size field already counts \<open>m\<close> cells.
\<close>

definition grown :: "'a deque \<Rightarrow> 'a deque \<Rightarrow> nat \<Rightarrow> bool" where
  "grown dq dq1 m \<longleftrightarrow>
     dq_size dq1 = m \<and> m \<le> dq_capacity dq1 \<and> dq_capacity dq \<le> dq_capacity dq1 \<and>
     dq_end dq1 = dq_end dq \<and> length (dq_data dq1) = dq_capacity dq1 \<and>
     deque_inv (dq1\<lparr>dq_size := dq_size dq\<rparr>) \<and>
     (\<forall>i < dq_size dq. dq_data dq1 ! dq_idx dq1 i = dq_data dq ! dq_idx dq i)"

lemma reorder_grows:
  assumes inv: "deque_inv dq" and m: "dq_size dq \<le> m" "m \<le> c" and c: "dq_capacity dq \<le> c"
  shows "\<exists>dq1. deque_reorder_data (dq\<lparr>dq_size := m, dq_data := mem_realloc c (dq_data dq)\<rparr>) c
           = Some dq1 \<and> grown dq (dq1\<lparr>dq_capacity := c\<rparr>) m"
proof (cases "m = 0 \<or> dq_start dq = 0 \<or> dq_end dq > dq_start dq")
  case True
  then have "dq_start dq = 0 \<or> dq_end dq > dq_start dq"
    using inv m by (auto simp: deque_inv_def)
  then show ?thesis
    using inv m c
    by (cases "dq_size dq = 0")
      (auto simp: deque_reorder_data_def grown_def deque_inv_def dq_idx_def mem_realloc_length
        mem_realloc_nth split: if_splits)
next
  case False
  let ?d = "c - dq_capacity dq" and ?D = "mem_realloc c (dq_data dq)"
  have size: "dq_size dq \<noteq> 0" and wrap: "dq_size dq = dq_end dq + dq_capacity dq - dq_start dq"
    and bounds: "dq_start dq < dq_capacity dq" "dq_end dq \<le> dq_start dq" "0 < dq_end dq"
      "length (dq_data dq) = dq_capacity dq"
    using inv False by (auto simp: deque_inv_def split: if_splits)
  have r: "mem_read (dq_start dq) (dq_capacity dq - dq_start dq) ?D
      = Some (take (dq_capacity dq - dq_start dq) (drop (dq_start dq) ?D))" (is "_ = Some ?xs")
    using bounds c by (intro mem_read_ok) (simp add: mem_realloc_length)
  have lxs: "length ?xs = dq_capacity dq - dq_start dq"
    using bounds c by (simp add: mem_realloc_length)
  have "dq_start dq + ?d + length ?xs \<le> length ?D"
    using bounds c lxs by (simp add: mem_realloc_length)
  from mem_write_ex [OF this] obtain D' where
    w: "mem_write (dq_start dq + ?d) ?xs ?D = Some D'" and lD: "length D' = length ?D"
    and nD: "\<forall>k < length ?D. D' ! k =
       (if dq_start dq + ?d \<le> k \<and> k < dq_start dq + ?d + length ?xs
        then ?xs ! (k - (dq_start dq + ?d)) else ?D ! k)"
    by blast
  have nth: "D' ! k = (if dq_start dq + ?d \<le> k then dq_data dq ! (k - ?d) else dq_data dq ! k)"
    if "k < c" "dq_start dq + ?d \<le> k \<or> k < dq_capacity dq" for k
    using that bounds c nD lxs
    by (auto simp: mem_realloc_length mem_realloc_nth)
  let ?dq1 = "dq\<lparr>dq_size := m, dq_data := D', dq_start := dq_start dq + ?d\<rparr>"
  have eq: "deque_reorder_data (dq\<lparr>dq_size := m, dq_data := ?D\<rparr>) c = Some ?dq1"
    using False r w by (simp add: deque_reorder_data_def)
  have cells: "D' ! dq_idx (?dq1\<lparr>dq_capacity := c\<rparr>) i = dq_data dq ! dq_idx dq i"
    if "i < dq_size dq" for i
  proof (cases "dq_start dq + i < dq_capacity dq")
    case True
    then have "dq_idx (?dq1\<lparr>dq_capacity := c\<rparr>) i = dq_start dq + ?d + i"
      and "dq_idx dq i = dq_start dq + i" and "dq_start dq + ?d + i < c"
      using c by (auto simp: dq_idx_def)
    with nth [of "dq_start dq + ?d + i"] show ?thesis by simp
  next
    case wrapped: False
    let ?j = "dq_start dq + i - dq_capacity dq"
    have "dq_idx (?dq1\<lparr>dq_capacity := c\<rparr>) i = ?j" "dq_idx dq i = ?j"
      "?j < dq_start dq + ?d" "?j < c" "?j < dq_capacity dq"
      using wrapped c that wrap bounds by (auto simp: dq_idx_def)
    with nth [of ?j] show ?thesis by simp
  qed
  have "grown dq (?dq1\<lparr>dq_capacity := c\<rparr>) m"
    using size wrap bounds c m cells by (auto simp: grown_def deque_inv_def lD mem_realloc_length)
  with eq show ?thesis by blast
qed

lemma ensure_grows:
  assumes inv: "deque_inv dq" and m: "dq_size dq \<le> m"
  shows "\<exists>dq1. deque_ensure_capacity (dq\<lparr>dq_size := m\<rparr>) = Some dq1 \<and> grown dq dq1 m"
proof (cases "m \<le> dq_capacity dq")
  case True
  then show ?thesis
    using inv by (auto simp: deque_ensure_capacity_def grown_def deque_inv_def dq_idx_def)
next
  case False
  let ?c = "if m > dq_capacity dq * 2 then m else dq_capacity dq * 2"
  have c: "m \<le> ?c" "dq_capacity dq \<le> ?c" using False by auto
  obtain dq1 where
    "deque_reorder_data (dq\<lparr>dq_size := m, dq_data := mem_realloc ?c (dq_data dq)\<rparr>) ?c = Some dq1"
    "grown dq (dq1\<lparr>dq_capacity := ?c\<rparr>) m"
    using reorder_grows [OF inv m] c by blast
  with False show ?thesis
    by (auto simp: deque_ensure_capacity_def Let_def)
qed

lemma grown_nth:
  "grown dq dq1 m \<Longrightarrow> deque_repr dq xs \<Longrightarrow> i < length xs \<Longrightarrow>
   dq_data dq1 ! dq_idx dq1 i = Some (xs ! i)"
  by (metis deque_repr_length deque_repr_nth grown_def)

lemma deque_reserve_repr:
  assumes "deque_repr dq xs"
  shows "\<exists>dq'. deque_reserve dq c = Some dq' \<and> deque_repr dq' xs \<and> c \<le> dq_capacity dq'"
proof (cases "c \<le> dq_capacity dq")
  case True
  with assms show ?thesis by (simp add: deque_reserve_def)
next
  case False
  have inv: "deque_inv dq" using assms by (rule deque_repr_inv)
  then have "dq_size dq \<le> c" using False by (simp add: deque_inv_def)
  then obtain dq1 where
    r: "deque_reorder_data (dq\<lparr>dq_size := dq_size dq, dq_data := mem_realloc c (dq_data dq)\<rparr>) c
      = Some dq1" and g: "grown dq (dq1\<lparr>dq_capacity := c\<rparr>) (dq_size dq)"
    using reorder_grows [OF inv le_refl, of c] False by auto
  from g have "deque_repr (dq1\<lparr>dq_capacity := c\<rparr>) xs"
    using assms deque_repr_length [OF assms] grown_nth [OF g assms]
    by (intro deque_reprI) (auto simp: grown_def deque_inv_def)
  moreover have "deque_reserve dq c = Some (dq1\<lparr>dq_capacity := c\<rparr>)"
    using False r by (simp add: deque_reserve_def)
  ultimately show ?thesis by simp
qed

section \<open>Pushing\<close>

text \<open>The \<open>memset\<close> variants write the same cells as pushing that many zeroes.\<close>

lemma deque_reorder_end: "deque_reorder_data dq c = Some dq' \<Longrightarrow> dq_end dq' = dq_end dq"
  by (auto simp: deque_reorder_data_def Let_def bind_eq_Some_conv split: if_splits)

lemma deque_ensure_end: "deque_ensure_capacity dq = Some dq' \<Longrightarrow> dq_end dq' = dq_end dq"
  by (auto simp: deque_ensure_capacity_def Let_def bind_eq_Some_conv
      dest!: deque_reorder_end split: if_splits)

lemma deque_push_back_zero_eq: "deque_push_back_zero dq n = deque_push_back dq (replicate n 0)"
  by (auto simp: deque_push_back_zero_def deque_push_back_def Let_def min_def
      dest!: deque_ensure_end intro!: Option.bind_cong)

lemma deque_push_front_zero_eq:
  "deque_push_front_zero dq n = deque_push_front dq (replicate n 0)"
  by (auto simp: deque_push_front_zero_def deque_push_front_def Let_def min_def
      intro!: Option.bind_cong)

lemma deque_upsize_eq:
  "deque_upsize dq n =
     (if n \<le> dq_size dq then Some dq else deque_push_back_zero dq (n - dq_size dq))"
  by (auto simp: deque_upsize_def deque_push_back_zero_def Let_def intro!: Option.bind_cong)

text \<open>
  The two halves of a wrapped copy: \<open>take b vs\<close> goes to the end of the block, from \<open>e\<close> on,
  and the rest to its beginning. The order of the two writes does not matter.
\<close>

lemma ring_write_wrapped:
  assumes "e \<le> length D" "length D - e \<le> length vs" "length vs \<le> length D"
  shows "\<exists>d1 d2. (if length D - e \<noteq> 0 then mem_write e (take (length D - e) vs) D else Some D) = Some d1
    \<and> mem_write 0 (drop (length D - e) vs) d1 = Some d2 \<and> length d2 = length D
    \<and> (\<forall>k < length D. d2 ! k =
         (if e \<le> k then vs ! (k - e)
          else if k < length vs - (length D - e) then vs ! (length D - e + k) else D ! k))"
proof -
  let ?b = "length D - e"
  have "e + length (take ?b vs) \<le> length D" using assms by simp
  from mem_write_ex [OF this] obtain d1 where
    d1: "mem_write e (take ?b vs) D = Some d1" "length d1 = length D"
    "\<forall>k < length D. d1 ! k = (if e \<le> k then vs ! (k - e) else D ! k)"
    using assms by auto
  have "0 + length (drop ?b vs) \<le> length d1" using assms d1 by simp
  from mem_write_ex [OF this] obtain d2 where
    d2: "mem_write 0 (drop ?b vs) d1 = Some d2" "length d2 = length D"
    "\<forall>k < length D. d2 ! k = (if k < length vs - ?b then vs ! (?b + k) else d1 ! k)"
    using d1 assms by auto
  have "length vs - ?b \<le> e" using assms by simp
  moreover have "?b = 0 \<Longrightarrow> d1 = D" using d1 by (auto simp: mem_write_def split: if_splits)
  ultimately show ?thesis using d1 d2 by (intro exI [of _ d1] exI [of _ d2]) auto
qed

lemma push_back_wrapped:
  assumes inv: "deque_inv (dq1\<lparr>dq_size := length xs\<rparr>)" and lD: "length (dq_data dq1) = dq_capacity dq1"
    and fit: "length xs + length ys \<le> dq_capacity dq1" "dq_size dq1 = length xs + length ys"
    and wrap: "dq_end dq1 + length ys > dq_capacity dq1"
    and old: "\<And>i. i < length xs \<Longrightarrow> dq_data dq1 ! dq_idx dq1 i = Some (xs ! i)"
  shows "\<exists>d1 d2. (if dq_capacity dq1 - dq_end dq1 \<noteq> 0
           then mem_write (dq_end dq1) (map Some (take (dq_capacity dq1 - dq_end dq1) ys)) (dq_data dq1)
           else Some (dq_data dq1)) = Some d1
    \<and> mem_write 0 (map Some (drop (dq_capacity dq1 - dq_end dq1) ys)) d1 = Some d2
    \<and> deque_repr (dq1\<lparr>dq_data := d2, dq_end := dq_end dq1 + length ys - dq_capacity dq1\<rparr>) (xs @ ys)"
proof -
  let ?c = "dq_capacity dq1" and ?e = "dq_end dq1" and ?n = "length ys"
  have xs: "length xs > 0" "dq_start dq1 < ?e" "length xs = ?e - dq_start dq1" "?e \<le> ?c"
    using inv fit wrap by (auto simp: deque_inv_def split: if_splits)
  have "?e \<le> length (dq_data dq1)" "length (dq_data dq1) - ?e \<le> length (map Some ys)"
    "length (map Some ys) \<le> length (dq_data dq1)"
    using xs fit wrap lD by auto
  from ring_write_wrapped [OF this] obtain d1 d2 where
    w: "(if ?c - ?e \<noteq> 0 then mem_write ?e (map Some (take (?c - ?e) ys)) (dq_data dq1)
         else Some (dq_data dq1)) = Some d1"
      "mem_write 0 (map Some (drop (?c - ?e) ys)) d1 = Some d2" "length d2 = ?c"
    and n2: "\<forall>k < ?c. d2 ! k =
         (if ?e \<le> k then map Some ys ! (k - ?e)
          else if k < ?n - (?c - ?e) then map Some ys ! (?c - ?e + k) else dq_data dq1 ! k)"
    unfolding lD take_map drop_map length_map by blast
  let ?dq' = "dq1\<lparr>dq_data := d2, dq_end := ?e + ?n - ?c\<rparr>"
  have nth: "d2 ! dq_idx ?dq' i = Some ((xs @ ys) ! i)" if i: "i < length xs + ?n" for i
  proof (cases "i < length xs")
    case True
    then have k: "dq_idx dq1 i = dq_start dq1 + i" "dq_idx ?dq' i = dq_start dq1 + i"
      "dq_start dq1 + i < ?e" "\<not> dq_start dq1 + i < ?n - (?c - ?e)"
      using xs fit by (auto simp: dq_idx_def)
    then show ?thesis using True old [OF True] n2 xs by (simp add: nth_append)
  next
    case False
    with i xs fit wrap show ?thesis
      using n2 by (auto simp: dq_idx_def nth_append add.commute)
  qed
  have "deque_repr ?dq' (xs @ ys)"
    using nth xs fit w wrap inv by (intro deque_reprI) (auto simp: deque_inv_def)
  with w show ?thesis by blast
qed

lemma push_back_straight:
  assumes inv: "deque_inv (dq1\<lparr>dq_size := length xs\<rparr>)" and lD: "length (dq_data dq1) = dq_capacity dq1"
    and fit: "length xs + length ys \<le> dq_capacity dq1" "dq_size dq1 = length xs + length ys"
    and room: "dq_end dq1 + length ys \<le> dq_capacity dq1"
    and old: "\<And>i. i < length xs \<Longrightarrow> dq_data dq1 ! dq_idx dq1 i = Some (xs ! i)"
  shows "\<exists>d1. mem_write (dq_end dq1) (map Some ys) (dq_data dq1) = Some d1
    \<and> deque_repr (dq1\<lparr>dq_data := d1, dq_end := dq_end dq1 + length ys\<rparr>) (xs @ ys)"
proof -
  let ?c = "dq_capacity dq1" and ?e = "dq_end dq1" and ?n = "length ys"
  obtain d1 where d1: "mem_write ?e (map Some ys) (dq_data dq1) = Some d1" "length d1 = ?c"
    and n1: "\<forall>k < ?c. d1 ! k =
      (if ?e \<le> k \<and> k < ?e + ?n then map Some ys ! (k - ?e) else dq_data dq1 ! k)"
    using mem_write_ex [of ?e "map Some ys" "dq_data dq1"] room lD by auto
  let ?dq' = "dq1\<lparr>dq_data := d1, dq_end := ?e + ?n\<rparr>"
  have nth: "d1 ! dq_idx ?dq' i = Some ((xs @ ys) ! i)" if i: "i < length xs + ?n" for i
  proof (cases "i < length xs")
    case True
    then have "dq_idx ?dq' i = dq_idx dq1 i" "dq_idx dq1 i < ?c"
      "\<not> (?e \<le> dq_idx dq1 i \<and> dq_idx dq1 i < ?e + ?n)"
      using inv fit by (auto simp: dq_idx_def deque_inv_def split: if_splits)
    then show ?thesis using True old [OF True] n1 by (auto simp: nth_append)
  next
    case ge: False
    then have "dq_idx ?dq' i = ?e + (i - length xs)"
      using inv fit room i by (auto simp: dq_idx_def deque_inv_def split: if_splits)
    with ge i room show ?thesis using n1 by (auto simp: nth_append)
  qed
  have "deque_repr ?dq' (xs @ ys)"
    using nth fit d1 room inv
    by (intro deque_reprI) (auto simp: deque_inv_def split: if_splits)
  with d1 show ?thesis by blast
qed

lemma deque_push_back_repr:
  assumes repr: "deque_repr dq xs"
  shows "\<exists>dq'. deque_push_back dq ys = Some dq' \<and> deque_repr dq' (xs @ ys)"
proof -
  have inv: "deque_inv dq" and size: "dq_size dq = length xs"
    using repr by (simp_all add: deque_repr_inv deque_repr_length)
  obtain dq1 where e: "deque_ensure_capacity (dq\<lparr>dq_size := dq_size dq + length ys\<rparr>) = Some dq1"
    and g: "grown dq dq1 (dq_size dq + length ys)"
    using ensure_grows [OF inv, of "dq_size dq + length ys"] by auto
  have 1: "deque_inv (dq1\<lparr>dq_size := length xs\<rparr>)" "length (dq_data dq1) = dq_capacity dq1"
    "length xs + length ys \<le> dq_capacity dq1" "dq_size dq1 = length xs + length ys"
    and e1: "dq_end dq1 = dq_end dq"
    using g size by (auto simp: grown_def)
  have old: "\<And>i. i < length xs \<Longrightarrow> dq_data dq1 ! dq_idx dq1 i = Some (xs ! i)"
    by (rule grown_nth [OF g repr])
  show ?thesis
  proof (cases "dq_end dq + length ys > dq_capacity dq1")
    case True
    from push_back_wrapped [OF 1 _ old] True e1 show ?thesis
      by (auto simp: deque_push_back_def e Let_def)
  next
    case False
    from push_back_straight [OF 1 _ old] False e1 show ?thesis
      by (auto simp: deque_push_back_def e Let_def)
  qed
qed

lemma push_front_wrapped:
  assumes inv: "deque_inv (dq1\<lparr>dq_size := length xs\<rparr>)" and lD: "length (dq_data dq1) = dq_capacity dq1"
    and fit: "length ys + length xs \<le> dq_capacity dq1" "dq_size dq1 = length ys + length xs"
    and ne: "xs \<noteq> []" and wrap: "dq_start dq1 < length ys"
    and old: "\<And>i. i < length xs \<Longrightarrow> dq_data dq1 ! dq_idx dq1 i = Some (xs ! i)"
  shows "\<exists>d1 d2. (if dq_start dq1 \<noteq> 0
           then mem_write 0 (map Some (drop (length ys - dq_start dq1) ys)) (dq_data dq1)
           else Some (dq_data dq1)) = Some d1
    \<and> mem_write (dq_capacity dq1 - (length ys - dq_start dq1))
        (map Some (take (length ys - dq_start dq1) ys)) d1 = Some d2
    \<and> deque_repr (dq1\<lparr>dq_data := d2,
        dq_start := dq_capacity dq1 - (length ys - dq_start dq1)\<rparr>) (ys @ xs)"
proof -
  let ?c = "dq_capacity dq1" and ?s = "dq_start dq1" and ?n = "length ys"
  let ?s' = "?c - (?n - ?s)"
  have xs: "?s < ?c" "?s < dq_end dq1" "length xs = dq_end dq1 - ?s" "dq_end dq1 \<le> ?s'"
    using inv fit wrap ne by (auto simp: deque_inv_def split: if_splits)
  have "0 + length (map Some (drop (?n - ?s) ys)) \<le> length (dq_data dq1)"
    using xs wrap lD by simp
  from mem_write_ex [OF this] obtain d1 where
    d1: "mem_write 0 (map Some (drop (?n - ?s) ys)) (dq_data dq1) = Some d1" "length d1 = ?c"
      "\<forall>k < ?c. d1 ! k = (if k < ?s then Some (ys ! (?n - ?s + k)) else dq_data dq1 ! k)"
    using wrap lD by auto
  have "?s' + length (map Some (take (?n - ?s) ys)) \<le> length d1"
    using xs fit d1 by simp
  from mem_write_ex [OF this] obtain d2 where
    w2: "mem_write ?s' (map Some (take (?n - ?s) ys)) d1 = Some d2" "length d2 = length d1"
    and raw: "\<forall>k < length d1. d2 ! k =
      (if ?s' \<le> k \<and> k < ?s' + length (map Some (take (?n - ?s) ys))
       then map Some (take (?n - ?s) ys) ! (k - ?s') else d1 ! k)"
    by blast
  have len: "length (take (?n - ?s) ys) = ?n - ?s" "?s' + (?n - ?s) = ?c"
    using xs fit wrap by auto
  have "d2 ! k = (if ?s' \<le> k then Some (ys ! (k - ?s')) else d1 ! k)" if "k < ?c" for k
    using raw d1(2) that len by auto
  with w2 d1 have d2: "mem_write ?s' (map Some (take (?n - ?s) ys)) d1 = Some d2" "length d2 = ?c"
      "\<forall>k < ?c. d2 ! k = (if ?s' \<le> k then Some (ys ! (k - ?s')) else d1 ! k)"
    by simp_all
  have skip: "?s = 0 \<Longrightarrow> d1 = dq_data dq1"
    using d1 by (simp add: mem_write_def)
  let ?dq' = "dq1\<lparr>dq_data := d2, dq_start := ?s'\<rparr>"
  have nth: "d2 ! dq_idx ?dq' i = Some ((ys @ xs) ! i)" if i: "i < ?n + length xs" for i
  proof (cases "i < ?n")
    case True
    show ?thesis
    proof (cases "i < ?n - ?s")
      case low: True
      then have "dq_idx ?dq' i = ?s' + i" "?s' + i < ?c" using len by (auto simp: dq_idx_def)
      with d2(3) True show ?thesis by (simp add: nth_append)
    next
      case False
      then have "dq_idx ?dq' i = i - (?n - ?s)" "i - (?n - ?s) < ?s" "i - (?n - ?s) < ?s'"
        using len xs True wrap by (auto simp: dq_idx_def)
      with d2(3) d1(3) True False xs wrap show ?thesis by (simp add: nth_append)
    qed
  next
    case False
    let ?k = "?s + (i - ?n)"
    have k: "dq_idx ?dq' i = ?k" "dq_idx dq1 (i - ?n) = ?k" "?k < dq_end dq1"
      using False i xs fit wrap by (auto simp: dq_idx_def)
    have "?k < ?c" "\<not> ?s' \<le> ?k" "\<not> ?k < ?s" "i - ?n < length xs"
      using k xs fit False i by linarith+
    with d2(3) d1(3) old [of "i - ?n"] k have "d2 ! ?k = Some (xs ! (i - ?n))" by simp
    then show ?thesis using False k by (simp add: nth_append)
  qed
  have "deque_repr ?dq' (ys @ xs)"
    using nth xs fit d2 wrap by (intro deque_reprI) (auto simp: deque_inv_def)
  with d1 d2 skip show ?thesis by auto
qed

lemma push_front_straight:
  assumes inv: "deque_inv (dq1\<lparr>dq_size := length xs\<rparr>)" and lD: "length (dq_data dq1) = dq_capacity dq1"
    and fit: "length ys + length xs \<le> dq_capacity dq1" "dq_size dq1 = length ys + length xs"
    and ne: "xs \<noteq> []" and room: "length ys \<le> dq_start dq1"
    and old: "\<And>i. i < length xs \<Longrightarrow> dq_data dq1 ! dq_idx dq1 i = Some (xs ! i)"
  shows "\<exists>d1. mem_write (dq_start dq1 - length ys) (map Some ys) (dq_data dq1) = Some d1
    \<and> deque_repr (dq1\<lparr>dq_data := d1, dq_start := dq_start dq1 - length ys\<rparr>) (ys @ xs)"
proof -
  let ?c = "dq_capacity dq1" and ?s = "dq_start dq1" and ?n = "length ys"
  have s: "?s < ?c" using inv ne by (auto simp: deque_inv_def split: if_splits)
  obtain d1 where d1: "mem_write (?s - ?n) (map Some ys) (dq_data dq1) = Some d1" "length d1 = ?c"
    and n1: "\<forall>k < ?c. d1 ! k =
      (if ?s - ?n \<le> k \<and> k < ?s then map Some ys ! (k - (?s - ?n)) else dq_data dq1 ! k)"
    using mem_write_ex [of "?s - ?n" "map Some ys" "dq_data dq1"] room lD s by auto
  let ?dq' = "dq1\<lparr>dq_data := d1, dq_start := ?s - ?n\<rparr>"
  have nth: "d1 ! dq_idx ?dq' i = Some ((ys @ xs) ! i)" if i: "i < ?n + length xs" for i
  proof (cases "i < ?n")
    case True
    then show ?thesis using n1 s room by (auto simp: dq_idx_def nth_append)
  next
    case False
    then have "dq_idx ?dq' i = dq_idx dq1 (i - ?n)" "dq_idx dq1 (i - ?n) < ?c"
      "\<not> (?s - ?n \<le> dq_idx dq1 (i - ?n) \<and> dq_idx dq1 (i - ?n) < ?s)"
      using i s room inv fit ne by (auto simp: dq_idx_def deque_inv_def split: if_splits)
    then show ?thesis using False n1 i old [of "i - ?n"] by (auto simp: nth_append)
  qed
  have "deque_repr ?dq' (ys @ xs)"
    using nth fit d1 room inv ne s
    by (intro deque_reprI) (auto simp: deque_inv_def split: if_splits)
  with d1 show ?thesis by blast
qed

lemma deque_push_front_repr:
  assumes repr: "deque_repr dq xs"
  shows "\<exists>dq'. deque_push_front dq ys = Some dq' \<and> deque_repr dq' (ys @ xs)"
proof -
  have inv: "deque_inv dq" and size: "dq_size dq = length xs"
    using repr by (simp_all add: deque_repr_inv deque_repr_length)
  obtain dq1 where e: "deque_ensure_capacity (dq\<lparr>dq_size := dq_size dq + length ys\<rparr>) = Some dq1"
    and g: "grown dq dq1 (dq_size dq + length ys)"
    using ensure_grows [OF inv, of "dq_size dq + length ys"] by auto
  have 1: "deque_inv (dq1\<lparr>dq_size := length xs\<rparr>)" "length (dq_data dq1) = dq_capacity dq1"
    "length ys + length xs \<le> dq_capacity dq1" "dq_size dq1 = length ys + length xs"
    using g size by (auto simp: grown_def)
  have old: "\<And>i. i < length xs \<Longrightarrow> dq_data dq1 ! dq_idx dq1 i = Some (xs ! i)"
    by (rule grown_nth [OF g repr])
  consider "xs = []" | "xs \<noteq> []" "dq_start dq1 < length ys" | "xs \<noteq> []" "length ys \<le> dq_start dq1"
    by linarith
  then show ?thesis
  proof cases
    case 1
    let ?n = "length ys"
    obtain d1 where d1: "mem_write 0 (map Some ys) (dq_data dq1) = Some d1"
      "length d1 = dq_capacity dq1"
      "\<forall>k < dq_capacity dq1. d1 ! k = (if k < ?n then Some (ys ! k) else dq_data dq1 ! k)"
      using mem_write_ex [of 0 "map Some ys" "dq_data dq1"] g by (auto simp: grown_def)
    have pos: "0 < dq_capacity dq1" if "ys \<noteq> []"
      using that \<open>length ys + length xs \<le> dq_capacity dq1\<close> by (cases ys) auto
    have "deque_repr (dq1\<lparr>dq_data := d1, dq_start := 0, dq_end := ?n\<rparr>) ys"
      using d1 g 1 size \<open>length ys + length xs \<le> dq_capacity dq1\<close>
      by (intro deque_reprI) (auto simp: deque_inv_def dq_idx_def grown_def pos)
    with d1 1 e \<open>dq_size dq1 = length ys + length xs\<close> size show ?thesis
      by (simp add: deque_push_front_def Let_def)
  next
    case 2
    from push_front_wrapped [OF \<open>deque_inv (dq1\<lparr>dq_size := length xs\<rparr>)\<close>
        \<open>length (dq_data dq1) = dq_capacity dq1\<close> \<open>length ys + length xs \<le> dq_capacity dq1\<close>
        \<open>dq_size dq1 = length ys + length xs\<close> 2 old]
    show ?thesis using 2 \<open>dq_size dq1 = length ys + length xs\<close>
      by (auto simp: deque_push_front_def e Let_def)
  next
    case 3
    from push_front_straight [OF \<open>deque_inv (dq1\<lparr>dq_size := length xs\<rparr>)\<close>
        \<open>length (dq_data dq1) = dq_capacity dq1\<close> \<open>length ys + length xs \<le> dq_capacity dq1\<close>
        \<open>dq_size dq1 = length ys + length xs\<close> 3 old]
    show ?thesis using 3 \<open>dq_size dq1 = length ys + length xs\<close>
      by (auto simp: deque_push_front_def e Let_def)
  qed
qed

section \<open>Peeking and popping\<close>

lemma deque_peek_front_eq:
  assumes repr: "deque_repr dq xs" and n: "n \<le> length xs"
  shows "deque_peek_front dq want n = Some (if want then map Some (take n xs) else [])"
proof -
  have inv: "deque_inv dq" and size: "dq_size dq = length xs"
    using repr by (simp_all add: deque_repr_inv deque_repr_length)
  have old: "dq_data dq ! dq_idx dq i = Some (xs ! i)" if "i < n" for i
    using deque_repr_nth [OF repr, of i] that n by simp
  let ?k = "dq_capacity dq - dq_start dq" and ?D = "dq_data dq"
  show ?thesis
  proof (cases "?k < n")
    case True
    have b: "n - ?k \<le> length ?D" "dq_start dq + ?k \<le> length ?D" "dq_start dq < dq_capacity dq"
      and lD: "length ?D = dq_capacity dq"
      using inv n size True by (auto simp: deque_inv_def split: if_splits)
    have "take ?k (drop (dq_start dq) ?D) @ take (n - ?k) ?D = map Some (take n xs)"
    proof (rule nth_equalityI)
      show "length (take ?k (drop (dq_start dq) ?D) @ take (n - ?k) ?D) = length (map Some (take n xs))"
        using b n True by simp
    next
      fix i assume "i < length (take ?k (drop (dq_start dq) ?D) @ take (n - ?k) ?D)"
      then have i: "i < n" using b n True by simp
      show "(take ?k (drop (dq_start dq) ?D) @ take (n - ?k) ?D) ! i = map Some (take n xs) ! i"
        using i n old [OF i] b lD by (auto simp: nth_append dq_idx_def add.commute split: if_splits)
    qed
    with True n size b show ?thesis by (simp add: deque_peek_front_def mem_read_def Let_def)
  next
    case False
    have b: "dq_start dq + n \<le> length ?D"
      using inv n size False by (auto simp: deque_inv_def split: if_splits)
    have "take n (drop (dq_start dq) ?D) = map Some (take n xs)"
    proof (rule nth_equalityI)
      fix i assume "i < length (take n (drop (dq_start dq) ?D))"
      then have i: "i < n" by simp
      show "take n (drop (dq_start dq) ?D) ! i = map Some (take n xs) ! i"
        using i n old [OF i] b inv False
        by (auto simp: dq_idx_def deque_inv_def split: if_splits)
    qed (use b n in simp)
    with False n size b show ?thesis by (simp add: deque_peek_front_def mem_read_def Let_def)
  qed
qed

lemma deque_peek_front_assert: "deque_repr dq xs \<Longrightarrow> length xs < n \<Longrightarrow> deque_peek_front dq want n = None"
  by (simp add: deque_peek_front_def deque_repr_length)

lemma deque_peek_back_eq:
  assumes repr: "deque_repr dq xs" and n: "n \<le> length xs"
  shows "deque_peek_back dq want n = Some (if want then map Some (drop (length xs - n) xs) else [])"
proof (cases "want \<and> n > 0")
  case False
  then show ?thesis using n deque_repr_length [OF repr] deque_repr_inv [OF repr]
    by (auto simp: deque_peek_back_def mem_read_def Let_def deque_inv_def split: if_splits)
next
  case want: True
  have inv: "deque_inv dq" and size: "dq_size dq = length xs"
    using repr by (simp_all add: deque_repr_inv deque_repr_length)
  let ?e = "dq_end dq" and ?c = "dq_capacity dq" and ?D = "dq_data dq"
  have e: "0 < ?e" "?e \<le> ?c" "length ?D = ?c"
    using inv size want n by (auto simp: deque_inv_def split: if_splits)
  have old: "?D ! dq_idx dq (length xs - n + i) = Some (xs ! (length xs - n + i))" if "i < n" for i
    using deque_repr_nth [OF repr, of "length xs - n + i"] that n by simp
  have idx: "dq_idx dq (length xs - n + i)
      = (if i < n - ?e then ?c - (n - ?e) + i else ?e + i - n)" if "i < n" for i
    using that n inv size by (auto simp: dq_idx_def deque_inv_def split: if_splits)
  show ?thesis
  proof (cases "?e < n")
    case True
    have "take (n - ?e) (drop (?c - (n - ?e)) ?D) @ take ?e ?D = map Some (drop (length xs - n) xs)"
    proof (rule nth_equalityI)
      show "length (take (n - ?e) (drop (?c - (n - ?e)) ?D) @ take ?e ?D)
        = length (map Some (drop (length xs - n) xs))"
        using True n e inv size by (auto simp: deque_inv_def split: if_splits)
    next
      fix i assume "i < length (take (n - ?e) (drop (?c - (n - ?e)) ?D) @ take ?e ?D)"
      then have i: "i < n" using e True by (auto split: if_splits)
      have "n \<le> ?c" using n inv size by (simp add: deque_inv_def)
      then show "(take (n - ?e) (drop (?c - (n - ?e)) ?D) @ take ?e ?D) ! i
          = map Some (drop (length xs - n) xs) ! i"
        using i n old [OF i] idx [OF i] e True by (auto simp: nth_append add.commute)
    qed
    with True n size e want inv show ?thesis
      by (simp add: deque_peek_back_def mem_read_def Let_def deque_inv_def)
  next
    case False
    have "take n (drop (?e - n) ?D) = map Some (drop (length xs - n) xs)"
    proof (rule nth_equalityI)
      fix i assume "i < length (take n (drop (?e - n) ?D))"
      then have i: "i < n" by simp
      show "take n (drop (?e - n) ?D) ! i = map Some (drop (length xs - n) xs) ! i"
        using i n old [OF i] idx [OF i] e False by (auto simp: add.commute)
    qed (use e n False in simp)
    with False n size e want show ?thesis
      by (simp add: deque_peek_back_def mem_read_def Let_def)
  qed
qed

lemma deque_pop_front_repr:
  assumes repr: "deque_repr dq xs" and n: "n \<le> length xs"
  shows "\<exists>dq'. deque_pop_front dq want n = Some (if want then map Some (take n xs) else [], dq')
    \<and> deque_repr dq' (drop n xs)"
proof -
  have inv: "deque_inv dq" and size: "dq_size dq = length xs"
    using repr by (simp_all add: deque_repr_inv deque_repr_length)
  show ?thesis
  proof (cases "n = length xs")
    case True
    have "deque_repr (dq\<lparr>dq_size := 0, dq_start := 0, dq_end := 0\<rparr>) []"
      using inv by (auto simp: deque_repr_def deque_inv_def dq_cells_def)
    with True deque_peek_front_eq [OF repr n, of want] show ?thesis
      by (simp add: deque_pop_front_def size Let_def)
  next
    case False
    let ?s = "dq_start dq + n" and ?c = "dq_capacity dq"
    let ?dq' = "dq\<lparr>dq_size := length xs - n, dq_start := if ?s \<ge> ?c then ?s - ?c else ?s\<rparr>"
    have ne: "length xs \<noteq> 0" "n < length xs" using False n by auto
    have inv': "deque_inv ?dq'"
      using inv size ne n by (auto simp: deque_inv_def split: if_splits)
    have idx: "dq_idx ?dq' i = dq_idx dq (n + i)" if "i < length xs - n" for i
      using inv size that by (auto simp: dq_idx_def deque_inv_def split: if_splits)
    have "deque_repr ?dq' (drop n xs)"
      using deque_repr_nth [OF repr] n by (intro deque_reprI inv') (auto simp: idx)
    with ne n show ?thesis
      by (auto simp: deque_pop_front_def deque_peek_front_eq [OF repr n] size Let_def)
  qed
qed

lemma deque_pop_back_repr:
  assumes repr: "deque_repr dq xs" and n: "n \<le> length xs"
  shows "\<exists>dq'. deque_pop_back dq want n
      = Some (if want then map Some (drop (length xs - n) xs) else [], dq')
    \<and> deque_repr dq' (take (length xs - n) xs)"
proof -
  have inv: "deque_inv dq" and size: "dq_size dq = length xs"
    using repr by (simp_all add: deque_repr_inv deque_repr_length)
  show ?thesis
  proof (cases "n = length xs")
    case True
    have "deque_repr (dq\<lparr>dq_size := 0, dq_start := 0, dq_end := 0\<rparr>) []"
      using inv by (auto simp: deque_repr_def deque_inv_def dq_cells_def)
    with True deque_peek_back_eq [OF repr n, of want] show ?thesis
      by (simp add: deque_pop_back_def size Let_def)
  next
    case False
    let ?e = "if dq_end dq \<le> n then dq_capacity dq - (n - dq_end dq) else dq_end dq - n"
    let ?dq' = "dq\<lparr>dq_size := length xs - n, dq_end := ?e\<rparr>"
    have ne: "length xs \<noteq> 0" "n < length xs" using False n by auto
    have inv': "deque_inv ?dq'"
      using inv size ne n by (auto simp: deque_inv_def split: if_splits)
    have idx: "dq_idx ?dq' i = dq_idx dq i" for i by (simp add: dq_idx_def)
    have "deque_repr ?dq' (take (length xs - n) xs)"
      using deque_repr_nth [OF repr] n by (intro deque_reprI inv') (auto simp: idx)
    with ne n show ?thesis
      by (auto simp: deque_pop_back_def deque_peek_back_eq [OF repr n] size Let_def)
  qed
qed

lemma deque_data_eq:
  assumes "deque_repr dq xs"
  shows "case deque_data dq i of None \<Rightarrow> length xs \<le> i
    | Some p \<Rightarrow> i < length xs \<and> p < dq_capacity dq \<and> dq_data dq ! p = Some (xs ! i)"
proof (cases "i < length xs")
  case True
  have inv: "deque_inv dq" and size: "dq_size dq = length xs"
    using assms by (simp_all add: deque_repr_inv deque_repr_length)
  have "dq_idx dq i < dq_capacity dq"
    using inv size True by (auto simp: dq_idx_def deque_inv_def split: if_splits)
  with True size show ?thesis using deque_repr_nth [OF assms True]
    by (auto simp: deque_data_def dq_idx_def Let_def)
next
  case False
  then show ?thesis using deque_repr_length [OF assms] by (simp add: deque_data_def)
qed

section \<open>Overwriting in place\<close>

text \<open>What \<open>deque_place\<close> makes of a list: extend with zeroes, then overwrite.\<close>

definition list_place :: "'a::zero list \<Rightarrow> nat \<Rightarrow> 'a list \<Rightarrow> 'a list" where
  "list_place xs pos ys =
     (let zs = xs @ replicate (pos + length ys - length xs) 0
      in take pos zs @ ys @ drop (pos + length ys) zs)"

lemma deque_upsize_repr:
  assumes "deque_repr dq xs"
  shows "\<exists>dq'. deque_upsize dq n = Some dq' \<and> deque_repr dq' (xs @ replicate (n - length xs) 0)"
  using assms deque_push_back_repr [OF assms, of "replicate (n - length xs) 0"]
  by (auto simp: deque_upsize_eq deque_push_back_zero_eq deque_repr_length)

text \<open>Writing \<open>ys\<close> over the cells of positions \<open>pos ..< pos + length ys\<close> of a queue.\<close>

lemma place_in_range:
  assumes repr: "deque_repr dq zs" and n: "pos + length ys \<le> length zs"
  defines "p \<equiv> (if pos + dq_start dq \<ge> dq_capacity dq then pos + dq_start dq - dq_capacity dq
                 else pos + dq_start dq)"
  shows "\<exists>d. (if p + length ys > dq_capacity dq
      then do { d1 \<leftarrow> mem_write p (map Some (take (dq_capacity dq - p) ys)) (dq_data dq);
                mem_write 0 (map Some (drop (dq_capacity dq - p) ys)) d1 }
      else mem_write p (map Some ys) (dq_data dq)) = Some d
    \<and> deque_repr (dq\<lparr>dq_data := d\<rparr>) (take pos zs @ ys @ drop (pos + length ys) zs)"
proof -
  let ?c = "dq_capacity dq" and ?n = "length ys" and ?D = "dq_data dq"
  have inv: "deque_inv dq" and size: "dq_size dq = length zs"
    using repr by (simp_all add: deque_repr_inv deque_repr_length)
  have fit: "length zs \<le> ?c" "length ?D = ?c" using inv size by (simp_all add: deque_inv_def)
  have start: "dq_start dq < ?c \<or> (zs = [] \<and> dq_start dq = 0)"
    using inv size by (auto simp: deque_inv_def split: if_splits)
  have p: "p \<le> ?c" "0 < ?n \<Longrightarrow> p < ?c" using start n fit by (auto simp: p_def)
  obtain d where d: "(if p + ?n > ?c
      then do { d1 \<leftarrow> mem_write p (map Some (take (?c - p) ys)) ?D;
                mem_write 0 (map Some (drop (?c - p) ys)) d1 }
      else mem_write p (map Some ys) ?D) = Some d" "length d = ?c"
    and nth: "\<And>k. k < ?c \<Longrightarrow> d ! k =
      (if p \<le> k \<and> k < p + ?n then Some (ys ! (k - p))
       else if k + ?c < p + ?n then Some (ys ! (?c - p + k)) else ?D ! k)"
  proof (cases "p + ?n > ?c")
    case True
    have "p \<le> length ?D" "length ?D - p \<le> length (map Some ys)" "length (map Some ys) \<le> length ?D"
      using p True fit n by auto
    from ring_write_wrapped [OF this] True p obtain d1 d2 where
      "mem_write p (map Some (take (?c - p) ys)) ?D = Some d1"
      "mem_write 0 (map Some (drop (?c - p) ys)) d1 = Some d2" "length d2 = ?c"
      "\<forall>k < ?c. d2 ! k = (if p \<le> k then map Some ys ! (k - p)
          else if k < ?n - (?c - p) then map Some ys ! (?c - p + k) else ?D ! k)"
      unfolding fit take_map drop_map length_map by fastforce
    with True p show ?thesis by (intro that [of d2]) auto
  next
    case False
    with mem_write_ex [of p "map Some ys" ?D] fit obtain d1 where
      "mem_write p (map Some ys) ?D = Some d1" "length d1 = ?c"
      "\<forall>k < ?c. d1 ! k = (if p \<le> k \<and> k < p + ?n then map Some ys ! (k - p) else ?D ! k)"
      by auto
    with False show ?thesis by (intro that [of d1]) auto
  qed
  let ?dq' = "dq\<lparr>dq_data := d\<rparr>"
  have "deque_repr ?dq' (take pos zs @ ys @ drop (pos + ?n) zs)"
  proof (rule deque_reprI)
    show "deque_inv ?dq'" using inv d by (simp add: deque_inv_def)
    show "dq_size ?dq' = length (take pos zs @ ys @ drop (pos + ?n) zs)" using size n by simp
  next
    fix i assume "i < length (take pos zs @ ys @ drop (pos + ?n) zs)"
    then have i: "i < length zs" using n by simp
    let ?k = "dq_idx dq i"
    have k: "?k < ?c" using i start fit by (auto simp: dq_idx_def)
    have in_range: "(p \<le> ?k \<and> ?k < p + ?n) \<and> ?k - p = i - pos
        \<or> \<not> (p \<le> ?k \<and> ?k < p + ?n) \<and> ?k + ?c < p + ?n \<and> ?c - p + ?k = i - pos"
      if "pos \<le> i" "i < pos + ?n"
      using that i start fit n by (auto simp: dq_idx_def p_def)
    have out_range: "\<not> (p \<le> ?k \<and> ?k < p + ?n) \<and> \<not> ?k + ?c < p + ?n"
      if "\<not> (pos \<le> i \<and> i < pos + ?n)"
      using that i start fit n by (auto simp: dq_idx_def p_def)
    have "d ! ?k = Some ((take pos zs @ ys @ drop (pos + ?n) zs) ! i)"
    proof (cases "pos \<le> i \<and> i < pos + ?n")
      case True
      with in_range nth [OF k] n show ?thesis by (auto simp: nth_append)
    next
      case False
      with out_range nth [OF k] n deque_repr_nth [OF repr i] show ?thesis
        by (auto simp: nth_append)
    qed
    then show "dq_data ?dq' ! dq_idx ?dq' i = Some ((take pos zs @ ys @ drop (pos + ?n) zs) ! i)"
      by (simp add: dq_idx_def split: if_splits)
  qed
  with d show ?thesis by blast
qed

lemma deque_place_repr:
  assumes repr: "deque_repr dq xs"
  shows "\<exists>dq'. deque_place dq pos ys = Some dq' \<and> deque_repr dq' (list_place xs pos ys)"
proof -
  let ?zs = "xs @ replicate (pos + length ys - length xs) 0"
  obtain dq1 where up: "(if pos + length ys > dq_size dq then deque_upsize dq (pos + length ys)
      else Some dq) = Some dq1" and r1: "deque_repr dq1 ?zs"
  proof (cases "pos + length ys > dq_size dq")
    case True
    with that deque_upsize_repr [OF repr, of "pos + length ys"] show ?thesis by auto
  next
    case False
    with that [of dq] repr show ?thesis by (simp add: deque_repr_length)
  qed
  have n: "pos + length ys \<le> length ?zs" by simp
  define p where "p = (if pos + dq_start dq1 \<ge> dq_capacity dq1
    then pos + dq_start dq1 - dq_capacity dq1 else pos + dq_start dq1)"
  have "p + length ys > dq_capacity dq1 \<Longrightarrow>
      length ys - (p + length ys - dq_capacity dq1) = dq_capacity dq1 - p"
    by simp
  with place_in_range [OF r1 n, folded p_def] show ?thesis
    by (auto simp: deque_place_def up Let_def list_place_def p_def [symmetric] bind_eq_Some_conv
        split: if_splits)
qed

section \<open>The contract as a locale\<close>

text \<open>
  What the clients of the header rely on. \<open>byte_queue\<close> is the first-in first-out part
  (the output delay, the packet queues, the audio buffers), \<open>byte_deque\<close> adds the
  operations at the other end.
\<close>

locale byte_queue =
  fixes repr :: "'q \<Rightarrow> 'a list \<Rightarrow> bool"
    and empty :: "'q"
    and len :: "'q \<Rightarrow> nat"
    and push_back :: "'q \<Rightarrow> 'a list \<Rightarrow> 'q option"
    and peek_front :: "'q \<Rightarrow> bool \<Rightarrow> nat \<Rightarrow> 'a option list option"
    and pop_front :: "'q \<Rightarrow> bool \<Rightarrow> nat \<Rightarrow> ('a option list \<times> 'q) option"
  assumes repr_empty: "repr empty []"
    and repr_len: "repr q xs \<Longrightarrow> len q = length xs"
    and push_back: "repr q xs \<Longrightarrow> \<exists>q'. push_back q ys = Some q' \<and> repr q' (xs @ ys)"
    and peek_front: "repr q xs \<Longrightarrow> n \<le> length xs \<Longrightarrow>
      peek_front q want n = Some (if want then map Some (take n xs) else [])"
    and pop_front: "repr q xs \<Longrightarrow> n \<le> length xs \<Longrightarrow>
      \<exists>q'. pop_front q want n = Some (if want then map Some (take n xs) else [], q')
        \<and> repr q' (drop n xs)"
begin

lemma push_one: "repr q xs \<Longrightarrow> \<exists>q'. push_back q [x] = Some q' \<and> repr q' (xs @ [x])"
  by (rule push_back)

lemma peek_one: "repr q (x # xs) \<Longrightarrow> peek_front q True 1 = Some [Some x]"
  using peek_front [of q "x # xs" 1 True] by simp

lemma pop_one:
  "repr q (x # xs) \<Longrightarrow>
   \<exists>q'. pop_front q want 1 = Some (if want then [Some x] else [], q') \<and> repr q' xs"
  using pop_front [of q "x # xs" 1 want] by (cases want) simp_all

lemma len_zero_iff: "repr q xs \<Longrightarrow> len q = 0 \<longleftrightarrow> xs = []"
  by (simp add: repr_len)

text \<open>A chunk pushed behind \<open>xs\<close> comes out unchanged once \<open>xs\<close> has been popped.\<close>

lemma push_pop_chunk:
  assumes "repr q xs"
  shows "\<exists>q1 q2. push_back q ys = Some q1 \<and> pop_front q1 False (length xs) = Some ([], q2)
    \<and> peek_front q2 True (length ys) = Some (map Some ys)"
proof -
  from push_back [OF assms] obtain q1 where
    q1: "push_back q ys = Some q1" "repr q1 (xs @ ys)" by blast
  with pop_front [OF q1(2), of "length xs" False] obtain q2 where
    q2: "pop_front q1 False (length xs) = Some ([], q2)" "repr q2 ys" by auto
  with q1 peek_front [OF q2(2), of "length ys" True] show ?thesis by auto
qed

end

locale byte_deque = byte_queue +
  fixes push_front :: "'q \<Rightarrow> 'a list \<Rightarrow> 'q option"
    and pop_back :: "'q \<Rightarrow> bool \<Rightarrow> nat \<Rightarrow> ('a option list \<times> 'q) option"
  assumes push_front: "repr q xs \<Longrightarrow> \<exists>q'. push_front q ys = Some q' \<and> repr q' (ys @ xs)"
    and pop_back: "repr q xs \<Longrightarrow> n \<le> length xs \<Longrightarrow>
      \<exists>q'. pop_back q want n = Some (if want then map Some (drop (length xs - n) xs) else [], q')
        \<and> repr q' (take (length xs - n) xs)"
begin

text \<open>Both ends are stacks: what was pushed last is popped first.\<close>

lemma push_front_pop_front:
  "repr q xs \<Longrightarrow> \<exists>q1 q2. push_front q ys = Some q1
     \<and> pop_front q1 True (length ys) = Some (map Some ys, q2) \<and> repr q2 xs"
  using push_front [of q xs ys] pop_front [of _ "ys @ xs" "length ys" True] by fastforce

lemma push_back_pop_back:
  "repr q xs \<Longrightarrow> \<exists>q1 q2. push_back q ys = Some q1
     \<and> pop_back q1 True (length ys) = Some (map Some ys, q2) \<and> repr q2 xs"
  using push_back [of q xs ys] pop_back [of _ "xs @ ys" "length ys" True] by fastforce

end

interpretation dq: byte_deque deque_repr deque_init dq_size deque_push_back deque_peek_front
    deque_pop_front deque_push_front deque_pop_back
  by (unfold_locales;
      (rule deque_repr_init | erule deque_repr_length | erule deque_push_back_repr
       | erule (1) deque_peek_front_eq | erule (1) deque_pop_front_repr
       | erule deque_push_front_repr | erule (1) deque_pop_back_repr))

section \<open>Refinement of a list by the ring buffer\<close>

text \<open>
  One operation of the header on the queue, with the cells it hands out, and the same
  operation on a list. A program using the header is a list of operations.
\<close>

datatype 'a queue_op =
    Push_Back "'a list" | Push_Front "'a list" | Push_Back_Zero nat | Push_Front_Zero nat
  | Place nat "'a list" | Upsize nat | Reserve nat | Pop_Front nat | Pop_Back nat
  | Peek_Front nat | Peek_Back nat

fun deque_step :: "'a::zero deque \<Rightarrow> 'a queue_op \<Rightarrow> ('a option list \<times> 'a deque) option" where
  "deque_step dq (Push_Back ys) = map_option (Pair []) (deque_push_back dq ys)"
| "deque_step dq (Push_Front ys) = map_option (Pair []) (deque_push_front dq ys)"
| "deque_step dq (Push_Back_Zero n) = map_option (Pair []) (deque_push_back_zero dq n)"
| "deque_step dq (Push_Front_Zero n) = map_option (Pair []) (deque_push_front_zero dq n)"
| "deque_step dq (Place n ys) = map_option (Pair []) (deque_place dq n ys)"
| "deque_step dq (Upsize n) = map_option (Pair []) (deque_upsize dq n)"
| "deque_step dq (Reserve n) = map_option (Pair []) (deque_reserve dq n)"
| "deque_step dq (Pop_Front n) = deque_pop_front dq True n"
| "deque_step dq (Pop_Back n) = deque_pop_back dq True n"
| "deque_step dq (Peek_Front n) = map_option (\<lambda>xs. (xs, dq)) (deque_peek_front dq True n)"
| "deque_step dq (Peek_Back n) = map_option (\<lambda>xs. (xs, dq)) (deque_peek_back dq True n)"

fun list_step :: "'a::zero list \<Rightarrow> 'a queue_op \<Rightarrow> ('a list \<times> 'a list) option" where
  "list_step xs (Push_Back ys) = Some ([], xs @ ys)"
| "list_step xs (Push_Front ys) = Some ([], ys @ xs)"
| "list_step xs (Push_Back_Zero n) = Some ([], xs @ replicate n 0)"
| "list_step xs (Push_Front_Zero n) = Some ([], replicate n 0 @ xs)"
| "list_step xs (Place n ys) = Some ([], list_place xs n ys)"
| "list_step xs (Upsize n) = Some ([], xs @ replicate (n - length xs) 0)"
| "list_step xs (Reserve n) = Some ([], xs)"
| "list_step xs (Pop_Front n) = (if n \<le> length xs then Some (take n xs, drop n xs) else None)"
| "list_step xs (Pop_Back n) =
     (if n \<le> length xs then Some (drop (length xs - n) xs, take (length xs - n) xs) else None)"
| "list_step xs (Peek_Front n) = (if n \<le> length xs then Some (take n xs, xs) else None)"
| "list_step xs (Peek_Back n) =
     (if n \<le> length xs then Some (drop (length xs - n) xs, xs) else None)"

lemma deque_step_refines:
  assumes "deque_repr dq xs"
  shows "case list_step xs x of None \<Rightarrow> deque_step dq x = None
    | Some (out, xs') \<Rightarrow> \<exists>dq'. deque_step dq x = Some (map Some out, dq') \<and> deque_repr dq' xs'"
proof (cases x)
  case (Pop_Back n)
  then show ?thesis
    using dq.pop_back [OF assms, of n True] deque_repr_length [OF assms]
    by (auto simp: deque_pop_back_def deque_peek_back_def)
next
  case (Pop_Front n)
  then show ?thesis
    using dq.pop_front [OF assms, of n True] deque_repr_length [OF assms]
    by (auto simp: deque_pop_front_def deque_peek_front_def)
next
  case (Reserve n)
  then show ?thesis using deque_reserve_repr [OF assms, of n] by auto
next
  case (Place n ys)
  then show ?thesis using deque_place_repr [OF assms, of n ys] by auto
next
  case (Upsize n)
  then show ?thesis using deque_upsize_repr [OF assms, of n] by auto
next
  case (Peek_Front n)
  then show ?thesis
    using assms deque_repr_length [OF assms] dq.peek_front [OF assms, of n True]
    by (auto simp: deque_peek_front_def)
next
  case (Peek_Back n)
  then show ?thesis
    using assms deque_repr_length [OF assms] deque_peek_back_eq [OF assms, of n True]
    by (auto simp: deque_peek_back_def)
qed (use dq.push_back [OF assms] dq.push_front [OF assms] in
    \<open>fastforce simp: deque_push_back_zero_eq deque_push_front_zero_eq\<close>)+

interpretation dqr: step_refinement deque_repr deque_step list_step "map Some"
  by unfold_locales (rule deque_step_refines)

text \<open>
  C23. Every program over the deque operations, started on an empty deque, behaves exactly
  like the same program over a list: it hands out the same cells, never reads an
  uninitialised one, never accesses the block out of range whatever the growth and wrap
  pattern, and stops (fails the \<open>assert\<close>) exactly when it asks for more than is queued.
\<close>

theorem deque_refines_list:
  "map_option fst (op_run deque_step deque_init ops)
   = map_option (map (map Some) \<circ> fst) (op_run list_step [] ops)"
  by (rule dqr.run [OF deque_repr_init])

end
