(* ===== verification/Interleave.thy ===== *)
theory Interleave
  imports Complex_Main Prelude
begin

text \<open>
  The encoded packet interleaver of \<open>libobs/obs-output.c\<close>: \<open>interleave_packets\<close> and the
  functions it calls. Every encoder of an output delivers its packets to
  \<open>interleave_packets\<close>; the output sends them on in one stream that starts with a video
  keyframe, is shifted so that audio and video start together, and is ordered by DTS.

  Timestamps are \<^typ>\<open>int\<close> (\<open>int64_t\<close>, whose overflow is undefined in C). Packet data is a
  value: the reference counts of \<open>obs_encoder_packet_create_instance\<close> and
  \<open>obs_encoder_packet_release\<close> are not part of the model. What the code asks of its
  environment is the record \<open>output_env\<close>: the caption insertion \<open>add_caption\<close> (which is
  libcaption's work and only replaces the payload of the packet), the clock, and the
  number of started encoders of an encoder group. The packets handed to the packet
  callbacks and to \<open>info.encoded_packet\<close> are the traces \<open>callback_log\<close> and \<open>sent\<close>.
\<close>

section \<open>Data\<close>

abbreviation MAX_OUTPUT_AUDIO_ENCODERS :: nat where "MAX_OUTPUT_AUDIO_ENCODERS \<equiv> 6"
abbreviation MAX_OUTPUT_VIDEO_ENCODERS :: nat where "MAX_OUTPUT_VIDEO_ENCODERS \<equiv> 10"

abbreviation INT64_MIN :: int where "INT64_MIN \<equiv> - 9223372036854775808"
abbreviation INT64_MAX :: int where "INT64_MAX \<equiv> 9223372036854775807"

datatype obs_encoder_type = OBS_ENCODER_AUDIO | OBS_ENCODER_VIDEO

record encoder_packet =
  pk_data :: "byte list"
  pk_pts :: int
  pk_dts :: int
  pk_timebase_num :: int
  pk_timebase_den :: int
  pk_type :: obs_encoder_type
  pk_keyframe :: bool
  pk_dts_usec :: int
  pk_sys_dts_usec :: int
  pk_priority :: int
  pk_drop_priority :: int
  pk_track_idx :: nat
  pk_encoder :: nat

record encoder_packet_time =
  ept_pts :: int
  ept_cts :: nat
  ept_fer :: nat
  ept_ferc :: nat
  ept_pir :: nat

record obs_encoder =
  enc_id :: nat
  enc_timebase_num :: int
  enc_timebase_den :: int
  enc_framesize :: int
  enc_group :: "nat option"

datatype keyframe_group_track_status =
    KEYFRAME_TRACK_STATUS_NOT_SEEN | KEYFRAME_TRACK_STATUS_SEEN | KEYFRAME_TRACK_STATUS_SKIPPED

record keyframe_group_data =
  kg_group_id :: nat
  kg_pts :: int
  kg_required_tracks :: nat
  kg_seen_on_track :: "keyframe_group_track_status list"

record caption_track_data =
  caption_head :: "(string \<times> rat) list"
  caption_timestamp :: rat
  last_caption_timestamp :: rat
  caption_data :: "byte list"

record obs_output =
  received_video :: "bool list"
  keyframe_group_tracking :: "keyframe_group_data list"
  received_audio :: bool
  video_offsets :: "int list"
  audio_offsets :: "int list"
  highest_audio_ts :: int
  highest_video_ts :: "int list"
  interleaved_packets :: "encoder_packet list"
  interleaver_max_batch_size :: nat
  total_frames :: int
  out_active :: bool
  video_encoders :: "obs_encoder option list"
  audio_encoders :: "obs_encoder option list"
  caption_tracks :: "caption_track_data list"
  encoder_packet_times :: "encoder_packet_time list list"
  pkt_callbacks :: "nat list"
  callback_log :: "(nat \<times> encoder_packet \<times> encoder_packet_time option) list"
  sent :: "encoder_packet list"

record output_env =
  env_add_caption :: "caption_track_data \<Rightarrow> encoder_packet \<Rightarrow> bool \<times> caption_track_data \<times> byte list"
  env_gettime_ns :: nat
  env_group_started :: "nat \<Rightarrow> nat"

section \<open>Timestamps and tracks\<close>

definition packet_dts_usec :: "encoder_packet \<Rightarrow> int" where
  "packet_dts_usec p = c_div (pk_dts p * 1000000) (pk_timebase_den p)"

definition get_encoder_index :: "obs_output \<Rightarrow> encoder_packet \<Rightarrow> nat" where
  "get_encoder_index out pkt =
     (let encoders = (case pk_type pkt of OBS_ENCODER_VIDEO \<Rightarrow> video_encoders out
                      | OBS_ENCODER_AUDIO \<Rightarrow> audio_encoders out)
      in case first_idx (\<lambda>e. case e of Some enc \<Rightarrow> pk_encoder pkt = enc_id enc | None \<Rightarrow> False) encoders
         of Some i \<Rightarrow> i | None \<Rightarrow> 0)"

definition get_first_audio_encoder_index :: "obs_output \<Rightarrow> nat option" where
  "get_first_audio_encoder_index out = first_idx (\<lambda>e. e \<noteq> None) (audio_encoders out)"

definition get_first_video_encoder_index :: "obs_output \<Rightarrow> nat option" where
  "get_first_video_encoder_index out = first_idx (\<lambda>e. e \<noteq> None) (video_encoders out)"

definition check_received :: "obs_output \<Rightarrow> encoder_packet \<Rightarrow> obs_output" where
  "check_received out p =
     (case pk_type p of
        OBS_ENCODER_VIDEO \<Rightarrow> out\<lparr>received_video := (received_video out)[pk_track_idx p := True]\<rparr>
      | OBS_ENCODER_AUDIO \<Rightarrow> out\<lparr>received_audio := True\<rparr>)"

definition packet_offset :: "obs_output \<Rightarrow> encoder_packet \<Rightarrow> int" where
  "packet_offset out p =
     (case pk_type p of OBS_ENCODER_VIDEO \<Rightarrow> video_offsets out ! pk_track_idx p
      | OBS_ENCODER_AUDIO \<Rightarrow> audio_offsets out ! pk_track_idx p)"

text \<open>The packet with the track's offset taken off, its DTS in microseconds recomputed.\<close>

definition apply_interleaved_packet_offset :: "obs_output \<Rightarrow> encoder_packet \<Rightarrow> encoder_packet" where
  "apply_interleaved_packet_offset out p =
     (let offset = packet_offset out p;
          p' = p\<lparr>pk_dts := pk_dts p - offset, pk_pts := pk_pts p - offset\<rparr>
      in p'\<lparr>pk_dts_usec := packet_dts_usec p'\<rparr>)"

definition has_higher_opposing_ts :: "obs_output \<Rightarrow> encoder_packet \<Rightarrow> bool" where
  "has_higher_opposing_ts out p =
     (let has_higher = list_all
            (\<lambda>i. video_encoders out ! i = None \<or> (pk_type p = OBS_ENCODER_VIDEO \<and> i = pk_track_idx p) \<or>
                 highest_video_ts out ! i > pk_dts_usec p)
            [0..<MAX_OUTPUT_VIDEO_ENCODERS]
      in case pk_type p of OBS_ENCODER_AUDIO \<Rightarrow> has_higher
         | OBS_ENCODER_VIDEO \<Rightarrow> has_higher \<and> highest_audio_ts out > pk_dts_usec p)"

definition set_higher_ts :: "obs_output \<Rightarrow> encoder_packet \<Rightarrow> obs_output" where
  "set_higher_ts out p =
     (case pk_type p of
        OBS_ENCODER_VIDEO \<Rightarrow>
          (if highest_video_ts out ! pk_track_idx p < pk_dts_usec p
           then out\<lparr>highest_video_ts := (highest_video_ts out)[pk_track_idx p := pk_dts_usec p]\<rparr>
           else out)
      | OBS_ENCODER_AUDIO \<Rightarrow>
          (if highest_audio_ts out < pk_dts_usec p
           then out\<lparr>highest_audio_ts := pk_dts_usec p\<rparr> else out))"

section \<open>Sending the first packet of the buffer\<close>

definition frame_timestamp :: "encoder_packet \<Rightarrow> rat" where
  "frame_timestamp p = of_int (pk_pts p * pk_timebase_num p) / of_int (pk_timebase_den p)"

text \<open>The caption part of \<open>send_interleaved\<close>: at most one text caption that is due, then
  buffered caption data.\<close>

definition send_captions ::
    "output_env \<Rightarrow> caption_track_data \<Rightarrow> encoder_packet \<Rightarrow> caption_track_data \<times> encoder_packet" where
  "send_captions E ctrack p =
     (let ts = frame_timestamp p;
          (ctrack, p) =
            (case caption_head ctrack of
               [] \<Rightarrow> (ctrack, p)
             | (caption_text, display_duration) # _ \<Rightarrow>
                 if caption_timestamp ctrack \<le> ts
                 then let (added, ct, d) = env_add_caption E ctrack p
                      in (if added then ct\<lparr>caption_timestamp := ts + display_duration\<rparr> else ct,
                          p\<lparr>pk_data := d\<rparr>)
                 else (ctrack, p))
      in if caption_data ctrack \<noteq> [] \<and> last_caption_timestamp ctrack < ts
         then let (added, ct, d) = env_add_caption E (ctrack\<lparr>last_caption_timestamp := ts\<rparr>) p
              in (ct, p\<lparr>pk_data := d\<rparr>)
         else (ctrack, p))"

text \<open>The entry of \<open>encoder_packet_times\<close> with the packet's PTS is taken out.\<close>

definition take_packet_time ::
    "encoder_packet_time list \<Rightarrow> int \<Rightarrow> encoder_packet_time option \<times> encoder_packet_time list" where
  "take_packet_time epts pts =
     (case first_idx (\<lambda>e. ept_pts e = pts) epts of
        Some i \<Rightarrow> (Some (epts ! i), take i epts @ drop (Suc i) epts)
      | None \<Rightarrow> (None, epts))"

definition send_interleaved :: "output_env \<Rightarrow> obs_output \<Rightarrow> obs_output option" where
  "send_interleaved E out =
     (case interleaved_packets out of
        [] \<Rightarrow> None
      | p # rest \<Rightarrow>
          let out = out\<lparr>interleaved_packets := rest\<rparr>;
              (out, p, ept) =
                (case pk_type p of
                   OBS_ENCODER_AUDIO \<Rightarrow> (out, p, None)
                 | OBS_ENCODER_VIDEO \<Rightarrow>
                     let t = pk_track_idx p;
                         (ct, p) = send_captions E (caption_tracks out ! t) p;
                         (ept, epts) = take_packet_time (encoder_packet_times out ! t) (pk_pts p)
                     in (out\<lparr>total_frames := total_frames out + 1,
                             caption_tracks := (caption_tracks out)[t := ct],
                             encoder_packet_times := (encoder_packet_times out)[t := epts]\<rparr>,
                         p, ept));
              stamped = map_option (\<lambda>e. e\<lparr>ept_pir := env_gettime_ns E\<rparr>) ept
          in Some (out\<lparr>callback_log := callback_log out @ map (\<lambda>cb. (cb, p, stamped)) (pkt_callbacks out),
                       sent := sent out @ [p]\<rparr>))"

section \<open>Looking for packets\<close>

definition find_first_packet_type_idx :: "obs_output \<Rightarrow> obs_encoder_type \<Rightarrow> nat \<Rightarrow> nat option" where
  "find_first_packet_type_idx out ty idx =
     first_idx (\<lambda>p. pk_type p = ty \<and> pk_track_idx p = idx) (interleaved_packets out)"

definition find_last_packet_type_idx :: "obs_output \<Rightarrow> obs_encoder_type \<Rightarrow> nat \<Rightarrow> nat option" where
  "find_last_packet_type_idx out ty idx =
     last_idx (\<lambda>p. pk_type p = ty \<and> pk_track_idx p = idx) (interleaved_packets out)"

definition find_first_packet_type :: "obs_output \<Rightarrow> obs_encoder_type \<Rightarrow> nat \<Rightarrow> encoder_packet option" where
  "find_first_packet_type out ty idx =
     map_option ((!) (interleaved_packets out)) (find_first_packet_type_idx out ty idx)"

definition find_last_packet_type :: "obs_output \<Rightarrow> obs_encoder_type \<Rightarrow> nat \<Rightarrow> encoder_packet option" where
  "find_last_packet_type out ty idx =
     map_option ((!) (interleaved_packets out)) (find_last_packet_type_idx out ty idx)"

text \<open>
  The scan of \<open>get_interleaved_start_idx\<close> from index \<open>i\<close> on: \<open>fv\<close> is the first packet of
  video track 0 with its index, if there is one (reading it through a null pointer is
  \<^term>\<open>None\<close>); \<open>video_idx = None\<close> is \<open>DARRAY_INVALID\<close>.
\<close>

fun start_scan ::
    "(nat \<times> encoder_packet) option \<Rightarrow> nat \<Rightarrow> encoder_packet list \<Rightarrow> int \<Rightarrow> nat option \<Rightarrow> nat
     \<Rightarrow> (nat option \<times> nat) option" where
  "start_scan fv i [] closest_diff video_idx idx = Some (video_idx, idx)"
| "start_scan fv i (p # ps) closest_diff video_idx idx =
     (if pk_type p \<noteq> OBS_ENCODER_AUDIO
      then start_scan fv (Suc i) ps closest_diff
             (if map_option fst fv = Some i then Some i else video_idx) idx
      else case fv of
             None \<Rightarrow> None
           | Some (_, first_video) \<Rightarrow>
               let diff = \<bar>pk_dts_usec p - pk_dts_usec first_video\<bar>
               in if diff < closest_diff then start_scan fv (Suc i) ps diff video_idx i
                  else start_scan fv (Suc i) ps closest_diff video_idx idx)"

definition get_interleaved_start_idx :: "obs_output \<Rightarrow> nat option" where
  "get_interleaved_start_idx out = do {
     let pkts = interleaved_packets out;
     let fv = map_option (\<lambda>i. (i, pkts ! i)) (find_first_packet_type_idx out OBS_ENCODER_VIDEO 0);
     (video_idx, idx0) \<leftarrow> start_scan fv 0 pkts INT64_MAX None 0;
     let idx = (case video_idx of Some v \<Rightarrow> if v < idx0 then v else idx0 | None \<Rightarrow> idx0);
     k \<leftarrow> first_idx (\<lambda>p. pk_type p = OBS_ENCODER_AUDIO) (drop idx pkts);
     let first_audio_idx = idx + k;
     Some (if pk_pts (pkts ! first_audio_idx) \<le> 0
           then fold (\<lambda>i idx. case find_first_packet_type_idx out OBS_ENCODER_AUDIO i of
                                Some a \<Rightarrow> if a < idx then a else idx
                              | None \<Rightarrow> idx) [0..<MAX_OUTPUT_AUDIO_ENCODERS] idx
           else idx)
   }"

section \<open>Pruning and starting\<close>

definition get_encoder_duration :: "obs_encoder \<Rightarrow> int" where
  "get_encoder_duration e =
     c_div (enc_timebase_num e * 1000000) (enc_timebase_den e) * enc_framesize e"

record prune_state =
  ps_max_idx :: nat
  ps_max_audio_duration :: int
  ps_max_diff :: int
  ps_diff :: int
  ps_audio_encoders :: nat

text \<open>The loop over the audio encoders; \<^term>\<open>None\<close> is the early \<open>return -1\<close>.\<close>

fun prune_scan :: "obs_output \<Rightarrow> encoder_packet \<Rightarrow> nat list \<Rightarrow> prune_state \<Rightarrow> prune_state option" where
  "prune_scan out video [] ps = Some ps"
| "prune_scan out video (i # is) ps =
     (case audio_encoders out ! i of
        None \<Rightarrow> prune_scan out video is ps
      | Some enc \<Rightarrow>
          (case find_first_packet_type_idx out OBS_ENCODER_AUDIO i of
             None \<Rightarrow> None
           | Some audio_idx \<Rightarrow>
               let audio = interleaved_packets out ! audio_idx;
                   diff = pk_dts_usec audio - pk_dts_usec video;
                   dur = get_encoder_duration enc
               in prune_scan out video is
                    \<lparr>ps_max_idx = (if audio_idx > ps_max_idx ps then audio_idx else ps_max_idx ps),
                     ps_max_audio_duration =
                       (if dur > ps_max_audio_duration ps then dur else ps_max_audio_duration ps),
                     ps_max_diff = (if diff > ps_max_diff ps then diff else ps_max_diff ps),
                     ps_diff = diff,
                     ps_audio_encoders = ps_audio_encoders ps + 1\<rparr>))"

definition prune_premature_packets :: "obs_output \<Rightarrow> obs_output \<times> nat option" where
  "prune_premature_packets out =
     (case find_first_packet_type_idx out OBS_ENCODER_VIDEO 0 of
        None \<Rightarrow> (out, None)
      | Some video_idx \<Rightarrow>
          let video = interleaved_packets out ! video_idx;
              duration_usec = c_div (pk_timebase_num video * 1000000) (pk_timebase_den video)
          in case prune_scan out video [0..<MAX_OUTPUT_AUDIO_ENCODERS]
                    \<lparr>ps_max_idx = video_idx, ps_max_audio_duration = 0, ps_max_diff = 0, ps_diff = 0,
                     ps_audio_encoders = 0\<rparr> of
               None \<Rightarrow> (out\<lparr>received_audio := False\<rparr>, None)
             | Some ps \<Rightarrow>
                 let dur = (if ps_audio_encoders ps > 1 \<and> duration_usec < ps_max_audio_duration ps
                            then ps_max_audio_duration ps else duration_usec)
                 in (out, Some (if ps_diff ps > dur then ps_max_idx ps + 1 else 0)))"

text \<open>Each discarded video packet also drops the oldest packet time of its track.\<close>

definition discard_to_idx :: "obs_output \<Rightarrow> nat \<Rightarrow> obs_output" where
  "discard_to_idx out idx =
     (let gone = take idx (interleaved_packets out)
      in out\<lparr>interleaved_packets := drop idx (interleaved_packets out),
             encoder_packet_times :=
               fold (\<lambda>p epts. if pk_type p = OBS_ENCODER_VIDEO
                              then epts[pk_track_idx p := tl (epts ! pk_track_idx p)] else epts)
                 gone (encoder_packet_times out)\<rparr>)"

definition prune_interleaved_packets :: "obs_output \<Rightarrow> (obs_output \<times> bool) option" where
  "prune_interleaved_packets out0 =
     (let (out, prune_start) = prune_premature_packets out0
      in case prune_start of
           None \<Rightarrow> Some (out, False)
         | Some n \<Rightarrow>
             (case (if n \<noteq> 0 then Some n else get_interleaved_start_idx out) of
                None \<Rightarrow> None
              | Some start_idx \<Rightarrow>
                  Some (if start_idx \<noteq> 0 then discard_to_idx out start_idx else out, True)))"

text \<open>
  \<open>get_audio_and_video_packets\<close> fills two arrays of pointers: the first packet of every
  track that has an encoder. It clears the \<open>received\<close> flag of the first track without a
  packet and fails.
\<close>

fun get_video_packets :: "obs_output \<Rightarrow> nat list \<Rightarrow> obs_output \<times> bool" where
  "get_video_packets out [] = (out, True)"
| "get_video_packets out (i # is) =
     (if video_encoders out ! i \<noteq> None \<and> find_first_packet_type out OBS_ENCODER_VIDEO i = None
      then (out\<lparr>received_video := (received_video out)[i := False]\<rparr>, False)
      else get_video_packets out is)"

fun get_audio_packets :: "obs_output \<Rightarrow> nat list \<Rightarrow> obs_output \<times> bool" where
  "get_audio_packets out [] = (out, True)"
| "get_audio_packets out (i # is) =
     (if audio_encoders out ! i \<noteq> None \<and> find_first_packet_type out OBS_ENCODER_AUDIO i = None
      then (out\<lparr>received_audio := False\<rparr>, False)
      else get_audio_packets out is)"

definition get_audio_and_video_packets :: "obs_output \<Rightarrow> obs_output \<times> bool" where
  "get_audio_and_video_packets out =
     (case get_video_packets out [0..<MAX_OUTPUT_VIDEO_ENCODERS] of
        (out', False) \<Rightarrow> (out', False)
      | (out', True) \<Rightarrow>
          (case get_audio_packets out' [0..<MAX_OUTPUT_AUDIO_ENCODERS] of
             (out'', False) \<Rightarrow> (out'', False)
           | (out'', True) \<Rightarrow>
               (out'', list_ex (\<lambda>i. video_encoders out ! i \<noteq> None) [0..<MAX_OUTPUT_VIDEO_ENCODERS])))"

definition insert_interleaved_packet :: "obs_output \<Rightarrow> encoder_packet \<Rightarrow> obs_output" where
  "insert_interleaved_packet out p =
     (let stop = (\<lambda>cur.
            \<not> (pk_dts_usec p = pk_dts_usec cur \<and> pk_type p = OBS_ENCODER_VIDEO \<and>
               pk_type cur = OBS_ENCODER_VIDEO \<and> pk_track_idx p > pk_track_idx cur) \<and>
            (pk_dts_usec p = pk_dts_usec cur \<and> pk_type p = OBS_ENCODER_VIDEO \<or>
             pk_dts_usec p < pk_dts_usec cur));
          pkts = interleaved_packets out;
          idx = (case first_idx stop pkts of Some i \<Rightarrow> i | None \<Rightarrow> length pkts)
      in out\<lparr>interleaved_packets := take idx pkts @ p # drop idx pkts\<rparr>)"

definition resort_interleaved_packets :: "obs_output \<Rightarrow> obs_output" where
  "resort_interleaved_packets out =
     fold (\<lambda>p o'. insert_interleaved_packet (set_higher_ts o' p) p)
       (interleaved_packets out) (out\<lparr>interleaved_packets := []\<rparr>)"

text \<open>
  \<open>video i\<close> and \<open>audio i\<close> are the arrays of pointers of the code; dereferencing a null
  one is \<^term>\<open>None\<close>.
\<close>

definition video_packet :: "obs_output \<Rightarrow> nat \<Rightarrow> encoder_packet option" where
  "video_packet out i = find_first_packet_type out OBS_ENCODER_VIDEO i"

definition audio_packet :: "obs_output \<Rightarrow> nat \<Rightarrow> encoder_packet option" where
  "audio_packet out i = find_first_packet_type out OBS_ENCODER_AUDIO i"

definition set_start_offsets :: "obs_output \<Rightarrow> nat \<Rightarrow> obs_output option" where
  "set_start_offsets out first_audio_idx = do {
     vo \<leftarrow> those (map (\<lambda>i. if video_encoders out ! i \<noteq> None
                           then map_option pk_pts (video_packet out i)
                           else Some (video_offsets out ! i)) [0..<MAX_OUTPUT_VIDEO_ENCODERS]);
     ao \<leftarrow> those (map (\<lambda>i. if audio_encoders out ! i \<noteq> None
                           then map_option (\<lambda>a. if pk_dts a > 0 then pk_dts a else audio_offsets out ! i)
                                  (audio_packet out i)
                           else Some (audio_offsets out ! i)) [0..<MAX_OUTPUT_AUDIO_ENCODERS]);
     a \<leftarrow> audio_packet out first_audio_idx;
     let out = out\<lparr>video_offsets := vo, audio_offsets := ao,
                   highest_audio_ts := highest_audio_ts out - pk_dts_usec a\<rparr>;
     Some (out\<lparr>interleaved_packets := map (apply_interleaved_packet_offset out) (interleaved_packets out)\<rparr>)
   }"

text \<open>Is the last packet of some audio track earlier than the first video packet?\<close>

definition audio_behind_video :: "obs_output \<Rightarrow> encoder_packet \<Rightarrow> bool" where
  "audio_behind_video out video =
     list_ex (\<lambda>i. audio_encoders out ! i \<noteq> None \<and>
                  (case find_last_packet_type out OBS_ENCODER_AUDIO i of
                     Some a \<Rightarrow> pk_dts_usec a < pk_dts_usec video | None \<Rightarrow> False))
       [0..<MAX_OUTPUT_AUDIO_ENCODERS]"

definition initialize_interleaved_packets :: "obs_output \<Rightarrow> (obs_output \<times> bool) option" where
  "initialize_interleaved_packets out =
     (case get_first_audio_encoder_index out of
        None \<Rightarrow> Some (out, False)
      | Some first_audio_idx \<Rightarrow>
     (case get_first_video_encoder_index out of
        None \<Rightarrow> Some (out, False)
      | Some first_video_idx \<Rightarrow>
     (case get_audio_and_video_packets out of
        (out, False) \<Rightarrow> Some (out, False)
      | (out, True) \<Rightarrow>
     (case video_packet out first_video_idx of
        None \<Rightarrow> None
      | Some video \<Rightarrow>
      if audio_behind_video out video then Some (out\<lparr>received_audio := False\<rparr>, False)
      else
     (case get_interleaved_start_idx out of
        None \<Rightarrow> None
      | Some start_idx \<Rightarrow>
     (case (if start_idx \<noteq> 0 then get_audio_and_video_packets (discard_to_idx out start_idx)
            else (out, True)) of
        (out, False) \<Rightarrow> Some (out, False)
      | (out, True) \<Rightarrow> map_option (\<lambda>out. (out, True)) (set_start_offsets out first_audio_idx)))))))"

definition discard_unused_audio_packets :: "obs_output \<Rightarrow> int \<Rightarrow> obs_output" where
  "discard_unused_audio_packets out dts_usec =
     (let idx = (case first_idx (\<lambda>p. pk_dts_usec p \<ge> dts_usec) (interleaved_packets out) of
                   Some i \<Rightarrow> i | None \<Rightarrow> length (interleaved_packets out))
      in if idx \<noteq> 0 then discard_to_idx out idx else out)"

section \<open>Keyframe alignment of encoder groups\<close>

definition purge_encoder_group_keyframe_data :: "keyframe_group_data list \<Rightarrow> nat \<Rightarrow> keyframe_group_data list \<times> bool" where
  "purge_encoder_group_keyframe_data kgs idx =
     (let d = kgs ! idx;
          modified_count = length (filter (\<lambda>s. s \<noteq> KEYFRAME_TRACK_STATUS_NOT_SEEN) (kg_seen_on_track d))
      in if modified_count = kg_required_tracks d then (take idx kgs @ drop (Suc idx) kgs, True)
         else (kgs, False))"

text \<open>
  The loop over the tracked groups, with \<open>done\<close> the entries already passed; the result
  tells whether the packet's own entry was found (\<open>return\<close> in the code).
\<close>

fun keyframe_scan ::
    "nat \<Rightarrow> encoder_packet \<Rightarrow> keyframe_group_data list \<Rightarrow> keyframe_group_data list
     \<Rightarrow> (keyframe_group_data list \<times> nat \<times> bool)" where
  "keyframe_scan grp pkt passed [] = (passed, length passed, False)"
| "keyframe_scan grp pkt passed (d # ds) =
     (if kg_pts d > pk_pts pkt then (passed @ d # ds, length passed, False)
      else if kg_group_id d \<noteq> grp then keyframe_scan grp pkt (passed @ [d]) ds
      else if kg_pts d < pk_pts pkt then
        let d' = d\<lparr>kg_seen_on_track := (kg_seen_on_track d)[pk_track_idx pkt := KEYFRAME_TRACK_STATUS_SKIPPED]\<rparr>
        in if snd (purge_encoder_group_keyframe_data [d'] 0) then keyframe_scan grp pkt passed ds
           else keyframe_scan grp pkt (passed @ [d']) ds
      else
        let d' = d\<lparr>kg_seen_on_track := (kg_seen_on_track d)[pk_track_idx pkt := KEYFRAME_TRACK_STATUS_SEEN]\<rparr>
        in (fst (purge_encoder_group_keyframe_data (passed @ d' # ds) (length passed)),
            length passed, True))"

definition packet_encoder :: "obs_output \<Rightarrow> encoder_packet \<Rightarrow> obs_encoder option" where
  "packet_encoder out pkt =
     (case pk_type pkt of OBS_ENCODER_VIDEO \<Rightarrow> video_encoders out ! pk_track_idx pkt
      | OBS_ENCODER_AUDIO \<Rightarrow> audio_encoders out ! pk_track_idx pkt)"

definition check_encoder_group_keyframe_alignment ::
    "output_env \<Rightarrow> obs_output \<Rightarrow> encoder_packet \<Rightarrow> obs_output" where
  "check_encoder_group_keyframe_alignment E out pkt =
     (case Option.bind (packet_encoder out pkt) enc_group of
        None \<Rightarrow> out
      | Some grp \<Rightarrow>
          if \<not> pk_keyframe pkt \<or> pk_type pkt \<noteq> OBS_ENCODER_VIDEO then out
          else let (kgs, idx, found) = keyframe_scan grp pkt [] (keyframe_group_tracking out)
            in if found then out\<lparr>keyframe_group_tracking := kgs\<rparr>
               else let d = \<lparr>kg_group_id = grp, kg_pts = pk_pts pkt,
                             kg_required_tracks = env_group_started E grp,
                             kg_seen_on_track =
                               (replicate MAX_OUTPUT_VIDEO_ENCODERS KEYFRAME_TRACK_STATUS_NOT_SEEN)
                                 [pk_track_idx pkt := KEYFRAME_TRACK_STATUS_SEEN]\<rparr>
                    in out\<lparr>keyframe_group_tracking := take idx kgs @ d # drop idx kgs\<rparr>)"

section \<open>The packet callback\<close>

definition apply_ept_offsets :: "obs_output \<Rightarrow> obs_output" where
  "apply_ept_offsets out =
     out\<lparr>encoder_packet_times :=
       map2 (\<lambda>epts off. map (\<lambda>e. e\<lparr>ept_pts := ept_pts e - off\<rparr>) epts)
         (encoder_packet_times out) (video_offsets out)\<rparr>"

definition count_streamable_frames :: "obs_output \<Rightarrow> nat" where
  "count_streamable_frames out =
     length (takeWhile (has_higher_opposing_ts out) (interleaved_packets out))"

definition all_video_received :: "obs_output \<Rightarrow> bool" where
  "all_video_received out =
     list_all (\<lambda>i. video_encoders out ! i = None \<or> received_video out ! i) [0..<MAX_OUTPUT_VIDEO_ENCODERS]"

text \<open>The packet enters the buffer, shifted if the output has started.\<close>

definition push_packet_time ::
    "obs_output \<Rightarrow> encoder_packet \<Rightarrow> encoder_packet_time option \<Rightarrow> int \<Rightarrow> obs_output" where
  "push_packet_time out p ept offset =
     (case ept of
        None \<Rightarrow> out
      | Some e \<Rightarrow>
          let t = pk_track_idx p
          in out\<lparr>encoder_packet_times := (encoder_packet_times out)
                   [t := encoder_packet_times out ! t @ [e\<lparr>ept_pts := ept_pts e - offset\<rparr>]]\<rparr>)"

definition accept_packet ::
    "obs_output \<Rightarrow> bool \<Rightarrow> encoder_packet \<Rightarrow> encoder_packet_time option \<Rightarrow> obs_output \<times> encoder_packet" where
  "accept_packet out was_started p ept =
     (if was_started
      then let p' = apply_interleaved_packet_offset out p;
               out' = push_packet_time out p ept (packet_offset out p)
           in (insert_interleaved_packet out' p', p')
      else let out' = check_received (push_packet_time out p ept 0) p
           in (insert_interleaved_packet out' p, p))"

text \<open>Sending once the output has started: one packet, and one more while it is behind.\<close>

definition stream_packets :: "output_env \<Rightarrow> obs_output \<Rightarrow> obs_output option" where
  "stream_packets E out =
     (let streamable = count_streamable_frames out
      in if streamable = 0 then Some out
         else do {
           out' \<leftarrow> send_interleaved E out;
           if streamable - 1 > interleaver_max_batch_size out'
           then send_interleaved E out' else Some out'
         })"

text \<open>The start of the output: prune, shift, sort, and send the first packet.\<close>

definition start_packets :: "output_env \<Rightarrow> obs_output \<Rightarrow> obs_output option" where
  "start_packets E out = do {
     (out1, pruned) \<leftarrow> prune_interleaved_packets out;
     if \<not> pruned then Some out1
     else do {
       (out2, started) \<leftarrow> initialize_interleaved_packets out1;
       if \<not> started then Some out2
       else send_interleaved E (apply_ept_offsets (resort_interleaved_packets out2))
     }
   }"

definition interleave_packets ::
    "output_env \<Rightarrow> obs_output \<Rightarrow> encoder_packet \<Rightarrow> encoder_packet_time option \<Rightarrow> obs_output option" where
  "interleave_packets E out packet packet_time =
     (if \<not> out_active out then Some out
      else let packet = packet\<lparr>pk_track_idx := get_encoder_index out packet\<rparr>
        in if pk_type packet = OBS_ENCODER_VIDEO \<and> \<not> received_video out ! pk_track_idx packet \<and>
              \<not> pk_keyframe packet
           then Some (discard_unused_audio_packets out (pk_dts_usec packet))
           else
             let received = all_video_received out;
                 out1 = check_encoder_group_keyframe_alignment E out packet;
                 was_started = (received_audio out1 \<and> received);
                 (out2, p) = accept_packet out1 was_started packet packet_time
             in if received_audio out2 \<and> all_video_received out2
                then if \<not> was_started then start_packets E out2
                     else stream_packets E (set_higher_ts out2 p)
                else Some out2)"

definition reset_packet_data :: "obs_output \<Rightarrow> obs_output" where
  "reset_packet_data out =
     out\<lparr>received_audio := False, highest_audio_ts := 0,
         encoder_packet_times := replicate MAX_OUTPUT_VIDEO_ENCODERS [],
         received_video := replicate MAX_OUTPUT_VIDEO_ENCODERS False,
         video_offsets := replicate MAX_OUTPUT_VIDEO_ENCODERS 0,
         highest_video_ts := replicate MAX_OUTPUT_VIDEO_ENCODERS INT64_MIN,
         audio_offsets := replicate MAX_OUTPUT_AUDIO_ENCODERS 0,
         interleaved_packets := []\<rparr>"

fun interleave_run ::
    "output_env \<Rightarrow> obs_output \<Rightarrow> (encoder_packet \<times> encoder_packet_time option) list \<Rightarrow> obs_output option" where
  "interleave_run E out [] = Some out"
| "interleave_run E out ((p, e) # ps) = do {
     out' \<leftarrow> interleave_packets E out p e;
     interleave_run E out' ps
   }"

end
