(* ===== verification/Interleave_Order.thy ===== *)
theory Interleave_Order
  imports Interleave
begin

text \<open>
  The interleave buffer is ordered: by DTS, at equal DTS video before audio, and video
  packets of several tracks by track. Every operation keeps the order, and from the start
  of the output on no packet is lost or duplicated.
\<close>

section \<open>The order\<close>

definition pk_le :: "encoder_packet \<Rightarrow> encoder_packet \<Rightarrow> bool" where
  "pk_le a b \<longleftrightarrow>
     pk_dts_usec a < pk_dts_usec b \<or>
     pk_dts_usec a = pk_dts_usec b \<and>
     (case pk_type a of
        OBS_ENCODER_VIDEO \<Rightarrow> pk_type b = OBS_ENCODER_AUDIO \<or> pk_track_idx a \<le> pk_track_idx b
      | OBS_ENCODER_AUDIO \<Rightarrow> pk_type b = OBS_ENCODER_AUDIO)"

definition insert_stop :: "encoder_packet \<Rightarrow> encoder_packet \<Rightarrow> bool" where
  "insert_stop p cur \<longleftrightarrow>
     \<not> (pk_dts_usec p = pk_dts_usec cur \<and> pk_type p = OBS_ENCODER_VIDEO \<and>
        pk_type cur = OBS_ENCODER_VIDEO \<and> pk_track_idx p > pk_track_idx cur) \<and>
     (pk_dts_usec p = pk_dts_usec cur \<and> pk_type p = OBS_ENCODER_VIDEO \<or>
      pk_dts_usec p < pk_dts_usec cur)"

interpretation pk: stop_order pk_le insert_stop
proof
  show "pk_le x y" if "insert_stop x y" for x y
    using that by (cases "pk_type x"; cases "pk_type y") (auto simp: insert_stop_def pk_le_def)
  show "pk_le y x" if "\<not> insert_stop x y" for x y
    using that by (cases "pk_type x"; cases "pk_type y") (auto simp: insert_stop_def pk_le_def)
  show "pk_le x z" if "pk_le x y" "pk_le y z" for x y z
    using that by (cases "pk_type x"; cases "pk_type y"; cases "pk_type z") (auto simp: pk_le_def)
qed

definition buffer_sorted :: "obs_output \<Rightarrow> bool" where
  "buffer_sorted out \<longleftrightarrow> sorted_wrt pk_le (interleaved_packets out)"

lemma insert_interleaved_packet_eq:
  "insert_interleaved_packet out p =
     out\<lparr>interleaved_packets := insert_at_stop insert_stop p (interleaved_packets out)\<rparr>"
  by (simp add: insert_interleaved_packet_def insert_at_stop_index [symmetric] Let_def
      insert_stop_def [abs_def])

lemma set_higher_ts_packets [simp]:
  "interleaved_packets (set_higher_ts out p) = interleaved_packets out"
  by (simp add: set_higher_ts_def split: obs_encoder_type.split)

lemma set_higher_ts_update:
  "set_higher_ts (out\<lparr>interleaved_packets := xs\<rparr>) p = (set_higher_ts out p)\<lparr>interleaved_packets := xs\<rparr>"
  by (simp add: set_higher_ts_def split: obs_encoder_type.split)

text \<open>\<open>resort_interleaved_packets\<close> is an insertion sort that also takes the maxima.\<close>

lemma resort_fold:
  "fold (\<lambda>p o'. insert_interleaved_packet (set_higher_ts o' p) p) ps (out\<lparr>interleaved_packets := xs\<rparr>)
   = (fold (\<lambda>p o'. set_higher_ts o' p) ps out)
       \<lparr>interleaved_packets := fold (insert_at_stop insert_stop) ps xs\<rparr>"
  by (induction ps arbitrary: out xs)
    (simp_all add: insert_interleaved_packet_eq set_higher_ts_update)

lemma resort_eq:
  "resort_interleaved_packets out =
     (fold (\<lambda>p o'. set_higher_ts o' p) (interleaved_packets out) out)
       \<lparr>interleaved_packets := fold (insert_at_stop insert_stop) (interleaved_packets out) []\<rparr>"
  by (simp add: resort_interleaved_packets_def resort_fold)

lemma resort_sorted: "buffer_sorted (resort_interleaved_packets out)"
  by (simp add: resort_eq buffer_sorted_def pk.sorted_fold_insert)

lemma resort_mset:
  "mset (interleaved_packets (resort_interleaved_packets out)) = mset (interleaved_packets out)"
  by (simp add: resort_eq mset_fold_insert_at_stop)

lemma insert_sorted:
  "buffer_sorted out \<Longrightarrow> buffer_sorted (insert_interleaved_packet out p)"
  by (simp add: buffer_sorted_def insert_interleaved_packet_eq pk.sorted_insert)

lemma sorted_wrt_dropI: "sorted_wrt le xs \<Longrightarrow> sorted_wrt le (drop n xs)"
  by (simp add: sorted_wrt_drop)

section \<open>What the steps do to the buffer\<close>

named_theorems il_frame \<open>fields that an operation leaves alone\<close>

lemma discard_packets [il_frame]:
  "interleaved_packets (discard_to_idx out n) = drop n (interleaved_packets out)"
  by (simp add: discard_to_idx_def Let_def)

lemma discard_frame [il_frame]:
  "sent (discard_to_idx out n) = sent out" "video_encoders (discard_to_idx out n) = video_encoders out"
  "audio_encoders (discard_to_idx out n) = audio_encoders out"
  "received_video (discard_to_idx out n) = received_video out"
  "received_audio (discard_to_idx out n) = received_audio out"
  "video_offsets (discard_to_idx out n) = video_offsets out"
  "audio_offsets (discard_to_idx out n) = audio_offsets out"
  "highest_video_ts (discard_to_idx out n) = highest_video_ts out"
  "highest_audio_ts (discard_to_idx out n) = highest_audio_ts out"
  "caption_tracks (discard_to_idx out n) = caption_tracks out"
  "out_active (discard_to_idx out n) = out_active out"
  "interleaver_max_batch_size (discard_to_idx out n) = interleaver_max_batch_size out"
  by (simp_all add: discard_to_idx_def Let_def)

lemma discard_sorted: "buffer_sorted out \<Longrightarrow> buffer_sorted (discard_to_idx out n)"
  by (simp add: buffer_sorted_def discard_packets sorted_wrt_dropI)

lemma discard_unused_sorted:
  "buffer_sorted out \<Longrightarrow> buffer_sorted (discard_unused_audio_packets out d)"
  by (simp add: discard_unused_audio_packets_def discard_sorted Let_def)

text \<open>Sending pops the head; the packet that leaves is the head up to its payload.\<close>

definition same_packet :: "encoder_packet \<Rightarrow> encoder_packet \<Rightarrow> bool" where
  "same_packet a b \<longleftrightarrow> a\<lparr>pk_data := []\<rparr> = b\<lparr>pk_data := []\<rparr>"

lemma send_captions_same: "same_packet (snd (send_captions E ct p)) p"
  by (auto simp: send_captions_def same_packet_def Let_def split: list.splits prod.splits)

lemma send_interleaved_cases:
  assumes "send_interleaved E out = Some out'"
  shows "\<exists>p q rest. interleaved_packets out = p # rest \<and> interleaved_packets out' = rest
    \<and> sent out' = sent out @ [q] \<and> same_packet q p"
proof (cases "interleaved_packets out")
  case Nil
  with assms show ?thesis by (simp add: send_interleaved_def)
next
  case (Cons p rest)
  show ?thesis
  proof (cases "pk_type p")
    case OBS_ENCODER_AUDIO
    with assms Cons show ?thesis
      by (auto simp: send_interleaved_def same_packet_def Let_def)
  next
    case OBS_ENCODER_VIDEO
    obtain ct q where c: "send_captions E (caption_tracks out ! pk_track_idx p) p = (ct, q)"
      by (cases "send_captions E (caption_tracks out ! pk_track_idx p) p")
    have "same_packet q p" using send_captions_same [of E _ p] c by (metis snd_conv)
    with OBS_ENCODER_VIDEO assms Cons c show ?thesis
      by (auto simp: send_interleaved_def Let_def split: prod.splits)
  qed
qed

lemma send_interleaved_frame [il_frame]:
  assumes "send_interleaved E out = Some out'"
  shows "received_video out' = received_video out" "received_audio out' = received_audio out"
    "video_offsets out' = video_offsets out" "audio_offsets out' = audio_offsets out"
    "highest_video_ts out' = highest_video_ts out" "highest_audio_ts out' = highest_audio_ts out"
    "video_encoders out' = video_encoders out" "audio_encoders out' = audio_encoders out"
    "interleaver_max_batch_size out' = interleaver_max_batch_size out" "out_active out' = out_active out"
  using assms
  by (auto simp: send_interleaved_def Let_def split: list.splits prod.splits obs_encoder_type.splits)

lemma send_interleaved_eq_None: "send_interleaved E out = None \<longleftrightarrow> interleaved_packets out = []"
  by (auto simp: send_interleaved_def Let_def split: list.splits prod.splits)

lemma send_sorted: "send_interleaved E out = Some out' \<Longrightarrow> buffer_sorted out \<Longrightarrow> buffer_sorted out'"
  using send_interleaved_cases [of E out out'] by (auto simp: buffer_sorted_def)

lemma stream_sorted: "stream_packets E out = Some out' \<Longrightarrow> buffer_sorted out \<Longrightarrow> buffer_sorted out'"
  by (auto simp: stream_packets_def Let_def bind_eq_Some_conv split: if_splits
      dest: send_sorted)

lemma prune_premature_frame [il_frame]:
  assumes "prune_premature_packets out = (out', r)"
  shows "interleaved_packets out' = interleaved_packets out" "sent out' = sent out"
    "video_encoders out' = video_encoders out" "audio_encoders out' = audio_encoders out"
    "received_video out' = received_video out" "video_offsets out' = video_offsets out"
    "audio_offsets out' = audio_offsets out" "highest_video_ts out' = highest_video_ts out"
    "highest_audio_ts out' = highest_audio_ts out" "caption_tracks out' = caption_tracks out"
    "encoder_packet_times out' = encoder_packet_times out" "out_active out' = out_active out"
    "interleaver_max_batch_size out' = interleaver_max_batch_size out"
    "r \<noteq> None \<Longrightarrow> received_audio out' = received_audio out"
  using assms by (auto simp: prune_premature_packets_def Let_def split: option.splits)

lemma prune_sorted:
  "prune_interleaved_packets out = Some (out', b) \<Longrightarrow> buffer_sorted out \<Longrightarrow> buffer_sorted out'"
  by (auto simp: prune_interleaved_packets_def Let_def buffer_sorted_def discard_packets
      sorted_wrt_dropI dest: prune_premature_frame(1) split: prod.splits option.splits if_splits)

lemma get_video_packets_frame:
  "get_video_packets out is = (out', b) \<Longrightarrow>
     out' = out\<lparr>received_video := received_video out'\<rparr> \<and>
     length (received_video out') = length (received_video out) \<and> (b \<longrightarrow> out' = out)"
  by (induction out "is" rule: get_video_packets.induct) (auto split: if_splits)

lemma get_audio_packets_frame:
  "get_audio_packets out is = (out', b) \<Longrightarrow>
     out' = out\<lparr>received_audio := received_audio out'\<rparr> \<and> (b \<longrightarrow> out' = out)"
  by (induction out "is" rule: get_audio_packets.induct) (auto split: if_splits)

text \<open>Both arrays of pointers: flags change only on failure, nothing else ever does.\<close>

lemma get_packets_frame:
  assumes "get_audio_and_video_packets out = (out', b)"
  shows "out' = out\<lparr>received_video := received_video out', received_audio := received_audio out'\<rparr> \<and>
    length (received_video out') = length (received_video out) \<and> (b \<longrightarrow> out' = out)"
proof -
  obtain o1 b1 where v: "get_video_packets out [0..<MAX_OUTPUT_VIDEO_ENCODERS] = (o1, b1)"
    by fastforce
  note rv = get_video_packets_frame [OF v]
  show ?thesis
  proof (cases b1)
    case False
    then have "out' = o1" "\<not> b"
      using assms v by (auto simp: get_audio_and_video_packets_def simp del: upt_conv_Cons)
    moreover have "o1 = out\<lparr>received_video := received_video o1, received_audio := received_audio o1\<rparr>"
      using rv by (metis (no_types, lifting) obs_output.ext_inject obs_output.surjective
          obs_output.update_convs(1) obs_output.update_convs(3))
    ultimately show ?thesis using rv by blast
  next
    case True
    with rv have "o1 = out" by blast
    obtain o2 b2 where a: "get_audio_packets out [0..<MAX_OUTPUT_AUDIO_ENCODERS] = (o2, b2)"
      by fastforce
    have "out' = o2" "b \<longrightarrow> b2"
      using assms v a True \<open>o1 = out\<close>
      by (auto simp: get_audio_and_video_packets_def simp del: upt_conv_Cons split: bool.splits)
    with get_audio_packets_frame [OF a] show ?thesis by (cases out; cases o2) auto
  qed
qed

lemma get_packets_frame_fields [il_frame]:
  assumes "get_audio_and_video_packets out = (out', b)"
  shows "interleaved_packets out' = interleaved_packets out" "sent out' = sent out"
    "video_encoders out' = video_encoders out" "audio_encoders out' = audio_encoders out"
    "video_offsets out' = video_offsets out" "audio_offsets out' = audio_offsets out"
    "highest_video_ts out' = highest_video_ts out" "highest_audio_ts out' = highest_audio_ts out"
    "caption_tracks out' = caption_tracks out" "encoder_packet_times out' = encoder_packet_times out"
    "out_active out' = out_active out" "interleaver_max_batch_size out' = interleaver_max_batch_size out"
  by (subst get_packets_frame [OF assms, THEN conjunct1], simp)+

lemma initialize_fail_sorted:
  "initialize_interleaved_packets out = Some (out', False) \<Longrightarrow> buffer_sorted out \<Longrightarrow> buffer_sorted out'"
  by (auto simp: initialize_interleaved_packets_def buffer_sorted_def discard_packets sorted_wrt_dropI
      split: option.splits prod.splits bool.splits if_splits
      dest!: get_packets_frame_fields(1))

lemma apply_ept_offsets_frame [il_frame, simp]:
  "interleaved_packets (apply_ept_offsets out) = interleaved_packets out"
  "sent (apply_ept_offsets out) = sent out"
  "highest_video_ts (apply_ept_offsets out) = highest_video_ts out"
  "highest_audio_ts (apply_ept_offsets out) = highest_audio_ts out"
  "video_encoders (apply_ept_offsets out) = video_encoders out"
  "audio_encoders (apply_ept_offsets out) = audio_encoders out"
  "received_video (apply_ept_offsets out) = received_video out"
  "received_audio (apply_ept_offsets out) = received_audio out"
  "video_offsets (apply_ept_offsets out) = video_offsets out"
  "audio_offsets (apply_ept_offsets out) = audio_offsets out"
  "out_active (apply_ept_offsets out) = out_active out"
  "caption_tracks (apply_ept_offsets out) = caption_tracks out"
  "interleaver_max_batch_size (apply_ept_offsets out) = interleaver_max_batch_size out"
  by (simp_all add: apply_ept_offsets_def)

lemma start_sorted:
  assumes "start_packets E out = Some out'" "buffer_sorted out"
  shows "buffer_sorted out'"
proof -
  obtain out1 b where 1: "prune_interleaved_packets out = Some (out1, b)"
    using assms(1) by (auto simp: start_packets_def bind_eq_Some_conv)
  then have s1: "buffer_sorted out1" using assms(2) by (rule prune_sorted)
  show ?thesis
  proof (cases b)
    case False
    with assms 1 s1 show ?thesis by (simp add: start_packets_def)
  next
    case True
    with assms 1 obtain out2 c where 2: "initialize_interleaved_packets out1 = Some (out2, c)"
      by (auto simp: start_packets_def bind_eq_Some_conv)
    show ?thesis
    proof (cases c)
      case False
      with 2 s1 have "buffer_sorted out2" using initialize_fail_sorted by auto
      with assms 1 2 True False show ?thesis by (simp add: start_packets_def)
    next
      case c: True
      have "buffer_sorted (apply_ept_offsets (resort_interleaved_packets out2))"
        using resort_sorted [of out2] by (simp add: buffer_sorted_def)
      with assms 1 2 True c show ?thesis by (auto simp: start_packets_def intro: send_sorted)
    qed
  qed
qed

lemma push_packet_time_frame [il_frame, simp]:
  "interleaved_packets (push_packet_time out p e off) = interleaved_packets out"
  "sent (push_packet_time out p e off) = sent out"
  "highest_video_ts (push_packet_time out p e off) = highest_video_ts out"
  "highest_audio_ts (push_packet_time out p e off) = highest_audio_ts out"
  "video_encoders (push_packet_time out p e off) = video_encoders out"
  "audio_encoders (push_packet_time out p e off) = audio_encoders out"
  "received_video (push_packet_time out p e off) = received_video out"
  "received_audio (push_packet_time out p e off) = received_audio out"
  "video_offsets (push_packet_time out p e off) = video_offsets out"
  "audio_offsets (push_packet_time out p e off) = audio_offsets out"
  "out_active (push_packet_time out p e off) = out_active out"
  "caption_tracks (push_packet_time out p e off) = caption_tracks out"
  "interleaver_max_batch_size (push_packet_time out p e off) = interleaver_max_batch_size out"
  by (simp_all add: push_packet_time_def Let_def split: option.split)

lemma check_alignment_frame [il_frame]:
  "\<exists>kgs. check_encoder_group_keyframe_alignment E out p = out\<lparr>keyframe_group_tracking := kgs\<rparr>"
proof -
  have "\<exists>kgs. out = out\<lparr>keyframe_group_tracking := kgs\<rparr>"
    by (rule exI [of _ "keyframe_group_tracking out"]) simp
  then show ?thesis
    by (auto simp: check_encoder_group_keyframe_alignment_def Let_def split: option.split prod.split)
qed

lemma accept_sorted:
  assumes "accept_packet out st p e = (out', q)" "buffer_sorted out"
  shows "buffer_sorted out'"
  using assms
  by (auto simp: accept_packet_def Let_def check_received_def buffer_sorted_def
      insert_interleaved_packet_eq pk.sorted_insert
      split: if_splits obs_encoder_type.splits)

lemma interleave_sorted:
  assumes "interleave_packets E out p e = Some out'" "buffer_sorted out"
  shows "buffer_sorted out'"
proof -
  obtain kgs where kg: "check_encoder_group_keyframe_alignment E out (p\<lparr>pk_track_idx := get_encoder_index out p\<rparr>)
      = out\<lparr>keyframe_group_tracking := kgs\<rparr>"
    using check_alignment_frame by blast
  have s: "buffer_sorted (out\<lparr>keyframe_group_tracking := kgs\<rparr>)"
    using assms(2) by (simp add: buffer_sorted_def)
  have h: "buffer_sorted (set_higher_ts o' q) = buffer_sorted o'" for o' q
    by (simp add: buffer_sorted_def)
  show ?thesis
    using assms s accept_sorted [OF _ s]
    by (auto simp: interleave_packets_def Let_def kg discard_unused_sorted h
        split: if_splits prod.splits dest: stream_sorted start_sorted)
qed

lemma interleave_run_sorted:
  "interleave_run E out ps = Some out' \<Longrightarrow> buffer_sorted out \<Longrightarrow> buffer_sorted out'"
proof (induction E out ps rule: interleave_run.induct)
  case (2 E out p e ps)
  then show ?case by (auto simp: bind_eq_Some_conv intro: interleave_sorted)
qed simp

lemma reset_sorted: "buffer_sorted (reset_packet_data out)"
  by (simp add: reset_packet_data_def buffer_sorted_def)

end
