(* ===== verification/Interleave_Safety.thy ===== *)
theory Interleave_Safety
  imports Interleave_Order
begin

text \<open>
  Well-formed outputs, and that the interleaver never reads through a null pointer or past
  the end of its buffer on them; what it sends or keeps is what it received.
\<close>

section \<open>Well-formed outputs\<close>

text \<open>The packet's track belongs to an encoder of the output.\<close>

definition valid_track :: "obs_output \<Rightarrow> encoder_packet \<Rightarrow> bool" where
  "valid_track out p \<longleftrightarrow>
     (case pk_type p of
        OBS_ENCODER_VIDEO \<Rightarrow> pk_track_idx p < MAX_OUTPUT_VIDEO_ENCODERS \<and> video_encoders out ! pk_track_idx p \<noteq> None
      | OBS_ENCODER_AUDIO \<Rightarrow> pk_track_idx p < MAX_OUTPUT_AUDIO_ENCODERS \<and> audio_encoders out ! pk_track_idx p \<noteq> None)"

definition output_wf :: "obs_output \<Rightarrow> bool" where
  "output_wf out \<longleftrightarrow>
     length (video_encoders out) = MAX_OUTPUT_VIDEO_ENCODERS \<and>
     length (audio_encoders out) = MAX_OUTPUT_AUDIO_ENCODERS \<and>
     length (received_video out) = MAX_OUTPUT_VIDEO_ENCODERS \<and>
     length (video_offsets out) = MAX_OUTPUT_VIDEO_ENCODERS \<and>
     length (audio_offsets out) = MAX_OUTPUT_AUDIO_ENCODERS \<and>
     length (highest_video_ts out) = MAX_OUTPUT_VIDEO_ENCODERS \<and>
     (\<exists>i < MAX_OUTPUT_AUDIO_ENCODERS. audio_encoders out ! i \<noteq> None) \<and>
     (\<forall>p \<in> set (interleaved_packets out). valid_track out p)"

text \<open>The packet comes from an encoder that the output has.\<close>

definition known_encoder :: "obs_output \<Rightarrow> encoder_packet \<Rightarrow> bool" where
  "known_encoder out p \<longleftrightarrow>
     (\<exists>e. Some e \<in> set (case pk_type p of OBS_ENCODER_VIDEO \<Rightarrow> video_encoders out
                        | OBS_ENCODER_AUDIO \<Rightarrow> audio_encoders out) \<and> enc_id e = pk_encoder p)"

lemma get_encoder_index_valid:
  assumes "known_encoder out p" "output_wf out"
  shows "valid_track out (p\<lparr>pk_track_idx := get_encoder_index out p\<rparr>)"
proof -
  let ?es = "case pk_type p of OBS_ENCODER_VIDEO \<Rightarrow> video_encoders out | OBS_ENCODER_AUDIO \<Rightarrow> audio_encoders out"
  let ?P = "\<lambda>e. case e of Some enc \<Rightarrow> pk_encoder p = enc_id enc | None \<Rightarrow> False"
  from assms(1) obtain e where e: "Some e \<in> set ?es" "?P (Some e)" by (auto simp: known_encoder_def)
  from first_idx_ex [of "Some e" ?es ?P, OF e] obtain i where "first_idx ?P ?es = Some i" ..
  moreover from this have "i < length ?es" "?es ! i \<noteq> None"
    by (auto simp: first_idx_Some split: option.splits)
  ultimately show ?thesis using assms(2)
    by (auto simp: valid_track_def get_encoder_index_def Let_def output_wf_def split: obs_encoder_type.splits)
qed

lemma valid_track_cong:
  "video_encoders o1 = video_encoders o2 \<Longrightarrow> audio_encoders o1 = audio_encoders o2 \<Longrightarrow>
   pk_type p = pk_type q \<Longrightarrow> pk_track_idx p = pk_track_idx q \<Longrightarrow> valid_track o1 p = valid_track o2 q"
  by (simp add: valid_track_def split: obs_encoder_type.split)

text \<open>Well-formedness only looks at these fields, so it survives every step that keeps them.\<close>

lemma output_wf_step:
  assumes "output_wf out"
    and "video_encoders out' = video_encoders out" "audio_encoders out' = audio_encoders out"
    and "length (received_video out') = length (received_video out)"
    and "length (video_offsets out') = length (video_offsets out)"
    and "length (audio_offsets out') = length (audio_offsets out)"
    and "length (highest_video_ts out') = length (highest_video_ts out)"
    and "\<And>p. p \<in> set (interleaved_packets out') \<Longrightarrow>
      \<exists>q \<in> set (interleaved_packets out). pk_type p = pk_type q \<and> pk_track_idx p = pk_track_idx q"
  shows "output_wf out'"
  using assms valid_track_cong [of out' out] unfolding output_wf_def by (metis (no_types, lifting))

lemma output_wf_step':
  assumes "output_wf out"
    and "video_encoders out' = video_encoders out" "audio_encoders out' = audio_encoders out"
    and "length (received_video out') = length (received_video out)"
    and "length (video_offsets out') = length (video_offsets out)"
    and "length (audio_offsets out') = length (audio_offsets out)"
    and "length (highest_video_ts out') = length (highest_video_ts out)"
    and "\<And>p. p \<in> set (interleaved_packets out') \<Longrightarrow> valid_track out p"
  shows "output_wf out'"
  using assms valid_track_cong [of out' out] unfolding output_wf_def by (metis (no_types, lifting))

section \<open>The searches find what they look for\<close>

lemma find_first_packet_type_None:
  "find_first_packet_type out ty i = None \<longleftrightarrow>
     (\<forall>p \<in> set (interleaved_packets out). \<not> (pk_type p = ty \<and> pk_track_idx p = i))"
  by (simp add: find_first_packet_type_def find_first_packet_type_idx_def first_idx_None)

lemma find_first_packet_type_SomeD:
  "find_first_packet_type out ty i = Some p \<Longrightarrow>
     p \<in> set (interleaved_packets out) \<and> pk_type p = ty \<and> pk_track_idx p = i"
  by (auto simp: find_first_packet_type_def find_first_packet_type_idx_def first_idx_Some)

lemma get_video_packets_ok:
  "get_video_packets out is = (out', True) \<Longrightarrow> i \<in> set is \<Longrightarrow> video_encoders out ! i \<noteq> None \<Longrightarrow>
     find_first_packet_type out OBS_ENCODER_VIDEO i \<noteq> None"
  by (induction out "is" rule: get_video_packets.induct) (auto split: if_splits)

lemma get_audio_packets_ok:
  "get_audio_packets out is = (out', True) \<Longrightarrow> i \<in> set is \<Longrightarrow> audio_encoders out ! i \<noteq> None \<Longrightarrow>
     find_first_packet_type out OBS_ENCODER_AUDIO i \<noteq> None"
  by (induction out "is" rule: get_audio_packets.induct) (auto split: if_splits)

lemma get_packets_ok:
  assumes "get_audio_and_video_packets out = (out', True)"
  shows "i < MAX_OUTPUT_VIDEO_ENCODERS \<Longrightarrow> video_encoders out ! i \<noteq> None \<Longrightarrow>
      find_first_packet_type out OBS_ENCODER_VIDEO i \<noteq> None"
    and "i < MAX_OUTPUT_AUDIO_ENCODERS \<Longrightarrow> audio_encoders out ! i \<noteq> None \<Longrightarrow>
      find_first_packet_type out OBS_ENCODER_AUDIO i \<noteq> None"
proof -
  obtain o1 b1 where v: "get_video_packets out [0..<MAX_OUTPUT_VIDEO_ENCODERS] = (o1, b1)"
    by fastforce
  obtain o2 b2 where a: "get_audio_packets o1 [0..<MAX_OUTPUT_AUDIO_ENCODERS] = (o2, b2)"
    by fastforce
  have b: b1 b2 using assms v a
    by (auto simp: get_audio_and_video_packets_def simp del: upt_conv_Cons split: bool.splits)
  with get_video_packets_frame [OF v] have o1: "o1 = out" by blast
  show "find_first_packet_type out OBS_ENCODER_VIDEO i \<noteq> None"
    if "i < MAX_OUTPUT_VIDEO_ENCODERS" "video_encoders out ! i \<noteq> None"
    using get_video_packets_ok [of out "[0..<MAX_OUTPUT_VIDEO_ENCODERS]" o1 i] v b that by simp
  show "find_first_packet_type out OBS_ENCODER_AUDIO i \<noteq> None"
    if "i < MAX_OUTPUT_AUDIO_ENCODERS" "audio_encoders out ! i \<noteq> None"
    using get_audio_packets_ok [of out "[0..<MAX_OUTPUT_AUDIO_ENCODERS]" o2 i] a b o1 that by simp
qed

lemma prune_scan_ok:
  "prune_scan out v is ps = Some ps' \<Longrightarrow> i \<in> set is \<Longrightarrow> audio_encoders out ! i \<noteq> None \<Longrightarrow>
     find_first_packet_type out OBS_ENCODER_AUDIO i \<noteq> None"
  by (induction out v "is" ps rule: prune_scan.induct)
    (auto split: option.splits simp: Let_def find_first_packet_type_def)

lemma start_scan_Some:
  "\<exists>r. start_scan (Some v) i ps cd vi idx = Some r"
  by (cases v; induction ps arbitrary: i cd vi idx) (auto simp: Let_def)

lemma start_scan_idx:
  "start_scan fv i ps cd vi idx = Some (vi', idx') \<Longrightarrow>
     idx' = idx \<or> (\<exists>k < length ps. idx' = i + k \<and> pk_type (ps ! k) = OBS_ENCODER_AUDIO)"
proof (induction fv i ps cd vi idx rule: start_scan.induct)
  case (2 fv i p ps cd vi idx)
  have shift: "\<exists>k < length (p # ps). idx' = i + k \<and> pk_type ((p # ps) ! k) = OBS_ENCODER_AUDIO"
    if "\<exists>k < length ps. idx' = Suc i + k \<and> pk_type (ps ! k) = OBS_ENCODER_AUDIO"
    using that by (metis Suc_less_eq add_Suc add_Suc_right length_Cons nth_Cons_Suc)
  show ?case
  proof (cases "pk_type p = OBS_ENCODER_AUDIO")
    case False
    with "2.prems" "2.IH"(1) shift show ?thesis by auto
  next
    case True
    then have self: "\<exists>k < length (p # ps). i = i + k \<and> pk_type ((p # ps) ! k) = OBS_ENCODER_AUDIO"
      by (intro exI [of _ 0]) simp
    obtain j q where fv: "fv = Some (j, q)" using True "2.prems" by (cases fv) auto
    let ?d = "\<bar>pk_dts_usec p - pk_dts_usec q\<bar>"
    from "2.IH"(2) [OF _ fv refl refl] "2.IH"(3) [OF _ fv refl refl] "2.prems" True fv shift self
    show ?thesis by (auto simp: Let_def split: if_splits)
  qed
qed simp

lemma get_interleaved_start_idx_Some:
  assumes v: "find_first_packet_type out OBS_ENCODER_VIDEO 0 \<noteq> None"
    and a: "find_first_packet_type out OBS_ENCODER_AUDIO j \<noteq> None"
  shows "get_interleaved_start_idx out \<noteq> None"
proof -
  let ?pkts = "interleaved_packets out"
  obtain iv where iv: "find_first_packet_type_idx out OBS_ENCODER_VIDEO 0 = Some iv"
    using v by (auto simp: find_first_packet_type_def)
  obtain vi idx0 where scan: "start_scan (Some (iv, ?pkts ! iv)) 0 ?pkts INT64_MAX None 0 = Some (vi, idx0)"
    using start_scan_Some by (metis surj_pair)
  let ?idx = "case vi of Some v \<Rightarrow> if v < idx0 then v else idx0 | None \<Rightarrow> idx0"
  have le: "?idx \<le> idx0" by (auto split: option.split)
  have "\<exists>p \<in> set (drop ?idx ?pkts). pk_type p = OBS_ENCODER_AUDIO"
  proof -
    consider "idx0 = 0" | "idx0 < length ?pkts" "pk_type (?pkts ! idx0) = OBS_ENCODER_AUDIO"
      using start_scan_idx [OF scan] by auto
    then show ?thesis
    proof cases
      case 1
      then show ?thesis using a le by (auto simp: find_first_packet_type_None)
    next
      case 2
      then have "?pkts ! idx0 \<in> set (drop ?idx ?pkts)"
        using le by (metis Cons_nth_drop_Suc drop_drop in_set_dropD le_add_diff_inverse2 list.set_intros(1))
      with 2 show ?thesis by blast
    qed
  qed
  then obtain k where "first_idx (\<lambda>p. pk_type p = OBS_ENCODER_AUDIO) (drop ?idx ?pkts) = Some k"
    using first_idx_ex by (metis (mono_tags, lifting))
  with iv scan show ?thesis by (simp add: get_interleaved_start_idx_def Let_def)
qed

lemma those_map_Some: "(\<forall>x \<in> set xs. f x \<noteq> None) \<Longrightarrow> those (map f xs) = Some (map (the \<circ> f) xs)"
  by (induction xs) auto

lemma those_map_length: "those (map f xs) = Some ys \<Longrightarrow> length ys = length xs"
  by (induction xs arbitrary: ys) (auto split: option.splits)

lemma those_map_nth: "those (map f xs) = Some ys \<Longrightarrow> i < length xs \<Longrightarrow> f (xs ! i) = Some (ys ! i)"
  by (induction xs arbitrary: ys i) (auto split: option.splits simp: nth_Cons')

lemma set_start_offsets_Some:
  assumes "get_audio_and_video_packets out = (out, True)"
    and "i < MAX_OUTPUT_AUDIO_ENCODERS" "audio_encoders out ! i \<noteq> None"
  shows "set_start_offsets out i \<noteq> None"
proof -
  note v = get_packets_ok(1) [OF assms(1)] and a = get_packets_ok(2) [OF assms(1)]
  obtain ai where ai: "audio_packet out i = Some ai"
    using a assms(2,3) by (auto simp: audio_packet_def)
  have 1: "\<forall>x \<in> set [0..<MAX_OUTPUT_VIDEO_ENCODERS]. (if video_encoders out ! x \<noteq> None
      then map_option pk_pts (video_packet out x) else Some (video_offsets out ! x)) \<noteq> None"
    using v by (auto simp: video_packet_def simp del: upt_conv_Cons)
  have 2: "\<forall>x \<in> set [0..<MAX_OUTPUT_AUDIO_ENCODERS]. (if audio_encoders out ! x \<noteq> None
      then map_option (\<lambda>a. if pk_dts a > 0 then pk_dts a else audio_offsets out ! x) (audio_packet out x)
      else Some (audio_offsets out ! x)) \<noteq> None"
    using a by (auto simp: audio_packet_def simp del: upt_conv_Cons)
  show ?thesis
    using those_map_Some [OF 1] those_map_Some [OF 2] ai
    by (simp add: set_start_offsets_def Let_def del: upt_conv_Cons)
qed

section \<open>Starting and sending stay well formed\<close>

lemma discard_wf: "output_wf out \<Longrightarrow> output_wf (discard_to_idx out n)"
  by (rule output_wf_step) (auto simp: il_frame dest: in_set_dropD)

lemma discard_unused_wf: "output_wf out \<Longrightarrow> output_wf (discard_unused_audio_packets out d)"
  by (simp add: discard_unused_audio_packets_def Let_def discard_wf)

lemma send_interleaved_wf:
  assumes "send_interleaved E out = Some out'" "output_wf out"
  shows "output_wf out'"
  using assms send_interleaved_cases [OF assms(1)]
  by (elim output_wf_step) (auto simp: send_interleaved_frame [OF assms(1)])

lemma get_packets_wf:
  assumes "get_audio_and_video_packets out = (out', b)" "output_wf out"
  shows "output_wf out'"
  using assms(2) get_packets_frame [OF assms(1)]
  by (elim output_wf_step) (auto simp: get_packets_frame_fields [OF assms(1)])

lemma fold_set_higher_ts_frame:
  "video_encoders (fold (\<lambda>p o'. set_higher_ts o' p) ps out) = video_encoders out"
  "audio_encoders (fold (\<lambda>p o'. set_higher_ts o' p) ps out) = audio_encoders out"
  "received_video (fold (\<lambda>p o'. set_higher_ts o' p) ps out) = received_video out"
  "video_offsets (fold (\<lambda>p o'. set_higher_ts o' p) ps out) = video_offsets out"
  "audio_offsets (fold (\<lambda>p o'. set_higher_ts o' p) ps out) = audio_offsets out"
  "length (highest_video_ts (fold (\<lambda>p o'. set_higher_ts o' p) ps out)) = length (highest_video_ts out)"
  "sent (fold (\<lambda>p o'. set_higher_ts o' p) ps out) = sent out"
  "received_audio (fold (\<lambda>p o'. set_higher_ts o' p) ps out) = received_audio out"
  by (induction ps arbitrary: out) (auto simp: set_higher_ts_def split: obs_encoder_type.splits)

lemma resort_wf: "output_wf out \<Longrightarrow> output_wf (resort_interleaved_packets out)"
  using resort_mset [of out, THEN mset_eq_setD]
  by (elim output_wf_step) (auto simp: resort_eq fold_set_higher_ts_frame)

lemma apply_ept_offsets_wf: "output_wf out \<Longrightarrow> output_wf (apply_ept_offsets out)"
  by (elim output_wf_step) auto

lemma set_start_offsets_wf:
  assumes "set_start_offsets out i = Some out'" "output_wf out"
  shows "output_wf out'"
  using assms(2,1)
  by (elim output_wf_step;
      auto simp: set_start_offsets_def Let_def bind_eq_Some_conv output_wf_def
        apply_interleaved_packet_offset_def simp del: upt_conv_Cons dest!: those_map_length; blast)

lemma prune_safe:
  assumes wf: "output_wf out"
  shows "\<exists>out' b. prune_interleaved_packets out = Some (out', b) \<and> output_wf out' \<and>
    (b \<longrightarrow> video_encoders out' ! 0 \<noteq> None)"
proof -
  obtain o1 r where p: "prune_premature_packets out = (o1, r)" by fastforce
  note f = prune_premature_frame [OF p]
  have wf1: "output_wf o1" using wf by (elim output_wf_step) (auto simp: f)
  show ?thesis
  proof (cases r)
    case None
    with p wf1 show ?thesis by (auto simp: prune_interleaved_packets_def)
  next
    case (Some n)
    obtain iv where iv: "find_first_packet_type_idx out OBS_ENCODER_VIDEO 0 = Some iv"
      using p Some by (auto simp: prune_premature_packets_def split: option.splits)
    then have v: "find_first_packet_type out OBS_ENCODER_VIDEO 0 \<noteq> None"
      by (simp add: find_first_packet_type_def)
    let ?ps0 = "\<lparr>ps_max_idx = iv, ps_max_audio_duration = 0, ps_max_diff = 0, ps_diff = 0,
      ps_audio_encoders = 0\<rparr>"
    let ?scan = "prune_scan out (interleaved_packets out ! iv) [0..<MAX_OUTPUT_AUDIO_ENCODERS] ?ps0"
    have "?scan \<noteq> None"
    proof
      assume "?scan = None"
      with p iv Some show False by (simp add: prune_premature_packets_def Let_def del: upt_conv_Cons)
    qed
    then obtain ps' where scan: "?scan = Some ps'" by blast
    with p iv have o1: "o1 = out"
      by (simp add: prune_premature_packets_def Let_def del: upt_conv_Cons)
    obtain j where j: "j < MAX_OUTPUT_AUDIO_ENCODERS" "audio_encoders out ! j \<noteq> None"
      using wf by (auto simp: output_wf_def)
    then have "j \<in> set [0..<MAX_OUTPUT_AUDIO_ENCODERS]" by (simp del: upt_conv_Cons)
    from prune_scan_ok [OF scan this j(2)]
    have a: "find_first_packet_type out OBS_ENCODER_AUDIO j \<noteq> None" .
    have "\<exists>p \<in> set (interleaved_packets out). pk_type p = OBS_ENCODER_VIDEO \<and> pk_track_idx p = 0"
      using v by (auto simp: find_first_packet_type_None)
    then have v0: "video_encoders out ! 0 \<noteq> None"
      using wf by (force simp: output_wf_def valid_track_def)
    obtain k where "get_interleaved_start_idx out = Some k"
      using get_interleaved_start_idx_Some [OF v a] by auto
    then have "prune_interleaved_packets out =
        Some (if (if n \<noteq> 0 then n else k) \<noteq> 0 then discard_to_idx out (if n \<noteq> 0 then n else k)
              else out, True)" (is "_ = Some (?o, True)")
      using p Some o1 by (simp add: prune_interleaved_packets_def)
    moreover have "output_wf ?o" "video_encoders ?o ! 0 \<noteq> None"
      using wf v0 by (simp_all add: discard_wf il_frame)
    ultimately show ?thesis by blast
  qed
qed

lemma initialize_safe:
  assumes wf: "output_wf out" and v0: "video_encoders out ! 0 \<noteq> None"
  shows "\<exists>out' b. initialize_interleaved_packets out = Some (out', b) \<and> output_wf out' \<and>
    (b \<longrightarrow> interleaved_packets out' \<noteq> [])"
proof -
  obtain ai where ai: "get_first_audio_encoder_index out = Some ai" "ai < MAX_OUTPUT_AUDIO_ENCODERS"
    "audio_encoders out ! ai \<noteq> None"
  proof -
    from wf obtain i where "i < length (audio_encoders out)" "audio_encoders out ! i \<noteq> None"
      by (auto simp: output_wf_def)
    from first_idx_ex [of "audio_encoders out ! i" "audio_encoders out" "\<lambda>e. e \<noteq> None", OF nth_mem, OF this]
    show ?thesis using that wf by (auto simp: get_first_audio_encoder_index_def first_idx_Some output_wf_def)
  qed
  obtain vi where vi: "get_first_video_encoder_index out = Some vi" "vi < MAX_OUTPUT_VIDEO_ENCODERS"
    "video_encoders out ! vi \<noteq> None"
  proof -
    from wf v0 have "0 < length (video_encoders out)" by (simp add: output_wf_def)
    from first_idx_ex [of "video_encoders out ! 0" "video_encoders out" "\<lambda>e. e \<noteq> None", OF nth_mem, OF this v0]
    show ?thesis using that wf by (auto simp: get_first_video_encoder_index_def first_idx_Some output_wf_def)
  qed
  obtain o1 b where g: "get_audio_and_video_packets out = (o1, b)" by fastforce
  have wf1: "output_wf o1" using g wf by (rule get_packets_wf)
  show ?thesis
  proof (cases b)
    case False
    with g ai vi wf1 show ?thesis by (auto simp: initialize_interleaved_packets_def)
  next
    case True
    with get_packets_frame [OF g] have o1: "o1 = out" by simp
    with g True have ok: "get_audio_and_video_packets out = (out, True)" by simp
    obtain video where video: "video_packet out vi = Some video"
      using get_packets_ok(1) [OF ok] vi by (auto simp: video_packet_def)
    obtain k where k: "get_interleaved_start_idx out = Some k"
      using get_interleaved_start_idx_Some [OF get_packets_ok(1) [OF ok _ v0] get_packets_ok(2) [OF ok ai(2,3)]]
      by auto
    show ?thesis
    proof (cases "audio_behind_video out video")
      case True
      have "output_wf (out\<lparr>received_audio := False\<rparr>)" using wf by (elim output_wf_step) auto
      with True ok ai vi video show ?thesis by (auto simp: initialize_interleaved_packets_def)
    next
      case ahead: False
      let ?o = "if k \<noteq> 0 then get_audio_and_video_packets (discard_to_idx out k) else (out, True)"
      obtain o2 c where o2: "?o = (o2, c)" by fastforce
      have wf2: "output_wf o2" using o2 wf by (auto split: if_splits intro: get_packets_wf discard_wf)
      show ?thesis
      proof (cases c)
        case False
        with ok ai vi video ahead k o2 wf2 show ?thesis by (auto simp: initialize_interleaved_packets_def)
      next
        case True
        have g2: "get_audio_and_video_packets o2 = (o2, True)"
          using o2 True ok get_packets_frame by (fastforce split: if_splits)
        have enc: "audio_encoders o2 = audio_encoders out"
          using o2 by (auto simp: il_frame split: if_splits dest: get_packets_frame_fields)
        obtain o3 where o3: "set_start_offsets o2 ai = Some o3"
          using set_start_offsets_Some [OF g2, of ai] ai enc by auto
        have "interleaved_packets o2 \<noteq> []"
          using get_packets_ok(2) [OF g2, of ai] ai enc by (auto simp: find_first_packet_type_None)
        then have "interleaved_packets o3 \<noteq> []"
          using o3 by (auto simp: set_start_offsets_def Let_def bind_eq_Some_conv simp del: upt_conv_Cons)
        with o3 True ok ai vi video ahead k o2 set_start_offsets_wf [OF o3 wf2] show ?thesis
          by (intro exI [of _ o3] exI [of _ True]) (simp add: initialize_interleaved_packets_def)
      qed
    qed
  qed
qed

lemma start_packets_safe:
  assumes "output_wf out"
  shows "\<exists>out'. start_packets E out = Some out' \<and> output_wf out'"
proof -
  from prune_safe [OF assms] obtain o1 b where 1: "prune_interleaved_packets out = Some (o1, b)"
    "output_wf o1" "b \<Longrightarrow> video_encoders o1 ! 0 \<noteq> None" by blast
  show ?thesis
  proof (cases b)
    case False
    with 1 show ?thesis by (simp add: start_packets_def)
  next
    case True
    from initialize_safe [OF 1(2) 1(3) [OF True]] obtain o2 c where
      2: "initialize_interleaved_packets o1 = Some (o2, c)" "output_wf o2"
      "c \<Longrightarrow> interleaved_packets o2 \<noteq> []" by blast
    let ?o3 = "apply_ept_offsets (resort_interleaved_packets o2)"
    have wf3: "output_wf ?o3" by (intro apply_ept_offsets_wf resort_wf 2)
    show ?thesis
    proof (cases c)
      case False
      with 1 2 True show ?thesis by (simp add: start_packets_def)
    next
      case c: True
      have "interleaved_packets ?o3 \<noteq> []"
        using 2(3) [OF c] resort_mset [of o2] by auto
      then obtain o4 where "send_interleaved E ?o3 = Some o4"
        using send_interleaved_eq_None [of E ?o3] by auto
      with 1 2 True c send_interleaved_wf [OF _ wf3] show ?thesis by (auto simp: start_packets_def)
    qed
  qed
qed

lemma count_streamable_le: "count_streamable_frames out \<le> length (interleaved_packets out)"
  by (simp add: count_streamable_frames_def length_takeWhile_le)

lemma stream_packets_safe:
  assumes wf: "output_wf out"
  shows "\<exists>out'. stream_packets E out = Some out' \<and> output_wf out'"
proof (cases "count_streamable_frames out")
  case 0
  with wf show ?thesis by (simp add: stream_packets_def)
next
  case (Suc n)
  then have ne: "interleaved_packets out \<noteq> []" using count_streamable_le [of out] by auto
  then obtain o1 where o1: "send_interleaved E out = Some o1"
    using send_interleaved_eq_None [of E out] by auto
  have wf1: "output_wf o1" using o1 wf by (rule send_interleaved_wf)
  show ?thesis
  proof (cases "n > interleaver_max_batch_size o1")
    case False
    with Suc o1 wf1 show ?thesis by (simp add: stream_packets_def Let_def)
  next
    case True
    have "length (interleaved_packets o1) = length (interleaved_packets out) - 1"
      using send_interleaved_cases [OF o1] by auto
    with True Suc count_streamable_le [of out] have "interleaved_packets o1 \<noteq> []" by auto
    then obtain o2 where "send_interleaved E o1 = Some o2"
      using send_interleaved_eq_None [of E o1] by auto
    with Suc o1 wf1 True show ?thesis by (auto simp: stream_packets_def Let_def intro: send_interleaved_wf)
  qed
qed

lemma set_higher_ts_wf: "output_wf out \<Longrightarrow> output_wf (set_higher_ts out p)"
  by (elim output_wf_step) (auto simp: set_higher_ts_def split: obs_encoder_type.splits if_splits)

lemma accept_wf:
  assumes "accept_packet out st p e = (out', q)" "output_wf out" "valid_track out p"
  shows "output_wf out'"
proof -
  have f: "video_encoders out' = video_encoders out" "audio_encoders out' = audio_encoders out"
    "length (received_video out') = length (received_video out)" "video_offsets out' = video_offsets out"
    "audio_offsets out' = audio_offsets out" "highest_video_ts out' = highest_video_ts out"
    "set (interleaved_packets out') = insert q (set (interleaved_packets out))"
    "pk_type q = pk_type p" "pk_track_idx q = pk_track_idx p"
    using assms(1) by (auto simp: accept_packet_def Let_def check_received_def insert_interleaved_packet_eq
        apply_interleaved_packet_offset_def split: if_splits obs_encoder_type.splits)
  have "valid_track out' r" if "r \<in> set (interleaved_packets out')" for r
    using that f assms(2,3) valid_track_cong [of out' out r r] valid_track_cong [of out' out q p]
    by (auto simp: output_wf_def)
  with f assms(2) show ?thesis by (simp add: output_wf_def)
qed

lemma interleave_packets_safe':
  assumes wf: "output_wf out" and vt: "valid_track out (p\<lparr>pk_track_idx := get_encoder_index out p\<rparr>)"
  shows "\<exists>out'. interleave_packets E out p e = Some out' \<and> output_wf out'"
proof -
  let ?p = "p\<lparr>pk_track_idx := get_encoder_index out p\<rparr>"
  obtain kgs where kg: "check_encoder_group_keyframe_alignment E out ?p = out\<lparr>keyframe_group_tracking := kgs\<rparr>"
    using check_alignment_frame by blast
  let ?o1 = "out\<lparr>keyframe_group_tracking := kgs\<rparr>"
  have wf1: "output_wf ?o1" using wf by (elim output_wf_step) auto
  from vt have v1: "valid_track ?o1 ?p" by (subst valid_track_cong [of _ out _ ?p]) simp_all
  obtain o2 q where acc: "accept_packet ?o1 (received_audio out \<and> all_video_received out) ?p e = (o2, q)"
    by fastforce
  have wf2: "output_wf o2" by (rule accept_wf [OF acc wf1 v1])
  have "\<exists>out'. start_packets E o2 = Some out' \<and> output_wf out'" by (rule start_packets_safe [OF wf2])
  moreover have "\<exists>out'. stream_packets E (set_higher_ts o2 q) = Some out' \<and> output_wf out'"
    by (rule stream_packets_safe [OF set_higher_ts_wf [OF wf2]])
  ultimately show ?thesis
    using wf wf2 acc
    by (auto simp: interleave_packets_def Let_def kg discard_unused_wf split: prod.splits)
qed

lemma interleave_packets_safe:
  "output_wf out \<Longrightarrow> known_encoder out p \<Longrightarrow>
     \<exists>out'. interleave_packets E out p e = Some out' \<and> output_wf out'"
  by (rule interleave_packets_safe' [OF _ get_encoder_index_valid])

end
