(* ===== verification/Interleave_Stream.thy ===== *)
theory Interleave_Stream
  imports Interleave_Safety
begin

text \<open>
  What leaves the interleaver: one packet in, at most two packets out, none lost once the
  output has started; with one video and one audio encoder the packets leave in the order
  of their DTS.
\<close>

section \<open>Setup of an output\<close>

text \<open>What no packet changes: the encoders, the active flag, the batch limit.\<close>

definition out_config :: "obs_output \<Rightarrow> obs_encoder option list \<times> obs_encoder option list \<times> bool \<times> nat" where
  "out_config out = (video_encoders out, audio_encoders out, out_active out, interleaver_max_batch_size out)"

lemma config_send: "send_interleaved E out = Some out' \<Longrightarrow> out_config out' = out_config out"
  by (simp add: out_config_def send_interleaved_frame)

lemma config_stream: "stream_packets E out = Some out' \<Longrightarrow> out_config out' = out_config out"
  by (auto simp: stream_packets_def Let_def bind_eq_Some_conv dest!: config_send split: if_splits)

lemma config_higher: "out_config (set_higher_ts out p) = out_config out"
  by (simp add: out_config_def set_higher_ts_def split: obs_encoder_type.split)

lemma config_insert: "out_config (insert_interleaved_packet out p) = out_config out"
  by (simp add: out_config_def insert_interleaved_packet_eq)

lemma config_resort: "out_config (resort_interleaved_packets out) = out_config out"
proof -
  have "out_config (fold (\<lambda>p o'. insert_interleaved_packet (set_higher_ts o' p) p) ps o0) = out_config o0" for ps o0
    by (induction ps arbitrary: o0) (simp_all add: config_insert config_higher)
  then show ?thesis by (simp add: resort_interleaved_packets_def) (simp add: out_config_def)
qed

lemma config_get_packets: "get_audio_and_video_packets out = (out', b) \<Longrightarrow> out_config out' = out_config out"
  by (simp add: out_config_def get_packets_frame_fields)

lemma config_discard: "out_config (discard_to_idx out n) = out_config out"
  by (simp add: out_config_def il_frame)

lemma config_prune: "prune_interleaved_packets out = Some (out', b) \<Longrightarrow> out_config out' = out_config out"
  by (auto simp: prune_interleaved_packets_def Let_def config_discard split: prod.splits option.splits if_splits)
    (auto simp: out_config_def dest: prune_premature_frame)

lemma config_offsets: "set_start_offsets out i = Some out' \<Longrightarrow> out_config out' = out_config out"
  by (auto simp: set_start_offsets_def Let_def bind_eq_Some_conv out_config_def simp del: upt_conv_Cons)

lemma config_initialize: "initialize_interleaved_packets out = Some (out', b) \<Longrightarrow> out_config out' = out_config out"
  by (auto simp: initialize_interleaved_packets_def config_discard
      split: option.splits prod.splits bool.splits if_splits dest!: config_get_packets config_offsets)
    (auto simp: out_config_def)

lemma config_start:
  assumes "start_packets E out = Some out'"
  shows "out_config out' = out_config out"
  using assms
  by (auto simp: start_packets_def bind_eq_Some_conv split: if_splits
      dest!: config_prune config_initialize config_send)
    (auto simp: out_config_def config_resort [unfolded out_config_def])

lemma config_accept: "accept_packet out st p e = (out', q) \<Longrightarrow> out_config out' = out_config out"
  by (auto simp: accept_packet_def Let_def config_insert check_received_def split: if_splits obs_encoder_type.splits)
    (auto simp: out_config_def)

lemma config_interleave:
  assumes "interleave_packets E out p e = Some out'"
  shows "out_config out' = out_config out"
proof -
  obtain kgs where kg: "check_encoder_group_keyframe_alignment E out (p\<lparr>pk_track_idx := get_encoder_index out p\<rparr>)
      = out\<lparr>keyframe_group_tracking := kgs\<rparr>"
    using check_alignment_frame by blast
  have k: "out_config (out\<lparr>keyframe_group_tracking := kgs\<rparr>) = out_config out" by (simp add: out_config_def)
  show ?thesis using assms
    by (auto simp: interleave_packets_def Let_def kg discard_unused_audio_packets_def config_discard
        config_higher k split: if_splits prod.splits dest!: config_accept config_start config_stream)
qed

section \<open>The offsets taken at the start\<close>

lemma set_start_offsets_cases:
  assumes "set_start_offsets out i = Some out'"
  shows "\<exists>a. audio_packet out i = Some a \<and> highest_audio_ts out' = highest_audio_ts out - pk_dts_usec a"
    and "k < MAX_OUTPUT_VIDEO_ENCODERS \<Longrightarrow> video_encoders out ! k \<noteq> None \<Longrightarrow>
      \<exists>v. video_packet out k = Some v \<and> video_offsets out' ! k = pk_pts v"
    and "j < MAX_OUTPUT_AUDIO_ENCODERS \<Longrightarrow> audio_encoders out ! j \<noteq> None \<Longrightarrow>
      \<exists>a. audio_packet out j = Some a \<and>
        audio_offsets out' ! j = (if pk_dts a > 0 then pk_dts a else audio_offsets out ! j)"
    and "interleaved_packets out' = map (apply_interleaved_packet_offset out') (interleaved_packets out)"
    and "sent out' = sent out" "highest_video_ts out' = highest_video_ts out"
      "received_audio out' = received_audio out" "received_video out' = received_video out"
proof -
  from assms obtain vo ao a where
    vo: "those (map (\<lambda>i. if video_encoders out ! i \<noteq> None then map_option pk_pts (video_packet out i)
                       else Some (video_offsets out ! i)) [0..<MAX_OUTPUT_VIDEO_ENCODERS]) = Some vo" and
    ao: "those (map (\<lambda>i. if audio_encoders out ! i \<noteq> None
                       then map_option (\<lambda>a. if pk_dts a > 0 then pk_dts a else audio_offsets out ! i) (audio_packet out i)
                       else Some (audio_offsets out ! i)) [0..<MAX_OUTPUT_AUDIO_ENCODERS]) = Some ao" and
    a: "audio_packet out i = Some a" and
    out': "out' = (let o2 = out\<lparr>video_offsets := vo, audio_offsets := ao,
                                highest_audio_ts := highest_audio_ts out - pk_dts_usec a\<rparr>
                   in o2\<lparr>interleaved_packets := map (apply_interleaved_packet_offset o2) (interleaved_packets out)\<rparr>)"
    unfolding set_start_offsets_def Let_def bind_eq_Some_conv by auto
  show "\<exists>a. audio_packet out i = Some a \<and> highest_audio_ts out' = highest_audio_ts out - pk_dts_usec a"
    "sent out' = sent out" "highest_video_ts out' = highest_video_ts out"
    "received_audio out' = received_audio out" "received_video out' = received_video out"
    using a by (simp_all add: out' Let_def)
  show "interleaved_packets out' = map (apply_interleaved_packet_offset out') (interleaved_packets out)"
    by (simp add: out' Let_def apply_interleaved_packet_offset_def packet_offset_def cong: obs_encoder_type.case_cong)
  show "\<exists>v. video_packet out k = Some v \<and> video_offsets out' ! k = pk_pts v"
    if "k < MAX_OUTPUT_VIDEO_ENCODERS" "video_encoders out ! k \<noteq> None"
    using those_map_nth [OF vo, of k] that by (auto simp: out' Let_def simp del: upt_conv_Cons)
  show "\<exists>a. audio_packet out j = Some a \<and>
        audio_offsets out' ! j = (if pk_dts a > 0 then pk_dts a else audio_offsets out ! j)"
    if "j < MAX_OUTPUT_AUDIO_ENCODERS" "audio_encoders out ! j \<noteq> None"
    using those_map_nth [OF ao, of j] that by (auto simp: out' Let_def simp del: upt_conv_Cons)
qed

section \<open>Sending from a started output\<close>

text \<open>One step of a started output sends a prefix of at most two packets, all eligible.\<close>

lemma stream_packets_cases:
  assumes "stream_packets E out = Some out'"
  shows "\<exists>k qs. k \<le> count_streamable_frames out \<and> k \<le> 2 \<and> sent out' = sent out @ qs \<and>
    list_all2 same_packet qs (take k (interleaved_packets out)) \<and>
    interleaved_packets out' = drop k (interleaved_packets out) \<and>
    received_audio out' = received_audio out \<and> received_video out' = received_video out \<and>
    video_offsets out' = video_offsets out \<and> audio_offsets out' = audio_offsets out \<and>
    highest_video_ts out' = highest_video_ts out \<and> highest_audio_ts out' = highest_audio_ts out"
proof (cases "count_streamable_frames out")
  case 0
  with assms have "out' = out" by (simp add: stream_packets_def)
  then show ?thesis by (intro exI [of _ 0] exI [of _ "[]"]) simp
next
  case (Suc n)
  with assms obtain o1 where o1: "send_interleaved E out = Some o1"
    and rest: "(if n > interleaver_max_batch_size o1 then send_interleaved E o1 else Some o1) = Some out'"
    by (auto simp: stream_packets_def Let_def bind_eq_Some_conv)
  from send_interleaved_cases [OF o1] obtain p q r where
    c1: "interleaved_packets out = p # r" "interleaved_packets o1 = r" "sent o1 = sent out @ [q]" "same_packet q p"
    by blast
  show ?thesis
  proof (cases "n > interleaver_max_batch_size o1")
    case False
    with rest have "out' = o1" by simp
    then show ?thesis
      using c1 Suc send_interleaved_frame [OF o1] by (intro exI [of _ 1] exI [of _ "[q]"]) simp
  next
    case True
    with rest have o2: "send_interleaved E o1 = Some out'" by simp
    from send_interleaved_cases [OF o2] obtain p2 q2 r2 where
      c2: "r = p2 # r2" "interleaved_packets out' = r2" "sent out' = sent o1 @ [q2]" "same_packet q2 p2"
      using c1 by auto
    show ?thesis
      using c1 c2 Suc True send_interleaved_frame [OF o1] send_interleaved_frame [OF o2]
      by (intro exI [of _ 2] exI [of _ "[q, q2]"]) simp
  qed
qed

text \<open>The payload is not compared: captions may have been added to it.\<close>

definition packet_meta :: "encoder_packet \<Rightarrow> encoder_packet" where
  "packet_meta p = p\<lparr>pk_data := []\<rparr>"

lemma list_all2_meta: "list_all2 same_packet qs ps \<Longrightarrow> map packet_meta qs = map packet_meta ps"
  by (induction rule: list_all2_induct) (simp_all add: same_packet_def packet_meta_def)

definition in_output :: "obs_output \<Rightarrow> encoder_packet multiset" where
  "in_output out = image_mset packet_meta (mset (sent out) + mset (interleaved_packets out))"

lemma stream_packets_in_output:
  assumes "stream_packets E out = Some out'"
  shows "in_output out' = in_output out"
proof -
  obtain k qs where "sent out' = sent out @ qs" "interleaved_packets out' = drop k (interleaved_packets out)"
    and m: "list_all2 same_packet qs (take k (interleaved_packets out))"
    using stream_packets_cases [OF assms] by blast
  moreover from list_all2_meta [OF m]
  have "image_mset packet_meta (mset qs) = image_mset packet_meta (mset (take k (interleaved_packets out)))"
    by (metis mset_map)
  moreover have "mset (interleaved_packets out)
      = mset (take k (interleaved_packets out)) + mset (drop k (interleaved_packets out))"
    by (metis append_take_drop_id mset_append)
  ultimately show ?thesis by (simp add: in_output_def)
qed

definition started :: "obs_output \<Rightarrow> bool" where
  "started out \<longleftrightarrow> received_audio out \<and> all_video_received out"

lemma all_video_received_at:
  assumes "all_video_received out" "i < MAX_OUTPUT_VIDEO_ENCODERS" "video_encoders out ! i \<noteq> None"
  shows "received_video out ! i"
proof -
  have "i \<in> set [0..<MAX_OUTPUT_VIDEO_ENCODERS]" using assms(2) by simp
  with assms(1) have "video_encoders out ! i = None \<or> received_video out ! i"
    unfolding all_video_received_def list_all_iff by (rule bspec)
  with assms(3) show ?thesis by (elim disjE) (rule notE)
qed

text \<open>
  One packet into a started output: the packet is shifted by its track's offset, enters the
  buffer, raises its track's highest timestamp, and eligible packets are sent.
\<close>

lemma interleave_started':
  assumes run: "interleave_packets E out p e = Some out'" and active: "out_active out"
    and st: "started out" and wf: "output_wf out"
    and vt: "valid_track out (p\<lparr>pk_track_idx := get_encoder_index out p\<rparr>)"
  shows "\<exists>o1. stream_packets E o1 = Some out' \<and>
    interleaved_packets o1 = insert_at_stop insert_stop
      (apply_interleaved_packet_offset out (p\<lparr>pk_track_idx := get_encoder_index out p\<rparr>)) (interleaved_packets out) \<and>
    sent o1 = sent out \<and> received_audio o1 = received_audio out \<and> received_video o1 = received_video out \<and>
    video_offsets o1 = video_offsets out \<and> audio_offsets o1 = audio_offsets out \<and> out_config o1 = out_config out \<and>
    (let q = apply_interleaved_packet_offset out (p\<lparr>pk_track_idx := get_encoder_index out p\<rparr>)
     in highest_video_ts o1 = highest_video_ts (set_higher_ts out q) \<and>
        highest_audio_ts o1 = highest_audio_ts (set_higher_ts out q))"
proof -
  let ?p = "p\<lparr>pk_track_idx := get_encoder_index out p\<rparr>"
  let ?q = "apply_interleaved_packet_offset out ?p"
  obtain kgs where kg: "check_encoder_group_keyframe_alignment E out ?p = out\<lparr>keyframe_group_tracking := kgs\<rparr>"
    using check_alignment_frame by blast
  let ?o0 = "out\<lparr>keyframe_group_tracking := kgs\<rparr>"
  from vt have rcv: "pk_type p = OBS_ENCODER_VIDEO \<Longrightarrow> received_video out ! get_encoder_index out p"
    using st all_video_received_at by (auto simp: started_def valid_track_def)
  have q: "apply_interleaved_packet_offset ?o0 ?p = ?q"
    by (simp add: apply_interleaved_packet_offset_def packet_offset_def Let_def cong: obs_encoder_type.case_cong)
  define o1 where "o1 = insert_interleaved_packet (push_packet_time ?o0 ?p e (packet_offset ?o0 ?p)) ?q"
  have acc: "accept_packet ?o0 True ?p e = (o1, ?q)"
    by (simp add: accept_packet_def o1_def q Let_def)
  have o1: "received_audio o1 = received_audio out" "received_video o1 = received_video out"
    "video_encoders o1 = video_encoders out" "audio_encoders o1 = audio_encoders out"
    "highest_video_ts o1 = highest_video_ts out" "highest_audio_ts o1 = highest_audio_ts out"
    "sent o1 = sent out" "video_offsets o1 = video_offsets out" "audio_offsets o1 = audio_offsets out"
    "out_config o1 = out_config out"
    "interleaved_packets o1 = insert_at_stop insert_stop ?q (interleaved_packets out)"
    by (simp_all add: o1_def insert_interleaved_packet_eq out_config_def)
  have all: "received_audio out" "all_video_received out" using st by (simp_all add: started_def)
  have all1: "all_video_received o1" using all(2) o1 by (simp add: all_video_received_def del: upt_conv_Cons)
  have ng: "\<not> (pk_type ?p = OBS_ENCODER_VIDEO \<and> \<not> received_video out ! pk_track_idx ?p \<and> \<not> pk_keyframe ?p)"
    using rcv by auto
  have "stream_packets E (set_higher_ts o1 ?q) = Some out'"
    using run [unfolded interleave_packets_def Let_def, unfolded if_not_P [OF ng]] active all all1 acc o1(1)
    by (simp add: interleave_packets_def Let_def kg del: upt_conv_Cons)
  moreover have "highest_video_ts (set_higher_ts o1 ?q) = highest_video_ts (set_higher_ts out ?q)"
    "highest_audio_ts (set_higher_ts o1 ?q) = highest_audio_ts (set_higher_ts out ?q)"
    "sent (set_higher_ts o1 ?q) = sent out" "received_audio (set_higher_ts o1 ?q) = received_audio out"
    "received_video (set_higher_ts o1 ?q) = received_video out"
    "video_offsets (set_higher_ts o1 ?q) = video_offsets out" "audio_offsets (set_higher_ts o1 ?q) = audio_offsets out"
    using o1 by (simp_all add: set_higher_ts_def split: obs_encoder_type.split)
  ultimately show ?thesis
    using o1 by (intro exI [of _ "set_higher_ts o1 ?q"]) (simp add: Let_def config_higher)
qed

lemmas interleave_started = interleave_started' [OF _ _ _ _ get_encoder_index_valid]

lemma interleave_in_output:
  assumes "interleave_packets E out p e = Some out'" "out_active out" "started out"
    "output_wf out" "known_encoder out p"
  shows "in_output out' = add_mset (packet_meta (apply_interleaved_packet_offset out
      (p\<lparr>pk_track_idx := get_encoder_index out p\<rparr>))) (in_output out)"
proof -
  from interleave_started [OF assms(1-4) assms(5,4)] obtain o1 where "stream_packets E o1 = Some out'"
    "interleaved_packets o1 = insert_at_stop insert_stop
      (apply_interleaved_packet_offset out (p\<lparr>pk_track_idx := get_encoder_index out p\<rparr>)) (interleaved_packets out)"
    "sent o1 = sent out" by blast
  with stream_packets_in_output show ?thesis by (simp add: in_output_def)
qed

end
