(* ===== verification/Interleave_Monotone.thy ===== *)
theory Interleave_Monotone
  imports Interleave_Stream
begin

text \<open>
  With one video and one audio encoder the output leaves in DTS order. The invariant has
  two phases: before the start nothing is sent and the buffer holds unshifted packets;
  from the start on every packet sent is at or before everything buffered and at or before
  the highest timestamps that decide what may be sent next.
\<close>

section \<open>Inputs and outputs considered\<close>

text \<open>Exactly the first video and the first audio slot have an encoder.\<close>

definition single_av :: "obs_output \<Rightarrow> bool" where
  "single_av out \<longleftrightarrow>
     (\<forall>i < MAX_OUTPUT_VIDEO_ENCODERS. video_encoders out ! i \<noteq> None \<longleftrightarrow> i = 0) \<and>
     (\<forall>i < MAX_OUTPUT_AUDIO_ENCODERS. audio_encoders out ! i \<noteq> None \<longleftrightarrow> i = 0)"

text \<open>
  A packet of a constant timebase whose timestamps stay within bounds far from an
  \<open>int64_t\<close> overflow. \<open>dts_usec\<close> of audio is based on the system time, so it is not
  negative even where the first DTS is (an encoder's priming samples).
\<close>

definition good_packet :: "int \<Rightarrow> int \<Rightarrow> encoder_packet \<Rightarrow> bool" where
  "good_packet dv da p \<longleftrightarrow>
     pk_timebase_den p = (case pk_type p of OBS_ENCODER_VIDEO \<Rightarrow> dv | OBS_ENCODER_AUDIO \<Rightarrow> da) \<and>
     \<bar>pk_dts p\<bar> \<le> 1000000000000 \<and> \<bar>pk_pts p\<bar> \<le> 1000000000000 \<and>
     (pk_type p = OBS_ENCODER_AUDIO \<longrightarrow> 0 \<le> pk_dts_usec p \<and> 0 \<le> pk_dts_usec p + packet_dts_usec p)"

definition dts_ordered :: "encoder_packet list \<Rightarrow> bool" where
  "dts_ordered ps \<longleftrightarrow> sorted_wrt (\<lambda>p q. pk_type p = pk_type q \<longrightarrow> pk_dts p \<le> pk_dts q) ps"

lemma single_av_config:
  "out_config out' = out_config out \<Longrightarrow> single_av out' = single_av out"
  by (simp add: single_av_def out_config_def)

lemma single_avD:
  assumes "single_av out"
  shows "i < MAX_OUTPUT_VIDEO_ENCODERS \<Longrightarrow> video_encoders out ! i = Some v \<Longrightarrow> i = 0"
    and "k < MAX_OUTPUT_AUDIO_ENCODERS \<Longrightarrow> audio_encoders out ! k = Some a \<Longrightarrow> k = 0"
    and "\<exists>v. video_encoders out ! 0 = Some v" "\<exists>a. audio_encoders out ! 0 = Some a"
  using assms unfolding single_av_def by fastforce+

lemma single_av_index:
  assumes "single_av out" "output_wf out"
  shows "get_encoder_index out p = 0"
proof -
  have "i = 0" if "first_idx (\<lambda>e. case e of Some enc \<Rightarrow> pk_encoder p = enc_id enc | None \<Rightarrow> False)
      (case pk_type p of OBS_ENCODER_VIDEO \<Rightarrow> video_encoders out | OBS_ENCODER_AUDIO \<Rightarrow> audio_encoders out) = Some i" for i
    using that single_avD [OF assms(1)] assms(2) by (auto simp: first_idx_Some output_wf_def
        split: option.splits obs_encoder_type.splits)
  then show ?thesis by (auto simp: get_encoder_index_def Let_def split: option.split)
qed

lemma single_av_valid:
  assumes "single_av out"
  shows "valid_track out p \<longleftrightarrow> pk_track_idx p = 0"
  using single_avD [OF assms] by (auto simp: valid_track_def split: obs_encoder_type.split)

lemma single_av_track:
  "single_av out \<Longrightarrow> output_wf out \<Longrightarrow> p \<in> set (interleaved_packets out) \<Longrightarrow> pk_track_idx p = 0"
  using single_av_valid [of out p] by (simp add: output_wf_def)

definition highest_of :: "obs_output \<Rightarrow> obs_encoder_type \<Rightarrow> int" where
  "highest_of out ty = (case ty of OBS_ENCODER_VIDEO \<Rightarrow> highest_video_ts out ! 0
                        | OBS_ENCODER_AUDIO \<Rightarrow> highest_audio_ts out)"

text \<open>The DTS in microseconds that a packet gets in a started output.\<close>

definition shifted_usec :: "obs_output \<Rightarrow> encoder_packet \<Rightarrow> int" where
  "shifted_usec out p = pk_dts_usec (apply_interleaved_packet_offset out (p\<lparr>pk_track_idx := 0\<rparr>))"

lemma shifted_usec_eq:
  "shifted_usec out p =
     c_div ((pk_dts p - (case pk_type p of OBS_ENCODER_VIDEO \<Rightarrow> video_offsets out ! 0
                         | OBS_ENCODER_AUDIO \<Rightarrow> audio_offsets out ! 0)) * 1000000) (pk_timebase_den p)"
  by (simp add: shifted_usec_def apply_interleaved_packet_offset_def Let_def packet_offset_def packet_dts_usec_def
      split: obs_encoder_type.split)

lemma shifted_usec_mono:
  assumes "pk_type p = pk_type q" "pk_timebase_den p = pk_timebase_den q" "0 < pk_timebase_den q" "pk_dts p \<le> pk_dts q"
  shows "shifted_usec out p \<le> shifted_usec out q"
  unfolding shifted_usec_eq assms(1,2) by (rule c_div_mono) (use assms in \<open>simp_all split: obs_encoder_type.split\<close>)

section \<open>The phase after the start\<close>

definition streaming :: "obs_output \<Rightarrow> encoder_packet list \<Rightarrow> bool" where
  "streaming out rem \<longleftrightarrow> started out \<and> buffer_sorted out \<and>
     sorted (map pk_dts_usec (sent out)) \<and>
     (\<forall>x \<in> set (sent out). (\<forall>y \<in> set (interleaved_packets out). pk_dts_usec x \<le> pk_dts_usec y) \<and>
        (\<forall>ty. pk_dts_usec x \<le> highest_of out ty)) \<and>
     (\<forall>y \<in> set (interleaved_packets out). pk_dts_usec y \<le> highest_of out (pk_type y)) \<and>
     (\<forall>r \<in> set rem. highest_of out (pk_type r) \<le> shifted_usec out r)"

lemma streamingD:
  assumes "streaming out rem"
  shows "started out" "sorted_wrt pk_le (interleaved_packets out)" "sorted (map pk_dts_usec (sent out))"
    "x \<in> set (sent out) \<Longrightarrow> y \<in> set (interleaved_packets out) \<Longrightarrow> pk_dts_usec x \<le> pk_dts_usec y"
    "x \<in> set (sent out) \<Longrightarrow> pk_dts_usec x \<le> highest_of out ty"
    "y \<in> set (interleaved_packets out) \<Longrightarrow> pk_dts_usec y \<le> highest_of out (pk_type y)"
    "r \<in> set rem \<Longrightarrow> highest_of out (pk_type r) \<le> shifted_usec out r"
  using assms unfolding streaming_def buffer_sorted_def by blast+

lemma pk_le_usec: "pk_le a b \<Longrightarrow> pk_dts_usec a \<le> pk_dts_usec b"
  by (auto simp: pk_le_def)

lemma same_packet_usec: "same_packet a b \<Longrightarrow> pk_dts_usec a = pk_dts_usec b"
  unfolding same_packet_def by (drule arg_cong [of _ _ pk_dts_usec]) simp

lemma list_all2_same_usec:
  "list_all2 same_packet qs ps \<Longrightarrow> map pk_dts_usec qs = map pk_dts_usec ps"
  by (induction rule: list_all2_induct) (simp_all add: same_packet_usec)

text \<open>What may be sent is below the highest timestamp of the other type.\<close>

lemma eligible_usec:
  assumes "single_av out" "output_wf out" "p \<in> set (interleaved_packets out)"
    "has_higher_opposing_ts out p" "ty \<noteq> pk_type p"
  shows "pk_dts_usec p < highest_of out ty"
proof (cases "pk_type p")
  case OBS_ENCODER_VIDEO
  with assms(4,5) show ?thesis
    by (cases ty) (auto simp: has_higher_opposing_ts_def Let_def highest_of_def simp del: upt_conv_Cons)
next
  case OBS_ENCODER_AUDIO
  have "\<forall>i \<in> set [0..<MAX_OUTPUT_VIDEO_ENCODERS]. video_encoders out ! i = None \<or> highest_video_ts out ! i > pk_dts_usec p"
    using assms(4) OBS_ENCODER_AUDIO
    by (simp add: has_higher_opposing_ts_def Let_def list_all_iff del: upt_conv_Cons)
  moreover have "(0::nat) \<in> set [0..<MAX_OUTPUT_VIDEO_ENCODERS]" by simp
  ultimately have "video_encoders out ! 0 = None \<or> highest_video_ts out ! 0 > pk_dts_usec p" by (rule bspec)
  with single_avD(3) [OF assms(1)] have "highest_video_ts out ! 0 > pk_dts_usec p" by auto
  with OBS_ENCODER_AUDIO assms(5) show ?thesis by (cases ty) (auto simp: highest_of_def)
qed

text \<open>Sending an eligible prefix keeps the invariant.\<close>

lemma streaming_send:
  assumes st: "streaming out rem" and wf: "output_wf out" "single_av out"
    and run: "stream_packets E out = Some out'"
  shows "streaming out' rem"
proof -
  from stream_packets_cases [OF run] obtain k qs where
    k: "k \<le> count_streamable_frames out" and s: "sent out' = sent out @ qs"
    and m: "list_all2 same_packet qs (take k (interleaved_packets out))"
    and b: "interleaved_packets out' = drop k (interleaved_packets out)"
    and f: "received_audio out' = received_audio out" "received_video out' = received_video out"
      "video_offsets out' = video_offsets out" "audio_offsets out' = audio_offsets out"
      "highest_video_ts out' = highest_video_ts out" "highest_audio_ts out' = highest_audio_ts out"
    by blast
  let ?B = "interleaved_packets out"
  have cfg: "video_encoders out' = video_encoders out"
    using config_stream [OF run] by (simp add: out_config_def)
  have fr: "highest_of out' = highest_of out" "shifted_usec out' = shifted_usec out"
    using f by (auto simp: highest_of_def shifted_usec_eq fun_eq_iff split: obs_encoder_type.split)
  have started': "started out'"
    using st f cfg by (simp add: streaming_def started_def all_video_received_def del: upt_conv_Cons)
  have bs: "sorted_wrt pk_le ?B" using st by (simp add: streaming_def buffer_sorted_def)
  then have "sorted_wrt pk_le (take k ?B @ drop k ?B)" by simp
  then have tk: "sorted_wrt pk_le (take k ?B)" and dr: "sorted_wrt pk_le (drop k ?B)"
    and cross: "\<forall>x \<in> set (take k ?B). \<forall>y \<in> set (drop k ?B). pk_le x y"
    unfolding sorted_wrt_append by blast+
  have el: "has_higher_opposing_ts out p" if "p \<in> set (take k ?B)" for p
  proof -
    have "takeWhile (has_higher_opposing_ts out) ?B = take (count_streamable_frames out) ?B"
      by (simp add: count_streamable_frames_def) (metis takeWhile_eq_take)
    moreover have "set (take k ?B) \<subseteq> set (take (count_streamable_frames out) ?B)"
      using k by (rule set_take_subset_set_take)
    ultimately have "p \<in> set (takeWhile (has_higher_opposing_ts out) ?B)" using that by auto
    then show ?thesis by (rule set_takeWhileD [THEN conjunct2])
  qed
  have qs: "map pk_dts_usec qs = map pk_dts_usec (take k ?B)" by (rule list_all2_same_usec [OF m])
  have qmem: "\<exists>p \<in> set (take k ?B). pk_dts_usec q = pk_dts_usec p" if "q \<in> set qs" for q
    using that qs by (metis (mono_tags, lifting) image_iff list.set_map)
  have le_high: "pk_dts_usec p \<le> highest_of out ty" if "p \<in> set (take k ?B)" for p ty
  proof (cases "ty = pk_type p")
    case True
    with st that show ?thesis by (auto simp: streaming_def dest: in_set_takeD)
  next
    case False
    with eligible_usec [OF wf(2,1) _ el [OF that]] that show ?thesis
      by (auto dest: in_set_takeD intro: less_imp_le)
  qed
  have srt: "sorted (map pk_dts_usec (take k ?B))"
    using tk unfolding sorted_map by (rule sorted_wrt_mono_rel [rotated]) (simp add: pk_le_usec)
  note D = streamingD [OF st]
  show ?thesis unfolding streaming_def
  proof (intro conjI ballI allI)
    show "started out'" by (rule started')
    show "buffer_sorted out'" using dr by (simp add: buffer_sorted_def b)
    have "\<forall>x \<in> set (map pk_dts_usec (sent out)). \<forall>y \<in> set (map pk_dts_usec qs). x \<le> y"
      unfolding qs using D(4) by (auto dest: in_set_takeD)
    then show "sorted (map pk_dts_usec (sent out'))"
      using D(3) srt qs by (simp add: s sorted_append)
    show "pk_dts_usec x \<le> pk_dts_usec y" if x: "x \<in> set (sent out')" and y: "y \<in> set (interleaved_packets out')" for x y
    proof (cases "x \<in> set (sent out)")
      case True
      with y D(4) show ?thesis by (auto simp: b dest: in_set_dropD)
    next
      case False
      with x qmem obtain p where "p \<in> set (take k ?B)" "pk_dts_usec x = pk_dts_usec p" by (auto simp: s)
      with cross y pk_le_usec show ?thesis by (auto simp: b)
    qed
    show "pk_dts_usec x \<le> highest_of out' ty" if x: "x \<in> set (sent out')" for x ty
    proof (cases "x \<in> set (sent out)")
      case True
      then show ?thesis unfolding fr by (rule D(5))
    next
      case False
      with x qmem obtain p where "p \<in> set (take k ?B)" "pk_dts_usec x = pk_dts_usec p" by (auto simp: s)
      with le_high show ?thesis by (simp add: fr)
    qed
    show "pk_dts_usec y \<le> highest_of out' (pk_type y)" if "y \<in> set (interleaved_packets out')" for y
      using that D(6) by (auto simp: b fr dest: in_set_dropD)
    show "highest_of out' (pk_type r) \<le> shifted_usec out' r" if "r \<in> set rem" for r
      using that D(7) by (simp add: fr)
  qed
qed

text \<open>A packet in order arrives: it is not earlier than anything sent.\<close>

lemma set_higher_highest:
  assumes "output_wf out" "pk_track_idx q = 0"
  shows "highest_of (set_higher_ts out q) ty =
    (if ty = pk_type q then max (highest_of out ty) (pk_dts_usec q) else highest_of out ty)"
  using assms by (cases ty; cases "pk_type q")
    (auto simp: highest_of_def set_higher_ts_def output_wf_def max_def)

lemma streaming_step:
  assumes run: "interleave_packets E out p e = Some out'" and active: "out_active out"
    and st: "streaming out (p # rem)" and wf: "output_wf out" "single_av out"
    and ord: "\<forall>r \<in> set rem. pk_type p = pk_type r \<longrightarrow> shifted_usec out p \<le> shifted_usec out r"
  shows "streaming out' rem"
proof -
  let ?p = "p\<lparr>pk_track_idx := 0\<rparr>"
  define q where "q = apply_interleaved_packet_offset out ?p"
  have idx: "get_encoder_index out p = 0" by (rule single_av_index [OF wf(2,1)])
  have started: "started out" using st by (simp add: streaming_def)
  obtain o1 where o1: "stream_packets E o1 = Some out'"
    "interleaved_packets o1 = insert_at_stop insert_stop q (interleaved_packets out)"
    "sent o1 = sent out" "received_audio o1 = received_audio out" "received_video o1 = received_video out"
    "video_offsets o1 = video_offsets out" "audio_offsets o1 = audio_offsets out"
    "out_config o1 = out_config out"
    and h: "highest_video_ts o1 = highest_video_ts (set_higher_ts out q)"
    "highest_audio_ts o1 = highest_audio_ts (set_higher_ts out q)"
    using interleave_started' [OF run active started wf(1)] wf(2)
    by (auto simp: idx q_def Let_def single_av_valid)
  have qf: "pk_track_idx q = 0" "pk_type q = pk_type p" "pk_dts_usec q = shifted_usec out p"
    by (simp_all add: q_def shifted_usec_def apply_interleaved_packet_offset_def Let_def)
  have ho: "highest_of o1 = highest_of (set_higher_ts out q)"
    using h by (auto simp: highest_of_def fun_eq_iff split: obs_encoder_type.split)
  have high: "highest_of o1 ty = (if ty = pk_type p then max (highest_of out ty) (pk_dts_usec q) else highest_of out ty)" for ty
    unfolding ho using set_higher_highest [OF wf(1) qf(1)] qf(2) by simp
  have shift: "shifted_usec o1 = shifted_usec out"
    using o1 by (auto simp: shifted_usec_eq fun_eq_iff split: obs_encoder_type.split)
  have wf1: "output_wf o1"
  proof (rule output_wf_step' [OF wf(1)])
    show "\<And>r. r \<in> set (interleaved_packets o1) \<Longrightarrow> valid_track out r"
      using wf qf single_av_valid [OF wf(2), of q] by (auto simp: o1 output_wf_def)
  qed (use o1 h in \<open>auto simp: out_config_def set_higher_ts_def split: obs_encoder_type.split\<close>)
  have s1: "single_av o1" using single_av_config [OF o1(8)] wf(2) by simp
  have qge: "highest_of out (pk_type p) \<le> pk_dts_usec q" using st qf by (simp add: streaming_def)
  note D = streamingD [OF st]
  have "streaming o1 rem" unfolding streaming_def
  proof (intro conjI ballI allI)
    show "started o1" using started o1
      by (simp add: started_def all_video_received_def out_config_def del: upt_conv_Cons)
    show "buffer_sorted o1" using st by (simp add: streaming_def buffer_sorted_def o1 pk.sorted_insert)
    show "sorted (map pk_dts_usec (sent o1))" using st by (simp add: streaming_def o1)
    show "pk_dts_usec x \<le> pk_dts_usec y" if "x \<in> set (sent o1)" "y \<in> set (interleaved_packets o1)" for x y
      using that D(4) [of x y] D(5) [of x "pk_type p"] qge o1(2,3) by auto
    show "pk_dts_usec x \<le> highest_of o1 ty" if "x \<in> set (sent o1)" for x ty
      using that D(5) [of x ty] o1(3) by (auto simp: high)
    show "pk_dts_usec y \<le> highest_of o1 (pk_type y)" if "y \<in> set (interleaved_packets o1)" for y
      using that D(6) [of y] o1(2) qf(2) by (auto simp: high)
    show "highest_of o1 (pk_type r) \<le> shifted_usec o1 r" if "r \<in> set rem" for r
      using that ord D(7) [of r] qf by (auto simp: high shift)
  qed
  then show ?thesis by (rule streaming_send [OF _ wf1 s1 o1(1)])
qed


section \<open>The phase before the start\<close>

definition before_start :: "int \<Rightarrow> int \<Rightarrow> obs_output \<Rightarrow> encoder_packet list \<Rightarrow> bool" where
  "before_start dv da out rem \<longleftrightarrow>
     sent out = [] \<and> audio_offsets out ! 0 = 0 \<and> highest_audio_ts out = 0 \<and>
     highest_video_ts out ! 0 = INT64_MIN \<and>
     (\<forall>p \<in> set (interleaved_packets out). good_packet dv da p \<and>
        (\<forall>r \<in> set rem. pk_type p = pk_type r \<longrightarrow> pk_dts p \<le> pk_dts r))"

text \<open>The flag of the video track is only set while one of its packets is buffered.\<close>

definition video_kept :: "obs_output \<Rightarrow> bool" where
  "video_kept out \<longleftrightarrow> (received_video out ! 0 \<longrightarrow> find_first_packet_type out OBS_ENCODER_VIDEO 0 \<noteq> None)"

lemma before_start_sub:
  "before_start dv da out rem \<Longrightarrow> set (interleaved_packets out') \<subseteq> set (interleaved_packets out) \<Longrightarrow>
   sent out' = sent out \<Longrightarrow> audio_offsets out' = audio_offsets out \<Longrightarrow>
   highest_audio_ts out' = highest_audio_ts out \<Longrightarrow> highest_video_ts out' = highest_video_ts out \<Longrightarrow>
   before_start dv da out' rem"
  by (auto simp: before_start_def)

lemma before_start_discard:
  "before_start dv da out rem \<Longrightarrow> before_start dv da (discard_to_idx out n) rem"
  by (erule before_start_sub) (auto simp: il_frame dest: in_set_dropD)

lemma started_single:
  assumes "single_av out"
  shows "started out \<longleftrightarrow> received_audio out \<and> received_video out ! 0"
proof -
  have "all_video_received out \<longleftrightarrow> received_video out ! 0"
  proof
    assume "all_video_received out"
    then show "received_video out ! 0" using single_avD(3) [OF assms] by (intro all_video_received_at) auto
  next
    assume r: "received_video out ! 0"
    have "video_encoders out ! i = None \<or> received_video out ! i" if "i \<in> set [0..<MAX_OUTPUT_VIDEO_ENCODERS]" for i
    proof (cases "video_encoders out ! i")
      case (Some v)
      moreover have "i < MAX_OUTPUT_VIDEO_ENCODERS" using that by simp
      ultimately have "i = 0" using single_avD(1) [OF assms] by blast
      with r show ?thesis by simp
    qed simp
    then show "all_video_received out" by (simp only: all_video_received_def list_all_iff) blast
  qed
  then show ?thesis by (simp add: started_def)
qed

lemma find_first_cong:
  "interleaved_packets o1 = interleaved_packets o2 \<Longrightarrow>
     find_first_packet_type o1 ty i = find_first_packet_type o2 ty i"
  by (simp add: find_first_packet_type_def find_first_packet_type_idx_def)

lemma prune_before:
  assumes run: "prune_interleaved_packets out = Some (out', b)"
    and inv: "before_start dv da out rem" "video_kept out" "received_video out ! 0"
  shows "before_start dv da out' rem" "\<not> b \<Longrightarrow> \<not> received_audio out' \<and> video_kept out'"
    "b \<Longrightarrow> received_audio out' = received_audio out \<and> received_video out' = received_video out"
proof -
  obtain o1 r where p: "prune_premature_packets out = (o1, r)" by fastforce
  note f = prune_premature_frame [OF p]
  have b1: "before_start dv da o1 rem" using inv(1) by (rule before_start_sub) (simp_all add: f)
  then show "before_start dv da out' rem" using run p before_start_discard
    by (auto simp: prune_interleaved_packets_def split: option.splits if_splits)
  show "b \<Longrightarrow> received_audio out' = received_audio out \<and> received_video out' = received_video out"
    using run p f(5,14) by (auto simp: prune_interleaved_packets_def il_frame split: option.splits if_splits)
  assume "\<not> b"
  then have o: "out' = o1" "r = None" using run p
    by (auto simp: prune_interleaved_packets_def split: option.splits if_splits)
  have "find_first_packet_type_idx out OBS_ENCODER_VIDEO 0 \<noteq> None"
    using inv(2,3) by (simp add: video_kept_def find_first_packet_type_def)
  with p o have "\<not> received_audio o1"
    by (auto simp: prune_premature_packets_def Let_def split: option.splits)
  moreover have "video_kept o1" using inv(2) find_first_cong [OF f(1)] by (simp add: video_kept_def f)
  ultimately show "\<not> received_audio out' \<and> video_kept out'" by (simp add: o)
qed

text \<open>A failed search for the first packets clears the flag of what is missing.\<close>

lemma get_video_packets_fail:
  "get_video_packets out is = (out', False) \<Longrightarrow> \<exists>i \<in> set is. video_encoders out ! i \<noteq> None \<and>
     out' = out\<lparr>received_video := (received_video out)[i := False]\<rparr>"
  by (induction out "is" rule: get_video_packets.induct) (auto split: if_splits)

lemma get_audio_packets_fail:
  "get_audio_packets out is = (out', False) \<Longrightarrow> out' = out\<lparr>received_audio := False\<rparr>"
  by (induction out "is" rule: get_audio_packets.induct) (auto split: if_splits)

lemma get_packets_fail:
  assumes run: "get_audio_and_video_packets out = (out', False)" and wf: "output_wf out" "single_av out"
  shows "\<not> started out' \<and> video_kept out'"
proof -
  have s': "single_av out'" using wf(2) single_av_config [OF config_get_packets [OF run]] by simp
  obtain o1 b1 where v: "get_video_packets out [0..<MAX_OUTPUT_VIDEO_ENCODERS] = (o1, b1)" by fastforce
  show ?thesis
  proof (cases b1)
    case False
    then have "out' = o1" using run v by (simp add: get_audio_and_video_packets_def del: upt_conv_Cons)
    moreover have v': "get_video_packets out [0..<MAX_OUTPUT_VIDEO_ENCODERS] = (o1, False)"
      using v False by (simp del: upt_conv_Cons)
    moreover from get_video_packets_fail [OF v'] obtain i where
      i: "i \<in> set [0..<MAX_OUTPUT_VIDEO_ENCODERS]" "video_encoders out ! i \<noteq> None"
        "o1 = out\<lparr>received_video := (received_video out)[i := False]\<rparr>" by blast
    have "i < MAX_OUTPUT_VIDEO_ENCODERS" using i(1) by simp
    then have "i = 0" using i(2) single_avD(1) [OF wf(2)] by blast
    ultimately have "\<not> received_video out' ! 0" using i wf(1) by (simp add: output_wf_def)
    then show ?thesis using started_single [OF s'] by (simp add: video_kept_def)
  next
    case True
    then have o1: "o1 = out" using get_video_packets_frame [OF v] by blast
    have "find_first_packet_type out OBS_ENCODER_VIDEO 0 \<noteq> None"
      using get_video_packets_ok [of out "[0..<MAX_OUTPUT_VIDEO_ENCODERS]" o1 0] v True
        single_avD(3) [OF wf(2)] by auto
    then have kept: "video_kept (out\<lparr>received_audio := False\<rparr>)"
      using find_first_cong [of "out\<lparr>received_audio := False\<rparr>" out] by (simp add: video_kept_def)
    obtain o2 b2 where a: "get_audio_packets out [0..<MAX_OUTPUT_AUDIO_ENCODERS] = (o2, b2)" by fastforce
    have ex: "list_ex (\<lambda>i. video_encoders out ! i \<noteq> None) [0..<MAX_OUTPUT_VIDEO_ENCODERS]"
      using single_avD(3) [OF wf(2)] by (auto simp: list_ex_iff intro!: bexI [of _ 0] simp del: upt_conv_Cons)
    have v': "get_video_packets out [0..<MAX_OUTPUT_VIDEO_ENCODERS] = (out, True)"
      using v True o1 by metis
    have c: "b2 = False \<and> out' = o2"
      using run [unfolded get_audio_and_video_packets_def v' prod.case bool.case a] ex by (cases b2) auto
    have "out' = out\<lparr>received_audio := False\<rparr>"
      unfolding c [THEN conjunct2] by (rule get_audio_packets_fail [OF a [unfolded c [THEN conjunct1]]])
    with kept show ?thesis using started_single [OF s'] by simp
  qed
qed


text \<open>The successful search leaves the output alone.\<close>

lemma get_packets_same: "get_audio_and_video_packets out = (out', True) \<Longrightarrow> out' = out"
  using get_packets_frame by blast

lemma initialize_cases:
  assumes run: "initialize_interleaved_packets out = Some (out', b)" and wf: "output_wf out" "single_av out"
  obtains (search) "\<not> b" "get_audio_and_video_packets out = (out', False)"
  | (behind) v where "\<not> b" "get_audio_and_video_packets out = (out, True)" "video_packet out 0 = Some v"
      "out' = out\<lparr>received_audio := False\<rparr>"
  | (again) n where "\<not> b" "get_audio_and_video_packets (discard_to_idx out n) = (out', False)"
  | (success) o1 where "b" "get_audio_and_video_packets o1 = (o1, True)" "set_start_offsets o1 0 = Some out'"
      "o1 = out \<or> (\<exists>n. o1 = discard_to_idx out n)"
proof -
  have a: "get_first_audio_encoder_index out = Some 0" and v: "get_first_video_encoder_index out = Some 0"
    using single_avD(3,4) [OF wf(2)] wf(1)
    by (auto simp: get_first_audio_encoder_index_def get_first_video_encoder_index_def first_idx_Some output_wf_def)
  obtain o1 c where g: "get_audio_and_video_packets out = (o1, c)" by fastforce
  show thesis
  proof (cases c)
    case False
    with run a v g search show thesis by (simp add: initialize_interleaved_packets_def)
  next
    case c: True
    with g have o1: "o1 = out" "get_audio_and_video_packets out = (out, True)" using get_packets_same by auto
    with run a v obtain vp where vp: "video_packet out 0 = Some vp"
      by (auto simp: initialize_interleaved_packets_def split: option.splits)
    show thesis
    proof (cases "audio_behind_video out vp")
      case True
      with run a v o1 vp behind show thesis by (simp add: initialize_interleaved_packets_def)
    next
      case False
      with run a v o1 vp obtain n where n: "get_interleaved_start_idx out = Some n"
        by (auto simp: initialize_interleaved_packets_def split: option.splits)
      obtain o2 d where g2: "(if n \<noteq> 0 then get_audio_and_video_packets (discard_to_idx out n) else (out, True)) = (o2, d)"
        by fastforce
      have r: "(case d of False \<Rightarrow> Some (o2, False) | True \<Rightarrow> map_option (\<lambda>out. (out, True)) (set_start_offsets o2 0))
          = Some (out', b)"
        using run a v o1 vp False n g2 by (simp add: initialize_interleaved_packets_def)
      show thesis
      proof (cases d)
        case d: False
        with r g2 have "\<not> b" "get_audio_and_video_packets (discard_to_idx out n) = (out', False)"
          by (auto split: if_splits)
        then show thesis by (rule again)
      next
        case d: True
        with r have s: "b" "set_start_offsets o2 0 = Some out'" by auto
        have "get_audio_and_video_packets o2 = (o2, True)" "o2 = out \<or> (\<exists>n. o2 = discard_to_idx out n)"
          using g2 d o1(2) by (auto split: if_splits dest: get_packets_same)
        with s show thesis by (intro success)
      qed
    qed
  qed
qed

lemma initialize_fail_before:
  assumes run: "initialize_interleaved_packets out = Some (out', False)" and wf: "output_wf out" "single_av out"
    and inv: "before_start dv da out rem"
  shows "before_start dv da out' rem" "\<not> started out'" "video_kept out'"
proof -
  have fr: "before_start dv da o2 rem" if "get_audio_and_video_packets o1 = (o2, c)" "before_start dv da o1 rem" for o1 o2 c
    using that(2) by (rule before_start_sub) (simp_all add: get_packets_frame_fields [OF that(1)])
  have d: "output_wf (discard_to_idx out n)" "single_av (discard_to_idx out n)" for n
    using wf discard_wf single_av_config [OF config_discard] by auto
  have "before_start dv da out' rem \<and> \<not> started out' \<and> video_kept out'"
    using run wf
  proof (cases rule: initialize_cases)
    case search
    then show ?thesis using fr inv get_packets_fail [OF _ wf] by blast
  next
    case (behind v)
    have "find_first_packet_type out' ty i = find_first_packet_type out ty i" for ty i
      by (rule find_first_cong) (simp add: behind(4))
    with behind(3) have "video_packet out' 0 = Some v" by (simp add: video_packet_def)
    moreover have "\<not> started out'" by (simp add: behind(4) started_def)
    moreover have "before_start dv da out' rem" using inv by (rule before_start_sub) (simp_all add: behind(4))
    ultimately show ?thesis by (simp add: video_kept_def video_packet_def)
  next
    case (again n)
    then show ?thesis using fr before_start_discard [OF inv] get_packets_fail [OF _ d] by blast
  qed simp
  then show "before_start dv da out' rem" "\<not> started out'" "video_kept out'" by auto
qed


section \<open>The start\<close>

text \<open>\<open>resort_interleaved_packets\<close> takes the maxima over the buffer.\<close>

lemma fold_higher:
  "output_wf out \<Longrightarrow> \<forall>p \<in> set ps. pk_track_idx p = 0 \<Longrightarrow>
    (\<forall>p \<in> set ps. pk_dts_usec p \<le> highest_of (fold (\<lambda>p o'. set_higher_ts o' p) ps out) (pk_type p)) \<and>
    (\<forall>ty. highest_of out ty \<le> highest_of (fold (\<lambda>p o'. set_higher_ts o' p) ps out) ty \<and>
       (highest_of (fold (\<lambda>p o'. set_higher_ts o' p) ps out) ty = highest_of out ty \<or>
        (\<exists>p \<in> set ps. pk_type p = ty \<and>
           highest_of (fold (\<lambda>p o'. set_higher_ts o' p) ps out) ty = pk_dts_usec p)))"
proof (induction ps arbitrary: out)
  case (Cons p ps)
  let ?o = "set_higher_ts out p"
  have IH: "(\<forall>q \<in> set ps. pk_dts_usec q \<le> highest_of (fold (\<lambda>p o'. set_higher_ts o' p) ps ?o) (pk_type q)) \<and>
    (\<forall>ty. highest_of ?o ty \<le> highest_of (fold (\<lambda>p o'. set_higher_ts o' p) ps ?o) ty \<and>
       (highest_of (fold (\<lambda>p o'. set_higher_ts o' p) ps ?o) ty = highest_of ?o ty \<or>
        (\<exists>q \<in> set ps. pk_type q = ty \<and>
           highest_of (fold (\<lambda>p o'. set_higher_ts o' p) ps ?o) ty = pk_dts_usec q)))"
    using Cons.prems set_higher_ts_wf by (intro Cons.IH) auto
  have h: "highest_of ?o ty = (if ty = pk_type p then max (highest_of out ty) (pk_dts_usec p) else highest_of out ty)" for ty
    using Cons.prems by (intro set_higher_highest) auto
  let ?F = "\<lambda>ty. highest_of (fold (\<lambda>p o'. set_higher_ts o' p) ps ?o) ty"
  have "?F ty = highest_of out ty \<or> (\<exists>q \<in> set (p # ps). pk_type q = ty \<and> ?F ty = pk_dts_usec q)" for ty
  proof -
    from IH have "?F ty = highest_of ?o ty \<or> (\<exists>q \<in> set ps. pk_type q = ty \<and> ?F ty = pk_dts_usec q)" by blast
    then show ?thesis
    proof
      assume "?F ty = highest_of ?o ty"
      then show ?thesis using h [of ty] by (auto simp: max_def split: if_splits)
    qed auto
  qed
  moreover have "highest_of out ty \<le> ?F ty" for ty
    using IH h [of ty] by (metis max.cobounded1 order.trans)
  moreover have "pk_dts_usec p \<le> ?F (pk_type p)"
    using IH h [of "pk_type p"] by (metis max.cobounded2 order.trans)
  ultimately show ?case using IH by auto
qed simp

lemma shifted_usec_bound:
  assumes "good_packet dv da p" "0 < dv" "0 < da"
    and "\<bar>case pk_type p of OBS_ENCODER_VIDEO \<Rightarrow> video_offsets out ! 0 | OBS_ENCODER_AUDIO \<Rightarrow> audio_offsets out ! 0\<bar>
      \<le> 1000000000000"
  shows "INT64_MIN \<le> shifted_usec out p"
proof -
  define off where "off = (case pk_type p of OBS_ENCODER_VIDEO \<Rightarrow> video_offsets out ! 0 | OBS_ENCODER_AUDIO \<Rightarrow> audio_offsets out ! 0)"
  have "0 < pk_timebase_den p" using assms(1-3) by (auto simp: good_packet_def split: obs_encoder_type.splits)
  from c_div_abs [OF this, of "(pk_dts p - off) * 1000000"]
  have sh: "\<bar>shifted_usec out p\<bar> \<le> \<bar>pk_dts p - off\<bar> * 1000000"
    unfolding shifted_usec_eq off_def [symmetric] abs_mult by simp
  have "\<bar>pk_dts p\<bar> \<le> 1000000000000" "\<bar>off\<bar> \<le> 1000000000000"
    using assms(1,4) by (simp_all add: good_packet_def off_def)
  then have "\<bar>pk_dts p - off\<bar> \<le> 2000000000000"
    using abs_triangle_ineq4 [of "pk_dts p" off] by arith
  from mult_right_mono [OF this, of 1000000] sh
  have "\<bar>shifted_usec out p\<bar> \<le> 2000000000000000000" by simp
  then show ?thesis by (simp add: abs_le_iff)
qed

lemma start_success:
  assumes ofs: "set_start_offsets o1 0 = Some o2" and wf: "output_wf o1" "single_av o1"
    and inv: "before_start dv da o1 rem" and st: "started o1" and d: "0 < dv" "0 < da"
    and rem: "\<forall>r \<in> set rem. good_packet dv da r"
    and send: "send_interleaved E (apply_ept_offsets (resort_interleaved_packets o2)) = Some out'"
  shows "streaming out' rem"
proof -
  note c = set_start_offsets_cases [OF ofs]
  obtain a where a: "audio_packet o1 0 = Some a" "highest_audio_ts o2 = - pk_dts_usec a"
    "audio_offsets o2 ! 0 = (if pk_dts a > 0 then pk_dts a else 0)"
    using c(1) c(3) [of 0] single_avD(4) [OF wf(2)] inv by (auto simp: before_start_def)
  obtain v where v: "video_packet o1 0 = Some v" "video_offsets o2 ! 0 = pk_pts v"
    using c(2) [of 0] single_avD(3) [OF wf(2)] by auto
  let ?B1 = "interleaved_packets o1"
  have av: "a \<in> set ?B1" "pk_type a = OBS_ENCODER_AUDIO" "v \<in> set ?B1" "pk_type v = OBS_ENCODER_VIDEO"
    using a(1) v(1) by (auto simp: audio_packet_def video_packet_def dest: find_first_packet_type_SomeD)
  have good: "good_packet dv da p" if "p \<in> set ?B1" for p
    using inv that by (simp add: before_start_def)
  have wf2: "output_wf o2" by (rule set_start_offsets_wf [OF ofs wf(1)])
  have s2: "single_av o2" using single_av_config [OF config_offsets [OF ofs]] wf(2) by simp
  \<comment> \<open>the buffer after the shift\<close>
  have B2: "\<exists>p0 \<in> set ?B1. pk_type p = pk_type p0 \<and> pk_dts_usec p = shifted_usec o2 p0"
    if "p \<in> set (interleaved_packets o2)" for p
  proof -
    from that obtain p0 where p0: "p0 \<in> set ?B1" "p = apply_interleaved_packet_offset o2 p0" by (auto simp: c(4))
    have "p0\<lparr>pk_track_idx := 0\<rparr> = p0" using single_av_track [OF wf(2,1) p0(1)] by simp
    then show ?thesis using p0 by (intro bexI [of _ p0])
      (simp_all add: shifted_usec_def apply_interleaved_packet_offset_def Let_def)
  qed
  have B2': "\<exists>p \<in> set (interleaved_packets o2). pk_type p = pk_type p0 \<and> pk_dts_usec p = shifted_usec o2 p0"
    if "p0 \<in> set ?B1" for p0
  proof -
    have "p0\<lparr>pk_track_idx := 0\<rparr> = p0" using single_av_track [OF wf(2,1) that] by simp
    then show ?thesis using that
      by (intro bexI [of _ "apply_interleaved_packet_offset o2 p0"])
        (simp_all add: c(4) shifted_usec_def apply_interleaved_packet_offset_def Let_def)
  qed
  have mono: "shifted_usec o2 p0 \<le> shifted_usec o2 r"
    if "p0 \<in> set ?B1" "r \<in> set rem" "pk_type p0 = pk_type r" for p0 r
    using that good [OF that(1)] rem inv d
    by (intro shifted_usec_mono) (auto simp: good_packet_def before_start_def split: obs_encoder_type.splits)
  have a0: "- pk_dts_usec a \<le> shifted_usec o2 a"
    using good [OF av(1)] av(2) a(3) by (auto simp: shifted_usec_eq good_packet_def packet_dts_usec_def)
  have v0: "INT64_MIN \<le> shifted_usec o2 v"
    using good [OF av(3)] av(4) v(2) d by (intro shifted_usec_bound [OF good [OF av(3)]]) (auto simp: good_packet_def)
  have h2: "highest_of o2 OBS_ENCODER_VIDEO = INT64_MIN" "highest_of o2 OBS_ENCODER_AUDIO = - pk_dts_usec a"
    using inv c a by (simp_all add: highest_of_def before_start_def)
  have init_le: "highest_of o2 (pk_type r) \<le> shifted_usec o2 r" if "r \<in> set rem" for r
    using h2 a0 v0 mono [OF av(1) that] mono [OF av(3) that] av by (cases "pk_type r") auto
  \<comment> \<open>the buffer after the sort\<close>
  let ?o3 = "apply_ept_offsets (resort_interleaved_packets o2)"
  have ps: "set (interleaved_packets ?o3) = set (interleaved_packets o2)"
    using resort_mset [of o2, THEN mset_eq_setD] by simp
  have hr: "highest_of ?o3 ty = highest_of (fold (\<lambda>p o'. set_higher_ts o' p) (interleaved_packets o2) o2) ty" for ty
    by (simp add: highest_of_def resort_eq split: obs_encoder_type.split)
  note fh = fold_higher [OF wf2, of "interleaved_packets o2", folded hr]
  have t0: "\<forall>p \<in> set (interleaved_packets o2). pk_track_idx p = 0" using single_av_track [OF s2 wf2] by blast
  have high: "pk_dts_usec p \<le> highest_of ?o3 (pk_type p)" if "p \<in> set (interleaved_packets o2)" for p
    using fh [OF t0] that by blast
  have fr3: "shifted_usec ?o3 r = shifted_usec o2 r" for r
    by (simp add: shifted_usec_eq resort_eq fold_set_higher_ts_frame split: obs_encoder_type.split)
  have rem3: "highest_of ?o3 (pk_type r) \<le> shifted_usec o2 r" if r: "r \<in> set rem" for r
  proof -
    from fh [OF t0] have "highest_of ?o3 (pk_type r) = highest_of o2 (pk_type r) \<or>
      (\<exists>p \<in> set (interleaved_packets o2). pk_type p = pk_type r \<and> highest_of ?o3 (pk_type r) = pk_dts_usec p)" by blast
    then show ?thesis using init_le [OF r] B2 mono [OF _ r] by (metis (no_types, lifting))
  qed
  have "single_av ?o3" using single_av_config [of ?o3 o2] s2 config_resort [of o2]
    by (simp add: out_config_def)
  moreover have "received_audio ?o3" "received_video ?o3 ! 0"
    using st c(7,8) started_single [OF wf(2)] by (simp_all add: resort_eq fold_set_higher_ts_frame)
  ultimately have st3: "started ?o3" using started_single by blast
  \<comment> \<open>the first packet\<close>
  have s3: "sent ?o3 = []" using inv c(5) by (simp add: resort_eq fold_set_higher_ts_frame before_start_def)
  from send_interleaved_cases [OF send] obtain p q rest where
    p: "interleaved_packets ?o3 = p # rest" "interleaved_packets out' = rest" "sent out' = [q]" "same_packet q p"
    unfolding s3 by auto
  have srt: "sorted_wrt pk_le (p # rest)" using resort_sorted [of o2] p(1) by (simp add: buffer_sorted_def)
  have f: "highest_of out' = highest_of ?o3" "shifted_usec out' = shifted_usec ?o3"
    using send_interleaved_frame [OF send]
    by (auto simp: highest_of_def shifted_usec_eq fun_eq_iff split: obs_encoder_type.split)
  have qp: "pk_dts_usec q = pk_dts_usec p" by (rule same_packet_usec [OF p(4)])
  have min: "pk_dts_usec p \<le> pk_dts_usec y" if "y \<in> set (interleaved_packets o2)" for y
  proof -
    have "y \<in> insert p (set rest)" using that ps p(1) by auto
    then show ?thesis using srt by (auto dest: pk_le_usec)
  qed
  have q_high: "pk_dts_usec q \<le> highest_of ?o3 ty" for ty
  proof -
    obtain y where "y \<in> set (interleaved_packets o2)" "pk_type y = ty"
      using B2' [OF av(1)] B2' [OF av(3)] av by (cases ty) auto
    with min [of y] high [of y] qp show ?thesis by auto
  qed
  show ?thesis unfolding streaming_def f p(2,3)
  proof (intro conjI ballI allI)
    show "started out'" using st3 send_interleaved_frame [OF send]
      by (simp add: started_def all_video_received_def del: upt_conv_Cons)
    show "buffer_sorted out'" using srt p(2) by (simp add: buffer_sorted_def)
    show "pk_dts_usec x \<le> pk_dts_usec y" if "x \<in> set [q]" "y \<in> set rest" for x y
      using that qp srt pk_le_usec by auto
    show "pk_dts_usec x \<le> highest_of ?o3 ty" if "x \<in> set [q]" for x ty using that q_high by simp
    show "pk_dts_usec y \<le> highest_of ?o3 (pk_type y)" if "y \<in> set rest" for y
      using that ps p(1) by (intro high) auto
    show "highest_of ?o3 (pk_type r) \<le> shifted_usec ?o3 r" if "r \<in> set rem" for r
      using rem3 [OF that] by (simp add: fr3)
  qed simp
qed


section \<open>The whole run\<close>

definition av_invariant :: "int \<Rightarrow> int \<Rightarrow> obs_output \<Rightarrow> encoder_packet list \<Rightarrow> bool" where
  "av_invariant dv da out rem \<longleftrightarrow> output_wf out \<and> single_av out \<and>
     (before_start dv da out rem \<and> \<not> started out \<and> video_kept out \<or> streaming out rem)"

lemma start_invariant:
  assumes run: "start_packets E out = Some out'" and wf: "output_wf out" "single_av out"
    and inv: "before_start dv da out rem" "video_kept out" "started out" and d: "0 < dv" "0 < da"
    and rem: "\<forall>r \<in> set rem. good_packet dv da r"
  shows "before_start dv da out' rem \<and> \<not> started out' \<and> video_kept out' \<or> streaming out' rem"
proof -
  have rv: "received_video out ! 0" "received_audio out" using inv(3) started_single [OF wf(2)] by auto
  from run obtain o1 b where p: "prune_interleaved_packets out = Some (o1, b)"
    and r1: "(if \<not> b then Some o1 else do {
       (out2, started) \<leftarrow> initialize_interleaved_packets o1;
       if \<not> started then Some out2
       else send_interleaved E (apply_ept_offsets (resort_interleaved_packets out2)) }) = Some out'"
    by (auto simp: start_packets_def bind_eq_Some_conv)
  note pb = prune_before [OF p inv(1,2) rv(1)]
  have wf1: "output_wf o1" using prune_safe [OF wf(1)] p by auto
  have s1: "single_av o1" using single_av_config [OF config_prune [OF p]] wf(2) by simp
  show ?thesis
  proof (cases b)
    case False
    with r1 pb show ?thesis by (auto simp: started_def)
  next
    case True
    with r1 obtain o2 c where i: "initialize_interleaved_packets o1 = Some (o2, c)"
      and r2: "(if \<not> c then Some o2 else send_interleaved E (apply_ept_offsets (resort_interleaved_packets o2))) = Some out'"
      by (auto simp: bind_eq_Some_conv)
    show ?thesis
    proof (cases c)
      case False
      with r2 initialize_fail_before [OF _ wf1 s1 pb(1)] i show ?thesis by auto
    next
      case c: True
      from i wf1 s1 show ?thesis
      proof (cases rule: initialize_cases)
        case (success o3)
        have "before_start dv da o3 rem" "output_wf o3" "single_av o3"
            "received_audio o3 = received_audio o1" "received_video o3 = received_video o1"
          using success(4) pb(1) wf1 s1 before_start_discard discard_wf single_av_config [OF config_discard]
          by (auto simp: il_frame)
        moreover from this have "started o3" using pb(3) [OF True] rv started_single by simp
        ultimately show ?thesis using start_success [OF success(3)] d rem r2 c by auto
      qed (use c in simp_all)
    qed
  qed
qed

lemma accept_before:
  assumes run: "accept_packet out False p e = (out', q)" and wf: "output_wf out" "pk_track_idx p = 0"
    and inv: "before_start dv da out (p0 # rem)" "video_kept out" and p: "good_packet dv da p"
    and p0: "pk_dts p0 = pk_dts p" "pk_type p0 = pk_type p"
    and ord: "\<forall>r \<in> set rem. pk_type p = pk_type r \<longrightarrow> pk_dts p \<le> pk_dts r"
  shows "before_start dv da out' rem" "video_kept out'"
proof -
  have q: "q = p" "interleaved_packets out' = insert_at_stop insert_stop p (interleaved_packets out)"
    "received_video out' = (if pk_type p = OBS_ENCODER_VIDEO then (received_video out)[0 := True] else received_video out)"
    "sent out' = sent out" "audio_offsets out' = audio_offsets out" "highest_audio_ts out' = highest_audio_ts out"
    "highest_video_ts out' = highest_video_ts out"
    using run wf(2) by (auto simp: accept_packet_def Let_def check_received_def insert_interleaved_packet_eq
        split: obs_encoder_type.splits)
  show "before_start dv da out' rem" using inv(1) p ord q by (auto simp: before_start_def)
  show "video_kept out'"
  proof (cases "pk_type p")
    case OBS_ENCODER_VIDEO
    then have "find_first_packet_type out' OBS_ENCODER_VIDEO 0 \<noteq> None"
      using wf(2) q by (auto simp: find_first_packet_type_None)
    then show ?thesis by (simp add: video_kept_def)
  next
    case OBS_ENCODER_AUDIO
    with inv(2) q show ?thesis by (auto simp: video_kept_def find_first_packet_type_None)
  qed
qed

lemma interleave_before:
  assumes run: "interleave_packets E out p e = Some out'" and active: "out_active out"
    and wf: "output_wf out" "single_av out"
    and inv: "before_start dv da out (p # rem)" "\<not> started out" "video_kept out"
    and good: "good_packet dv da p" "\<forall>r \<in> set rem. good_packet dv da r"
    and ord: "\<forall>r \<in> set rem. pk_type p = pk_type r \<longrightarrow> pk_dts p \<le> pk_dts r" and d: "0 < dv" "0 < da"
  shows "before_start dv da out' rem \<and> \<not> started out' \<and> video_kept out' \<or> streaming out' rem"
proof -
  let ?p = "p\<lparr>pk_track_idx := 0\<rparr>"
  have idx: "get_encoder_index out p = 0" by (rule single_av_index [OF wf(2,1)])
  have sub: "before_start dv da out rem" using inv(1) by (simp add: before_start_def)
  show ?thesis
  proof (cases "pk_type p = OBS_ENCODER_VIDEO \<and> \<not> received_video out ! 0 \<and> \<not> pk_keyframe p")
    case True
    then have o: "out' = discard_unused_audio_packets out (pk_dts_usec p)"
      using run active by (simp add: interleave_packets_def idx)
    obtain n where "out' = discard_to_idx out n \<or> out' = out"
      unfolding o discard_unused_audio_packets_def Let_def by metis
    moreover have "single_av out'" using single_av_config [OF config_interleave [OF run]] wf(2) by simp
    ultimately show ?thesis
      using sub inv True before_start_discard [OF sub] started_single by (auto simp: video_kept_def il_frame)
  next
    case False
    obtain kgs where kg: "check_encoder_group_keyframe_alignment E out ?p = out\<lparr>keyframe_group_tracking := kgs\<rparr>"
      using check_alignment_frame by blast
    let ?o1 = "out\<lparr>keyframe_group_tracking := kgs\<rparr>"
    obtain o2 q where acc: "accept_packet ?o1 False ?p e = (o2, q)" by fastforce
    have wf1: "output_wf ?o1" using wf(1) by (elim output_wf_step) auto
    have c1: "out_config ?o1 = out_config out" by (simp add: out_config_def)
    have s1: "single_av ?o1" using single_av_config [OF c1] wf(2) by simp
    have wf2: "output_wf o2" by (rule accept_wf [OF acc wf1]) (simp add: single_av_valid [OF s1])
    have s2: "single_av o2" using single_av_config [OF config_accept [OF acc]] s1 by simp
    have b1: "before_start dv da ?o1 (p # rem)" using inv(1) by (rule before_start_sub) simp_all
    have k1: "video_kept ?o1" using inv(3) find_first_cong [of ?o1 out] by (simp add: video_kept_def)
    have g: "good_packet dv da ?p" using good(1) by (auto simp: good_packet_def packet_dts_usec_def)
    have b2: "before_start dv da o2 rem" "video_kept o2"
      using accept_before [OF acc wf1 _ b1 k1 g] ord by simp_all
    have ns: "(received_audio out \<and> all_video_received out) = False" using inv(2) by (simp add: started_def)
    have r: "(if started o2 then start_packets E o2 else Some o2) = Some out'"
      using run [unfolded interleave_packets_def Let_def idx kg] active False ns acc
      by (auto simp: started_def split: if_splits)
    show ?thesis
    proof (cases "started o2")
      case True
      with r start_invariant [OF _ wf2 s2 b2 True d good(2)] show ?thesis by auto
    next
      case False
      with r b2 show ?thesis by auto
    qed
  qed
qed

lemma interleave_invariant:
  assumes run: "interleave_packets E out p e = Some out'" and inv: "av_invariant dv da out (p # rem)"
    and d: "0 < dv" "0 < da" and good: "\<forall>r \<in> set (p # rem). good_packet dv da r"
    and ord: "dts_ordered (p # rem)"
  shows "av_invariant dv da out' rem"
proof -
  let ?p = "p\<lparr>pk_track_idx := 0\<rparr>"
  have wf: "output_wf out" "single_av out" using inv by (simp_all add: av_invariant_def)
  have wf': "output_wf out'" using interleave_packets_safe' [OF wf(1), of p E e] run
    by (simp add: single_av_index [OF wf(2,1)] single_av_valid [OF wf(2)])
  have s': "single_av out'" using single_av_config [OF config_interleave [OF run]] wf(2) by simp
  have ord': "\<forall>r \<in> set rem. pk_type p = pk_type r \<longrightarrow> pk_dts p \<le> pk_dts r" using ord by (simp add: dts_ordered_def)
  have idx: "get_encoder_index out p = 0" by (rule single_av_index [OF wf(2,1)])
  have "before_start dv da out' rem \<and> \<not> started out' \<and> video_kept out' \<or> streaming out' rem"
  proof (cases "out_active out")
    case False
    then have "out' = out" using run by (simp add: interleave_packets_def)
    with inv show ?thesis by (auto simp: av_invariant_def before_start_def streaming_def)
  next
    case active: True
    show ?thesis
    proof (cases "streaming out (p # rem)")
      case True
      have "\<forall>r \<in> set rem. pk_type p = pk_type r \<longrightarrow> shifted_usec out p \<le> shifted_usec out r"
        using ord' good d by (auto simp: good_packet_def intro!: shifted_usec_mono split: obs_encoder_type.splits)
      with streaming_step [OF run active True wf] show ?thesis by blast
    next
      case False
      then have b: "before_start dv da out (p # rem)" "\<not> started out" "video_kept out"
        using inv by (auto simp: av_invariant_def)
      show ?thesis using interleave_before [OF run active wf b] good ord' d by auto
    qed
  qed
  with wf' s' show ?thesis by (simp add: av_invariant_def)
qed


lemma interleave_run_invariant:
  "interleave_run E out ps = Some out' \<Longrightarrow> av_invariant dv da out (map fst ps) \<Longrightarrow>
   0 < dv \<Longrightarrow> 0 < da \<Longrightarrow> \<forall>r \<in> set (map fst ps). good_packet dv da r \<Longrightarrow> dts_ordered (map fst ps) \<Longrightarrow>
   av_invariant dv da out' []"
proof (induction E out ps rule: interleave_run.induct)
  case (2 E out p e ps)
  then obtain o1 where o1: "interleave_packets E out p e = Some o1" "interleave_run E o1 ps = Some out'"
    by (auto simp: bind_eq_Some_conv)
  have "av_invariant dv da o1 (map fst ps)"
    using interleave_invariant [OF o1(1)] 2(3-7) by simp
  then show ?case using 2 o1 by (auto simp: dts_ordered_def)
qed simp

lemma reset_invariant:
  assumes "single_av out" "length (video_encoders out) = MAX_OUTPUT_VIDEO_ENCODERS"
    "length (audio_encoders out) = MAX_OUTPUT_AUDIO_ENCODERS" "sent out = []"
  shows "av_invariant dv da (reset_packet_data out) rem"
proof -
  have s: "single_av (reset_packet_data out)"
    using single_av_config [of "reset_packet_data out" out] assms(1) by (simp add: out_config_def reset_packet_data_def)
  have "output_wf (reset_packet_data out)"
    using assms single_avD(4) [OF assms(1)] by (auto simp: output_wf_def reset_packet_data_def intro!: exI [of _ 0])
  moreover have "before_start dv da (reset_packet_data out) rem" "\<not> started (reset_packet_data out)"
      "video_kept (reset_packet_data out)"
    using assms(4) by (simp_all add: before_start_def started_def video_kept_def reset_packet_data_def)
  ultimately show ?thesis using s by (simp add: av_invariant_def)
qed

end
