(* ===== verification/Interleave_Properties.thy ===== *)
theory Interleave_Properties
  imports Interleave_Monotone
begin

text \<open>
  The properties of the interleaver, over a run from \<open>reset_packet_data\<close>, each with an
  instance at a small output.
\<close>

section \<open>A concrete output\<close>

definition sample_video_encoder :: obs_encoder where
  "sample_video_encoder =
     \<lparr>enc_id = 1, enc_timebase_num = 1, enc_timebase_den = 60, enc_framesize = 1, enc_group = None\<rparr>"

definition sample_audio_encoder :: "nat \<Rightarrow> obs_encoder" where
  "sample_audio_encoder i =
     \<lparr>enc_id = i, enc_timebase_num = 1, enc_timebase_den = 48000, enc_framesize = 1024, enc_group = None\<rparr>"

definition sample_caption_track :: caption_track_data where
  "sample_caption_track =
     \<lparr>caption_head = [], caption_timestamp = 0, last_caption_timestamp = 0, caption_data = []\<rparr>"

text \<open>The state \<open>obs_output_start\<close> leaves, with the given encoders in the first slots.\<close>

definition sample_output :: "obs_encoder list \<Rightarrow> obs_encoder list \<Rightarrow> obs_output" where
  "sample_output ves aes =
     \<lparr>received_video = replicate 10 False, keyframe_group_tracking = [], received_audio = False,
      video_offsets = replicate 10 0, audio_offsets = replicate 6 0, highest_audio_ts = 0,
      highest_video_ts = replicate 10 INT64_MIN, interleaved_packets = [],
      interleaver_max_batch_size = 6, total_frames = 0, out_active = True,
      video_encoders = map Some ves @ replicate (10 - length ves) None,
      audio_encoders = map Some aes @ replicate (6 - length aes) None,
      caption_tracks = replicate 10 sample_caption_track, encoder_packet_times = replicate 10 [],
      pkt_callbacks = [], callback_log = [], sent = []\<rparr>"

definition sample_env :: output_env where
  "sample_env = \<lparr>env_add_caption = (\<lambda>ct p. (False, ct, pk_data p)), env_gettime_ns = 0, env_group_started = (\<lambda>_. 1)\<rparr>"

text \<open>Video frame \<open>n\<close> at 60 fps; audio sample \<open>n\<close> at 48 kHz.\<close>

definition sample_video :: "int \<Rightarrow> bool \<Rightarrow> encoder_packet" where
  "sample_video n key =
     \<lparr>pk_data = [], pk_pts = n, pk_dts = n, pk_timebase_num = 1, pk_timebase_den = 60,
      pk_type = OBS_ENCODER_VIDEO, pk_keyframe = key, pk_dts_usec = n * 1000000 div 60,
      pk_sys_dts_usec = 0, pk_priority = 0, pk_drop_priority = 0, pk_track_idx = 0, pk_encoder = 1\<rparr>"

definition sample_audio :: "nat \<Rightarrow> int \<Rightarrow> encoder_packet" where
  "sample_audio e n =
     \<lparr>pk_data = [], pk_pts = n, pk_dts = n, pk_timebase_num = 1, pk_timebase_den = 48000,
      pk_type = OBS_ENCODER_AUDIO, pk_keyframe = False, pk_dts_usec = n * 1000000 div 48000,
      pk_sys_dts_usec = 0, pk_priority = 0, pk_drop_priority = 0, pk_track_idx = 0, pk_encoder = e\<rparr>"

definition sample_stream :: "(encoder_packet \<times> encoder_packet_time option) list" where
  "sample_stream = map (\<lambda>p. (p, None))
     [sample_audio 2 0, sample_video 0 True, sample_audio 2 1024, sample_video 1 False, sample_audio 2 2048,
      sample_video 2 False, sample_audio 2 3072, sample_video 3 False]"

lemmas sample_defs = sample_output_def sample_video_encoder_def sample_audio_encoder_def
  sample_video_def sample_audio_def sample_stream_def sample_env_def

lemma sample_fields [simp]:
  "sent (sample_output ves aes) = []" "out_active (sample_output ves aes) = True"
  "video_encoders (sample_output ves aes) = map Some ves @ replicate (10 - length ves) None"
  "audio_encoders (sample_output ves aes) = map Some aes @ replicate (6 - length aes) None"
  by (simp_all add: sample_output_def)

abbreviation sample_one :: obs_output where
  "sample_one \<equiv> sample_output [sample_video_encoder] [sample_audio_encoder 2]"

lemma sample_one_single: "single_av sample_one"
  unfolding single_av_def
proof (intro conjI allI impI)
  show "video_encoders sample_one ! i \<noteq> None \<longleftrightarrow> i = 0" if "i < MAX_OUTPUT_VIDEO_ENCODERS" for i
    using that by (cases i) auto
  show "audio_encoders sample_one ! i \<noteq> None \<longleftrightarrow> i = 0" if "i < MAX_OUTPUT_AUDIO_ENCODERS" for i
    using that by (cases i) auto
qed

section \<open>Safety and order of the buffer\<close>

lemma known_encoder_config:
  "out_config out' = out_config out \<Longrightarrow> known_encoder out' p = known_encoder out p"
  by (simp add: known_encoder_def out_config_def cong: obs_encoder_type.case_cong)

lemma interleave_run_wf:
  "output_wf out \<Longrightarrow> \<forall>(p, e) \<in> set ps. known_encoder out p \<Longrightarrow>
     \<exists>out'. interleave_run E out ps = Some out' \<and> output_wf out'"
proof (induction ps arbitrary: out)
  case (Cons pe ps)
  obtain p e where pe: "pe = (p, e)" by fastforce
  from interleave_packets_safe [OF Cons.prems(1)] Cons.prems(2) pe obtain o1 where
    o1: "interleave_packets E out p e = Some o1" "output_wf o1" by fastforce
  have "\<forall>(q, e) \<in> set ps. known_encoder o1 q"
    using Cons.prems(2) known_encoder_config [OF config_interleave [OF o1(1)]] by auto
  from Cons.IH [OF o1(2) this] o1 pe show ?case by simp
qed simp



section \<open>The order of what is sent\<close>

text \<open>C1: With one video and one audio encoder, packets that each encoder delivers in DTS
  order leave the output in DTS order across both: every packet that was sent has a DTS (in
  microseconds, after the start offsets) at or after the one sent before it. The run always
  succeeds.\<close>

theorem interleave_run_monotone:
  assumes "single_av out" and "length (video_encoders out) = MAX_OUTPUT_VIDEO_ENCODERS"
    and "length (audio_encoders out) = MAX_OUTPUT_AUDIO_ENCODERS" and "sent out = []"
    and "0 < dv" and "0 < da"
    and "\<forall>p \<in> set (map fst ps). good_packet dv da p" and "dts_ordered (map fst ps)"
    and "\<forall>(p, e) \<in> set ps. known_encoder out p"
  shows "\<exists>out'. interleave_run E (reset_packet_data out) ps = Some out' \<and>
    sorted (map pk_dts_usec (sent out'))"
proof -
  have inv: "av_invariant dv da (reset_packet_data out) (map fst ps)"
    by (rule reset_invariant [OF assms(1-4)])
  have c: "out_config (reset_packet_data out) = out_config out"
    by (simp add: out_config_def reset_packet_data_def)
  have k: "\<forall>(p, e) \<in> set ps. known_encoder (reset_packet_data out) p"
    using assms(9) known_encoder_config [OF c] by simp
  have "output_wf (reset_packet_data out)" using inv by (simp add: av_invariant_def)
  from interleave_run_wf [OF this k] obtain out' where
    run: "interleave_run E (reset_packet_data out) ps = Some out'" by blast
  from interleave_run_invariant [OF run inv assms(5-8)] have "sorted (map pk_dts_usec (sent out'))"
    by (auto simp: av_invariant_def before_start_def streaming_def)
  with run show ?thesis by blast
qed

theorem interleave_run_monotone_witness:
  "\<exists>out'. interleave_run sample_env (reset_packet_data sample_one) sample_stream = Some out' \<and>
    sorted (map pk_dts_usec (sent out'))"
  by (rule interleave_run_monotone [where dv = 60 and da = 48000, OF sample_one_single])
    (auto simp: good_packet_def dts_ordered_def packet_dts_usec_def c_div_def known_encoder_def
      sample_stream_def sample_video_def sample_audio_def sample_video_encoder_def sample_audio_encoder_def)

section \<open>Nothing is lost\<close>

text \<open>C21: Once the output has started, a packet of one of its encoders is never dropped or
  duplicated: the packets sent so far together with the buffered ones grow by exactly the
  new packet, shifted by its track's offset. (The payload is not compared, captions may be
  written into it.)\<close>

theorem interleave_packets_conserve:
  assumes "interleave_packets E out p e = Some out'" and "out_active out" and "started out"
    and "output_wf out" and "known_encoder out p"
  shows "image_mset packet_meta (mset (sent out') + mset (interleaved_packets out')) =
    image_mset packet_meta (mset (sent out) + mset (interleaved_packets out)) +
    {#packet_meta (apply_interleaved_packet_offset out (p\<lparr>pk_track_idx := get_encoder_index out p\<rparr>))#}"
  using interleave_in_output [OF assms] by (simp add: in_output_def)

definition sample_started :: obs_output where
  "sample_started = sample_one\<lparr>received_video := True # replicate 9 False, received_audio := True,
     interleaved_packets := [sample_video 1 False]\<rparr>"

lemma sample_started_wf: "output_wf sample_started" "started sample_started"
proof -
  have s: "single_av sample_started"
    using single_av_config [of sample_started sample_one] sample_one_single
    by (simp add: out_config_def sample_started_def)
  then show "started sample_started" by (simp add: started_single) (simp add: sample_started_def)
  have v: "valid_track sample_started (sample_video 1 False)"
    using single_av_valid [OF s] by (simp add: sample_video_def)
  show "output_wf sample_started" using v single_avD(4) [OF s] unfolding output_wf_def
    by (intro conjI exI [of _ 0]) (auto simp: sample_started_def sample_output_def)
qed

theorem interleave_packets_conserve_witness:
  "\<exists>out'. interleave_packets sample_env sample_started (sample_audio 2 1024) None = Some out' \<and>
    image_mset packet_meta (mset (sent out') + mset (interleaved_packets out')) =
    image_mset packet_meta (mset (sent sample_started) + mset (interleaved_packets sample_started)) +
    {#packet_meta (apply_interleaved_packet_offset sample_started ((sample_audio 2 1024)
        \<lparr>pk_track_idx := get_encoder_index sample_started (sample_audio 2 1024)\<rparr>))#}"
proof -
  have k: "known_encoder sample_started (sample_audio 2 1024)"
    by (auto simp: known_encoder_def sample_started_def sample_audio_def sample_audio_encoder_def)
  obtain out' where o: "interleave_packets sample_env sample_started (sample_audio 2 1024) None = Some out'"
    using interleave_packets_safe [OF sample_started_wf(1) k] by blast
  have a: "out_active sample_started" by (simp add: sample_started_def)
  show ?thesis using interleave_packets_conserve [OF o a sample_started_wf(2,1) k] o by blast
qed

section \<open>The common start\<close>

lemma first_idx_map: "first_idx P (map f xs) = first_idx (P \<circ> f) xs"
  by (induction xs) auto

lemma find_first_map:
  assumes "interleaved_packets o2 = map f (interleaved_packets o1)"
    and "\<And>p. pk_type (f p) = pk_type p" "\<And>p. pk_track_idx (f p) = pk_track_idx p"
  shows "find_first_packet_type o2 ty i = map_option f (find_first_packet_type o1 ty i)"
  by (auto simp: find_first_packet_type_def find_first_packet_type_idx_def assms first_idx_map comp_def
      option.map_comp nth_map first_idx_lt intro!: option.map_cong0)

definition packets_found :: "obs_output \<Rightarrow> bool" where
  "packets_found out \<longleftrightarrow> get_audio_and_video_packets out = (out, True)"

lemma packets_foundI: "get_audio_and_video_packets out = (out', True) \<Longrightarrow> out' = out \<and> packets_found out"
  using get_packets_same by (auto simp: packets_found_def)

lemma initialize_success:
  assumes "initialize_interleaved_packets out = Some (out', True)"
  shows "\<exists>o1 i. packets_found o1 \<and> set_start_offsets o1 i = Some out' \<and> (o1 = out \<or> (\<exists>n. o1 = discard_to_idx out n))"
  using assms by (auto simp: initialize_interleaved_packets_def dest!: packets_foundI
      split: option.splits prod.splits bool.splits if_splits)

text \<open>C22: When the output starts, every video track's first packet gets PTS 0, and every
  audio track's first packet gets DTS 0, unless its DTS was negative (an encoder's priming
  samples), which it keeps.\<close>

theorem initialize_common_start:
  assumes "initialize_interleaved_packets out = Some (out', True)"
    and "\<forall>j < MAX_OUTPUT_AUDIO_ENCODERS. audio_offsets out ! j = 0"
  shows "(\<forall>i < MAX_OUTPUT_VIDEO_ENCODERS. video_encoders out ! i \<noteq> None \<longrightarrow>
      (\<exists>p. find_first_packet_type out' OBS_ENCODER_VIDEO i = Some p \<and> pk_pts p = 0)) \<and>
    (\<forall>j < MAX_OUTPUT_AUDIO_ENCODERS. audio_encoders out ! j \<noteq> None \<longrightarrow>
      (\<exists>p a. find_first_packet_type out' OBS_ENCODER_AUDIO j = Some p \<and>
        a \<in> set (interleaved_packets out) \<and> pk_type a = OBS_ENCODER_AUDIO \<and> pk_track_idx a = j \<and>
        pk_dts p = min 0 (pk_dts a)))"
proof -
  from initialize_success [OF assms(1)] obtain o1 k where o1: "set_start_offsets o1 k = Some out'"
    "o1 = out \<or> (\<exists>n. o1 = discard_to_idx out n)" by blast
  have f: "video_encoders o1 = video_encoders out" "audio_encoders o1 = audio_encoders out"
    "audio_offsets o1 = audio_offsets out" "set (interleaved_packets o1) \<subseteq> set (interleaved_packets out)"
    using o1(2) by (auto simp: il_frame dest: in_set_dropD)
  note c = set_start_offsets_cases [OF o1(1)]
  have m: "find_first_packet_type out' ty i =
      map_option (apply_interleaved_packet_offset out') (find_first_packet_type o1 ty i)" for ty i
    by (rule find_first_map [OF c(4)]) (simp_all add: apply_interleaved_packet_offset_def Let_def)
  show ?thesis
  proof (intro conjI allI impI)
    fix i assume i: "i < MAX_OUTPUT_VIDEO_ENCODERS" "video_encoders out ! i \<noteq> None"
    then obtain v where v: "video_packet o1 i = Some v" "video_offsets out' ! i = pk_pts v"
      using c(2) [of i] f(1) by auto
    then have "pk_type v = OBS_ENCODER_VIDEO" "pk_track_idx v = i"
      by (auto simp: video_packet_def dest: find_first_packet_type_SomeD)
    with v show "\<exists>p. find_first_packet_type out' OBS_ENCODER_VIDEO i = Some p \<and> pk_pts p = 0"
      by (simp add: m video_packet_def apply_interleaved_packet_offset_def packet_offset_def Let_def)
  next
    fix j assume j: "j < MAX_OUTPUT_AUDIO_ENCODERS" "audio_encoders out ! j \<noteq> None"
    then obtain a where a: "audio_packet o1 j = Some a"
      "audio_offsets out' ! j = (if pk_dts a > 0 then pk_dts a else 0)"
      using c(3) [of j] f assms(2) by auto
    then have t: "pk_type a = OBS_ENCODER_AUDIO" "pk_track_idx a = j" "a \<in> set (interleaved_packets out)"
      using f(4) by (auto simp: audio_packet_def dest: find_first_packet_type_SomeD)
    with a have "pk_dts (apply_interleaved_packet_offset out' a) = min 0 (pk_dts a)"
      by (simp add: apply_interleaved_packet_offset_def packet_offset_def Let_def)
    with a(1) t show "\<exists>p a. find_first_packet_type out' OBS_ENCODER_AUDIO j = Some p \<and>
        a \<in> set (interleaved_packets out) \<and> pk_type a = OBS_ENCODER_AUDIO \<and> pk_track_idx a = j \<and>
        pk_dts p = min 0 (pk_dts a)"
      by (auto simp: m audio_packet_def)
  qed
qed

text \<open>An output about to start, with an audio packet older than the video keyframe.\<close>

definition sample_ready :: obs_output where
  "sample_ready = sample_one\<lparr>received_video := True # replicate 9 False, received_audio := True,
     interleaved_packets := [sample_audio 2 45000, sample_audio 2 46024, sample_video 60 True, sample_audio 2 48072]\<rparr>"

lemma sample_ready_starts: "\<exists>out'. initialize_interleaved_packets sample_ready = Some (out', True)"
proof -
  have "map_option snd (initialize_interleaved_packets sample_ready) = Some True" by code_simp
  then show ?thesis by (auto simp: map_option_case split: option.splits)
qed

theorem initialize_common_start_witness:
  "\<exists>out'. initialize_interleaved_packets sample_ready = Some (out', True) \<and>
    (\<exists>p. find_first_packet_type out' OBS_ENCODER_VIDEO 0 = Some p \<and> pk_pts p = 0)"
proof -
  obtain out' where o: "initialize_interleaved_packets sample_ready = Some (out', True)"
    using sample_ready_starts by blast
  have z: "\<forall>j < MAX_OUTPUT_AUDIO_ENCODERS. audio_offsets sample_ready ! j = 0"
    by (simp add: sample_ready_def sample_output_def)
  have v: "video_encoders sample_ready ! 0 \<noteq> None" by (simp add: sample_ready_def)
  show ?thesis using initialize_common_start [OF o z] v o by auto
qed

section \<open>Where the code departs from its comments\<close>

definition video_is_key :: "encoder_packet \<Rightarrow> bool \<times> bool" where
  "video_is_key p = (pk_type p = OBS_ENCODER_VIDEO, pk_keyframe p)"

definition run_sample ::
    "obs_encoder list \<Rightarrow> obs_encoder list \<Rightarrow> encoder_packet list \<Rightarrow> encoder_packet list option" where
  "run_sample ves aes ps = map_option sent
     (interleave_run sample_env (reset_packet_data (sample_output ves aes)) (map (\<lambda>p. (p, None)) ps))"

text \<open>The output can start with a video packet that is not a keyframe. When audio comes
  so late that \<open>prune_premature_packets\<close> discards up to the first audio packet, the video
  keyframe goes with it, and the first packet sent is a delta frame: \<open>interleave_packets\<close>
  only asks for a keyframe while the track has received nothing.\<close>

theorem first_sent_not_keyframe:
  "map_option (map video_is_key) (run_sample [sample_video_encoder] [sample_audio_encoder 2]
     [sample_video 0 True, sample_video 1 False, sample_video 2 False, sample_video 3 False,
      sample_audio 2 1920, sample_audio 2 2944, sample_audio 2 3968]) = Some [(True, False)]"
  by code_simp

text \<open>What \<open>prune_premature_packets\<close> decides depends on the slot of the audio encoders:
  it computes the largest difference between audio and video (\<open>max_diff\<close>) but compares the
  one of the last track. Two outputs whose buffers differ in nothing but which of the two
  tracks has the late audio, prune and do not prune.\<close>

theorem prune_depends_on_track_order:
  "snd (prune_premature_packets ((sample_output [sample_video_encoder] [sample_audio_encoder 2, sample_audio_encoder 3])
       \<lparr>interleaved_packets := [sample_video 0 True, (sample_audio 2 0)\<lparr>pk_track_idx := 0\<rparr>,
          (sample_audio 3 480000)\<lparr>pk_track_idx := 1\<rparr>]\<rparr>)) = Some 3 \<and>
   snd (prune_premature_packets ((sample_output [sample_video_encoder] [sample_audio_encoder 2, sample_audio_encoder 3])
       \<lparr>interleaved_packets := [sample_video 0 True, (sample_audio 3 0)\<lparr>pk_track_idx := 1\<rparr>,
          (sample_audio 2 480000)\<lparr>pk_track_idx := 0\<rparr>]\<rparr>)) = Some 0"
  by (rule conjI) code_simp+

text \<open>With two audio encoders the output is not monotone: \<open>count_streamable_frames\<close>
  compares a video packet with the highest audio timestamp of any track, so a packet of the
  slower audio track is sent after a video packet with a higher DTS.\<close>

theorem two_audio_tracks_not_monotone:
  "map_option (map pk_dts_usec) (run_sample [sample_video_encoder] [sample_audio_encoder 2, sample_audio_encoder 3]
     [sample_video 0 True, sample_audio 2 0, sample_audio 3 0, sample_video 1 False, sample_audio 2 4096,
      sample_video 2 False, sample_video 3 False, sample_audio 3 1024, sample_video 4 False,
      sample_audio 3 2048, sample_audio 2 6144, sample_video 5 False])
   = Some [0, 0, 0, 16666, 33333, 21333, 50000, 42666, 66666, 83333]"
  by code_simp

text \<open>With two video encoders the output can start without its offsets: a delta frame of
  the second track discards the keyframe of the first from the buffer, whose flag stays set,
  and once all flags are set the failed start is not tried again. The packets are then sent
  with the timestamps of the encoders instead of starting at 0.\<close>

theorem two_video_tracks_start_unshifted:
  "map_option (map pk_dts) (run_sample [sample_video_encoder, sample_video_encoder\<lparr>enc_id := 5\<rparr>]
     [sample_audio_encoder 2]
     [sample_video 600 True, (sample_video 601 False)\<lparr>pk_encoder := 5\<rparr>,
      (sample_video 602 True)\<lparr>pk_encoder := 5\<rparr>, sample_audio 2 480000, sample_video 601 False,
      sample_audio 2 481024, (sample_video 603 False)\<lparr>pk_encoder := 5\<rparr>, sample_audio 2 482048])
   = Some [480000, 601]"
  by code_simp

end
