(* ===== verification/Pause.thy ===== *)
theory Pause
  imports Prelude
begin

text \<open>
  Pausing: \<open>struct pause_data\<close> (\<open>obs-internal.h\<close>), the requests of \<open>obs-output.c\<close>
  (\<open>obs_output_pause\<close> and what it calls) and the filters of \<open>obs-encoder.c\<close> that drop video
  frames and cut audio (\<open>video_pause_check\<close>, \<open>audio_pause_check\<close>). Timestamps are 64-bit words
  in nanoseconds. The clock (\<open>os_gettime_ns\<close>) and the frame interval of the video thread are
  arguments; the mutexes make each operation atomic.
\<close>

section \<open>Scaling\<close>

text \<open>\<open>util_mul_div64\<close> (\<open>util/util_uint64.h\<close>), the portable branch; a zero divisor is undefined
  in C.\<close>

definition util_mul_div64 :: "u64 \<Rightarrow> u64 \<Rightarrow> u64 \<Rightarrow> u64" where
  "util_mul_div64 num mul d = (let rem = num mod d in (num div d) * mul + (rem * mul) div d)"

definition audio_frames_to_ns :: "u64 \<Rightarrow> u64 \<Rightarrow> u64" where
  "audio_frames_to_ns sample_rate frames = util_mul_div64 frames 1000000000 sample_rate"

definition ns_to_audio_frames :: "u64 \<Rightarrow> u64 \<Rightarrow> u64" where
  "ns_to_audio_frames sample_rate ns = util_mul_div64 ns sample_rate 1000000000"

section \<open>Requests\<close>

record pause_data =
  last_video_ts :: u64
  ts_start :: u64
  ts_end :: u64
  ts_offset :: u64

definition pause_reset :: "pause_data \<Rightarrow> pause_data" where
  "pause_reset p = \<lparr>last_video_ts = 0, ts_start = 0, ts_end = 0, ts_offset = 0\<rparr>"

definition end_pause :: "pause_data \<Rightarrow> u64 \<Rightarrow> pause_data" where
  "end_pause p ts =
     (if ts_end p = 0
      then p\<lparr>ts_end := ts, ts_offset := ts_offset p + (ts - ts_start p)\<rparr>
      else p)"

text \<open>The first frame time after the next two frames; the interval is never 0.\<close>

definition get_closest_v_ts :: "u64 \<Rightarrow> u64 \<Rightarrow> pause_data \<Rightarrow> u64" where
  "get_closest_v_ts interval now p =
     (let i2 = interval * 2
      in last_video_ts p + ((now - last_video_ts p + i2) div interval) * interval)"

definition pause_can_start :: "pause_data \<Rightarrow> bool" where
  "pause_can_start p \<longleftrightarrow> ts_start p = 0 \<and> ts_end p = 0"

definition pause_can_stop :: "pause_data \<Rightarrow> bool" where
  "pause_can_stop p \<longleftrightarrow> ts_start p \<noteq> 0 \<and> ts_end p = 0"

text \<open>What pausing uses of an encoder.\<close>

record pausable_encoder =
  pe_paused :: bool
  pe_pause :: pause_data

definition encoder_start_pause :: "u64 \<Rightarrow> pausable_encoder \<Rightarrow> pausable_encoder" where
  "encoder_start_pause ts e = e\<lparr>pe_paused := True, pe_pause := (pe_pause e)\<lparr>ts_start := ts\<rparr>\<rparr>"

definition encoder_end_pause :: "u64 \<Rightarrow> pausable_encoder \<Rightarrow> pausable_encoder" where
  "encoder_end_pause ts e = e\<lparr>pe_paused := False, pe_pause := end_pause (pe_pause e) ts\<rparr>"

text \<open>
  All encoders of the output pause at the same timestamp, taken from the first video encoder,
  or none does.
\<close>

definition obs_encoded_output_pause ::
    "u64 \<Rightarrow> u64 \<Rightarrow> pausable_encoder option list \<Rightarrow> pausable_encoder option list \<Rightarrow> bool
     \<Rightarrow> (pausable_encoder option list \<times> pausable_encoder option list) \<times> bool" where
  "obs_encoded_output_pause interval now venc aenc pause =
     (case first_idx (\<lambda>e. e \<noteq> None) venc of
        None \<Rightarrow> ((venc, aenc), False)
      | Some first_venc_index \<Rightarrow>
          let closest_v_ts = (case venc ! first_venc_index of
                                Some e \<Rightarrow> get_closest_v_ts interval now (pe_pause e) | None \<Rightarrow> 0);
              can = (if pause then pause_can_start else pause_can_stop);
              step = (if pause then encoder_start_pause else encoder_end_pause) closest_v_ts
          in if list_all (\<lambda>e. case e of Some x \<Rightarrow> can (pe_pause x) | None \<Rightarrow> True) (venc @ aenc)
             then ((map (map_option step) venc, map (map_option step) aenc), True)
             else ((venc, aenc), False))"

definition obs_raw_output_pause :: "u64 \<Rightarrow> u64 \<Rightarrow> pause_data \<Rightarrow> bool \<Rightarrow> pause_data \<times> bool" where
  "obs_raw_output_pause interval now p pause =
     (let closest_v_ts = get_closest_v_ts interval now p
      in if pause
         then if pause_can_start p then (p\<lparr>ts_start := closest_v_ts\<rparr>, True) else (p, False)
         else if pause_can_stop p then (end_pause p closest_v_ts, True) else (p, False))"

record pausable_output =
  po_can_pause :: bool
  po_encoded :: bool
  po_active :: bool
  po_paused :: bool
  po_pause :: pause_data
  po_venc :: "pausable_encoder option list"
  po_aenc :: "pausable_encoder option list"
  po_signals :: "string list"

definition obs_output_pause :: "u64 \<Rightarrow> u64 \<Rightarrow> pausable_output \<Rightarrow> bool \<Rightarrow> pausable_output \<times> bool" where
  "obs_output_pause interval now out pause =
     (if \<not> po_can_pause out then (out, False)
      else if \<not> po_active out then (out, False)
      else if po_paused out = pause then (out, True)
      else
        let (out', success) =
              (if po_encoded out
               then let ((v, a), ok) = obs_encoded_output_pause interval now (po_venc out) (po_aenc out) pause
                    in (out\<lparr>po_venc := v, po_aenc := a\<rparr>, ok)
               else let (p, ok) = obs_raw_output_pause interval now (po_pause out) pause
                    in (out\<lparr>po_pause := p\<rparr>, ok))
        in (if success
            then out'\<lparr>po_paused := pause, po_signals := po_signals out' @ [if pause then ''pause'' else ''unpause'']\<rparr>
            else out', success))"

definition obs_output_get_pause_offset :: "pausable_output \<Rightarrow> u64" where
  "obs_output_get_pause_offset out = ts_offset (po_pause out)"

section \<open>Filters\<close>

definition video_pause_check :: "pause_data \<Rightarrow> u64 \<Rightarrow> pause_data \<times> bool" where
  "video_pause_check p ts =
     (let p = p\<lparr>last_video_ts := ts\<rparr>
      in if ts_start p = 0 then (p, False)
         else if ts = ts_end p then (p\<lparr>ts_start := 0, ts_end := 0\<rparr>, False)
         else if ts \<ge> ts_start p then (p, True)
         else (p, False))"

text \<open>Audio is float planar here: a plane is the list of samples from the current pointer on.\<close>

record 's audio_data =
  ad_data :: "'s list list"
  ad_frames :: u32
  ad_timestamp :: u64

definition pause_audio :: "pause_data \<Rightarrow> 's audio_data \<Rightarrow> u64 \<Rightarrow> 's audio_data" where
  "pause_audio p d sample_rate =
     (let cutoff_frames = ns_to_audio_frames sample_rate (ts_start p - ad_timestamp d)
      in d\<lparr>ad_frames := ucast cutoff_frames\<rparr>)"

definition unpause_audio ::
    "pause_data \<Rightarrow> 's audio_data \<Rightarrow> u64 \<Rightarrow> pause_data \<times> 's audio_data" where
  "unpause_audio p d sample_rate =
     (let cutoff_frames = ns_to_audio_frames sample_rate (ts_end p - ad_timestamp d)
      in (p\<lparr>ts_start := 0, ts_end := 0\<rparr>,
          d\<lparr>ad_data := map (drop (unat cutoff_frames)) (ad_data d),
            ad_timestamp := ts_start p,
            ad_frames := ad_frames d - ucast cutoff_frames\<rparr>))"

definition audio_pause_check_internal ::
    "pause_data \<Rightarrow> 's audio_data \<Rightarrow> u64 \<Rightarrow> pause_data \<times> 's audio_data \<times> bool" where
  "audio_pause_check_internal p d sample_rate =
     (if ts_start p = 0 then (p, d, False)
      else
        let end_ts = ad_timestamp d + audio_frames_to_ns sample_rate (ucast (ad_frames d))
        in if ts_start p \<ge> ad_timestamp d
           then if ts_start p \<le> end_ts
                then let d' = pause_audio p d sample_rate in (p, d', ad_frames d' = 0)
                else (p, d, False)
           else if ts_end p \<ge> ad_timestamp d \<and> ts_end p \<le> end_ts
                then let (p', d') = unpause_audio p d sample_rate in (p', d', ad_frames d' = 0)
                else (p, d, True))"

definition audio_pause_check ::
    "pause_data \<Rightarrow> 's audio_data \<Rightarrow> u64 \<Rightarrow> pause_data \<times> 's audio_data \<times> bool" where
  "audio_pause_check p d sample_rate =
     (let (p', d', ignore_audio) = audio_pause_check_internal p d sample_rate
      in (p', d'\<lparr>ad_timestamp := ad_timestamp d' - ts_offset p'\<rparr>, ignore_audio))"

end
