(* ===== verification/Pause_Clock.thy ===== *)
theory Pause_Clock
  imports Pause
begin

text \<open>
  What pausing does to the frames of a running clock: frames come at every interval, pause
  and unpause requests at any time between them.
\<close>

section \<open>The frame time of a request\<close>

lemma closest_unat:
  assumes i: "0 < unat i" and le: "unat (last_video_ts p) \<le> unat now"
    and bound: "unat now + 2 * unat i < 2 ^ 64"
  shows "unat (get_closest_v_ts i now p) =
    unat (last_video_ts p) + ((unat now - unat (last_video_ts p)) div unat i + 2) * unat i"
proof -
  let ?L = "unat (last_video_ts p)" and ?i = "unat i" and ?n = "unat now"
  have d: "unat (now - last_video_ts p) = ?n - ?L" using le by (simp add: unat_sub word_le_nat_alt)
  have two: "unat (i * 2) = ?i * 2" using bound by (simp add: unat_mult_lem [THEN iffD1])
  have s: "unat (now - last_video_ts p + i * 2) = ?n - ?L + ?i * 2"
    using bound d two by (subst unat_add_lem [THEN iffD1]) simp_all
  let ?q = "(?n - ?L) div ?i + 2"
  have q: "unat ((now - last_video_ts p + i * 2) div i) = ?q"
    using i by (simp add: unat_div s div_mult_self1)
  have qi: "?q * ?i \<le> ?n - ?L + 2 * ?i" by (simp add: add_mult_distrib)
  have m: "unat ((now - last_video_ts p + i * 2) div i * i) = ?q * ?i"
  proof -
    have L: "(2::nat) ^ LENGTH(64) = 2 ^ 64" by simp
    have "?q * ?i < 2 ^ LENGTH(64)" unfolding L using qi bound by linarith
    then have "unat ((now - last_video_ts p + i * 2) div i) * ?i < 2 ^ LENGTH(64)" unfolding q .
    then have "unat ((now - last_video_ts p + i * 2) div i * i) = unat ((now - last_video_ts p + i * 2) div i) * ?i"
      by (rule unat_mult_lem [THEN iffD1])
    then show ?thesis unfolding q .
  qed
  show ?thesis unfolding get_closest_v_ts_def Let_def
  proof -
    have L: "(2::nat) ^ LENGTH(64) = 2 ^ 64" by simp
    have "?L + ?q * ?i < 2 ^ LENGTH(64)" unfolding L using bound qi le by linarith
    then have "?L + unat ((now - last_video_ts p + i * 2) div i * i) < 2 ^ LENGTH(64)" unfolding m .
    then show "unat (last_video_ts p + (now - last_video_ts p + i * 2) div i * i) = ?L + ?q * ?i"
      by (simp only: unat_add_lem [THEN iffD1] m)
  qed
qed

text \<open>C24: The frame time that a pause or unpause request takes effect at lies on the frame
  grid, is later than the next frame, and at most two intervals after the request.\<close>

theorem closest_v_ts_bounds:
  assumes "0 < unat i" and "unat (last_video_ts p) \<le> unat now" and "unat now + 2 * unat i < 2 ^ 64"
  shows "unat i dvd unat (get_closest_v_ts i now p) - unat (last_video_ts p) \<and>
    unat now + unat i < unat (get_closest_v_ts i now p) \<and>
    unat (get_closest_v_ts i now p) \<le> unat now + 2 * unat i"
proof -
  let ?d = "unat now - unat (last_video_ts p)"
  have a: "?d < unat i + ?d div unat i * unat i" "?d div unat i * unat i \<le> ?d"
    using assms(1) by (simp_all add: dividend_less_div_times)
  have "(?d div unat i + 2) * unat i = ?d div unat i * unat i + 2 * unat i" by (simp add: add_mult_distrib)
  then have b: "unat now + unat i < unat (last_video_ts p) + (?d div unat i + 2) * unat i"
    "unat (last_video_ts p) + (?d div unat i + 2) * unat i \<le> unat now + 2 * unat i"
    using assms(2) a by linarith+
  have "unat i dvd unat (last_video_ts p) + (?d div unat i + 2) * unat i - unat (last_video_ts p)" by simp
  with b show ?thesis unfolding closest_unat [OF assms] by blast
qed

theorem closest_v_ts_bounds_witness:
  "unat (16666666::u64) dvd unat (get_closest_v_ts 16666666 1020000000
       \<lparr>last_video_ts = 1000000000, ts_start = 0, ts_end = 0, ts_offset = 0\<rparr>) - 1000000000"
  using closest_v_ts_bounds [of "16666666" "\<lparr>last_video_ts = 1000000000, ts_start = 0, ts_end = 0, ts_offset = 0\<rparr>"
      "1020000000"] by simp

section \<open>One request for all encoders\<close>

definition output_encoders :: "pausable_output \<Rightarrow> pausable_encoder set" where
  "output_encoders out = {e. Some e \<in> set (po_venc out @ po_aenc out)}"

lemma Some_in_map_option: "Some e \<in> set (map (map_option f) xs) \<Longrightarrow> \<exists>x. Some x \<in> set xs \<and> e = f x"
  by (auto simp: eq_commute [of "Some e"])

text \<open>C25: A pause or unpause request of an encoded output is all or nothing: if it is refused
  nothing changes, and if it succeeds every video and audio encoder gets the same timestamp
  as the start (the end) of its pause and is marked paused (resumed).\<close>

theorem encoded_pause_atomic:
  assumes "obs_output_pause i now out pause = (out', ok)" and "po_encoded out" and "po_paused out \<noteq> pause"
  shows "if ok then po_paused out' = pause \<and>
      (\<exists>ts. \<forall>e \<in> output_encoders out'. pe_paused e = pause \<and>
         (if pause then ts_start (pe_pause e) = ts \<and> ts_end (pe_pause e) = 0
          else ts_end (pe_pause e) = ts))
    else out' = out"
proof (cases "po_can_pause out \<and> po_active out")
  case False
  then have "obs_output_pause i now out pause = (out, False)"
    by (cases "po_can_pause out") (simp_all add: obs_output_pause_def)
  then show ?thesis using assms(1) by simp
next
  case True
  obtain v a ok1 where r: "obs_encoded_output_pause i now (po_venc out) (po_aenc out) pause = ((v, a), ok1)"
    by (metis prod.exhaust)
  let ?can = "if pause then pause_can_start else pause_can_stop"
  have o: "ok = ok1" "ok \<Longrightarrow> po_venc out' = v \<and> po_aenc out' = a \<and> po_paused out' = pause"
    "\<not> ok \<Longrightarrow> out' = out\<lparr>po_venc := v, po_aenc := a\<rparr>"
    using assms True r by (auto simp: obs_output_pause_def Let_def split: if_splits)
  show ?thesis
  proof (cases ok)
    case False
    then have "v = po_venc out" "a = po_aenc out" using r o(1)
      by (auto simp: obs_encoded_output_pause_def Let_def split: option.splits if_splits)
    with False o show ?thesis by simp
  next
    case ok: True
    with r o(1) obtain ts where all: "list_all (\<lambda>e. case e of Some x \<Rightarrow> ?can (pe_pause x) | None \<Rightarrow> True) (po_venc out @ po_aenc out)"
      and va: "v @ a = map (map_option ((if pause then encoder_start_pause else encoder_end_pause) ts)) (po_venc out @ po_aenc out)"
      by (auto simp: obs_encoded_output_pause_def Let_def split: option.splits if_splits)
    have "pe_paused e = pause \<and> (if pause then ts_start (pe_pause e) = ts \<and> ts_end (pe_pause e) = 0
          else ts_end (pe_pause e) = ts)" if "e \<in> output_encoders out'" for e
    proof -
      have "Some e \<in> set (v @ a)" using that o(2) [OF ok] by (simp add: output_encoders_def)
      then obtain x where x: "Some x \<in> set (po_venc out @ po_aenc out)"
        "e = (if pause then encoder_start_pause else encoder_end_pause) ts x"
        using Some_in_map_option unfolding va by metis
      then have "?can (pe_pause x)" using bspec [OF all [unfolded list_all_iff] x(1)] by simp
      with x(2) show ?thesis
        by (auto simp: encoder_start_pause_def encoder_end_pause_def end_pause_def pause_can_start_def
            pause_can_stop_def split: if_splits)
    qed
    with ok o(2) show ?thesis by auto
  qed
qed

definition sample_pausable :: pausable_output where
  "sample_pausable =
     (let e = \<lparr>pe_paused = False, pe_pause = \<lparr>last_video_ts = 100, ts_start = 0, ts_end = 0, ts_offset = 0\<rparr>\<rparr>
      in \<lparr>po_can_pause = True, po_encoded = True, po_active = True, po_paused = False,
          po_pause = \<lparr>last_video_ts = 0, ts_start = 0, ts_end = 0, ts_offset = 0\<rparr>,
          po_venc = [Some e, None], po_aenc = [None, Some e], po_signals = []\<rparr>)"

theorem encoded_pause_atomic_witness:
  "\<exists>out'. obs_output_pause 10 113 sample_pausable True = (out', True) \<and> po_paused out' \<and>
    (\<exists>ts. \<forall>e \<in> output_encoders out'. pe_paused e \<and> ts_start (pe_pause e) = ts \<and> ts_end (pe_pause e) = 0)"
proof -
  obtain out' ok where r: "obs_output_pause 10 113 sample_pausable True = (out', ok)" by fastforce
  have "snd (obs_output_pause 10 113 sample_pausable True)" by code_simp
  with r have ok by simp
  with encoded_pause_atomic [OF r] r show ?thesis by (auto simp: sample_pausable_def Let_def)
qed

section \<open>A run of the clock\<close>

datatype clock_event = Frame | Pause_Request u64 | Unpause_Request u64

text \<open>The state with the number of frames that were let through.\<close>

fun clock_run :: "u64 \<Rightarrow> pause_data \<Rightarrow> nat \<Rightarrow> clock_event list \<Rightarrow> pause_data \<times> nat" where
  "clock_run i p kept [] = (p, kept)"
| "clock_run i p kept (Frame # evs) =
     (let (p', ignore_frame) = video_pause_check p (last_video_ts p + i)
      in clock_run i p' (if ignore_frame then kept else Suc kept) evs)"
| "clock_run i p kept (Pause_Request now # evs) =
     clock_run i (fst (obs_raw_output_pause i now p True)) kept evs"
| "clock_run i p kept (Unpause_Request now # evs) =
     clock_run i (fst (obs_raw_output_pause i now p False)) kept evs"

text \<open>
  A clock without overflow: the time of the requests does not go back, is not before the
  last frame, and everything stays at or below \<open>B\<close>.
\<close>

fun clock_ok :: "nat \<Rightarrow> nat \<Rightarrow> nat \<Rightarrow> nat \<Rightarrow> clock_event list \<Rightarrow> bool" where
  "clock_ok B i l m [] = True"
| "clock_ok B i l m (Frame # evs) \<longleftrightarrow> l + i \<le> B \<and> clock_ok B i (l + i) m evs"
| "clock_ok B i l m (Pause_Request now # evs) \<longleftrightarrow>
     l \<le> unat now \<and> m \<le> unat now \<and> unat now \<le> B \<and> clock_ok B i l (unat now) evs"
| "clock_ok B i l m (Unpause_Request now # evs) \<longleftrightarrow>
     l \<le> unat now \<and> m \<le> unat now \<and> unat now \<le> B \<and> clock_ok B i l (unat now) evs"

text \<open>
  The invariant: frames let through and time paused account for the time since the first
  frame \<open>t0\<close>. \<open>m\<close> is the time of the last request.
\<close>

definition grid :: "nat \<Rightarrow> nat \<Rightarrow> nat \<Rightarrow> nat" where
  "grid t0 i now = t0 + ((now - t0) div i + 2) * i"

definition before_or :: "nat \<Rightarrow> nat \<Rightarrow> nat \<Rightarrow> nat \<Rightarrow> nat" where
  "before_or l s a b = (if l < s then a else b)"

definition clock_idle :: "nat \<Rightarrow> nat \<Rightarrow> nat \<Rightarrow> pause_data \<Rightarrow> nat \<Rightarrow> bool" where
  "clock_idle t0 i l p k \<longleftrightarrow> ts_start p = 0 \<and> ts_end p = 0 \<and> unat (ts_offset p) + k * i = l - t0 + i"

definition clock_pausing :: "nat \<Rightarrow> nat \<Rightarrow> nat \<Rightarrow> nat \<Rightarrow> pause_data \<Rightarrow> nat \<Rightarrow> bool" where
  "clock_pausing t0 i l ms p k \<longleftrightarrow>
     unat (ts_start p) = grid t0 i ms \<and> ts_start p \<noteq> 0 \<and> ts_end p = 0 \<and>
     unat (ts_offset p) + k * i = before_or l (unat (ts_start p)) (l - t0 + i) (unat (ts_start p) - t0)"

definition clock_ending :: "nat \<Rightarrow> nat \<Rightarrow> nat \<Rightarrow> nat \<Rightarrow> nat \<Rightarrow> pause_data \<Rightarrow> nat \<Rightarrow> bool" where
  "clock_ending t0 i l ms me p k \<longleftrightarrow>
     unat (ts_start p) = grid t0 i ms \<and> ts_start p \<noteq> 0 \<and>
     unat (ts_end p) = grid t0 i me \<and> ts_end p \<noteq> 0 \<and> l < unat (ts_end p) \<and>
     unat (ts_offset p) + k * i =
       before_or l (unat (ts_start p)) (l - t0 + i + (unat (ts_end p) - unat (ts_start p))) (unat (ts_end p) - t0)"

definition clock_inv :: "nat \<Rightarrow> nat \<Rightarrow> nat \<Rightarrow> nat \<Rightarrow> pause_data \<Rightarrow> nat \<Rightarrow> bool" where
  "clock_inv B t0 i m p k \<longleftrightarrow>
     (\<exists>n. unat (last_video_ts p) = t0 + n * i) \<and> unat (last_video_ts p) \<le> B \<and> t0 \<le> m \<and>
     (clock_idle t0 i (unat (last_video_ts p)) p k \<or>
      (\<exists>ms. t0 \<le> ms \<and> ms \<le> m \<and> clock_pausing t0 i (unat (last_video_ts p)) ms p k) \<or>
      (\<exists>ms me. t0 \<le> ms \<and> ms \<le> me \<and> me \<le> m \<and> clock_ending t0 i (unat (last_video_ts p)) ms me p k))"

lemma clock_inv_cases:
  assumes "clock_inv B t0 i m p k"
  obtains (idle) n where "unat (last_video_ts p) = t0 + n * i" "unat (last_video_ts p) \<le> B" "t0 \<le> m"
      "clock_idle t0 i (unat (last_video_ts p)) p k"
  | (pausing) n ms where "unat (last_video_ts p) = t0 + n * i" "unat (last_video_ts p) \<le> B" "t0 \<le> ms" "ms \<le> m"
      "clock_pausing t0 i (unat (last_video_ts p)) ms p k"
  | (ending) n ms me where "unat (last_video_ts p) = t0 + n * i" "unat (last_video_ts p) \<le> B" "t0 \<le> ms" "ms \<le> me"
      "me \<le> m" "clock_ending t0 i (unat (last_video_ts p)) ms me p k"
  using assms unfolding clock_inv_def by blast

lemma clock_invI:
  assumes "unat (last_video_ts p) = t0 + n * i" "unat (last_video_ts p) \<le> B" "t0 \<le> m"
    and "clock_idle t0 i (unat (last_video_ts p)) p k \<or>
      (\<exists>ms. t0 \<le> ms \<and> ms \<le> m \<and> clock_pausing t0 i (unat (last_video_ts p)) ms p k) \<or>
      (\<exists>ms me. t0 \<le> ms \<and> ms \<le> me \<and> me \<le> m \<and> clock_ending t0 i (unat (last_video_ts p)) ms me p k)"
  shows "clock_inv B t0 i m p k"
  using assms unfolding clock_inv_def by blast

lemma clock_inv_later: "clock_inv B t0 i m p k \<Longrightarrow> m \<le> m' \<Longrightarrow> clock_inv B t0 i m' p k"
  unfolding clock_inv_def by (meson order.trans)

lemmas clock_defs = clock_idle_def clock_pausing_def clock_ending_def

lemma closest_grid:
  assumes "0 < unat i" "unat (last_video_ts p) = t0 + n * unat i" "unat (last_video_ts p) \<le> unat now"
    "unat now + 2 * unat i < 2 ^ 64"
  shows "unat (get_closest_v_ts i now p) = grid t0 (unat i) (unat now)"
proof -
  have "unat now - t0 = (unat now - unat (last_video_ts p)) + n * unat i" using assms(2,3) by simp
  then have "(unat now - t0) div unat i = (unat now - unat (last_video_ts p)) div unat i + n"
    using assms(1) by simp
  then show ?thesis
    using closest_unat [OF assms(1,3,4)] assms(2) by (simp add: grid_def algebra_simps)
qed

lemma grid_eq: "grid t0 i now = t0 + (now - t0) div i * i + 2 * i"
  by (simp add: grid_def add_mult_distrib)

lemma grid_gt: "0 < i \<Longrightarrow> t0 \<le> now \<Longrightarrow> now + i < grid t0 i now"
  using dividend_less_div_times [of i "now - t0"] unfolding grid_eq by linarith

lemma grid_le: "t0 \<le> now \<Longrightarrow> grid t0 i now \<le> now + 2 * i"
  using div_times_less_eq_dividend [of "now - t0" i] unfolding grid_eq by linarith

lemma grid_mono: "a \<le> b \<Longrightarrow> grid t0 i a \<le> grid t0 i b"
  by (simp add: grid_def add_mono div_le_mono diff_le_mono)

text \<open>The next frame after \<open>l < g\<close> is at most \<open>g\<close>, for a \<open>g\<close> on the grid.\<close>

lemma grid_next:
  assumes "0 < i" "t0 + n * i < grid t0 i m"
  shows "t0 + n * i + i \<le> grid t0 i m"
proof -
  define q where "q = (m - t0) div i + 2"
  have g: "grid t0 i m = t0 + q * i" by (simp add: grid_def q_def)
  have "n * i < q * i" using assms(2) g by simp
  then have "Suc n \<le> q" by (simp add: mult_less_cancel2)
  then have "Suc n * i \<le> q * i" by (rule mult_le_mono1)
  then show ?thesis by (simp add: g)
qed


lemma clock_inv_frame:
  assumes inv: "clock_inv B t0 (unat i) m p k" and i: "0 < unat i"
    and ok: "unat (last_video_ts p) + unat i \<le> B" and B: "B + 2 * unat i < 2 ^ 64"
    and run: "video_pause_check p (last_video_ts p + i) = (p', ign)"
  shows "clock_inv B t0 (unat i) m p' (if ign then k else Suc k)"
    "unat (last_video_ts p') = unat (last_video_ts p) + unat i"
proof -
  let ?s = "unat (ts_start p)" and ?e = "unat (ts_end p)" and ?i = "unat i"
  have L: "unat (last_video_ts p + i) = unat (last_video_ts p) + ?i"
    using ok B by (simp add: unat_add_lem [THEN iffD1])
  have r: "p' = (if ts_start p \<noteq> 0 \<and> unat (last_video_ts p) + ?i = ?e
                 then p\<lparr>last_video_ts := last_video_ts p + i, ts_start := 0, ts_end := 0\<rparr>
                 else p\<lparr>last_video_ts := last_video_ts p + i\<rparr>)"
    "ign = (ts_start p \<noteq> 0 \<and> unat (last_video_ts p) + ?i \<noteq> ?e \<and> ?s \<le> unat (last_video_ts p) + ?i)"
    using run L by (auto simp: video_pause_check_def Let_def word_le_nat_alt word_unat_eq_iff split: if_splits)
  then show "unat (last_video_ts p') = unat (last_video_ts p) + unat i" using L by simp
  show "clock_inv B t0 ?i m p' (if ign then k else Suc k)"
    using inv
  proof (cases rule: clock_inv_cases)
    case (idle n)
    have "unat (last_video_ts p') = t0 + Suc n * ?i" using idle r L by (simp add: clock_defs)
    moreover have "clock_idle t0 ?i (unat (last_video_ts p')) p' (if ign then k else Suc k)"
      using idle r L by (simp add: clock_defs)
    ultimately show ?thesis using idle ok r L by (intro clock_invI [of p' t0 "Suc n"]) (simp_all add: clock_defs)
  next
    case (pausing n ms)
    let ?l = "unat (last_video_ts p)"
    have ns: "?l < ?s \<Longrightarrow> ?l + ?i \<le> ?s" using grid_next [OF i, of t0 n ms] pausing by (simp add: clock_defs)
    have p': "p' = p\<lparr>last_video_ts := last_video_ts p + i\<rparr>" "ign = (?s \<le> ?l + ?i)"
      using r pausing i by (auto simp: clock_defs)
    have tl: "t0 \<le> ?l" using pausing by simp
    have "unat (ts_offset p) + (if ign then k else Suc k) * ?i =
        before_or (?l + ?i) ?s (?l + ?i - t0 + ?i) (?s - t0)"
      using pausing(5) ns tl unfolding p'(2) clock_defs before_or_def by (simp split: if_splits) arith
    then have "clock_pausing t0 ?i (unat (last_video_ts p')) ms p' (if ign then k else Suc k)"
      using pausing L p'(1) by (simp add: clock_defs)
    then show ?thesis using pausing ok L p'(1) by (intro clock_invI [of p' t0 "Suc n"]) auto
  next
    case (ending n ms me)
    let ?l = "unat (last_video_ts p)"
    have ns: "?l < ?s \<Longrightarrow> ?l + ?i \<le> ?s" using grid_next [OF i, of t0 n ms] ending by (simp add: clock_defs)
    have ne: "?l + ?i \<le> ?e" using grid_next [OF i, of t0 n me] ending by (simp add: clock_defs)
    have se: "?s \<le> ?e" using grid_mono [OF ending(4)] ending by (simp add: clock_defs)
    have tl: "t0 \<le> ?l" using ending by simp
    show ?thesis
    proof (cases "?l + ?i = ?e")
      case True
      have p': "p' = p\<lparr>last_video_ts := last_video_ts p + i, ts_start := 0, ts_end := 0\<rparr>" "ign = False"
        using r ending True by (auto simp: clock_defs)
      have "unat (ts_offset p) + Suc k * ?i = ?l + ?i - t0 + ?i"
        using ending(6) ns True se tl unfolding clock_defs before_or_def by (simp split: if_splits) arith+
      then have "clock_idle t0 ?i (unat (last_video_ts p')) p' (if ign then k else Suc k)"
        using L p' by (simp add: clock_defs)
      then show ?thesis using ending ok L p'(1) by (intro clock_invI [of p' t0 "Suc n"]) auto
    next
      case False
      have p': "p' = p\<lparr>last_video_ts := last_video_ts p + i\<rparr>" "ign = (?s \<le> ?l + ?i)"
        using r ending False by (auto simp: clock_defs)
      have "unat (ts_offset p) + (if ign then k else Suc k) * ?i =
          before_or (?l + ?i) ?s (?l + ?i - t0 + ?i + (?e - ?s)) (?e - t0)"
        using ending(6) ns se tl unfolding p'(2) clock_defs before_or_def by (simp split: if_splits) arith+
      then have "clock_ending t0 ?i (unat (last_video_ts p')) ms me p' (if ign then k else Suc k)"
        using ending L p'(1) ne False by (simp add: clock_defs)
      then show ?thesis using ending ok L p'(1) by (intro clock_invI [of p' t0 "Suc n"]) auto
    qed
  qed
qed

lemma clock_inv_pause:
  assumes inv: "clock_inv B t0 (unat i) m p k" and i: "0 < unat i"
    and now: "unat (last_video_ts p) \<le> unat now" "m \<le> unat now" "unat now \<le> B" and B: "B + 2 * unat i < 2 ^ 64"
  shows "clock_inv B t0 (unat i) (unat now) (fst (obs_raw_output_pause i now p True)) k"
  using inv
proof (cases rule: clock_inv_cases)
  case (idle n)
  have g: "unat (get_closest_v_ts i now p) = grid t0 (unat i) (unat now)"
    using idle now B by (intro closest_grid [OF i, of p t0 n]) auto
  have gt: "unat now + unat i < grid t0 (unat i) (unat now)" using idle now by (intro grid_gt [OF i]) simp
  then have z: "get_closest_v_ts i now p \<noteq> 0" using g by auto
  have p': "fst (obs_raw_output_pause i now p True) = p\<lparr>ts_start := get_closest_v_ts i now p\<rparr>"
    using idle by (simp add: obs_raw_output_pause_def pause_can_start_def Let_def clock_defs)
  have "clock_pausing t0 (unat i) (unat (last_video_ts p)) (unat now) (p\<lparr>ts_start := get_closest_v_ts i now p\<rparr>) k"
    using idle g gt now z by (simp add: clock_defs before_or_def)
  then show ?thesis unfolding p' using idle now by (intro clock_invI [of _ t0 n]) auto
qed (use clock_inv_later [OF inv now(2)] in \<open>simp_all add: obs_raw_output_pause_def pause_can_start_def clock_defs\<close>)

lemma clock_inv_unpause:
  assumes inv: "clock_inv B t0 (unat i) m p k" and i: "0 < unat i"
    and now: "unat (last_video_ts p) \<le> unat now" "m \<le> unat now" "unat now \<le> B" and B: "B + 2 * unat i < 2 ^ 64"
  shows "clock_inv B t0 (unat i) (unat now) (fst (obs_raw_output_pause i now p False)) k"
  using inv
proof (cases rule: clock_inv_cases)
  case (pausing n ms)
  let ?g = "get_closest_v_ts i now p" and ?s = "ts_start p" and ?off = "ts_offset p" and ?l = "unat (last_video_ts p)"
  have g: "unat ?g = grid t0 (unat i) (unat now)"
    using pausing now B by (intro closest_grid [OF i, of p t0 n]) auto
  have t0: "t0 \<le> unat now" using pausing now by simp
  have gt: "unat now + unat i < unat ?g" unfolding g by (rule grid_gt [OF i t0])
  have gle: "unat ?g < 2 ^ 64" using grid_le [OF t0, of "unat i"] now B unfolding g by linarith
  have ss: "unat ?s = grid t0 (unat i) ms" using pausing by (simp add: clock_defs)
  have se: "unat ?s \<le> unat ?g" using grid_mono [of ms "unat now" t0 "unat i"] pausing now(2) g ss by simp
  have sl: "t0 + unat i \<le> unat ?s" using grid_gt [OF i pausing(3)] pausing ss by simp
  have ns: "?l < unat ?s \<Longrightarrow> ?l + unat i \<le> unat ?s" using grid_next [OF i, of t0 n ms] pausing ss by simp
  have tl: "t0 \<le> ?l" using pausing by simp
  have d: "unat (?g - ?s) = unat ?g - unat ?s" using se by (simp add: unat_sub word_le_nat_alt)
  have c0: "unat ?off + k * unat i = before_or ?l (unat ?s) (?l - t0 + unat i) (unat ?s - t0)"
    using pausing by (simp add: clock_defs)
  then have "unat ?off + k * unat i \<le> unat ?s" using ns tl by (cases "?l < unat ?s") (simp_all add: before_or_def)
  then have os: "unat ?off \<le> unat ?s" by simp
  have off: "unat (?off + (?g - ?s)) = unat ?off + (unat ?g - unat ?s)"
    using se gle os d by (subst unat_add_lem [THEN iffD1]) simp_all
  have c: "unat (?off + (?g - ?s)) + k * unat i =
      before_or ?l (unat ?s) (?l - t0 + unat i + (unat ?g - unat ?s)) (unat ?g - t0)"
    using c0 se sl tl unfolding off before_or_def by (simp split: if_splits)
  have p': "fst (obs_raw_output_pause i now p False) = p\<lparr>ts_end := ?g, ts_offset := ?off + (?g - ?s)\<rparr>"
    using pausing by (simp add: obs_raw_output_pause_def pause_can_stop_def end_pause_def Let_def clock_defs)
  have z: "?g \<noteq> 0" using gt by auto
  have "clock_ending t0 (unat i) ?l ms (unat now) (p\<lparr>ts_end := ?g, ts_offset := ?off + (?g - ?s)\<rparr>) k"
    using pausing now gt g c z ss by (simp add: clock_defs)
  then show ?thesis unfolding p' using pausing now by (intro clock_invI [of _ t0 n]) auto
qed (use clock_inv_later [OF inv now(2)] in \<open>simp_all add: obs_raw_output_pause_def pause_can_stop_def clock_defs\<close>)

lemma clock_run_inv:
  "clock_inv B t0 (unat i) m p k \<Longrightarrow> 0 < unat i \<Longrightarrow> B + 2 * unat i < 2 ^ 64 \<Longrightarrow>
   clock_ok B (unat i) (unat (last_video_ts p)) m evs \<Longrightarrow>
   clock_run i p k evs = (p', k') \<Longrightarrow> \<exists>m'. clock_inv B t0 (unat i) m' p' k'"
proof (induction evs arbitrary: p k m)
  case (Cons ev evs)
  show ?case
  proof (cases ev)
    case Frame
    obtain p1 ign where v: "video_pause_check p (last_video_ts p + i) = (p1, ign)" by fastforce
    from clock_inv_frame [OF Cons.prems(1,2) _ Cons.prems(3) v] Cons.prems Frame v show ?thesis
      by (intro Cons.IH) auto
  next
    case (Pause_Request now)
    have l: "last_video_ts (fst (obs_raw_output_pause i now p True)) = last_video_ts p"
      by (simp add: obs_raw_output_pause_def Let_def)
    have "clock_inv B t0 (unat i) (unat now) (fst (obs_raw_output_pause i now p True)) k"
      using Cons.prems Pause_Request by (intro clock_inv_pause [OF Cons.prems(1,2)]) auto
    then show ?thesis using Cons.prems Pause_Request l by (intro Cons.IH) auto
  next
    case (Unpause_Request now)
    have l: "last_video_ts (fst (obs_raw_output_pause i now p False)) = last_video_ts p"
      by (simp add: obs_raw_output_pause_def Let_def end_pause_def)
    have "clock_inv B t0 (unat i) (unat now) (fst (obs_raw_output_pause i now p False)) k"
      using Cons.prems Unpause_Request by (intro clock_inv_unpause [OF Cons.prems(1,2)]) auto
    then show ?thesis using Cons.prems Unpause_Request l by (intro Cons.IH) auto
  qed
qed auto

text \<open>C20: Pausing leaves no gap in the video. Whatever pause and unpause requests arrive between
  the frames of a steady clock, once no pause is pending the frames let through, at one
  interval each, plus the accumulated \<open>ts_offset\<close> are exactly the time since the first
  frame: every pause takes out whole frames, and \<open>ts_offset\<close> is their time.\<close>

theorem pause_keeps_clock:
  assumes "0 < unat i" and "B + 2 * unat i < 2 ^ 64" and "unat t0 \<le> B"
    and "clock_ok B (unat i) (unat t0) (unat t0) evs"
    and "clock_run i \<lparr>last_video_ts = t0, ts_start = 0, ts_end = 0, ts_offset = 0\<rparr> 1 evs = (p, kept)"
    and "ts_start p = 0"
  shows "unat (ts_offset p) + kept * unat i = unat (last_video_ts p) - unat t0 + unat i"
proof -
  have c: "clock_inv B (unat t0) (unat i) (unat t0) \<lparr>last_video_ts = t0, ts_start = 0, ts_end = 0, ts_offset = 0\<rparr> 1"
    using assms(3) by (intro clock_invI [of _ _ 0]) (simp_all add: clock_defs)
  obtain m' where "clock_inv B (unat t0) (unat i) m' p kept"
    using clock_run_inv [OF c assms(1,2) _ assms(5)] assms(4) by auto
  then show ?thesis using assms(6) by (cases rule: clock_inv_cases) (simp_all add: clock_defs)
qed

theorem pause_keeps_clock_witness:
  "\<exists>p. clock_run 10 \<lparr>last_video_ts = 100, ts_start = 0, ts_end = 0, ts_offset = 0\<rparr> 1
     [Frame, Pause_Request 113, Frame, Frame, Frame, Unpause_Request 145, Frame, Frame, Frame] = (p, 5) \<and>
     unat (ts_offset p) + 5 * unat (10::u64) = unat (last_video_ts p) - unat (100::u64) + unat (10::u64)"
  using pause_keeps_clock [of 10 1000 100
      "[Frame, Pause_Request 113, Frame, Frame, Frame, Unpause_Request 145, Frame, Frame, Frame]"]
  by (simp add: video_pause_check_def obs_raw_output_pause_def get_closest_v_ts_def pause_can_start_def
      pause_can_stop_def end_pause_def word_le_nat_alt)


section \<open>A missed end of a pause\<close>

definition frames_ignored :: "pause_data \<Rightarrow> u64 list \<Rightarrow> pause_data \<times> bool list" where
  "frames_ignored p ts = fold (\<lambda>t (p, igns). let (p', ign) = video_pause_check p t in (p', igns @ [ign])) ts (p, [])"

lemma frames_ignored_stuck:
  assumes "ts_start p \<noteq> 0" "ts_start p \<le> ts_end p" "\<forall>t \<in> set ts. ts_end p < t"
  shows "\<exists>lv. fold (\<lambda>t (p, igns). let (p', ign) = video_pause_check p t in (p', igns @ [ign])) ts (p, igns)
    = (p\<lparr>last_video_ts := lv\<rparr>, igns @ replicate (length ts) True)"
  using assms
proof (induction ts arbitrary: p igns)
  case Nil
  show ?case by (intro exI [of _ "last_video_ts p"]) simp
next
  case (Cons t ts)
  have v: "video_pause_check p t = (p\<lparr>last_video_ts := t\<rparr>, True)"
  proof -
    have "ts_start p \<le> t" "t \<noteq> ts_end p" using Cons.prems by (auto intro: order.trans less_imp_le)
    then show ?thesis using Cons.prems(1) by (simp add: video_pause_check_def Let_def)
  qed
  from Cons.IH [of "p\<lparr>last_video_ts := t\<rparr>" "igns @ [True]"] Cons.prems obtain lv where
    "fold (\<lambda>t (p, igns). let (p', ign) = video_pause_check p t in (p', igns @ [ign])) ts
       (p\<lparr>last_video_ts := t\<rparr>, igns @ [True])
     = (p\<lparr>last_video_ts := lv\<rparr>, igns @ [True] @ replicate (length ts) True)" by auto
  then show ?case by (auto simp: v)
qed

text \<open>The end of a pause must be hit exactly. Once a frame after \<open>ts_end\<close> arrives without
  one at \<open>ts_end\<close>, every later frame is dropped and neither a pause nor an unpause request
  succeeds any more. \<open>ts_end\<close> is a multiple of the video interval after the last frame, so an
  encoder with a frame rate divisor, which only sees every n-th frame, can miss it.\<close>

theorem missed_pause_end_is_final:
  assumes "ts_start p \<noteq> 0" and "ts_start p \<le> ts_end p" and "\<forall>t \<in> set ts. ts_end p < t"
  shows "snd (frames_ignored p ts) = replicate (length ts) True \<and>
    \<not> snd (obs_raw_output_pause i now (fst (frames_ignored p ts)) pause)"
proof -
  obtain lv where "frames_ignored p ts = (p\<lparr>last_video_ts := lv\<rparr>, replicate (length ts) True)"
    using frames_ignored_stuck [OF assms, of "[]"] by (auto simp: frames_ignored_def)
  moreover have "ts_end p \<noteq> 0" using assms(1,2) by auto
  ultimately show ?thesis using assms(1)
    by (cases pause) (simp_all add: obs_raw_output_pause_def pause_can_start_def pause_can_stop_def Let_def)
qed

text \<open>Interval 10, the encoder sees 100, 120, 140, \<dots>; paused at 113 and resumed at 152.\<close>

theorem missed_pause_end_is_final_witness:
  "(let p1 = fst (obs_raw_output_pause 10 113 \<lparr>last_video_ts = 100, ts_start = 0, ts_end = 0, ts_offset = 0\<rparr> True);
        p2 = fst (frames_ignored p1 [120, 140]);
        p3 = fst (obs_raw_output_pause 10 152 p2 False);
        p4 = fst (frames_ignored p3 [160])
    in ts_end p3 = 170 \<and> snd (frames_ignored p4 [180, 200, 220, 240]) = [True, True, True, True])"
proof -
  let ?p4 = "\<lparr>last_video_ts = 160, ts_start = 130, ts_end = 170, ts_offset = 40\<rparr>"
  have "(let p1 = fst (obs_raw_output_pause 10 113 \<lparr>last_video_ts = 100, ts_start = 0, ts_end = 0, ts_offset = 0\<rparr> True);
        p2 = fst (frames_ignored p1 [120, 140]);
        p3 = fst (obs_raw_output_pause 10 152 p2 False)
    in (ts_end p3, fst (frames_ignored p3 [160]))) = (170, ?p4)" by code_simp
  moreover have "snd (frames_ignored ?p4 [180, 200, 220, 240]) = [True, True, True, True]"
    using missed_pause_end_is_final [of ?p4 "[180, 200, 220, 240]"] by simp
  ultimately show ?thesis by (auto simp: Let_def)
qed

section \<open>Cutting audio\<close>

lemma mul_div64_unat:
  assumes "unat n * unat m div unat d < 2 ^ 64" "unat d * unat m < 2 ^ 64" "0 < unat d"
  shows "unat (util_mul_div64 n m d) = unat n * unat m div unat d"
proof -
  let ?n = "unat n" and ?m = "unat m" and ?d = "unat d"
  have e: "?n * ?m = ?d * (?n div ?d * ?m) + (?n mod ?d) * ?m"
    by (simp only: mult.assoc [symmetric] add_mult_distrib [symmetric] mult_div_mod_eq)
  then have q: "?n * ?m div ?d = ?n div ?d * ?m + (?n mod ?d) * ?m div ?d"
    using assms(3) by simp
  have le: "(?n mod ?d) * ?m \<le> ?d * ?m" using assms(3) by (intro mult_le_mono1 less_imp_le) simp
  have "(?n mod ?d) * ?m < 2 ^ LENGTH(64)" using le_less_trans [OF le assms(2)] by simp
  then have r: "unat (n mod d * m) = (?n mod ?d) * ?m"
    by (subst unat_mult_lem [THEN iffD1]) (simp_all add: unat_mod)
  have l: "unat (n div d * m) = ?n div ?d * ?m"
    using assms(1) q by (subst unat_mult_lem [THEN iffD1]) (simp_all add: unat_div)
  have "unat (n div d * m) + unat (n mod d * m div d) < 2 ^ LENGTH(64)"
    using assms(1) q by (simp add: l r unat_div)
  then show ?thesis unfolding util_mul_div64_def Let_def
    by (simp add: unat_add_lem [THEN iffD1] l r unat_div q)
qed

text \<open>A cut inside the buffer is at most its frames.\<close>

lemma cutoff_le:
  fixes f :: u32
  assumes "0 < unat sr" "unat sr < 2 ^ 32"
    and "unat x \<le> unat (audio_frames_to_ns sr (ucast f))"
  shows "unat (ns_to_audio_frames sr x) \<le> unat f"
proof -
  let ?f = "unat f" and ?sr = "unat sr"
  have fb: "?f < 2 ^ LENGTH(32)" by (rule unsigned_less)
  then have f: "unat (ucast f :: u64) = ?f" by (simp add: unsigned_ucast_eq take_bit_nat_eq_self)
  have "?f < 2 ^ 32" using fb by simp
  then have fm: "?f * 1000000000 < 2 ^ 64" by simp
  have "unat (audio_frames_to_ns sr (ucast f)) = ?f * 1000000000 div ?sr"
    unfolding audio_frames_to_ns_def
    using fm assms(1,2) by (subst mul_div64_unat) (auto simp: f intro: le_less_trans [OF div_le_dividend])
  with assms(3) have "unat x * ?sr \<le> ?f * 1000000000"
    by (metis div_times_less_eq_dividend le_trans mult_le_mono1)
  then have le: "unat x * ?sr div 1000000000 \<le> ?f"
    by (metis div_le_mono nonzero_mult_div_cancel_right zero_neq_numeral)
  moreover have "unat (ns_to_audio_frames sr x) = unat x * ?sr div 1000000000"
    unfolding ns_to_audio_frames_def
    using le \<open>?f < 2 ^ 32\<close> assms(2) by (subst mul_div64_unat) auto
  ultimately show ?thesis by simp
qed

text \<open>What is left of an audio buffer after a pause check lies inside the buffer: the
  pointers move by some number of samples, and that number and the new frame count are
  together at most the old frame count, so neither the subtraction of the frames wraps nor
  is anything read past the end.\<close>

theorem audio_pause_within_buffer:
  assumes "0 < unat sr" and "unat sr < 2 ^ 32"
    and "unat (ad_timestamp d) + unat (audio_frames_to_ns sr (ucast (ad_frames d))) < 2 ^ 64"
    and "audio_pause_check p d sr = (p', d', ign)"
  shows "\<exists>n. ad_data d' = map (drop n) (ad_data d) \<and> n + unat (ad_frames d') \<le> unat (ad_frames d)"
proof -
  let ?dur = "audio_frames_to_ns sr (ucast (ad_frames d))" and ?t = "ad_timestamp d"
  obtain d0 where i: "audio_pause_check_internal p d sr = (p', d0, ign)"
    "ad_data d' = ad_data d0" "ad_frames d' = ad_frames d0"
    using assms(4) by (auto simp: audio_pause_check_def Let_def split: prod.splits)
  have e: "unat (?t + ?dur) = unat ?t + unat ?dur" using assms(3) by (simp add: unat_add_lem [THEN iffD1])
  have cut: "unat (ns_to_audio_frames sr (x - ?t)) \<le> unat (ad_frames d)" if "?t \<le> x" "x \<le> ?t + ?dur" for x
    using that e by (intro cutoff_le [OF assms(1,2)]) (simp add: unat_sub word_le_nat_alt)
  have small: "unat (ucast y :: u32) = unat y" if "unat y \<le> unat (ad_frames d)" for y :: u64
  proof -
    have "unat (ad_frames d) < 2 ^ LENGTH(32)" by (rule unsigned_less)
    with that show ?thesis by (simp add: unsigned_ucast_eq take_bit_nat_eq_self)
  qed
  have same: "ad_data d = map (drop 0) (ad_data d)" by simp
  show ?thesis
  proof (cases "ts_start p = 0 \<or> \<not> (ts_start p \<ge> ?t \<and> ts_start p \<le> ?t + ?dur) \<and>
      \<not> (ts_start p < ?t \<and> ts_end p \<ge> ?t \<and> ts_end p \<le> ?t + ?dur)")
    case True
    then have "d0 = d" using i(1) by (auto simp: audio_pause_check_internal_def Let_def split: if_splits)
    then show ?thesis using i same by (intro exI [of _ 0]) simp
  next
    case False
    show ?thesis
    proof (cases "ts_start p \<ge> ?t")
      case True
      with False have c: "unat (ns_to_audio_frames sr (ts_start p - ?t)) \<le> unat (ad_frames d)" by (intro cut) auto
      have "d0 = pause_audio p d sr" using i(1) False True
        by (auto simp: audio_pause_check_internal_def Let_def split: if_splits)
      then show ?thesis using c small i by (intro exI [of _ 0]) (simp add: pause_audio_def)
    next
      case st: False
      with False have c: "unat (ns_to_audio_frames sr (ts_end p - ?t)) \<le> unat (ad_frames d)" by (intro cut) auto
      have "d0 = snd (unpause_audio p d sr)" using i(1) False st
        by (auto simp: audio_pause_check_internal_def Let_def split: if_splits prod.splits)
      then show ?thesis using c small [OF c] i
        by (intro exI [of _ "unat (ns_to_audio_frames sr (ts_end p - ?t))"])
          (simp add: unpause_audio_def unat_sub word_le_nat_alt Let_def)
    qed
  qed
qed

theorem audio_pause_within_buffer_witness:
  "\<exists>p' d' ign n. audio_pause_check \<lparr>last_video_ts = 0, ts_start = 1000, ts_end = 500010000000, ts_offset = 0\<rparr>
      \<lparr>ad_data = [[1::nat, 2, 3]], ad_frames = 1024, ad_timestamp = 500000000000\<rparr> 48000 = (p', d', ign) \<and>
    ad_data d' = map (drop n) [[1, 2, 3]] \<and> n + unat (ad_frames d') \<le> 1024"
proof -
  obtain p' d' ign where r: "audio_pause_check \<lparr>last_video_ts = 0, ts_start = 1000, ts_end = 500010000000, ts_offset = 0\<rparr>
      \<lparr>ad_data = [[1::nat, 2, 3]], ad_frames = 1024, ad_timestamp = 500000000000\<rparr> 48000 = (p', d', ign)"
    using prod_cases3 by blast
  show ?thesis using audio_pause_within_buffer [OF _ _ _ r] r
    by (simp add: audio_frames_to_ns_def util_mul_div64_def)
qed

end
