(* ===== verification/Output_Life.thy ===== *)
theory Output_Life
  imports Interleave Deque Pause
begin

text \<open>
  The life cycle of an output (\<open>libobs/obs-output.c\<close>: start, stop, begin and end of the data
  capture, reconnection) and its stream delay (\<open>libobs/obs-output-delay.c\<close>).

  Each API call, plugin call and body of a thread is one step on the state; it is
  \<^term>\<open>None\<close> where the code would wait for an event that nothing pending signals (or leave
  the ring buffer). The plugin's \<open>info.start\<close> and \<open>info.stop\<close> are calls out of the core:
  they appear in the trace, \<open>info.start\<close> with the result the environment gives, and what the
  plugin does in response (\<open>obs_output_begin_data_capture\<close>, \<open>obs_output_end_data_capture\<close>,
  \<open>obs_output_signal_stop\<close>) are steps of their own. Log output, frame statistics and the last
  error message are left out.
\<close>

section \<open>State\<close>

datatype delay_msg = DELAY_MSG_PACKET | DELAY_MSG_START | DELAY_MSG_STOP

record delay_data =
  dd_msg :: delay_msg
  dd_ts :: u64
  dd_packet :: encoder_packet
  dd_packet_time :: "encoder_packet_time option"

definition zero_packet :: encoder_packet where
  "zero_packet =
     \<lparr>pk_data = [], pk_pts = 0, pk_dts = 0, pk_timebase_num = 0, pk_timebase_den = 0,
      pk_type = OBS_ENCODER_AUDIO, pk_keyframe = False, pk_dts_usec = 0, pk_sys_dts_usec = 0,
      pk_priority = 0, pk_drop_priority = 0, pk_track_idx = 0, pk_encoder = 0\<rparr>"

text \<open>The callback an output hands to its encoders.\<close>

datatype callback_kind = CB_interleave | CB_default | CB_delay | CB_raw

datatype output_event =
    Signal string | Signal_Stop int | Signal_Reconnect u32
  | Plugin_Start bool | Plugin_Stop u64 | Released encoder_packet

abbreviation (input) OBS_OUTPUT_SUCCESS :: int where "OBS_OUTPUT_SUCCESS \<equiv> 0"
abbreviation (input) OBS_OUTPUT_DISCONNECTED :: int where "OBS_OUTPUT_DISCONNECTED \<equiv> -5"
abbreviation (input) RECONNECT_RETRY_MAX_MSEC :: u32 where "RECONNECT_RETRY_MAX_MSEC \<equiv> 900000"

text \<open>\<open>ol_il\<close> holds the fields of \<open>struct obs_output\<close> that the interleaver uses, \<open>active\<close>
  included; \<open>ol_attached\<close> the callbacks registered with the encoders.\<close>

record out_life =
  ol_il :: obs_output
  ol_pause :: pausable_output
  ol_has_data :: bool
  ol_encoded :: bool
  ol_video :: bool
  ol_audio :: bool
  ol_service :: bool
  ol_data_active :: bool
  ol_end_thread :: bool
  ol_stopping_event :: bool
  ol_stop_code :: int
  reconnect_retry_sec :: int
  reconnect_retry_max :: int
  reconnect_retries :: int
  reconnect_retry_cur_msec :: u32
  reconnect_stop_event :: bool
  reconnecting :: bool
  reconnect_thread_active :: bool
  active_delay_ns :: u64
  delay_callback :: callback_kind
  delay_queue :: "delay_data deque"
  delay_sec :: u32
  delay_flags :: u32
  delay_cur_flags :: u32
  delay_restart_refs :: int
  delay_active :: bool
  delay_capturing :: bool
  ol_attached :: "callback_kind list"
  ol_events :: "output_event list"

text \<open>
  What the output asks of the rest of the system: the interleaver's environment, whether the
  plugin starts, whether the service and the encoders initialise, whether media sources are
  present, the reconnect callback, the growth of the retry time (\<open>float\<close> arithmetic) and
  whether threads can be created.
\<close>

record life_env =
  le_il :: output_env
  le_start :: "out_life \<Rightarrow> bool"
  le_service_ready :: bool
  le_encoders_init :: bool
  le_media_valid :: bool
  le_reconnect_cb :: "int \<Rightarrow> bool"
  le_retry_scale :: "u32 \<Rightarrow> u32"
  le_end_thread_created :: bool
  le_reconnect_thread_created :: bool
  le_frame_interval :: u64
  le_now :: u64
  le_batch_intervals :: "u64 list"

definition active :: "out_life \<Rightarrow> bool" where
  "active out = out_active (ol_il out)"

definition set_active :: "bool \<Rightarrow> out_life \<Rightarrow> out_life" where
  "set_active b out = out\<lparr>ol_il := (ol_il out)\<lparr>out_active := b\<rparr>\<rparr>"

definition stopping :: "out_life \<Rightarrow> bool" where
  "stopping out = (\<not> ol_stopping_event out)"

definition do_output_signal :: "string \<Rightarrow> out_life \<Rightarrow> out_life" where
  "do_output_signal s out = out\<lparr>ol_events := ol_events out @ [Signal s]\<rparr>"

definition signal_stop :: "out_life \<Rightarrow> out_life" where
  "signal_stop out = out\<lparr>ol_events := ol_events out @ [Signal_Stop (ol_stop_code out)]\<rparr>"

definition signal_reconnect :: "out_life \<Rightarrow> out_life" where
  "signal_reconnect out = out\<lparr>ol_events := ol_events out @ [Signal_Reconnect (reconnect_retry_cur_msec out div 1000)]\<rparr>"

section \<open>The delay queue\<close>

definition obs_output_set_delay :: "out_life \<Rightarrow> u32 \<Rightarrow> u32 \<Rightarrow> out_life" where
  "obs_output_set_delay out sec flags =
     (if \<not> ol_encoded out then out else out\<lparr>delay_sec := sec, delay_flags := flags\<rparr>)"

definition obs_output_get_delay :: "out_life \<Rightarrow> u32" where
  "obs_output_get_delay out = delay_sec out"

definition obs_output_get_active_delay :: "out_life \<Rightarrow> u32" where
  "obs_output_get_active_delay out = ucast (active_delay_ns out div 1000000000)"

definition push_delay :: "delay_data \<Rightarrow> out_life \<Rightarrow> out_life option" where
  "push_delay dd out = map_option (\<lambda>q. out\<lparr>delay_queue := q\<rparr>) (deque_push_back (delay_queue out) [dd])"

definition push_packet ::
    "out_life \<Rightarrow> encoder_packet \<Rightarrow> encoder_packet_time option \<Rightarrow> u64 \<Rightarrow> out_life option" where
  "push_packet out packet packet_time t =
     push_delay \<lparr>dd_msg = DELAY_MSG_PACKET, dd_ts = t, dd_packet = packet, dd_packet_time = packet_time\<rparr> out"

text \<open>One packet of the queue is released (drained on cleanup) per round; the fuel is the
  length of the queue.\<close>

fun drain_delay :: "nat \<Rightarrow> out_life \<Rightarrow> out_life option" where
  "drain_delay 0 out = (if dq_size (delay_queue out) = 0 then Some out else None)"
| "drain_delay (Suc n) out =
     (if dq_size (delay_queue out) = 0 then Some out
      else do {
        (cells, q) \<leftarrow> deque_pop_front (delay_queue out) True 1;
        dd \<leftarrow> Option.bind (those cells) (\<lambda>xs. Some (hd xs));
        drain_delay n
          (out\<lparr>delay_queue := q,
             ol_events := ol_events out @ (if dd_msg dd = DELAY_MSG_PACKET then [Released (dd_packet dd)] else [])\<rparr>)
      })"

definition obs_output_cleanup_delay :: "out_life \<Rightarrow> out_life option" where
  "obs_output_cleanup_delay out =
     map_option (\<lambda>out. out\<lparr>active_delay_ns := 0, delay_restart_refs := 0\<rparr>)
       (drain_delay (dq_size (delay_queue out)) out)"

section \<open>Ending the data capture\<close>

definition base_callback :: "out_life \<Rightarrow> callback_kind" where
  "base_callback out = (if ol_video out \<and> ol_audio out then CB_interleave else CB_default)"

text \<open>\<open>obs_encoder_start\<close> and \<open>obs_encoder_stop\<close>, as far as the callbacks of this output go.\<close>

definition start_encoders :: "callback_kind \<Rightarrow> out_life \<Rightarrow> out_life" where
  "start_encoders cb out =
     (if (ol_video out \<or> ol_audio out) \<and> cb \<notin> set (ol_attached out)
      then out\<lparr>ol_attached := ol_attached out @ [cb]\<rparr> else out)"

definition stop_encoders :: "callback_kind \<Rightarrow> out_life \<Rightarrow> out_life" where
  "stop_encoders cb out =
     (if ol_video out \<or> ol_audio out then out\<lparr>ol_attached := remove1 cb (ol_attached out)\<rparr> else out)"

definition end_data_capture_thread :: "out_life \<Rightarrow> out_life option" where
  "end_data_capture_thread out = do {
     let out = (if ol_encoded out
              then stop_encoders (if active_delay_ns out \<noteq> 0 then CB_delay else base_callback out) out
              else stop_encoders CB_raw out);
     out \<leftarrow> (if active_delay_ns out \<noteq> 0 then obs_output_cleanup_delay out else Some out);
     Some ((set_active False (do_output_signal ''deactivate'' out))
             \<lparr>ol_stopping_event := True, ol_end_thread := False\<rparr>)
   }"

text \<open>\<open>pthread_join\<close> of the ending thread: its body runs to completion first.\<close>

definition join_end_thread :: "out_life \<Rightarrow> out_life option" where
  "join_end_thread out = (if ol_end_thread out then end_data_capture_thread out else Some out)"

definition obs_output_end_data_capture_internal :: "life_env \<Rightarrow> out_life \<Rightarrow> bool \<Rightarrow> out_life option" where
  "obs_output_end_data_capture_internal E out signal =
     (if \<not> active out \<or> \<not> ol_data_active out
      then Some (if signal then (signal_stop out)\<lparr>ol_stop_code := OBS_OUTPUT_SUCCESS, ol_stopping_event := True\<rparr>
                 else out)
      else if delay_active out \<and> delay_restart_refs out \<noteq> 0
      then Some (out\<lparr>delay_capturing := False, ol_stopping_event := True\<rparr>)
      else do {
        let out = (if delay_active out then out\<lparr>delay_capturing := False, delay_active := False\<rparr> else out);
        out \<leftarrow> join_end_thread (out\<lparr>ol_data_active := False\<rparr>);
        out \<leftarrow> (if le_end_thread_created E then Some (out\<lparr>ol_end_thread := True\<rparr>)
              else end_data_capture_thread (out\<lparr>ol_end_thread := True\<rparr>));
        Some (if signal then (signal_stop out)\<lparr>ol_stop_code := OBS_OUTPUT_SUCCESS\<rparr> else out)
      })"

definition obs_output_end_data_capture :: "life_env \<Rightarrow> out_life \<Rightarrow> out_life option" where
  "obs_output_end_data_capture E out = obs_output_end_data_capture_internal E out True"


section \<open>Starting and stopping\<close>

text \<open>\<open>os_event_wait\<close> on the stopping event: if it is not signalled, the pending end of the
  data capture is waited for; without one the call blocks.\<close>

definition wait_stopping :: "out_life \<Rightarrow> out_life option" where
  "wait_stopping out =
     (if ol_stopping_event out then Some out
      else if ol_end_thread out then end_data_capture_thread out else None)"

definition obs_output_actual_start :: "life_env \<Rightarrow> out_life \<Rightarrow> (out_life \<times> bool) option" where
  "obs_output_actual_start E out = do {
     out \<leftarrow> wait_stopping out;
     let out = out\<lparr>ol_stop_code := 0\<rparr>;
     let success = (ol_has_data out \<and> le_start E out);
     let out = (if ol_has_data out then out\<lparr>ol_events := ol_events out @ [Plugin_Start success]\<rparr> else out);
     let out = (if delay_restart_refs out \<noteq> 0
                then out\<lparr>delay_restart_refs := delay_restart_refs out - 1\<rparr> else out);
     let il = ol_il out;
     Some (out\<lparr>ol_il := il\<lparr>caption_tracks :=
                 map (\<lambda>ct. ct\<lparr>caption_timestamp := 0, caption_data := []\<rparr>) (caption_tracks il)\<rparr>\<rparr>, success)
   }"

text \<open>The join of the reconnect thread: its timed wait ends because the event is signalled, so
  it does not start the output and clears \<open>reconnecting\<close>.\<close>

definition join_reconnect :: "out_life \<Rightarrow> out_life" where
  "join_reconnect out =
     (if reconnect_thread_active out
      then out\<lparr>reconnecting := False, reconnect_thread_active := False\<rparr> else out)"

definition unpause_output :: "life_env \<Rightarrow> out_life \<Rightarrow> out_life" where
  "unpause_output E out =
     out\<lparr>ol_pause := fst (obs_output_pause (le_frame_interval E) (le_now E)
                        ((ol_pause out)\<lparr>po_active := active out\<rparr>) False)\<rparr>"

definition obs_output_actual_stop :: "life_env \<Rightarrow> out_life \<Rightarrow> bool \<Rightarrow> u64 \<Rightarrow> out_life option" where
  "obs_output_actual_stop E out force ts =
     (if stopping out \<and> \<not> force then Some out
      else do {
        let out = (unpause_output E out)\<lparr>ol_stopping_event := False\<rparr>;
        let was_reconnecting = (reconnecting out \<and> \<not> delay_active out);
        let out = (if reconnecting out then join_reconnect (out\<lparr>reconnect_stop_event := True\<rparr>) else out);
        let delayed = (force \<and> delay_active out);
        let call_stop = (if delayed then delay_capturing out else True);
        out \<leftarrow> (if delayed
               then map_option (\<lambda>out. out\<lparr>ol_stopping_event := True\<rparr>)
                      (obs_output_end_data_capture E
                         (out\<lparr>delay_active := False, delay_capturing := False,
                              ol_stop_code := OBS_OUTPUT_SUCCESS\<rparr>))
               else Some out);
        let out = (if ol_has_data out \<and> call_stop
                   then out\<lparr>ol_events := ol_events out @ [Plugin_Stop ts]\<rparr>
                   else if was_reconnecting
                   then (signal_stop (out\<lparr>ol_stop_code := OBS_OUTPUT_SUCCESS\<rparr>))\<lparr>ol_stopping_event := True\<rparr>
                   else out);
        let il = ol_il out;
        Some (out\<lparr>ol_il := il\<lparr>caption_tracks := map (\<lambda>ct. ct\<lparr>caption_head := []\<rparr>) (caption_tracks il),
                               keyframe_group_tracking := []\<rparr>\<rparr>)
      })"

definition obs_output_delay_stop :: "out_life \<Rightarrow> u64 \<Rightarrow> out_life option" where
  "obs_output_delay_stop out now =
     map_option (do_output_signal ''stopping'')
       (push_delay \<lparr>dd_msg = DELAY_MSG_STOP, dd_ts = now, dd_packet = zero_packet, dd_packet_time = None\<rparr> out)"

definition obs_output_force_stop :: "life_env \<Rightarrow> out_life \<Rightarrow> out_life option" where
  "obs_output_force_stop E out =
     (let out = (if \<not> stopping out then do_output_signal ''stopping'' (out\<lparr>ol_stop_code := 0\<rparr>) else out)
      in obs_output_actual_stop E out True 0)"

definition obs_output_stop :: "life_env \<Rightarrow> out_life \<Rightarrow> out_life option" where
  "obs_output_stop E out =
     (if \<not> ol_has_data out then Some out
      else if \<not> active out \<and> \<not> reconnecting out then Some out
      else if reconnecting out then obs_output_force_stop E out
      else if ol_encoded out \<and> active_delay_ns out \<noteq> 0 then obs_output_delay_stop out (le_now E)
      else if \<not> stopping out then obs_output_actual_stop E (do_output_signal ''stopping'' out) False (le_now E)
      else Some out)"

section \<open>Beginning the data capture\<close>

definition can_begin_data_capture :: "life_env \<Rightarrow> out_life \<Rightarrow> bool" where
  "can_begin_data_capture E out = le_media_valid E"

definition obs_output_can_begin_data_capture :: "life_env \<Rightarrow> out_life \<Rightarrow> (out_life \<times> bool) option" where
  "obs_output_can_begin_data_capture E out =
     (if delay_active out then Some (out, True)
      else if active out then Some (out, False)
      else map_option (\<lambda>out. (out, can_begin_data_capture E out)) (join_end_thread out))"

definition obs_output_initialize_encoders :: "life_env \<Rightarrow> out_life \<Rightarrow> bool" where
  "obs_output_initialize_encoders E out =
     (if \<not> ol_encoded out then False
      else if active out then delay_active out
      else le_encoders_init E)"

definition reset_packets :: "out_life \<Rightarrow> out_life" where
  "reset_packets out = out\<lparr>ol_il := reset_packet_data (ol_il out)\<rparr>"

definition begin_delayed_capture :: "out_life \<Rightarrow> out_life \<times> bool" where
  "begin_delayed_capture out =
     (if delay_capturing out then (out, False)
      else let out = (reset_packets out)\<lparr>delay_capturing := True\<rparr>
           in if reconnecting out
              then ((do_output_signal ''reconnect_success'' out)\<lparr>reconnecting := False\<rparr>, True)
              else (do_output_signal ''start'' out, True))"

definition hook_data_capture :: "out_life \<Rightarrow> out_life" where
  "hook_data_capture out =
     (if ol_encoded out
      then let out = reset_packets out;
               encoded_callback = base_callback out;
               (out, encoded_callback) =
                 (if delay_sec out \<noteq> 0
                  then (out\<lparr>active_delay_ns := ucast (delay_sec out) * 1000000000,
                            delay_cur_flags := delay_flags out, delay_callback := encoded_callback,
                            delay_active := True\<rparr>, CB_delay)
                  else (out, encoded_callback))
           in start_encoders encoded_callback out
      else start_encoders CB_raw out)"

text \<open>The batch limit of the interleaver from the packet intervals of the encoders (none 0).\<close>

definition calculate_batch_size :: "u64 list \<Rightarrow> out_life \<Rightarrow> out_life" where
  "calculate_batch_size intervals out =
     (let largest_interval = fold max intervals 0
      in fold (\<lambda>iv out. let il = ol_il out
               in out\<lparr>ol_il := il\<lparr>interleaver_max_batch_size :=
                        interleaver_max_batch_size il + unat (largest_interval * 2 div iv)\<rparr>\<rparr>) intervals out)"

definition obs_output_begin_data_capture :: "life_env \<Rightarrow> out_life \<Rightarrow> out_life \<times> bool" where
  "obs_output_begin_data_capture E out =
     (if delay_active out then begin_delayed_capture out
      else if active out then (out, False)
      else
        let il = ol_il out;
            out = out\<lparr>ol_il := il\<lparr>total_frames := 0\<rparr>\<rparr>;
            out = (if \<not> ol_encoded out
                   then out\<lparr>ol_pause := (ol_pause out)\<lparr>po_pause := pause_reset (po_pause (ol_pause out))\<rparr>\<rparr>
                   else out)
        in if \<not> can_begin_data_capture E out then (out, False)
           else
             let out = calculate_batch_size (le_batch_intervals E)
                         (hook_data_capture (out\<lparr>ol_data_active := True\<rparr>));
                 out = set_active True (do_output_signal ''activate'' out)
             in if reconnecting out
                then ((do_output_signal ''reconnect_success'' out)\<lparr>reconnecting := False\<rparr>, True)
                else if delay_active out then (do_output_signal ''starting'' out, True)
                else (do_output_signal ''start'' out, True))"

definition obs_output_delay_start :: "life_env \<Rightarrow> out_life \<Rightarrow> (out_life \<times> bool) option" where
  "obs_output_delay_start E out = do {
     (out, ready) \<leftarrow> (if delay_active out then Some (out, True)
                     else do {
                       (out, can_begin) \<leftarrow> obs_output_can_begin_data_capture E out;
                       Some (out, can_begin \<and> obs_output_initialize_encoders E out)
                     });
     if \<not> ready then Some (out, False)
     else do {
       out \<leftarrow> push_delay \<lparr>dd_msg = DELAY_MSG_START, dd_ts = le_now E, dd_packet = zero_packet,
                           dd_packet_time = None\<rparr> out;
       let out = out\<lparr>delay_restart_refs := delay_restart_refs out + 1\<rparr>;
       if delay_active out then Some (do_output_signal ''starting'' out, True)
       else let (out, begun) = obs_output_begin_data_capture E out
            in if begun then Some (out, True)
               else map_option (\<lambda>out. (out, False)) (obs_output_cleanup_delay out)
     }
   }"

definition obs_output_start :: "life_env \<Rightarrow> out_life \<Rightarrow> (out_life \<times> bool) option" where
  "obs_output_start E out =
     (if \<not> ol_has_data out then Some (out, False)
      else if ol_service out \<and> \<not> le_service_ready E then Some (out, False)
      else if delay_sec out \<noteq> 0 then obs_output_delay_start E out
      else do {
        (out, success) \<leftarrow> obs_output_actual_start E out;
        Some (if success then do_output_signal ''starting'' out else out, success)
      })"

section \<open>Reconnecting\<close>

definition obs_output_set_reconnect_settings :: "out_life \<Rightarrow> int \<Rightarrow> int \<Rightarrow> out_life" where
  "obs_output_set_reconnect_settings out retry_count retry_sec =
     out\<lparr>reconnect_retry_max := retry_count, reconnect_retry_sec := retry_sec\<rparr>"

definition reconnect_thread :: "life_env \<Rightarrow> out_life \<Rightarrow> out_life option" where
  "reconnect_thread E out = do {
     let timed_out = (\<not> reconnect_stop_event out);
     out \<leftarrow> (if timed_out then map_option fst (obs_output_actual_start E out) else Some out);
     let out = (if reconnect_stop_event out then out\<lparr>reconnecting := False\<rparr> else out);
     Some (out\<lparr>reconnect_thread_active := False\<rparr>)
   }"

definition output_reconnect :: "life_env \<Rightarrow> out_life \<Rightarrow> out_life option" where
  "output_reconnect E out =
     (if reconnecting out \<and> reconnect_stop_event out then Some (out\<lparr>reconnecting := False\<rparr>)
      else
        let out = (if \<not> reconnecting out
                   then out\<lparr>reconnect_retry_cur_msec := word_of_int (reconnect_retry_sec out * 1000),
                            reconnect_retries := 0\<rparr>
                   else out)
        in if reconnect_retries out \<ge> reconnect_retry_max out
           then obs_output_end_data_capture E
                  (out\<lparr>ol_stop_code := OBS_OUTPUT_DISCONNECTED, reconnecting := False, delay_active := False\<rparr>)
           else
             let out = (if \<not> reconnecting out then out\<lparr>reconnecting := True, reconnect_stop_event := False\<rparr> else out);
                 out = (if reconnect_retries out \<noteq> 0
                        then out\<lparr>reconnect_retry_cur_msec :=
                               min (le_retry_scale E (reconnect_retry_cur_msec out)) RECONNECT_RETRY_MAX_MSEC\<rparr>
                        else out);
                 out = out\<lparr>reconnect_retries := reconnect_retries out + 1, ol_stop_code := OBS_OUTPUT_DISCONNECTED\<rparr>
             in Some (if le_reconnect_thread_created E
                      then signal_reconnect (out\<lparr>reconnect_thread_active := True\<rparr>)
                      else out\<lparr>reconnecting := False\<rparr>))"

definition can_reconnect :: "life_env \<Rightarrow> out_life \<Rightarrow> int \<Rightarrow> bool" where
  "can_reconnect E out code =
     (let reconnect_active = (reconnect_retry_max out \<noteq> 0)
      in if reconnect_active \<and> \<not> le_reconnect_cb E code then False
         else (reconnecting out \<and> code \<noteq> OBS_OUTPUT_SUCCESS) \<or>
              (reconnect_active \<and> code = OBS_OUTPUT_DISCONNECTED))"

definition obs_output_signal_stop :: "life_env \<Rightarrow> out_life \<Rightarrow> int \<Rightarrow> out_life option" where
  "obs_output_signal_stop E out code =
     (let out = out\<lparr>ol_stop_code := code\<rparr>
      in if can_reconnect E out code
         then do {
           let out = (if delay_active out then out\<lparr>delay_restart_refs := delay_restart_refs out + 1\<rparr> else out);
           out \<leftarrow> obs_output_end_data_capture_internal E out False;
           output_reconnect E out
         }
         else obs_output_end_data_capture E (out\<lparr>delay_active := False, reconnecting := False\<rparr>))"

section \<open>Packets\<close>

definition default_encoded_callback :: "out_life \<Rightarrow> encoder_packet \<Rightarrow> out_life" where
  "default_encoded_callback out packet =
     (if ol_data_active out
      then let il = ol_il out;
               p = packet\<lparr>pk_track_idx := get_encoder_index il packet\<rparr>
           in out\<lparr>ol_il := il\<lparr>sent := sent il @ [p],
                    total_frames := (if pk_type p = OBS_ENCODER_VIDEO then total_frames il + 1 else total_frames il)\<rparr>\<rparr>
      else out)"

definition deliver ::
    "life_env \<Rightarrow> callback_kind \<Rightarrow> out_life \<Rightarrow> encoder_packet \<Rightarrow> encoder_packet_time option \<Rightarrow> out_life option" where
  "deliver E cb out packet packet_time =
     (case cb of
        CB_interleave \<Rightarrow> map_option (\<lambda>il. out\<lparr>ol_il := il\<rparr>) (interleave_packets (le_il E) (ol_il out) packet packet_time)
      | CB_default \<Rightarrow> Some (default_encoded_callback out packet)
      | _ \<Rightarrow> None)"

definition process_delay_data :: "life_env \<Rightarrow> out_life \<Rightarrow> delay_data \<Rightarrow> out_life option" where
  "process_delay_data E out dd =
     (case dd_msg dd of
        DELAY_MSG_PACKET \<Rightarrow>
          (if \<not> delay_active out \<or> \<not> delay_capturing out
           then Some (out\<lparr>ol_events := ol_events out @ [Released (dd_packet dd)]\<rparr>)
           else deliver E (delay_callback out) out (dd_packet dd) (dd_packet_time dd))
      | DELAY_MSG_START \<Rightarrow> map_option fst (obs_output_actual_start E out)
      | DELAY_MSG_STOP \<Rightarrow> obs_output_actual_stop E out False (dd_ts dd))"

definition preserve_delay :: "out_life \<Rightarrow> bool" where
  "preserve_delay out = ((delay_cur_flags out AND 1) \<noteq> 0)"

definition pop_packet :: "life_env \<Rightarrow> out_life \<Rightarrow> u64 \<Rightarrow> (out_life \<times> bool) option" where
  "pop_packet E out t =
     (if dq_size (delay_queue out) = 0 then Some (out, False)
      else do {
        cells \<leftarrow> deque_peek_front (delay_queue out) True 1;
        dd \<leftarrow> Option.bind (those cells) (\<lambda>xs. Some (hd xs));
        let elapsed_time = t - dd_ts dd;
        if preserve_delay out \<and> reconnecting out then Some (out\<lparr>active_delay_ns := elapsed_time\<rparr>, False)
        else if elapsed_time > active_delay_ns out
        then do {
          (_, q) \<leftarrow> deque_pop_front (delay_queue out) False 1;
          out \<leftarrow> process_delay_data E (out\<lparr>delay_queue := q\<rparr>) dd;
          Some (out, True)
        }
        else Some (out, False)
      })"

text \<open>The loop of \<open>process_delay\<close>: no message adds to the queue, so its length is fuel enough.\<close>

fun pop_packets :: "nat \<Rightarrow> life_env \<Rightarrow> out_life \<Rightarrow> u64 \<Rightarrow> out_life option" where
  "pop_packets 0 E out t = None"
| "pop_packets (Suc n) E out t = do {
     (out, popped) \<leftarrow> pop_packet E out t;
     if popped then pop_packets n E out t else Some out
   }"

definition process_delay ::
    "life_env \<Rightarrow> out_life \<Rightarrow> encoder_packet \<Rightarrow> encoder_packet_time option \<Rightarrow> out_life option" where
  "process_delay E out packet packet_time = do {
     let t = le_now E;
     out \<leftarrow> push_packet out packet packet_time t;
     pop_packets (Suc (dq_size (delay_queue out))) E out t
   }"

text \<open>An encoder hands a packet to every callback of the output.\<close>

definition receive_packet ::
    "life_env \<Rightarrow> out_life \<Rightarrow> encoder_packet \<Rightarrow> encoder_packet_time option \<Rightarrow> out_life option" where
  "receive_packet E out packet packet_time =
     fold (\<lambda>cb out. do {
             out \<leftarrow> out;
             if cb = CB_delay then process_delay E out packet packet_time else deliver E cb out packet packet_time
           }) (ol_attached out) (Some out)"

end
