(* ===== verification/Output_Delay.thy ===== *)
theory Output_Delay
  imports Output_Life Interleave_Properties
begin

text \<open>
  The stream delay in front of the interleaver: packets leave the delay queue in order, each
  once it is older than the delay, and reach the interleaver exactly so.
\<close>

definition expired :: "out_life \<Rightarrow> u64 \<Rightarrow> delay_data \<Rightarrow> bool" where
  "expired out t d \<longleftrightarrow> active_delay_ns out < t - dd_ts d"

definition delay_run_input :: "delay_data list \<Rightarrow> (encoder_packet \<times> encoder_packet_time option) list" where
  "delay_run_input ds = map (\<lambda>d. (dd_packet d, dd_packet_time d)) ds"

lemma peek_delay:
  "deque_repr (delay_queue out) (d # ds) \<Longrightarrow>
     deque_peek_front (delay_queue out) True 1 = Some [Some d] \<and> dq_size (delay_queue out) \<noteq> 0"
  using dq.peek_one [of "delay_queue out" d ds] dq.len_zero_iff [of "delay_queue out" "d # ds"] by simp

lemma pop_packet_wait:
  assumes "deque_repr (delay_queue out) (d # ds)" "\<not> (preserve_delay out \<and> reconnecting out)" "\<not> expired out t d"
  shows "pop_packet E out t = Some (out, False)"
  using peek_delay [OF assms(1)] assms(2,3) by (auto simp: pop_packet_def expired_def Let_def)

lemma pop_packet_deliver:
  assumes r: "deque_repr (delay_queue out) (d # ds)" and np: "\<not> (preserve_delay out \<and> reconnecting out)"
    and ex: "expired out t d" and m: "dd_msg d = DELAY_MSG_PACKET"
    and act: "delay_active out" "delay_capturing out" "delay_callback out = CB_interleave"
    and il: "interleave_packets (le_il E) (ol_il out) (dd_packet d) (dd_packet_time d) = Some il'"
  shows "\<exists>q. pop_packet E out t = Some (out\<lparr>delay_queue := q, ol_il := il'\<rparr>, True) \<and> deque_repr q ds"
proof -
  from dq.pop_one [OF r, of False] obtain q where q: "deque_pop_front (delay_queue out) False 1 = Some ([], q)"
    "deque_repr q ds" by auto
  have "pop_packet E out t = Some (out\<lparr>delay_queue := q, ol_il := il'\<rparr>, True)"
    using peek_delay [OF r] np ex q m act il
    by (auto simp: pop_packet_def expired_def process_delay_data_def deliver_def Let_def)
  with q show ?thesis by blast
qed

lemma pop_packets_prefix:
  assumes "deque_repr (delay_queue out) q" "\<forall>d \<in> set q. dd_msg d = DELAY_MSG_PACKET" "length q < n"
    "delay_active out" "delay_capturing out" "delay_callback out = CB_interleave"
    "\<not> (preserve_delay out \<and> reconnecting out)"
    "interleave_run (le_il E) (ol_il out) (delay_run_input (takeWhile (expired out t) q)) = Some il'"
  shows "\<exists>q'. pop_packets n E out t = Some (out\<lparr>delay_queue := q', ol_il := il'\<rparr>) \<and>
    deque_repr q' (dropWhile (expired out t) q)"
  using assms
proof (induction q arbitrary: out n)
  case Nil
  have "dq_size (delay_queue out) = 0" using Nil(1) dq.len_zero_iff by blast
  moreover obtain m where "n = Suc m" using Nil(3) by (cases n) auto
  ultimately have "pop_packets n E out t = Some out" by (simp add: pop_packet_def)
  moreover have "il' = ol_il out" using Nil(8) by (simp add: delay_run_input_def)
  ultimately show ?case using Nil(1) by (intro exI [of _ "delay_queue out"]) simp
next
  case (Cons d ds)
  obtain m where n: "n = Suc m" using Cons.prems(3) by (cases n) auto
  show ?case
  proof (cases "expired out t d")
    case False
    then have "il' = ol_il out" using Cons.prems(8) by (simp add: delay_run_input_def)
    then show ?thesis using pop_packet_wait [OF Cons.prems(1,7) False] Cons.prems(1) False n
      by (intro exI [of _ "delay_queue out"]) simp
  next
    case True
    then obtain il1 where il1: "interleave_packets (le_il E) (ol_il out) (dd_packet d) (dd_packet_time d) = Some il1"
      "interleave_run (le_il E) il1 (delay_run_input (takeWhile (expired out t) ds)) = Some il'"
      using Cons.prems(8) by (auto simp: delay_run_input_def bind_eq_Some_conv)
    from pop_packet_deliver [OF Cons.prems(1,7) True _ Cons.prems(4-6) il1(1)] Cons.prems(2) obtain q1 where
      q1: "pop_packet E out t = Some (out\<lparr>delay_queue := q1, ol_il := il1\<rparr>, True)" "deque_repr q1 ds" by auto
    have ex: "expired (out\<lparr>delay_queue := q1, ol_il := il1\<rparr>) t = expired out t"
      by (simp add: expired_def fun_eq_iff)
    have "\<exists>q'. pop_packets m E (out\<lparr>delay_queue := q1, ol_il := il1\<rparr>) t =
        Some (out\<lparr>delay_queue := q1, ol_il := il1\<rparr>\<lparr>delay_queue := q', ol_il := il'\<rparr>) \<and>
        deque_repr q' (dropWhile (expired (out\<lparr>delay_queue := q1, ol_il := il1\<rparr>) t) ds)"
      by (rule Cons.IH) (use Cons.prems q1 n il1 ex in \<open>auto simp: preserve_delay_def\<close>)
    then obtain q' where "pop_packets m E (out\<lparr>delay_queue := q1, ol_il := il1\<rparr>) t =
        Some (out\<lparr>delay_queue := q', ol_il := il'\<rparr>)" "deque_repr q' (dropWhile (expired out t) ds)"
      by (auto simp: ex)
    then show ?thesis using q1 n True by (intro exI [of _ q']) simp
  qed
qed

section \<open>A concrete delayed output\<close>

definition sample_pausable_idle :: pausable_output where
  "sample_pausable_idle =
     \<lparr>po_can_pause = False, po_encoded = True, po_active = False, po_paused = False,
      po_pause = \<lparr>last_video_ts = 0, ts_start = 0, ts_end = 0, ts_offset = 0\<rparr>,
      po_venc = [], po_aenc = [], po_signals = []\<rparr>"

definition sample_life :: out_life where
  "sample_life =
     \<lparr>ol_il = sample_one\<lparr>out_active := False\<rparr>, ol_pause = sample_pausable_idle, ol_has_data = True,
      ol_encoded = True, ol_video = True, ol_audio = True, ol_service = False, ol_data_active = False,
      ol_end_thread = False, ol_stopping_event = True, ol_stop_code = 0, reconnect_retry_sec = 2,
      reconnect_retry_max = 20, reconnect_retries = 0, reconnect_retry_cur_msec = 0,
      reconnect_stop_event = False, reconnecting = False, reconnect_thread_active = False,
      active_delay_ns = 0, delay_callback = CB_interleave, delay_queue = deque_init, delay_sec = 0,
      delay_flags = 0, delay_cur_flags = 0, delay_restart_refs = 0, delay_active = False,
      delay_capturing = False, ol_attached = [], ol_events = []\<rparr>"

definition sample_life_env :: "u64 \<Rightarrow> life_env" where
  "sample_life_env now =
     \<lparr>le_il = sample_env, le_start = (\<lambda>_. True), le_service_ready = True, le_encoders_init = True,
      le_media_valid = True, le_reconnect_cb = (\<lambda>_. True), le_retry_scale = (\<lambda>m. m + m div 2),
      le_end_thread_created = True, le_reconnect_thread_created = True, le_frame_interval = 16666666,
      le_now = now, le_batch_intervals = [16666666, 21333333]\<rparr>"

text \<open>Five seconds of delay, capturing, one packet in the queue.\<close>

definition sample_delayed :: delay_data where
  "sample_delayed = \<lparr>dd_msg = DELAY_MSG_PACKET, dd_ts = 1000, dd_packet = sample_video 0 True, dd_packet_time = None\<rparr>"

definition sample_delay_life :: out_life where
  "sample_delay_life = sample_life\<lparr>ol_il := sample_one, ol_data_active := True, active_delay_ns := 5000000000,
     delay_active := True, delay_capturing := True, ol_attached := [CB_delay],
     delay_queue := the (deque_push_back deque_init [sample_delayed])\<rparr>"

lemma sample_delay_queue: "deque_repr (delay_queue sample_delay_life) [sample_delayed]"
  using dq.push_one [OF dq.repr_empty, of sample_delayed] by (auto simp: sample_delay_life_def)

section \<open>The delay queue in front of the interleaver\<close>

text \<open>C26: The delay is transparent. When a packet arrives at an output that is capturing with
  a delay, the packets that leave the delay queue are exactly the oldest ones that have been
  in it longer than the delay, they reach the interleaver in the order they came, with the
  packet times they came with, and all others stay queued, the new packet at the end.\<close>

theorem process_delay_fifo:
  assumes "deque_repr (delay_queue out) q" and "\<forall>d \<in> set q. dd_msg d = DELAY_MSG_PACKET"
    and "delay_active out" and "delay_capturing out" and "delay_callback out = CB_interleave"
    and "\<not> (preserve_delay out \<and> reconnecting out)"
    and "interleave_run (le_il E) (ol_il out) (delay_run_input (takeWhile (expired out (le_now E)) q)) = Some il'"
  shows "\<exists>out'. process_delay E out p e = Some out' \<and> ol_il out' = il' \<and>
    deque_repr (delay_queue out') (dropWhile (expired out (le_now E)) q @
      [\<lparr>dd_msg = DELAY_MSG_PACKET, dd_ts = le_now E, dd_packet = p, dd_packet_time = e\<rparr>])"
proof -
  let ?d = "\<lparr>dd_msg = DELAY_MSG_PACKET, dd_ts = le_now E, dd_packet = p, dd_packet_time = e\<rparr>"
  from dq.push_one [OF assms(1), of ?d] obtain q1 where
    q1: "deque_push_back (delay_queue out) [?d] = Some q1" "deque_repr q1 (q @ [?d])" by blast
  let ?o = "out\<lparr>delay_queue := q1\<rparr>"
  have ex: "expired ?o (le_now E) = expired out (le_now E)" by (simp add: expired_def fun_eq_iff)
  have nd: "\<not> expired out (le_now E) ?d" by (simp add: expired_def)
  have tw: "takeWhile (expired out (le_now E)) (q @ [?d]) = takeWhile (expired out (le_now E)) q"
    and dw: "dropWhile (expired out (le_now E)) (q @ [?d]) = dropWhile (expired out (le_now E)) q @ [?d]"
    using nd by (induction q) auto
  have "\<exists>q'. pop_packets (Suc (dq_size q1)) E ?o (le_now E) = Some (?o\<lparr>delay_queue := q', ol_il := il'\<rparr>) \<and>
      deque_repr q' (dropWhile (expired ?o (le_now E)) (q @ [?d]))"
    by (rule pop_packets_prefix)
      (use assms q1 dq.repr_len [OF q1(2)] in \<open>auto simp: ex tw preserve_delay_def\<close>)
  then obtain q' where q': "pop_packets (Suc (dq_size q1)) E ?o (le_now E) = Some (?o\<lparr>delay_queue := q', ol_il := il'\<rparr>)"
    "deque_repr q' (dropWhile (expired out (le_now E)) q @ [?d])" unfolding ex dw by blast
  then show ?thesis
    using q1(1) by (simp add: process_delay_def push_packet_def push_delay_def Let_def del: pop_packets.simps)
qed

theorem process_delay_fifo_witness:
  "\<exists>il' out'. interleave_packets sample_env sample_one (sample_video 0 True) None = Some il' \<and>
    process_delay (sample_life_env 5000001001) sample_delay_life (sample_audio 2 0) None = Some out' \<and> ol_il out' = il'"
proof -
  have k: "known_encoder sample_one (sample_video 0 True)"
    by (auto simp: known_encoder_def sample_video_def sample_video_encoder_def)
  have wf: "output_wf sample_one" using single_avD(4) [OF sample_one_single]
    by (auto simp: output_wf_def sample_output_def intro!: exI [of _ 0])
  obtain il' where il': "interleave_packets sample_env sample_one (sample_video 0 True) None = Some il'"
    using interleave_packets_safe [OF wf k] by blast
  have ex: "expired sample_delay_life 5000001001 sample_delayed"
    by (simp add: expired_def sample_delay_life_def sample_delayed_def)
  have "\<exists>out'. process_delay (sample_life_env 5000001001) sample_delay_life (sample_audio 2 0) None = Some out' \<and>
      ol_il out' = il' \<and>
      deque_repr (delay_queue out') (dropWhile (expired sample_delay_life (le_now (sample_life_env 5000001001))) [sample_delayed] @
        [\<lparr>dd_msg = DELAY_MSG_PACKET, dd_ts = le_now (sample_life_env 5000001001), dd_packet = sample_audio 2 0,
          dd_packet_time = None\<rparr>])"
    by (rule process_delay_fifo [OF sample_delay_queue])
      (use ex il' in \<open>auto simp: sample_life_env_def sample_delay_life_def sample_life_def sample_delayed_def
        preserve_delay_def delay_run_input_def\<close>)
  with il' show ?thesis by blast
qed

text \<open>With the preserve flag, the delay queue is frozen while the output reconnects: no
  packet leaves, and the delay becomes the age of the oldest entry, so that after the
  reconnection the stream goes on from there.\<close>

theorem process_delay_preserve:
  assumes "deque_repr (delay_queue out) (d # q)" and "preserve_delay out" and "reconnecting out"
  shows "\<exists>out'. process_delay E out p e = Some out' \<and> ol_il out' = ol_il out \<and>
    active_delay_ns out' = le_now E - dd_ts d \<and>
    deque_repr (delay_queue out') (d # q @
      [\<lparr>dd_msg = DELAY_MSG_PACKET, dd_ts = le_now E, dd_packet = p, dd_packet_time = e\<rparr>])"
proof -
  let ?d = "\<lparr>dd_msg = DELAY_MSG_PACKET, dd_ts = le_now E, dd_packet = p, dd_packet_time = e\<rparr>"
  from dq.push_one [OF assms(1), of ?d] obtain q1 where
    q1: "deque_push_back (delay_queue out) [?d] = Some q1" "deque_repr q1 (d # q @ [?d])" by auto
  let ?o = "out\<lparr>delay_queue := q1\<rparr>"
  have "pop_packet E ?o (le_now E) = Some (?o\<lparr>active_delay_ns := le_now E - dd_ts d\<rparr>, False)"
    using peek_delay [of ?o d "q @ [?d]"] q1 assms(2,3) by (simp add: pop_packet_def preserve_delay_def Let_def)
  then show ?thesis using q1 by (simp add: process_delay_def push_packet_def push_delay_def Let_def)
qed

theorem process_delay_preserve_witness:
  "\<exists>out'. process_delay (sample_life_env 2000) (sample_delay_life\<lparr>delay_cur_flags := 1, reconnecting := True\<rparr>)
      (sample_audio 2 0) None = Some out' \<and> active_delay_ns out' = 1000"
  using process_delay_preserve [of "sample_delay_life\<lparr>delay_cur_flags := 1, reconnecting := True\<rparr>" sample_delayed "[]"
      "sample_life_env 2000" "sample_audio 2 0" None] sample_delay_queue
  by (auto simp: preserve_delay_def sample_life_env_def sample_delayed_def)

end
