(* ===== verification/Output_Callbacks.thy ===== *)
theory Output_Callbacks
  imports Output_Delay
begin

text \<open>
  Runs of an output: any sequence of API calls, plugin calls, thread bodies and packets. The
  invariant proved here is that the callback \<open>end_data_capture_thread\<close> takes off the encoders
  is the one \<open>hook_data_capture\<close> has put there, although it is computed anew.
\<close>

section \<open>Runs\<close>

datatype output_action =
    Start | Stop | Force_Stop | Begin_Capture | End_Capture | Plugin_Stopped int | End_Thread | Reconnect_Timeout
  | Packet encoder_packet "encoder_packet_time option" | Set_Delay u32 u32 | Set_Reconnect int int

definition life_step :: "life_env \<Rightarrow> out_life \<Rightarrow> output_action \<Rightarrow> out_life option" where
  "life_step E out a =
     (case a of
        Start \<Rightarrow> map_option fst (obs_output_start E out)
      | Stop \<Rightarrow> obs_output_stop E out
      | Force_Stop \<Rightarrow> obs_output_force_stop E out
      | Begin_Capture \<Rightarrow> Some (fst (obs_output_begin_data_capture E out))
      | End_Capture \<Rightarrow> obs_output_end_data_capture E out
      | Plugin_Stopped code \<Rightarrow> obs_output_signal_stop E out code
      | End_Thread \<Rightarrow> (if ol_end_thread out then end_data_capture_thread out else None)
      | Reconnect_Timeout \<Rightarrow> (if reconnect_thread_active out then reconnect_thread E out else None)
      | Packet p e \<Rightarrow> receive_packet E out p e
      | Set_Delay sec flags \<Rightarrow> Some (obs_output_set_delay out sec flags)
      | Set_Reconnect n sec \<Rightarrow> Some (obs_output_set_reconnect_settings out n sec))"

fun life_run :: "out_life \<Rightarrow> (life_env \<times> output_action) list \<Rightarrow> out_life option" where
  "life_run out [] = Some out"
| "life_run out ((E, a) # as) = Option.bind (life_step E out a) (\<lambda>out'. life_run out' as)"

section \<open>What decides about callbacks\<close>

definition view :: "out_life \<Rightarrow> bool \<times> bool \<times> bool \<times> bool \<times> callback_kind list \<times> u64 \<times> bool \<times> bool \<times> u32 \<times> u32" where
  "view out = (ol_encoded out, ol_video out, ol_audio out, active out, ol_attached out, active_delay_ns out,
     ol_end_thread out, ol_data_active out, delay_flags out, delay_cur_flags out)"

definition right_callback :: "out_life \<Rightarrow> callback_kind" where
  "right_callback out = (if active_delay_ns out \<noteq> 0 then CB_delay else base_callback out)"

text \<open>No delay is preserved over a reconnection here, see the counterexample below.\<close>

definition callbacks_ok :: "out_life \<Rightarrow> bool" where
  "callbacks_ok out \<longleftrightarrow> ol_encoded out \<and> (ol_video out \<or> ol_audio out) \<and>
     delay_flags out AND 1 = 0 \<and> delay_cur_flags out AND 1 = 0 \<and>
     (ol_end_thread out \<longrightarrow> \<not> ol_data_active out) \<and>
     (if active out then ol_attached out = [right_callback out]
      else ol_attached out = [] \<and> active_delay_ns out = 0 \<and> \<not> ol_end_thread out)"

lemma callbacks_ok_view: "view out' = view out \<Longrightarrow> callbacks_ok out' = callbacks_ok out"
  by (simp add: view_def callbacks_ok_def right_callback_def base_callback_def)

named_theorems view_simps \<open>operations that leave the view alone\<close>

lemma view_basic [view_simps]:
  "view (do_output_signal s out) = view out" "view (signal_stop out) = view out" "view (signal_reconnect out) = view out"
  "view (unpause_output E out) = view out" "view (join_reconnect out) = view out"
  "view (reset_packets out) = view out" "view (default_encoded_callback out p) = view out"
  by (simp_all add: view_def do_output_signal_def signal_stop_def signal_reconnect_def unpause_output_def
      join_reconnect_def reset_packets_def reset_packet_data_def default_encoded_callback_def Let_def active_def)

lemma view_push [view_simps]: "push_delay dd out = Some out' \<Longrightarrow> view out' = view out"
  by (auto simp: push_delay_def view_def active_def)

lemma view_drain: "drain_delay n out = Some out' \<Longrightarrow> view out' = view out"
proof (induction n out rule: drain_delay.induct)
  case (2 n out)
  show ?case
  proof (cases "dq_size (delay_queue out) = 0")
    case True
    with 2(2) show ?thesis by simp
  next
    case False
    with 2(2) obtain cells q dd where 1: "deque_pop_front (delay_queue out) True 1 = Some (cells, q)"
      "Option.bind (those cells) (\<lambda>xs. Some (hd xs)) = Some dd" and
      3: "drain_delay n (out\<lparr>delay_queue := q, ol_events := ol_events out @
            (if dd_msg dd = DELAY_MSG_PACKET then [Released (dd_packet dd)] else [])\<rparr>) = Some out'"
      by (auto simp: bind_eq_Some_conv)
    from 2(1) [OF False 1(1) refl 1(2) 3] show ?thesis by (simp add: view_def active_def)
  qed
qed (simp split: if_splits)

lemma view_cleanup:
  "obs_output_cleanup_delay out = Some out' \<Longrightarrow> view out' = view (out\<lparr>active_delay_ns := 0\<rparr>)"
  by (auto simp: obs_output_cleanup_delay_def dest!: view_drain) (simp add: view_def active_def)

text \<open>The end of the capture takes the right callback off.\<close>

lemma end_thread_ok:
  assumes "end_data_capture_thread out = Some out'" "callbacks_ok out"
  shows "callbacks_ok out' \<and> \<not> active out'"
proof -
  let ?o = "stop_encoders (if active_delay_ns out \<noteq> 0 then CB_delay else base_callback out) out"
  have enc: "ol_encoded out" using assms(2) by (simp add: callbacks_ok_def)
  have o: "view ?o = view (out\<lparr>ol_attached := []\<rparr>)"
    using assms(2) by (auto simp: stop_encoders_def callbacks_ok_def right_callback_def view_def active_def split: if_splits)
  obtain o1 where o1: "(if active_delay_ns ?o \<noteq> 0 then obs_output_cleanup_delay ?o else Some ?o) = Some o1"
    "out' = (set_active False (do_output_signal ''deactivate'' o1))\<lparr>ol_stopping_event := True, ol_end_thread := False\<rparr>"
    using assms(1) [unfolded end_data_capture_thread_def if_P [OF enc] Let_def]
    unfolding bind_eq_Some_conv by (elim exE conjE) (rule that, assumption, drule option.inject [THEN iffD1], erule sym)
  have "view o1 = view (out\<lparr>ol_attached := [], active_delay_ns := 0\<rparr>)"
    using o1(1) o view_cleanup [of ?o o1] by (auto simp: view_def active_def split: if_splits)
  then show ?thesis using assms(2)
    by (simp add: o1(2) callbacks_ok_def view_def set_active_def do_output_signal_def active_def)
qed


lemma view_upd [view_simps]:
  "view (out\<lparr>ol_stop_code := c\<rparr>) = view out" "view (out\<lparr>ol_stopping_event := b\<rparr>) = view out"
  "view (out\<lparr>delay_capturing := b\<rparr>) = view out"
  "view (out\<lparr>delay_active := b\<rparr>) = view out" "view (out\<lparr>reconnecting := b\<rparr>) = view out"
  "view (out\<lparr>reconnect_stop_event := b\<rparr>) = view out" "view (out\<lparr>reconnect_thread_active := b\<rparr>) = view out"
  "view (out\<lparr>reconnect_retries := n\<rparr>) = view out" "view (out\<lparr>reconnect_retry_cur_msec := w\<rparr>) = view out"
  "view (out\<lparr>delay_restart_refs := n\<rparr>) = view out" "view (out\<lparr>ol_events := ev\<rparr>) = view out"
  "view (out\<lparr>ol_pause := po\<rparr>) = view out" "view (out\<lparr>reconnect_retry_max := n\<rparr>) = view out"
  "view (out\<lparr>reconnect_retry_sec := n\<rparr>) = view out" "view (out\<lparr>delay_sec := w\<rparr>) = view out"
  "view (out\<lparr>delay_queue := q\<rparr>) = view out" "view (out\<lparr>delay_callback := cb\<rparr>) = view out"
  by (simp add: view_def active_def)+

lemma view_il [view_simps]: "out_active il = active out \<Longrightarrow> view (out\<lparr>ol_il := il\<rparr>) = view out"
  by (simp add: view_def active_def)

lemma view_set_active: "view out' = view out \<Longrightarrow> view (set_active b out') = view (set_active b out)"
  by (simp add: view_def set_active_def active_def)

lemma callbacks_ok_upd:
  "callbacks_ok out \<Longrightarrow> view out' = view out \<Longrightarrow> callbacks_ok out'"
  by (rule iffD2 [OF callbacks_ok_view])

lemma join_end_thread_ok: "join_end_thread out = Some out' \<Longrightarrow> callbacks_ok out \<Longrightarrow> callbacks_ok out'"
  by (auto simp: join_end_thread_def dest: end_thread_ok split: if_splits)

lemma wait_stopping_ok: "wait_stopping out = Some out' \<Longrightarrow> callbacks_ok out \<Longrightarrow> callbacks_ok out'"
  by (auto simp: wait_stopping_def dest: end_thread_ok split: if_splits)

lemma end_capture_internal_ok:
  assumes run: "obs_output_end_data_capture_internal E out sig = Some out'" and ok: "callbacks_ok out"
  shows "callbacks_ok out'"
proof -
  consider "\<not> active out \<or> \<not> ol_data_active out"
    | "active out" "ol_data_active out" "delay_active out \<and> delay_restart_refs out \<noteq> 0"
    | "active out" "ol_data_active out" "\<not> (delay_active out \<and> delay_restart_refs out \<noteq> 0)" by blast
  then show ?thesis
  proof cases
    case 1
    then have "view out' = view out"
      using run by (auto simp: obs_output_end_data_capture_internal_def view_simps split: if_splits)
    with ok show ?thesis by (rule callbacks_ok_upd)
  next
    case 2
    then have "view out' = view out"
      using run by (auto simp: obs_output_end_data_capture_internal_def view_simps)
    with ok show ?thesis by (rule callbacks_ok_upd)
  next
    case 3
    define o1 where "o1 = (if delay_active out then out\<lparr>delay_capturing := False, delay_active := False\<rparr> else out)\<lparr>ol_data_active := False\<rparr>"
    have v1: "view o1 = view (out\<lparr>ol_data_active := False\<rparr>)" by (simp add: o1_def view_def active_def)
    have ne: "\<not> ol_end_thread out" using ok 3 by (auto simp: callbacks_ok_def)
    then have j: "join_end_thread o1 = Some o1" by (simp add: join_end_thread_def o1_def)
    have "view (o1\<lparr>ol_end_thread := True\<rparr>) = view (out\<lparr>ol_data_active := False, ol_end_thread := True\<rparr>)"
      by (simp add: o1_def view_def active_def)
    moreover have "callbacks_ok (out\<lparr>ol_data_active := False, ol_end_thread := True\<rparr>)"
      using ok 3 by (simp add: callbacks_ok_def active_def right_callback_def base_callback_def)
    ultimately have ok1: "callbacks_ok (o1\<lparr>ol_end_thread := True\<rparr>)" using callbacks_ok_upd by blast
    let ?run = "if le_end_thread_created E then Some (o1\<lparr>ol_end_thread := True\<rparr>)
              else end_data_capture_thread (o1\<lparr>ol_end_thread := True\<rparr>)"
    have "(if \<not> active out \<or> \<not> ol_data_active out then X
        else if delay_active out \<and> delay_restart_refs out \<noteq> 0 then Y else Z) = Z" for X Y Z :: "out_life option"
      using 3 by auto
    note r = run [unfolded obs_output_end_data_capture_internal_def Let_def this, folded o1_def]
    obtain o3 where o3: "?run = Some o3"
      "out' = (if sig then (signal_stop o3)\<lparr>ol_stop_code := OBS_OUTPUT_SUCCESS\<rparr> else o3)"
      using r j by (cases ?run) simp_all
    have "callbacks_ok o3" using o3(1) ok1 end_thread_ok by (auto split: if_splits)
    moreover have "view out' = view o3" by (simp add: o3(2) view_simps)
    ultimately show ?thesis by (rule callbacks_ok_upd)
  qed
qed


lemma actual_start_ok:
  assumes "obs_output_actual_start E out = Some (out', b)" "callbacks_ok out"
  shows "callbacks_ok out'"
proof -
  obtain o1 where o1: "wait_stopping out = Some o1"
    using assms(1) by (cases "wait_stopping out") (simp_all add: obs_output_actual_start_def)
  have "view out' = view o1"
    using assms(1) unfolding obs_output_actual_start_def o1 bind.bind_lunit Let_def option.inject prod.inject
    by (elim conjE, hypsubst) (simp add: view_simps active_def if_distrib [of view])
  with o1 wait_stopping_ok assms(2) callbacks_ok_upd show ?thesis by blast
qed

lemma actual_stop_ok:
  assumes run: "obs_output_actual_stop E out force ts = Some out'" and ok: "callbacks_ok out"
  shows "callbacks_ok out'"
proof (cases "stopping out \<and> \<not> force")
  case True
  with assms show ?thesis by (simp add: obs_output_actual_stop_def)
next
  case False
  define o0 where "o0 = (unpause_output E out)\<lparr>ol_stopping_event := False\<rparr>"
  define o1 where "o1 = (if reconnecting o0 then join_reconnect (o0\<lparr>reconnect_stop_event := True\<rparr>) else o0)"
  have v1: "view o1 = view out" by (simp add: o1_def o0_def view_simps)
  let ?fin = "if force \<and> delay_active o1
        then map_option (\<lambda>out. out\<lparr>ol_stopping_event := True\<rparr>)
               (obs_output_end_data_capture E (o1\<lparr>delay_active := False, delay_capturing := False, ol_stop_code := 0\<rparr>))
        else Some o1"
  note r = run [unfolded obs_output_actual_stop_def if_not_P [OF False] Let_def, folded o0_def, folded o1_def]
  obtain o2 where o2: "?fin = Some o2"
    using r by (cases ?fin) simp_all
  have v2: "view out' = view o2"
    using r unfolding o2 bind.bind_lunit option.inject
    by (hypsubst) (simp add: view_simps active_def if_distrib [of view])
  have "callbacks_ok o2"
  proof (cases "force \<and> delay_active o1")
    case True
    let ?o = "o1\<lparr>delay_active := False, delay_capturing := False, ol_stop_code := 0\<rparr>"
    have "callbacks_ok ?o" using ok v1 by (intro callbacks_ok_upd [OF ok]) (simp add: view_simps)
    moreover from True o2 obtain o3 where "obs_output_end_data_capture_internal E ?o True = Some o3" "view o2 = view o3"
      by (auto simp: obs_output_end_data_capture_def view_simps)
    ultimately show ?thesis using end_capture_internal_ok callbacks_ok_upd by blast
  next
    case False
    with o2 callbacks_ok_upd [OF ok v1] show ?thesis by auto
  qed
  then show ?thesis using v2 by (rule callbacks_ok_upd)
qed

lemma force_stop_ok: "obs_output_force_stop E out = Some out' \<Longrightarrow> callbacks_ok out \<Longrightarrow> callbacks_ok out'"
proof -
  assume run: "obs_output_force_stop E out = Some out'" and ok: "callbacks_ok out"
  let ?o = "if \<not> stopping out then do_output_signal ''stopping'' (out\<lparr>ol_stop_code := 0\<rparr>) else out"
  have "view ?o = view out" by (simp add: view_simps)
  then have "callbacks_ok ?o" by (rule callbacks_ok_upd [OF ok])
  with run show "callbacks_ok out'" unfolding obs_output_force_stop_def Let_def by (rule actual_stop_ok)
qed

lemma stop_ok:
  assumes run: "obs_output_stop E out = Some out'" and ok: "callbacks_ok out"
  shows "callbacks_ok out'"
proof -
  have s: "callbacks_ok (do_output_signal ''stopping'' out)" by (rule callbacks_ok_upd [OF ok]) (simp add: view_simps)
  have d: "callbacks_ok out'" if "obs_output_delay_stop out now = Some out'" for now
    using that by (intro callbacks_ok_upd [OF ok]) (auto simp: obs_output_delay_stop_def view_simps)
  show ?thesis using run ok d s
    by (auto simp: obs_output_stop_def split: if_splits dest: force_stop_ok actual_stop_ok)
qed

lemma batch_view: "view (calculate_batch_size ivs out) = view out"
proof -
  have "view (fold (\<lambda>iv out. let il = ol_il out in out\<lparr>ol_il := il\<lparr>interleaver_max_batch_size :=
      interleaver_max_batch_size il + unat (L * 2 div iv)\<rparr>\<rparr>) ivs out) = view out" for L
    by (induction ivs arbitrary: out) (simp_all add: Let_def view_simps active_def)
  then show ?thesis by (simp add: calculate_batch_size_def)
qed

lemma u32_seconds: "sec \<noteq> 0 \<Longrightarrow> (ucast (sec :: u32) :: u64) * 1000000000 \<noteq> 0"
proof
  assume nz: "sec \<noteq> 0" and z: "(ucast sec :: u64) * 1000000000 = 0"
  have b: "unat sec < 2 ^ LENGTH(32)" by (rule unsigned_less)
  then have u: "unat (ucast sec :: u64) = unat sec" by (simp add: unsigned_ucast_eq take_bit_nat_eq_self)
  have "unat (ucast sec :: u64) * unat (1000000000 :: u64) < 2 ^ LENGTH(64)" using b by (simp add: u)
  then have "unat ((ucast sec :: u64) * 1000000000) = unat sec * 1000000000"
    using unat_mult_lem [of "ucast sec :: u64" 1000000000] by (simp add: u)
  with z have "unat sec = 0" by simp
  with nz show False by (simp add: unat_eq_0)
qed

lemma begin_ok:
  assumes run: "obs_output_begin_data_capture E out = (out', b)" and ok: "callbacks_ok out"
  shows "callbacks_ok out'"
proof (cases "delay_active out \<or> active out \<or> \<not> le_media_valid E")
  case True
  then have "view out' = view out"
    using run by (auto simp: obs_output_begin_data_capture_def begin_delayed_capture_def can_begin_data_capture_def
        Let_def view_simps active_def split: if_splits)
  with ok show ?thesis by (rule callbacks_ok_upd)
next
  case False
  let ?o1 = "out\<lparr>ol_il := (ol_il out)\<lparr>total_frames := 0\<rparr>, ol_data_active := True\<rparr>"
  have nd: "ol_encoded out" "\<not> active out" "ol_attached out = []" "active_delay_ns out = 0" "\<not> ol_end_thread out"
    using ok False by (auto simp: callbacks_ok_def)
  let ?o2 = "set_active True (do_output_signal ''activate'' (calculate_batch_size (le_batch_intervals E) (hook_data_capture ?o1)))"
  have "view out' = view ?o2"
    using run False nd(1) unfolding obs_output_begin_data_capture_def can_begin_data_capture_def Let_def
    by (simp add: view_simps split: if_splits) (auto simp: view_simps)
  also have "\<dots> = view (set_active True (hook_data_capture ?o1))"
    by (rule view_set_active) (simp add: view_simps batch_view)
  finally have v: "view out' = view (set_active True (hook_data_capture ?o1))" .
  have "callbacks_ok (set_active True (hook_data_capture ?o1))"
    using ok nd False u32_seconds
    by (auto simp: hook_data_capture_def callbacks_ok_def start_encoders_def set_active_def active_def
        right_callback_def base_callback_def reset_packets_def Let_def)
  then show ?thesis using v by (rule callbacks_ok_upd)
qed


lemma can_begin_ok:
  "obs_output_can_begin_data_capture E out = Some (out', b) \<Longrightarrow> callbacks_ok out \<Longrightarrow> callbacks_ok out'"
  by (auto simp: obs_output_can_begin_data_capture_def split: if_splits dest: join_end_thread_ok)

lemma cleanup_inactive_ok:
  assumes "obs_output_cleanup_delay out = Some out'" "callbacks_ok out" "\<not> active out"
  shows "callbacks_ok out'"
proof -
  have "view out' = view out" using view_cleanup [OF assms(1)] assms(2,3) by (simp add: callbacks_ok_def view_def active_def)
  with assms(2) show ?thesis by (rule callbacks_ok_upd)
qed

text \<open>A delayed start that fails to begin leaves the output inactive, so that it may drop the delay.\<close>

lemma begin_fails_inactive:
  "obs_output_begin_data_capture E out = (out', False) \<Longrightarrow> \<not> delay_active out \<Longrightarrow> active out' = active out"
  by (auto simp: obs_output_begin_data_capture_def active_def Let_def split: if_splits)

lemma begin_delay_start_ok:
  assumes run: "(let (out, begun) = obs_output_begin_data_capture E out
            in if begun then Some (out, True)
               else map_option (\<lambda>out. (out, False)) (obs_output_cleanup_delay out)) = Some (out', b)"
    and ok: "callbacks_ok out" and i: "\<not> delay_active out" "\<not> active out"
  shows "callbacks_ok out'"
proof -
  obtain o1 begun where b: "obs_output_begin_data_capture E out = (o1, begun)" by fastforce
  have ok1: "callbacks_ok o1" using begin_ok [OF b ok] .
  show ?thesis
  proof (cases begun)
    case False
    then have "active o1 = active out" using b i(1) by (intro begin_fails_inactive) simp_all
    then have "\<not> active o1" using i(2) by simp
    with False ok1 run b show ?thesis by (auto intro: cleanup_inactive_ok)
  qed (use run b ok1 in simp)
qed

lemma delay_start_ok:
  assumes run: "obs_output_delay_start E out = Some (out', b)" and ok: "callbacks_ok out"
  shows "callbacks_ok out'"
proof -
  let ?ready = "if delay_active out then Some (out, True)
                     else do {
                       (out, can_begin) \<leftarrow> obs_output_can_begin_data_capture E out;
                       Some (out, can_begin \<and> obs_output_initialize_encoders E out)
                     }"
  obtain o1 r where r: "?ready = Some (o1, r)" using run by (cases ?ready) (auto simp: obs_output_delay_start_def)
  have d: "o1 = out \<and> (r \<longrightarrow> \<not> active out)" if "\<not> delay_active out"
    using r that ok
    by (auto simp: obs_output_can_begin_data_capture_def join_end_thread_def callbacks_ok_def split: if_splits)
  have o: "o1 = out" using d r by (cases "delay_active out") simp_all
  note run' = run [unfolded obs_output_delay_start_def r bind.bind_lunit prod.case o]
  show ?thesis
  proof (cases r)
    case False
    with run' ok show ?thesis by simp
  next
    case True
    let ?dd = "\<lparr>dd_msg = DELAY_MSG_START, dd_ts = le_now E, dd_packet = zero_packet, dd_packet_time = None\<rparr>"
    obtain o2 where o2: "push_delay ?dd out = Some o2" using run' True by (cases "push_delay ?dd out") simp_all
    let ?o3 = "o2\<lparr>delay_restart_refs := delay_restart_refs o2 + 1\<rparr>"
    have v: "view ?o3 = view out" using view_push [OF o2] by (simp add: view_simps)
    have ok3: "callbacks_ok ?o3" using callbacks_ok_upd [OF ok v] .
    have da: "delay_active ?o3 = delay_active out" using o2 by (auto simp: push_delay_def)
    note run'' = run' [unfolded o2 bind.bind_lunit Let_def]
    show ?thesis
    proof (cases "delay_active ?o3")
      case True
      then have "view out' = view out" using run'' \<open>r\<close> v by (auto simp: view_simps)
      with ok show ?thesis by (rule callbacks_ok_upd)
    next
      case False
      have "\<not> active ?o3" using v d \<open>r\<close> False da by (simp add: view_def)
      with run'' \<open>r\<close> False show ?thesis
        by (intro begin_delay_start_ok [OF _ ok3 False]) (simp_all add: Let_def)
    qed
  qed
qed

lemma start_ok:
  assumes run: "obs_output_start E out = Some (out', b)" and ok: "callbacks_ok out"
  shows "callbacks_ok out'"
proof -
  have st: "callbacks_ok out'" if "obs_output_actual_start E out = Some (o1, c)"
    "out' = (if c then do_output_signal ''starting'' o1 else o1)" for o1 c
    by (rule callbacks_ok_upd [OF actual_start_ok [OF that(1) ok]]) (simp add: that(2) view_simps)
  consider "\<not> ol_has_data out \<or> ol_service out \<and> \<not> le_service_ready E"
    | "ol_has_data out" "\<not> (ol_service out \<and> \<not> le_service_ready E)" "delay_sec out \<noteq> 0"
    | "ol_has_data out" "\<not> (ol_service out \<and> \<not> le_service_ready E)" "delay_sec out = 0" by blast
  then show ?thesis
  proof cases
    case 1
    with run ok show ?thesis by (auto simp: obs_output_start_def split: if_splits)
  next
    case 2
    then have "obs_output_delay_start E out = Some (out', b)" using run unfolding obs_output_start_def by (auto split: if_splits)
    then show ?thesis using ok by (rule delay_start_ok)
  next
    case 3
    then have r: "do { (out, success) \<leftarrow> obs_output_actual_start E out;
        Some (if success then do_output_signal ''starting'' out else out, success) } = Some (out', b)"
      using run unfolding obs_output_start_def by (auto split: if_splits)
    then obtain o1 c where a: "obs_output_actual_start E out = Some (o1, c)"
      by (cases "obs_output_actual_start E out") auto
    show ?thesis by (rule st [OF a]) (use r in \<open>auto simp: a\<close>)
  qed
qed

lemma reconnect_thread_ok:
  assumes run: "reconnect_thread E out = Some out'" and ok: "callbacks_ok out"
  shows "callbacks_ok out'"
proof -
  let ?start = "if \<not> reconnect_stop_event out then map_option fst (obs_output_actual_start E out) else Some out"
  note r = run [unfolded reconnect_thread_def Let_def]
  obtain o1 where o1: "?start = Some o1" using r by (cases ?start) simp_all
  have "callbacks_ok o1" using o1 ok by (auto split: if_splits dest: actual_start_ok)
  moreover have "view out' = view o1"
    using r unfolding o1 bind.bind_lunit option.inject by hypsubst (simp add: view_simps if_distrib [of view])
  ultimately show ?thesis by (rule callbacks_ok_upd)
qed

lemma end_capture_ok: "obs_output_end_data_capture E out = Some out' \<Longrightarrow> callbacks_ok out \<Longrightarrow> callbacks_ok out'"
  unfolding obs_output_end_data_capture_def by (rule end_capture_internal_ok)

lemma output_reconnect_ok:
  assumes run: "output_reconnect E out = Some out'" and ok: "callbacks_ok out"
  shows "callbacks_ok out'"
proof -
  define o1 where "o1 = (if \<not> reconnecting out
      then out\<lparr>reconnect_retry_cur_msec := word_of_int (reconnect_retry_sec out * 1000), reconnect_retries := 0\<rparr>
      else out)"
  have v1: "view o1 = view out" by (simp add: o1_def view_simps)
  show ?thesis
  proof (cases "reconnecting out \<and> reconnect_stop_event out")
    case True
    then have "view out' = view out" using run by (auto simp: output_reconnect_def view_simps)
    with ok show ?thesis by (rule callbacks_ok_upd)
  next
    case False
    note r = run [unfolded output_reconnect_def if_not_P [OF False] Let_def, folded o1_def]
    show ?thesis
    proof (cases "reconnect_retries o1 \<ge> reconnect_retry_max o1")
      case True
      show ?thesis
        by (rule end_capture_ok [OF r [unfolded if_P [OF True]]], rule callbacks_ok_upd [OF ok])
          (simp add: view_simps v1)
    next
      case False
      have "view out' = view o1"
        using r unfolding if_not_P [OF False] option.inject by hypsubst (simp add: view_simps if_distrib [of view])
      with v1 show ?thesis by (intro callbacks_ok_upd [OF ok]) simp
    qed
  qed
qed

lemma signal_stop_ok:
  assumes run: "obs_output_signal_stop E out code = Some out'" and ok: "callbacks_ok out"
  shows "callbacks_ok out'"
proof (cases "can_reconnect E (out\<lparr>ol_stop_code := code\<rparr>) code")
  case True
  define o1 where "o1 = (if delay_active (out\<lparr>ol_stop_code := code\<rparr>)
    then out\<lparr>ol_stop_code := code, delay_restart_refs := delay_restart_refs (out\<lparr>ol_stop_code := code\<rparr>) + 1\<rparr>
    else out\<lparr>ol_stop_code := code\<rparr>)"
  have "callbacks_ok o1" by (rule callbacks_ok_upd [OF ok]) (simp add: o1_def view_simps)
  moreover obtain o2 where "obs_output_end_data_capture_internal E o1 False = Some o2" "output_reconnect E o2 = Some out'"
    using run [unfolded obs_output_signal_stop_def Let_def if_P [OF True], folded o1_def]
    unfolding bind_eq_Some_conv by blast
  ultimately show ?thesis using end_capture_internal_ok output_reconnect_ok by blast
next
  case False
  show ?thesis
    by (rule end_capture_ok [OF run [unfolded obs_output_signal_stop_def Let_def if_not_P [OF False]]],
        rule callbacks_ok_upd [OF ok]) (simp add: view_simps)
qed

text \<open>Packets: the queue and the interleaver do not touch the callbacks.\<close>

lemma deliver_view: "deliver E cb out p e = Some out' \<Longrightarrow> view out' = view out"
  by (auto simp: deliver_def view_simps active_def split: callback_kind.splits
      dest!: config_interleave) (simp add: out_config_def view_simps active_def)

lemma process_delay_data_ok:
  "process_delay_data E out dd = Some out' \<Longrightarrow> callbacks_ok out \<Longrightarrow> callbacks_ok out'"
  by (auto simp: process_delay_data_def view_simps split: delay_msg.splits if_splits
      intro: actual_start_ok actual_stop_ok callbacks_ok_upd dest: deliver_view)

lemma pop_packet_ok:
  assumes run: "pop_packet E out t = Some (out', b)" and ok: "callbacks_ok out"
  shows "callbacks_ok out'"
proof (cases "dq_size (delay_queue out) = 0")
  case True
  with assms show ?thesis by (simp add: pop_packet_def)
next
  case False
  have np: "\<not> (preserve_delay out \<and> reconnecting out)" using ok by (simp add: callbacks_ok_def preserve_delay_def)
  obtain dd where dd: "(if t - dd_ts dd > active_delay_ns out
      then do {
        (_, q) \<leftarrow> deque_pop_front (delay_queue out) False 1;
        out \<leftarrow> process_delay_data E (out\<lparr>delay_queue := q\<rparr>) dd;
        Some (out, True)
      } else Some (out, False)) = Some (out', b)"
    using run unfolding pop_packet_def Let_def if_not_P [OF False] if_not_P [OF np] bind_eq_Some_conv
    by blast
  show ?thesis
  proof (cases "t - dd_ts dd > active_delay_ns out")
    case True
    then obtain q where "process_delay_data E (out\<lparr>delay_queue := q\<rparr>) dd = Some out'"
      using dd by (auto simp: bind_eq_Some_conv)
    then show ?thesis using ok by (rule process_delay_data_ok [OF _ callbacks_ok_upd]) (simp add: view_simps)
  qed (use dd ok in simp)
qed

lemma pop_packets_ok: "pop_packets n E out t = Some out' \<Longrightarrow> callbacks_ok out \<Longrightarrow> callbacks_ok out'"
  by (induction n arbitrary: out) (auto simp: bind_eq_Some_conv split: if_splits dest: pop_packet_ok)

lemma process_delay_ok:
  assumes run: "process_delay E out p e = Some out'" and ok: "callbacks_ok out"
  shows "callbacks_ok out'"
proof -
  obtain o1 where "push_packet out p e (le_now E) = Some o1"
    "pop_packets (Suc (dq_size (delay_queue o1))) E o1 (le_now E) = Some out'"
    using run unfolding process_delay_def Let_def bind_eq_Some_conv by blast
  then show ?thesis
    by (auto simp: push_packet_def simp del: pop_packets.simps
        intro: pop_packets_ok callbacks_ok_upd [OF ok] dest!: view_push)
qed

lemma receive_packet_ok: "receive_packet E out p e = Some out' \<Longrightarrow> callbacks_ok out \<Longrightarrow> callbacks_ok out'"
proof -
  have "fold (\<lambda>cb out. do {
             out \<leftarrow> out;
             if cb = CB_delay then process_delay E out p e else deliver E cb out p e
           }) cbs o1 = Some out' \<Longrightarrow> (\<And>o2. o1 = Some o2 \<Longrightarrow> callbacks_ok o2) \<Longrightarrow> callbacks_ok out'" for cbs o1
  proof (induction cbs arbitrary: o1)
    case (Cons cb cbs)
    show ?case
    proof (rule Cons.IH)
      show "fold (\<lambda>cb out. do { out \<leftarrow> out; if cb = CB_delay then process_delay E out p e else deliver E cb out p e })
        cbs (Option.bind o1 (\<lambda>out. if cb = CB_delay then process_delay E out p e else deliver E cb out p e)) = Some out'"
        using Cons.prems(1) by simp
    qed (use Cons.prems(2) in \<open>auto simp: bind_eq_Some_conv split: if_splits
         intro: process_delay_ok callbacks_ok_upd [OF _ deliver_view]\<close>)
  qed simp
  then show "receive_packet E out p e = Some out' \<Longrightarrow> callbacks_ok out \<Longrightarrow> callbacks_ok out'"
    unfolding receive_packet_def by blast
qed

section \<open>The callback that is taken off\<close>

definition keeps_no_delay :: "output_action \<Rightarrow> bool" where
  "keeps_no_delay a = (case a of Set_Delay sec flags \<Rightarrow> flags AND 1 = 0 | _ \<Rightarrow> True)"

lemma life_step_ok:
  assumes "life_step E out a = Some out'" "callbacks_ok out" "keeps_no_delay a"
  shows "callbacks_ok out'"
proof (cases a)
  case Begin_Capture
  with assms show ?thesis
    using begin_ok by (cases "obs_output_begin_data_capture E out") (simp add: life_step_def)
next
  case (Set_Delay sec flags)
  have "right_callback (out\<lparr>delay_sec := sec, delay_flags := flags\<rparr>) = right_callback out"
    by (simp add: right_callback_def base_callback_def)
  moreover have "ol_encoded out" using assms(2) by (simp add: callbacks_ok_def)
  ultimately show ?thesis using assms Set_Delay
    by (simp add: life_step_def obs_output_set_delay_def keeps_no_delay_def callbacks_ok_def active_def)
      (hypsubst, simp)
next
  case (Set_Reconnect n sec)
  with assms have "view out' = view out" by (auto simp: life_step_def obs_output_set_reconnect_settings_def view_simps)
  with assms(2) show ?thesis by (rule callbacks_ok_upd)
next
  case Start
  with assms obtain b where "obs_output_start E out = Some (out', b)" by (auto simp: life_step_def)
  then show ?thesis using assms(2) by (rule start_ok)
next
  case Stop
  with assms show ?thesis using stop_ok by (simp add: life_step_def)
next
  case Force_Stop
  with assms show ?thesis using force_stop_ok by (simp add: life_step_def)
next
  case End_Capture
  with assms show ?thesis using end_capture_ok by (simp add: life_step_def)
next
  case (Plugin_Stopped code)
  with assms show ?thesis using signal_stop_ok by (simp add: life_step_def)
next
  case End_Thread
  with assms show ?thesis using end_thread_ok by (simp add: life_step_def split: if_splits)
next
  case Reconnect_Timeout
  with assms show ?thesis using reconnect_thread_ok by (simp add: life_step_def split: if_splits)
next
  case (Packet p e)
  with assms show ?thesis using receive_packet_ok by (simp add: life_step_def)
qed

lemma life_run_ok:
  "life_run out as = Some out' \<Longrightarrow> callbacks_ok out \<Longrightarrow> \<forall>(E, a) \<in> set as. keeps_no_delay a \<Longrightarrow> callbacks_ok out'"
  by (induction out as rule: life_run.induct) (auto simp: bind_eq_Some_conv dest: life_step_ok)

end
