(* ===== verification/Output_Reconnect.thy ===== *)
theory Output_Reconnect
  imports Output_Callbacks
begin

text \<open>
  What runs of an output reach: the callbacks on the encoders, reconnection to its end, and the
  state that is carried over from one streaming session to the next.
\<close>

section \<open>Callbacks\<close>


definition sample_session :: "(life_env \<times> output_action) list" where
  "sample_session = map (\<lambda>a. (sample_life_env 1000, a)) [Set_Delay 5 0, Start, Force_Stop, End_Thread]"

lemma sample_session_runs: "\<exists>out'. life_run sample_life sample_session = Some out'"
proof -
  have "map_option (\<lambda>_. ()) (life_run sample_life sample_session) = Some ()" by code_simp
  then show ?thesis by (auto simp: map_option_case split: option.splits)
qed


text \<open>Ending a delayed session other than by a stop call does not reset \<open>delay_capturing\<close>.
  After an encoder error (-8) in a session with a delay, the next session's packets go to the
  interleaver before the plugin has begun to capture, and when it begins,
  \<open>obs_output_begin_data_capture\<close> answers false and no second \<open>start\<close> signal is given.\<close>

definition sample_failed_session :: "(life_env \<times> output_action) list" where
  "sample_failed_session =
     [(sample_life_env 1000, Set_Delay 5 0), (sample_life_env 1000, Start),
      (sample_life_env 6000000000, Packet (sample_video 0 True) None), (sample_life_env 6000000000, Begin_Capture),
      (sample_life_env 6000000000, Plugin_Stopped (- 8)), (sample_life_env 6000000000, End_Thread),
      (sample_life_env 7000000000, Start), (sample_life_env 13000000000, Packet (sample_video 0 True) None),
      (sample_life_env 20000000000, Packet (sample_audio 2 0) None)]"

definition session_summary :: "out_life \<Rightarrow> bool \<times> nat \<times> nat \<times> bool" where
  "session_summary out =
     (delay_active out, length (filter ((=) (Signal ''start'')) (ol_events out)),
      length (interleaved_packets (ol_il out)), snd (obs_output_begin_data_capture (sample_life_env 20000000000) out))"

theorem delayed_restart_never_starts:
  "map_option session_summary (life_run sample_life sample_failed_session) = Some (True, 1, 1, False)"
  by code_simp

section \<open>The batch limit\<close>

lemma batch_limit:
  "interleaver_max_batch_size (ol_il (calculate_batch_size ivs out)) =
     interleaver_max_batch_size (ol_il out) + sum_list (map (\<lambda>iv. unat (fold max ivs 0 * 2 div iv)) ivs)"
proof -
  have "interleaver_max_batch_size (ol_il (fold (\<lambda>iv out. let il = ol_il out in out\<lparr>ol_il := il\<lparr>interleaver_max_batch_size :=
      interleaver_max_batch_size il + unat (L * 2 div iv)\<rparr>\<rparr>) ivs out)) =
    interleaver_max_batch_size (ol_il out) + sum_list (map (\<lambda>iv. unat (L * 2 div iv)) ivs)" for L
    by (induction ivs arbitrary: out) (simp_all add: Let_def)
  then show ?thesis by (simp add: calculate_batch_size_def)
qed

lemma batch_hook: "interleaver_max_batch_size (ol_il (hook_data_capture out)) = interleaver_max_batch_size (ol_il out)"
  by (simp add: hook_data_capture_def Let_def start_encoders_def reset_packets_def reset_packet_data_def)

text \<open>The batch limit of the interleaver is not computed anew for a streaming session: each
  successful begin of the capture adds the size computed from the encoders' intervals to
  whatever the sessions before have left.\<close>

theorem batch_limit_accumulates:
  assumes "\<not> delay_active out" "\<not> active out" "le_media_valid E"
    and "obs_output_begin_data_capture E out = (out', b)"
  shows "b \<and> interleaver_max_batch_size (ol_il out') = interleaver_max_batch_size (ol_il out) +
    sum_list (map (\<lambda>iv. unat (fold max (le_batch_intervals E) 0 * 2 div iv)) (le_batch_intervals E))"
  using assms(4) unfolding obs_output_begin_data_capture_def if_not_P [OF assms(1)] if_not_P [OF assms(2)] can_begin_data_capture_def Let_def
  by (auto simp: assms(3) set_active_def do_output_signal_def batch_limit batch_hook split: if_splits)

theorem batch_limit_accumulates_witness:
  "interleaver_max_batch_size (ol_il (fst (obs_output_begin_data_capture (sample_life_env 0) sample_life))) = 6 + 4"
  using batch_limit_accumulates [of sample_life "sample_life_env 0"
      "fst (obs_output_begin_data_capture (sample_life_env 0) sample_life)"
      "snd (obs_output_begin_data_capture (sample_life_env 0) sample_life)"]
  by (simp add: sample_life_def sample_life_env_def active_def sample_output_def)

section \<open>Reconnecting\<close>

text \<open>Between two attempts: the reconnect thread waits, nothing else is going on.\<close>

definition waiting_to_reconnect :: "out_life \<Rightarrow> bool" where
  "waiting_to_reconnect out \<longleftrightarrow> reconnecting out \<and> \<not> reconnect_stop_event out \<and> reconnect_thread_active out \<and>
     \<not> active out \<and> \<not> delay_active out \<and> ol_stopping_event out \<and> reconnect_retry_max out \<noteq> 0"

definition failed_attempt :: "life_env \<times> life_env \<times> int \<Rightarrow> (life_env \<times> output_action) list" where
  "failed_attempt = (\<lambda>(E, E', code). [(E, Reconnect_Timeout), (E', Plugin_Stopped code)])"

definition attempt_fails :: "life_env \<times> life_env \<times> int \<Rightarrow> bool" where
  "attempt_fails = (\<lambda>(E, E', code). code \<noteq> OBS_OUTPUT_SUCCESS \<and> le_reconnect_cb E' code \<and> le_reconnect_thread_created E')"

definition reconnect_signals :: "out_life \<Rightarrow> nat" where
  "reconnect_signals out = length (filter (\<lambda>e. case e of Signal_Reconnect _ \<Rightarrow> True | _ \<Rightarrow> False) (ol_events out))"

lemma reconnect_attempt:
  assumes w: "waiting_to_reconnect out"
  shows "\<exists>o1. life_step E out Reconnect_Timeout = Some o1 \<and> waiting_to_reconnect (o1\<lparr>reconnect_thread_active := True\<rparr>) \<and>
    reconnect_retries o1 = reconnect_retries out \<and> reconnect_retry_max o1 = reconnect_retry_max out \<and>
    reconnect_signals o1 = reconnect_signals out"
  using w by (auto simp: life_step_def reconnect_thread_def obs_output_actual_start_def wait_stopping_def
      waiting_to_reconnect_def reconnect_signals_def active_def Let_def)

lemma attempt_fails_again:
  assumes w: "waiting_to_reconnect (out\<lparr>reconnect_thread_active := True\<rparr>)" and f: "attempt_fails (E, E', code)"
    and r: "reconnect_retries out < reconnect_retry_max out"
  shows "\<exists>o1. life_step E' out (Plugin_Stopped code) = Some o1 \<and> waiting_to_reconnect o1 \<and>
    reconnect_retries o1 = reconnect_retries out + 1 \<and> reconnect_retry_max o1 = reconnect_retry_max out \<and>
    reconnect_signals o1 = reconnect_signals out + 1"
proof -
  let ?o = "out\<lparr>ol_stop_code := code\<rparr>"
  have c: "can_reconnect E' ?o code" using w f by (simp add: can_reconnect_def attempt_fails_def waiting_to_reconnect_def)
  have i: "obs_output_end_data_capture_internal E' ?o False = Some ?o"
    using w by (simp add: obs_output_end_data_capture_internal_def waiting_to_reconnect_def active_def)
  have d: "\<not> delay_active ?o" using w by (simp add: waiting_to_reconnect_def)
  show ?thesis using w f r i c d
    by (simp add: life_step_def obs_output_signal_stop_def Let_def output_reconnect_def waiting_to_reconnect_def
        attempt_fails_def reconnect_signals_def signal_reconnect_def active_def)
qed

lemma attempt_fails_last:
  assumes w: "waiting_to_reconnect (out\<lparr>reconnect_thread_active := True\<rparr>)" and f: "attempt_fails (E, E', code)"
    and r: "reconnect_retries out \<ge> reconnect_retry_max out"
  shows "\<exists>o1. life_step E' out (Plugin_Stopped code) = Some o1 \<and> \<not> reconnecting o1 \<and> \<not> active o1 \<and>
    ol_events o1 = ol_events out @ [Signal_Stop OBS_OUTPUT_DISCONNECTED]"
proof -
  let ?o = "out\<lparr>ol_stop_code := code\<rparr>"
  have c: "can_reconnect E' ?o code" using w f by (simp add: can_reconnect_def attempt_fails_def waiting_to_reconnect_def)
  have i: "obs_output_end_data_capture_internal E' ?o False = Some ?o"
    using w by (simp add: obs_output_end_data_capture_internal_def waiting_to_reconnect_def active_def)
  have d: "\<not> delay_active ?o" using w by (simp add: waiting_to_reconnect_def)
  show ?thesis using w f r i c d
    by (simp add: life_step_def obs_output_signal_stop_def Let_def output_reconnect_def waiting_to_reconnect_def
        obs_output_end_data_capture_def obs_output_end_data_capture_internal_def signal_stop_def active_def)
qed


definition sample_waiting :: out_life where
  "sample_waiting = sample_life\<lparr>reconnecting := True, reconnect_thread_active := True, reconnect_retries := 1,
     reconnect_retry_max := 2\<rparr>"


text \<open>A retry whose \<open>info.start\<close> fails at once, without reporting a stop, ends the
  reconnection silently: \<open>reconnect_thread\<close> ignores the result. The output stays
  \<open>reconnecting\<close>, no thread is left that could try again, and no signal is given.\<close>

theorem failed_retry_leaves_reconnecting:
  assumes "waiting_to_reconnect out" and "\<not> ol_has_data out \<or> (\<forall>o1. \<not> le_start E o1)"
  shows "\<exists>out'. life_step E out Reconnect_Timeout = Some out' \<and> reconnecting out' \<and> \<not> reconnect_thread_active out' \<and>
    (\<forall>E'. life_step E' out' Reconnect_Timeout = None) \<and>
    (\<exists>evs. ol_events out' = ol_events out @ evs \<and> set evs \<subseteq> {Plugin_Start False})"
  using assms by (auto simp: life_step_def reconnect_thread_def obs_output_actual_start_def wait_stopping_def
      waiting_to_reconnect_def Let_def)

theorem failed_retry_leaves_reconnecting_witness:
  "\<exists>out'. life_step ((sample_life_env 1)\<lparr>le_start := \<lambda>_. False\<rparr>) sample_waiting Reconnect_Timeout = Some out' \<and>
    reconnecting out' \<and> \<not> reconnect_thread_active out'"
  using failed_retry_leaves_reconnecting [of sample_waiting "(sample_life_env 1)\<lparr>le_start := \<lambda>_. False\<rparr>"]
  by (auto simp: sample_waiting_def sample_life_def waiting_to_reconnect_def active_def)

end
