(* ===== verification/Bytes.thy ===== *)
theory Bytes
  imports Prelude
begin

text \<open>
  Numbers as bytes, and the byte level memory operations: little endian as the memory of the
  supported machines has them, big endian as the serialisers of \<open>libobs/util\<close> write them; C
  strings; reads and writes at the place where two parts of a block meet.
\<close>

section \<open>Byte order\<close>

fun le_bytes :: "nat \<Rightarrow> nat \<Rightarrow> byte list" where
  "le_bytes 0 n = []"
| "le_bytes (Suc k) n = of_nat n # le_bytes k (n div 256)"

fun le_nat :: "byte list \<Rightarrow> nat" where
  "le_nat [] = 0"
| "le_nat (b # bs) = unat b + 256 * le_nat bs"

definition be_bytes :: "nat \<Rightarrow> nat \<Rightarrow> byte list" where
  "be_bytes k n = rev (le_bytes k n)"

definition be_nat :: "byte list \<Rightarrow> nat" where
  "be_nat bs = le_nat (rev bs)"

lemma length_le_bytes [simp]: "length (le_bytes k n) = k"
  by (induction k arbitrary: n) simp_all

lemma length_be_bytes [simp]: "length (be_bytes k n) = k"
  by (simp add: be_bytes_def)

lemma le_bytes_zero: "le_bytes k 0 = replicate k 0"
  by (induction k) simp_all

lemma unat_byte: "unat (of_nat n :: byte) = n mod 256"
  by (simp add: unat_of_nat)

lemma le_nat_bytes [simp]: "n < 256 ^ k \<Longrightarrow> le_nat (le_bytes k n) = n"
proof (induction k arbitrary: n)
  case (Suc k)
  then have "n div 256 < 256 ^ k" by (simp add: less_mult_imp_div_less mult.commute)
  with Suc.IH show ?case by (simp add: unat_byte)
qed simp

lemma be_nat_bytes [simp]: "n < 256 ^ k \<Longrightarrow> be_nat (be_bytes k n) = n"
  by (simp add: be_nat_def be_bytes_def)

lemma le_nat_less: "le_nat bs < 256 ^ length bs"
proof (induction bs)
  case (Cons b bs)
  have "unat b < 256" using unsigned_less [of b] by simp
  moreover have "256 * le_nat bs + 256 \<le> 256 * 256 ^ length bs" using Cons.IH by simp
  ultimately show ?case by simp
qed simp

lemma le_bytes_nat: "le_bytes (length bs) (le_nat bs) = bs"
proof (induction bs)
  case (Cons b bs)
  have b: "unat b < 256" using unsigned_less [of b] by simp
  have "(of_nat (unat b + 256 * le_nat bs) :: byte) = b"
    using b by (intro word_unat_eq_iff [THEN iffD2]) (simp only: unat_byte mod_mult_self2 mod_less)
  moreover have "(unat b + 256 * le_nat bs) div 256 = le_nat bs" using b by simp
  ultimately show ?case using Cons.IH by simp
qed simp

section \<open>Blocks made of parts\<close>

lemma mem_read_at [mem_simps]: "p = length a \<Longrightarrow> n = length b \<Longrightarrow> mem_read p n (a @ b @ c) = Some b"
  by (simp add: mem_read_def)

lemma mem_write_at [mem_simps]:
  "p = length a \<Longrightarrow> length xs = length b \<Longrightarrow> mem_write p xs (a @ b @ c) = Some (a @ xs @ c)"
  by (simp add: mem_write_def)

text \<open>Reading initialised bytes.\<close>

definition mem_bytes :: "nat \<Rightarrow> nat \<Rightarrow> 'a option list \<Rightarrow> 'a list option" where
  "mem_bytes p n m = Option.bind (mem_read p n m) those"

lemma those_Some [simp]: "those (map Some xs) = Some xs"
  by (induction xs) simp_all

lemma mem_bytes_at [mem_simps]:
  "p = length a \<Longrightarrow> n = length b \<Longrightarrow> mem_bytes p n (a @ map Some b @ c) = Some b"
  by (simp add: mem_bytes_def mem_read_at)

lemma mem_bytes_bound: "mem_bytes p n m = Some bs \<Longrightarrow> p + n \<le> length m"
  by (auto simp: mem_bytes_def bind_eq_Some_conv mem_read_Some)

section \<open>C strings\<close>

text \<open>\<open>strcmp(p, s) = 0\<close> for a string in memory and a known string; the scan stops at the first
  difference.\<close>

fun mem_streq :: "byte list \<Rightarrow> nat \<Rightarrow> byte option list \<Rightarrow> bool option" where
  "mem_streq [] p m = map_option (\<lambda>c. c = [0]) (mem_bytes p 1 m)"
| "mem_streq (x # xs) p m = do {
     c \<leftarrow> mem_bytes p 1 m;
     if c = [x] then mem_streq xs (p + 1) m else Some False
   }"

lemma mem_streq_same:
  "p = length a \<Longrightarrow> mem_streq s p (a @ map Some (s @ [0]) @ c) = Some True"
proof (induction s arbitrary: a p)
  case Nil
  then show ?case using mem_bytes_at [of p a 1 "[0]" c] by simp
next
  case (Cons x xs)
  have "mem_bytes p 1 (a @ map Some [x] @ map Some (xs @ [0]) @ c) = Some [x]"
    by (rule mem_bytes_at) (simp_all add: Cons.prems)
  moreover have "mem_streq xs (p + 1) ((a @ [Some x]) @ map Some (xs @ [0]) @ c) = Some True"
    using Cons.prems by (intro Cons.IH) simp
  ultimately show ?case by simp
qed

lemma mem_streq_differs:
  "p = length a \<Longrightarrow> 0 \<notin> set s \<Longrightarrow> 0 \<notin> set t \<Longrightarrow> s \<noteq> t \<Longrightarrow>
    mem_streq s p (a @ map Some (t @ [0]) @ c) = Some False"
proof (induction s arbitrary: a p t)
  case Nil
  then obtain y ys where t: "t = y # ys" "y \<noteq> 0" by (cases t) auto
  have "mem_bytes p 1 (a @ map Some [y] @ map Some (ys @ [0]) @ c) = Some [y]"
    by (rule mem_bytes_at) (simp_all add: Nil)
  with t show ?case by simp
next
  case (Cons x xs)
  obtain y ys where t: "t @ [0] = y # ys" by (cases t) auto
  have r: "mem_bytes p 1 (a @ map Some [y] @ map Some ys @ c) = Some [y]"
    by (rule mem_bytes_at) (simp_all add: Cons.prems)
  show ?case
  proof (cases "x = y")
    case True
    with Cons.prems t obtain t0 where t': "t = x # t0" "ys = t0 @ [0]" by (cases t) auto
    have "mem_streq xs (p + 1) ((a @ [Some x]) @ map Some (t0 @ [0]) @ c) = Some False"
      using Cons.prems t' by (intro Cons.IH) auto
    with r True t' show ?thesis by simp
  next
    case False
    with r t show ?thesis by (simp del: map_append)
  qed
qed

text \<open>The string a \<open>char *\<close> points to.\<close>

definition mem_cstring :: "nat \<Rightarrow> byte option list \<Rightarrow> byte list option" where
  "mem_cstring p m = Option.bind (first_idx (\<lambda>c. c = Some 0) (drop p m)) (\<lambda>n. mem_bytes p n m)"

lemma mem_cstring_at:
  assumes "p = length a" "0 \<notin> set s"
  shows "mem_cstring p (a @ map Some (s @ [0]) @ c) = Some s"
proof -
  have "first_idx (\<lambda>c. c = Some 0) (map Some (s @ [0]) @ c) = Some (length s)"
    using assms(2) by (auto simp: first_idx_Some nth_append in_set_conv_nth)
  moreover have "mem_bytes p (length s) (a @ map Some s @ (map Some [0] @ c)) = Some s"
    by (rule mem_bytes_at) (simp_all add: assms)
  ultimately show ?thesis by (simp add: mem_cstring_def assms)
qed

end
