(* ===== verification/Darray.thy ===== *)
theory Darray
  imports Bytes
begin

text \<open>
  The growing array of \<open>libobs/util/darray.h\<close>, under nearly every list of the program. A cell
  is one element; cells nothing has written are \<^term>\<open>None\<close>. An operation is \<^term>\<open>None\<close> when the
  code would leave the block, compare an uninitialised element or fail an \<open>assert\<close>. A null
  pointer is the empty block.
\<close>

section \<open>State and operations\<close>

record 'a darray =
  da_array :: "'a option list"
  da_num :: nat
  da_capacity :: nat

definition darray_init :: "'a darray" where
  "darray_init = \<lparr>da_array = [], da_num = 0, da_capacity = 0\<rparr>"

definition darray_free :: "'a darray \<Rightarrow> 'a darray" where
  "darray_free d = darray_init"

definition mem_move :: "nat \<Rightarrow> nat \<Rightarrow> nat \<Rightarrow> 'a list \<Rightarrow> 'a list option" where
  "mem_move dst src n m = Option.bind (mem_read src n m) (\<lambda>xs. mem_write dst xs m)"

definition da_write :: "nat \<Rightarrow> 'a option list \<Rightarrow> 'a darray \<Rightarrow> 'a darray option" where
  "da_write off xs d = map_option (\<lambda>m. d\<lparr>da_array := m\<rparr>) (mem_write off xs (da_array d))"

definition da_move :: "nat \<Rightarrow> nat \<Rightarrow> nat \<Rightarrow> 'a darray \<Rightarrow> 'a darray option" where
  "da_move dst src n d = map_option (\<lambda>m. d\<lparr>da_array := m\<rparr>) (mem_move dst src n (da_array d))"

definition darray_item :: "'a darray \<Rightarrow> nat \<Rightarrow> 'a option" where
  "darray_item d idx = map_option hd (mem_bytes idx 1 (da_array d))"

definition darray_end :: "'a darray \<Rightarrow> nat option" where
  "darray_end d = (if da_num d = 0 then None else Some (da_num d - 1))"

definition darray_reserve :: "'a darray \<Rightarrow> nat \<Rightarrow> 'a darray option" where
  "darray_reserve d capacity =
     (if capacity = 0 \<or> capacity \<le> da_capacity d then Some d
      else do {
        xs \<leftarrow> mem_read 0 (da_num d) (da_array d);
        ptr \<leftarrow> mem_write 0 xs (replicate capacity None);
        Some (d\<lparr>da_array := ptr, da_capacity := capacity\<rparr>)
      })"

definition darray_ensure_capacity :: "'a darray \<Rightarrow> nat \<Rightarrow> 'a darray option" where
  "darray_ensure_capacity d new_size =
     (if new_size \<le> da_capacity d then Some d
      else
        let new_cap = (if da_capacity d = 0 then new_size else da_capacity d * 2);
            new_cap = (if new_size > new_cap then new_size else new_cap)
        in do {
          xs \<leftarrow> mem_read 0 (da_capacity d) (da_array d);
          ptr \<leftarrow> mem_write 0 xs (replicate new_cap None);
          Some (d\<lparr>da_array := ptr, da_capacity := new_cap\<rparr>)
        })"

definition darray_clear :: "'a darray \<Rightarrow> 'a darray" where
  "darray_clear d = d\<lparr>da_num := 0\<rparr>"

definition darray_resize :: "'a::zero darray \<Rightarrow> nat \<Rightarrow> 'a darray option" where
  "darray_resize d sz =
     (if sz = da_num d then Some d
      else if sz = 0 then Some (d\<lparr>da_num := 0\<rparr>)
      else do {
        let old_num = da_num d;
        d' \<leftarrow> darray_ensure_capacity d sz;
        let d' = d'\<lparr>da_num := sz\<rparr>;
        if sz > old_num then da_write old_num (replicate (sz - old_num) (Some 0)) d' else Some d'
      })"

definition darray_copy_array :: "'a::zero darray \<Rightarrow> 'a option list \<Rightarrow> nat \<Rightarrow> 'a darray option" where
  "darray_copy_array d array n = do {
     d \<leftarrow> darray_resize d n;
     xs \<leftarrow> mem_read 0 (da_num d) array;
     da_write 0 xs d
   }"

definition darray_copy :: "'a::zero darray \<Rightarrow> 'a darray \<Rightarrow> 'a darray option" where
  "darray_copy dst da =
     (if da_num da = 0 then Some (darray_free dst)
      else do {
        dst \<leftarrow> darray_resize dst (da_num da);
        xs \<leftarrow> mem_read 0 (da_num da) (da_array da);
        da_write 0 xs dst
      })"

definition darray_move :: "'a darray \<Rightarrow> 'a darray \<Rightarrow> 'a darray \<times> 'a darray" where
  "darray_move dst src = (src, darray_init)"

fun find_from :: "nat \<Rightarrow> 'a darray \<Rightarrow> 'a \<Rightarrow> nat \<Rightarrow> nat option option" where
  "find_from 0 d item i = Some None"
| "find_from (Suc n) d item i = do {
     x \<leftarrow> darray_item d i;
     if x = item then Some (Some i) else find_from n d item (i + 1)
   }"

definition darray_find :: "'a darray \<Rightarrow> 'a \<Rightarrow> nat \<Rightarrow> nat option option" where
  "darray_find d item idx = (if idx \<le> da_num d then find_from (da_num d - idx) d item idx else None)"

definition darray_push_back :: "'a darray \<Rightarrow> 'a \<Rightarrow> ('a darray \<times> nat) option" where
  "darray_push_back d item = do {
     let d = d\<lparr>da_num := da_num d + 1\<rparr>;
     d \<leftarrow> darray_ensure_capacity d (da_num d);
     p \<leftarrow> darray_end d;
     d \<leftarrow> da_write p [Some item] d;
     Some (d, da_num d - 1)
   }"

definition darray_push_back_new :: "'a::zero darray \<Rightarrow> ('a darray \<times> nat) option" where
  "darray_push_back_new d = do {
     let d = d\<lparr>da_num := da_num d + 1\<rparr>;
     d \<leftarrow> darray_ensure_capacity d (da_num d);
     p \<leftarrow> darray_end d;
     d \<leftarrow> da_write p [Some 0] d;
     Some (d, p)
   }"

definition darray_push_back_array :: "'a::zero darray \<Rightarrow> 'a option list \<Rightarrow> nat \<Rightarrow> ('a darray \<times> nat) option" where
  "darray_push_back_array d array n =
     (if n = 0 then Some (d, da_num d)
      else do {
        let old_num = da_num d;
        d \<leftarrow> darray_resize d (da_num d + n);
        xs \<leftarrow> mem_read 0 n array;
        d \<leftarrow> da_write old_num xs d;
        Some (d, old_num)
      })"

definition darray_push_back_darray :: "'a::zero darray \<Rightarrow> 'a darray \<Rightarrow> ('a darray \<times> nat) option" where
  "darray_push_back_darray d da = darray_push_back_array d (da_array da) (da_num da)"

definition darray_insert :: "'a darray \<Rightarrow> nat \<Rightarrow> 'a \<Rightarrow> 'a darray option" where
  "darray_insert d idx item =
     (if idx > da_num d then None
      else if idx = da_num d then map_option fst (darray_push_back d item)
      else do {
        let move_count = da_num d - idx;
        let d = d\<lparr>da_num := da_num d + 1\<rparr>;
        d \<leftarrow> darray_ensure_capacity d (da_num d);
        d \<leftarrow> da_move (idx + 1) idx move_count d;
        da_write idx [Some item] d
      })"

definition darray_insert_new :: "'a::zero darray \<Rightarrow> nat \<Rightarrow> ('a darray \<times> nat) option" where
  "darray_insert_new d idx =
     (if idx > da_num d then None
      else if idx = da_num d then darray_push_back_new d
      else do {
        let move_count = da_num d - idx;
        let d = d\<lparr>da_num := da_num d + 1\<rparr>;
        d \<leftarrow> darray_ensure_capacity d (da_num d);
        d \<leftarrow> da_move (idx + 1) idx move_count d;
        map_option (\<lambda>d. (d, idx)) (da_write idx [Some 0] d)
      })"

definition darray_insert_array :: "'a::zero darray \<Rightarrow> nat \<Rightarrow> 'a option list \<Rightarrow> nat \<Rightarrow> 'a darray option" where
  "darray_insert_array d idx array n =
     (if n = 0 \<or> idx > da_num d then None
      else do {
        let old_num = da_num d;
        d \<leftarrow> darray_resize d (da_num d + n);
        d \<leftarrow> da_move (idx + n) idx (old_num - idx) d;
        xs \<leftarrow> mem_read 0 n array;
        da_write idx xs d
      })"

definition darray_insert_darray :: "'a::zero darray \<Rightarrow> nat \<Rightarrow> 'a darray \<Rightarrow> 'a darray option" where
  "darray_insert_darray d idx da = darray_insert_array d idx (da_array da) (da_num da)"

definition darray_erase :: "'a darray \<Rightarrow> nat \<Rightarrow> 'a darray option" where
  "darray_erase d idx =
     (if idx \<ge> da_num d then None
      else let d = d\<lparr>da_num := da_num d - 1\<rparr>
        in if da_num d = 0 then Some d else da_move idx (idx + 1) (da_num d - idx) d)"

definition darray_erase_item :: "'a darray \<Rightarrow> 'a \<Rightarrow> 'a darray option" where
  "darray_erase_item d item = do {
     idx \<leftarrow> darray_find d item 0;
     case idx of None \<Rightarrow> Some d | Some i \<Rightarrow> darray_erase d i
   }"

definition darray_erase_range :: "'a darray \<Rightarrow> nat \<Rightarrow> nat \<Rightarrow> 'a darray option" where
  "darray_erase_range d start end' =
     (if start > da_num d \<or> end' > da_num d \<or> end' \<le> start then None
      else let count = end' - start
        in if count = 1 then darray_erase d start
           else if count = da_num d then Some (d\<lparr>da_num := 0\<rparr>)
           else do {
             let move_count = da_num d - end';
             d \<leftarrow> (if move_count \<noteq> 0 then da_move start end' move_count d else Some d);
             Some (d\<lparr>da_num := da_num d - count\<rparr>)
           })"

definition darray_pop_front :: "'a darray \<Rightarrow> 'a darray option" where
  "darray_pop_front d = (if da_num d = 0 then None else darray_erase d 0)"

definition darray_pop_back :: "'a darray \<Rightarrow> 'a darray option" where
  "darray_pop_back d = (if da_num d = 0 then None else darray_erase d (da_num d - 1))"

definition darray_join :: "'a::zero darray \<Rightarrow> 'a darray \<Rightarrow> ('a darray \<times> 'a darray) option" where
  "darray_join dst da = map_option (\<lambda>(d, _). (d, darray_free da)) (darray_push_back_darray dst da)"

definition darray_split :: "'a::zero darray \<Rightarrow> nat \<Rightarrow> ('a darray \<times> 'a darray) option" where
  "darray_split da idx =
     (if da_num da < idx then None
      else do {
        temp \<leftarrow> darray_copy darray_init da;
        if da_num da = 0 then Some (darray_init, darray_init)
        else do {
          dst1 \<leftarrow> (if idx \<noteq> 0 then darray_copy_array darray_init (da_array temp) (da_num temp)
                   else Some darray_init);
          dst2 \<leftarrow> (if idx < da_num temp - 1
                   then darray_copy_array darray_init (drop idx (da_array temp)) (da_num temp - idx)
                   else Some darray_init);
          Some (dst1, dst2)
        }
      })"

definition darray_move_item :: "'a darray \<Rightarrow> nat \<Rightarrow> nat \<Rightarrow> 'a darray option" where
  "darray_move_item d from to =
     (if from = to then Some d
      else do {
        temp \<leftarrow> mem_read from 1 (da_array d);
        d \<leftarrow> (if to < from then da_move (to + 1) to (from - to) d
              else da_move from (from + 1) (to - from) d);
        da_write to temp d
      })"

definition darray_swap :: "'a darray \<Rightarrow> nat \<Rightarrow> nat \<Rightarrow> 'a darray option" where
  "darray_swap d a b =
     (if a \<ge> da_num d \<or> b \<ge> da_num d then None
      else if a = b then Some d
      else do {
        temp \<leftarrow> mem_read a 1 (da_array d);
        xs \<leftarrow> mem_read b 1 (da_array d);
        d \<leftarrow> da_write a xs d;
        da_write b temp d
      })"

end
