(* ===== verification/Darray_List.thy ===== *)
theory Darray_List
  imports Darray
begin

text \<open>
  The growing array is a list: each operation of \<open>darray.h\<close> does to the elements what its
  name says, through every reallocation and move, with the exception of \<open>darray_split\<close>.
\<close>

section \<open>Abstraction\<close>

definition da_repr :: "'a darray \<Rightarrow> 'a list \<Rightarrow> bool" where
  "da_repr d xs \<longleftrightarrow> da_num d = length xs \<and>
     (\<exists>junk. da_array d = map Some xs @ junk \<and> da_capacity d = length xs + length junk)"

lemma da_repr_num: "da_repr d xs \<Longrightarrow> da_num d = length xs"
  by (simp add: da_repr_def)

lemma da_repr_init: "da_repr darray_init []"
  by (simp add: da_repr_def darray_init_def)

text \<open>The block holds what \<open>ensure_capacity\<close> was called on, and grows at its end.\<close>

lemma da_ensure:
  assumes "da_capacity d = length (da_array d)"
  shows "\<exists>more. darray_ensure_capacity d n =
      Some (d\<lparr>da_array := da_array d @ more, da_capacity := length (da_array d @ more)\<rparr>) \<and>
    n \<le> length (da_array d @ more)"
proof (cases "n \<le> da_capacity d")
  case True
  with assms show ?thesis by (intro exI [of _ "[]"]) (simp add: darray_ensure_capacity_def)
next
  case False
  let ?c = "if n > (if da_capacity d = 0 then n else da_capacity d * 2) then n
    else (if da_capacity d = 0 then n else da_capacity d * 2)"
  let ?c' = "max n (da_capacity d * 2)"
  have c: "?c = ?c'" "length (da_array d) \<le> ?c'" using False assms by auto
  have w: "mem_write 0 (da_array d) (replicate ?c' None) = Some (da_array d @ replicate (?c' - length (da_array d)) None)"
    using c(2) by (simp add: mem_write_def)
  have e: "darray_ensure_capacity d n =
      Some (d\<lparr>da_array := da_array d @ replicate (?c' - length (da_array d)) None, da_capacity := ?c'\<rparr>)"
    using w assms unfolding darray_ensure_capacity_def if_not_P [OF False] Let_def c(1) by (simp add: mem_read_def)
  show ?thesis by (rule exI [of _ "replicate (?c' - length (da_array d)) None"]) (use e c(2) in simp)
qed

lemma list_room: "k \<le> length j \<Longrightarrow> \<exists>j1 j2. j = j1 @ j2 \<and> length j1 = k"
  by (metis append_take_drop_id length_take min.absorb2)

text \<open>Room for \<open>k\<close> further elements.\<close>

lemma da_grow:
  assumes "da_repr d xs" "n = length xs + k"
  shows "\<exists>j1 j2. darray_ensure_capacity (d\<lparr>da_num := m\<rparr>) n =
      Some (d\<lparr>da_num := m, da_array := map Some xs @ j1 @ j2, da_capacity := n + length j2\<rparr>) \<and> length j1 = k"
proof -
  from assms(1) obtain junk where j: "da_array d = map Some xs @ junk" "da_capacity d = length xs + length junk"
    by (auto simp: da_repr_def)
  from da_ensure [of "d\<lparr>da_num := m\<rparr>" n] j obtain more where
    e: "darray_ensure_capacity (d\<lparr>da_num := m\<rparr>) n =
      Some (d\<lparr>da_num := m, da_array := map Some xs @ (junk @ more), da_capacity := length (map Some xs @ junk @ more)\<rparr>)"
    "n \<le> length (map Some xs @ junk @ more)" by auto
  obtain j1 j2 where jj: "junk @ more = j1 @ j2" "length j1 = k"
    using list_room [of k "junk @ more"] e(2) assms(2) by auto
  have "length (map Some xs @ junk @ more) = n + length j2"
    unfolding jj(1) using jj(2) assms(2) by simp
  with e(1) jj show ?thesis by (metis append_assoc)
qed

lemma da_write_at:
  "da_array d = a @ b @ c \<Longrightarrow> p = length a \<Longrightarrow> length xs = length b \<Longrightarrow>
    da_write p xs d = Some (d\<lparr>da_array := a @ xs @ c\<rparr>)"
  by (simp add: da_write_def mem_write_at)

text \<open>A move to the right over a gap, and to the left over what is dropped.\<close>

lemma da_move_right:
  assumes "da_array d = a @ b @ g @ c" "src = length a" "n = length b" "dst = length a + length g"
  shows "\<exists>x. da_move dst src n d = Some (d\<lparr>da_array := a @ x @ b @ c\<rparr>) \<and> length x = length g"
proof -
  have r: "mem_read src n (da_array d) = Some b" using assms by (simp add: mem_read_def)
  have w: "mem_write dst b (da_array d) = Some (a @ take (length g) (b @ g) @ b @ c)"
    using assms by (simp add: mem_write_def)
  show ?thesis by (rule exI [of _ "take (length g) (b @ g)"]) (use r w in \<open>simp add: da_move_def mem_move_def\<close>)
qed

lemma da_move_left:
  assumes "da_array d = a @ g @ b @ c" "src = length a + length g" "n = length b" "dst = length a"
  shows "\<exists>x. da_move dst src n d = Some (d\<lparr>da_array := a @ b @ x @ c\<rparr>) \<and> length x = length g"
proof -
  have r: "mem_read src n (da_array d) = Some b" using assms by (simp add: mem_read_def)
  have w: "mem_write dst b (da_array d) = Some (a @ b @ drop (length b) (g @ b) @ c)"
    using assms by (simp add: mem_write_def)
  show ?thesis by (rule exI [of _ "drop (length b) (g @ b)"]) (use r w in \<open>simp add: da_move_def mem_move_def\<close>)
qed

section \<open>Operations\<close>

definition list_resize :: "nat \<Rightarrow> 'a::zero list \<Rightarrow> 'a list" where
  "list_resize n xs = take n xs @ replicate (n - length xs) 0"

lemma da_resize:
  assumes "da_repr d xs"
  shows "\<exists>d'. darray_resize d n = Some d' \<and> da_repr d' (list_resize n xs)"
proof -
  from assms obtain junk where j: "da_array d = map Some xs @ junk" "da_num d = length xs"
    "da_capacity d = length xs + length junk" by (auto simp: da_repr_def)
  consider "n = length xs" | "n < length xs" | "n > length xs" by linarith
  then show ?thesis
  proof cases
    case 1
    with assms j show ?thesis by (simp add: darray_resize_def list_resize_def)
  next
    case 2
    have a: "da_array d = map Some (take n xs) @ (map Some (drop n xs) @ junk)"
      by (metis append_assoc append_take_drop_id j(1) map_append)
    have "da_repr (d\<lparr>da_num := n\<rparr>) (take n xs)"
      using 2 j a by (auto simp: da_repr_def intro!: exI [of _ "map Some (drop n xs) @ junk"])
    moreover have "darray_resize d n = Some (d\<lparr>da_num := n\<rparr>)"
      using 2 j by (simp add: darray_resize_def darray_ensure_capacity_def)
    ultimately show ?thesis using 2 by (simp add: list_resize_def)
  next
    case 3
    from da_grow [OF assms, of n "n - length xs" "da_num d"] 3 obtain j1 j2 where
      g: "darray_ensure_capacity d n = Some (d\<lparr>da_num := da_num d, da_array := map Some xs @ j1 @ j2, da_capacity := n + length j2\<rparr>)"
      "length j1 = n - length xs" by auto
    have "darray_resize d n =
      Some (d\<lparr>da_num := n, da_array := map Some xs @ replicate (n - length xs) (Some 0) @ j2, da_capacity := n + length j2\<rparr>)"
      using 3 j g by (simp add: darray_resize_def Let_def da_write_at [where a = "map Some xs" and b = j1])
    then show ?thesis using 3 by (simp add: da_repr_def list_resize_def)
  qed
qed

lemma da_room:
  assumes "da_repr d xs"
  shows "\<exists>j1 j2. darray_ensure_capacity (d\<lparr>da_num := length xs + 1\<rparr>) (length xs + 1) =
      Some (d\<lparr>da_num := length xs + 1, da_array := map Some xs @ j1 @ j2, da_capacity := length xs + 1 + length j2\<rparr>) \<and>
    length j1 = 1"
  by (rule da_grow [OF assms]) simp

lemma da_write_one:
  "da_array d = a @ g # c \<Longrightarrow> p = length a \<Longrightarrow> da_write p [x] d = Some (d\<lparr>da_array := a @ x # c\<rparr>)"
  using da_write_at [of d a "[g]" c p "[x]"] by simp

lemma da_push_back:
  assumes "da_repr d xs"
  shows "\<exists>d'. darray_push_back d x = Some (d', length xs) \<and> da_repr d' (xs @ [x])"
    and "da_repr e ys \<Longrightarrow> \<exists>d'. darray_push_back_new e = Some (d', length ys) \<and> da_repr d' (ys @ [0])"
proof -
  from da_room [OF assms] da_repr_num [OF assms]
  show "\<exists>d'. darray_push_back d x = Some (d', length xs) \<and> da_repr d' (xs @ [x])"
    by (auto simp: darray_push_back_def Let_def darray_end_def da_write_at [where a = "map Some xs"] da_repr_def)
  assume e: "da_repr e ys"
  from da_room [OF e] da_repr_num [OF e]
  show "\<exists>d'. darray_push_back_new e = Some (d', length ys) \<and> da_repr d' (ys @ [0])"
    by (auto simp: darray_push_back_new_def Let_def darray_end_def da_write_at [where a = "map Some ys"] da_repr_def)
qed

lemma da_push_back_array:
  assumes "da_repr d xs"
  shows "\<exists>d'. darray_push_back_array d (map Some ys @ rest) (length ys) = Some (d', length xs) \<and> da_repr d' (xs @ ys)"
proof (cases "ys = []")
  case True
  with assms show ?thesis by (simp add: darray_push_back_array_def da_repr_num)
next
  case False
  obtain d1 where d1: "darray_resize d (length xs + length ys) = Some d1" "da_repr d1 (xs @ replicate (length ys) 0)"
    using da_resize [OF assms, of "length xs + length ys"] by (auto simp: list_resize_def)
  then obtain junk where j: "da_array d1 = map Some xs @ replicate (length ys) (Some 0) @ junk"
    "da_num d1 = length xs + length ys" "da_capacity d1 = length xs + length ys + length junk"
    by (auto simp: da_repr_def map_replicate_const)
  have "da_write (length xs) (map Some ys) d1 = Some (d1\<lparr>da_array := map Some xs @ map Some ys @ junk\<rparr>)"
    by (rule da_write_at [OF j(1)]) simp_all
  then show ?thesis using False d1(1) j da_repr_num [OF assms]
    by (simp add: darray_push_back_array_def mem_read_def Let_def da_repr_def)
qed

lemma da_repr_array: "da_repr d xs \<Longrightarrow> \<exists>rest. da_array d = map Some xs @ rest"
  by (auto simp: da_repr_def)


lemma split_at: "idx \<le> length xs \<Longrightarrow> \<exists>a b. xs = a @ b \<and> length a = idx"
  by (metis append_take_drop_id length_take min.absorb2)

text \<open>Inserting one element, given or zero.\<close>

lemma da_insert_gap:
  assumes "da_repr d (a @ b)"
  shows "\<exists>d1 g c. darray_ensure_capacity (d\<lparr>da_num := length (a @ b) + 1\<rparr>) (length (a @ b) + 1) = Some d1 \<and>
    da_num d1 = length (a @ b) + 1 \<and>
    da_move (length a + 1) (length a) (length b) d1 = Some (d1\<lparr>da_array := map Some a @ [g] @ map Some b @ c\<rparr>) \<and>
    da_capacity d1 = length a + 1 + length b + length c"
proof -
  from da_grow [OF assms, of "length (a @ b) + 1" 1 "length (a @ b) + 1"] obtain j1 j2 where
    g: "darray_ensure_capacity (d\<lparr>da_num := length (a @ b) + 1\<rparr>) (length (a @ b) + 1) =
      Some (d\<lparr>da_num := length (a @ b) + 1, da_array := map Some (a @ b) @ j1 @ j2, da_capacity := length (a @ b) + 1 + length j2\<rparr>)"
    "length j1 = 1" by auto
  let ?d1 = "d\<lparr>da_num := length (a @ b) + 1, da_array := map Some (a @ b) @ j1 @ j2, da_capacity := length (a @ b) + 1 + length j2\<rparr>"
  have "\<exists>x. da_move (length a + 1) (length a) (length b) ?d1 = Some (?d1\<lparr>da_array := map Some a @ x @ map Some b @ j2\<rparr>) \<and> length x = length j1"
    by (rule da_move_right) (simp_all add: g)
  then obtain x where x: "da_move (length a + 1) (length a) (length b) ?d1 = Some (?d1\<lparr>da_array := map Some a @ [x] @ map Some b @ j2\<rparr>)"
    using g(2) by (auto simp: length_Suc_conv)
  show ?thesis
    by (intro exI [of _ ?d1] exI [of _ x] exI [of _ j2] conjI, rule g(1), simp, rule x, simp)
qed

lemma da_insert:
  assumes "da_repr d (a @ b)"
  shows "\<exists>d'. darray_insert d (length a) x = Some d' \<and> da_repr d' (a @ x # b)"
    and "da_repr e (a' @ b') \<Longrightarrow> \<exists>d'. darray_insert_new e (length a') = Some (d', length a') \<and> da_repr d' (a' @ 0 # b')"
proof -
  show "\<exists>d'. darray_insert d (length a) x = Some d' \<and> da_repr d' (a @ x # b)"
  proof (cases "b = []")
    case True
    with da_push_back(1) [OF assms, of x] da_repr_num [OF assms] show ?thesis by (auto simp: darray_insert_def)
  next
    case False
    with da_insert_gap [OF assms] da_repr_num [OF assms] show ?thesis
      by (auto simp: darray_insert_def Let_def da_write_one [where a = "map Some a"] da_repr_def)
  qed
  assume that: "da_repr e (a' @ b')"
  show "\<exists>d'. darray_insert_new e (length a') = Some (d', length a') \<and> da_repr d' (a' @ 0 # b')"
  proof (cases "b' = []")
    case True
    with da_push_back(2) [OF assms that] da_repr_num [OF that] show ?thesis by (auto simp: darray_insert_new_def)
  next
    case False
    with da_insert_gap [OF that] da_repr_num [OF that] show ?thesis
      by (auto simp: darray_insert_new_def Let_def da_write_one [where a = "map Some a'"] da_repr_def)
  qed
qed

lemma da_insert_array:
  assumes "da_repr d (a @ b)" "ys \<noteq> []"
  shows "\<exists>d'. darray_insert_array d (length a) (map Some ys @ rest) (length ys) = Some d' \<and> da_repr d' (a @ ys @ b)"
proof -
  obtain d1 where d1: "darray_resize d (length (a @ b) + length ys) = Some d1"
    "da_repr d1 (a @ b @ replicate (length ys) 0)"
    using da_resize [OF assms(1), of "length (a @ b) + length ys"] by (auto simp: list_resize_def)
  then obtain junk where j: "da_array d1 = map Some a @ map Some b @ replicate (length ys) (Some 0) @ junk"
    "da_num d1 = length (a @ b) + length ys" "da_capacity d1 = length (a @ b) + length ys + length junk"
    by (auto simp: da_repr_def map_replicate_const)
  have "\<exists>x. da_move (length a + length ys) (length a) (length b) d1 =
      Some (d1\<lparr>da_array := map Some a @ x @ map Some b @ junk\<rparr>) \<and> length x = length (replicate (length ys) (Some (0 :: 'a)))"
    by (rule da_move_right) (simp_all add: j)
  then obtain x where x: "da_move (length a + length ys) (length a) (length b) d1 =
      Some (d1\<lparr>da_array := map Some a @ x @ map Some b @ junk\<rparr>)" "length x = length ys" by auto
  have "da_write (length a) (map Some ys) (d1\<lparr>da_array := map Some a @ x @ map Some b @ junk\<rparr>) =
      Some (d1\<lparr>da_array := map Some a @ map Some ys @ map Some b @ junk\<rparr>)"
    using x(2) by (subst da_write_at [where a = "map Some a" and b = x]) simp_all
  then show ?thesis using assms(2) d1(1) x(1) j(2,3) da_repr_num [OF assms(1)]
    by (simp add: darray_insert_array_def mem_read_def Let_def da_repr_def)
qed

text \<open>Taking a range out.\<close>

lemma da_close_gap:
  assumes "da_repr d (a @ g @ b)" "n = length (a @ b)" "k = length a + length g"
  shows "\<exists>c. da_move (length a) k (length b) d = Some (d\<lparr>da_array := map Some (a @ b) @ c\<rparr>) \<and>
      da_capacity d = n + length c"
proof -
  from assms(1) obtain junk where j: "da_array d = map Some a @ map Some g @ map Some b @ junk"
    "da_capacity d = length (a @ g @ b) + length junk" by (auto simp: da_repr_def)
  have "\<exists>x. da_move (length a) k (length b) d = Some (d\<lparr>da_array := map Some a @ map Some b @ x @ junk\<rparr>) \<and> length x = length (map Some g)"
    by (rule da_move_left [OF j(1)]) (simp_all add: assms)
  then obtain x where "da_move (length a) k (length b) d = Some (d\<lparr>da_array := map Some (a @ b) @ x @ junk\<rparr>)"
    "length x = length g" by auto
  then show ?thesis using j(2) assms(2) by (intro exI [of _ "x @ junk"]) simp
qed

lemma da_erase:
  assumes "da_repr d (a @ x # b)"
  shows "\<exists>d'. darray_erase d (length a) = Some d' \<and> da_repr d' (a @ b)"
proof -
  have n: "da_num d = length a + length b + 1" using da_repr_num [OF assms] by simp
  have mv: "da_move i k m (d\<lparr>da_num := l\<rparr>) = map_option (\<lambda>d. d\<lparr>da_num := l\<rparr>) (da_move i k m d)" for i k m l
    by (cases "mem_move i k m (da_array d)") (simp_all add: da_move_def)
  show ?thesis
  proof (cases "a @ b = []")
    case True
    with assms show ?thesis by (auto simp: darray_erase_def da_repr_def)
  next
    case False
    from da_close_gap [of d a "[x]" b] assms obtain c where
      "da_move (length a) (length a + 1) (length b) d = Some (d\<lparr>da_array := map Some (a @ b) @ c\<rparr>)"
      "da_capacity d = length (a @ b) + length c" by auto
    then show ?thesis using n False by (auto simp: darray_erase_def Let_def mv da_repr_def)
  qed
qed

lemma da_erase_range:
  assumes "da_repr d (a @ g @ b)" "g \<noteq> []"
  shows "\<exists>d'. darray_erase_range d (length a) (length a + length g) = Some d' \<and> da_repr d' (a @ b)"
proof -
  have n: "da_num d = length a + length g + length b" using da_repr_num [OF assms(1)] by simp
  have lg: "length g \<noteq> 0" using assms(2) by simp
  consider (one) "length g = 1" | (all) "length g \<noteq> 1" "a = []" "b = []" | (some) "length g \<noteq> 1" "a @ b \<noteq> []" by blast
  then show ?thesis
  proof cases
    case one
    then obtain x where "g = [x]" by (auto simp: length_Suc_conv)
    with da_erase [of d a x b] assms(1) n show ?thesis by (simp add: darray_erase_range_def)
  next
    case all
    with n lg assms(1) show ?thesis by (auto simp: darray_erase_range_def da_repr_def)
  next
    case some
    have ne: "length g \<noteq> da_num d" using some n by auto
    from da_close_gap [OF assms(1) refl refl] obtain c where
      c: "da_move (length a) (length a + length g) (length b) d = Some (d\<lparr>da_array := map Some (a @ b) @ c\<rparr>)"
      "da_capacity d = length (a @ b) + length c" by blast
    show ?thesis
    proof (cases "b = []")
      case True
      with some n lg ne assms(1) show ?thesis by (auto simp: darray_erase_range_def Let_def da_repr_def)
    next
      case False
      with some n lg ne c show ?thesis by (simp add: darray_erase_range_def Let_def da_repr_def)
    qed
  qed
qed

section \<open>Searching, moving, swapping\<close>

lemma da_item: "da_repr d xs \<Longrightarrow> i < length xs \<Longrightarrow> darray_item d i = Some (xs ! i)"
proof -
  assume r: "da_repr d xs" "i < length xs"
  then obtain junk where "da_array d = map Some xs @ junk" by (auto simp: da_repr_def)
  then have "da_array d = map Some (take i xs) @ map Some [xs ! i] @ (map Some (drop (Suc i) xs) @ junk)"
    using id_take_nth_drop [OF r(2)] by (metis append_Cons append_Nil append_assoc list.simps(9) list.map_disc_iff map_append)
  then have "mem_bytes i 1 (da_array d) = Some [xs ! i]" using r(2) by (simp only:) (rule mem_bytes_at, simp_all)
  then show ?thesis by (simp add: darray_item_def)
qed

lemma da_find_from:
  assumes "da_repr d xs" "i + n = length xs"
  shows "find_from n d x i = Some (map_option ((+) i) (first_idx ((=) x) (drop i xs)))"
  using assms
proof (induction n arbitrary: i)
  case (Suc n)
  then have i: "i < length xs" by simp
  have c: "drop i xs = xs ! i # drop (Suc i) xs" using i by (simp add: Cons_nth_drop_Suc)
  show ?case using Suc.IH [of "Suc i"] Suc.prems da_item [OF Suc.prems(1) i]
    by (auto simp: c option.map_comp comp_def)
qed simp

lemma da_find:
  assumes "da_repr d xs"
  shows "darray_find d x i = (if i \<le> length xs then Some (map_option ((+) i) (first_idx ((=) x) (drop i xs))) else None)"
  using da_find_from [OF assms, of i "length xs - i" x] da_repr_num [OF assms] by (simp add: darray_find_def)

text \<open>The list without the first element that is \<open>x\<close>.\<close>

lemma remove1_first_idx: "first_idx ((=) x) xs = Some i \<Longrightarrow> remove1 x xs = take i xs @ drop (Suc i) xs"
  by (induction xs arbitrary: i) (auto split: if_splits)

lemma nth_split: "i < length xs \<Longrightarrow> xs = take i xs @ xs ! i # drop (Suc i) xs"
  by (rule id_take_nth_drop)

lemma da_erase_at:
  assumes "da_repr d xs" "i < length xs"
  shows "\<exists>d'. darray_erase d i = Some d' \<and> da_repr d' (take i xs @ drop (Suc i) xs)"
  using da_erase [of d "take i xs" "xs ! i" "drop (Suc i) xs"] assms by (simp add: id_take_nth_drop [symmetric])

lemma da_erase_item:
  assumes "da_repr d xs"
  shows "\<exists>d'. darray_erase_item d x = Some d' \<and> da_repr d' (remove1 x xs)"
proof (cases "first_idx ((=) x) xs")
  case None
  then have "x \<notin> set xs" by (auto simp: first_idx_None)
  with None assms da_find [OF assms, of x 0] show ?thesis by (simp add: darray_erase_item_def remove1_idem)
next
  case (Some i)
  with da_erase_at [OF assms first_idx_lt [OF Some]] da_find [OF assms, of x 0] show ?thesis
    by (simp add: darray_erase_item_def remove1_first_idx)
qed

text \<open>\<open>darray_move_item\<close> takes an element out and puts it in so that it ends up at \<open>to\<close>.\<close>

definition list_move :: "nat \<Rightarrow> nat \<Rightarrow> 'a list \<Rightarrow> 'a list" where
  "list_move from to xs = (let ys = take from xs @ drop (Suc from) xs in take to ys @ xs ! from # drop to ys)"

lemma da_move_item_right:
  assumes "da_repr d (a @ x # b @ c)" "b \<noteq> []"
  shows "\<exists>d'. darray_move_item d (length a) (length a + length b) = Some d' \<and> da_repr d' (a @ b @ x # c)"
proof -
  from assms(1) obtain junk where j: "da_array d = map Some a @ [Some x] @ map Some b @ (map Some c @ junk)"
    "da_capacity d = length (a @ x # b @ c) + length junk" "da_num d = length (a @ x # b @ c)"
    by (auto simp: da_repr_def)
  have t: "mem_read (length a) 1 (da_array d) = Some [Some x]" unfolding j(1) by (rule mem_read_at) simp_all
  have "\<exists>y. da_move (length a) (length a + 1) (length b) d =
      Some (d\<lparr>da_array := map Some a @ map Some b @ y @ map Some c @ junk\<rparr>) \<and> length y = length [Some x]"
    by (rule da_move_left [OF j(1)]) simp_all
  then obtain y where y: "da_move (length a) (length a + 1) (length b) d =
      Some (d\<lparr>da_array := (map Some a @ map Some b) @ y # (map Some c @ junk)\<rparr>)" by (auto simp: length_Suc_conv)
  have "da_write (length a + length b) [Some x] (d\<lparr>da_array := (map Some a @ map Some b) @ y # (map Some c @ junk)\<rparr>) =
      Some (d\<lparr>da_array := (map Some a @ map Some b) @ Some x # (map Some c @ junk)\<rparr>)"
    by (subst da_write_one [where a = "map Some a @ map Some b" and g = y]) simp_all
  with assms(2) t y j show ?thesis by (simp add: darray_move_item_def da_repr_def)
qed

lemma da_move_item_left:
  assumes "da_repr d (a @ b @ x # c)" "b \<noteq> []"
  shows "\<exists>d'. darray_move_item d (length a + length b) (length a) = Some d' \<and> da_repr d' (a @ x # b @ c)"
proof -
  from assms(1) obtain junk where j: "da_array d = map Some a @ map Some b @ [Some x] @ (map Some c @ junk)"
    "da_capacity d = length (a @ b @ x # c) + length junk" "da_num d = length (a @ b @ x # c)"
    by (auto simp: da_repr_def)
  have t: "mem_read (length a + length b) 1 ((map Some a @ map Some b) @ [Some x] @ (map Some c @ junk)) = Some [Some x]"
    by (rule mem_read_at) simp_all
  have "\<exists>y. da_move (length a + 1) (length a) (length b) d =
      Some (d\<lparr>da_array := map Some a @ y @ map Some b @ map Some c @ junk\<rparr>) \<and> length y = length [Some x]"
    by (rule da_move_right [OF j(1)]) simp_all
  then obtain y where y: "da_move (length a + 1) (length a) (length b) d =
      Some (d\<lparr>da_array := map Some a @ y # (map Some b @ map Some c @ junk)\<rparr>)" by (auto simp: length_Suc_conv)
  have "da_write (length a) [Some x] (d\<lparr>da_array := map Some a @ y # (map Some b @ map Some c @ junk)\<rparr>) =
      Some (d\<lparr>da_array := map Some a @ Some x # (map Some b @ map Some c @ junk)\<rparr>)"
    by (subst da_write_one [where a = "map Some a" and g = y]) simp_all
  with assms(2) t y j show ?thesis by (simp add: darray_move_item_def da_repr_def)
qed

lemma da_swap_at:
  assumes "da_repr d (a @ x # b @ y # c)"
  shows "\<exists>d'. darray_swap d (length a) (length a + 1 + length b) = Some d' \<and> da_repr d' (a @ y # b @ x # c)"
    and "\<exists>d'. darray_swap d (length a + 1 + length b) (length a) = Some d' \<and> da_repr d' (a @ y # b @ x # c)"
proof -
  from assms obtain junk where j: "da_array d = map Some a @ [Some x] @ map Some b @ [Some y] @ (map Some c @ junk)"
    "da_capacity d = length (a @ x # b @ y # c) + length junk" "da_num d = length (a @ x # b @ y # c)"
    by (auto simp: da_repr_def)
  let ?m = "\<lambda>u v. map Some a @ [Some u] @ map Some b @ [Some v] @ (map Some c @ junk)"
  have r1: "mem_read (length a) 1 (da_array d) = Some [Some x]" unfolding j(1) by (rule mem_read_at) simp_all
  have r2: "mem_read (length a + 1 + length b) 1 (da_array d) = Some [Some y]" unfolding j(1)
    using mem_read_at [of "length a + 1 + length b" "map Some a @ [Some x] @ map Some b" 1 "[Some y]" "map Some c @ junk"] by simp
  have w1: "da_write (length a) [Some v] (e\<lparr>da_array := ?m u w\<rparr>) = Some (e\<lparr>da_array := ?m v w\<rparr>)" for e u v w
    by (subst da_write_one [where a = "map Some a"]) simp_all
  have w2: "da_write (length a + 1 + length b) [Some v] (e\<lparr>da_array := ?m u w\<rparr>) = Some (e\<lparr>da_array := ?m u v\<rparr>)" for e u v w
    by (subst da_write_one [where a = "map Some a @ [Some u] @ map Some b"]) simp_all
  have d: "d = d\<lparr>da_array := ?m x y\<rparr>" using j(1) by (simp flip: j(1))
  have rep: "da_repr (d\<lparr>da_array := ?m y x\<rparr>) (a @ y # b @ x # c)" using j(2,3) by (simp add: da_repr_def)
  have s1: "darray_swap d (length a) (length a + 1 + length b) = Some (d\<lparr>da_array := ?m y x\<rparr>)"
    using r1 r2 w1 [where e = d and u = x and v = y and w = y] w2 [where e = d and u = y and v = x and w = y] j(3) d
    by (simp add: darray_swap_def)
  have s2: "darray_swap d (length a + 1 + length b) (length a) = Some (d\<lparr>da_array := ?m y x\<rparr>)"
    using r1 r2 w2 [where e = d and u = x and v = x and w = y] w1 [where e = d and u = x and v = y and w = x] j(3) d
    by (simp add: darray_swap_def)
  show "\<exists>d'. darray_swap d (length a) (length a + 1 + length b) = Some d' \<and> da_repr d' (a @ y # b @ x # c)"
    "\<exists>d'. darray_swap d (length a + 1 + length b) (length a) = Some d' \<and> da_repr d' (a @ y # b @ x # c)"
    using s1 s2 rep by simp_all
qed

lemma da_move_item:
  assumes "da_repr d xs" "from < length xs" "to < length xs"
  shows "\<exists>d'. darray_move_item d from to = Some d' \<and> da_repr d' (list_move from to xs)"
proof -
  consider "from = to" | "from < to" | "to < from" by linarith
  then show ?thesis
  proof cases
    case 1
    with assms show ?thesis
      by (simp add: darray_move_item_def list_move_def Let_def id_take_nth_drop [symmetric])
  next
    case 2
    let ?a = "take from xs" and ?b = "take (to - from) (drop (Suc from) xs)" and ?c = "drop (Suc to) xs"
    have xs: "xs = ?a @ xs ! from # ?b @ ?c"
      using 2 nth_split [OF assms(2)] append_take_drop_id [of "to - from" "drop (Suc from) xs"] by simp
    have l: "length ?a = from" "length ?b = to - from" using 2 assms(3) by simp_all
    have "list_move from to xs = ?a @ ?b @ xs ! from # ?c" using 2 assms(3) by (simp add: list_move_def Let_def)
    with da_move_item_right [of d ?a "xs ! from" ?b ?c] assms(1) xs l 2 show ?thesis by auto
  next
    case 3
    let ?a = "take to xs" and ?b = "take (from - to) (drop to xs)" and ?c = "drop (Suc from) xs"
    have xs: "xs = ?a @ ?b @ xs ! from # ?c"
      
    proof -
      have "take from xs = ?a @ ?b" using 3 append_take_drop_id [of to "take from xs"] by (simp add: drop_take min_def)
      then show ?thesis using nth_split [OF assms(2)] by (metis append_assoc)
    qed
    have l: "length ?a = to" "length ?b = from - to" using 3 assms(2) by simp_all
    have "list_move from to xs = ?a @ xs ! from # ?b @ ?c" using 3 assms(2)
      by (simp add: list_move_def Let_def drop_take min_def)
    with da_move_item_left [of d ?a ?b "xs ! from" ?c] assms(1) xs l 3 show ?thesis by auto
  qed
qed

lemma da_swap:
  assumes "da_repr d xs" "i < length xs" "j < length xs"
  shows "\<exists>d'. darray_swap d i j = Some d' \<and> da_repr d' (xs[i := xs ! j, j := xs ! i])"
proof -
  have two: "\<exists>a b c. xs = a @ xs ! i # b @ xs ! j # c \<and> length a = i \<and> j = i + 1 + length b \<and>
      xs[i := xs ! j, j := xs ! i] = a @ xs ! j # b @ xs ! i # c"
    if "i < j" "j < length xs" for i j and xs :: "'a list"
  proof -
    let ?a = "take i xs" and ?b = "take (j - Suc i) (drop (Suc i) xs)" and ?c = "drop (Suc j) xs"
    have xs: "xs = ?a @ xs ! i # ?b @ xs ! j # ?c"
      using that nth_split [of i xs] nth_split [of "j - Suc i" "drop (Suc i) xs"] by simp
    have l: "length ?a = i" "length ?b = j - Suc i" using that by simp_all
    have "xs[i := xs ! j, j := xs ! i] = (?a @ xs ! i # ?b @ xs ! j # ?c)[i := xs ! j, j := xs ! i]" using xs by metis
    also have "\<dots> = ?a @ xs ! j # ?b @ xs ! i # ?c" using that l by (auto simp: list_update_append nth_append split: nat.split)
    finally show ?thesis using xs l that by (intro exI [of _ ?a] exI [of _ ?b] exI [of _ ?c]) simp
  qed
  consider "i = j" | "i < j" | "j < i" by linarith
  then show ?thesis
  proof cases
    case 1
    with assms da_repr_num [OF assms(1)] show ?thesis by (simp add: darray_swap_def)
  next
    case 2
    from two [OF 2 assms(3)] da_swap_at(1) assms(1) show ?thesis by metis
  next
    case 3
    from two [OF 3 assms(2)] da_swap_at(2) assms(1) 3 show ?thesis by (metis list_update_swap nat_neq_iff)
  qed
qed

section \<open>Whole arrays\<close>

lemma da_copy:
  assumes "da_repr d xs" "da_repr da ys"
  shows "\<exists>d'. darray_copy d da = Some d' \<and> da_repr d' ys"
proof (cases "ys = []")
  case True
  with assms da_repr_init show ?thesis by (simp add: darray_copy_def darray_free_def da_repr_num)
next
  case False
  obtain d1 where d1: "darray_resize d (length ys) = Some d1" "da_repr d1 (list_resize (length ys) xs)"
    using da_resize [OF assms(1)] by blast
  then obtain junk where j: "da_array d1 = map Some (list_resize (length ys) xs) @ junk" "da_num d1 = length ys"
    "da_capacity d1 = length ys + length junk" by (auto simp: da_repr_def list_resize_def)
  have l: "length (list_resize (length ys) xs) = length ys" by (simp add: list_resize_def)
  have r: "mem_read 0 (length ys) (da_array da) = Some (map Some ys)" using assms(2) by (auto simp: da_repr_def mem_read_def)
  have "da_write 0 (map Some ys) d1 = Some (d1\<lparr>da_array := [] @ map Some ys @ junk\<rparr>)"
    by (rule da_write_at [where b = "map Some (list_resize (length ys) xs)"]) (simp_all add: j l)
  then show ?thesis using False d1(1) r j da_repr_num [OF assms(2)] by (simp add: darray_copy_def da_repr_def)
qed

lemma da_copy_array:
  assumes "da_repr d xs" "n \<le> length ys"
  shows "\<exists>d'. darray_copy_array d (map Some ys @ rest) n = Some d' \<and> da_repr d' (take n ys)"
proof -
  obtain d1 where d1: "darray_resize d n = Some d1" "da_repr d1 (list_resize n xs)"
    using da_resize [OF assms(1)] by blast
  then obtain junk where j: "da_array d1 = map Some (list_resize n xs) @ junk" "da_num d1 = n"
    "da_capacity d1 = n + length junk" by (auto simp: da_repr_def list_resize_def)
  have l: "length (list_resize n xs) = n" by (simp add: list_resize_def)
  have "da_write 0 (map Some (take n ys)) d1 = Some (d1\<lparr>da_array := [] @ map Some (take n ys) @ junk\<rparr>)"
    by (rule da_write_at [where b = "map Some (list_resize n xs)"]) (use assms(2) in \<open>simp_all add: j l\<close>)
  then show ?thesis using d1(1) j assms(2) by (simp add: darray_copy_array_def mem_read_def take_map da_repr_def)
qed

lemma da_join:
  assumes "da_repr d xs" "da_repr da ys"
  shows "\<exists>d' da'. darray_join d da = Some (d', da') \<and> da_repr d' (xs @ ys) \<and> da_repr da' []"
proof -
  obtain rest where "da_array da = map Some ys @ rest" using da_repr_array [OF assms(2)] by blast
  with da_push_back_array [OF assms(1), of ys rest] da_repr_num [OF assms(2)] da_repr_init show ?thesis
    by (auto simp: darray_join_def darray_push_back_darray_def darray_free_def)
qed

lemma da_split:
  assumes "da_repr da xs" "idx \<le> length xs"
  shows "\<exists>d1 d2. darray_split da idx = Some (d1, d2) \<and> da_repr d1 (if idx = 0 then [] else xs) \<and>
    da_repr d2 (if idx + 1 < length xs then drop idx xs else [])"
proof -
  obtain temp where t: "darray_copy darray_init da = Some temp" "da_repr temp xs"
    using da_copy [OF da_repr_init assms(1)] by blast
  obtain rest where r: "da_array temp = map Some xs @ rest" using da_repr_array [OF t(2)] by blast
  obtain d1 where d1: "darray_copy_array darray_init (map Some xs @ rest) (length xs) = Some d1" "da_repr d1 xs"
    using da_copy_array [OF da_repr_init, of "length xs" xs rest] by auto
  obtain d2 where d2: "darray_copy_array darray_init (map Some (drop idx xs) @ rest) (length xs - idx) = Some d2"
    "da_repr d2 (drop idx xs)"
    using da_copy_array [OF da_repr_init, of "length xs - idx" "drop idx xs" rest] by auto
  have dr: "drop idx (da_array temp) = map Some (drop idx xs) @ rest" using r assms(2) by (simp add: drop_map)
  show ?thesis
    using assms(2) da_repr_num [OF assms(1)] da_repr_num [OF t(2)] t(1) d1 d2 da_repr_init
    by (auto simp: darray_split_def r drop_map)
qed

section \<open>Programs\<close>

datatype 'a darray_op =
    Da_Push 'a | Da_Push_New | Da_Push_Array "'a list" | Da_Insert nat 'a | Da_Insert_New nat
  | Da_Insert_Array nat "'a list" | Da_Erase nat | Da_Erase_Item 'a | Da_Erase_Range nat nat
  | Da_Pop_Front | Da_Pop_Back | Da_Swap nat nat | Da_Resize nat | Da_Reserve nat | Da_Clear | Da_Find 'a nat

datatype darray_out = Done | At nat | Found "nat option"

fun darray_step :: "'a::zero darray \<Rightarrow> 'a darray_op \<Rightarrow> (darray_out \<times> 'a darray) option" where
  "darray_step d (Da_Push x) = map_option (\<lambda>(d, i). (At i, d)) (darray_push_back d x)"
| "darray_step d Da_Push_New = map_option (\<lambda>(d, i). (At i, d)) (darray_push_back_new d)"
| "darray_step d (Da_Push_Array xs) = map_option (\<lambda>(d, i). (At i, d)) (darray_push_back_array d (map Some xs) (length xs))"
| "darray_step d (Da_Insert i x) = map_option (Pair Done) (darray_insert d i x)"
| "darray_step d (Da_Insert_New i) = map_option (\<lambda>(d, i). (At i, d)) (darray_insert_new d i)"
| "darray_step d (Da_Insert_Array i xs) = map_option (Pair Done) (darray_insert_array d i (map Some xs) (length xs))"
| "darray_step d (Da_Erase i) = map_option (Pair Done) (darray_erase d i)"
| "darray_step d (Da_Erase_Item x) = map_option (Pair Done) (darray_erase_item d x)"
| "darray_step d (Da_Erase_Range i j) = map_option (Pair Done) (darray_erase_range d i j)"
| "darray_step d Da_Pop_Front = map_option (Pair Done) (darray_pop_front d)"
| "darray_step d Da_Pop_Back = map_option (Pair Done) (darray_pop_back d)"
| "darray_step d (Da_Swap i j) = map_option (Pair Done) (darray_swap d i j)"
| "darray_step d (Da_Resize n) = map_option (Pair Done) (darray_resize d n)"
| "darray_step d (Da_Reserve n) = map_option (Pair Done) (darray_reserve d n)"
| "darray_step d Da_Clear = Some (Done, darray_clear d)"
| "darray_step d (Da_Find x i) = map_option (\<lambda>r. (Found r, d)) (darray_find d x i)"

fun seq_step :: "'a::zero list \<Rightarrow> 'a darray_op \<Rightarrow> (darray_out \<times> 'a list) option" where
  "seq_step xs (Da_Push x) = Some (At (length xs), xs @ [x])"
| "seq_step xs Da_Push_New = Some (At (length xs), xs @ [0])"
| "seq_step xs (Da_Push_Array ys) = Some (At (length xs), xs @ ys)"
| "seq_step xs (Da_Insert i x) = (if i \<le> length xs then Some (Done, take i xs @ x # drop i xs) else None)"
| "seq_step xs (Da_Insert_New i) = (if i \<le> length xs then Some (At i, take i xs @ 0 # drop i xs) else None)"
| "seq_step xs (Da_Insert_Array i ys) =
     (if ys \<noteq> [] \<and> i \<le> length xs then Some (Done, take i xs @ ys @ drop i xs) else None)"
| "seq_step xs (Da_Erase i) = (if i < length xs then Some (Done, take i xs @ drop (Suc i) xs) else None)"
| "seq_step xs (Da_Erase_Item x) = Some (Done, remove1 x xs)"
| "seq_step xs (Da_Erase_Range i j) =
     (if i < j \<and> j \<le> length xs then Some (Done, take i xs @ drop j xs) else None)"
| "seq_step xs Da_Pop_Front = (if xs = [] then None else Some (Done, tl xs))"
| "seq_step xs Da_Pop_Back = (if xs = [] then None else Some (Done, butlast xs))"
| "seq_step xs (Da_Swap i j) =
     (if i < length xs \<and> j < length xs then Some (Done, xs[i := xs ! j, j := xs ! i]) else None)"
| "seq_step xs (Da_Resize n) = Some (Done, list_resize n xs)"
| "seq_step xs (Da_Reserve n) = Some (Done, xs)"
| "seq_step xs Da_Clear = Some (Done, [])"
| "seq_step xs (Da_Find x i) =
     (if i \<le> length xs then Some (Found (map_option ((+) i) (first_idx ((=) x) (drop i xs))), xs) else None)"

lemma da_reserve:
  assumes "da_repr d xs"
  shows "\<exists>d'. darray_reserve d n = Some d' \<and> da_repr d' xs"
proof (cases "n = 0 \<or> n \<le> da_capacity d")
  case True
  with assms show ?thesis by (simp add: darray_reserve_def)
next
  case False
  from assms obtain junk where j: "da_array d = map Some xs @ junk" "da_num d = length xs"
    "da_capacity d = length xs + length junk" by (auto simp: da_repr_def)
  have r: "mem_read 0 (length xs) (da_array d) = Some (map Some xs)" by (simp add: j mem_read_def)
  have w: "mem_write 0 (map Some xs) (replicate n None) = Some (map Some xs @ replicate (n - length xs) None)"
    using False j(3) by (simp add: mem_write_def)
  show ?thesis using False j r w by (simp add: darray_reserve_def da_repr_def)
qed

lemma darray_step_refines:
  assumes r: "da_repr d xs"
  shows "case seq_step xs op of None \<Rightarrow> darray_step d op = None
    | Some (out, xs') \<Rightarrow> \<exists>d'. darray_step d op = Some (out, d') \<and> da_repr d' xs'"
proof (cases op)
  case (Da_Push x) then show ?thesis using da_push_back(1) [OF r, of x] by auto
next
  case Da_Push_New then show ?thesis using da_push_back(2) [OF r r] by auto
next
  case (Da_Push_Array ys) then show ?thesis using da_push_back_array [OF r, of ys "[]"] by auto
next
  case (Da_Insert i x)
  then show ?thesis using da_insert(1) [of d "take i xs" "drop i xs" x] r da_repr_num [OF r]
    by (auto simp: darray_insert_def)
next
  case (Da_Insert_New i)
  then show ?thesis using da_insert(2) [of d "take i xs" "drop i xs" d "take i xs" "drop i xs"] r da_repr_num [OF r]
    by (auto simp: darray_insert_new_def)
next
  case (Da_Insert_Array i ys)
  then show ?thesis using da_insert_array [of d "take i xs" "drop i xs" ys "[]"] r da_repr_num [OF r]
    by (auto simp: darray_insert_array_def)
next
  case (Da_Erase i)
  then show ?thesis using da_erase_at [OF r, of i] da_repr_num [OF r] by (auto simp: darray_erase_def)
next
  case (Da_Erase_Item x) then show ?thesis using da_erase_item [OF r, of x] by auto
next
  case (Da_Erase_Range i j)
  have s: "xs = take i xs @ take (j - i) (drop i xs) @ drop j xs" if "i < j" "j \<le> length xs"
    using that append_take_drop_id [of i xs] append_take_drop_id [of "j - i" "drop i xs"] by simp
  show ?thesis
  proof (cases "i < j \<and> j \<le> length xs")
    case True
    then have l: "length (take i xs) = i" "length (take (j - i) (drop i xs)) = j - i"
      "take (j - i) (drop i xs) \<noteq> []" by auto
    from da_erase_range [of d "take i xs" "take (j - i) (drop i xs)" "drop j xs"] s True r l
    show ?thesis by (auto simp: Da_Erase_Range)
  next
    case False
    with da_repr_num [OF r] show ?thesis by (auto simp: Da_Erase_Range darray_erase_range_def)
  qed
next
  case Da_Pop_Front
  then show ?thesis using da_erase_at [OF r, of 0] da_repr_num [OF r]
    by (cases xs) (auto simp: darray_pop_front_def)
next
  case Da_Pop_Back
  then show ?thesis using da_erase_at [OF r, of "length xs - 1"] da_repr_num [OF r]
    by (cases "xs = []") (auto simp: darray_pop_back_def butlast_conv_take)
next
  case (Da_Swap i j)
  then show ?thesis using da_swap [OF r, of i j] da_repr_num [OF r] by (auto simp: darray_swap_def)
next
  case (Da_Resize n) then show ?thesis using da_resize [OF r, of n] by auto
next
  case (Da_Reserve n) then show ?thesis using da_reserve [OF r, of n] by auto
next
  case Da_Clear
  then show ?thesis using r by (auto simp: darray_clear_def da_repr_def)
next
  case (Da_Find x i)
  then show ?thesis using da_find [OF r, of x i] r by auto
qed

interpretation dar: step_refinement da_repr darray_step seq_step id
  by (unfold_locales, unfold id_apply, rule darray_step_refines)

text \<open>C27: Every program over the array operations, started on an empty array, behaves exactly like
  the same program over a list: it answers the same positions, never leaves the block or
  compares an uninitialised element, whatever grows or moves, and fails an \<open>assert\<close> exactly when
  it uses an index the list does not have (or inserts an empty array).\<close>

theorem darray_refines_list:
  "map_option fst (op_run darray_step darray_init ops) = map_option fst (op_run seq_step [] ops)"
  using dar.run [OF da_repr_init, of ops] by (simp add: option.map_comp comp_def)

text \<open>\<open>darray_split\<close> does not split: unless the index is 0, the first array gets all the
  elements, not those before the index; and a last part of one element is dropped.\<close>

theorem darray_split_does_not_split:
  assumes "da_repr da xs" "0 < idx" "idx < length xs"
  shows "\<exists>d1 d2. darray_split da idx = Some (d1, d2) \<and> da_num d1 = length xs \<and>
    da_num d2 = (if idx + 1 < length xs then length xs - idx else 0)"
  using da_split [OF assms(1), of idx] assms(2,3) by (auto dest!: da_repr_num)

theorem darray_split_does_not_split_witness:
  "\<exists>d1 d2. darray_split \<lparr>da_array = map Some [1, 2 :: nat], da_num = 2, da_capacity = 2\<rparr> 1 = Some (d1, d2) \<and>
    da_num d1 = 2 \<and> da_num d2 = 0"
  using darray_split_does_not_split [of "\<lparr>da_array = map Some [1, 2 :: nat], da_num = 2, da_capacity = 2\<rparr>" "[1, 2]" 1]
  by (auto simp: da_repr_def)

end
