(* ===== verification/Calldata.thy ===== *)
theory Calldata
  imports Bytes "HOL-Library.AList"
begin

text \<open>
  The parameters of signals and procedures (\<open>libobs/callback/calldata.c\<close>, \<open>calldata.h\<close>): named
  values in one block of memory that is scanned from its start. An operation is \<^term>\<open>None\<close> where
  the code would leave the block or use a byte nothing has written. Names are C strings without
  their terminator; \<open>size_t\<close> takes eight bytes, in the byte order of the memory.
\<close>

section \<open>State and operations\<close>

text \<open>\<open>cd_stack\<close> is \<^term>\<open>None\<close> for a null pointer. The size of the block never wraps a
  \<open>size_t\<close>, as no block can be that long.\<close>

record calldata =
  cd_stack :: "byte option list option"
  cd_size :: nat
  cd_capacity :: nat
  cd_fixed :: bool

definition size_t :: "nat \<Rightarrow> byte list" where
  "size_t n = le_bytes 8 n"

definition cd_serialize_size :: "byte option list \<Rightarrow> nat \<Rightarrow> (nat \<times> nat) option" where
  "cd_serialize_size m pos = map_option (\<lambda>bs. (le_nat bs, pos + 8)) (mem_bytes pos 8 m)"

text \<open>A pointer into the block, or a null pointer for a size of 0.\<close>

definition cd_serialize_string :: "byte option list \<Rightarrow> nat \<Rightarrow> (nat option \<times> nat) option" where
  "cd_serialize_string m pos = do {
     (sz, str) \<leftarrow> cd_serialize_size m pos;
     Some (if sz \<noteq> 0 then Some str else None, str + sz)
   }"

text \<open>The scan, from a parameter's name size on. Found, it stands behind the name; otherwise on
  the terminating size.\<close>

function cd_scan :: "byte option list \<Rightarrow> byte list \<Rightarrow> nat \<Rightarrow> (bool \<times> nat) option" where
  "cd_scan m name pos = do {
     (name_size, pos') \<leftarrow> cd_serialize_size m pos;
     if name_size = 0 then Some (False, pos' - 8)
     else do {
       same \<leftarrow> mem_streq name pos' m;
       if same then Some (True, pos' + name_size)
       else do {
         (param_size, pos'') \<leftarrow> cd_serialize_size m (pos' + name_size);
         cd_scan m name (pos'' + param_size)
       }
     }
   }"
  by pat_completeness auto
termination
  by (relation "measure (\<lambda>(m, name, pos). length m - pos)")
    (auto simp: cd_serialize_size_def dest: mem_bytes_bound)

declare cd_scan.simps [simp del]

text \<open>\<^term>\<open>None\<close> as the position: \<open>pos\<close> is left alone.\<close>

definition cd_getparam :: "calldata \<Rightarrow> byte list \<Rightarrow> (bool \<times> nat option) option" where
  "cd_getparam cd name =
     (if cd_size cd = 0 then Some (False, None)
      else do {
        m \<leftarrow> cd_stack cd;
        (found, pos) \<leftarrow> cd_scan m name 0;
        Some (found, Some pos)
      })"

definition cd_copy_string :: "nat \<Rightarrow> byte list \<Rightarrow> byte option list \<Rightarrow> (byte option list \<times> nat) option" where
  "cd_copy_string pos str m = do {
     m \<leftarrow> mem_write pos (map Some (size_t (length str + 1))) m;
     m \<leftarrow> mem_write (pos + 8) (map Some (str @ [0])) m;
     Some (m, pos + 8 + (length str + 1))
   }"

definition cd_copy_data :: "nat \<Rightarrow> byte list \<Rightarrow> byte option list \<Rightarrow> (byte option list \<times> nat) option" where
  "cd_copy_data pos bs m = do {
     m \<leftarrow> mem_write pos (map Some (size_t (length bs))) m;
     m \<leftarrow> mem_write (pos + 8) (map Some bs) m;
     Some (m, pos + 8 + length bs)
   }"

definition cd_set_first_param :: "calldata \<Rightarrow> byte list \<Rightarrow> byte list \<Rightarrow> calldata option" where
  "cd_set_first_param cd name bs =
     (let sz = 8 * 3 + (length name + 1) + length bs;
          capacity = max sz 128
      in do {
        (m, pos) \<leftarrow> cd_copy_string 0 name (replicate capacity None);
        (m, pos) \<leftarrow> cd_copy_data pos bs m;
        m \<leftarrow> mem_write pos (map Some (replicate 8 0)) m;
        Some (cd\<lparr>cd_stack := Some m, cd_size := sz, cd_capacity := capacity\<rparr>)
      })"

definition cd_ensure_capacity :: "calldata \<Rightarrow> nat \<Rightarrow> calldata \<times> bool" where
  "cd_ensure_capacity cd new_size =
     (if new_size < cd_capacity cd then (cd, True)
      else if cd_fixed cd then (cd, False)
      else let new_capacity = (if cd_capacity cd * 2 < new_size then new_size else cd_capacity cd * 2)
        in (cd\<lparr>cd_stack := map_option (mem_realloc new_capacity) (cd_stack cd), cd_capacity := new_capacity\<rparr>, True))"

definition calldata_get_data :: "calldata \<Rightarrow> byte list \<Rightarrow> nat \<Rightarrow> byte list option option" where
  "calldata_get_data cd name sz =
     (if name = [] then Some None
      else do {
        (found, pos) \<leftarrow> cd_getparam cd name;
        if \<not> found then Some None
        else do {
          m \<leftarrow> cd_stack cd;
          pos \<leftarrow> pos;
          (data_size, pos) \<leftarrow> cd_serialize_size m pos;
          if data_size \<noteq> sz then Some None else map_option Some (mem_bytes pos sz m)
        }
      })"

definition cd_memmove :: "nat \<Rightarrow> nat \<Rightarrow> nat \<Rightarrow> calldata \<Rightarrow> calldata option" where
  "cd_memmove dst src n cd = do {
     m \<leftarrow> cd_stack cd;
     bs \<leftarrow> mem_read src n m;
     m \<leftarrow> mem_write dst bs m;
     Some (cd\<lparr>cd_stack := Some m\<rparr>)
   }"

definition cd_resize_param :: "calldata \<Rightarrow> nat \<Rightarrow> nat \<Rightarrow> nat \<Rightarrow> (calldata \<times> bool) option" where
  "cd_resize_param cd pos cur_size sz =
     (if cur_size < sz then
        let offset = sz - cur_size; bytes = cd_size cd; (cd, ok) = cd_ensure_capacity cd (bytes + offset)
        in if \<not> ok then Some (cd, False)
           else map_option (\<lambda>cd. (cd\<lparr>cd_size := cd_size cd + offset\<rparr>, True))
                  (cd_memmove (pos + offset) pos (bytes - pos) cd)
      else if cur_size > sz then
        let offset = cur_size - sz; bytes = cd_size cd - offset
        in map_option (\<lambda>cd. (cd\<lparr>cd_size := cd_size cd - offset\<rparr>, True))
             (cd_memmove pos (pos + offset) (bytes - pos) cd)
      else Some (cd, True))"

definition calldata_set_data :: "calldata \<Rightarrow> byte list \<Rightarrow> byte list \<Rightarrow> calldata option" where
  "calldata_set_data cd name bs =
     (if name = [] then Some cd
      else if \<not> cd_fixed cd \<and> cd_stack cd = None then cd_set_first_param cd name bs
      else do {
        (found, pos) \<leftarrow> cd_getparam cd name;
        if found then do {
          m \<leftarrow> cd_stack cd;
          pos \<leftarrow> pos;
          cur \<leftarrow> mem_bytes pos 8 m;
          (cd, ok) \<leftarrow> cd_resize_param cd pos (le_nat cur) (length bs);
          if \<not> ok then Some cd
          else do {
            m \<leftarrow> cd_stack cd;
            (m, _) \<leftarrow> cd_copy_data pos bs m;
            Some (cd\<lparr>cd_stack := Some m\<rparr>)
          }
        } else
          let offset = length name + 1 + length bs + 8 * 2;
              (cd, ok) = cd_ensure_capacity cd (cd_size cd + offset)
          in if \<not> ok then Some cd
             else do {
               m \<leftarrow> cd_stack cd;
               pos \<leftarrow> pos;
               (m, pos) \<leftarrow> cd_copy_string pos name m;
               (m, pos) \<leftarrow> cd_copy_data pos bs m;
               m \<leftarrow> mem_write pos (map Some (replicate 8 0)) m;
               Some (cd\<lparr>cd_size := cd_size cd + offset, cd_stack := Some m\<rparr>)
             }
      })"

definition calldata_get_string :: "calldata \<Rightarrow> byte list \<Rightarrow> nat option option option" where
  "calldata_get_string cd name =
     (if name = [] then Some None
      else do {
        (found, pos) \<leftarrow> cd_getparam cd name;
        if \<not> found then Some None
        else do {
          m \<leftarrow> cd_stack cd;
          pos \<leftarrow> pos;
          (str, _) \<leftarrow> cd_serialize_string m pos;
          Some (Some str)
        }
      })"

definition calldata_init :: calldata where
  "calldata_init = \<lparr>cd_stack = None, cd_size = 0, cd_capacity = 0, cd_fixed = False\<rparr>"

definition calldata_clear :: "calldata \<Rightarrow> calldata option" where
  "calldata_clear cd =
     (case cd_stack cd of
        None \<Rightarrow> Some cd
      | Some m \<Rightarrow> map_option (\<lambda>m. cd\<lparr>cd_size := 8, cd_stack := Some m\<rparr>) (mem_write 0 (map Some (replicate 8 0)) m))"

definition calldata_init_fixed :: "byte option list \<Rightarrow> calldata option" where
  "calldata_init_fixed buf =
     calldata_clear \<lparr>cd_stack = Some buf, cd_size = 0, cd_capacity = length buf, cd_fixed = True\<rparr>"

section \<open>Typed parameters\<close>

definition calldata_set_int :: "calldata \<Rightarrow> byte list \<Rightarrow> 64 word \<Rightarrow> calldata option" where
  "calldata_set_int cd name v = calldata_set_data cd name (le_bytes 8 (unat v))"

definition calldata_get_int :: "calldata \<Rightarrow> byte list \<Rightarrow> int option option" where
  "calldata_get_int cd name =
     map_option (map_option (\<lambda>bs. sint (of_nat (le_nat bs) :: 64 word))) (calldata_get_data cd name 8)"

definition calldata_set_bool :: "calldata \<Rightarrow> byte list \<Rightarrow> bool \<Rightarrow> calldata option" where
  "calldata_set_bool cd name b = calldata_set_data cd name [if b then 1 else 0]"

definition calldata_get_bool :: "calldata \<Rightarrow> byte list \<Rightarrow> bool option option" where
  "calldata_get_bool cd name = map_option (map_option (\<lambda>bs. bs \<noteq> [0])) (calldata_get_data cd name 1)"

definition calldata_set_ptr :: "calldata \<Rightarrow> byte list \<Rightarrow> u64 \<Rightarrow> calldata option" where
  "calldata_set_ptr cd name p = calldata_set_data cd name (le_bytes 8 (unat p))"

definition calldata_get_ptr :: "calldata \<Rightarrow> byte list \<Rightarrow> u64 option option" where
  "calldata_get_ptr cd name = map_option (map_option (\<lambda>bs. of_nat (le_nat bs))) (calldata_get_data cd name 8)"

definition calldata_set_string :: "calldata \<Rightarrow> byte list \<Rightarrow> byte list option \<Rightarrow> calldata option" where
  "calldata_set_string cd name str =
     (case str of Some s \<Rightarrow> calldata_set_data cd name (s @ [0]) | None \<Rightarrow> calldata_set_data cd name [])"

definition calldata_int :: "calldata \<Rightarrow> byte list \<Rightarrow> int option" where
  "calldata_int cd name = map_option (\<lambda>r. case r of Some v \<Rightarrow> v | None \<Rightarrow> 0) (calldata_get_int cd name)"

definition calldata_bool :: "calldata \<Rightarrow> byte list \<Rightarrow> bool option" where
  "calldata_bool cd name = map_option (\<lambda>r. case r of Some v \<Rightarrow> v | None \<Rightarrow> False) (calldata_get_bool cd name)"

definition calldata_ptr :: "calldata \<Rightarrow> byte list \<Rightarrow> u64 option" where
  "calldata_ptr cd name = map_option (\<lambda>r. case r of Some v \<Rightarrow> v | None \<Rightarrow> 0) (calldata_get_ptr cd name)"

definition calldata_string :: "calldata \<Rightarrow> byte list \<Rightarrow> nat option option" where
  "calldata_string cd name = map_option (\<lambda>r. case r of Some v \<Rightarrow> v | None \<Rightarrow> None) (calldata_get_string cd name)"

end
