(* ===== verification/Calldata_Map.thy ===== *)
theory Calldata_Map
  imports Calldata
begin

text \<open>
  The parameter block is a finite map. Its abstraction is an association list without
  duplicate names; the locale states what a signal or procedure relies on: what was set last
  under a name is what is found, and setting one name leaves the others alone.
\<close>

section \<open>The block and its entries\<close>

type_synonym param = "byte list \<times> byte list"

definition cd_entry :: "param \<Rightarrow> byte list" where
  "cd_entry p = size_t (length (fst p) + 1) @ (fst p @ [0]) @ size_t (length (snd p)) @ snd p"

definition cd_entries :: "param list \<Rightarrow> byte list" where
  "cd_entries es = concat (map cd_entry es)"

definition valid_name :: "byte list \<Rightarrow> bool" where
  "valid_name n \<longleftrightarrow> n \<noteq> [] \<and> 0 \<notin> set n \<and> length n + 1 < 2 ^ 64"

definition params_ok :: "param list \<Rightarrow> bool" where
  "params_ok es \<longleftrightarrow> distinct (map fst es) \<and> (\<forall>(n, d) \<in> set es. valid_name n \<and> length d < 2 ^ 64)"

definition cd_repr :: "calldata \<Rightarrow> param list \<Rightarrow> bool" where
  "cd_repr cd es \<longleftrightarrow>
     cd_stack cd = None \<and> \<not> cd_fixed cd \<and> cd_size cd = 0 \<and> es = [] \<or>
     params_ok es \<and> cd_size cd = length (cd_entries es) + 8 \<and>
     (\<exists>junk. cd_stack cd = Some (map Some (cd_entries es @ size_t 0) @ junk) \<and>
       cd_capacity cd = length (cd_entries es) + 8 + length junk)"

lemma length_size_t [simp]: "length (size_t n) = 8"
  by (simp add: size_t_def)

lemma size_t_zero: "size_t 0 = replicate 8 0"
  by (simp add: size_t_def le_bytes_zero)

lemma cd_entries_simps [simp]:
  "cd_entries [] = []" "cd_entries (p # es) = cd_entry p @ cd_entries es"
  "cd_entries (es @ es') = cd_entries es @ cd_entries es'"
  by (simp_all add: cd_entries_def)

lemma read_size:
  "p = length a \<Longrightarrow> n < 2 ^ 64 \<Longrightarrow> cd_serialize_size (a @ map Some (size_t n) @ c) p = Some (n, p + 8)"
  using mem_bytes_at [of p a 8 "size_t n" c] by (simp add: cd_serialize_size_def size_t_def)

lemma scan_entry:
  assumes "p = length a" "valid_name n" "length d < 2 ^ 64" "valid_name name"
  shows "cd_scan (a @ map Some (cd_entry (n, d)) @ c) name p =
    (if n = name then Some (True, p + 8 + (length n + 1))
     else cd_scan (a @ map Some (cd_entry (n, d)) @ c) name (p + length (cd_entry (n, d))))"
proof -
  let ?m = "a @ map Some (cd_entry (n, d)) @ c"
  let ?a1 = "a @ map Some (size_t (length n + 1))"
  let ?a2 = "?a1 @ map Some (n @ [0])"
  have m1: "?m = a @ map Some (size_t (length n + 1)) @ (map Some (n @ [0]) @ map Some (size_t (length d) @ d) @ c)"
    and m2: "?m = ?a1 @ map Some (n @ [0]) @ (map Some (size_t (length d) @ d) @ c)"
    and m3: "?m = ?a2 @ map Some (size_t (length d)) @ (map Some d @ c)"
    by (simp_all add: cd_entry_def)
  have 1: "cd_serialize_size ?m p = Some (length n + 1, p + 8)"
    unfolding m1 using assms by (intro read_size) (simp_all add: valid_name_def)
  have 2: "mem_streq name (p + 8) ?m = Some (n = name)"
    unfolding m2 using assms mem_streq_same [of "p + 8" ?a1 n] mem_streq_differs [of "p + 8" ?a1 name n]
    by (cases "n = name") (simp_all add: valid_name_def)
  have 3: "cd_serialize_size ?m (p + 8 + (length n + 1)) = Some (length d, p + 8 + (length n + 1) + 8)"
    unfolding m3 using assms by (intro read_size) simp_all
  have l: "p + length (cd_entry (n, d)) = p + 8 + (length n + 1) + 8 + length d" by (simp add: cd_entry_def)
  show ?thesis unfolding cd_scan.simps [of ?m name p] 1 l using 2 3 by simp
qed

lemma scan_end:
  assumes "p = length a" shows "cd_scan (a @ map Some (size_t 0) @ c) name p = Some (False, p)"
  unfolding cd_scan.simps [of _ name p] by (simp add: read_size [OF assms])

lemma scan_skip:
  assumes "p = length a" "params_ok es" "valid_name name" "name \<notin> fst ` set es"
  shows "cd_scan (a @ map Some (cd_entries es) @ c) name p =
    cd_scan (a @ map Some (cd_entries es) @ c) name (p + length (cd_entries es))"
  using assms
proof (induction es arbitrary: a p)
  case (Cons e es)
  obtain n d where e: "e = (n, d)" by (cases e)
  have ok: "valid_name n" "length d < 2 ^ 64" "params_ok es" "n \<noteq> name" "name \<notin> fst ` set es"
    using Cons.prems by (auto simp: e params_ok_def)
  have "cd_scan ((a @ map Some (cd_entry (n, d))) @ map Some (cd_entries es) @ c) name (p + length (cd_entry (n, d))) =
      cd_scan ((a @ map Some (cd_entry (n, d))) @ map Some (cd_entries es) @ c) name
        (p + length (cd_entry (n, d)) + length (cd_entries es))"
    using Cons.prems ok by (intro Cons.IH) simp_all
  moreover have "cd_scan (a @ map Some (cd_entry (n, d)) @ (map Some (cd_entries es) @ c)) name p =
      cd_scan (a @ map Some (cd_entry (n, d)) @ (map Some (cd_entries es) @ c)) name (p + length (cd_entry (n, d)))"
    using scan_entry [OF Cons.prems(1) ok(1,2) Cons.prems(3)] ok(4) by simp
  ultimately show ?case by (simp add: e add.assoc)
qed simp

text \<open>The scan finds a name exactly if it has an entry.\<close>

lemma split_param:
  assumes "map_of es name = Some d"
  obtains es1 es2 where "es = es1 @ (name, d) # es2" "name \<notin> fst ` set es1"
proof -
  from assms have "\<exists>es1 es2. es = es1 @ (name, d) # es2 \<and> name \<notin> fst ` set es1"
  proof (induction es)
    case (Cons e es)
    show ?case
    proof (cases "fst e = name")
      case True
      with Cons.prems have "e # es = [] @ (name, d) # es" by (cases e) simp
      then show ?thesis by (intro exI [of _ "[]"] exI [of _ es]) simp
    next
      case False
      then have "map_of es name = Some d" using Cons.prems by (cases e) simp
      with Cons.IH obtain es1 es2 where "es = es1 @ (name, d) # es2" "name \<notin> fst ` set es1" by blast
      with False show ?thesis by (intro exI [of _ "e # es1"] exI [of _ es2]) auto
    qed
  qed simp
  with that show ?thesis by blast
qed

lemma params_ok_append: "params_ok (es @ es') \<Longrightarrow> params_ok es \<and> params_ok es'"
  by (auto simp: params_ok_def)

lemma scan_hit:
  assumes "params_ok (es1 @ (name, d) # es2)" "name \<notin> fst ` set es1"
  shows "cd_scan (map Some (cd_entries (es1 @ (name, d) # es2)) @ c) name 0 =
    Some (True, length (cd_entries es1) + 8 + (length name + 1))"
proof -
  have ok: "params_ok es1" "valid_name name" "length d < 2 ^ 64"
    using assms(1) by (auto simp: params_ok_def)
  have "cd_scan ([] @ map Some (cd_entries es1) @ (map Some (cd_entry (name, d)) @ map Some (cd_entries es2) @ c)) name 0 =
     cd_scan ([] @ map Some (cd_entries es1) @ (map Some (cd_entry (name, d)) @ map Some (cd_entries es2) @ c)) name
       (0 + length (cd_entries es1))"
    using assms(2) ok by (intro scan_skip) simp_all
  then show ?thesis
    using scan_entry [of "length (cd_entries es1)" "map Some (cd_entries es1)" name d name "map Some (cd_entries es2) @ c"] ok
    by simp
qed

lemma scan_miss:
  assumes "params_ok es" "valid_name name" "map_of es name = None"
  shows "cd_scan (map Some (cd_entries es @ size_t 0) @ c) name 0 = Some (False, length (cd_entries es))"
proof -
  have "cd_scan ([] @ map Some (cd_entries es) @ (map Some (size_t 0) @ c)) name 0 =
     cd_scan ([] @ map Some (cd_entries es) @ (map Some (size_t 0) @ c)) name (0 + length (cd_entries es))"
    using assms by (intro scan_skip) (simp_all add: map_of_eq_None_iff)
  then show ?thesis using scan_end [of "length (cd_entries es)" "map Some (cd_entries es)" c name] by simp
qed


section \<open>Reading a parameter\<close>

lemma cd_repr_getparam_none:
  "cd_repr cd es \<Longrightarrow> valid_name name \<Longrightarrow> map_of es name = None \<Longrightarrow> \<exists>pos. cd_getparam cd name = Some (False, pos)"
  by (auto simp: cd_repr_def cd_getparam_def scan_miss [unfolded map_append append_assoc])

text \<open>The block around a parameter.\<close>

lemma cd_repr_param:
  assumes r: "cd_repr cd es" and v: "valid_name name" and d: "map_of es name = Some d"
  obtains es1 es2 P T junk where "es = es1 @ (name, d) # es2" "name \<notin> fst ` set es1"
    "P = cd_entries es1 @ size_t (length name + 1) @ name @ [0]" "T = cd_entries es2 @ size_t 0"
    "cd_stack cd = Some (map Some P @ map Some (size_t (length d) @ d) @ map Some T @ junk)"
    "cd_size cd = length P + (8 + length d) + length T" "cd_capacity cd = cd_size cd + length junk"
    "cd_getparam cd name = Some (True, Some (length P))" "length d < 2 ^ 64" "params_ok es"
proof -
  from split_param [OF d] obtain es1 es2 where es: "es = es1 @ (name, d) # es2" "name \<notin> fst ` set es1" .
  from r d obtain junk where j: "cd_stack cd = Some (map Some (cd_entries es @ size_t 0) @ junk)"
    "cd_capacity cd = length (cd_entries es) + 8 + length junk" "cd_size cd = length (cd_entries es) + 8" "params_ok es"
    by (auto simp: cd_repr_def)
  have g: "cd_getparam cd name = Some (True, Some (length (cd_entries es1) + 8 + (length name + 1)))"
    using scan_hit [OF j(4) [unfolded es] es(2), of "map Some (size_t 0) @ junk"] j es
    by (simp add: cd_getparam_def)
  show ?thesis
    by (rule that [OF es refl refl, of junk]) (use j g es in \<open>auto simp: cd_entry_def params_ok_def\<close>)
qed

lemma cd_repr_lookup:
  assumes "cd_repr cd es" and "valid_name name" and "map_of es name = Some d"
  shows "\<exists>P T junk. cd_stack cd = Some (map Some P @ map Some (size_t (length d) @ d) @ map Some T @ junk) \<and>
    cd_getparam cd name = Some (True, Some (length P)) \<and> length d < 2 ^ 64"
  by (rule cd_repr_param [OF assms]) blast

lemma get_data_repr:
  assumes "cd_repr cd es" and "valid_name name"
  shows "calldata_get_data cd name sz =
    Some (case map_of es name of Some d \<Rightarrow> if length d = sz then Some d else None | None \<Rightarrow> None)"
proof (cases "map_of es name")
  case None
  then show ?thesis
    using cd_repr_getparam_none [OF assms] assms(2) by (auto simp: calldata_get_data_def valid_name_def)
next
  case (Some d)
  from cd_repr_lookup [OF assms Some] obtain P T junk where
    s: "cd_stack cd = Some (map Some P @ map Some (size_t (length d) @ d) @ map Some T @ junk)"
    "cd_getparam cd name = Some (True, Some (length P))" "length d < 2 ^ 64" by blast
  let ?m = "map Some P @ map Some (size_t (length d)) @ map Some d @ map Some T @ junk"
  have 1: "cd_serialize_size ?m (length P) = Some (length d, length P + 8)" by (rule read_size) (use s(3) in simp_all)
  have 2: "mem_bytes (length P + 8) (length d) ((map Some P @ map Some (size_t (length d))) @ map Some d @ map Some T @ junk) = Some d"
    by (rule mem_bytes_at) simp_all
  show ?thesis using assms(2) 1 2 s by (auto simp: calldata_get_data_def valid_name_def Some)
qed

text \<open>A string parameter is found through a pointer into the block.\<close>

lemma get_string_repr:
  assumes "cd_repr cd es" and "valid_name name"
  shows "map_of es name = None \<Longrightarrow> calldata_get_string cd name = Some None"
    and "map_of es name = Some [] \<Longrightarrow> calldata_get_string cd name = Some (Some None)"
    and "map_of es name = Some (s @ [0]) \<Longrightarrow> 0 \<notin> set s \<Longrightarrow>
      \<exists>m p. cd_stack cd = Some m \<and> calldata_get_string cd name = Some (Some (Some p)) \<and> mem_cstring p m = Some s"
proof -
  show "map_of es name = None \<Longrightarrow> calldata_get_string cd name = Some None"
    using cd_repr_getparam_none [OF assms] assms(2) by (auto simp: calldata_get_string_def valid_name_def)
next
  have g: "calldata_get_string cd name = Some (Some (if d = [] then None else Some (length P + 8)))"
    if s: "cd_stack cd = Some (map Some P @ map Some (size_t (length d) @ d) @ map Some T @ junk)"
      "cd_getparam cd name = Some (True, Some (length P))" "length d < 2 ^ 64" for d P T junk
  proof -
    let ?m = "map Some P @ map Some (size_t (length d)) @ map Some d @ map Some T @ junk"
    have "cd_serialize_size ?m (length P) = Some (length d, length P + 8)" by (rule read_size) (use s(3) in simp_all)
    then show ?thesis using s assms(2) by (simp add: calldata_get_string_def cd_serialize_string_def valid_name_def)
  qed
  show "calldata_get_string cd name = Some (Some None)" if "map_of es name = Some []"
    using cd_repr_lookup [OF assms that] g [of _ "[]"] by auto
  show "\<exists>m p. cd_stack cd = Some m \<and> calldata_get_string cd name = Some (Some (Some p)) \<and> mem_cstring p m = Some s"
    if d: "map_of es name = Some (s @ [0])" and z: "0 \<notin> set s"
  proof -
    from cd_repr_lookup [OF assms d] obtain P T junk where
      s: "cd_stack cd = Some (map Some P @ map Some (size_t (length (s @ [0])) @ (s @ [0])) @ map Some T @ junk)"
      "cd_getparam cd name = Some (True, Some (length P))" "length (s @ [0]) < 2 ^ 64" by blast
    have "mem_cstring (length P + 8) ((map Some P @ map Some (size_t (length (s @ [0])))) @ map Some (s @ [0]) @ (map Some T @ junk)) = Some s"
      by (rule mem_cstring_at) (simp_all add: z)
    then show ?thesis using g [OF s] s(1) by simp
  qed
qed

section \<open>Setting a parameter\<close>

lemma copy_data_at:
  assumes "p = length a" "length b = 8 + length bs"
  shows "cd_copy_data p bs (a @ b @ c) = Some (a @ map Some (size_t (length bs) @ bs) @ c, p + 8 + length bs)"
proof -
  define b1 b2 where "b1 = take 8 b" and "b2 = drop 8 b"
  have b: "b = b1 @ b2" "length b1 = 8" "length b2 = length bs" using assms by (simp_all add: b1_def b2_def)
  have 1: "mem_write p (map Some (size_t (length bs))) (a @ b1 @ (b2 @ c)) = Some (a @ map Some (size_t (length bs)) @ (b2 @ c))"
    by (rule mem_write_at) (simp_all add: assms b)
  have 2: "mem_write (p + 8) (map Some bs) ((a @ map Some (size_t (length bs))) @ b2 @ c) =
      Some ((a @ map Some (size_t (length bs))) @ map Some bs @ c)"
    by (rule mem_write_at) (simp_all add: assms b)
  show ?thesis using 1 2 by (simp add: cd_copy_data_def b(1))
qed

lemma copy_string_at:
  assumes "p = length a" "length b = 8 + (length s + 1)"
  shows "cd_copy_string p s (a @ b @ c) =
    Some (a @ map Some (size_t (length s + 1) @ s @ [0]) @ c, p + 8 + (length s + 1))"
  using copy_data_at [of p a b "s @ [0]" c] assms by (simp add: cd_copy_string_def cd_copy_data_def)

lemma ensure_ok:
  assumes "cd_stack cd = Some m" "cd_capacity cd = length m"
  shows "snd (cd_ensure_capacity cd n) = (n < cd_capacity cd \<or> \<not> cd_fixed cd)"
    and "\<not> snd (cd_ensure_capacity cd n) \<Longrightarrow> fst (cd_ensure_capacity cd n) = cd"
    and "snd (cd_ensure_capacity cd n) \<Longrightarrow> \<exists>more. n \<le> length (m @ more) \<and>
      fst (cd_ensure_capacity cd n) = cd\<lparr>cd_stack := Some (m @ more), cd_capacity := length (m @ more)\<rparr>"
proof -
  show "snd (cd_ensure_capacity cd n) = (n < cd_capacity cd \<or> \<not> cd_fixed cd)"
    "\<not> snd (cd_ensure_capacity cd n) \<Longrightarrow> fst (cd_ensure_capacity cd n) = cd"
    by (auto simp: cd_ensure_capacity_def Let_def)
  assume ok: "snd (cd_ensure_capacity cd n)"
  show "\<exists>more. n \<le> length (m @ more) \<and>
      fst (cd_ensure_capacity cd n) = cd\<lparr>cd_stack := Some (m @ more), cd_capacity := length (m @ more)\<rparr>"
  proof (cases "n < cd_capacity cd")
    case True
    with assms show ?thesis by (intro exI [of _ "[]"]) (auto simp: cd_ensure_capacity_def)
  next
    case False
    let ?c = "if cd_capacity cd * 2 < n then n else cd_capacity cd * 2"
    have "length m \<le> ?c" using False assms by auto
    then have "mem_realloc ?c m = m @ replicate (?c - length m) None" by (simp add: mem_realloc_def)
    with False ok assms \<open>length m \<le> ?c\<close> show ?thesis
      by (intro exI [of _ "replicate (?c - length m) None"]) (auto simp: cd_ensure_capacity_def Let_def)
  qed
qed

lemma resize_param:
  assumes s: "cd_stack cd = Some (map Some P @ D @ map Some T @ junk)" "length D = 8 + old"
    and n: "cd_size cd = length P + length D + length T" "cd_capacity cd = cd_size cd + length junk"
  shows "if old < new \<and> cd_fixed cd \<and> cd_size cd + (new - old) \<ge> cd_capacity cd
    then cd_resize_param cd (length P) old new = Some (cd, False)
    else \<exists>X junk'. length X = 8 + new \<and> cd_resize_param cd (length P) old new =
      Some (cd\<lparr>cd_stack := Some (map Some P @ X @ map Some T @ junk'), cd_size := length P + (8 + new) + length T,
        cd_capacity := length P + (8 + new) + length T + length junk'\<rparr>, True)"
proof -
  let ?m = "map Some P @ D @ map Some T @ junk"
  have cap: "cd_capacity cd = length ?m" using n by simp
  consider "old < new" | "old > new" | "old = new" by linarith
  then show ?thesis
  proof cases
    case 1
    let ?o = "new - old" and ?n = "cd_size cd + (new - old)"
    note e = ensure_ok [OF s(1) cap, of ?n]
    show ?thesis
    proof (cases "snd (cd_ensure_capacity cd ?n)")
      case False
      with 1 e(1,2) show ?thesis by (auto simp: cd_resize_param_def Let_def split: prod.splits)
    next
      case True
      with e(3) obtain more where more: "?n \<le> length (?m @ more)"
        "fst (cd_ensure_capacity cd ?n) = cd\<lparr>cd_stack := Some (?m @ more), cd_capacity := length (?m @ more)\<rparr>" by blast
      let ?bs = "D @ map Some T" and ?m1 = "?m @ more"
      let ?Y = "take ?o (?bs @ junk @ more)"
      have r: "mem_read (length P) (length ?bs) ?m1 = Some ?bs"
        using mem_read_at [of "length P" "map Some P" "length ?bs" ?bs "junk @ more"] by simp
      obtain Y J where w: "mem_write (length P + ?o) ?bs ?m1 = Some (map Some P @ (Y @ D) @ map Some T @ J)"
        "length Y = ?o" "length ?m1 = length P + (8 + new) + length T + length J"
      proof
        show "mem_write (length P + ?o) ?bs ?m1 =
            Some (map Some P @ (take ?o (?bs @ junk @ more) @ D) @ map Some T @ drop (length P + ?o + length ?bs) ?m1)"
          using more(1) n by (subst mem_write_ok) simp_all
      qed (use more(1) n 1 s(2) in simp_all)
      have b: "cd_size cd - length P = length ?bs" using n by simp
      let ?cd = "cd\<lparr>cd_stack := Some ?m1, cd_capacity := length ?m1\<rparr>"
      have ec: "cd_ensure_capacity cd ?n = (?cd, True)" using True more(2) by (cases "cd_ensure_capacity cd ?n") simp
      have mv: "cd_memmove (length P + ?o) (length P) (cd_size cd - length P) ?cd =
          Some (?cd\<lparr>cd_stack := Some (map Some P @ (Y @ D) @ map Some T @ J)\<rparr>)"
        unfolding cd_memmove_def b r using r w(1) by simp
      have sz: "cd_size cd + ?o = length P + (8 + new) + length T" using n 1 s(2) by simp
      have "cd_resize_param cd (length P) old new =
        Some (cd\<lparr>cd_stack := Some (map Some P @ (Y @ D) @ map Some T @ J),
          cd_size := length P + (8 + new) + length T, cd_capacity := length ?m1\<rparr>, True)"
        unfolding cd_resize_param_def Let_def ec prod.case if_P [OF 1] using mv sz by simp
      moreover have "length (Y @ D) = 8 + new" using w(2) s(2) 1 by simp
      moreover have nf: "\<not> (old < new \<and> cd_fixed cd \<and> ?n \<ge> cd_capacity cd)" using True e(1) by auto
      ultimately show ?thesis unfolding if_not_P [OF nf] w(3)
        by (intro exI [of _ "Y @ D"] exI [of _ J] conjI)
    qed
  next
    case 2
    let ?o = "old - new"
    let ?bs = "drop ?o D @ map Some T"
    let ?j = "drop (length P + length ?bs) ?m"
    have e: "?m = (map Some P @ take ?o D) @ ?bs @ junk" by (metis append_assoc append_take_drop_id)
    have r: "mem_read (length P + ?o) (length ?bs) ?m = Some ?bs"
      by (subst e, rule mem_read_at) (use s(2) 2 in simp_all)
    have w: "mem_write (length P) ?bs ?m = Some (map Some P @ drop ?o D @ map Some T @ ?j)"
      using s(2) 2 by (subst mem_write_ok) simp_all
    have b: "cd_size cd - ?o - length P = length ?bs" using n s(2) 2 by simp
    have mv: "cd_memmove (length P) (length P + ?o) (cd_size cd - ?o - length P) cd =
        Some (cd\<lparr>cd_stack := Some (map Some P @ drop ?o D @ map Some T @ ?j)\<rparr>)"
      unfolding cd_memmove_def b s(1) bind.bind_lunit r w ..
    have sz: "cd_size cd - ?o = length P + (8 + new) + length T" using n s(2) 2 by simp
    have "\<not> old < new" using 2 by simp
    then have rs: "cd_resize_param cd (length P) old new =
        Some (cd\<lparr>cd_stack := Some (map Some P @ drop ?o D @ map Some T @ ?j),
          cd_size := length P + (8 + new) + length T\<rparr>, True)"
      using 2 sz unfolding cd_resize_param_def Let_def mv by simp
    have cap: "length P + (8 + new) + length T + length ?j = cd_capacity cd" using n s(2) 2 by simp
    have nf: "\<not> (old < new \<and> cd_fixed cd \<and> cd_size cd + (new - old) \<ge> cd_capacity cd)" using 2 by simp
    have l: "length (drop ?o D) = 8 + new" using s(2) 2 by simp
    show ?thesis unfolding if_not_P [OF nf] rs
      by (rule exI [of _ "drop ?o D"], rule exI [of _ ?j], unfold cap) (simp add: l [simplified])
  next
    case 3
    then have rs: "cd_resize_param cd (length P) old new = Some (cd, True)" by (simp add: cd_resize_param_def)
    have nf: "\<not> (old < new \<and> cd_fixed cd \<and> cd_size cd + (new - old) \<ge> cd_capacity cd)" using 3 by simp
    have sz: "length P + (8 + new) + length T = cd_size cd" using n s(2) 3 by simp
    have cap: "cd_size cd + length junk = cd_capacity cd" using n by simp
    show ?thesis unfolding if_not_P [OF nf] rs
      by (rule exI [of _ D], rule exI [of _ junk], unfold sz cap) (use s 3 in \<open>cases cd, simp\<close>)
  qed
qed

text \<open>What a set does to the map: a fixed block rejects what would reach its end.\<close>

definition set_fits :: "calldata \<Rightarrow> param list \<Rightarrow> byte list \<Rightarrow> byte list \<Rightarrow> bool" where
  "set_fits cd es name bs \<longleftrightarrow> \<not> cd_fixed cd \<or>
     (let new = length (cd_entries (AList.update name bs es)) + 8
      in new \<le> cd_size cd \<and> map_of es name \<noteq> None \<or> new < cd_capacity cd)"

lemma update_split: "name \<notin> fst ` set es1 \<Longrightarrow> AList.update name bs (es1 @ (name, d) # es2) = es1 @ (name, bs) # es2"
  by (induction es1) auto

lemma update_new: "map_of es name = None \<Longrightarrow> AList.update name bs es = es @ [(name, bs)]"
  by (induction es) (auto split: if_splits)

lemma in_update: "p \<in> set (AList.update name bs es) \<Longrightarrow> p = (name, bs) \<or> p \<in> set es"
  by (induction es) (auto split: if_splits)

lemma params_ok_update: "params_ok es \<Longrightarrow> valid_name name \<Longrightarrow> length bs < 2 ^ 64 \<Longrightarrow> params_ok (AList.update name bs es)"
  by (auto simp: params_ok_def distinct_update dest!: in_update)

lemma set_hit:
  assumes r: "cd_repr cd es" and v: "valid_name name" "length bs < 2 ^ 64" and d: "map_of es name = Some d"
  shows "\<exists>cd'. calldata_set_data cd name bs = Some cd' \<and>
    cd_repr cd' (if set_fits cd es name bs then AList.update name bs es else es) \<and> cd_fixed cd' = cd_fixed cd"
proof -
  from cd_repr_param [OF r v(1) d] obtain es1 es2 P T junk where
    es: "es = es1 @ (name, d) # es2" "name \<notin> fst ` set es1" and
    PT: "P = cd_entries es1 @ size_t (length name + 1) @ name @ [0]" "T = cd_entries es2 @ size_t 0" and
    s: "cd_stack cd = Some (map Some P @ map Some (size_t (length d) @ d) @ map Some T @ junk)"
    "cd_size cd = length P + (8 + length d) + length T" "cd_capacity cd = cd_size cd + length junk" and
    g: "cd_getparam cd name = Some (True, Some (length P))" "length d < 2 ^ 64" "params_ok es" .
  have up: "AList.update name bs es = es1 @ (name, bs) # es2" using es update_split by simp
  have len: "length (cd_entries (AList.update name bs es)) + 8 = length P + (8 + length bs) + length T"
    by (simp add: up PT cd_entry_def)
  have fits: "set_fits cd es name bs \<longleftrightarrow>
      \<not> (length d < length bs \<and> cd_fixed cd \<and> cd_size cd + (length bs - length d) \<ge> cd_capacity cd)"
    using s(2) by (auto simp: set_fits_def Let_def len d)
  let ?m = "map Some P @ map Some (size_t (length d) @ d) @ map Some T @ junk"
  have cur: "mem_bytes (length P) 8 ?m = Some (size_t (length d))"
    using mem_bytes_at [of "length P" "map Some P" 8 "size_t (length d)" "map Some d @ map Some T @ junk"] by simp
  have old: "le_nat (size_t (length d)) = length d" using g(2) by (simp add: size_t_def)
  have D: "length (map Some (size_t (length d) @ d) :: byte option list) = 8 + length d" by simp
  have st: "calldata_set_data cd name bs = Option.bind (cd_resize_param cd (length P) (length d) (length bs))
      (\<lambda>(cd, ok). if \<not> ok then Some cd
          else do { m \<leftarrow> cd_stack cd; (m, _) \<leftarrow> cd_copy_data (length P) bs m; Some (cd\<lparr>cd_stack := Some m\<rparr>) })"
    using v(1) s(1) g(1) cur old by (simp add: calldata_set_data_def valid_name_def)
  have sz: "cd_size cd = length P + length (map Some (size_t (length d) @ d) :: byte option list) + length T" using s(2) by simp
  note rp = resize_param [OF s(1) D sz s(3), of "length bs"]
  show ?thesis
  proof (cases "set_fits cd es name bs")
    case False
    then have c: "length d < length bs \<and> cd_fixed cd \<and> cd_size cd + (length bs - length d) \<ge> cd_capacity cd"
      using fits by blast
    from rp [unfolded if_P [OF c]] False st r show ?thesis by simp
  next
    case True
    then have c: "\<not> (length d < length bs \<and> cd_fixed cd \<and> cd_size cd + (length bs - length d) \<ge> cd_capacity cd)"
      using fits by blast
    from rp [unfolded if_not_P [OF c]] obtain X junk' where fits: "length X = 8 + length bs"
      "cd_resize_param cd (length P) (length d) (length bs) =
        Some (cd\<lparr>cd_stack := Some (map Some P @ X @ map Some T @ junk'), cd_size := length P + (8 + length bs) + length T,
        cd_capacity := length P + (8 + length bs) + length T + length junk'\<rparr>, True)" by blast
    let ?U = "AList.update name bs es"
    have e: "map Some (cd_entries ?U @ size_t 0) @ junk' =
        map Some P @ map Some (size_t (length bs) @ bs) @ map Some T @ junk'"
      by (simp add: up PT cd_entry_def)
    have cp: "cd_copy_data (length P) bs (map Some P @ X @ map Some T @ junk') =
        Some (map Some (cd_entries ?U @ size_t 0) @ junk', length P + 8 + length bs)"
      unfolding e by (rule copy_data_at) (simp_all add: fits)
    show ?thesis using True fits(2) cp params_ok_update [OF g(3) v] by (simp add: st) (simp add: cd_repr_def len)
  qed
qed

lemma split_three: "xs = take a xs @ take b (drop a xs) @ take c (drop (a + b) xs) @ drop (a + b + c) xs"
  by (metis append_take_drop_id add.commute drop_drop)

lemma length_three: "a + b + c \<le> length xs \<Longrightarrow>
    length (take a xs) = a \<and> length (take b (drop a xs)) = b \<and> length (take c (drop (a + b) xs)) = c"
  by simp

lemma set_miss:
  assumes r: "cd_repr cd es" and v: "valid_name name" "length bs < 2 ^ 64" and d: "map_of es name = None"
    and nz: "cd_stack cd \<noteq> None"
  shows "\<exists>cd'. calldata_set_data cd name bs = Some cd' \<and>
    cd_repr cd' (if set_fits cd es name bs then AList.update name bs es else es) \<and> cd_fixed cd' = cd_fixed cd"
proof -
  from r nz obtain junk where s: "cd_stack cd = Some (map Some (cd_entries es @ size_t 0) @ junk)"
    "cd_capacity cd = length (cd_entries es) + 8 + length junk" "cd_size cd = length (cd_entries es) + 8" "params_ok es"
    by (auto simp: cd_repr_def)
  let ?m = "map Some (cd_entries es @ size_t 0) @ junk"
  let ?n = "cd_size cd + (length name + 1 + length bs + 8 * 2)"
  have cap: "cd_capacity cd = length ?m" using s(2) by simp
  have g: "cd_getparam cd name = Some (False, Some (length (cd_entries es)))"
    using scan_miss [OF s(4) v(1) d, of junk] s(1,3) by (simp add: cd_getparam_def)
  have up: "AList.update name bs es = es @ [(name, bs)]" using d by (rule update_new)
  have n: "length (cd_entries (AList.update name bs es)) + 8 = ?n" by (simp add: up s(3) cd_entry_def)
  note e = ensure_ok [OF s(1) cap, of ?n]
  have fits: "set_fits cd es name bs = snd (cd_ensure_capacity cd ?n)"
    by (simp only: set_fits_def Let_def n d e(1)) auto
  have st: "calldata_set_data cd name bs = (case cd_ensure_capacity cd ?n of (cd', ok) \<Rightarrow>
      if \<not> ok then Some cd'
      else do {
        m \<leftarrow> cd_stack cd';
        (m, pos) \<leftarrow> cd_copy_string (length (cd_entries es)) name m;
        (m, pos) \<leftarrow> cd_copy_data pos bs m;
        m \<leftarrow> mem_write pos (map Some (replicate 8 0)) m;
        Some (cd'\<lparr>cd_size := cd_size cd' + (length name + 1 + length bs + 8 * 2), cd_stack := Some m\<rparr>)
      })"
    using v(1) g by (cases "cd_ensure_capacity cd ?n") (simp add: calldata_set_data_def valid_name_def s(1) Let_def)
  show ?thesis
  proof (cases "snd (cd_ensure_capacity cd ?n)")
    case False
    have ec: "cd_ensure_capacity cd ?n = (cd, False)" using False e(2) by (cases "cd_ensure_capacity cd ?n") simp
    show ?thesis using False fits r unfolding st ec by simp
  next
    case True
    with e(3) obtain more where more: "?n \<le> length (?m @ more)"
      "fst (cd_ensure_capacity cd ?n) = cd\<lparr>cd_stack := Some (?m @ more), cd_capacity := length (?m @ more)\<rparr>" by blast
    let ?cd = "cd\<lparr>cd_stack := Some (?m @ more), cd_capacity := length (?m @ more)\<rparr>"
    let ?A = "map Some (cd_entries es) :: byte option list" and ?R = "map Some (size_t 0) @ junk @ more"
    have ec: "cd_ensure_capacity cd ?n = (?cd, True)" using True more(2) by (cases "cd_ensure_capacity cd ?n") simp
    define ln ld where "ln = 8 + (length name + 1)" and "ld = 8 + length bs"
    define b1 b2 b3 junk' where "b1 = take ln ?R" and "b2 = take ld (drop ln ?R)"
      and "b3 = take 8 (drop (ln + ld) ?R)" and "junk' = drop (ln + ld + 8) ?R"
    have lR: "ln + ld + 8 \<le> length ?R" using more(1) s(3) by (simp add: ln_def ld_def)
    have R: "?R = b1 @ b2 @ b3 @ junk'"
      unfolding b1_def b2_def b3_def junk'_def by (rule split_three)
    have l: "length b1 = ln" "length b2 = ld" "length b3 = 8" 
      unfolding b1_def b2_def b3_def using length_three [OF lR] by blast+
    let ?S = "map Some (size_t (length name + 1) @ name @ [0])" and ?D = "map Some (size_t (length bs) @ bs)"
    have m: "?m @ more = ?A @ b1 @ (b2 @ b3 @ junk')" using R by simp
    have 1: "cd_copy_string (length (cd_entries es)) name (?m @ more) =
        Some (?A @ ?S @ (b2 @ b3 @ junk'), length (cd_entries es) + 8 + (length name + 1))"
      unfolding m by (rule copy_string_at) (simp_all add: l ln_def)
    have 2: "cd_copy_data (length (cd_entries es) + 8 + (length name + 1)) bs ((?A @ ?S) @ b2 @ (b3 @ junk')) =
        Some ((?A @ ?S) @ ?D @ (b3 @ junk'), length (cd_entries es) + 8 + (length name + 1) + 8 + length bs)"
      by (rule copy_data_at) (simp_all add: l ld_def)
    have 3: "mem_write (length (cd_entries es) + 8 + (length name + 1) + 8 + length bs) (map Some (replicate 8 0))
        ((?A @ ?S @ ?D) @ b3 @ junk') = Some ((?A @ ?S @ ?D) @ map Some (replicate 8 0) @ junk')"
      by (rule mem_write_at) (simp_all add: l)
    let ?m' = "(?A @ ?S @ ?D) @ map Some (replicate 8 0) @ junk'"
    have run: "calldata_set_data cd name bs = Some (?cd\<lparr>cd_size := ?n, cd_stack := Some ?m'\<rparr>)"
      unfolding st ec using 1 2 3 by simp
    have m': "?m' = map Some (cd_entries (AList.update name bs es) @ size_t 0) @ junk'"
      by (simp add: up cd_entry_def size_t_zero)
    have lm: "length (?m @ more) = ?n + length junk'"
      unfolding m using l by (simp add: s(3) ln_def ld_def)
    show ?thesis using True fits params_ok_update [OF s(4) v] n lm
      by (simp only: run m') (auto simp: cd_repr_def)
  qed
qed

lemma set_first:
  assumes "cd_stack cd = None" "\<not> cd_fixed cd" "valid_name name" "length bs < 2 ^ 64"
  shows "\<exists>cd'. calldata_set_data cd name bs = Some cd' \<and> cd_repr cd' [(name, bs)] \<and> cd_fixed cd' = cd_fixed cd"
proof -
  define ln ld where "ln = 8 + (length name + 1)" and "ld = 8 + length bs"
  let ?c = "max (8 * 3 + (length name + 1) + length bs) 128"
  let ?R = "replicate ?c None :: byte option list"
  define b1 b2 b3 junk where "b1 = take ln ?R" and "b2 = take ld (drop ln ?R)"
    and "b3 = take 8 (drop (ln + ld) ?R)" and "junk = drop (ln + ld + 8) ?R"
  have lR: "ln + ld + 8 \<le> length ?R" by (simp add: ln_def ld_def)
  have R: "?R = b1 @ b2 @ b3 @ junk"
    unfolding b1_def b2_def b3_def junk_def by (rule split_three)
  have l: "length b1 = ln" "length b2 = ld" "length b3 = 8"
    unfolding b1_def b2_def b3_def using length_three [OF lR] by blast+
  let ?S = "map Some (size_t (length name + 1) @ name @ [0])" and ?D = "map Some (size_t (length bs) @ bs)"
  have 1: "cd_copy_string 0 name ([] @ b1 @ (b2 @ b3 @ junk)) = Some ([] @ ?S @ (b2 @ b3 @ junk), 0 + 8 + (length name + 1))"
    by (rule copy_string_at) (simp_all add: l ln_def)
  have 2: "cd_copy_data (0 + 8 + (length name + 1)) bs (?S @ b2 @ (b3 @ junk)) =
      Some (?S @ ?D @ (b3 @ junk), 0 + 8 + (length name + 1) + 8 + length bs)"
    by (rule copy_data_at) (simp_all add: l ld_def)
  have 3: "mem_write (0 + 8 + (length name + 1) + 8 + length bs) (map Some (replicate 8 0))
      ((?S @ ?D) @ b3 @ junk) = Some ((?S @ ?D) @ map Some (replicate 8 0) @ junk)"
    by (rule mem_write_at) (simp_all add: l)
  let ?m = "(?S @ ?D) @ map Some (replicate 8 0) @ junk"
  have run: "calldata_set_data cd name bs =
      Some (cd\<lparr>cd_stack := Some ?m, cd_size := 8 * 3 + (length name + 1) + length bs, cd_capacity := ?c\<rparr>)"
    using 1 2 3 assms(1,2,3) unfolding calldata_set_data_def cd_set_first_param_def Let_def R
    by (simp add: valid_name_def)
  have m: "?m = map Some (cd_entries [(name, bs)] @ size_t 0) @ junk" by (simp add: cd_entry_def size_t_zero)
  have "?c = length (b1 @ b2 @ b3 @ junk)" using R by (metis length_replicate)
  then have c: "?c = length (cd_entries [(name, bs)]) + 8 + length junk" using l by (simp add: cd_entry_def ln_def ld_def)
  show ?thesis unfolding run m c using assms(3,4) by (simp add: cd_repr_def params_ok_def cd_entry_def)
qed

text \<open>Every set, on every kind of block.\<close>

lemma set_data_repr:
  assumes r: "cd_repr cd es" and v: "valid_name name" "length bs < 2 ^ 64"
  shows "\<exists>cd'. calldata_set_data cd name bs = Some cd' \<and>
    cd_repr cd' (if set_fits cd es name bs then AList.update name bs es else es) \<and> cd_fixed cd' = cd_fixed cd"
proof (cases "cd_stack cd = None")
  case True
  with r have "es = []" "\<not> cd_fixed cd" by (auto simp: cd_repr_def)
  with set_first [OF True _ v] show ?thesis by (simp add: set_fits_def)
next
  case False
  then show ?thesis
    using set_hit [OF r v] set_miss [OF r v] by (cases "map_of es name") auto
qed

section \<open>The contract\<close>

text \<open>A sequence of sets.\<close>

fun set_all :: "('s \<Rightarrow> byte list \<Rightarrow> byte list \<Rightarrow> 's option) \<Rightarrow> 's \<Rightarrow> param list \<Rightarrow> 's option" where
  "set_all st s [] = Some s"
| "set_all st s ((n, b) # ops) = Option.bind (st s n b) (\<lambda>s'. set_all st s' ops)"

locale param_store =
  fixes repr :: "'s \<Rightarrow> param list \<Rightarrow> bool"
    and set_param :: "'s \<Rightarrow> byte list \<Rightarrow> byte list \<Rightarrow> 's option"
    and get_param :: "'s \<Rightarrow> byte list \<Rightarrow> nat \<Rightarrow> byte list option option"
    and room :: "'s \<Rightarrow> param list \<Rightarrow> byte list \<Rightarrow> byte list \<Rightarrow> bool"
  assumes set_param: "repr s es \<Longrightarrow> valid_name n \<Longrightarrow> length b < 2 ^ 64 \<Longrightarrow>
      \<exists>s'. set_param s n b = Some s' \<and> repr s' (if room s es n b then AList.update n b es else es)"
    and get_param: "repr s es \<Longrightarrow> valid_name n \<Longrightarrow> get_param s n k =
      Some (case map_of es n of Some d \<Rightarrow> if length d = k then Some d else None | None \<Rightarrow> None)"
begin

lemma get_after_set:
  assumes "repr s es" "valid_name n" "length b < 2 ^ 64" "room s es n b"
  shows "\<exists>s'. set_param s n b = Some s' \<and> get_param s' n (length b) = Some (Some b)"
proof -
  obtain s' where "set_param s n b = Some s'" "repr s' (AList.update n b es)"
    using set_param [OF assms(1-3)] assms(4) by auto
  then show ?thesis using get_param assms(2) by (auto simp: update_conv)
qed

lemma get_other:
  assumes "repr s es" "valid_name n" "length b < 2 ^ 64" "valid_name n'" "n' \<noteq> n"
  shows "\<exists>s'. set_param s n b = Some s' \<and> get_param s' n' k = get_param s n' k"
  using set_param [OF assms(1-3)] get_param assms by (auto simp: update_conv split: if_splits)

lemma sets_safe:
  "repr s es \<Longrightarrow> \<forall>(n, b) \<in> set ops. valid_name n \<and> length b < 2 ^ 64 \<Longrightarrow>
    \<exists>s' es'. set_all set_param s ops = Some s' \<and> repr s' es'"
proof (induction ops arbitrary: s es)
  case (Cons op ops)
  obtain n b where op: "op = (n, b)" by (cases op)
  with Cons.prems obtain s' where s': "set_param s n b = Some s'" "repr s' (if room s es n b then AList.update n b es else es)"
    using set_param [of s es n b] by auto
  from Cons.IH [OF s'(2)] Cons.prems s'(1) show ?case by (auto simp: op)
qed auto

lemma sets_refine:
  assumes "repr s es" "\<forall>(n, b) \<in> set ops. valid_name n \<and> length b < 2 ^ 64" "\<And>s es n b. repr s es \<Longrightarrow> P s \<Longrightarrow> room s es n b"
    and "\<And>s s' es n b. repr s es \<Longrightarrow> valid_name n \<Longrightarrow> length b < 2 ^ 64 \<Longrightarrow> P s \<Longrightarrow> set_param s n b = Some s' \<Longrightarrow> P s'" "P s"
  shows "\<exists>s' es'. set_all set_param s ops = Some s' \<and> repr s' es' \<and> map_of es' = map_of es ++ map_of (rev ops)"
  using assms(1,2,5)
proof (induction ops arbitrary: s es)
  case (Cons op ops)
  obtain n b where op: "op = (n, b)" by (cases op)
  with Cons.prems obtain s' where s': "set_param s n b = Some s'" "repr s' (if room s es n b then AList.update n b es else es)"
    using set_param [of s es n b] by auto
  have "repr s' (AList.update n b es)" using s'(2) assms(3) Cons.prems by auto
  moreover have "P s'" using assms(4) [OF Cons.prems(1) _ _ Cons.prems(3) s'(1)] Cons.prems(2) by (simp add: op)
  ultimately obtain s'' es' where
    "set_all set_param s' ops = Some s''" "repr s'' es'" "map_of es' = map_of (AList.update n b es) ++ map_of (rev ops)"
    using Cons.IH Cons.prems(2) by fastforce
  moreover have "map_of (AList.update n b es) ++ map_of (rev ops) = map_of es ++ map_of (rev (op # ops))"
    by (simp add: op update_conv')
  ultimately show ?case using s'(1) by (auto simp: op)
qed auto

end

interpretation cdm: param_store cd_repr calldata_set_data calldata_get_data set_fits
proof
qed (use set_data_repr get_data_repr in blast)+

section \<open>Properties\<close>

text \<open>C15: The parameters of a call are a map. Whatever sequence of values of any size is set on
  a fresh \<open>calldata\<close>, names repeated or not, growing or shrinking, no byte outside the block or
  uninitialised is ever used, and afterwards a name yields the value last set for it if it is
  asked for at that size, and nothing otherwise.\<close>

theorem calldata_is_map:
  assumes "\<forall>(n, b) \<in> set ops. valid_name n \<and> length b < 2 ^ 64" and "valid_name name"
  shows "\<exists>cd. set_all calldata_set_data calldata_init ops = Some cd \<and>
    calldata_get_data cd name sz =
      Some (case map_of (rev ops) name of Some d \<Rightarrow> if length d = sz then Some d else None | None \<Rightarrow> None)"
proof -
  have i: "cd_repr calldata_init []" "\<not> cd_fixed calldata_init" by (simp_all add: cd_repr_def calldata_init_def)
  have fixed: "\<not> cd_fixed cd'"
    if "cd_repr cd es" "valid_name n" "length b < 2 ^ 64" "\<not> cd_fixed cd" "calldata_set_data cd n b = Some cd'"
    for cd cd' es n b
    using set_data_repr [OF that(1-3)] that(4,5) by auto
  have "\<exists>cd es. set_all calldata_set_data calldata_init ops = Some cd \<and> cd_repr cd es \<and>
      map_of es = map_of [] ++ map_of (rev ops)"
    by (rule cdm.sets_refine [where P = "\<lambda>cd. \<not> cd_fixed cd", OF i(1) assms(1) _ _ i(2)])
      (simp add: set_fits_def, erule (4) fixed)
  then obtain cd es where cd: "set_all calldata_set_data calldata_init ops = Some cd" "cd_repr cd es"
    "map_of es = map_of (rev ops)" by auto
  with get_data_repr [OF cd(2) assms(2)] show ?thesis by simp
qed

theorem calldata_is_map_witness:
  "\<exists>cd. set_all calldata_set_data calldata_init [([97], [1, 2]), ([98], [3]), ([97], [4, 5, 6])] = Some cd \<and>
    calldata_get_data cd [97] 3 = Some (Some [4, 5, 6])"
  using calldata_is_map [of "[([97], [1, 2]), ([98], [3]), ([97], [4, 5, 6])]" "[97]" 3] by (simp add: valid_name_def)

lemma memmove_fields: "cd_memmove d s k cd = Some cd' \<Longrightarrow> cd_capacity cd' = cd_capacity cd \<and> cd_fixed cd' = cd_fixed cd"
  by (auto simp: cd_memmove_def bind_eq_Some_conv)

lemma ensure_fixed: "cd_fixed cd \<Longrightarrow> fst (cd_ensure_capacity cd k) = cd"
  by (simp add: cd_ensure_capacity_def)

lemma resize_fixed:
  assumes "cd_resize_param cd p old new = Some (cd', ok)" "cd_fixed cd"
  shows "cd_capacity cd' = cd_capacity cd"
  using assms ensure_fixed [OF assms(2)]
  by (auto simp: cd_resize_param_def Let_def split: if_splits prod.splits dest: memmove_fields)
    (metis fst_conv memmove_fields)+

lemma set_fixed_capacity:
  assumes run: "calldata_set_data cd n b = Some cd'" and f: "cd_fixed cd"
  shows "cd_capacity cd' = cd_capacity cd"
proof (cases "n = []")
  case False
  have nf: "\<not> (\<not> cd_fixed cd \<and> cd_stack cd = None)" using f by simp
  obtain found pos where g: "cd_getparam cd n = Some (found, pos)"
    using run unfolding calldata_set_data_def if_not_P [OF False] if_not_P [OF nf] by (auto simp: bind_eq_Some_conv)
  note r = run [unfolded calldata_set_data_def if_not_P [OF False] if_not_P [OF nf] g bind.bind_lunit prod.case]
  show ?thesis
  proof (cases found)
    case True
    then obtain p k cd1 ok where "cd_resize_param cd p k (length b) = Some (cd1, ok)" "cd_capacity cd' = cd_capacity cd1"
      using r by (auto simp: bind_eq_Some_conv split: if_splits)
    then show ?thesis using resize_fixed f by metis
  next
    case False
    then show ?thesis using r ensure_fixed [OF f, of "cd_size cd + (length n + 1 + length b + 8 * 2)"]
      by (cases "cd_ensure_capacity cd (cd_size cd + (length n + 1 + length b + 8 * 2))")
        (auto simp: bind_eq_Some_conv Let_def split: if_splits)
  qed
qed (use run in \<open>simp add: calldata_set_data_def\<close>)

lemma set_all_fixed:
  assumes "cd_repr cd es" "cd_fixed cd" "\<forall>(n, b) \<in> set ops. valid_name n \<and> length b < 2 ^ 64"
  shows "\<exists>cd' es'. set_all calldata_set_data cd ops = Some cd' \<and> cd_repr cd' es' \<and> cd_fixed cd' \<and>
    cd_capacity cd' = cd_capacity cd"
  using assms
proof (induction ops arbitrary: cd es)
  case (Cons op ops)
  obtain n b where op: "op = (n, b)" by (cases op)
  obtain cd1 where cd1: "calldata_set_data cd n b = Some cd1" "cd_fixed cd1"
    "cd_repr cd1 (if set_fits cd es n b then AList.update n b es else es)"
    using set_data_repr [OF Cons.prems(1), of n b] Cons.prems(2,3) by (auto simp: op)
  from Cons.IH [OF cd1(3,2)] Cons.prems(3) set_fixed_capacity [OF cd1(1) Cons.prems(2)] cd1(1)
  show ?case by (auto simp: op)
qed auto

text \<open>C28: On a fixed block of the caller (eight bytes or more, whatever is in it), every
  sequence of sets stays within the block, and each set is all or nothing: it stores the value
  and leaves the other names alone, or it changes no parameter at all. It is carried out
  whenever a new entry of its size would leave the block less than full.\<close>

theorem fixed_calldata_all_or_nothing:
  assumes "8 \<le> length buf" "length buf < 2 ^ 64" "\<forall>(n, b) \<in> set ops. valid_name n \<and> length b < 2 ^ 64"
    and "valid_name n" "length b < 2 ^ 64"
  shows "\<exists>cd0 cd cd'. calldata_init_fixed buf = Some cd0 \<and> set_all calldata_set_data cd0 ops = Some cd \<and>
    calldata_set_data cd n b = Some cd' \<and>
    ((\<forall>name sz. valid_name name \<longrightarrow> calldata_get_data cd' name sz = calldata_get_data cd name sz) \<or>
     (\<forall>name sz. valid_name name \<longrightarrow> calldata_get_data cd' name sz =
       (if name = n then Some (if length b = sz then Some b else None) else calldata_get_data cd name sz))) \<and>
    (cd_size cd + (17 + length n + length b) < length buf \<longrightarrow> calldata_get_data cd' n (length b) = Some (Some b))"
proof -
  let ?cd0 = "\<lparr>cd_stack = Some (map Some (size_t 0) @ drop 8 buf), cd_size = 8, cd_capacity = length buf, cd_fixed = True\<rparr>"
  have b: "buf = [] @ take 8 buf @ drop 8 buf" by simp
  have "mem_write 0 (map Some (replicate 8 0)) ([] @ take 8 buf @ drop 8 buf) =
      Some ([] @ map Some (replicate 8 0) @ drop 8 buf)"
    by (rule mem_write_at) (use assms(1) in simp_all)
  then have i: "calldata_init_fixed buf = Some ?cd0"
    by (simp add: calldata_init_fixed_def calldata_clear_def size_t_zero)
  have r0: "cd_repr ?cd0 []" using assms(1) by (auto simp: cd_repr_def params_ok_def intro!: exI [of _ "drop 8 buf"])
  obtain cd es where cd: "set_all calldata_set_data ?cd0 ops = Some cd" "cd_repr cd es" "cd_fixed cd" "cd_capacity cd = length buf"
    using set_all_fixed [OF r0 _ assms(3)] by auto
  obtain cd' where cd': "calldata_set_data cd n b = Some cd'"
    "cd_repr cd' (if set_fits cd es n b then AList.update n b es else es)"
    using set_data_repr [OF cd(2) assms(4,5)] by blast
  have fits: "set_fits cd es n b" if "cd_size cd + (17 + length n + length b) < length buf"
  proof -
    have "length (cd_entries (AList.update n b es)) \<le> length (cd_entries es) + (17 + length n + length b)"
      by (induction es) (auto simp: cd_entry_def)
    moreover have "cd_size cd = length (cd_entries es) + 8" using cd(2,3) by (auto simp: cd_repr_def)
    ultimately show ?thesis using that cd(4) by (simp add: set_fits_def Let_def)
  qed
  have "(\<forall>name sz. valid_name name \<longrightarrow> calldata_get_data cd' name sz = calldata_get_data cd name sz) \<or>
     (\<forall>name sz. valid_name name \<longrightarrow> calldata_get_data cd' name sz =
       (if name = n then Some (if length b = sz then Some b else None) else calldata_get_data cd name sz))"
  proof (cases "set_fits cd es n b")
    case True
    with get_data_repr [OF cd'(2)] get_data_repr [OF cd(2)] show ?thesis by (simp add: update_conv)
  next
    case False
    with get_data_repr [OF cd'(2)] get_data_repr [OF cd(2)] show ?thesis by simp
  qed
  moreover have "calldata_get_data cd' n (length b) = Some (Some b)" if "set_fits cd es n b"
    using get_data_repr [OF cd'(2) assms(4)] that by (simp add: update_conv)
  ultimately show ?thesis using i cd cd' fits by blast
qed

theorem fixed_calldata_all_or_nothing_witness:
  "\<exists>cd0 cd. calldata_init_fixed (replicate 64 None) = Some cd0 \<and> calldata_set_data cd0 [97] [1, 2] = Some cd \<and>
    calldata_get_data cd [97] (length [1 :: byte, 2]) = Some (Some [1, 2])"
proof -
  obtain cd0 cd where c: "calldata_init_fixed (replicate 64 None) = Some cd0" "calldata_set_data cd0 [97] [1, 2] = Some cd"
    "cd_size cd0 + (17 + 1 + 2) < 64 \<longrightarrow> calldata_get_data cd [97] (length [1 :: byte, 2]) = Some (Some [1, 2])"
  proof -
    have v: "8 \<le> length (replicate 64 None)" "length (replicate 64 None) < 2 ^ 64" "valid_name [97]"
      "length [1 :: byte, 2] < 2 ^ 64" "\<forall>(n, b) \<in> set []. valid_name n \<and> length b < 2 ^ 64"
      by (simp_all add: valid_name_def)
    from fixed_calldata_all_or_nothing [OF v(1,2,5,3,4)] obtain cd0 cd cd' where
      "calldata_init_fixed (replicate 64 None) = Some cd0" "set_all calldata_set_data cd0 [] = Some cd"
      "calldata_set_data cd [97] [1, 2] = Some cd'"
      "cd_size cd + (17 + length [97 :: byte] + length [1 :: byte, 2]) < length (replicate 64 (None :: byte option)) \<longrightarrow>
        calldata_get_data cd' [97] (length [1 :: byte, 2]) = Some (Some [1, 2])" by blast
    then show ?thesis by (intro that [of cd0 cd']) simp_all
  qed
  have "cd_size cd0 = 8" using c(1) by (auto simp: calldata_init_fixed_def calldata_clear_def)
  with c show ?thesis by simp
qed

text \<open>A string set as a parameter is found as a pointer into the block to that string;
  a null string is found as a null pointer.\<close>

theorem calldata_string_roundtrip:
  assumes "valid_name name" and "case str of Some s \<Rightarrow> 0 \<notin> set s \<and> length s + 1 < 2 ^ 64 | None \<Rightarrow> True"
  shows "\<exists>cd m. calldata_set_string calldata_init name str = Some cd \<and> cd_stack cd = Some m \<and>
    (case str of
       Some s \<Rightarrow> (\<exists>p. calldata_string cd name = Some (Some p) \<and> mem_cstring p m = Some s)
     | None \<Rightarrow> calldata_string cd name = Some None)"
proof -
  have i: "cd_repr calldata_init []" "\<And>n b. set_fits calldata_init [] n b"
    by (simp_all add: cd_repr_def calldata_init_def set_fits_def)
  let ?b = "case str of Some s \<Rightarrow> s @ [0] | None \<Rightarrow> []"
  have "length ?b < 2 ^ 64" using assms(2) by (auto split: option.splits)
  from set_data_repr [OF i(1) assms(1) this] i(2) obtain cd where
    cd: "calldata_set_data calldata_init name ?b = Some cd" "cd_repr cd [(name, ?b)]" by auto
  have s: "calldata_set_string calldata_init name str = Some cd"
    using cd(1) by (simp add: calldata_set_string_def split: option.splits)
  obtain m where m: "cd_stack cd = Some m" using cd(2) by (auto simp: cd_repr_def)
  show ?thesis
  proof (cases str)
    case None
    then show ?thesis using get_string_repr(2) [OF cd(2) assms(1)] s m by (simp add: calldata_string_def)
  next
    case (Some t)
    then show ?thesis using get_string_repr(3) [OF cd(2) assms(1), of t] s m assms(2) by (auto simp: calldata_string_def)
  qed
qed

theorem calldata_string_roundtrip_witness:
  "\<exists>cd m p. calldata_set_string calldata_init [97] (Some [104, 105]) = Some cd \<and> cd_stack cd = Some m \<and>
    calldata_string cd [97] = Some (Some p) \<and> mem_cstring p m = Some [104, 105]"
  using calldata_string_roundtrip [of "[97]" "Some [104, 105]"] by (auto simp: valid_name_def)

text \<open>C29: The header promises that a get function is false for a parameter of another type,
  but only the size is compared: a pointer is read as an integer, without complaint.\<close>

theorem calldata_types_unchecked:
  assumes "valid_name name"
  shows "\<exists>cd. calldata_set_ptr calldata_init name p = Some cd \<and> calldata_get_int cd name = Some (Some (sint p))"
proof -
  have i: "cd_repr calldata_init []" "\<And>n b. set_fits calldata_init [] n b"
    by (simp_all add: cd_repr_def calldata_init_def set_fits_def)
  have "unat p < 256 ^ 8" using unsigned_less [of p] by simp
  then have "(of_nat (le_nat (le_bytes 8 (unat p))) :: 64 word) = p" by simp
  then show ?thesis
    using cdm.get_after_set [OF i(1) assms _ i(2), of "le_bytes 8 (unat p)"]
    by (auto simp: calldata_set_ptr_def calldata_get_int_def)
qed

theorem calldata_types_unchecked_witness:
  "\<exists>cd. calldata_set_ptr calldata_init [97] 7 = Some cd \<and> calldata_get_int cd [97] = Some (Some 7)"
  using calldata_types_unchecked [of "[97]" 7] by (simp add: valid_name_def)

end
