(* ===== verification/Signal.thy ===== *)
theory Signal
  imports Prelude
begin

text \<open>
  The signals of \<open>libobs/callback/signal.c\<close>: named signals with their callbacks, which are
  called back while the list of callbacks is being walked and may connect, disconnect or
  signal again. What a callback does is a list of requests that the environment gives for it
  in the state it is called in. The arrays are lists (\<open>darray_refines_list\<close> is their
  theorem), with the number of the block they are in where a pointer into them is kept. A
  handler that is destroyed, or a pointer used after its array has moved, is \<^term>\<open>None\<close>.
\<close>

section \<open>State\<close>

record signal_callback =
  sc_callback :: nat
  sc_data :: nat
  sc_remove :: bool
  sc_keep_ref :: bool

record signal_info =
  si_name :: string
  si_callbacks :: "signal_callback list"
  si_capacity :: nat
  si_block :: nat
  si_signalling :: bool

record global_callback_info =
  gc_callback :: nat
  gc_data :: nat
  gc_signaling :: int
  gc_remove :: bool

datatype call = Called string nat nat | Called_Global string nat nat

text \<open>\<open>current_signal_cb\<close> and \<open>current_global_cb\<close> point into an array: the block and the index.\<close>

record signal_handler =
  sh_signals :: "signal_info list"
  sh_refs :: int
  sh_global :: "global_callback_info list"
  sh_global_capacity :: nat
  sh_global_block :: nat
  current_signal_cb :: "(string \<times> nat \<times> nat) option"
  current_global_cb :: "(nat \<times> nat) option"
  sh_calls :: "call list"

datatype signal_request =
    Connect string nat nat bool | Disconnect string nat nat | Remove_Current | Emit string
  | Connect_Global nat nat | Disconnect_Global nat nat

type_synonym signal_env = "signal_handler \<Rightarrow> call \<Rightarrow> signal_request list"

section \<open>Signals and connections\<close>

definition signal_info_create :: "string \<Rightarrow> signal_info" where
  "signal_info_create name =
     \<lparr>si_name = name, si_callbacks = [], si_capacity = 0, si_block = 0, si_signalling = False\<rparr>"

definition signal_handler_create :: signal_handler where
  "signal_handler_create =
     \<lparr>sh_signals = [], sh_refs = 1, sh_global = [], sh_global_capacity = 0, sh_global_block = 0,
      current_signal_cb = None, current_global_cb = None, sh_calls = []\<rparr>"

definition getsignal :: "signal_handler \<Rightarrow> string \<Rightarrow> nat option" where
  "getsignal h name = first_idx (\<lambda>si. si_name si = name) (sh_signals h)"

text \<open>\<open>None\<close> for a declaration that does not parse.\<close>

definition signal_handler_add :: "signal_handler \<Rightarrow> string option \<Rightarrow> signal_handler \<times> bool" where
  "signal_handler_add h decl =
     (case decl of
        None \<Rightarrow> (h, False)
      | Some name \<Rightarrow>
          (if getsignal h name \<noteq> None then (h, False)
           else (h\<lparr>sh_signals := sh_signals h @ [signal_info_create name]\<rparr>, True)))"

definition signal_get_callback_idx :: "signal_info \<Rightarrow> nat \<Rightarrow> nat \<Rightarrow> nat option" where
  "signal_get_callback_idx si callback data =
     first_idx (\<lambda>sc. sc_callback sc = callback \<and> sc_data sc = data) (si_callbacks si)"

definition upd_signal :: "signal_handler \<Rightarrow> nat \<Rightarrow> signal_info \<Rightarrow> signal_handler" where
  "upd_signal h i si = h\<lparr>sh_signals := (sh_signals h)[i := si]\<rparr>"

text \<open>\<open>da_push_back\<close>: a full array moves to a new block.\<close>

definition push_callback :: "signal_callback \<Rightarrow> signal_info \<Rightarrow> signal_info" where
  "push_callback sc si =
     (let n = length (si_callbacks si) + 1; full = n > si_capacity si
      in si\<lparr>si_callbacks := si_callbacks si @ [sc],
            si_capacity := (if full then max n (si_capacity si * 2) else si_capacity si),
            si_block := (if full then si_block si + 1 else si_block si)\<rparr>)"

definition signal_handler_connect_internal ::
    "signal_handler \<Rightarrow> string \<Rightarrow> nat \<Rightarrow> nat \<Rightarrow> bool \<Rightarrow> signal_handler" where
  "signal_handler_connect_internal h name callback data keep_ref =
     (case getsignal h name of
        None \<Rightarrow> h
      | Some i \<Rightarrow>
          (let sig = sh_signals h ! i;
               h = (if keep_ref then h\<lparr>sh_refs := sh_refs h + 1\<rparr> else h);
               idx = signal_get_callback_idx sig callback data;
               sc = \<lparr>sc_callback = callback, sc_data = data, sc_remove = False, sc_keep_ref = keep_ref\<rparr>
           in if keep_ref \<or> idx = None then upd_signal h i (push_callback sc sig) else h))"

definition signal_handler_connect :: "signal_handler \<Rightarrow> string \<Rightarrow> nat \<Rightarrow> nat \<Rightarrow> signal_handler" where
  "signal_handler_connect h name callback data = signal_handler_connect_internal h name callback data False"

definition signal_handler_connect_ref :: "signal_handler \<Rightarrow> string \<Rightarrow> nat \<Rightarrow> nat \<Rightarrow> signal_handler" where
  "signal_handler_connect_ref h name callback data = signal_handler_connect_internal h name callback data True"

definition erase_nth :: "nat \<Rightarrow> 'a list \<Rightarrow> 'a list" where
  "erase_nth i xs = take i xs @ drop (Suc i) xs"

text \<open>\<^term>\<open>None\<close>: the handler has been destroyed with its last reference.\<close>

definition signal_handler_disconnect :: "signal_handler \<Rightarrow> string \<Rightarrow> nat \<Rightarrow> nat \<Rightarrow> signal_handler option" where
  "signal_handler_disconnect h name callback data =
     (case getsignal h name of
        None \<Rightarrow> Some h
      | Some i \<Rightarrow>
          (let sig = sh_signals h ! i
           in case signal_get_callback_idx sig callback data of
                None \<Rightarrow> Some h
              | Some idx \<Rightarrow>
                  (let cbs = si_callbacks sig; sc = cbs ! idx
                   in if si_signalling sig
                      then Some (upd_signal h i (sig\<lparr>si_callbacks := cbs[idx := sc\<lparr>sc_remove := True\<rparr>]\<rparr>))
                      else
                        let h = upd_signal h i (sig\<lparr>si_callbacks := erase_nth idx cbs\<rparr>)
                        in if sc_keep_ref sc
                           then (let h = h\<lparr>sh_refs := sh_refs h - 1\<rparr> in if sh_refs h = 0 then None else Some h)
                           else Some h)))"

definition signal_handler_destroy :: "signal_handler \<Rightarrow> signal_handler option" where
  "signal_handler_destroy h = (let h = h\<lparr>sh_refs := sh_refs h - 1\<rparr> in if sh_refs h = 0 then None else Some h)"

definition signal_handler_remove_current :: "signal_handler \<Rightarrow> signal_handler option" where
  "signal_handler_remove_current h =
     (case current_signal_cb h of
        Some (name, block, idx) \<Rightarrow> do {
          i \<leftarrow> getsignal h name;
          let sig = sh_signals h ! i;
          if si_block sig = block \<and> idx < length (si_callbacks sig)
          then Some (upd_signal h i (sig\<lparr>si_callbacks :=
                 (si_callbacks sig)[idx := (si_callbacks sig ! idx)\<lparr>sc_remove := True\<rparr>]\<rparr>))
          else None
        }
      | None \<Rightarrow>
          (case current_global_cb h of
             None \<Rightarrow> Some h
           | Some (block, idx) \<Rightarrow>
               (if sh_global_block h = block \<and> idx < length (sh_global h)
                then Some (h\<lparr>sh_global := (sh_global h)[idx := (sh_global h ! idx)\<lparr>gc_remove := True\<rparr>]\<rparr>)
                else None)))"

section \<open>Global callbacks\<close>

text \<open>\<open>da_find\<close> compares whole elements.\<close>

definition find_global :: "signal_handler \<Rightarrow> nat \<Rightarrow> nat \<Rightarrow> nat option" where
  "find_global h callback data =
     first_idx ((=) \<lparr>gc_callback = callback, gc_data = data, gc_signaling = 0, gc_remove = False\<rparr>) (sh_global h)"

definition signal_handler_connect_global :: "signal_handler \<Rightarrow> nat \<Rightarrow> nat \<Rightarrow> signal_handler" where
  "signal_handler_connect_global h callback data =
     (case find_global h callback data of
        Some _ \<Rightarrow> h
      | None \<Rightarrow>
          (let n = length (sh_global h) + 1; full = n > sh_global_capacity h
           in h\<lparr>sh_global := sh_global h @
                  [\<lparr>gc_callback = callback, gc_data = data, gc_signaling = 0, gc_remove = False\<rparr>],
                sh_global_capacity := (if full then max n (sh_global_capacity h * 2) else sh_global_capacity h),
                sh_global_block := (if full then sh_global_block h + 1 else sh_global_block h)\<rparr>))"

definition signal_handler_disconnect_global :: "signal_handler \<Rightarrow> nat \<Rightarrow> nat \<Rightarrow> signal_handler" where
  "signal_handler_disconnect_global h callback data =
     (case find_global h callback data of
        None \<Rightarrow> h
      | Some idx \<Rightarrow>
          (if gc_signaling (sh_global h ! idx) \<noteq> 0
           then h\<lparr>sh_global := (sh_global h)[idx := (sh_global h ! idx)\<lparr>gc_remove := True\<rparr>]\<rparr>
           else h\<lparr>sh_global := erase_nth idx (sh_global h)\<rparr>))"

section \<open>Signalling\<close>

definition bump_global :: "nat \<Rightarrow> int \<Rightarrow> signal_handler \<Rightarrow> signal_handler" where
  "bump_global i k h =
     h\<lparr>sh_global := (sh_global h)[i := (sh_global h ! i)\<lparr>gc_signaling := gc_signaling (sh_global h ! i) + k\<rparr>]\<rparr>"

text \<open>
  The two loops and what the callbacks request; \<open>emit\<close> is a signal given from within a callback.
  \<open>n\<close> bounds the rounds of a loop and the depth of signals within callbacks; \<^term>\<open>None\<close> is also the
  answer when it runs out, as for callbacks that signal each other or connect for ever.
\<close>

type_synonym emitter = "signal_handler \<Rightarrow> string \<Rightarrow> signal_handler option"

definition run_request :: "emitter \<Rightarrow> signal_handler \<Rightarrow> signal_request \<Rightarrow> signal_handler option" where
  "run_request emit h r =
     (case r of
        Connect name cb d keep \<Rightarrow> Some (signal_handler_connect_internal h name cb d keep)
      | Disconnect name cb d \<Rightarrow> signal_handler_disconnect h name cb d
      | Remove_Current \<Rightarrow> signal_handler_remove_current h
      | Emit name \<Rightarrow> emit h name
      | Connect_Global cb d \<Rightarrow> Some (signal_handler_connect_global h cb d)
      | Disconnect_Global cb d \<Rightarrow> Some (signal_handler_disconnect_global h cb d))"

fun run_requests :: "emitter \<Rightarrow> signal_handler \<Rightarrow> signal_request list \<Rightarrow> signal_handler option" where
  "run_requests emit h [] = Some h"
| "run_requests emit h (r # rs) = Option.bind (run_request emit h r) (\<lambda>h. run_requests emit h rs)"

definition call_one :: "emitter \<Rightarrow> signal_env \<Rightarrow> signal_handler \<Rightarrow> nat \<Rightarrow> nat \<Rightarrow> signal_handler option" where
  "call_one emit E h s i =
     (let sig = sh_signals h ! s; sc = si_callbacks sig ! i
      in if sc_remove sc then Some h
         else
           let c = Called (si_name sig) (sc_callback sc) (sc_data sc);
               h = h\<lparr>current_signal_cb := Some (si_name sig, si_block sig, i), sh_calls := sh_calls h @ [c]\<rparr>
           in map_option (\<lambda>h. h\<lparr>current_signal_cb := None\<rparr>) (run_requests emit h (E h c)))"

fun call_callbacks :: "nat \<Rightarrow> emitter \<Rightarrow> signal_env \<Rightarrow> signal_handler \<Rightarrow> nat \<Rightarrow> nat \<Rightarrow> signal_handler option" where
  "call_callbacks 0 emit E h s i = None"
| "call_callbacks (Suc n) emit E h s i =
     (if i \<ge> length (si_callbacks (sh_signals h ! s)) then Some h
      else Option.bind (call_one emit E h s i) (\<lambda>h. call_callbacks n emit E h s (i + 1)))"

definition call_one_global :: "emitter \<Rightarrow> signal_env \<Rightarrow> signal_handler \<Rightarrow> string \<Rightarrow> nat \<Rightarrow> signal_handler option" where
  "call_one_global emit E h name i =
     (let gc = sh_global h ! i
      in if gc_remove gc then Some h
         else
           let c = Called_Global name (gc_callback gc) (gc_data gc);
               block = sh_global_block h;
               h = (bump_global i 1 h)\<lparr>current_global_cb := Some (block, i), sh_calls := sh_calls h @ [c]\<rparr>
           in do {
             h \<leftarrow> run_requests emit h (E h c);
             if sh_global_block h \<noteq> block then None
             else Some (bump_global i (- 1) (h\<lparr>current_global_cb := None\<rparr>))
           })"

fun call_globals :: "nat \<Rightarrow> emitter \<Rightarrow> signal_env \<Rightarrow> signal_handler \<Rightarrow> string \<Rightarrow> nat \<Rightarrow> signal_handler option" where
  "call_globals 0 emit E h name i = None"
| "call_globals (Suc n) emit E h name i =
     (if i \<ge> length (sh_global h) then Some h
      else Option.bind (call_one_global emit E h name i) (\<lambda>h. call_globals n emit E h name (i + 1)))"

definition erase_removed :: "signal_handler \<Rightarrow> nat \<Rightarrow> signal_handler \<times> nat" where
  "erase_removed h s =
     (let sig = sh_signals h ! s; (gone, kept) = partition sc_remove (si_callbacks sig)
      in (upd_signal h s (sig\<lparr>si_callbacks := kept, si_signalling := False\<rparr>), length (filter sc_keep_ref gone)))"

definition erase_removed_globals :: "signal_handler \<Rightarrow> signal_handler" where
  "erase_removed_globals h = h\<lparr>sh_global := filter (\<lambda>gc. \<not> (gc_remove gc \<and> gc_signaling gc = 0)) (sh_global h)\<rparr>"

fun signal_handler_signal :: "nat \<Rightarrow> signal_env \<Rightarrow> signal_handler \<Rightarrow> string \<Rightarrow> signal_handler option" where
  "signal_handler_signal 0 E h name = None"
| "signal_handler_signal (Suc n) E h name =
     (case getsignal h name of
        None \<Rightarrow> Some h
      | Some s \<Rightarrow> do {
          let emit = signal_handler_signal n E;
          h \<leftarrow> call_callbacks (Suc n) emit E (upd_signal h s ((sh_signals h ! s)\<lparr>si_signalling := True\<rparr>)) s 0;
          let (h, remove_refs) = erase_removed h s;
          h \<leftarrow> call_globals (Suc n) emit E h name 0;
          let h = erase_removed_globals h;
          Some (if remove_refs \<noteq> 0 then h\<lparr>sh_refs := sh_refs h - int remove_refs\<rparr> else h)
        })"

end
