(* ===== verification/Signal_Calls.thy ===== *)
theory Signal_Calls
  imports Signal "HOL-Library.Sublist"
begin

text \<open>
  Who is called when a signal is given: with callbacks that connect and disconnect while the
  list is being walked, everyone who is still connected afterwards has been called once, in
  order. The cases in which the code does not do what its callers expect are shown as well.
\<close>

section \<open>How the list of callbacks changes under a signal\<close>

definition cbs :: "signal_handler \<Rightarrow> nat \<Rightarrow> signal_callback list" where
  "cbs h s = si_callbacks (sh_signals h ! s)"

definition cb_key :: "signal_callback \<Rightarrow> nat \<times> nat" where
  "cb_key sc = (sc_callback sc, sc_data sc)"

definition grows :: "signal_callback list \<Rightarrow> signal_callback list \<Rightarrow> bool" where
  "grows L L' \<longleftrightarrow> length L \<le> length L' \<and>
     (\<forall>j < length L. cb_key (L' ! j) = cb_key (L ! j) \<and> (sc_remove (L ! j) \<longrightarrow> sc_remove (L' ! j)))"

lemma grows_refl [simp]: "grows L L"
  by (simp add: grows_def)

lemma grows_trans: "grows L L' \<Longrightarrow> grows L' L'' \<Longrightarrow> grows L L''"
  by (auto simp: grows_def)

lemma grows_append [simp]: "grows L (L @ M)"
  by (simp add: grows_def nth_append)

lemma grows_flag: "grows L (L[i := (L ! i)\<lparr>sc_remove := True\<rparr>])"
  by (cases "i < length L") (auto simp: grows_def nth_list_update cb_key_def list_update_beyond)

lemma keys_flag: "map cb_key (L[i := (L ! i)\<lparr>sc_remove := True\<rparr>]) = map cb_key L"
  by (cases "i < length L") (simp_all add: map_update cb_key_def list_update_same_conv list_update_beyond)

text \<open>What a request may not be here: a signal within the signal, a reference, a global callback.\<close>

fun plain :: "signal_request \<Rightarrow> bool" where
  "plain (Connect name cb d keep) = (\<not> keep)"
| "plain (Emit name) = False"
| "plain (Connect_Global cb d) = False"
| "plain r = True"

text \<open>The state of signal \<open>s\<close> while it is being given.\<close>

definition giving :: "signal_handler \<Rightarrow> nat \<Rightarrow> bool" where
  "giving h s \<longleftrightarrow> s < length (sh_signals h) \<and> si_signalling (sh_signals h ! s) \<and>
     distinct (map cb_key (cbs h s)) \<and> sh_global h = [] \<and>
     (\<forall>i < length (sh_signals h). getsignal h (si_name (sh_signals h ! i)) = Some i)"

definition same_calls :: "signal_handler \<Rightarrow> signal_handler \<Rightarrow> nat \<Rightarrow> bool" where
  "same_calls h h' s \<longleftrightarrow> sh_calls h' = sh_calls h \<and> map si_name (sh_signals h') = map si_name (sh_signals h) \<and>
     grows (cbs h s) (cbs h' s)"

lemma same_calls_refl [simp]: "same_calls h h s"
  by (simp add: same_calls_def)

lemma same_calls_trans: "same_calls h h' s \<Longrightarrow> same_calls h' h'' s \<Longrightarrow> same_calls h h'' s"
  by (auto simp: same_calls_def intro: grows_trans)

lemma getsignal_names: "map si_name (sh_signals h') = map si_name (sh_signals h) \<Longrightarrow> getsignal h' name = getsignal h name"
proof -
  have "first_idx (\<lambda>si. si_name si = name) xs = first_idx ((=) name) (map si_name xs)" for xs
    by (induction xs) auto
  then show "map si_name (sh_signals h') = map si_name (sh_signals h) \<Longrightarrow> ?thesis" unfolding getsignal_def by metis
qed

lemma getsignal_lt: "getsignal h name = Some i \<Longrightarrow> i < length (sh_signals h)"
  by (simp add: getsignal_def first_idx_Some)

text \<open>Updating one signal, its name and its signalling state kept.\<close>

lemma upd_giving:
  assumes g: "giving h s" and i: "i < length (sh_signals h)" and n: "si_name si = si_name (sh_signals h ! i)"
    and sg: "si_signalling si = si_signalling (sh_signals h ! i)"
    and s: "i = s \<Longrightarrow> grows (cbs h s) (si_callbacks si) \<and> distinct (map cb_key (si_callbacks si))"
  shows "giving (upd_signal h i si) s \<and> same_calls h (upd_signal h i si) s"
proof -
  have names: "map si_name (sh_signals (upd_signal h i si)) = map si_name (sh_signals h)"
    using i n by (simp add: upd_signal_def map_update list_update_same_conv)
  have "si_name (sh_signals (upd_signal h i si) ! j) = si_name (sh_signals h ! j)" if "j < length (sh_signals h)" for j
    using that n i by (simp add: upd_signal_def nth_list_update)
  then show ?thesis using g i s sg getsignal_names [OF names] names
    by (cases "i = s") (auto simp: giving_def same_calls_def upd_signal_def cbs_def nth_list_update)
qed

lemma request_plain:
  assumes g: "giving h s" and p: "plain r"
    and req: "run_request emit h r = Some h'"
  shows "giving h' s \<and> same_calls h h' s"
proof -
  note run = req [unfolded run_request_def]
  show ?thesis
proof (cases r)
  case (Connect name cb d keep)
  then have keep: "\<not> keep" using p by simp
  show ?thesis
  proof (cases "getsignal h name")
    case None
    with run g Connect show ?thesis by (simp add: signal_handler_connect_internal_def)
  next
    case (Some i)
    let ?sc = "\<lparr>sc_callback = cb, sc_data = d, sc_remove = False, sc_keep_ref = False\<rparr>"
    let ?sig = "sh_signals h ! i"
    show ?thesis
    proof (cases "signal_get_callback_idx ?sig cb d")
      case None
      then have new: "cb_key ?sc \<notin> set (map cb_key (si_callbacks ?sig))"
        by (auto simp: signal_get_callback_idx_def first_idx_None cb_key_def)
      have h': "h' = upd_signal h i (push_callback ?sc ?sig)"
        using run Connect keep Some None by (simp add: signal_handler_connect_internal_def Let_def)
      show ?thesis unfolding h'
        by (rule upd_giving [OF g getsignal_lt [OF Some]])
          (use new g in \<open>simp_all add: push_callback_def Let_def cbs_def giving_def\<close>)
    next
      case (Some j)
      with run g Connect keep \<open>getsignal h name = Some i\<close> show ?thesis
        by (simp add: signal_handler_connect_internal_def Let_def)
    qed
  qed
next
  case (Disconnect name cb d)
  show ?thesis
  proof (cases "getsignal h name")
    case None
    with run g Disconnect show ?thesis by (simp add: signal_handler_disconnect_def)
  next
    case (Some i)
    let ?sig = "sh_signals h ! i"
    have lt: "i < length (sh_signals h)" by (rule getsignal_lt [OF Some])
    show ?thesis
    proof (cases "signal_get_callback_idx ?sig cb d")
      case None
      with run g Disconnect Some show ?thesis by (simp add: signal_handler_disconnect_def Let_def)
    next
      case idx: (Some j)
      let ?cb = "si_callbacks ?sig"
      show ?thesis
      proof (cases "si_signalling ?sig")
        case True
        then have h': "h' = upd_signal h i (?sig\<lparr>si_callbacks := ?cb[j := (?cb ! j)\<lparr>sc_remove := True\<rparr>]\<rparr>)"
          using run Disconnect Some idx by (simp add: signal_handler_disconnect_def Let_def)
        show ?thesis unfolding h'
          by (rule upd_giving [OF g lt]) (use g in \<open>simp_all add: cbs_def giving_def grows_flag keys_flag\<close>)
      next
        case False
        then have ne: "i \<noteq> s" using g by (auto simp: giving_def)
        let ?h = "upd_signal h i (?sig\<lparr>si_callbacks := erase_nth j ?cb\<rparr>)"
        have u: "giving ?h s \<and> same_calls h ?h s" by (rule upd_giving [OF g lt]) (simp_all add: ne)
        have r: "h' = ?h \<or> h' = ?h\<lparr>sh_refs := sh_refs ?h - 1\<rparr>"
          using run Disconnect Some idx False by (auto simp: signal_handler_disconnect_def Let_def split: if_splits)
        from r u show ?thesis by (auto simp: giving_def same_calls_def cbs_def getsignal_def)
      qed
    qed
  qed
next
  case Remove_Current
  show ?thesis
  proof (cases "current_signal_cb h")
    case None
    with run g Remove_Current show ?thesis
      by (auto simp: signal_handler_remove_current_def giving_def split: option.splits prod.splits if_splits)
  next
    case (Some p)
    then obtain name block j i where i: "getsignal h name = Some i" and
      h': "h' = upd_signal h i ((sh_signals h ! i)\<lparr>si_callbacks :=
                 (si_callbacks (sh_signals h ! i))[j := (si_callbacks (sh_signals h ! i) ! j)\<lparr>sc_remove := True\<rparr>]\<rparr>)"
      using run Remove_Current
      by (cases p) (auto simp: signal_handler_remove_current_def bind_eq_Some_conv Let_def split: if_splits)
    show ?thesis unfolding h'
      by (rule upd_giving [OF g getsignal_lt [OF i]]) (use g in \<open>simp_all add: cbs_def giving_def grows_flag keys_flag\<close>)
  qed
next
  case (Disconnect_Global cb d)
  with run g show ?thesis
    by (simp add: signal_handler_disconnect_global_def find_global_def giving_def)
qed (use p in simp_all)
qed

lemma requests_plain:
  "run_requests emit h rs = Some h' \<Longrightarrow> giving h s \<Longrightarrow> list_all plain rs \<Longrightarrow> giving h' s \<and> same_calls h h' s"
proof (induction rs arbitrary: h)
  case (Cons r rs)
  obtain h1 where h1: "run_request emit h r = Some h1" "run_requests emit h1 rs = Some h'"
    using Cons.prems(1) by (auto simp: bind_eq_Some_conv)
  have "giving h1 s \<and> same_calls h h1 s" using request_plain [OF Cons.prems(2) _ h1(1)] Cons.prems(3) by simp
  moreover then have "giving h' s \<and> same_calls h1 h' s" using Cons.IH [OF h1(2)] Cons.prems(3) by simp
  ultimately show ?case using same_calls_trans by blast
qed simp


section \<open>The walk over the callbacks\<close>

definition call_of :: "string \<Rightarrow> signal_callback \<Rightarrow> call" where
  "call_of name sc = Called name (sc_callback sc) (sc_data sc)"

lemma call_of_key: "cb_key sc = cb_key sc' \<Longrightarrow> call_of name sc = call_of name sc'"
  by (simp add: cb_key_def call_of_def)

lemma giving_calls:
  "giving (h\<lparr>current_signal_cb := c, sh_calls := l\<rparr>) s = giving h s" "giving (h\<lparr>current_signal_cb := c\<rparr>) s = giving h s"
  "cbs (h\<lparr>current_signal_cb := c, sh_calls := l\<rparr>) s = cbs h s" "cbs (h\<lparr>current_signal_cb := c\<rparr>) s = cbs h s"
  by (simp_all add: giving_def cbs_def getsignal_def)

lemma call_one_plain:
  assumes run: "call_one emit E h s i = Some h'" and g: "giving h s" and p: "\<And>h c. list_all plain (E h c)"
  shows "giving h' s \<and> map si_name (sh_signals h') = map si_name (sh_signals h) \<and> grows (cbs h s) (cbs h' s) \<and>
    sh_calls h' = sh_calls h @ (if sc_remove (cbs h s ! i) then [] else [call_of (si_name (sh_signals h ! s)) (cbs h s ! i)])"
proof (cases "sc_remove (cbs h s ! i)")
  case True
  with run g show ?thesis by (simp add: call_one_def cbs_def Let_def)
next
  case False
  let ?c = "call_of (si_name (sh_signals h ! s)) (cbs h s ! i)"
  let ?h = "h\<lparr>current_signal_cb := Some (si_name (sh_signals h ! s), si_block (sh_signals h ! s), i), sh_calls := sh_calls h @ [?c]\<rparr>"
  obtain h1 where h1: "run_requests emit ?h (E ?h ?c) = Some h1" "h' = h1\<lparr>current_signal_cb := None\<rparr>"
    using run False by (auto simp: call_one_def cbs_def Let_def call_of_def)
  have "giving h1 s \<and> same_calls ?h h1 s"
    by (rule requests_plain [OF h1(1) _ p]) (simp add: giving_calls g)
  with False show ?thesis by (simp add: h1(2) giving_calls same_calls_def)
qed

lemma call_callbacks_plain:
  assumes "call_callbacks n emit E h s i = Some h'" "giving h s" "\<And>h c. list_all plain (E h c)"
  shows "giving h' s \<and> map si_name (sh_signals h') = map si_name (sh_signals h) \<and> grows (cbs h s) (cbs h' s) \<and>
    (\<exists>js. sorted_wrt (<) js \<and> set js \<subseteq> {i..<length (cbs h' s)} \<and>
      sh_calls h' = sh_calls h @ map (\<lambda>j. call_of (si_name (sh_signals h ! s)) (cbs h' s ! j)) js \<and>
      (\<forall>j. i \<le> j \<and> j < length (cbs h' s) \<and> \<not> sc_remove (cbs h' s ! j) \<longrightarrow> j \<in> set js))"
  using assms(1,2)
proof (induction n arbitrary: h i)
  case (Suc n)
  show ?case
  proof (cases "i \<ge> length (cbs h s)")
    case True
    with Suc.prems show ?thesis by (auto simp: cbs_def)
  next
    case False
    then obtain h1 where h1: "call_one emit E h s i = Some h1" "call_callbacks n emit E h1 s (i + 1) = Some h'"
      using Suc.prems(1) by (auto simp: cbs_def bind_eq_Some_conv)
    note one = call_one_plain [OF h1(1) Suc.prems(2) assms(3)]
    then have g1: "giving h1 s" and grow1: "grows (cbs h s) (cbs h1 s)"
      and names: "map si_name (sh_signals h1) = map si_name (sh_signals h)" by blast+
    note IH = Suc.IH [OF h1(2) g1]
    then obtain js where js: "sorted_wrt (<) js" "set js \<subseteq> {i + 1..<length (cbs h' s)}"
      "sh_calls h' = sh_calls h1 @ map (\<lambda>j. call_of (si_name (sh_signals h1 ! s)) (cbs h' s ! j)) js"
      "\<forall>j. i + 1 \<le> j \<and> j < length (cbs h' s) \<and> \<not> sc_remove (cbs h' s ! j) \<longrightarrow> j \<in> set js" by blast
    have grow: "grows (cbs h1 s) (cbs h' s)" and g': "giving h' s"
      and names': "map si_name (sh_signals h') = map si_name (sh_signals h1)" using IH by blast+
    have name: "si_name (sh_signals h1 ! s) = si_name (sh_signals h ! s)"
      using names Suc.prems(2) by (metis giving_def length_map nth_map)
    have both: "grows (cbs h s) (cbs h' s)" by (rule grows_trans [OF grow1 grow])
    then have i: "i < length (cbs h' s)" "cb_key (cbs h' s ! i) = cb_key (cbs h s ! i)"
      "sc_remove (cbs h s ! i) \<Longrightarrow> sc_remove (cbs h' s ! i)" using False by (auto simp: grows_def)
    show ?thesis
    proof (cases "sc_remove (cbs h s ! i)")
      case True
      have "\<forall>j. i \<le> j \<and> j < length (cbs h' s) \<and> \<not> sc_remove (cbs h' s ! j) \<longrightarrow> j \<in> set js"
        using js(4) i(3) [OF True] by (metis Suc_eq_plus1 Suc_leI le_neq_implies_less)
      then show ?thesis using js(1-3) one both g' names names' True name by (intro conjI exI [of _ js]) auto
    next
      case fresh: False
      have "\<forall>j. i \<le> j \<and> j < length (cbs h' s) \<and> \<not> sc_remove (cbs h' s ! j) \<longrightarrow> j \<in> set (i # js)"
        using js(4) by (metis Suc_eq_plus1 Suc_leI le_neq_implies_less list.set_intros)
      moreover have "sorted_wrt (<) (i # js)" using js(1,2) by auto
      moreover have "sh_calls h' = sh_calls h @ map (\<lambda>j. call_of (si_name (sh_signals h ! s)) (cbs h' s ! j)) (i # js)"
        using one fresh js(3) name call_of_key [OF i(2)] by simp
      moreover have "set (i # js) \<subseteq> {i..<length (cbs h' s)}" using js(2) i(1) by auto
      moreover have "map si_name (sh_signals h') = map si_name (sh_signals h)" using names names' by simp
      ultimately show ?thesis using both g' by (intro conjI exI [of _ "i # js"]) blast+
    qed
  qed
qed simp

text \<open>The callbacks without those that are to be removed are a subsequence of the calls.\<close>

lemma kept_called:
  assumes js: "sorted_wrt (<) js" "set js \<subseteq> {0..<length L}"
    and all: "\<forall>j. j < length L \<and> \<not> sc_remove (L ! j) \<longrightarrow> j \<in> set js"
  shows "subseq (map f (filter (\<lambda>sc. \<not> sc_remove sc) L)) (map (\<lambda>j. f (L ! j)) js)"
proof -
  let ?ks = "filter (\<lambda>j. \<not> sc_remove (L ! j)) js"
  have "?ks = filter (\<lambda>j. \<not> sc_remove (L ! j)) [0..<length L]"
  proof (rule sorted_distinct_set_unique)
    show "sorted ?ks" "distinct ?ks" using js(1) by (auto simp: sorted_wrt_filter strict_sorted_iff)
    show "set ?ks = set (filter (\<lambda>j. \<not> sc_remove (L ! j)) [0..<length L])" using js(2) all by auto
  qed (simp_all add: sorted_wrt_filter)
  moreover have "filter (\<lambda>sc. \<not> sc_remove sc) L = map ((!) L) (filter (\<lambda>j. \<not> sc_remove (L ! j)) [0..<length L])"
    by (metis (no_types, lifting) comp_apply filter_cong filter_map map_nth)
  ultimately have "map f (filter (\<lambda>sc. \<not> sc_remove sc) L) = map (\<lambda>j. f (L ! j)) ?ks" by simp
  then show ?thesis by (simp add: subseq_map)
qed

section \<open>Properties\<close>

definition connected :: "signal_handler \<Rightarrow> nat \<Rightarrow> string \<Rightarrow> call list" where
  "connected h s name = map (call_of name) (cbs h s)"

lemma giving_start:
  assumes "getsignal h name = Some s" "distinct (connected h s name)" "sh_global h = []"
    and "\<forall>i < length (sh_signals h). getsignal h (si_name (sh_signals h ! i)) = Some i"
  shows "giving (upd_signal h s ((sh_signals h ! s)\<lparr>si_signalling := True\<rparr>)) s"
proof -
  let ?h0 = "upd_signal h s ((sh_signals h ! s)\<lparr>si_signalling := True\<rparr>)"
  have s: "s < length (sh_signals h)" "si_name (sh_signals h ! s) = name"
    using assms(1) by (auto simp: getsignal_def first_idx_Some)
  have names0: "map si_name (sh_signals ?h0) = map si_name (sh_signals h)"
    using s(1) by (simp add: upd_signal_def map_update list_update_same_conv)
  have n0: "si_name (sh_signals ?h0 ! i) = si_name (sh_signals h ! i)" for i
    using s(1) by (cases "i = s") (simp_all add: upd_signal_def)
  have c0: "cbs ?h0 s = cbs h s" using s(1) by (simp add: cbs_def upd_signal_def)
  have dk: "distinct (map cb_key (cbs h s))"
    using assms(2) distinct_map [of "\<lambda>(c, d). Called name c d"] 
    by (auto simp: connected_def call_of_def cb_key_def distinct_map inj_on_def)
  show ?thesis
    using s assms(3,4) dk c0 getsignal_names [OF names0] by (simp add: giving_def n0) (simp add: upd_signal_def)
qed



section \<open>A signal ends\<close>

fun quiet :: "signal_request \<Rightarrow> bool" where
  "quiet (Disconnect name cb d) = True"
| "quiet Remove_Current = True"
| "quiet (Disconnect_Global cb d) = True"
| "quiet r = False"

lemma quiet_plain: "quiet r \<Longrightarrow> plain r"
  by (cases r) simp_all

definition no_refs :: "signal_handler \<Rightarrow> bool" where
  "no_refs h \<longleftrightarrow> (\<forall>sig \<in> set (sh_signals h). \<forall>sc \<in> set (si_callbacks sig). \<not> sc_keep_ref sc)"

text \<open>The pointer to the callback being called is good.\<close>

definition in_call :: "signal_handler \<Rightarrow> nat \<Rightarrow> nat \<Rightarrow> bool" where
  "in_call h s i \<longleftrightarrow> i < length (cbs h s) \<and>
     current_signal_cb h = Some (si_name (sh_signals h ! s), si_block (sh_signals h ! s), i)"

definition fixed_list :: "signal_handler \<Rightarrow> signal_handler \<Rightarrow> nat \<Rightarrow> bool" where
  "fixed_list h h' s \<longleftrightarrow> length (cbs h' s) = length (cbs h s) \<and> current_signal_cb h' = current_signal_cb h \<and>
     si_block (sh_signals h' ! s) = si_block (sh_signals h ! s) \<and>
     si_name (sh_signals h' ! s) = si_name (sh_signals h ! s)"

lemma no_refs_upd:
  assumes "no_refs h" "\<forall>sc \<in> set (si_callbacks si). \<not> sc_keep_ref sc"
  shows "no_refs (upd_signal h i si)"
  using assms by (auto simp: no_refs_def upd_signal_def dest!: set_update_subset_insert [THEN subsetD])

lemma no_refs_at: "no_refs h \<Longrightarrow> i < length (sh_signals h) \<Longrightarrow> sc \<in> set (si_callbacks (sh_signals h ! i)) \<Longrightarrow> \<not> sc_keep_ref sc"
  by (auto simp: no_refs_def)

lemma flagged_no_refs:
  assumes "\<forall>sc \<in> set xs. \<not> sc_keep_ref sc" "sc \<in> set (xs[j := (xs ! j)\<lparr>sc_remove := True\<rparr>])"
  shows "\<not> sc_keep_ref sc"
proof (cases "j < length xs")
  case True
  then have "sc \<in> insert ((xs ! j)\<lparr>sc_remove := True\<rparr>) (set xs)" using assms(2) set_update_subset_insert by fast
  then show ?thesis using assms(1) True by auto
next
  case False
  with assms show ?thesis by (simp add: list_update_beyond)
qed

lemma upd_fixed:
  assumes "i < length (sh_signals h)" "si_name si = si_name (sh_signals h ! i)" "si_block si = si_block (sh_signals h ! i)"
    and "i = s \<Longrightarrow> length (si_callbacks si) = length (cbs h s)"
  shows "fixed_list h (upd_signal h i si) s"
  using assms by (cases "i = s") (simp_all add: fixed_list_def cbs_def upd_signal_def)

lemma request_quiet:
  assumes g: "giving h s" and q: "quiet r" and n: "no_refs h" and c: "in_call h s i"
  shows "\<exists>h'. run_request emit h r = Some h' \<and> no_refs h' \<and> fixed_list h h' s"
proof (cases r)
  case (Disconnect name cb d)
  show ?thesis
  proof (cases "getsignal h name")
    case None
    with n Disconnect show ?thesis by (simp add: run_request_def signal_handler_disconnect_def fixed_list_def)
  next
    case (Some k)
    let ?sig = "sh_signals h ! k"
    have lt: "k < length (sh_signals h)" by (rule getsignal_lt [OF Some])
    have nr: "\<forall>sc \<in> set (si_callbacks ?sig). \<not> sc_keep_ref sc" using no_refs_at [OF n lt] by blast
    show ?thesis
    proof (cases "signal_get_callback_idx ?sig cb d")
      case None
      with n Disconnect Some show ?thesis
        by (simp add: run_request_def signal_handler_disconnect_def fixed_list_def Let_def)
    next
      case idx: (Some j)
      have j: "j < length (si_callbacks ?sig)" using idx by (auto simp: signal_get_callback_idx_def first_idx_Some)
      show ?thesis
      proof (cases "si_signalling ?sig")
        case True
        let ?si = "?sig\<lparr>si_callbacks := (si_callbacks ?sig)[j := (si_callbacks ?sig ! j)\<lparr>sc_remove := True\<rparr>]\<rparr>"
        have "run_request emit h r = Some (upd_signal h k ?si)"
          using Disconnect Some idx True by (simp add: run_request_def signal_handler_disconnect_def Let_def)
        moreover have "no_refs (upd_signal h k ?si)"
          by (rule no_refs_upd [OF n]) (use flagged_no_refs [OF nr] in simp)
        moreover have "fixed_list h (upd_signal h k ?si) s" by (rule upd_fixed [OF lt]) (simp_all add: cbs_def)
        ultimately show ?thesis by blast
      next
        case False
        then have ne: "k \<noteq> s" using g by (auto simp: giving_def)
        let ?si = "?sig\<lparr>si_callbacks := erase_nth j (si_callbacks ?sig)\<rparr>"
        have "run_request emit h r = Some (upd_signal h k ?si)"
          using Disconnect Some idx False nr j by (simp add: run_request_def signal_handler_disconnect_def Let_def)
        moreover have "no_refs (upd_signal h k ?si)"
          by (rule no_refs_upd [OF n]) (use nr in \<open>auto simp: erase_nth_def dest: in_set_takeD in_set_dropD\<close>)
        moreover have "fixed_list h (upd_signal h k ?si) s" by (rule upd_fixed [OF lt]) (simp_all add: ne)
        ultimately show ?thesis by blast
      qed
    qed
  qed
next
  case Remove_Current
  have s: "s < length (sh_signals h)" "getsignal h (si_name (sh_signals h ! s)) = Some s" using g by (auto simp: giving_def)
  let ?sig = "sh_signals h ! s"
  let ?si = "?sig\<lparr>si_callbacks := (si_callbacks ?sig)[i := (si_callbacks ?sig ! i)\<lparr>sc_remove := True\<rparr>]\<rparr>"
  have nr: "\<forall>sc \<in> set (si_callbacks ?sig). \<not> sc_keep_ref sc" using no_refs_at [OF n s(1)] by blast
  have "run_request emit h r = Some (upd_signal h s ?si)"
    using Remove_Current c s by (simp add: run_request_def signal_handler_remove_current_def in_call_def cbs_def Let_def)
  moreover have "no_refs (upd_signal h s ?si)"
    by (rule no_refs_upd [OF n]) (use flagged_no_refs [OF nr] in simp)
  moreover have "fixed_list h (upd_signal h s ?si) s" by (rule upd_fixed [OF s(1)]) (simp_all add: cbs_def)
  ultimately show ?thesis by blast
next
  case (Disconnect_Global cb d)
  with n g show ?thesis
    by (simp add: run_request_def signal_handler_disconnect_global_def find_global_def giving_def fixed_list_def)
qed (use q in simp_all)

lemma requests_quiet:
  assumes "giving h s" "list_all quiet rs" "no_refs h" "in_call h s i"
  shows "\<exists>h'. run_requests emit h rs = Some h' \<and> no_refs h' \<and> fixed_list h h' s"
  using assms
proof (induction rs arbitrary: h)
  case (Cons r rs)
  obtain h1 where h1: "run_request emit h r = Some h1" "no_refs h1" "fixed_list h h1 s"
    using request_quiet [OF Cons.prems(1) _ Cons.prems(3,4)] Cons.prems(2) by fastforce
  have "giving h1 s" using request_plain [OF Cons.prems(1) _ h1(1)] quiet_plain Cons.prems(2) by auto
  moreover have "in_call h1 s i" using h1(3) Cons.prems(4) by (simp add: in_call_def fixed_list_def)
  ultimately obtain h' where "run_requests emit h1 rs = Some h'" "no_refs h'" "fixed_list h1 h' s"
    using Cons.IH h1(2) Cons.prems(2) by auto
  then show ?case using h1 by (auto simp: fixed_list_def)
qed (simp add: fixed_list_def)

lemma call_one_quiet:
  assumes "giving h s" "no_refs h" "i < length (cbs h s)" "\<And>h c. list_all quiet (E h c)"
  shows "\<exists>h'. call_one emit E h s i = Some h' \<and> no_refs h' \<and> length (cbs h' s) = length (cbs h s)"
proof (cases "sc_remove (cbs h s ! i)")
  case True
  with assms(2) show ?thesis by (simp add: call_one_def cbs_def)
next
  case False
  let ?c = "call_of (si_name (sh_signals h ! s)) (cbs h s ! i)"
  let ?h = "h\<lparr>current_signal_cb := Some (si_name (sh_signals h ! s), si_block (sh_signals h ! s), i), sh_calls := sh_calls h @ [?c]\<rparr>"
  have "\<exists>h1. run_requests emit ?h (E ?h ?c) = Some h1 \<and> no_refs h1 \<and> fixed_list ?h h1 s"
    using assms by (intro requests_quiet) (simp_all add: giving_calls no_refs_def in_call_def cbs_def)
  then obtain h1 where "run_requests emit ?h (E ?h ?c) = Some h1" "no_refs h1" "length (cbs h1 s) = length (cbs h s)"
    by (auto simp: fixed_list_def cbs_def)
  with False show ?thesis by (simp add: call_one_def cbs_def Let_def call_of_def no_refs_def)
qed

lemma call_callbacks_quiet:
  assumes "giving h s" "no_refs h" "\<And>h c. list_all quiet (E h c)" "length (cbs h s) - i < n"
  shows "\<exists>h'. call_callbacks n emit E h s i = Some h'"
  using assms(1,2,4)
proof (induction n arbitrary: h i)
  case (Suc n)
  show ?case
  proof (cases "i \<ge> length (cbs h s)")
    case True
    then show ?thesis by (simp add: cbs_def)
  next
    case False
    then have lt: "i < length (cbs h s)" by simp
    obtain h1 where h1: "call_one emit E h s i = Some h1" "no_refs h1" "length (cbs h1 s) = length (cbs h s)"
      using call_one_quiet [where E = E and emit = emit, OF Suc.prems(1,2) lt assms(3)] by blast
    have pl: "list_all plain (E h c)" for h c using assms(3) [of h c] quiet_plain by (auto simp: list_all_iff)
    have "giving h1 s" using call_one_plain [OF h1(1) Suc.prems(1) pl] by blast
    then obtain h' where "call_callbacks n emit E h1 s (i + 1) = Some h'"
      using Suc.IH [of h1 "i + 1"] h1(2,3) Suc.prems(3) False by (metis Suc_diff_Suc Suc_eq_plus1 Suc_less_SucD not_le_imp_less)
    with h1(1) False show ?thesis by (simp add: cbs_def)
  qed
qed simp

text \<open>C30: Giving a signal ends, and never uses a pointer that is no longer good, when the
  callbacks do no more than disconnect themselves or others, from this signal or any other, and
  no connection holds a reference: one round for each callback is enough.\<close>

theorem signal_returns:
  assumes "getsignal h name = Some s" and "distinct (connected h s name)" and "sh_global h = []" and "no_refs h"
    and "\<forall>i < length (sh_signals h). getsignal h (si_name (sh_signals h ! i)) = Some i"
    and "\<forall>h c. list_all quiet (E h c)" and "length (connected h s name) < n"
  shows "\<exists>h'. signal_handler_signal n E h name = Some h'"
proof -
  let ?h0 = "upd_signal h s ((sh_signals h ! s)\<lparr>si_signalling := True\<rparr>)"
  obtain m where m: "n = Suc m" using assms(7) by (cases n) simp_all
  have s: "s < length (sh_signals h)" by (rule getsignal_lt [OF assms(1)])
  have g0: "giving ?h0 s" using assms(1,2,3,5) by (rule giving_start)
  have n0: "no_refs ?h0" by (rule no_refs_upd [OF assms(4)]) (use no_refs_at [OF assms(4) s] in simp)
  obtain h1 where h1: "call_callbacks n (signal_handler_signal m E) E ?h0 s 0 = Some h1"
  proof -
    have "length (cbs ?h0 s) - 0 < n" using assms(7) s by (simp add: connected_def cbs_def upd_signal_def)
    then have "\<exists>h1. call_callbacks n (signal_handler_signal m E) E ?h0 s 0 = Some h1"
      using assms(6) by (intro call_callbacks_quiet [OF g0 n0]) simp_all
    then show ?thesis using that by blast
  qed
  have pl: "list_all plain (E h c)" for h c using assms(6) quiet_plain by (auto simp: list_all_iff)
  have "giving h1 s" using call_callbacks_plain [OF h1 g0 pl] by blast
  then have "sh_global (fst (erase_removed h1 s)) = []"
    by (simp add: erase_removed_def Let_def partition_filter_conv upd_signal_def giving_def)
  then show ?thesis using h1 unfolding m signal_handler_signal.simps assms(1) option.case Let_def
    by (cases "erase_removed h1 s") simp
qed

text \<open>A sample: a signal \<open>s\<close> with three callbacks; the first disconnects the second.\<close>

definition sample_handler :: signal_handler where
  "sample_handler = fold (\<lambda>cb h. signal_handler_connect h ''s'' cb 0) [1, 2, 3]
     (fst (signal_handler_add signal_handler_create (Some ''s'')))"

definition sample_callbacks :: signal_env where
  "sample_callbacks h c = (if c = Called ''s'' 1 0 then [Disconnect ''s'' 2 0, Remove_Current] else [])"

lemma sample_handler_facts:
  "getsignal sample_handler ''s'' = Some 0" "distinct (connected sample_handler 0 ''s'')" "sh_global sample_handler = []"
  "length (sh_signals sample_handler) = 1" "si_name (sh_signals sample_handler ! 0) = ''s''"
  "length (connected sample_handler 0 ''s'') = 3" "no_refs sample_handler" "sh_calls sample_handler = []"
  by (simp_all add: sample_handler_def signal_handler_add_def signal_handler_create_def getsignal_def signal_info_create_def
      signal_handler_connect_def signal_handler_connect_internal_def Let_def signal_get_callback_idx_def upd_signal_def
      push_callback_def connected_def cbs_def call_of_def no_refs_def)

lemma sample_callbacks_quiet: "list_all quiet (sample_callbacks h c)" "list_all plain (sample_callbacks h c)"
  by (simp_all add: sample_callbacks_def)

theorem signal_returns_witness:
  "\<exists>h'. signal_handler_signal 4 sample_callbacks sample_handler ''s'' = Some h'"
  by (rule signal_returns [OF sample_handler_facts(1,2,3,7)])
    (simp_all add: sample_handler_facts sample_callbacks_quiet)


section \<open>Where the code does otherwise\<close>

text \<open>A callback that is disconnected and connected again while its signal is being given is
  lost: the entry that is waiting to be removed still counts as the connection.\<close>

theorem reconnect_within_signal_lost:
  assumes "getsignal h name = Some s" and "si_signalling (sh_signals h ! s)"
    and "distinct (connected h s name)" and "Called name cb d \<in> set (connected h s name)"
  shows "\<exists>h'. map_option (\<lambda>h. signal_handler_connect h name cb d) (signal_handler_disconnect h name cb d) = Some h' \<and>
    (\<forall>sc \<in> set (cbs h' s). call_of name sc = Called name cb d \<longrightarrow> sc_remove sc)"
proof -
  let ?L = "cbs h s"
  have s: "s < length (sh_signals h)" by (rule getsignal_lt [OF assms(1)])
  obtain sc where "sc \<in> set ?L" "call_of name sc = Called name cb d" using assms(4) by (auto simp: connected_def)
  then obtain j where j: "signal_get_callback_idx (sh_signals h ! s) cb d = Some j"
    using first_idx_ex [of sc ?L "\<lambda>sc. sc_callback sc = cb \<and> sc_data sc = d"]
    by (auto simp: signal_get_callback_idx_def cbs_def call_of_def)
  then have jl: "j < length ?L" "sc_callback (?L ! j) = cb" "sc_data (?L ! j) = d"
    by (auto simp: signal_get_callback_idx_def first_idx_Some cbs_def)
  let ?si = "(sh_signals h ! s)\<lparr>si_callbacks := ?L[j := (?L ! j)\<lparr>sc_remove := True\<rparr>]\<rparr>"
  let ?h = "upd_signal h s ?si"
  have dis: "signal_handler_disconnect h name cb d = Some ?h"
    using assms(1,2) j by (simp add: signal_handler_disconnect_def Let_def cbs_def)
  have keys: "map cb_key (cbs ?h s) = map cb_key ?L" using s keys_flag by (simp add: cbs_def upd_signal_def)
  have cbh: "cbs ?h s = ?L[j := (?L ! j)\<lparr>sc_remove := True\<rparr>]" using s by (simp add: cbs_def upd_signal_def)
  have "map si_name (sh_signals ?h) = map si_name (sh_signals h)"
    using s by (simp add: upd_signal_def map_update list_update_same_conv)
  then have gs: "getsignal ?h name = Some s" using getsignal_names assms(1) by metis
  have "signal_get_callback_idx (sh_signals ?h ! s) cb d \<noteq> None"
    using jl unfolding signal_get_callback_idx_def cbs_def [symmetric] cbh
    by (auto simp: first_idx_None intro!: bexI [of _ "(?L ! j)\<lparr>sc_remove := True\<rparr>"] set_update_memI)
  then have con: "signal_handler_connect ?h name cb d = ?h"
    using gs by (auto simp: signal_handler_connect_def signal_handler_connect_internal_def Let_def)
  have "sc_remove sc" if sc: "sc \<in> set (cbs ?h s)" "call_of name sc = Called name cb d" for sc
  proof -
    obtain k where k: "k < length ?L" "sc = cbs ?h s ! k" using sc(1) by (auto simp: in_set_conv_nth cbh)
    have "cb_key (?L ! k) = (cb, d)" using sc(2) k keys by (metis call.inject(1) call_of_def cb_key_def cbh length_list_update nth_map)
    moreover have "cb_key (?L ! j) = (cb, d)" using jl by (simp add: cb_key_def)
    moreover have "distinct (map cb_key ?L)"
      using assms(3) by (auto simp: connected_def call_of_def cb_key_def distinct_map inj_on_def)
    ultimately have "k = j" using k(1) jl(1) by (metis distinct_conv_nth length_map nth_map)
    then show ?thesis using k jl(1) by (simp add: cbh)
  qed
  then show ?thesis by (intro exI [of _ ?h]) (simp add: dis con)
qed

theorem reconnect_within_signal_lost_witness:
  "\<exists>h'. map_option (\<lambda>h. signal_handler_connect h ''s'' 2 0)
      (signal_handler_disconnect (upd_signal sample_handler 0 ((sh_signals sample_handler ! 0)\<lparr>si_signalling := True\<rparr>)) ''s'' 2 0) = Some h' \<and>
    (\<forall>sc \<in> set (cbs h' 0). call_of ''s'' sc = Called ''s'' 2 0 \<longrightarrow> sc_remove sc)"
  by (rule reconnect_within_signal_lost)
    (simp_all add: sample_handler_def signal_handler_add_def signal_handler_create_def getsignal_def signal_info_create_def
      signal_handler_connect_def signal_handler_connect_internal_def Let_def signal_get_callback_idx_def upd_signal_def
      push_callback_def connected_def cbs_def call_of_def)

text \<open>A global callback cannot be disconnected while it is being called:
  \<open>signal_handler_disconnect_global\<close> looks for an entry with a zero call count, so it does not
  find the entry it would have to mark, and nothing happens.\<close>

theorem global_disconnect_within_call_ignored:
  assumes "\<forall>gc \<in> set (sh_global h). gc_callback gc = cb \<and> gc_data gc = d \<longrightarrow> gc_signaling gc > 0"
  shows "signal_handler_disconnect_global h cb d = h"
proof -
  have "find_global h cb d = None" using assms by (auto simp: find_global_def first_idx_None)
  then show ?thesis by (simp add: signal_handler_disconnect_global_def)
qed

theorem global_disconnect_within_call_ignored_witness:
  "signal_handler_disconnect_global (bump_global 0 1 (signal_handler_connect_global sample_handler 7 0)) 7 0 =
    bump_global 0 1 (signal_handler_connect_global sample_handler 7 0)"
  by (rule global_disconnect_within_call_ignored)
    (simp add: bump_global_def signal_handler_connect_global_def find_global_def sample_handler_facts Let_def)

text \<open>A signal given from within one of its own callbacks, as the recursive mutex allows,
  takes removed callbacks out under the outer walk: here callback 2 disconnects 1 and gives the
  signal again, once; the outer walk then passes over 3, which is connected all the time and
  gets one of the two signals only.\<close>

definition nested_callbacks :: signal_env where
  "nested_callbacks h c =
     (if c = Called ''s'' 2 0 \<and> length (filter ((=) c) (sh_calls h)) = 1 then [Disconnect ''s'' 1 0, Emit ''s''] else [])"

theorem nested_signal_skips:
  "map_option sh_calls (signal_handler_signal 6 nested_callbacks (signal_handler_connect sample_handler ''s'' 4 0) ''s'') =
    Some (map (\<lambda>cb. Called ''s'' cb 0) [1, 2, 2, 3, 4, 4])"
  by code_simp

end
