(* ===== verification/Utf8.thy ===== *)
theory Utf8
  imports Bytes
begin

text \<open>
  The conversions between UTF-8 and wide characters of \<open>libobs/util/utf8.c\<close> (the branch for
  systems with 32-bit \<open>wchar_t\<close>). Input is the memory from the pointer on; reading past it is
  \<^term>\<open>None\<close>. A result is the return value with what has been written to the buffer, which a
  null pointer leaves out.
\<close>

section \<open>From UTF-8\<close>

type_synonym wchar = "32 word"

definition ignore_error :: "u32 \<Rightarrow> bool" where "ignore_error flags = (flags AND 0x01 \<noteq> 0)"
definition skip_bom :: "u32 \<Rightarrow> bool" where "skip_bom flags = (flags AND 0x02 \<noteq> 0)"

definition wchar_forbidden :: "wchar \<Rightarrow> bool" where
  "wchar_forbidden w = (sint w \<ge> 0xd800 \<and> sint w \<le> 0xdfff)"

definition utf8_forbidden :: "byte \<Rightarrow> bool" where
  "utf8_forbidden octet = (octet = 0xc0 \<or> octet = 0xc1 \<or> octet = 0xf5 \<or> octet = 0xff)"

text \<open>Length of the sequence and the bits in its first byte.\<close>

definition utf8_header :: "byte \<Rightarrow> (nat \<times> byte) option" where
  "utf8_header c =
     (if c AND 0x80 = 0 then Some (1, c)
      else if c AND 0xe0 = 0xc0 then Some (2, c AND 0x1f)
      else if c AND 0xf0 = 0xe0 then Some (3, c AND 0x0f)
      else if c AND 0xf8 = 0xf0 then Some (4, c AND 0x07)
      else if c AND 0xfc = 0xf8 then Some (5, c AND 0x03)
      else if c AND 0xfe = 0xfc then Some (6, c AND 0x01)
      else None)"

text \<open>The check of the following bytes, up to the first bad one.\<close>

fun utf8_tail :: "nat \<Rightarrow> nat \<Rightarrow> byte list \<Rightarrow> byte list option option" where
  "utf8_tail 0 p m = Some (Some [])"
| "utf8_tail (Suc k) p m =
     (if p \<ge> length m then None
      else if m ! p AND 0xc0 \<noteq> 0x80 then Some None
      else map_option (map_option (\<lambda>cs. m ! p # cs)) (utf8_tail k (p + 1) m))"

definition utf8_value :: "byte \<Rightarrow> byte list \<Rightarrow> wchar" where
  "utf8_value high conts =
     (let (w, n_bits) = fold (\<lambda>c (w, n_bits). (w OR push_bit n_bits (ucast (c AND 0x3f)), n_bits + 6)) (rev conts) (0, 0)
      in w OR push_bit n_bits (ucast high))"

datatype utf8_item = Utf8_End | Utf8_Error | Utf8_Skip | Utf8_Char nat wchar

definition utf8_next :: "byte list \<Rightarrow> nat option \<Rightarrow> bool \<Rightarrow> nat \<Rightarrow> utf8_item option" where
  "utf8_next m lim ignore p =
     (if p \<ge> length m then None
      else
        let c = m ! p; bad = (if ignore then Utf8_Skip else Utf8_Error)
        in if c = 0 \<and> lim = None then Some Utf8_End
           else if utf8_forbidden c \<and> \<not> ignore then Some Utf8_Error
           else case utf8_header c of
             None \<Rightarrow> Some bad
           | Some (n, high) \<Rightarrow>
               (if (case lim of None \<Rightarrow> False | Some l \<Rightarrow> l - p \<le> n - 1) then Some bad
                else map_option (\<lambda>t. case t of None \<Rightarrow> bad | Some conts \<Rightarrow> Utf8_Char n (utf8_value high conts))
                       (utf8_tail (n - 1) (p + 1) m)))"

lemma utf8_next_in: "utf8_next m lim ign p = Some x \<Longrightarrow> p < length m"
  by (auto simp: utf8_next_def split: if_splits)

lemma utf8_next_char: "utf8_next m lim ign p = Some (Utf8_Char n w) \<Longrightarrow> p < length m \<and> 0 < n"
  by (auto simp: utf8_next_def utf8_header_def Let_def split: if_splits option.splits)

text \<open>\<open>lim\<close> is \<^term>\<open>None\<close> for a string that ends with its null character, \<open>space\<close> for a null buffer.\<close>

function utf8_loop ::
    "byte list \<Rightarrow> nat option \<Rightarrow> nat option \<Rightarrow> u32 \<Rightarrow> nat \<Rightarrow> nat \<Rightarrow> wchar list \<Rightarrow> (nat \<times> wchar list) option" where
  "utf8_loop m lim space flags p tot out =
     (if (case lim of None \<Rightarrow> False | Some l \<Rightarrow> p \<ge> l) then Some (tot, out)
      else case utf8_next m lim (ignore_error flags) p of
        None \<Rightarrow> None
      | Some Utf8_End \<Rightarrow> Some (tot, out)
      | Some Utf8_Error \<Rightarrow> Some (0, out)
      | Some Utf8_Skip \<Rightarrow> utf8_loop m lim space flags (p + 1) tot out
      | Some (Utf8_Char n w) \<Rightarrow>
          (case space of
             None \<Rightarrow> utf8_loop m lim space flags (p + n) (tot + 1) out
           | Some k \<Rightarrow>
               (if length out \<ge> k then Some (0, out)
                else if wchar_forbidden w
                then (if \<not> ignore_error flags then Some (0, out @ [w])
                      else utf8_loop m lim space flags (p + n) tot out)
                else if w = 0xfeff \<and> skip_bom flags then utf8_loop m lim space flags (p + n) tot out
                else utf8_loop m lim space flags (p + n) (tot + 1) (out @ [w]))))"
  by pat_completeness auto

termination utf8_loop
  by (relation "measure (\<lambda>(m, lim, space, flags, p, tot, out). length m - p)")
    (auto dest!: utf8_next_in utf8_next_char)

declare utf8_loop.simps [simp del]

definition utf8_to_wchar :: "byte list \<Rightarrow> nat \<Rightarrow> nat option \<Rightarrow> u32 \<Rightarrow> (nat \<times> wchar list) option" where
  "utf8_to_wchar m insize space flags =
     (if space = Some 0 then Some (0, [])
      else utf8_loop m (if insize \<noteq> 0 then Some insize else None) space flags 0 0 [])"

section \<open>To UTF-8\<close>

definition utf8_length :: "wchar \<Rightarrow> nat" where
  "utf8_length w =
     (if w \<le> 0x7f then 1 else if w \<le> 0x7ff then 2 else if w \<le> 0xffff then 3
      else if w \<le> 0x1fffff then 4 else if w \<le> 0x3ffffff then 5 else 6)"

text \<open>\<open>oc i\<close> is byte \<open>i\<close> of the character in memory, least significant first.\<close>

definition utf8_bytes :: "nat \<Rightarrow> wchar \<Rightarrow> byte list" where
  "utf8_bytes n ch =
     (let oc = (\<lambda>i. ucast (drop_bit (8 * i) ch) :: byte);
          nxt = (\<lambda>b. 0x80 OR b);
          low = nxt (oc 0 AND 0x3f);
          mid = nxt (drop_bit 6 (oc 0) OR push_bit 2 (oc 1 AND 0x0f))
      in if n = 1 then [oc 0]
         else if n = 2 then [0xc0 OR drop_bit 6 (oc 0) OR push_bit 2 (oc 1 AND 0x07), low]
         else if n = 3 then [0xe0 OR drop_bit 4 (oc 1 AND 0xf0), mid, low]
         else if n = 4
         then [0xf0 OR drop_bit 2 (oc 2 AND 0x1f), nxt (drop_bit 4 (oc 1 AND 0xf0) OR push_bit 4 (oc 2 AND 0x03)), mid, low]
         else if n = 5
         then [0xf8 OR (oc 3 AND 0x03), nxt (drop_bit 2 (oc 2)), nxt (drop_bit 4 (oc 1 AND 0xf0) OR push_bit 4 (oc 2 AND 0x03)), mid, low]
         else [0xfc OR drop_bit 6 (oc 3 AND 0x40), nxt (oc 3 AND 0x3f), nxt (drop_bit 2 (oc 2)),
               nxt (drop_bit 4 (oc 1) OR push_bit 4 (oc 2 AND 0x03)), mid, low])"

fun wchar_loop :: "nat \<Rightarrow> wchar list \<Rightarrow> nat option \<Rightarrow> nat option \<Rightarrow> u32 \<Rightarrow> nat \<Rightarrow> byte list \<Rightarrow> (nat \<times> byte list) option" where
  "wchar_loop i [] lim space flags tot out =
     (if (case lim of None \<Rightarrow> False | Some l \<Rightarrow> i \<ge> l) then Some (tot, out) else None)"
| "wchar_loop i (w # ws) lim space flags tot out =
     (if (case lim of None \<Rightarrow> False | Some l \<Rightarrow> i \<ge> l) then Some (tot, out)
      else if w = 0 \<and> lim = None then Some (tot, out)
      else if wchar_forbidden w
      then (if \<not> ignore_error flags then Some (0, out) else wchar_loop (i + 1) ws lim space flags tot out)
      else if w = 0xfeff \<and> skip_bom flags then wchar_loop (i + 1) ws lim space flags tot out
      else if sint w < 0
      then (if \<not> ignore_error flags then Some (0, out) else wchar_loop (i + 1) ws lim space flags tot out)
      else
        let n = utf8_length w
        in case space of
             None \<Rightarrow> wchar_loop (i + 1) ws lim space flags (tot + n) out
           | Some k \<Rightarrow>
               (if k - length out \<le> n - 1 then Some (0, out)
                else wchar_loop (i + 1) ws lim space flags (tot + n) (out @ utf8_bytes n w)))"

definition wchar_to_utf8 :: "wchar list \<Rightarrow> nat \<Rightarrow> nat option \<Rightarrow> u32 \<Rightarrow> (nat \<times> byte list) option" where
  "wchar_to_utf8 ws insize space flags =
     (if space = Some 0 then Some (0, [])
      else wchar_loop 0 ws (if insize \<noteq> 0 then Some insize else None) space flags 0 [])"

section \<open>Bits\<close>

lemma byte_masks:
  "(0x3f :: byte) = mask 6" "(0x0f :: byte) = mask 4" "(0x07 :: byte) = mask 3" "(0x03 :: byte) = mask 2"
  "(0x1f :: byte) = mask 5"
  "(0xc0 :: byte) = push_bit 6 (mask 2)" "(0xe0 :: byte) = push_bit 5 (mask 3)"
  "(0xf0 :: byte) = push_bit 4 (mask 4)" "(0xf8 :: byte) = push_bit 3 (mask 5)" "(0xfc :: byte) = push_bit 2 (mask 6)"
  by (simp_all add: mask_numeral push_bit_eq_mult mask_eq_exp_minus_1)

lemma bit_80: "bit (0x80 :: byte) n = (n = 7)"
proof -
  have "(0x80 :: byte) = push_bit 7 1" by simp
  then show ?thesis by (simp only: bit_push_bit_iff bit_1_iff) auto
qed

lemma bit_40: "bit (0x40 :: byte) n = (n = 6)"
proof -
  have "(0x40 :: byte) = push_bit 6 1" by simp
  then show ?thesis by (simp only: bit_push_bit_iff bit_1_iff) auto
qed

lemma bit_fe: "bit (0xfe :: byte) n = (1 \<le> n \<and> n < 8)"
proof -
  have "(0xfe :: byte) = push_bit 1 (mask 7)" by (simp add: mask_numeral push_bit_eq_mult)
  then show ?thesis by (simp only: bit_push_bit_iff bit_mask_iff) auto
qed

lemmas bits = bit_fe bit_80 bit_40 bit_or_iff bit_and_iff bit_push_bit_iff bit_drop_bit_eq bit_unsigned_iff bit_mask_iff bit_take_bit_iff

lemma high_bits:
  assumes "unat (w :: wchar) < 2 ^ k" "bit w i"
  shows "i < k"
proof -
  have "bit (unat w) i" using assms(2) by (simp add: bit_unsigned_iff)
  then have "odd (unat w div 2 ^ i)" by (simp add: bit_iff_odd)
  then have "2 ^ i \<le> unat w" by (metis div_less even_zero not_le_imp_less)
  with assms(1) have "(2 :: nat) ^ i < 2 ^ k" by linarith
  then show ?thesis by simp
qed

lemma byte_eqI: "list_all (\<lambda>n. bit a n = bit b n) [0, 1, 2, 3, 4, 5, 6, 7] \<Longrightarrow> a = (b :: byte)"
proof (rule bit_word_eqI)
  fix n assume "list_all (\<lambda>n. bit a n = bit b n) [0, 1, 2, 3, 4, 5, 6, 7]" "n < LENGTH(8)"
  moreover from this(2) have "n \<in> {0, 1, 2, 3, 4, 5, 6, 7}" by auto
  ultimately show "bit a n = bit b n" by auto
qed

lemma no_high_bits: "unat (w :: wchar) < 2 ^ k \<Longrightarrow> k \<le> i \<Longrightarrow> \<not> bit w i"
  using high_bits by force

text \<open>What the decoder makes of an encoded character: header, following bytes, value.\<close>

definition encodes :: "nat \<Rightarrow> wchar \<Rightarrow> byte list \<Rightarrow> bool" where
  "encodes n w bs \<longleftrightarrow> (\<exists>c cs. bs = c # cs \<and> length cs = n - 1 \<and> list_all (\<lambda>x. x AND 0xc0 = 0x80) cs \<and>
     utf8_header c = Some (n, ucast (drop_bit (6 * (n - 1)) w)) \<and>
     utf8_value (ucast (drop_bit (6 * (n - 1)) w)) cs = w)"

lemma utf8_header_at:
  "c AND 0xe0 = 0xc0 \<Longrightarrow> utf8_header c = Some (2, c AND 0x1f)"
  "c AND 0xf0 = 0xe0 \<Longrightarrow> utf8_header c = Some (3, c AND 0x0f)"
  "c AND 0xf8 = 0xf0 \<Longrightarrow> utf8_header c = Some (4, c AND 0x07)"
  "c AND 0xfc = 0xf8 \<Longrightarrow> utf8_header c = Some (5, c AND 0x03)"
  "c AND 0xfe = 0xfc \<Longrightarrow> utf8_header c = Some (6, c AND 0x01)"
proof -
  have down: "c AND a = b \<Longrightarrow> a AND m = m \<Longrightarrow> c AND m = b AND m" for a b m :: byte
    by (metis and.assoc)
  show "c AND 0xe0 = 0xc0 \<Longrightarrow> utf8_header c = Some (2, c AND 0x1f)"
    using down [of "0xe0" "0xc0" "0x80"] by (simp add: utf8_header_def)
  show "c AND 0xf0 = 0xe0 \<Longrightarrow> utf8_header c = Some (3, c AND 0x0f)"
    using down [of "0xf0" "0xe0" "0x80"] down [of "0xf0" "0xe0" "0xe0"] by (simp add: utf8_header_def)
  show "c AND 0xf8 = 0xf0 \<Longrightarrow> utf8_header c = Some (4, c AND 0x07)"
    using down [of "0xf8" "0xf0" "0x80"] down [of "0xf8" "0xf0" "0xe0"] down [of "0xf8" "0xf0" "0xf0"]
    by (simp add: utf8_header_def)
  show "c AND 0xfc = 0xf8 \<Longrightarrow> utf8_header c = Some (5, c AND 0x03)"
    using down [of "0xfc" "0xf8" "0x80"] down [of "0xfc" "0xf8" "0xe0"] down [of "0xfc" "0xf8" "0xf0"]
      down [of "0xfc" "0xf8" "0xf8"] by (simp add: utf8_header_def)
  show "c AND 0xfe = 0xfc \<Longrightarrow> utf8_header c = Some (6, c AND 0x01)"
    using down [of "0xfe" "0xfc" "0x80"] down [of "0xfe" "0xfc" "0xe0"] down [of "0xfe" "0xfc" "0xf0"]
      down [of "0xfe" "0xfc" "0xf8"] down [of "0xfe" "0xfc" "0xfc"] by (simp add: utf8_header_def)
qed

text \<open>The following bytes hold six bits of the character each.\<close>

lemma cont_low:
  "(0x80 OR (ucast w AND 0x3f) :: byte) AND 0xc0 = 0x80"
  "(0x80 OR (ucast w AND 0x3f) :: byte) AND 0x3f = ucast (drop_bit 0 w) AND 0x3f" for w :: wchar
  by (rule byte_eqI, simp add: byte_masks bits)+

lemma cont_mid:
  "(0x80 OR (drop_bit 6 (ucast w) OR push_bit 2 (ucast (drop_bit 8 w) AND 0x0f)) :: byte) AND 0xc0 = 0x80"
  "(0x80 OR (drop_bit 6 (ucast w) OR push_bit 2 (ucast (drop_bit 8 w) AND 0x0f)) :: byte) AND 0x3f = ucast (drop_bit 6 w) AND 0x3f" for w :: wchar
  by (rule byte_eqI, simp add: byte_masks bits)+

lemma cont_third:
  "(0x80 OR (drop_bit 4 (ucast (drop_bit 8 w) AND 0xf0) OR push_bit 4 (ucast (drop_bit 16 w) AND 0x03)) :: byte) AND 0xc0 = 0x80"
  "(0x80 OR (drop_bit 4 (ucast (drop_bit 8 w) AND 0xf0) OR push_bit 4 (ucast (drop_bit 16 w) AND 0x03)) :: byte) AND 0x3f = ucast (drop_bit 12 w) AND 0x3f" for w :: wchar
  by (rule byte_eqI, simp add: byte_masks bits)+

lemma cont_third':
  "(0x80 OR (drop_bit 4 (ucast (drop_bit 8 w)) OR push_bit 4 (ucast (drop_bit 16 w) AND 0x03)) :: byte) AND 0xc0 = 0x80"
  "(0x80 OR (drop_bit 4 (ucast (drop_bit 8 w)) OR push_bit 4 (ucast (drop_bit 16 w) AND 0x03)) :: byte) AND 0x3f = ucast (drop_bit 12 w) AND 0x3f" for w :: wchar
  by (rule byte_eqI, simp add: byte_masks bits)+

lemma cont_fourth:
  "(0x80 OR drop_bit 2 (ucast (drop_bit 16 w)) :: byte) AND 0xc0 = 0x80"
  "(0x80 OR drop_bit 2 (ucast (drop_bit 16 w)) :: byte) AND 0x3f = ucast (drop_bit 18 w) AND 0x3f" for w :: wchar
  by (rule byte_eqI, simp add: byte_masks bits)+

lemma cont_fifth:
  "(0x80 OR (ucast (drop_bit 24 w) AND 0x3f) :: byte) AND 0xc0 = 0x80"
  "(0x80 OR (ucast (drop_bit 24 w) AND 0x3f) :: byte) AND 0x3f = ucast (drop_bit 24 w) AND 0x3f" for w :: wchar
  by (rule byte_eqI, simp add: byte_masks bits)+

lemmas utf8_conts = cont_low cont_mid cont_third cont_third' cont_fourth cont_fifth

text \<open>The value is put together six bits at a time.\<close>

lemma six_bits: "(ucast (ucast (drop_bit k w) AND (0x3f :: byte)) :: wchar) = take_bit 6 (drop_bit k w)" for w :: wchar
  unfolding byte_masks(1) by (rule bit_word_eqI) (auto simp: bits)

lemma top_bits: "unat w < 2 ^ (k + 8) \<Longrightarrow> (ucast (ucast (drop_bit k w) :: byte) :: wchar) = drop_bit k w" for w :: wchar
proof (rule bit_word_eqI)
  fix i assume w: "unat w < 2 ^ (k + 8)"
  show "bit (ucast (ucast (drop_bit k w) :: byte) :: wchar) i = bit (drop_bit k w) i" if "i < LENGTH(32)"
    using that no_high_bits [OF w, of "k + i"] by (cases "i < 8") (auto simp: bits)
qed

lemma join_six: "take_bit n w OR push_bit n (take_bit 6 (drop_bit n w)) = take_bit (n + 6) w" for w :: wchar
  by (rule bit_word_eqI) (auto simp: bits)

lemma join_top: "take_bit n w OR push_bit n (drop_bit n w) = w" for w :: wchar
proof (rule bit_word_eqI)
  fix i assume "i < LENGTH(32)"
  then show "bit (take_bit n w OR push_bit n (drop_bit n w)) i = bit w i" by (cases "i < n") (simp_all add: bits)
qed

lemma or_pull: "a OR b = c \<Longrightarrow> a OR (b OR d) = c OR d" for a :: wchar
  by (simp flip: or.assoc)

lemmas joins = join_six [of 6, simplified] join_six [of 12, simplified] join_six [of 18, simplified] join_six [of 24, simplified]

lemmas joined = joins joins [THEN or_pull] join_top

lemma encodesI:
  assumes "utf8_header c = Some (n, h)" "h = ucast (drop_bit (6 * (n - 1)) w)"
    "length cs = n - 1" "list_all (\<lambda>x. x AND 0xc0 = 0x80) cs" "utf8_value h cs = w"
  shows "encodes n w (c # cs)"
  using assms by (auto simp: encodes_def)

lemma utf8_values:
  "a AND 0x3f = a' \<Longrightarrow> utf8_value h [a] = ucast a' OR push_bit 6 (ucast h)"
  "a AND 0x3f = a' \<Longrightarrow> b AND 0x3f = b' \<Longrightarrow> utf8_value h [a, b] = ucast b' OR push_bit 6 (ucast a') OR push_bit 12 (ucast h)"
  "a AND 0x3f = a' \<Longrightarrow> b AND 0x3f = b' \<Longrightarrow> c AND 0x3f = c' \<Longrightarrow> utf8_value h [a, b, c] = ucast c' OR push_bit 6 (ucast b') OR push_bit 12 (ucast a') OR push_bit 18 (ucast h)"
  "a AND 0x3f = a' \<Longrightarrow> b AND 0x3f = b' \<Longrightarrow> c AND 0x3f = c' \<Longrightarrow> d AND 0x3f = d' \<Longrightarrow> utf8_value h [a, b, c, d] = ucast d' OR push_bit 6 (ucast c') OR push_bit 12 (ucast b') OR push_bit 18 (ucast a') OR push_bit 24 (ucast h)"
  "a AND 0x3f = a' \<Longrightarrow> b AND 0x3f = b' \<Longrightarrow> c AND 0x3f = c' \<Longrightarrow> d AND 0x3f = d' \<Longrightarrow> e AND 0x3f = e' \<Longrightarrow> utf8_value h [a, b, c, d, e] = ucast e' OR push_bit 6 (ucast d') OR push_bit 12 (ucast c') OR push_bit 18 (ucast b') OR push_bit 24 (ucast a') OR push_bit 30 (ucast h)"
  by (simp_all add: utf8_value_def or.assoc)

lemma encodes_1: "unat w < 2 ^ 7 \<Longrightarrow> encodes 1 w (utf8_bytes 1 w)"
proof -
  assume w: "unat w < 2 ^ 7"
  have a: "ucast w AND (0x80 :: byte) = 0"
    by (rule byte_eqI) (simp add: no_high_bits [OF w] byte_masks bits)
  have b: "(ucast (ucast w :: byte) :: wchar) = w"
    using top_bits [of w 0] w by simp
  show ?thesis using a b by (simp add: encodes_def utf8_bytes_def utf8_header_def utf8_value_def)
qed

lemma encodes_2: "unat w < 2 ^ 11 \<Longrightarrow> encodes 2 w (utf8_bytes 2 w)"
proof -
  assume w: "unat w < 2 ^ 11"
  note hb = no_high_bits [OF w]
  let ?c = "(0xc0 OR drop_bit 6 (ucast w) OR push_bit 2 (ucast (drop_bit 8 w) AND 0x07) :: byte)"
  have bs: "utf8_bytes 2 w = ?c # [0x80 OR (ucast w AND 0x3f)]"
    by (simp add: utf8_bytes_def Let_def)
  have c: "?c AND 0xe0 = 0xc0"
    by (rule byte_eqI) (simp add: hb byte_masks bits)
  have v: "?c AND 0x1f = ucast (drop_bit 6 w)"
    by (rule byte_eqI) (simp add: hb byte_masks bits)
  show ?thesis
    unfolding bs
  proof (rule encodesI [OF utf8_header_at(1) [OF c]])
    show "list_all (\<lambda>x :: byte. x AND 0xc0 = 0x80) [0x80 OR (ucast w AND 0x3f)]"
      by (simp only: list.pred_inject cont_low(1) simp_thms)
    show "utf8_value (?c AND 0x1f) [0x80 OR (ucast w AND 0x3f)] = w"
      unfolding v utf8_values(1) [OF cont_low(2)] using top_bits [of w 6] w
      by (simp add: six_bits [of 0, simplified] six_bits joined)
  qed (unfold v, simp_all)
qed

lemma encodes_3: "unat w < 2 ^ 16 \<Longrightarrow> encodes 3 w (utf8_bytes 3 w)"
proof -
  assume w: "unat w < 2 ^ 16"
  note hb = no_high_bits [OF w]
  let ?c = "(0xe0 OR drop_bit 4 (ucast (drop_bit 8 w) AND 0xf0) :: byte)"
  have bs: "utf8_bytes 3 w = ?c # [0x80 OR (drop_bit 6 (ucast w) OR push_bit 2 (ucast (drop_bit 8 w) AND 0x0f)), 0x80 OR (ucast w AND 0x3f)]"
    by (simp add: utf8_bytes_def Let_def)
  have c: "?c AND 0xf0 = 0xe0"
    by (rule byte_eqI) (simp add: hb byte_masks bits)
  have v: "?c AND 0x0f = ucast (drop_bit 12 w)"
    by (rule byte_eqI) (simp add: hb byte_masks bits)
  show ?thesis
    unfolding bs
  proof (rule encodesI [OF utf8_header_at(2) [OF c]])
    show "list_all (\<lambda>x :: byte. x AND 0xc0 = 0x80) [0x80 OR (drop_bit 6 (ucast w) OR push_bit 2 (ucast (drop_bit 8 w) AND 0x0f)), 0x80 OR (ucast w AND 0x3f)]"
      by (simp only: list.pred_inject cont_mid(1) cont_low(1) simp_thms)
    show "utf8_value (?c AND 0x0f) [0x80 OR (drop_bit 6 (ucast w) OR push_bit 2 (ucast (drop_bit 8 w) AND 0x0f)), 0x80 OR (ucast w AND 0x3f)] = w"
      unfolding v utf8_values(2) [OF cont_mid(2) cont_low(2)] using top_bits [of w 12] w
      by (simp add: six_bits [of 0, simplified] six_bits joined)
  qed (unfold v, simp_all)
qed

lemma encodes_4: "unat w < 2 ^ 21 \<Longrightarrow> encodes 4 w (utf8_bytes 4 w)"
proof -
  assume w: "unat w < 2 ^ 21"
  note hb = no_high_bits [OF w]
  let ?c = "(0xf0 OR drop_bit 2 (ucast (drop_bit 16 w) AND 0x1f) :: byte)"
  have bs: "utf8_bytes 4 w = ?c # [0x80 OR (drop_bit 4 (ucast (drop_bit 8 w) AND 0xf0) OR push_bit 4 (ucast (drop_bit 16 w) AND 0x03)), 0x80 OR (drop_bit 6 (ucast w) OR push_bit 2 (ucast (drop_bit 8 w) AND 0x0f)), 0x80 OR (ucast w AND 0x3f)]"
    by (simp add: utf8_bytes_def Let_def)
  have c: "?c AND 0xf8 = 0xf0"
    by (rule byte_eqI) (simp add: hb byte_masks bits)
  have v: "?c AND 0x07 = ucast (drop_bit 18 w)"
    by (rule byte_eqI) (simp add: hb byte_masks bits)
  show ?thesis
    unfolding bs
  proof (rule encodesI [OF utf8_header_at(3) [OF c]])
    show "list_all (\<lambda>x :: byte. x AND 0xc0 = 0x80) [0x80 OR (drop_bit 4 (ucast (drop_bit 8 w) AND 0xf0) OR push_bit 4 (ucast (drop_bit 16 w) AND 0x03)), 0x80 OR (drop_bit 6 (ucast w) OR push_bit 2 (ucast (drop_bit 8 w) AND 0x0f)), 0x80 OR (ucast w AND 0x3f)]"
      by (simp only: list.pred_inject cont_third(1) cont_mid(1) cont_low(1) simp_thms)
    show "utf8_value (?c AND 0x07) [0x80 OR (drop_bit 4 (ucast (drop_bit 8 w) AND 0xf0) OR push_bit 4 (ucast (drop_bit 16 w) AND 0x03)), 0x80 OR (drop_bit 6 (ucast w) OR push_bit 2 (ucast (drop_bit 8 w) AND 0x0f)), 0x80 OR (ucast w AND 0x3f)] = w"
      unfolding v utf8_values(3) [OF cont_third(2) cont_mid(2) cont_low(2)] using top_bits [of w 18] w
      by (simp add: six_bits [of 0, simplified] six_bits joined)
  qed (unfold v, simp_all)
qed

lemma encodes_5: "unat w < 2 ^ 26 \<Longrightarrow> encodes 5 w (utf8_bytes 5 w)"
proof -
  assume w: "unat w < 2 ^ 26"
  note hb = no_high_bits [OF w]
  let ?c = "(0xf8 OR (ucast (drop_bit 24 w) AND 0x03) :: byte)"
  have bs: "utf8_bytes 5 w = ?c # [0x80 OR drop_bit 2 (ucast (drop_bit 16 w)), 0x80 OR (drop_bit 4 (ucast (drop_bit 8 w) AND 0xf0) OR push_bit 4 (ucast (drop_bit 16 w) AND 0x03)), 0x80 OR (drop_bit 6 (ucast w) OR push_bit 2 (ucast (drop_bit 8 w) AND 0x0f)), 0x80 OR (ucast w AND 0x3f)]"
    by (simp add: utf8_bytes_def Let_def)
  have c: "?c AND 0xfc = 0xf8"
    by (rule byte_eqI) (simp add: hb byte_masks bits)
  have v: "?c AND 0x03 = ucast (drop_bit 24 w)"
    by (rule byte_eqI) (simp add: hb byte_masks bits)
  show ?thesis
    unfolding bs
  proof (rule encodesI [OF utf8_header_at(4) [OF c]])
    show "list_all (\<lambda>x :: byte. x AND 0xc0 = 0x80) [0x80 OR drop_bit 2 (ucast (drop_bit 16 w)), 0x80 OR (drop_bit 4 (ucast (drop_bit 8 w) AND 0xf0) OR push_bit 4 (ucast (drop_bit 16 w) AND 0x03)), 0x80 OR (drop_bit 6 (ucast w) OR push_bit 2 (ucast (drop_bit 8 w) AND 0x0f)), 0x80 OR (ucast w AND 0x3f)]"
      by (simp only: list.pred_inject cont_fourth(1) cont_third(1) cont_mid(1) cont_low(1) simp_thms)
    show "utf8_value (?c AND 0x03) [0x80 OR drop_bit 2 (ucast (drop_bit 16 w)), 0x80 OR (drop_bit 4 (ucast (drop_bit 8 w) AND 0xf0) OR push_bit 4 (ucast (drop_bit 16 w) AND 0x03)), 0x80 OR (drop_bit 6 (ucast w) OR push_bit 2 (ucast (drop_bit 8 w) AND 0x0f)), 0x80 OR (ucast w AND 0x3f)] = w"
      unfolding v utf8_values(4) [OF cont_fourth(2) cont_third(2) cont_mid(2) cont_low(2)] using top_bits [of w 24] w
      by (simp add: six_bits [of 0, simplified] six_bits joined)
  qed (unfold v, simp_all)
qed

lemma encodes_6: "unat w < 2 ^ 31 \<Longrightarrow> encodes 6 w (utf8_bytes 6 w)"
proof -
  assume w: "unat w < 2 ^ 31"
  note hb = no_high_bits [OF w]
  let ?c = "(0xfc OR drop_bit 6 (ucast (drop_bit 24 w) AND 0x40) :: byte)"
  have bs: "utf8_bytes 6 w = ?c # [0x80 OR (ucast (drop_bit 24 w) AND 0x3f), 0x80 OR drop_bit 2 (ucast (drop_bit 16 w)), 0x80 OR (drop_bit 4 (ucast (drop_bit 8 w)) OR push_bit 4 (ucast (drop_bit 16 w) AND 0x03)), 0x80 OR (drop_bit 6 (ucast w) OR push_bit 2 (ucast (drop_bit 8 w) AND 0x0f)), 0x80 OR (ucast w AND 0x3f)]"
    by (simp add: utf8_bytes_def Let_def)
  have c: "?c AND 0xfe = 0xfc"
    by (rule byte_eqI) (simp add: hb byte_masks bits)
  have v: "?c AND 0x01 = ucast (drop_bit 30 w)"
    by (rule byte_eqI) (simp add: hb byte_masks bits)
  show ?thesis
    unfolding bs
  proof (rule encodesI [OF utf8_header_at(5) [OF c]])
    show "list_all (\<lambda>x :: byte. x AND 0xc0 = 0x80) [0x80 OR (ucast (drop_bit 24 w) AND 0x3f), 0x80 OR drop_bit 2 (ucast (drop_bit 16 w)), 0x80 OR (drop_bit 4 (ucast (drop_bit 8 w)) OR push_bit 4 (ucast (drop_bit 16 w) AND 0x03)), 0x80 OR (drop_bit 6 (ucast w) OR push_bit 2 (ucast (drop_bit 8 w) AND 0x0f)), 0x80 OR (ucast w AND 0x3f)]"
      by (simp only: list.pred_inject cont_fifth(1) cont_fourth(1) cont_third'(1) cont_mid(1) cont_low(1) simp_thms)
    show "utf8_value (?c AND 0x01) [0x80 OR (ucast (drop_bit 24 w) AND 0x3f), 0x80 OR drop_bit 2 (ucast (drop_bit 16 w)), 0x80 OR (drop_bit 4 (ucast (drop_bit 8 w)) OR push_bit 4 (ucast (drop_bit 16 w) AND 0x03)), 0x80 OR (drop_bit 6 (ucast w) OR push_bit 2 (ucast (drop_bit 8 w) AND 0x0f)), 0x80 OR (ucast w AND 0x3f)] = w"
      unfolding v utf8_values(5) [OF cont_fifth(2) cont_fourth(2) cont_third'(2) cont_mid(2) cont_low(2)] using top_bits [of w 30] w
      by (simp add: six_bits [of 0, simplified] six_bits joined)
  qed (unfold v, simp_all)
qed


section \<open>Round trip\<close>

text \<open>
  The characters that come back: not negative, no surrogate, and not in the range whose first byte
  \<^term>\<open>utf8_forbidden\<close> refuses although it is part of a well-formed sequence of four.
\<close>

definition wchar_plain :: "wchar \<Rightarrow> bool" where
  "wchar_plain w \<longleftrightarrow> unat w < 2 ^ 31 \<and> \<not> wchar_forbidden w \<and> \<not> (0x140000 \<le> unat w \<and> unat w < 0x180000)"

definition utf8_text :: "wchar list \<Rightarrow> byte list" where
  "utf8_text ws = concat (map (\<lambda>w. utf8_bytes (utf8_length w) w) ws)"

lemma utf8_text_simps [simp]:
  "utf8_text [] = []" "utf8_text (w # ws) = utf8_bytes (utf8_length w) w @ utf8_text ws"
  by (simp_all add: utf8_text_def)

lemma utf8_length_bounds:
  "unat w < 2 ^ 31 \<Longrightarrow> utf8_length w \<in> {1, 2, 3, 4, 5, 6}"
  "utf8_length w = 2 \<Longrightarrow> 0x80 \<le> unat w"
  by (auto simp: utf8_length_def word_le_nat_alt split: if_splits)

lemma utf8_length_pos: "0 < utf8_length w"
  by (simp add: utf8_length_def)

lemma encodes_length: "unat w < 2 ^ 31 \<Longrightarrow> encodes (utf8_length w) w (utf8_bytes (utf8_length w) w)"
  unfolding utf8_length_def word_le_nat_alt
  by (auto intro!: encodes_1 [simplified] encodes_2 encodes_3 encodes_4 encodes_5 encodes_6)

lemma unat_drop: "unat (drop_bit n w) = unat w div 2 ^ n" for w :: wchar
  unfolding unat_drop_bit_eq by (rule drop_bit_eq_div)

lemma plain_lead:
  assumes "wchar_plain w" "encodes (utf8_length w) w (c # cs)"
  shows "\<not> utf8_forbidden c"
proof
  let ?h = "ucast (drop_bit (6 * (utf8_length w - 1)) w) :: byte"
  have w: "unat w < 2 ^ 31" "\<not> (0x140000 \<le> unat w \<and> unat w < 0x180000)" using assms(1) by (auto simp: wchar_plain_def)
  have h: "utf8_header c = Some (utf8_length w, ?h)" using assms(2) by (auto simp: encodes_def)
  assume "utf8_forbidden c"
  then consider "utf8_length w = 2" "?h = 0 \<or> ?h = 1" | "utf8_length w = 4" "?h = 5"
    using h unfolding utf8_forbidden_def by (auto simp: utf8_header_def)
  then show False
  proof cases
    case 1
    then have "unat w < 2 ^ 11" "0x80 \<le> unat w" using utf8_length_bounds(2) by (auto simp: utf8_length_def word_le_nat_alt split: if_splits)
    moreover have "unat ?h = unat w div 2 ^ 6 mod 256" using 1 by (simp add: unsigned_ucast_eq take_bit_eq_mod unat_drop)
    ultimately show False using 1(2) by auto
  next
    case 2
    then have "unat w < 2 ^ 21" by (auto simp: utf8_length_def word_le_nat_alt split: if_splits)
    moreover have "unat (ucast (drop_bit 18 w) :: byte) = 5" using 2 by simp
    then have "unat w div 2 ^ 18 mod 256 = 5" by (simp only: unsigned_ucast_eq take_bit_eq_mod unat_drop) simp
    ultimately show False using w(2) by auto
  qed
qed

lemma utf8_tail_all:
  "list_all (\<lambda>x. x AND 0xc0 = 0x80) cs \<Longrightarrow> utf8_tail (length cs) (length pre) (pre @ cs @ suf) = Some (Some cs)"
proof (induction cs arbitrary: pre)
  case (Cons x cs)
  then show ?case using Cons.IH [of "pre @ [x]"] by simp
qed simp

lemma utf8_next_encoded:
  assumes "wchar_plain w" and bs: "encodes (utf8_length w) w bs"
  shows "utf8_next (pre @ bs @ suf) (Some (length pre + length bs + k)) ign (length pre) = Some (Utf8_Char (length bs) w)"
proof -
  obtain c cs where c: "bs = c # cs" "length cs = utf8_length w - 1" "list_all (\<lambda>x. x AND 0xc0 = 0x80) cs"
    "utf8_header c = Some (utf8_length w, ucast (drop_bit (6 * (utf8_length w - 1)) w))"
    "utf8_value (ucast (drop_bit (6 * (utf8_length w - 1)) w)) cs = w"
    using bs by (auto simp: encodes_def)
  have n: "length bs = utf8_length w" using c(1,2) utf8_length_pos [of w] by simp
  have t: "utf8_tail (utf8_length w - 1) (Suc (length pre)) (pre @ c # cs @ suf) = Some (Some cs)"
    using utf8_tail_all [OF c(3), of "pre @ [c]" suf] c(2) by simp
  show ?thesis
    using plain_lead [OF assms(1) bs [unfolded c(1)]] n c t by (simp add: utf8_next_def Let_def)
qed

lemma utf8_tail_numeral [simp]:
  "utf8_tail (numeral k) p m =
     (if p \<ge> length m then None
      else if m ! p AND 0xc0 \<noteq> 0x80 then Some None
      else map_option (map_option (\<lambda>cs. m ! p # cs)) (utf8_tail (pred_numeral k) (p + 1) m))"
  by (simp add: numeral_eq_Suc)

lemma wchar_loop_text:
  assumes "\<not> skip_bom flags"
  shows "list_all wchar_plain ws \<Longrightarrow> i + length ws = l \<Longrightarrow> length out + length (utf8_text ws) \<le> k \<Longrightarrow>
    wchar_loop i ws (Some l) (Some k) flags tot out = Some (tot + length (utf8_text ws), out @ utf8_text ws)"
proof (induction ws arbitrary: i out tot)
  case (Cons w ws)
  let ?bs = "utf8_bytes (utf8_length w) w"
  have w: "unat w < 2 ^ 31" "\<not> wchar_forbidden w" using Cons.prems by (auto simp: wchar_plain_def)
  have n: "length ?bs = utf8_length w" "0 < utf8_length w"
    using encodes_length [OF w(1)] utf8_length_bounds(1) [OF w(1)] by (auto simp: encodes_def)
  have pos: "\<not> sint w < 0"
    using no_high_bits [OF w(1), of 31] bit_last_iff [of w] by simp
  have "wchar_loop (i + 1) ws (Some l) (Some k) flags (tot + utf8_length w) (out @ ?bs) =
      Some (tot + utf8_length w + length (utf8_text ws), (out @ ?bs) @ utf8_text ws)"
    using Cons.prems by (intro Cons.IH) auto
  then show ?case using assms Cons.prems w n pos by (auto simp: Let_def)
qed simp

lemma utf8_loop_text:
  assumes "\<not> skip_bom flags"
  shows "list_all wchar_plain ws \<Longrightarrow> length out + length ws \<le> k \<Longrightarrow>
    utf8_loop (pre @ utf8_text ws) (Some (length pre + length (utf8_text ws))) (Some k) flags (length pre) tot out =
      Some (tot + length ws, out @ ws)"
proof (induction ws arbitrary: pre out tot)
  case Nil then show ?case by (simp add: utf8_loop.simps)
next
  case (Cons w ws)
  let ?bs = "utf8_bytes (utf8_length w) w"
  have w: "unat w < 2 ^ 31" "\<not> wchar_forbidden w" "wchar_plain w" using Cons.prems by (auto simp: wchar_plain_def)
  have n: "0 < length ?bs" using encodes_length [OF w(1)] by (auto simp: encodes_def)
  have "utf8_loop ((pre @ ?bs) @ utf8_text ws) (Some (length (pre @ ?bs) + length (utf8_text ws))) (Some k) flags
      (length (pre @ ?bs)) (tot + 1) (out @ [w]) = Some (tot + 1 + length ws, (out @ [w]) @ ws)"
    using Cons.prems by (intro Cons.IH) auto
  then show ?case
    using n assms Cons.prems w utf8_next_encoded [OF w(3) encodes_length [OF w(1)], of pre "utf8_text ws" "length (utf8_text ws)" "ignore_error flags"]
    by (subst utf8_loop.simps) (simp add: add.assoc)
qed

text \<open>C31: a text of plain characters, written by \<^const>\<open>wchar_to_utf8\<close> into a buffer that is large
  enough, is read back by \<^const>\<open>utf8_to_wchar\<close> as it was, whatever it contains (null characters
  too) and whether errors are ignored or not.\<close>

theorem utf8_roundtrip:
  assumes "ws \<noteq> []" "list_all wchar_plain ws" "\<not> skip_bom flags"
    and "length (utf8_text ws) \<le> k" "length ws \<le> j"
  shows "wchar_to_utf8 ws (length ws) (Some k) flags = Some (length (utf8_text ws), utf8_text ws) \<and>
    utf8_to_wchar (utf8_text ws) (length (utf8_text ws)) (Some j) flags = Some (length ws, ws)"
proof -
  obtain w ws' where ws: "ws = w # ws'" using assms(1) by (cases ws) auto
  then have "encodes (utf8_length w) w (utf8_bytes (utf8_length w) w)"
    using assms(2) encodes_length by (auto simp: wchar_plain_def)
  then have n: "0 < length (utf8_text ws)" using ws by (auto simp: encodes_def)
  then have "0 < k" using assms(4) by linarith
  moreover have "0 < j" "length ws \<noteq> 0" using assms(1,5) by (cases ws; auto)+
  ultimately have k: "Some k \<noteq> Some 0" "Some j \<noteq> Some 0" "length ws \<noteq> 0" by auto
  show ?thesis
    unfolding wchar_to_utf8_def utf8_to_wchar_def if_not_P [OF k(1)] if_not_P [OF k(2)]
    using wchar_loop_text [OF assms(3,2), of 0 "length ws" "[]" k 0]
      utf8_loop_text [OF assms(3,2), of "[]" j "[]" 0] assms(4,5) n
    using assms(1) by simp
qed

theorem utf8_roundtrip_witness:
  "wchar_to_utf8 [0x41, 0, 0x20ac, 0x1f600] 4 (Some 16) 0 =
     Some (9, [0x41, 0, 0xe2, 0x82, 0xac, 0xf0, 0x9f, 0x98, 0x80]) \<and>
   utf8_to_wchar [0x41, 0, 0xe2, 0x82, 0xac, 0xf0, 0x9f, 0x98, 0x80] 9 (Some 8) 0 =
     Some (4, [0x41, 0, 0x20ac, 0x1f600])"
proof -
  have t: "utf8_text [0x41, 0, 0x20ac, 0x1f600] = [0x41, 0, 0xe2, 0x82, 0xac, 0xf0, 0x9f, 0x98, 0x80]"
    by (simp add: utf8_length_def utf8_bytes_def Let_def word_le_nat_alt unsigned_ucast_eq)
  have p: "list_all wchar_plain [0x41, 0, 0x20ac, 0x1f600]" "\<not> skip_bom 0"
    by (simp_all add: wchar_plain_def wchar_forbidden_def skip_bom_def)
  show ?thesis using utf8_roundtrip [OF _ p, of 16 8, unfolded t] by (simp add: eval_nat_numeral)
qed

section \<open>Sizes\<close>

text \<open>One pass of the loop with a buffer, next to the same pass without one.\<close>

lemma utf8_loop_pass:
  assumes "utf8_loop m lim (Some k) flags p tot out = Some (t, out')"
  obtains (stop) "out' = out" "t = 0 \<or> t = tot \<and> (\<forall>out2. utf8_loop m lim None flags p tot out2 = Some (tot, out2))"
  | (bad) w where "t = 0" "out' = out @ [w]" "length out < k"
  | (skip) n where "p < length m" "0 < n" "ignore_error flags \<or> skip_bom flags"
      "utf8_loop m lim (Some k) flags (p + n) tot out = Some (t, out')"
  | (char) n w where "p < length m" "0 < n" "length out < k"
      "utf8_loop m lim (Some k) flags (p + n) (tot + 1) (out @ [w]) = Some (t, out')"
      "\<forall>out2. utf8_loop m lim None flags p tot out2 = utf8_loop m lim None flags (p + n) (tot + 1) out2"
proof (cases "case lim of None \<Rightarrow> False | Some l \<Rightarrow> p \<ge> l")
  case True
  then show ?thesis using assms stop by (simp add: utf8_loop.simps)
next
  case False
  note step = utf8_loop.simps [of m lim _ flags p tot, unfolded if_not_P [OF False]]
  obtain i where i: "utf8_next m lim (ignore_error flags) p = Some i"
    using assms by (auto simp: step split: option.splits)
  have p: "p < length m" using utf8_next_in [OF i] .
  show ?thesis
  proof (cases i)
    case (Utf8_Char n w)
    then have n: "0 < n" using utf8_next_char i by blast
    show ?thesis
    proof (cases "length out \<ge> k \<or> wchar_forbidden w \<or> w = 0xfeff \<and> skip_bom flags")
      case True
      consider "length out \<ge> k" | "length out < k" "wchar_forbidden w" "\<not> ignore_error flags"
        | "length out < k" "wchar_forbidden w" "ignore_error flags"
        | "length out < k" "\<not> wchar_forbidden w" "w = 0xfeff" "skip_bom flags" using True by linarith
      then show ?thesis
      proof cases
        case 1 then show ?thesis using assms i Utf8_Char stop by (simp add: step)
      next
        case 2 then show ?thesis using assms i Utf8_Char bad [of w] by (simp add: step)
      next
        case 3 then show ?thesis using assms i Utf8_Char p n skip [of n] by (simp add: step)
      next
        case 4 then show ?thesis using assms i Utf8_Char p n skip [of n] by (simp add: step)
      qed
    next
      case ok: False
      then have "\<not> wchar_forbidden w" "\<not> (w = 0xfeff \<and> skip_bom flags)" "\<not> k \<le> length out" by auto
      then show ?thesis
        using assms i Utf8_Char p n by (intro char [of n w]) (simp_all add: step if_not_P del: de_Morgan_conj)
    qed
  next
    case Utf8_Skip
    then have "ignore_error flags" using i by (auto simp: utf8_next_def Let_def split: if_splits option.splits)
    then show ?thesis using assms i Utf8_Skip p skip [of 1] by (simp add: step)
  next
    case Utf8_End
    then have "t = tot" "out' = out" using assms i by (simp_all add: step)
    then show ?thesis using Utf8_End i by (intro stop) (simp_all add: step)
  next
    case Utf8_Error then show ?thesis using assms i by (intro stop) (simp_all add: step)
  qed
qed

lemma utf8_loop_bounds:
  "utf8_loop m lim (Some k) flags p tot out = Some (t, out') \<Longrightarrow> length out \<le> k \<Longrightarrow> tot \<le> length out \<Longrightarrow>
    length out' \<le> k \<and> t \<le> length out'"
proof (induction "length m - p" arbitrary: p tot out rule: less_induct)
  case less
  from less.prems(1) show ?case
  proof (cases rule: utf8_loop_pass)
    case (skip n) then show ?thesis using less.hyps [of "p + n" tot out] less.prems by simp
  next
    case (char n w) then show ?thesis using less.hyps [of "p + n" "tot + 1" "out @ [w]"] less.prems by simp
  qed (use less.prems in auto)
qed

text \<open>C32: \<^const>\<open>utf8_to_wchar\<close> never writes past a buffer of \<open>k\<close> characters, on any input, and never
  returns more characters than it has written.\<close>

theorem utf8_stays_in_buffer:
  "utf8_to_wchar m insize (Some k) flags = Some (t, out) \<Longrightarrow> length out \<le> k \<and> t \<le> length out"
  unfolding utf8_to_wchar_def using utf8_loop_bounds [of m _ k flags 0 0 "[]"] by (auto split: if_splits)

theorem utf8_stays_in_buffer_witness:
  "utf8_to_wchar [0x41, 0x42, 0] 0 (Some 1) 0 = Some (0, [0x41]) \<and> (1 :: nat) \<le> 1"
proof -
  have r: "utf8_to_wchar [0x41, 0x42, 0] 0 (Some 1) 0 = Some (0, [0x41])"
    by (simp add: utf8_to_wchar_def utf8_loop.simps utf8_next_def utf8_forbidden_def utf8_header_def utf8_value_def
        ignore_error_def skip_bom_def wchar_forbidden_def)
  show ?thesis using utf8_stays_in_buffer [OF r] r by simp
qed

lemma utf8_loop_size:
  assumes "\<not> ignore_error flags" "\<not> skip_bom flags"
  shows "utf8_loop m lim (Some k) flags p tot out = Some (t, out') \<Longrightarrow> 0 < t \<Longrightarrow>
    utf8_loop m lim None flags p tot out2 = Some (t, out2)"
proof (induction "length m - p" arbitrary: p tot out rule: less_induct)
  case less
  from less.prems(1) show ?case
  proof (cases rule: utf8_loop_pass)
    case (char n w) then show ?thesis using less.hyps [of "p + n" "tot + 1" "out @ [w]"] less.prems by simp
  qed (use less.prems assms in auto)
qed

text \<open>With both flags clear the size that a call without a buffer returns is the number of
  characters of the call with one: the callers' pattern of asking first and allocating then.\<close>

theorem utf8_size_query:
  "utf8_to_wchar m insize (Some k) 0 = Some (t, out) \<Longrightarrow> 0 < t \<Longrightarrow> utf8_to_wchar m insize None 0 = Some (t, [])"
  unfolding utf8_to_wchar_def using utf8_loop_size [of 0 m _ k 0 0 "[]"]
  by (auto simp: ignore_error_def skip_bom_def split: if_splits)

theorem utf8_size_query_witness:
  "utf8_to_wchar [0xc3, 0xa9, 0x42, 0] 0 (Some 4) 0 = Some (2, [0xe9, 0x42]) \<and>
   utf8_to_wchar [0xc3, 0xa9, 0x42, 0] 0 None 0 = Some (2, [])"
proof -
  have r: "utf8_to_wchar [0xc3, 0xa9, 0x42, 0] 0 (Some 4) 0 = Some (2, [0xe9, 0x42])"
    by (simp add: utf8_to_wchar_def utf8_loop.simps utf8_next_def utf8_forbidden_def utf8_header_def utf8_value_def
        ignore_error_def skip_bom_def wchar_forbidden_def)
  show ?thesis using utf8_size_query [OF r] r by simp
qed

text \<open>The decoder accepts a slash written in three bytes, which the Unicode standard and RFC 3629 forbid:
  it checks the form of a sequence and never its length against the value.\<close>

theorem utf8_accepts_overlong:
  "utf8_to_wchar [0xe0, 0x80, 0xaf] 3 (Some 4) 0 = Some (1, [0x2f])"
  by (simp add: utf8_to_wchar_def utf8_loop.simps utf8_next_def utf8_forbidden_def utf8_header_def utf8_value_def
      ignore_error_def skip_bom_def wchar_forbidden_def)

text \<open>A character that \<^const>\<open>wchar_to_utf8\<close> writes and \<^const>\<open>utf8_to_wchar\<close> refuses: its first byte is
  0xf5, which the comment at the end of the encoder says cannot appear.\<close>

theorem utf8_refuses_own_output:
  "wchar_to_utf8 [0x140000] 1 (Some 8) 0 = Some (4, [0xf5, 0x80, 0x80, 0x80]) \<and>
   utf8_to_wchar [0xf5, 0x80, 0x80, 0x80] 4 (Some 4) 0 = Some (0, [])"
  by (simp add: utf8_to_wchar_def wchar_to_utf8_def utf8_loop.simps utf8_next_def utf8_forbidden_def utf8_length_def
      utf8_bytes_def Let_def ignore_error_def skip_bom_def wchar_forbidden_def word_le_nat_alt)

end
