(* ===== verification/Nal.thy ===== *)
theory Nal
  imports Bytes
begin

text \<open>
  The search for start codes of \<open>libobs/obs-nal.c\<close>, which scans four bytes at a time, and its
  equivalence with the obvious scan. The bytes from \<open>p\<close> on are \<open>m\<close>, \<open>end\<close> is the end of \<open>m\<close>, a
  pointer is an index, \<open>al\<close> the address of the first byte; a byte read outside is \<^term>\<open>None\<close>.
\<close>

section \<open>The code\<close>

definition byte_is :: "byte list \<Rightarrow> nat \<Rightarrow> byte \<Rightarrow> bool option" where
  "byte_is m p v = (if p < length m then Some (m ! p = v) else None)"

text \<open>\<open>&&\<close>: the second operand is read only when the first one holds.\<close>

fun and_then :: "bool option \<Rightarrow> bool option \<Rightarrow> bool option" where
  "and_then None b = None"
| "and_then (Some False) b = Some False"
| "and_then (Some True) b = b"

definition is_startcode :: "byte list \<Rightarrow> nat \<Rightarrow> bool option" where
  "is_startcode m p = and_then (byte_is m p 0) (and_then (byte_is m (p + 1) 0) (byte_is m (p + 2) 1))"

text \<open>A loop ends with a place found (\<^const>\<open>Inl\<close>) or hands its pointer to the next one.\<close>

function scan_bytes :: "byte list \<Rightarrow> nat \<Rightarrow> nat \<Rightarrow> (nat + nat) option" where
  "scan_bytes m a p =
     (if p < a \<and> p + 3 < length m
      then Option.bind (is_startcode m p) (\<lambda>found. if found then Some (Inl p) else scan_bytes m a (p + 1))
      else Some (Inr p))"
  by pat_completeness auto

termination scan_bytes
  by (relation "measure (\<lambda>(m, a, p). a - p)") auto

definition word_may_have_zero :: "u32 \<Rightarrow> bool" where
  "word_may_have_zero x = ((x - 0x01010101) AND NOT x AND 0x80808080 \<noteq> 0)"

definition scan_word :: "byte list \<Rightarrow> nat \<Rightarrow> nat option option" where
  "scan_word m p = do {
     z1 \<leftarrow> byte_is m (p + 1) 0;
     c0 \<leftarrow> (if z1 then and_then (byte_is m p 0) (byte_is m (p + 2) 1) else Some False);
     if c0 then Some (Some p)
     else do {
       c1 \<leftarrow> (if z1 then and_then (byte_is m (p + 2) 0) (byte_is m (p + 3) 1) else Some False);
       if c1 then Some (Some (p + 1))
       else do {
         z3 \<leftarrow> byte_is m (p + 3) 0;
         c2 \<leftarrow> (if z3 then and_then (byte_is m (p + 2) 0) (byte_is m (p + 4) 1) else Some False);
         if c2 then Some (Some (p + 2))
         else do {
           c3 \<leftarrow> (if z3 then and_then (byte_is m (p + 4) 0) (byte_is m (p + 5) 1) else Some False);
           Some (if c3 then Some (p + 3) else None)
         }
       }
     }
   }"

function scan_words :: "byte list \<Rightarrow> nat \<Rightarrow> (nat + nat) option" where
  "scan_words m p =
     (if p + 6 < length m
      then do {
        x \<leftarrow> mem_read p 4 m;
        hit \<leftarrow> (if word_may_have_zero (of_nat (le_nat x)) then scan_word m p else Some None);
        (case hit of Some q \<Rightarrow> Some (Inl q) | None \<Rightarrow> scan_words m (p + 4))
      }
      else Some (Inr p))"
  by pat_completeness auto

termination scan_words
  by (relation "measure (\<lambda>(m, p). length m - p)") auto

definition ff_avc_find_startcode_internal :: "nat \<Rightarrow> byte list \<Rightarrow> nat \<Rightarrow> nat option" where
  "ff_avc_find_startcode_internal al m p = do {
     let a = p + 4 - (al + p) mod 4;
     r \<leftarrow> scan_bytes m a p;
     (case r of Inl q \<Rightarrow> Some q
      | Inr p \<Rightarrow> do {
          r \<leftarrow> scan_words m p;
          (case r of Inl q \<Rightarrow> Some q
           | Inr p \<Rightarrow> do {
               r \<leftarrow> scan_bytes m (length m) p;
               (case r of Inl q \<Rightarrow> Some q | Inr p \<Rightarrow> Some (length m))
             })
        })
   }"

definition obs_nal_find_startcode :: "nat \<Rightarrow> byte list \<Rightarrow> nat \<Rightarrow> nat option" where
  "obs_nal_find_startcode al m p = do {
     out \<leftarrow> ff_avc_find_startcode_internal al m p;
     z \<leftarrow> (if p < out \<and> out < length m then byte_is m (out - 1) 0 else Some False);
     Some (if z then out - 1 else out)
   }"

declare scan_bytes.simps [simp del] scan_words.simps [simp del]

section \<open>The obvious scan\<close>

text \<open>A start code counts when a byte follows it.\<close>

definition code_at :: "byte list \<Rightarrow> nat \<Rightarrow> bool" where
  "code_at m i \<longleftrightarrow> i + 3 < length m \<and> m ! i = 0 \<and> m ! (i + 1) = 0 \<and> m ! (i + 2) = 1"

definition naive_scan :: "byte list \<Rightarrow> nat \<Rightarrow> nat" where
  "naive_scan m p = (case List.find (code_at m) [p..<length m] of None \<Rightarrow> length m | Some q \<Rightarrow> q)"

definition naive_startcode :: "byte list \<Rightarrow> nat \<Rightarrow> nat" where
  "naive_startcode m p =
     (let q = naive_scan m p in if p < q \<and> q < length m \<and> m ! (q - 1) = 0 then q - 1 else q)"

lemma naive_scan_hit: "code_at m q \<Longrightarrow> p \<le> q \<Longrightarrow> \<forall>i. p \<le> i \<and> i < q \<longrightarrow> \<not> code_at m i \<Longrightarrow> naive_scan m p = q"
proof -
  assume a: "code_at m q" "p \<le> q" "\<forall>i. p \<le> i \<and> i < q \<longrightarrow> \<not> code_at m i"
  then have "List.find (code_at m) [p..<length m] = Some q"
    unfolding find_Some_iff by (intro exI [of _ "q - p"]) (auto simp: code_at_def)
  then show ?thesis by (simp add: naive_scan_def)
qed

lemma naive_scan_end: "\<forall>i \<ge> p. \<not> code_at m i \<Longrightarrow> naive_scan m p = length m"
proof -
  assume "\<forall>i \<ge> p. \<not> code_at m i"
  then have "List.find (code_at m) [p..<length m] = None" by (auto simp: find_None_iff)
  then show ?thesis by (simp add: naive_scan_def)
qed

section \<open>Equivalence\<close>

lemma and_then_Some [simp]: "and_then (Some a) (Some b) = Some (a \<and> b)"
  by (cases a) simp_all

lemma is_startcode_at: "p + 3 < length m \<Longrightarrow> is_startcode m p = Some (code_at m p)"
  by (cases "m ! p = 0"; cases "m ! (p + 1) = 0") (auto simp: is_startcode_def byte_is_def code_at_def)

text \<open>What a loop that starts at \<open>p\<close> may end with.\<close>

definition scanned :: "byte list \<Rightarrow> nat \<Rightarrow> nat + nat \<Rightarrow> bool" where
  "scanned m p r \<longleftrightarrow> (case r of
       Inl q \<Rightarrow> p \<le> q \<and> code_at m q \<and> (\<forall>i. p \<le> i \<and> i < q \<longrightarrow> \<not> code_at m i)
     | Inr q \<Rightarrow> p \<le> q \<and> (\<forall>i. p \<le> i \<and> i < q \<longrightarrow> \<not> code_at m i))"

lemma scanned_later:
  "scanned m p' r \<Longrightarrow> p \<le> p' \<Longrightarrow> \<forall>i. p \<le> i \<and> i < p' \<longrightarrow> \<not> code_at m i \<Longrightarrow> scanned m p r"
  unfolding scanned_def by (auto split: sum.splits) (metis not_le_imp_less)+

lemma scan_bytes_scans:
  "\<exists>r. scan_bytes m a p = Some r \<and> scanned m p r \<and> (\<forall>q. r = Inr q \<longrightarrow> q \<ge> a \<or> q + 3 \<ge> length m)"
proof (induction m a p rule: scan_bytes.induct)
  case (1 m a p)
  show ?case
  proof (cases "p < a \<and> p + 3 < length m")
    case True
    note here = is_startcode_at [OF conjunct2 [OF True]]
    show ?thesis
    proof (cases "code_at m p")
      case True
      then show ?thesis using here \<open>p < a \<and> p + 3 < length m\<close>
        by (intro exI [of _ "Inl p"]) (auto simp: scan_bytes.simps scanned_def)
    next
      case False
      obtain r where r: "scan_bytes m a (p + 1) = Some r" "scanned m (p + 1) r"
        "\<forall>q. r = Inr q \<longrightarrow> q \<ge> a \<or> q + 3 \<ge> length m" using 1 [OF True here] False by auto
      moreover have "scanned m p r"
        by (rule scanned_later [OF r(2)]) (use False in \<open>auto simp: less_Suc_eq_le dest: le_antisym\<close>)
      ultimately show ?thesis using here True False by (intro exI [of _ r]) (simp add: scan_bytes.simps)
    qed
  next
    case False
    then show ?thesis by (intro exI [of _ "Inr p"]) (auto simp: scan_bytes.simps scanned_def)
  qed
qed

text \<open>The word test misses no zero byte: the borrow of the subtraction reaches the top bit of its place.\<close>

lemma odd_div_int: "(i :: int) = d * (2 * t + 1) + r \<Longrightarrow> 0 \<le> r \<Longrightarrow> r < d \<Longrightarrow> odd (i div d)"
  using int_div_pos_eq [of i d "2 * t + 1" r] by (simp add: mult.commute)

lemma even_div_int: "(i :: int) = d * (2 * t) + r \<Longrightarrow> 0 \<le> r \<Longrightarrow> r < d \<Longrightarrow> even (i div d)"
  using int_div_pos_eq [of i d "2 * t" r] by (simp add: mult.commute)

lemma bit_sub_u32: "n < 32 \<Longrightarrow> bit (x - y :: u32) n = odd ((uint x - uint y) div 2 ^ n)"
proof -
  assume "n < 32"
  then have "bit (x - y) n = bit (uint x - uint y) n" by (simp only: word_sub_wi bit_word_of_int_iff) simp
  then show ?thesis by (simp only: bit_iff_odd [of "uint x - uint y"])
qed

lemma bit_u32: "n < 32 \<Longrightarrow> bit (x :: u32) n = odd (uint x div 2 ^ n)"
  using bit_uint_iff [of x n] by (simp add: bit_iff_odd [of "uint x"])

lemma word_zero_bit:
  fixes x :: u32
  assumes "n < 32" "bit (0x80808080 :: u32) n" "odd ((uint x - 0x01010101) div 2 ^ n)" "even (uint x div 2 ^ n)"
  shows "word_may_have_zero x"
proof -
  have "bit ((x - 0x01010101) AND NOT x AND 0x80808080) n"
    using assms by (simp add: bit_and_iff bit_not_iff_eq bit_sub_u32 bit_u32 [of n x])
  then show ?thesis unfolding word_may_have_zero_def by (metis bit_0_eq bot_apply bot_bool_def)
qed

lemma bytes_u32: "uint (of_nat (le_nat [a, b, c, d]) :: u32) = uint a + 256 * uint b + 65536 * uint c + 16777216 * uint d"
proof -
  have "le_nat [a, b, c, d] < 2 ^ 32" using le_nat_less [of "[a, b, c, d]"] by (simp del: le_nat.simps)
  then have "unat (of_nat (le_nat [a, b, c, d]) :: u32) = le_nat [a, b, c, d]"
    unfolding unat_of_nat by (simp del: le_nat.simps)
  then have "uint (of_nat (le_nat [a, b, c, d]) :: u32) = int (le_nat [a, b, c, d])" by (metis uint_nat)
  also have "\<dots> = uint a + 256 * uint b + 65536 * uint c + 16777216 * uint d" by simp
  finally show ?thesis .
qed

lemma uint_byte: "0 \<le> uint (b :: byte)" "uint b < 256"
  using uint_bounded [of b] by simp_all

lemma word_test_sound:
  assumes "a = 0 \<or> b = 0 \<or> c = 0 \<or> d = (0 :: byte)"
  shows "word_may_have_zero (of_nat (le_nat [a, b, c, d]))"
proof -
  let ?x = "of_nat (le_nat [a, b, c, d]) :: u32"
  note x = bytes_u32 [of a b c d]
  note range = uint_byte [of a] uint_byte [of b] uint_byte [of c] uint_byte [of d]
  consider "uint a = 0" | "uint b = 0" | "uint c = 0" | "uint d = 0" using assms by auto
  then show ?thesis
  proof cases
    case 1
    let ?h = "uint b + 256 * uint c + 65536 * uint d"
    show ?thesis
    proof (rule word_zero_bit [of 7])
      show "odd ((uint ?x - 0x01010101) div 2 ^ 7)"
        unfolding x using 1 range by (intro odd_div_int [of _ _ "?h - 65794" 127]) simp_all
      show "even (uint ?x div 2 ^ 7)"
        unfolding x using 1 range by (intro even_div_int [of _ _ "?h" 0]) simp_all
    qed simp_all
  next
    case 2
    let ?h = "uint c + 256 * uint d"
    show ?thesis
    proof (rule word_zero_bit [of 15])
      show "odd ((uint ?x - 0x01010101) div 2 ^ 15)"
        unfolding x using 2 range by (intro odd_div_int [of _ _ "?h - 258" "uint a - 257 + 32768"]) simp_all
      show "even (uint ?x div 2 ^ 15)"
        unfolding x using 2 range by (intro even_div_int [of _ _ "?h" "uint a"]) simp_all
    qed simp_all
  next
    case 3
    show ?thesis
    proof (rule word_zero_bit [of 23])
      show "odd ((uint ?x - 0x01010101) div 2 ^ 23)"
        unfolding x using 3 range
        by (intro odd_div_int [of _ _ "uint d - 2" "uint a + 256 * uint b - 65793 + 8388608"]) simp_all
      show "even (uint ?x div 2 ^ 23)"
        unfolding x using 3 range by (intro even_div_int [of _ _ "uint d" "uint a + 256 * uint b"]) simp_all
    qed simp_all
  next
    case 4
    show ?thesis
    proof (rule word_zero_bit [of 31])
      show "odd ((uint ?x - 0x01010101) div 2 ^ 31)"
        unfolding x using 4 range
        by (intro odd_div_int [of _ _ "-1" "uint a + 256 * uint b + 65536 * uint c - 16843009 + 2147483648"]) simp_all
      show "even (uint ?x div 2 ^ 31)"
        unfolding x using 4 range
        by (intro even_div_int [of _ _ 0 "uint a + 256 * uint b + 65536 * uint c"]) simp_all
    qed simp_all
  qed
qed

lemma scan_word_scans:
  assumes "p + 6 < length m"
  shows "scan_word m p = Some (List.find (code_at m) [p, p + 1, p + 2, p + 3])"
  using assms unfolding scan_word_def byte_is_def
  by (cases "m ! (p + 1) = 0"; cases "m ! (p + 3) = 0"; cases "m ! (p + 2) = 0"; cases "m ! p = 0")
    (auto simp: code_at_def eval_nat_numeral)

lemma read_four: "p + 4 \<le> length m \<Longrightarrow> mem_read p 4 m = Some [m ! p, m ! (p + 1), m ! (p + 2), m ! (p + 3)]"
  unfolding mem_read_Some
  by (intro conjI nth_equalityI) (auto simp: eval_nat_numeral less_Suc_eq)

lemma scan_words_scans:
  "\<exists>r. scan_words m p = Some r \<and> scanned m p r \<and> (\<forall>q. r = Inr q \<longrightarrow> q + 6 \<ge> length m)"
proof (induction m p rule: scan_words.induct)
  case (1 m p)
  show ?case
  proof (cases "p + 6 < length m")
    case True
    let ?x = "of_nat (le_nat [m ! p, m ! (p + 1), m ! (p + 2), m ! (p + 3)]) :: u32"
    let ?hit = "List.find (code_at m) [p, p + 1, p + 2, p + 3]"
    have x: "mem_read p 4 m = Some [m ! p, m ! (p + 1), m ! (p + 2), m ! (p + 3)]" using True by (intro read_four) simp
    have "\<not> word_may_have_zero ?x \<Longrightarrow> ?hit = None"
      using word_test_sound [of "m ! p" "m ! (p + 1)" "m ! (p + 2)" "m ! (p + 3)"] by (auto simp: code_at_def)
    then have hit: "(if word_may_have_zero ?x then scan_word m p else Some None) = Some ?hit"
      using scan_word_scans [OF True] by simp
    show ?thesis
    proof (cases ?hit)
      case None
      then have "\<forall>i. p \<le> i \<and> i < p + 4 \<longrightarrow> \<not> code_at m i"
        by (auto simp: find_None_iff less_Suc_eq eval_nat_numeral le_less split: if_splits)
      moreover obtain r where r: "scan_words m (p + 4) = Some r" "scanned m (p + 4) r" "\<forall>q. r = Inr q \<longrightarrow> q + 6 \<ge> length m"
        using 1 [OF True x hit None] by blast
      ultimately show ?thesis using scanned_later [OF r(2), of p] True x hit None
        by (intro exI [of _ r]) (simp add: scan_words.simps)
    next
      case (Some q)
      then have "scanned m p (Inl q)"
        unfolding scanned_def by (auto simp: eval_nat_numeral less_Suc_eq le_less split: if_splits)
      with True x hit Some show ?thesis by (intro exI [of _ "Inl q"]) (simp add: scan_words.simps)
    qed
  next
    case False
    then show ?thesis by (intro exI [of _ "Inr p"]) (auto simp: scan_words.simps scanned_def)
  qed
qed

lemma scanned_hit: "scanned m p (Inl q) \<Longrightarrow> naive_scan m p = q"
  by (auto simp: scanned_def intro: naive_scan_hit)

lemma internal_is_scan: "ff_avc_find_startcode_internal al m p = Some (naive_scan m p)"
proof -
  obtain r1 where r1: "scan_bytes m (p + 4 - (al + p) mod 4) p = Some r1" "scanned m p r1"
    using scan_bytes_scans by blast
  show ?thesis
  proof (cases r1)
    case (Inl q)
    then show ?thesis using r1 scanned_hit by (simp add: ff_avc_find_startcode_internal_def Let_def)
  next
    case (Inr p1)
    obtain r2 where r2: "scan_words m p1 = Some r2" "scanned m p1 r2" using scan_words_scans by blast
    have s2: "scanned m p r2" using r1(2) Inr scanned_later [OF r2(2)] by (simp add: scanned_def)
    show ?thesis
    proof (cases r2)
      case (Inl q)
      then show ?thesis using r1 r2 s2 Inr scanned_hit by (simp add: ff_avc_find_startcode_internal_def Let_def)
    next
      case r2p: (Inr p2)
      obtain r3 where r3: "scan_bytes m (length m) p2 = Some r3" "scanned m p2 r3"
        "\<forall>q. r3 = Inr q \<longrightarrow> q \<ge> length m \<or> q + 3 \<ge> length m" using scan_bytes_scans by blast
      have s3: "scanned m p r3" using s2 r2p scanned_later [OF r3(2)] by (simp add: scanned_def)
      show ?thesis
      proof (cases r3)
        case (Inl q)
        then show ?thesis using r1 r2 r3 s3 Inr r2p scanned_hit
          by (simp add: ff_avc_find_startcode_internal_def Let_def)
      next
        case r3p: (Inr p3)
        have "\<forall>i \<ge> p. \<not> code_at m i"
          using s3 r3(3) r3p unfolding scanned_def code_at_def by (auto simp: not_less dest: spec)
        then have "naive_scan m p = length m" by (rule naive_scan_end)
        then show ?thesis using r1 r2 r3 Inr r2p r3p
          by (simp add: ff_avc_find_startcode_internal_def Let_def)
      qed
    qed
  qed
qed

text \<open>C9: the search for a start code, with its word test and its address arithmetic, is the obvious scan on
  every buffer, at every alignment, and reads no byte outside of the buffer.\<close>

theorem find_startcode_is_scan: "obs_nal_find_startcode al m p = Some (naive_startcode m p)"
proof -
  have "p < naive_scan m p \<Longrightarrow> naive_scan m p < length m \<Longrightarrow> naive_scan m p - 1 < length m" by linarith
  then show ?thesis
    by (simp add: obs_nal_find_startcode_def internal_is_scan naive_startcode_def Let_def byte_is_def)
qed

end
