(* ===== verification/Nal_Units.thy ===== *)
theory Nal_Units
  imports Nal
begin

text \<open>
  The loop over the units of an Annex B stream that every function of \<open>libobs/obs-avc.c\<close> and
  \<open>libobs/obs-hevc.c\<close> has, and what it does on a stream made of units: the functions' own lemmas
  are about lists of units.
\<close>

section \<open>The loop\<close>

text \<open>\<open>while (nal_start < end && !*(nal_start++));\<close>\<close>

function nal_skip :: "byte list \<Rightarrow> nat \<Rightarrow> nat" where
  "nal_skip m i = (if i < length m then (if m ! i = 0 then nal_skip m (i + 1) else i + 1) else i)"
  by pat_completeness auto

termination nal_skip
  by (relation "measure (\<lambda>(m, i). length m - i)") auto

declare nal_skip.simps [simp del]

lemma nal_skip_greater: "i < length m \<Longrightarrow> i < nal_skip m i \<and> nal_skip m i \<le> length m"
proof (induction m i rule: nal_skip.induct)
  case (1 m i)
  then show ?case by (cases "i + 1 < length m") (auto simp: nal_skip.simps [of m i] nal_skip.simps [of m "Suc i"])
qed

lemma nal_skip_end: "length m \<le> i \<Longrightarrow> nal_skip m i = i"
  by (simp add: nal_skip.simps)

lemma naive_scan_bounds: "p \<le> length m \<Longrightarrow> p \<le> naive_scan m p \<and> naive_scan m p \<le> length m"
  by (auto simp: naive_scan_def find_Some_iff split: option.splits)

lemma naive_startcode_bounds: "p \<le> length m \<Longrightarrow> p \<le> naive_startcode m p \<and> naive_startcode m p \<le> length m"
  using naive_scan_bounds [of p m] by (auto simp: naive_startcode_def Let_def)

text \<open>
  \<open>enter\<close> is what a function does with the first byte of a unit, which may end the loop (\<^const>\<open>Inl\<close>);
  \<open>leave\<close> what it does when it knows the end of the unit: it gets the place of the start code, the first
  byte, and the limits of the unit.
\<close>

function nal_walk ::
    "(byte \<Rightarrow> 's \<Rightarrow> 's + 's) \<Rightarrow> (nat \<Rightarrow> byte \<Rightarrow> nat \<Rightarrow> nat \<Rightarrow> 's \<Rightarrow> 's option) \<Rightarrow> nat \<Rightarrow> byte list \<Rightarrow> nat \<Rightarrow> 's \<Rightarrow> 's option"
where
  "nal_walk enter leave al m i st =
     (let s = nal_skip m i
      in if s = length m then Some st
         else if s > length m then None
         else (case enter (m ! s) st of
             Inl st \<Rightarrow> Some st
           | Inr st \<Rightarrow>
               (case obs_nal_find_startcode al m s of
                  None \<Rightarrow> None
                | Some e \<Rightarrow>
                    (case leave i (m ! s) s e st of None \<Rightarrow> None | Some st \<Rightarrow> nal_walk enter leave al m e st))))"
  by pat_completeness auto

termination nal_walk
proof (relation "measure (\<lambda>(enter, leave, al, m, i, st). length m - i)")
  fix enter leave al m i st s st1 e st2
  assume s: "s = nal_skip m i" "s \<noteq> length m" "\<not> length m < s"
    and e: "obs_nal_find_startcode al m s = Some e"
  have i: "i < length m" using s nal_skip_end [of m i] by (cases "i < length m") auto
  then have "i < s" "s \<le> e" "e \<le> length m"
    using s e nal_skip_greater [OF i] naive_startcode_bounds [of s m] by (auto simp: find_startcode_is_scan)
  with i show "((enter, leave, al, m, e, st2), (enter, leave, al, m, i, st)) \<in>
      measure (\<lambda>(enter, leave, al, m, i, st). length m - i)" by simp
qed simp

declare nal_walk.simps [simp del]

definition nal_loop ::
    "(byte \<Rightarrow> 's \<Rightarrow> 's + 's) \<Rightarrow> (nat \<Rightarrow> byte \<Rightarrow> nat \<Rightarrow> nat \<Rightarrow> 's \<Rightarrow> 's option) \<Rightarrow> nat \<Rightarrow> byte list \<Rightarrow> 's \<Rightarrow> 's option"
where
  "nal_loop enter leave al m st =
     Option.bind (obs_nal_find_startcode al m 0) (\<lambda>i. nal_walk enter leave al m i st)"

section \<open>Streams made of units\<close>

text \<open>A unit with its start code of three or four bytes.\<close>

type_synonym nal_unit = "bool \<times> byte list"

definition startcode :: "bool \<Rightarrow> byte list" where
  "startcode four = (if four then [0, 0, 0, 1] else [0, 0, 1])"

definition unit_bytes :: "nal_unit \<Rightarrow> byte list" where
  "unit_bytes u = startcode (fst u) @ snd u"

definition annexb :: "nal_unit list \<Rightarrow> byte list" where
  "annexb us = concat (map unit_bytes us)"

text \<open>What the standard asks of a unit: no start code within it, no zero byte at its end.\<close>

definition nal_ok :: "byte list \<Rightarrow> bool" where
  "nal_ok n \<longleftrightarrow> n \<noteq> [] \<and> last n \<noteq> 0 \<and> (\<forall>i. i + 2 < length n \<longrightarrow> \<not> (n ! i = 0 \<and> n ! (i + 1) = 0 \<and> n ! (i + 2) = 1))"

lemma all_nat_split: "(\<forall>i. P i) = (P 0 \<and> (\<forall>i. P (Suc i)))"
  by (metis not0_implies_Suc)

fun no_startcode :: "byte list \<Rightarrow> bool" where
  "no_startcode (x # y # z # n) = (\<not> (x = 0 \<and> y = 0 \<and> z = 1) \<and> no_startcode (y # z # n))"
| "no_startcode n = True"

lemma nal_ok_simps: "nal_ok n \<longleftrightarrow> n \<noteq> [] \<and> last n \<noteq> 0 \<and> no_startcode n"
proof -
  have "(\<forall>i. i + 2 < length n \<longrightarrow> \<not> (n ! i = 0 \<and> n ! (i + 1) = 0 \<and> n ! (i + 2) = 1)) = no_startcode n"
  proof (induction n rule: no_startcode.induct)
    case (1 x y z n)
    show ?case unfolding no_startcode.simps 1 [symmetric] by (subst all_nat_split) simp
  qed auto
  then show ?thesis by (simp add: nal_ok_def)
qed

fun unit_fold :: "(byte \<Rightarrow> 's \<Rightarrow> 's + 's) \<Rightarrow> (nal_unit \<Rightarrow> 's \<Rightarrow> 's option) \<Rightarrow> nal_unit list \<Rightarrow> 's \<Rightarrow> 's option" where
  "unit_fold enter leave [] st = Some st"
| "unit_fold enter leave (u # us) st =
     (case enter (hd (snd u)) st of Inl st \<Rightarrow> Some st | Inr st \<Rightarrow> Option.bind (leave u st) (unit_fold enter leave us))"

lemma annexb_simps [simp]: "annexb [] = []" "annexb (u # us) = unit_bytes u @ annexb us"
  by (simp_all add: annexb_def)

lemma skip_startcode: "nal_skip (pre @ startcode f @ n @ post) (length pre) = length pre + length (startcode f)"
  by (cases f) (simp_all add: startcode_def nal_skip.simps nth_append)

text \<open>No start code begins within a unit, whatever follows it.\<close>

lemma no_code_in_unit:
  assumes "nal_ok n" "rest = [] \<or> (\<exists>r. rest = 0 # 0 # r)" "i < length n"
  shows "\<not> code_at (pre @ n @ rest) (length pre + i)"
proof
  let ?m = "pre @ n @ rest"
  assume c: "code_at ?m (length pre + i)"
  have at: "?m ! (length pre + k) = (n @ rest) ! k" for k by simp
  have c: "(n @ rest) ! i = 0" "(n @ rest) ! (i + 1) = 0" "(n @ rest) ! (i + 2) = 1" "i + 3 < length (n @ rest)"
    using c unfolding code_at_def add.assoc at by simp_all
  consider "i + 2 < length n" | "i + 1 = length n - 1" "i + 2 = length n" | "i = length n - 1" "i + 1 = length n"
    using assms(3) by linarith
  then show False
  proof cases
    case 1
    then show False using c assms(1) by (auto simp: nal_ok_def nth_append)
  next
    case 2
    then have "n ! (length n - 1) = 0" using c(2) assms(1) by (simp add: nth_append)
    then show False using assms(1) by (auto simp: nal_ok_def last_conv_nth)
  next
    case 3
    then have "n ! (length n - 1) = 0" using c(1) assms(1,3) by (simp add: nth_append)
    then show False using assms(1) by (auto simp: nal_ok_def last_conv_nth)
  qed
qed

lemma annexb_starts: "annexb us = [] \<or> (\<exists>r. annexb us = 0 # 0 # r)"
  by (cases us) (auto simp: unit_bytes_def startcode_def)

lemma code_here:
  assumes "n \<noteq> []" "m = pre @ unit_bytes (f, n) @ rest" "q = length pre + (if f then 1 else 0)"
  shows "code_at m q" "f \<Longrightarrow> \<not> code_at m (length pre)"
  using assms by (auto simp: code_at_def unit_bytes_def startcode_def nth_append numeral_eq_Suc neq_Nil_conv)

lemma find_from_unit:
  assumes "\<forall>u \<in> set us. nal_ok (snd u)" "nal_ok n" "m = pre @ n @ annexb us"
  shows "obs_nal_find_startcode al m (length pre) = Some (length pre + length n)"
proof -
  have none: "\<not> code_at m i" if "length pre \<le> i" "i < length pre + length n" for i
    using no_code_in_unit [OF assms(2) annexb_starts [of us], of "i - length pre" pre] that assms(3) by simp
  have n: "0 < length n" "n ! (length n - 1) \<noteq> 0" using assms(2) by (auto simp: nal_ok_def last_conv_nth)
  then have "m ! (length pre + (length n - 1)) \<noteq> 0" using assms(3) by (simp add: nth_append)
  moreover have "length pre + length n - 1 = length pre + (length n - 1)" using n(1) by linarith
  ultimately have last: "m ! (length pre + length n - 1) \<noteq> 0" "0 < length n" using n(1) by simp_all
  show ?thesis
  proof (cases us)
    case Nil
    then have "naive_scan m (length pre) = length m"
      using none assms(3) by (intro naive_scan_end allI impI) (metis add_lessD1 annexb_simps(1) append_Nil2 code_at_def length_append not_le_imp_less)
    then show ?thesis using Nil assms(3)
      by (simp add: find_startcode_is_scan naive_startcode_def)
  next
    case (Cons u us')
    obtain f n' where u: "u = (f, n')" by (cases u)
    let ?q = "length (pre @ n) + (if f then 1 else 0)"
    have m: "m = (pre @ n) @ unit_bytes (f, n') @ annexb us'" using assms(3) Cons u by simp
    have n': "n' \<noteq> []" using assms(1) Cons u by (auto simp: nal_ok_def)
    have q: "naive_scan m (length pre) = ?q"
    proof (rule naive_scan_hit)
      show "code_at m ?q" using code_here(1) [OF n' m refl] .
      show "\<forall>i. length pre \<le> i \<and> i < ?q \<longrightarrow> \<not> code_at m i"
        using none code_here(2) [OF n' m refl] by (auto simp: less_Suc_eq split: if_splits)
    qed simp
    have "?q < length m" using code_here(1) [OF n' m refl] by (auto simp: code_at_def)
    moreover have "f \<Longrightarrow> m ! (length pre + length n) = 0"
      using m by (simp add: unit_bytes_def startcode_def nth_append)
    ultimately show ?thesis using q last
      by (auto simp: find_startcode_is_scan naive_startcode_def Let_def split: if_splits)
  qed
qed

text \<open>One round of the loop on a stream of units; the loop over the stream is the fold over its units.\<close>

lemma nal_walk_step:
  assumes "\<forall>u \<in> set (u # us). nal_ok (snd u)" "m = pre @ unit_bytes u @ annexb us"
  shows "nal_walk enter leave al m (length pre) st =
    (case enter (hd (snd u)) st of Inl st \<Rightarrow> Some st
     | Inr st \<Rightarrow> (case leave (length pre) (hd (snd u)) (nal_skip m (length pre)) (length pre + length (unit_bytes u)) st of
         None \<Rightarrow> None | Some st \<Rightarrow> nal_walk enter leave al m (length pre + length (unit_bytes u)) st))"
    and "nal_skip m (length pre) = length pre + length (startcode (fst u))"
proof -
  obtain f n where u: "u = (f, n)" by (cases u)
  have ok: "nal_ok n" "n \<noteq> []" using assms(1) u by (auto simp: nal_ok_def)
  let ?s = "length pre + length (startcode f)"
  have m: "m = pre @ startcode f @ n @ annexb us" "m = (pre @ startcode f) @ n @ annexb us"
    using assms(2) u by (simp_all add: unit_bytes_def)
  show s: "nal_skip m (length pre) = length pre + length (startcode (fst u))"
    using skip_startcode [of pre f n "annexb us"] m(1) u by simp
  have inside: "?s < length m" "m ! ?s = hd n" using m(2) ok(2) by (simp_all add: nth_append hd_conv_nth)
  have e: "obs_nal_find_startcode al m ?s = Some (length pre + length (unit_bytes u))"
    using find_from_unit [of us n m "pre @ startcode f"] assms(1) ok(1) m(2) u by (simp add: unit_bytes_def)
  show "nal_walk enter leave al m (length pre) st =
    (case enter (hd (snd u)) st of Inl st \<Rightarrow> Some st
     | Inr st \<Rightarrow> (case leave (length pre) (hd (snd u)) (nal_skip m (length pre)) (length pre + length (unit_bytes u)) st of
         None \<Rightarrow> None | Some st \<Rightarrow> nal_walk enter leave al m (length pre + length (unit_bytes u)) st))"
    using inside e s u by (subst nal_walk.simps) (auto simp: Let_def split: sum.split)
qed

lemma nal_walk_units:
  assumes leave: "\<And>pre post u st. m = pre @ unit_bytes u @ post \<Longrightarrow> nal_ok (snd u) \<Longrightarrow>
      leave (length pre) (hd (snd u)) (length pre + length (startcode (fst u))) (length pre + length (unit_bytes u)) st = leave' u st"
  shows "\<forall>u \<in> set us. nal_ok (snd u) \<Longrightarrow> m = pre @ annexb us \<Longrightarrow>
    nal_walk enter leave al m (length pre) st = unit_fold enter leave' us st"
proof (induction us arbitrary: pre st)
  case Nil
  then show ?case by (simp add: nal_walk.simps nal_skip_end)
next
  case (Cons u us)
  have m: "m = pre @ unit_bytes u @ annexb us" "m = (pre @ unit_bytes u) @ annexb us" using Cons.prems(2) by simp_all
  have IH: "nal_walk enter leave al m (length pre + length (unit_bytes u)) st = unit_fold enter leave' us st" for st
    using Cons.IH [OF _ m(2)] Cons.prems(1) by simp
  show ?case
    unfolding nal_walk_step [OF Cons.prems(1) m(1)] leave [OF m(1) bspec [OF Cons.prems(1), of u, simplified]] IH unit_fold.simps
    by (auto split: sum.splits option.splits)
qed

lemma find_first_unit:
  assumes "\<forall>u \<in> set us. nal_ok (snd u)"
  shows "obs_nal_find_startcode al (annexb us) 0 = Some 0"
proof (cases us)
  case Nil
  then show ?thesis by (simp add: find_startcode_is_scan naive_startcode_def naive_scan_def)
next
  case (Cons u us')
  obtain f n where u: "u = (f, n)" by (cases u)
  have m: "annexb us = [] @ unit_bytes (f, n) @ annexb us'" using Cons u by simp
  have n: "n \<noteq> []" using assms Cons u by (auto simp: nal_ok_def)
  have "naive_scan (annexb us) 0 = (if f then 1 else 0)"
    using code_here [OF n m refl] by (intro naive_scan_hit) auto
  moreover have "annexb us ! 0 = 0" using m by (simp add: unit_bytes_def startcode_def)
  ultimately show ?thesis using code_here(1) [OF n m refl]
    by (auto simp: find_startcode_is_scan naive_startcode_def Let_def code_at_def)
qed

lemma nal_loop_units:
  assumes "\<And>pre post u st. m = pre @ unit_bytes u @ post \<Longrightarrow> nal_ok (snd u) \<Longrightarrow>
      leave (length pre) (hd (snd u)) (length pre + length (startcode (fst u))) (length pre + length (unit_bytes u)) st = leave' u st"
    and us: "\<forall>u \<in> set us. nal_ok (snd u)" "m = annexb us"
  shows "nal_loop enter leave al m st = unit_fold enter leave' us st"
proof -
  have "obs_nal_find_startcode al m 0 = Some 0" using find_first_unit [OF us(1)] us(2) by simp
  moreover have "nal_walk enter leave al m (length ([] :: byte list)) st = unit_fold enter leave' us st"
  proof (rule nal_walk_units [where us = us])
    show "leave (length pre) (hd (snd u)) (length pre + length (startcode (fst u))) (length pre + length (unit_bytes u)) st = leave' u st"
      if "m = pre @ unit_bytes u @ post" "nal_ok (snd u)" for pre post u st
      using that by (rule assms(1))
  qed (use us in simp_all)
  ultimately show ?thesis by (simp add: nal_loop_def)
qed

end
