(* ===== verification/Serializer.thy ===== *)
theory Serializer
  imports Darray_List
begin

text \<open>
  The serializer that writes to a growing array: \<open>libobs/util/array-serializer.c\<close> behind the
  functions of \<open>libobs/util/serializer.h\<close>. The function pointers of the structure are those that
  \<open>array_output_serializer_init\<close> sets; a failed access is \<^term>\<open>None\<close>. Floats are not modelled.
\<close>

section \<open>The array output\<close>

record array_output_data =
  ao_bytes :: "byte darray"
  ao_cur_pos :: nat

definition array_output_serializer_init :: "array_output_data" where
  "array_output_serializer_init = \<lparr>ao_bytes = darray_init, ao_cur_pos = 0\<rparr>"

definition array_output_serializer_free :: "array_output_data \<Rightarrow> array_output_data" where
  "array_output_serializer_free out = out\<lparr>ao_bytes := darray_free (ao_bytes out)\<rparr>"

definition array_output_serializer_reset :: "array_output_data \<Rightarrow> array_output_data" where
  "array_output_serializer_reset out = out\<lparr>ao_bytes := darray_clear (ao_bytes out), ao_cur_pos := 0\<rparr>"

definition array_output_write :: "array_output_data \<Rightarrow> byte list \<Rightarrow> (array_output_data \<times> nat) option" where
  "array_output_write out data =
     (let size = length data in
      if ao_cur_pos out < da_num (ao_bytes out)
      then do {
        let new_size = ao_cur_pos out + size;
        d \<leftarrow> (if new_size > da_num (ao_bytes out)
              then map_option (\<lambda>d. d\<lparr>da_num := new_size\<rparr>) (darray_ensure_capacity (ao_bytes out) new_size)
              else Some (ao_bytes out));
        d \<leftarrow> da_write (ao_cur_pos out) (map Some data) d;
        Some (out\<lparr>ao_bytes := d, ao_cur_pos := ao_cur_pos out + size\<rparr>, size)
      }
      else do {
        (d, _) \<leftarrow> darray_push_back_array (ao_bytes out) (map Some data) size;
        Some (out\<lparr>ao_bytes := d, ao_cur_pos := ao_cur_pos out + size\<rparr>, size)
      })"

definition array_output_get_pos :: "array_output_data \<Rightarrow> int" where
  "array_output_get_pos out = int (da_num (ao_bytes out))"

datatype serialize_seek_type = SERIALIZE_SEEK_START | SERIALIZE_SEEK_CURRENT | SERIALIZE_SEEK_END

text \<open>The new position is a \<open>size_t\<close>: a negative sum wraps around.\<close>

definition array_output_seek :: "array_output_data \<Rightarrow> int \<Rightarrow> serialize_seek_type \<Rightarrow> array_output_data \<times> int" where
  "array_output_seek out offset seek_type =
     (let new_pos = (case seek_type of
          SERIALIZE_SEEK_START \<Rightarrow> nat (offset mod 2 ^ 64)
        | SERIALIZE_SEEK_CURRENT \<Rightarrow> nat ((int (ao_cur_pos out) + offset) mod 2 ^ 64)
        | SERIALIZE_SEEK_END \<Rightarrow> nat ((int (da_num (ao_bytes out)) - offset) mod 2 ^ 64))
      in if new_pos > da_num (ao_bytes out) then (out, -1)
         else (out\<lparr>ao_cur_pos := new_pos\<rparr>, int new_pos))"

section \<open>The functions of the serializer\<close>

type_synonym ser = array_output_data

definition s_write :: "ser \<Rightarrow> byte list \<Rightarrow> (ser \<times> nat) option" where
  "s_write s data = (if data \<noteq> [] then array_output_write s data else Some (s, 0))"

definition serialize :: "ser \<Rightarrow> byte list \<Rightarrow> (ser \<times> nat) option" where
  "serialize s data = array_output_write s data"

definition s_w8 :: "byte \<Rightarrow> ser \<Rightarrow> ser option" where
  "s_w8 u8 s = map_option fst (s_write s [u8])"

definition s_wl16 :: "u16 \<Rightarrow> ser \<Rightarrow> ser option" where
  "s_wl16 v s = Option.bind (s_w8 (ucast v) s) (s_w8 (ucast (drop_bit 8 v)))"

definition s_wl24 :: "u32 \<Rightarrow> ser \<Rightarrow> ser option" where
  "s_wl24 v s = Option.bind (s_w8 (ucast v) s) (s_wl16 (ucast (drop_bit 8 v)))"

definition s_wl32 :: "u32 \<Rightarrow> ser \<Rightarrow> ser option" where
  "s_wl32 v s = Option.bind (s_wl16 (ucast v) s) (s_wl16 (ucast (drop_bit 16 v)))"

definition s_wl64 :: "u64 \<Rightarrow> ser \<Rightarrow> ser option" where
  "s_wl64 v s = Option.bind (s_wl32 (ucast v) s) (s_wl32 (ucast (drop_bit 32 v)))"

definition s_wb16 :: "u16 \<Rightarrow> ser \<Rightarrow> ser option" where
  "s_wb16 v s = Option.bind (s_w8 (ucast (drop_bit 8 v)) s) (s_w8 (ucast v))"

definition s_wb24 :: "u32 \<Rightarrow> ser \<Rightarrow> ser option" where
  "s_wb24 v s = Option.bind (s_wb16 (ucast (drop_bit 8 v)) s) (s_w8 (ucast v))"

definition s_wb32 :: "u32 \<Rightarrow> ser \<Rightarrow> ser option" where
  "s_wb32 v s = Option.bind (s_wb16 (ucast (drop_bit 16 v)) s) (s_wb16 (ucast v))"

definition s_wb64 :: "u64 \<Rightarrow> ser \<Rightarrow> ser option" where
  "s_wb64 v s = Option.bind (s_wb32 (ucast (drop_bit 32 v)) s) (s_wb32 (ucast v))"

section \<open>A file in memory\<close>

text \<open>What the array output stands for: some bytes and a position in them.\<close>

definition ser_repr :: "ser \<Rightarrow> byte list \<times> nat \<Rightarrow> bool" where
  "ser_repr s f \<longleftrightarrow> da_repr (ao_bytes s) (fst f) \<and> ao_cur_pos s = snd f \<and> snd f \<le> length (fst f)"

definition file_put :: "byte list \<Rightarrow> byte list \<times> nat \<Rightarrow> byte list \<times> nat" where
  "file_put data f = (take (snd f) (fst f) @ data @ drop (snd f + length data) (fst f), snd f + length data)"

lemma ser_repr_init: "ser_repr array_output_serializer_init ([], 0)"
  by (simp add: ser_repr_def array_output_serializer_init_def da_repr_init)

lemma da_overwrite:
  assumes "da_repr d bs" "p < length bs" "d' = d \<and> p + length data \<le> length bs \<or>
    length bs < p + length data \<and> (\<exists>e. darray_ensure_capacity d (p + length data) = Some e \<and> d' = e\<lparr>da_num := p + length data\<rparr>)"
  shows "\<exists>r. da_write p (map Some data) d' = Some r \<and> da_repr r (take p bs @ data @ drop (p + length data) bs)"
  using assms(3)
proof (elim disjE conjE exE)
  assume d: "d' = d" "p + length data \<le> length bs"
  obtain junk where j: "da_array d = map Some bs @ junk" "da_num d = length bs" "da_capacity d = length bs + length junk"
    using assms(1) by (auto simp: da_repr_def)
  have bs: "bs = take p bs @ take (length data) (drop p bs) @ drop (p + length data) bs"
    by (metis add.commute append_take_drop_id drop_drop)
  have a: "da_array d = map Some (take p bs) @ map Some (take (length data) (drop p bs)) @ (map Some (drop (p + length data) bs) @ junk)"
    using arg_cong [OF bs, of "map Some"] by (simp add: j(1))
  have "da_write p (map Some data) d =
      Some (d\<lparr>da_array := map Some (take p bs) @ map Some data @ (map Some (drop (p + length data) bs) @ junk)\<rparr>)"
    using d assms(2) by (intro da_write_at [OF a]) auto
  then show ?thesis using d j assms(2) by (auto simp: da_repr_def)
next
  fix e assume e: "length bs < p + length data" "darray_ensure_capacity d (p + length data) = Some e"
    "d' = e\<lparr>da_num := p + length data\<rparr>"
  define k where "k = p + length data - length bs"
  have n: "p + length data = length bs + k" using e(1) by (simp add: k_def)
  obtain j1 j2 where g: "e = d\<lparr>da_num := da_num d, da_array := map Some bs @ j1 @ j2, da_capacity := p + length data + length j2\<rparr>"
    "length j1 = k"
    using da_grow [OF assms(1) n, of "da_num d"] e(2) by auto
  have a: "da_array d' = map Some (take p bs) @ (map Some (drop p bs) @ j1) @ j2"
    by (simp add: e(3) g(1)) (metis append_assoc append_take_drop_id map_append)
  have "da_write p (map Some data) d' = Some (d'\<lparr>da_array := map Some (take p bs) @ map Some data @ j2\<rparr>)"
    using assms(2) n g(2) by (intro da_write_at [OF a]) auto
  then show ?thesis using e(1,3) g(1) assms(2) by (auto simp: da_repr_def)
qed

lemma ser_write:
  assumes "ser_repr s f"
  shows "\<exists>s'. array_output_write s data = Some (s', length data) \<and> ser_repr s' (file_put data f)"
proof -
  obtain bs p where f: "f = (bs, p)" by (cases f)
  have r: "da_repr (ao_bytes s) bs" "ao_cur_pos s = p" "p \<le> length bs" using assms by (auto simp: ser_repr_def f)
  have n: "da_num (ao_bytes s) = length bs" using da_repr_num [OF r(1)] .
  show ?thesis
  proof (cases "p < length bs")
    case True
    obtain more where m: "darray_ensure_capacity (ao_bytes s) (p + length data) = Some more"
      using da_ensure [of "ao_bytes s" "p + length data"] r(1) by (auto simp: da_repr_def)
    show ?thesis
    proof (cases "p + length data > length bs")
      case big: True
      then obtain r' where "da_write p (map Some data) (more\<lparr>da_num := p + length data\<rparr>) = Some r'"
        "da_repr r' (take p bs @ data @ drop (p + length data) bs)"
        using da_overwrite [OF r(1) True, of "more\<lparr>da_num := p + length data\<rparr>" data] m by blast
      then show ?thesis using True big m n r
        by (simp add: array_output_write_def Let_def ser_repr_def file_put_def f)
    next
      case small: False
      then obtain r' where "da_write p (map Some data) (ao_bytes s) = Some r'"
        "da_repr r' (take p bs @ data @ drop (p + length data) bs)"
        using da_overwrite [OF r(1) True, of "ao_bytes s" data] by auto
      then show ?thesis using True small n r
        by (simp add: array_output_write_def Let_def ser_repr_def file_put_def f)
    qed
  next
    case False
    then show ?thesis using da_push_back_array [OF r(1), of data "[]"] n r
      by (auto simp: array_output_write_def Let_def ser_repr_def file_put_def f)
  qed
qed

lemma ser_write_opt:
  assumes "ser_repr s f"
  shows "\<exists>s'. s_write s data = Some (s', length data) \<and> ser_repr s' (file_put data f)"
  using ser_write [OF assms, of data] assms by (cases "data = []") (auto simp: s_write_def file_put_def)

lemma ser_w8: "ser_repr s f \<Longrightarrow> \<exists>s'. s_w8 b s = Some s' \<and> ser_repr s' (file_put [b] f)"
  using ser_write_opt [of s f "[b]"] by (auto simp: s_w8_def)

lemma file_put_put [simp]: "snd f \<le> length (fst f) \<Longrightarrow> file_put ys (file_put xs f) = file_put (xs @ ys) f"
  by (simp add: file_put_def min_def ac_simps)

text \<open>Writers that put some bytes.\<close>

definition puts :: "(ser \<Rightarrow> ser option) \<Rightarrow> byte list \<Rightarrow> bool" where
  "puts w xs \<longleftrightarrow> (\<forall>s f. ser_repr s f \<longrightarrow> (\<exists>s'. w s = Some s' \<and> ser_repr s' (file_put xs f)))"

lemma puts_w8: "puts (s_w8 b) [b]"
  using ser_w8 by (simp add: puts_def)

lemma puts_seq: "puts v xs \<Longrightarrow> puts w ys \<Longrightarrow> puts (\<lambda>s. Option.bind (v s) w) (xs @ ys)"
  unfolding puts_def
proof (intro allI impI)
  fix s f
  assume v: "\<forall>s f. ser_repr s f \<longrightarrow> (\<exists>s'. v s = Some s' \<and> ser_repr s' (file_put xs f))"
    and w: "\<forall>s f. ser_repr s f \<longrightarrow> (\<exists>s'. w s = Some s' \<and> ser_repr s' (file_put ys f))" and r: "ser_repr s f"
  obtain s1 where s1: "v s = Some s1" "ser_repr s1 (file_put xs f)" using v r by blast
  obtain s2 where "w s1 = Some s2" "ser_repr s2 (file_put ys (file_put xs f))" using w s1(2) by blast
  moreover have "snd f \<le> length (fst f)" using r by (simp add: ser_repr_def)
  ultimately show "\<exists>s'. Option.bind (v s) w = Some s' \<and> ser_repr s' (file_put (xs @ ys) f)" using s1 by simp
qed

section \<open>Byte order\<close>

lemma byte_of: "ucast (drop_bit k w) = (of_nat (unat w div 2 ^ k) :: byte)" for w :: "'a::len word"
proof -
  have "unat (ucast (drop_bit k w) :: byte) = unat w div 2 ^ k mod 256"
    by (simp only: unsigned_ucast_eq take_bit_eq_mod unat_drop_bit_eq drop_bit_eq_div [of k "unat w"]) simp
  then show ?thesis by (intro word_unat_eq_iff [THEN iffD2]) (simp only: unat_byte)
qed

lemma byte_of_0: "ucast w = (of_nat (unat w) :: byte)" for w :: "'a::len word"
  using byte_of [of 0 w] by simp

lemma byte_of_short: "k < 9 \<Longrightarrow> (ucast (drop_bit k (ucast w :: u16)) :: byte) = ucast (drop_bit k w)" for w :: "'a::len word"
  by (rule bit_word_eqI) (simp add: bit_unsigned_iff bit_drop_bit_eq)

lemma byte_of_long: "k < 25 \<Longrightarrow> (ucast (drop_bit k (ucast w :: u32)) :: byte) = ucast (drop_bit k w)" for w :: "'a::len word"
  by (rule bit_word_eqI) (simp add: bit_unsigned_iff bit_drop_bit_eq)

lemmas byte_of_part = byte_of_short byte_of_short [of 0, simplified] byte_of_long byte_of_long [of 0, simplified]

lemma le_bytes_numeral: "le_bytes (numeral k) n = of_nat n # le_bytes (pred_numeral k) (n div 256)"
  by (simp only: numeral_eq_Suc [of k] le_bytes.simps)

lemma le_bytes_word:
  "le_bytes 2 (unat w) = [ucast w, ucast (drop_bit 8 w)]"
  "le_bytes 3 (unat w) = [ucast w, ucast (drop_bit 8 w), ucast (drop_bit 16 w)]"
  "le_bytes 4 (unat w) = [ucast w, ucast (drop_bit 8 w), ucast (drop_bit 16 w), ucast (drop_bit 24 w)]"
  "le_bytes 8 (unat w) = [ucast w, ucast (drop_bit 8 w), ucast (drop_bit 16 w), ucast (drop_bit 24 w),
     ucast (drop_bit 32 w), ucast (drop_bit 40 w), ucast (drop_bit 48 w), ucast (drop_bit 56 w)]"
  for w :: "'a::len word"
  by (simp_all add: le_bytes_numeral div_mult2_eq [symmetric] byte_of)

lemmas be_bytes_word = le_bytes_word [THEN arg_cong [of _ _ rev], folded be_bytes_def, simplified rev.simps append.simps]

lemma puts_l16: "puts (s_wl16 v) (le_bytes 2 (unat v))"
  using puts_seq [OF puts_w8 puts_w8, of "ucast v" "ucast (drop_bit 8 v)"]
  by (simp add: le_bytes_word s_wl16_def [abs_def])

lemma puts_l24: "puts (s_wl24 v) (le_bytes 3 (unat v))"
  using puts_seq [OF puts_w8 puts_l16, of "ucast v" "ucast (drop_bit 8 v)"]
  by (simp add: le_bytes_word byte_of_part s_wl24_def [abs_def])

lemma puts_l32: "puts (s_wl32 v) (le_bytes 4 (unat v))"
  using puts_seq [OF puts_l16 puts_l16, of "ucast v" "ucast (drop_bit 16 v)"]
  by (simp add: le_bytes_word byte_of_part s_wl32_def [abs_def])

lemma puts_l64: "puts (s_wl64 v) (le_bytes 8 (unat v))"
  using puts_seq [OF puts_l32 puts_l32, of "ucast v" "ucast (drop_bit 32 v)"]
  by (simp add: le_bytes_word byte_of_part s_wl64_def [abs_def])

lemma puts_b16: "puts (s_wb16 v) (be_bytes 2 (unat v))"
  using puts_seq [OF puts_w8 puts_w8, of "ucast (drop_bit 8 v)" "ucast v"]
  by (simp add: be_bytes_word s_wb16_def [abs_def])

lemma puts_b24: "puts (s_wb24 v) (be_bytes 3 (unat v))"
  using puts_seq [OF puts_b16 puts_w8, of "ucast (drop_bit 8 v)" "ucast v"]
  by (simp add: be_bytes_word byte_of_part s_wb24_def [abs_def])

lemma puts_b32: "puts (s_wb32 v) (be_bytes 4 (unat v))"
  using puts_seq [OF puts_b16 puts_b16, of "ucast (drop_bit 16 v)" "ucast v"]
  by (simp add: be_bytes_word byte_of_part s_wb32_def [abs_def])

lemma puts_b64: "puts (s_wb64 v) (be_bytes 8 (unat v))"
  using puts_seq [OF puts_b32 puts_b32, of "ucast (drop_bit 32 v)" "ucast v"]
  by (simp add: be_bytes_word byte_of_part s_wb64_def [abs_def])

section \<open>Programs\<close>

datatype ser_op =
    Ser_Write "byte list" | Ser_Byte byte
  | Ser_Little_16 u16 | Ser_Little_24 u32 | Ser_Little_32 u32 | Ser_Little_64 u64
  | Ser_Big_16 u16 | Ser_Big_24 u32 | Ser_Big_32 u32 | Ser_Big_64 u64
  | Ser_Seek int serialize_seek_type | Ser_Size | Ser_Reset

definition ser_done :: "ser option \<Rightarrow> (int \<times> ser) option" where
  "ser_done r = map_option (\<lambda>s. (0, s)) r"

fun ser_step :: "ser \<Rightarrow> ser_op \<Rightarrow> (int \<times> ser) option" where
  "ser_step s (Ser_Write xs) = map_option (\<lambda>(s, n). (int n, s)) (s_write s xs)"
| "ser_step s (Ser_Byte b) = ser_done (s_w8 b s)"
| "ser_step s (Ser_Little_16 v) = ser_done (s_wl16 v s)"
| "ser_step s (Ser_Little_24 v) = ser_done (s_wl24 v s)"
| "ser_step s (Ser_Little_32 v) = ser_done (s_wl32 v s)"
| "ser_step s (Ser_Little_64 v) = ser_done (s_wl64 v s)"
| "ser_step s (Ser_Big_16 v) = ser_done (s_wb16 v s)"
| "ser_step s (Ser_Big_24 v) = ser_done (s_wb24 v s)"
| "ser_step s (Ser_Big_32 v) = ser_done (s_wb32 v s)"
| "ser_step s (Ser_Big_64 v) = ser_done (s_wb64 v s)"
| "ser_step s (Ser_Seek k t) = (let (s', r) = array_output_seek s k t in Some (r, s'))"
| "ser_step s Ser_Size = Some (array_output_get_pos s, s)"
| "ser_step s Ser_Reset = Some (0, array_output_serializer_reset s)"

definition file_seek :: "nat \<Rightarrow> byte list \<times> nat \<Rightarrow> int \<times> (byte list \<times> nat)" where
  "file_seek n f = (if n \<le> length (fst f) then (int n, (fst f, n)) else (-1, f))"

fun file_step :: "byte list \<times> nat \<Rightarrow> ser_op \<Rightarrow> (int \<times> (byte list \<times> nat)) option" where
  "file_step f (Ser_Write xs) = Some (int (length xs), file_put xs f)"
| "file_step f (Ser_Byte b) = Some (0, file_put [b] f)"
| "file_step f (Ser_Little_16 v) = Some (0, file_put (le_bytes 2 (unat v)) f)"
| "file_step f (Ser_Little_24 v) = Some (0, file_put (le_bytes 3 (unat v)) f)"
| "file_step f (Ser_Little_32 v) = Some (0, file_put (le_bytes 4 (unat v)) f)"
| "file_step f (Ser_Little_64 v) = Some (0, file_put (le_bytes 8 (unat v)) f)"
| "file_step f (Ser_Big_16 v) = Some (0, file_put (be_bytes 2 (unat v)) f)"
| "file_step f (Ser_Big_24 v) = Some (0, file_put (be_bytes 3 (unat v)) f)"
| "file_step f (Ser_Big_32 v) = Some (0, file_put (be_bytes 4 (unat v)) f)"
| "file_step f (Ser_Big_64 v) = Some (0, file_put (be_bytes 8 (unat v)) f)"
| "file_step f (Ser_Seek k SERIALIZE_SEEK_START) = Some (file_seek (nat (k mod 2 ^ 64)) f)"
| "file_step f (Ser_Seek k SERIALIZE_SEEK_CURRENT) = Some (file_seek (nat ((int (snd f) + k) mod 2 ^ 64)) f)"
| "file_step f (Ser_Seek k SERIALIZE_SEEK_END) = Some (file_seek (nat ((int (length (fst f)) - k) mod 2 ^ 64)) f)"
| "file_step f Ser_Size = Some (int (length (fst f)), f)"
| "file_step f Ser_Reset = Some (0, ([], 0))"

lemma puts_step: "puts w xs \<Longrightarrow> ser_repr s f \<Longrightarrow>
    \<exists>s'. ser_done (w s) = Some (0, s') \<and> ser_repr s' (file_put xs f)"
  unfolding puts_def ser_done_def by (metis option.simps(9))

lemma ser_seek:
  assumes "ser_repr s f"
  shows "\<exists>s'. ser_step s (Ser_Seek k t) = Some (fst (the (file_step f (Ser_Seek k t))), s') \<and>
    ser_repr s' (snd (the (file_step f (Ser_Seek k t))))"
  using assms da_repr_num [of "ao_bytes s" "fst f"]
  by (cases t) (auto simp: array_output_seek_def file_seek_def ser_repr_def Let_def)

lemma ser_step_refines:
  assumes r: "ser_repr s f"
  shows "case file_step f op of None \<Rightarrow> ser_step s op = None
    | Some (out, f') \<Rightarrow> \<exists>s'. ser_step s op = Some (id out, s') \<and> ser_repr s' f'"
proof (cases op)
  case (Ser_Write xs) then show ?thesis using ser_write_opt [OF r, of xs] by auto
next
  case (Ser_Byte b) then show ?thesis using puts_step [OF puts_w8 r, of b] by simp
next
  case (Ser_Little_16 v) then show ?thesis using puts_step [OF puts_l16 r, of v] by simp
next
  case (Ser_Little_24 v) then show ?thesis using puts_step [OF puts_l24 r, of v] by simp
next
  case (Ser_Little_32 v) then show ?thesis using puts_step [OF puts_l32 r, of v] by simp
next
  case (Ser_Little_64 v) then show ?thesis using puts_step [OF puts_l64 r, of v] by simp
next
  case (Ser_Big_16 v) then show ?thesis using puts_step [OF puts_b16 r, of v] by simp
next
  case (Ser_Big_24 v) then show ?thesis using puts_step [OF puts_b24 r, of v] by simp
next
  case (Ser_Big_32 v) then show ?thesis using puts_step [OF puts_b32 r, of v] by simp
next
  case (Ser_Big_64 v) then show ?thesis using puts_step [OF puts_b64 r, of v] by simp
next
  case (Ser_Seek k t) then show ?thesis using ser_seek [OF r, of k t] by (cases t) (auto simp: file_seek_def)
next
  case Ser_Size
  then show ?thesis using r da_repr_num [of "ao_bytes s" "fst f"] by (auto simp: array_output_get_pos_def ser_repr_def)
next
  case Ser_Reset
  then show ?thesis using r
    by (auto simp: array_output_serializer_reset_def ser_repr_def darray_clear_def da_repr_def)
qed

interpretation ser: step_refinement ser_repr ser_step file_step id
  by unfold_locales (rule ser_step_refines)


end
