(* ===== verification/Nal_Packets.thy ===== *)
theory Nal_Packets
  imports Nal_Units Serializer Interleave
begin

text \<open>
  What \<open>libobs/obs-avc.c\<close> and \<open>libobs/obs-hevc.c\<close> have in common besides the loop over the units: writing
  a unit after its length, and appending a unit to one of three arrays. The two files say it twice, the
  locales here say once what follows from it; the codecs interpret them.
\<close>

section \<open>Parts of the code\<close>

definition keep_state :: "nat \<Rightarrow> byte \<Rightarrow> nat \<Rightarrow> nat \<Rightarrow> 's \<Rightarrow> 's option" where
  "keep_state i b s e st = Some st"

text \<open>The length of a unit as 32 bits, most significant byte first, then its bytes.\<close>

definition write_unit :: "byte list \<Rightarrow> nat \<Rightarrow> byte \<Rightarrow> nat \<Rightarrow> nat \<Rightarrow> ser \<times> 'k \<Rightarrow> (ser \<times> 'k) option" where
  "write_unit m i b s e st =
     (let (out, k) = st in do {
       out \<leftarrow> s_wb32 (of_nat (e - s)) out;
       nal \<leftarrow> mem_read s (e - s) m;
       (out, n) \<leftarrow> s_write out nal;
       Some (out, k)
     })"

text \<open>The bytes after the reference count, which is a \<open>long\<close> of eight bytes.\<close>

definition packet_bytes :: "ser \<Rightarrow> byte list option" where
  "packet_bytes out = mem_bytes 8 (da_num (ao_bytes out) - 8) (da_array (ao_bytes out))"

record extracted_headers =
  eh_new_packet :: "byte darray"
  eh_header :: "byte darray"
  eh_sei :: "byte darray"

definition no_headers :: extracted_headers where
  "no_headers = \<lparr>eh_new_packet = darray_init, eh_header = darray_init, eh_sei = darray_init\<rparr>"

definition push_bytes :: "byte list \<Rightarrow> nat \<Rightarrow> nat \<Rightarrow> byte darray \<Rightarrow> byte darray option" where
  "push_bytes m i n d = map_option fst (darray_push_back_array d (map Some (drop i m)) n)"


section \<open>Streams with lengths\<close>

text \<open>The reader of the format that the packets are turned into.\<close>

function length_split :: "byte list \<Rightarrow> byte list list option" where
  "length_split xs =
     (if xs = [] then Some []
      else if length xs < 4 then None
      else let n = be_nat (take 4 xs)
        in if length xs < 4 + n then None
           else map_option (\<lambda>ns. take n (drop 4 xs) # ns) (length_split (drop (4 + n) xs)))"
  by pat_completeness auto

termination length_split
  by (relation "measure length") auto

declare length_split.simps [simp del]

definition with_length :: "byte list \<Rightarrow> byte list" where
  "with_length n = be_bytes 4 (length n) @ n"

lemma length_split_units:
  "\<forall>n \<in> set ns. length n < 2 ^ 32 \<Longrightarrow> length_split (concat (map with_length ns)) = Some ns"
proof (induction ns)
  case Nil
  then show ?case by (simp add: length_split.simps)
next
  case (Cons n ns)
  have "be_nat (be_bytes 4 (length n)) = length n" using Cons.prems by (intro be_nat_bytes) simp
  moreover have "be_bytes 4 (length n) \<noteq> []" using length_be_bytes [of 4 "length n"] by fastforce
  ultimately show ?case using Cons by (subst length_split.simps) (simp add: with_length_def [of n] Let_def)
qed

section \<open>Packets\<close>

definition put_unit :: "nal_unit \<Rightarrow> ser \<times> 'k \<Rightarrow> (ser \<times> 'k) option" where
  "put_unit u st =
     (case st of (out, k) \<Rightarrow>
        Option.bind (s_wb32 (of_nat (length (snd u))) out) (\<lambda>out. map_option (\<lambda>(out, n). (out, k)) (s_write out (snd u))))"

lemma write_unit_at:
  assumes "m = pre @ unit_bytes u @ post"
  shows "write_unit m (length pre) b (length pre + length (startcode (fst u))) (length pre + length (unit_bytes u)) st = put_unit u st"
proof -
  have r: "mem_read (length pre + length (startcode (fst u))) (length (snd u)) m = Some (snd u)"
    using assms mem_read_at [of _ "pre @ startcode (fst u)" _ "snd u" post] by (simp add: unit_bytes_def)
  have e: "length pre + length (unit_bytes u) - (length pre + length (startcode (fst u))) = length (snd u)"
    by (simp add: unit_bytes_def)
  show ?thesis unfolding write_unit_def put_unit_def e r
    by (cases st; cases "s_wb32 (of_nat (length (snd u))) (fst st)") (auto simp: map_option_case split: option.splits)
qed

lemma puts_unit:
  assumes "ser_repr out (bs, length bs)" "length n < 2 ^ 32" "n = snd u"
  shows "\<exists>out'. put_unit u (out, k) = Some (out', k) \<and>
    ser_repr out' (bs @ with_length n, length (bs @ with_length n))"
proof -
  have u: "unat (of_nat (length n) :: u32) = length n" using assms(2) by (simp add: unat_of_nat)
  have f: "file_put ys (xs, length xs) = (xs @ ys, length (xs @ ys))" for xs ys :: "byte list" by (simp add: file_put_def)
  obtain o1 where o1: "s_wb32 (of_nat (length n)) out = Some o1"
    "ser_repr o1 (bs @ be_bytes 4 (length n), length (bs @ be_bytes 4 (length n)))"
    using puts_b32 [of "of_nat (length n)"] assms(1) unfolding puts_def u f [symmetric] by blast
  obtain o2 where "s_write o1 n = Some (o2, length n)"
    "ser_repr o2 ((bs @ be_bytes 4 (length n)) @ n, length ((bs @ be_bytes 4 (length n)) @ n))"
    using ser_write_opt [OF o1(2), of n] unfolding f by blast
  with o1(1) assms(3) show ?thesis by (simp add: with_length_def put_unit_def)
qed

lemma packet_bytes_repr:
  assumes "ser_repr out (hd8 @ xs, p)" "length hd8 = 8"
  shows "packet_bytes out = Some xs"
proof -
  obtain junk where "da_array (ao_bytes out) = map Some hd8 @ map Some xs @ junk" "da_num (ao_bytes out) = 8 + length xs"
    using assms by (auto simp: ser_repr_def da_repr_def)
  then show ?thesis using assms(2) by (simp add: packet_bytes_def mem_bytes_at)
qed

lemma ref_start: "\<exists>out. serialize array_output_serializer_init (le_bytes 8 1) = Some (out, 8) \<and>
    ser_repr out (le_bytes 8 1, length (le_bytes 8 1))"
  using ser_write [OF ser_repr_init, of "le_bytes 8 1"] by (simp add: serialize_def file_put_def)

text \<open>A codec says of a unit's first byte whether it makes a keyframe and which priority it has.\<close>

locale packet_codec =
  fixes prio :: "byte \<Rightarrow> bool \<times> int \<Rightarrow> bool \<times> int" and key :: "byte \<Rightarrow> bool" and level :: "byte \<Rightarrow> int"
  assumes prio: "prio b (kf, p) = (kf \<or> key b, max p (level b))"
begin

abbreviation "unit_key \<equiv> \<lambda>u :: nal_unit. key (hd (snd u))"
abbreviation "unit_level \<equiv> \<lambda>u :: nal_unit. level (hd (snd u))"

lemma fold_units:
  "\<forall>u \<in> set us. length (snd u) < 2 ^ 32 \<Longrightarrow> ser_repr out (bs, length bs) \<Longrightarrow>
    \<exists>out'. unit_fold (\<lambda>b (out, k). Inr (out, prio b k)) put_unit us (out, kf, p) =
      Some (out', kf \<or> (\<exists>u \<in> set us. unit_key u), fold max (map unit_level us) p) \<and>
      ser_repr out' (bs @ concat (map (with_length \<circ> snd) us), length (bs @ concat (map (with_length \<circ> snd) us)))"
proof (induction us arbitrary: out bs kf p)
  case (Cons u us)
  from Cons.prems have n: "length (snd u) < 2 ^ 32" by simp
  obtain o1 where o1: "put_unit u (out, kf \<or> unit_key u, max p (unit_level u)) = Some (o1, kf \<or> unit_key u, max p (unit_level u))"
    "ser_repr o1 (bs @ with_length (snd u), length (bs @ with_length (snd u)))"
    using puts_unit [OF Cons.prems(2) n refl, of "(kf \<or> unit_key u, max p (unit_level u))"] by (elim exE conjE)
  let ?E = "\<lambda>b (out, k). Inr (out, prio b k) :: (ser \<times> bool \<times> int) + (ser \<times> bool \<times> int)"
  have step: "unit_fold ?E put_unit (u # us) (out, kf, p) = unit_fold ?E put_unit us (o1, kf \<or> unit_key u, max p (unit_level u))"
    unfolding unit_fold.simps(2) case_prod_conv prio sum.case o1(1) bind.bind_lunit by (rule refl)
  have bytes: "concat (map (with_length \<circ> snd) (u # us)) = with_length (snd u) @ concat (map (with_length \<circ> snd) us)" by simp
  have key: "(kf \<or> (\<exists>v \<in> set (u # us). unit_key v)) = ((kf \<or> unit_key u) \<or> (\<exists>v \<in> set us. unit_key v))" by auto
  have lv: "fold max (map unit_level (u # us)) p = fold max (map unit_level us) (max p (unit_level u))"
    by (simp add: max.commute [of p])
  show ?case
    unfolding step bytes key lv append_assoc [symmetric]
    by (rule Cons.IH [OF _ o1(2)]) (use Cons.prems(1) in simp)
qed simp

text \<open>The conversion of a packet, and the priority alone.\<close>

lemma serialize_units:
  assumes "\<forall>u \<in> set us. nal_ok (snd u) \<and> length (snd u) < 2 ^ 32" "ser_repr out (bs, length bs)"
  shows "\<exists>out'. nal_loop (\<lambda>b (out, k). Inr (out, prio b k)) (write_unit (annexb us)) al (annexb us) (out, kf, p) =
      Some (out', kf \<or> (\<exists>u \<in> set us. unit_key u), fold max (map unit_level us) p) \<and>
    ser_repr out' (bs @ concat (map (with_length \<circ> snd) us), length (bs @ concat (map (with_length \<circ> snd) us)))"
proof -
  have "nal_loop (\<lambda>b (out, k). Inr (out, prio b k)) (write_unit (annexb us)) al (annexb us) (out, kf, p) =
    unit_fold (\<lambda>b (out, k). Inr (out, prio b k)) put_unit us (out, kf, p)"
  proof (rule nal_loop_units)
    fix pre post u and st :: "ser \<times> bool \<times> int"
    assume "annexb us = pre @ unit_bytes u @ post"
    then show "write_unit (annexb us) (length pre) (hd (snd u)) (length pre + length (startcode (fst u)))
        (length pre + length (unit_bytes u)) st = put_unit u st"
      by (rule write_unit_at)
  qed (use assms in auto)
  with fold_units [of us out bs kf p] assms show ?thesis by auto
qed

lemma priority_units:
  assumes "\<forall>u \<in> set us. nal_ok (snd u)"
  shows "nal_loop (\<lambda>b k. Inr (prio b k)) keep_state al (annexb us) (kf, p) =
    Some (kf \<or> (\<exists>u \<in> set us. unit_key u), fold max (map unit_level us) p)"
proof -
  have "nal_loop (\<lambda>b k. Inr (prio b k)) keep_state al (annexb us) (kf, p) =
    unit_fold (\<lambda>b k. Inr (prio b k)) (\<lambda>u st. Some st) us (kf, p)"
    using assms by (intro nal_loop_units) (auto simp: keep_state_def)
  also have "\<dots> = Some (kf \<or> (\<exists>u \<in> set us. unit_key u), fold max (map unit_level us) p)"
  proof (induction us arbitrary: kf p)
    case (Cons u us)
    then show ?case by (simp add: prio max.commute [of p] disj_assoc)
  qed simp
  finally show ?thesis .
qed

lemma parse_units:
  assumes us: "\<forall>u \<in> set us. nal_ok (snd u) \<and> length (snd u) < 2 ^ 32" and src: "pk_data src = annexb us"
    and parse: "parse = do {
      (out, n) \<leftarrow> serialize array_output_serializer_init (le_bytes 8 1);
      (out, keyframe, priority) \<leftarrow> nal_loop (\<lambda>b (out, k). Inr (out, prio b k)) (write_unit (pk_data src)) al (pk_data src)
        (out, pk_keyframe src, pk_priority src);
      data \<leftarrow> packet_bytes out;
      Some (src\<lparr>pk_data := data, pk_keyframe := keyframe, pk_priority := priority, pk_drop_priority := priority\<rparr>)
    }"
    and alone: "alone = map_option snd (nal_loop (\<lambda>b k. Inr (prio b k)) keep_state al (pk_data src) (False, pk_priority src))"
  shows "\<exists>pk. parse = Some pk \<and> length_split (pk_data pk) = Some (map snd us) \<and>
    pk_keyframe pk = (pk_keyframe src \<or> (\<exists>u \<in> set us. unit_key u)) \<and>
    pk_priority pk = fold max (map unit_level us) (pk_priority src) \<and>
    pk_drop_priority pk = pk_priority pk \<and> alone = Some (pk_priority pk)"
proof -
  obtain out where out: "serialize array_output_serializer_init (le_bytes 8 1) = Some (out, 8)"
    "ser_repr out (le_bytes 8 1, length (le_bytes 8 1))" using ref_start by blast
  let ?key = "pk_keyframe src \<or> (\<exists>u \<in> set us. unit_key u)"
  let ?level = "fold max (map unit_level us) (pk_priority src)"
  let ?data = "concat (map with_length (map snd us))"
  obtain out' where out': "nal_loop (\<lambda>b (out, k). Inr (out, prio b k)) (write_unit (annexb us)) al (annexb us)
      (out, pk_keyframe src, pk_priority src) = Some (out', ?key, ?level)" "packet_bytes out' = Some ?data"
    using serialize_units [OF us out(2), of al "pk_keyframe src" "pk_priority src"]
      packet_bytes_repr [of _ "le_bytes 8 1" ?data] by force
  have "parse = Some (src\<lparr>pk_data := ?data, pk_keyframe := ?key, pk_priority := ?level, pk_drop_priority := ?level\<rparr>)"
    unfolding parse src out(1) bind.bind_lunit case_prod_conv out' ..
  moreover have "length_split ?data = Some (map snd us)" using us by (intro length_split_units) auto
  moreover have "alone = Some ?level" using priority_units [of us al False "pk_priority src"] us by (simp add: alone src)
  ultimately show ?thesis by simp
qed

end

section \<open>Headers\<close>

definition headers_repr :: "extracted_headers \<Rightarrow> byte list \<Rightarrow> byte list \<Rightarrow> byte list \<Rightarrow> bool" where
  "headers_repr st packet header sei \<longleftrightarrow>
     da_repr (eh_new_packet st) packet \<and> da_repr (eh_header st) header \<and> da_repr (eh_sei st) sei"

lemma push_unit:
  assumes "m = pre @ unit_bytes u @ post" "da_repr d xs"
  shows "\<exists>d'. push_bytes m (length pre) (length pre + length (unit_bytes u) - length pre) d = Some d' \<and> da_repr d' (xs @ unit_bytes u)"
  using da_push_back_array [OF assms(2), of "unit_bytes u" "map Some post"] assms(1)
  by (auto simp: push_bytes_def)

text \<open>A codec says which units are headers and which ones supplemental information.\<close>

locale header_codec =
  fixes sort :: "byte list \<Rightarrow> nat \<Rightarrow> byte \<Rightarrow> nat \<Rightarrow> nat \<Rightarrow> extracted_headers \<Rightarrow> extracted_headers option"
    and is_header is_sei :: "byte \<Rightarrow> bool"
  assumes sort: "sort m i b s e st =
     (if is_header b then map_option (\<lambda>d. st\<lparr>eh_header := d\<rparr>) (push_bytes m i (e - i) (eh_header st))
      else if is_sei b then map_option (\<lambda>d. st\<lparr>eh_sei := d\<rparr>) (push_bytes m i (e - i) (eh_sei st))
      else map_option (\<lambda>d. st\<lparr>eh_new_packet := d\<rparr>) (push_bytes m i (e - i) (eh_new_packet st)))"
begin

definition unit_header :: "nal_unit \<Rightarrow> bool" where "unit_header u = is_header (hd (snd u))"
definition unit_sei :: "nal_unit \<Rightarrow> bool" where "unit_sei u = (\<not> unit_header u \<and> is_sei (hd (snd u)))"
definition unit_rest :: "nal_unit \<Rightarrow> bool" where "unit_rest u = (\<not> unit_header u \<and> \<not> unit_sei u)"

lemma sort_unit:
  assumes "m = pre @ unit_bytes u @ post" "headers_repr st p h i"
  shows "\<exists>st'. sort m (length pre) (hd (snd u)) s (length pre + length (unit_bytes u)) st = Some st' \<and>
    headers_repr st' (p @ annexb (filter unit_rest [u])) (h @ annexb (filter unit_header [u])) (i @ annexb (filter unit_sei [u]))"
  using push_unit [OF assms(1), of "eh_new_packet st" p] push_unit [OF assms(1), of "eh_header st" h]
    push_unit [OF assms(1), of "eh_sei st" i] assms(2)
  by (auto simp: sort headers_repr_def unit_rest_def unit_sei_def unit_header_def)

lemma extract_walk:
  "\<forall>u \<in> set us. nal_ok (snd u) \<Longrightarrow> m = pre @ annexb us \<Longrightarrow> headers_repr st p h i \<Longrightarrow>
    \<exists>st'. nal_walk (\<lambda>b st. Inr st) (sort m) al m (length pre) st = Some st' \<and>
      headers_repr st' (p @ annexb (filter unit_rest us)) (h @ annexb (filter unit_header us)) (i @ annexb (filter unit_sei us))"
proof (induction us arbitrary: pre st p h i)
  case Nil
  then show ?case by (intro exI [of _ st]) (simp add: nal_walk.simps nal_skip_end)
next
  case (Cons u us)
  have m: "m = pre @ unit_bytes u @ annexb us" "m = (pre @ unit_bytes u) @ annexb us" using Cons.prems(2) by simp_all
  obtain st1 where st1: "sort m (length pre) (hd (snd u)) (nal_skip m (length pre)) (length pre + length (unit_bytes u)) st = Some st1"
    "headers_repr st1 (p @ annexb (filter unit_rest [u])) (h @ annexb (filter unit_header [u])) (i @ annexb (filter unit_sei [u]))"
    using sort_unit [OF m(1) Cons.prems(3)] by blast
  have step: "nal_walk (\<lambda>b st. Inr st) (sort m) al m (length pre) st =
      nal_walk (\<lambda>b st. Inr st) (sort m) al m (length (pre @ unit_bytes u)) st1"
    using nal_walk_step(1) [of u us m pre "\<lambda>b st. Inr st" "sort m" al st] Cons.prems(1) m(1) st1(1) by simp
  have split: "annexb (filter P (u # us)) = annexb (filter P [u]) @ annexb (filter P us)" for P by simp
  show ?case unfolding step split append_assoc [symmetric]
    by (rule Cons.IH [OF _ m(2) st1(2)]) (use Cons.prems(1) in simp)
qed

lemma extract_units:
  assumes "\<forall>u \<in> set us. nal_ok (snd u)"
  shows "\<exists>st. nal_loop (\<lambda>b st. Inr st) (sort (annexb us)) al (annexb us) no_headers = Some st \<and>
    headers_repr st (annexb (filter unit_rest us)) (annexb (filter unit_header us)) (annexb (filter unit_sei us))"
proof -
  have "headers_repr no_headers [] [] []" by (simp add: headers_repr_def no_headers_def da_repr_init)
  from extract_walk [OF assms _ this, of "annexb us" "[]" al] find_first_unit [OF assms]
  show ?thesis by (simp add: nal_loop_def)
qed

end

section \<open>Keyframes\<close>

text \<open>A scan that the first unit of some kind decides.\<close>

lemma first_unit_decides:
  assumes "\<forall>u \<in> set us. nal_ok (snd u)"
  shows "nal_loop (\<lambda>b st. if P b then Inl (Q b) else Inr st) keep_state al (annexb us) st =
    Some (case List.find (\<lambda>u. P (hd (snd u))) us of None \<Rightarrow> st | Some u \<Rightarrow> Q (hd (snd u)))"
proof -
  have "nal_loop (\<lambda>b st. if P b then Inl (Q b) else Inr st) keep_state al (annexb us) st =
    unit_fold (\<lambda>b st. if P b then Inl (Q b) else Inr st) (\<lambda>u st. Some st) us st"
    using assms by (intro nal_loop_units) (auto simp: keep_state_def)
  also have "\<dots> = Some (case List.find (\<lambda>u. P (hd (snd u))) us of None \<Rightarrow> st | Some u \<Rightarrow> Q (hd (snd u)))"
    by (induction us arbitrary: st) auto
  finally show ?thesis .
qed

end
