(* ===== verification/Bitstream.thy ===== *)
theory Bitstream
  imports Bytes
begin

text \<open>
  The bit reader of \<open>libobs/util/bitstream.c\<close>: its state, its operations, and what they read of the
  bits that are left, most significant bit of a byte first. Past the end a bit is 0. The position is
  a byte, as the structure has it, and wraps around after 256 bytes.
\<close>

section \<open>The reader\<close>

record bitstream_reader =
  br_pos :: byte
  br_subPos :: byte
  br_buf :: "byte list"
  br_len :: nat

definition bitstream_reader_init :: "byte list \<Rightarrow> nat \<Rightarrow> bitstream_reader" where
  "bitstream_reader_init data len = \<lparr>br_pos = 0, br_subPos = 0x80, br_buf = data, br_len = len\<rparr>"

definition bitstream_reader_read_bit :: "bitstream_reader \<Rightarrow> byte \<times> bitstream_reader" where
  "bitstream_reader_read_bit r =
     (if unat (br_pos r) \<ge> br_len r then (0, r)
      else
        let bt = (if br_buf r ! unat (br_pos r) AND br_subPos r = br_subPos r then 1 else 0);
            r = r\<lparr>br_subPos := drop_bit 1 (br_subPos r)\<rparr>;
            r = (if br_subPos r = 0 then r\<lparr>br_subPos := 0x80, br_pos := br_pos r + 1\<rparr> else r)
        in (bt, r))"

fun read_bits_loop :: "nat \<Rightarrow> byte \<Rightarrow> bitstream_reader \<Rightarrow> byte \<times> bitstream_reader" where
  "read_bits_loop 0 res r = (res, r)"
| "read_bits_loop (Suc n) res r =
     (let (bt, r) = bitstream_reader_read_bit r in read_bits_loop n (push_bit 1 res OR bt) r)"

definition bitstream_reader_read_bits :: "nat \<Rightarrow> bitstream_reader \<Rightarrow> byte \<times> bitstream_reader" where
  "bitstream_reader_read_bits bits r = read_bits_loop bits 0 r"

definition bitstream_reader_r8 :: "bitstream_reader \<Rightarrow> byte \<times> bitstream_reader" where
  "bitstream_reader_r8 r = bitstream_reader_read_bits 8 r"

text \<open>The order in which C evaluates the two reads is not fixed: the first one is a statement of its own.\<close>

definition bitstream_reader_r16 :: "bitstream_reader \<Rightarrow> u16 \<times> bitstream_reader" where
  "bitstream_reader_r16 r =
     (let (b, r) = bitstream_reader_read_bits 8 r; (c, r) = bitstream_reader_read_bits 8 r
      in (push_bit 8 (ucast b) OR ucast c, r))"

section \<open>Bits\<close>

definition bits_of :: "byte \<Rightarrow> bool list" where
  "bits_of b = map (\<lambda>k. bit b (7 - k)) [0..<8]"

definition bits_of_bytes :: "byte list \<Rightarrow> bool list" where
  "bits_of_bytes bs = concat (map bits_of bs)"

text \<open>The reader stands before bit \<open>k\<close> of a byte; bits it cannot reach without wrapping do not count.\<close>

definition reads :: "bitstream_reader \<Rightarrow> bool list \<Rightarrow> bool" where
  "reads r bs \<longleftrightarrow> br_len r = length (br_buf r) \<and>
     (let buf = take 255 (br_buf r); p = unat (br_pos r)
      in if p \<ge> length buf then bs = []
         else \<exists>k < 8. br_subPos r = push_bit (7 - k) 1 \<and>
           bs = drop k (bits_of (buf ! p)) @ bits_of_bytes (drop (p + 1) buf))"

lemma bits_of_bytes_simps [simp]: "bits_of_bytes [] = []" "bits_of_bytes (b # bs) = bits_of b @ bits_of_bytes bs"
  by (simp_all add: bits_of_bytes_def)

lemma length_bits_of [simp]: "length (bits_of b) = 8"
  by (simp add: bits_of_def)

lemma reads_start: "reads (bitstream_reader_init data (length data)) (bits_of_bytes (take 255 data))"
  by (cases data) (auto simp: reads_def bitstream_reader_init_def Let_def intro!: exI [of _ 0])

lemma one_bit: "i < 8 \<Longrightarrow> bit (push_bit i 1 :: byte) n = (n = i)"
  by (simp only: bit_push_bit_iff bit_1_iff possible_bit_word) auto

lemma next_bit: "Suc i < 8 \<Longrightarrow> drop_bit 1 (push_bit (Suc i) 1 :: byte) = push_bit i 1"
  by (rule bit_word_eqI) (simp add: bit_drop_bit_eq one_bit del: push_bit_of_1 push_bit_Suc)

lemma one_bit_nonzero: "i < 8 \<Longrightarrow> push_bit i 1 \<noteq> (0 :: byte)"
  using one_bit [of i i] by auto

lemma subpos_test: "k < 8 \<Longrightarrow> (b AND push_bit (7 - k) 1 = push_bit (7 - k) 1) = bits_of b ! k" for b :: byte
proof -
  assume k: "k < 8"
  have "(b AND push_bit (7 - k) 1 = push_bit (7 - k) 1) = bit b (7 - k)"
  proof
    assume "b AND push_bit (7 - k) 1 = push_bit (7 - k) 1"
    moreover have "bit (push_bit (7 - k) 1 :: byte) (7 - k)" using one_bit [of "7 - k"] k by simp
    ultimately have "bit (b AND push_bit (7 - k) 1) (7 - k)" by simp
    then show "bit b (7 - k)" by (simp add: bit_and_iff)
  next
    assume "bit b (7 - k)"
    then show "b AND push_bit (7 - k) 1 = push_bit (7 - k) 1"
      by (intro bit_word_eqI) (auto simp: bit_and_iff one_bit simp del: push_bit_of_1)
  qed
  then show ?thesis using k by (simp add: bits_of_def)
qed

lemma read_bit:
  assumes "reads r (b # bs)"
  shows "\<exists>r'. bitstream_reader_read_bit r = (of_bool b, r') \<and> reads r' bs"
proof -
  let ?p = "unat (br_pos r)"
  define buf where "buf = take 255 (br_buf r)"
  from assms obtain k where k: "?p < length buf" "br_len r = length (br_buf r)" "k < 8" "br_subPos r = push_bit (7 - k) 1"
    "b # bs = drop k (bits_of (buf ! ?p)) @ bits_of_bytes (drop (?p + 1) buf)"
    by (auto simp: reads_def Let_def buf_def [symmetric] split: if_splits)
  have in_buf: "?p < br_len r" "?p < 255" "buf ! ?p = br_buf r ! ?p" using k(1,2) by (auto simp: buf_def)
  have d: "drop k (bits_of (buf ! ?p)) = bits_of (buf ! ?p) ! k # drop (k + 1) (bits_of (buf ! ?p))"
    using k(3) by (simp add: Cons_nth_drop_Suc)
  have b: "b = bits_of (br_buf r ! ?p) ! k"
    and bs: "bs = drop (k + 1) (bits_of (buf ! ?p)) @ bits_of_bytes (drop (?p + 1) buf)"
    using k(5) d in_buf(3) by auto
  show ?thesis
  proof (cases "k = 7")
    case True
    have p: "unat (br_pos r + 1) = ?p + 1" using in_buf(2) by (simp add: unat_word_ariths)
    have "bs = bits_of_bytes (drop (?p + 1) buf)" using bs True by simp
    then have "reads (r\<lparr>br_subPos := 0x80, br_pos := br_pos r + 1\<rparr>) bs"
      using k(2) p by (auto simp: reads_def Let_def buf_def [symmetric] Cons_nth_drop_Suc [symmetric] intro!: exI [of _ 0])
    then show ?thesis using k in_buf True b subpos_test [OF k(3)]
      by (simp add: bitstream_reader_read_bit_def Let_def)
  next
    case False
    have e: "7 - k = Suc (7 - (k + 1))" using k(3) False by simp
    have sub: "drop_bit 1 (push_bit (7 - k) 1 :: byte) = push_bit (7 - (k + 1)) 1"
      unfolding e by (rule next_bit) (use k(3) False in simp)
    have nz: "push_bit (7 - (k + 1)) 1 \<noteq> (0 :: byte)" by (rule one_bit_nonzero) simp
    have "reads (r\<lparr>br_subPos := push_bit (7 - (k + 1)) 1\<rparr>) bs"
      using k bs False by (auto simp: reads_def Let_def buf_def [symmetric] intro!: exI [of _ "k + 1"])
    moreover have "bitstream_reader_read_bit r = (of_bool b, r\<lparr>br_subPos := push_bit (7 - (k + 1)) 1\<rparr>)"
      unfolding bitstream_reader_read_bit_def Let_def
      using in_buf(1) b sub nz subpos_test [OF k(3), of "br_buf r ! ?p"] by (simp add: k(4) del: push_bit_of_1)
    ultimately show ?thesis by blast
  qed
qed

text \<open>The reader does not get past 256 bytes: after the last bit of byte 255 it stands at the first one again.\<close>

lemma reader_wraps:
  assumes "br_pos r = 255" "br_subPos r = 1" "255 < br_len r"
  shows "snd (bitstream_reader_read_bit r) = r\<lparr>br_pos := 0, br_subPos := 0x80\<rparr>"
  using assms by (simp add: bitstream_reader_read_bit_def Let_def)

text \<open>The number that some bits make, of which the reader keeps eight bits.\<close>

definition bits_nat :: "bool list \<Rightarrow> nat" where
  "bits_nat bs = fold (\<lambda>b n. 2 * n + of_bool b) bs 0"

lemma shift_in: "push_bit 1 (of_nat n) OR of_bool b = (of_nat (2 * n + of_bool b) :: byte)"
  by (cases b) (simp_all add: or_one_eq push_bit_eq_mult mult.commute)

lemma read_bits_from:
  "reads r (bs @ rest) \<Longrightarrow>
    \<exists>r'. read_bits_loop (length bs) (of_nat n) r = (of_nat (fold (\<lambda>b n. 2 * n + of_bool b) bs n), r') \<and> reads r' rest"
proof (induction bs arbitrary: r n)
  case (Cons b bs)
  then obtain r1 where r1: "bitstream_reader_read_bit r = (of_bool b, r1)" "reads r1 (bs @ rest)"
    using read_bit [of r b "bs @ rest"] by auto
  from Cons.IH [OF r1(2), of "2 * n + of_bool b"] r1(1) show ?case
    by (simp only: length_Cons read_bits_loop.simps Let_def case_prod_conv fold.simps comp_def shift_in)
qed simp

lemma read_bits:
  "reads r (bs @ rest) \<Longrightarrow> n = length bs \<Longrightarrow>
    \<exists>r'. bitstream_reader_read_bits n r = (of_nat (bits_nat bs), r') \<and> reads r' rest"
  using read_bits_from [of r bs rest 0] by (simp add: bitstream_reader_read_bits_def bits_nat_def)

end
