(* ===== verification/Avc.thy ===== *)
theory Avc
  imports Nal_Packets Bitstream
begin

text \<open>
  The H.264 helpers of \<open>libobs/obs-avc.c\<close>: keyframe test, packets from start codes to lengths,
  priorities, the configuration record, and the separation of headers. Packets are those of the
  interleaver; \<open>al\<close> is the address of the data, \<^term>\<open>None\<close> an access outside of a buffer.
\<close>

section \<open>Units\<close>

datatype obs_nal_type =
    OBS_NAL_UNKNOWN | OBS_NAL_SLICE | OBS_NAL_SLICE_DPA | OBS_NAL_SLICE_DPB | OBS_NAL_SLICE_DPC
  | OBS_NAL_SLICE_IDR | OBS_NAL_SEI | OBS_NAL_SPS | OBS_NAL_PPS | OBS_NAL_AUD | OBS_NAL_FILLER

fun nal_type_value :: "obs_nal_type \<Rightarrow> nat" where
  "nal_type_value OBS_NAL_UNKNOWN = 0"
| "nal_type_value OBS_NAL_SLICE = 1"
| "nal_type_value OBS_NAL_SLICE_DPA = 2"
| "nal_type_value OBS_NAL_SLICE_DPB = 3"
| "nal_type_value OBS_NAL_SLICE_DPC = 4"
| "nal_type_value OBS_NAL_SLICE_IDR = 5"
| "nal_type_value OBS_NAL_SEI = 6"
| "nal_type_value OBS_NAL_SPS = 7"
| "nal_type_value OBS_NAL_PPS = 8"
| "nal_type_value OBS_NAL_AUD = 9"
| "nal_type_value OBS_NAL_FILLER = 12"

definition avc_type :: "byte \<Rightarrow> nat" where
  "avc_type b = unat (b AND 0x1F)"

definition is_avc :: "byte \<Rightarrow> obs_nal_type \<Rightarrow> bool" where
  "is_avc b t = (avc_type b = nal_type_value t)"

definition avc_keyframe_enter :: "byte \<Rightarrow> bool \<Rightarrow> bool + bool" where
  "avc_keyframe_enter b st =
     (if is_avc b OBS_NAL_SLICE_IDR \<or> is_avc b OBS_NAL_SLICE then Inl (is_avc b OBS_NAL_SLICE_IDR) else Inr st)"

definition obs_avc_keyframe :: "nat \<Rightarrow> byte list \<Rightarrow> bool option" where
  "obs_avc_keyframe al data = nal_loop avc_keyframe_enter keep_state al data False"

definition obs_avc_find_startcode :: "nat \<Rightarrow> byte list \<Rightarrow> nat \<Rightarrow> nat option" where
  "obs_avc_find_startcode al m p = obs_nal_find_startcode al m p"

section \<open>Packets\<close>

definition compute_avc_keyframe_priority :: "byte \<Rightarrow> bool \<times> int \<Rightarrow> bool \<times> int" where
  "compute_avc_keyframe_priority b st =
     (let (is_keyframe, priority) = st;
          is_keyframe = (if is_avc b OBS_NAL_SLICE_IDR then True else is_keyframe);
          new_priority = int (unat (drop_bit 5 b));
          priority = (if priority < new_priority then new_priority else priority)
      in (is_keyframe, priority))"

definition serialize_avc_data :: "nat \<Rightarrow> byte list \<Rightarrow> ser \<Rightarrow> bool \<times> int \<Rightarrow> (ser \<times> bool \<times> int) option" where
  "serialize_avc_data al data out k =
     nal_loop (\<lambda>b (out, k). Inr (out, compute_avc_keyframe_priority b k)) (write_unit data) al data (out, k)"

definition obs_parse_avc_packet :: "nat \<Rightarrow> encoder_packet \<Rightarrow> encoder_packet option" where
  "obs_parse_avc_packet al src = do {
     (out, n) \<leftarrow> serialize array_output_serializer_init (le_bytes 8 1);
     (out, keyframe, priority) \<leftarrow> serialize_avc_data al (pk_data src) out (pk_keyframe src, pk_priority src);
     data \<leftarrow> packet_bytes out;
     Some (src\<lparr>pk_data := data, pk_keyframe := keyframe, pk_priority := priority, pk_drop_priority := priority\<rparr>)
   }"

definition obs_parse_avc_packet_priority :: "nat \<Rightarrow> encoder_packet \<Rightarrow> int option" where
  "obs_parse_avc_packet_priority al packet =
     map_option snd
       (nal_loop (\<lambda>b k. Inr (compute_avc_keyframe_priority b k)) keep_state al (pk_data packet) (False, pk_priority packet))"

section \<open>The configuration record\<close>

definition has_start_code :: "byte list \<Rightarrow> bool option" where
  "has_start_code data = do {
     z0 \<leftarrow> byte_is data 0 0;
     z \<leftarrow> (if \<not> z0 then Some False else byte_is data 1 0);
     if \<not> z then Some False
     else do {
       one \<leftarrow> byte_is data 2 1;
       if one then Some True else and_then (byte_is data 2 0) (byte_is data 3 1)
     }
   }"

definition note_sps_pps :: "nat \<Rightarrow> byte \<Rightarrow> nat \<Rightarrow> nat \<Rightarrow>
    (nat \<times> nat) option \<times> (nat \<times> nat) option \<Rightarrow> ((nat \<times> nat) option \<times> (nat \<times> nat) option) option" where
  "note_sps_pps i b s e st =
     (let (sps, pps) = st
      in Some (if is_avc b OBS_NAL_SPS then (Some (s, e - s), pps)
               else if is_avc b OBS_NAL_PPS then (sps, Some (s, e - s))
               else (sps, pps)))"

definition get_sps_pps :: "nat \<Rightarrow> byte list \<Rightarrow> ((nat \<times> nat) option \<times> (nat \<times> nat) option) option" where
  "get_sps_pps al data = nal_loop (\<lambda>b st. Inr st) note_sps_pps al data (None, None)"

text \<open>
  \<open>while (i < 32 && !read_bits(1)) i++;\<close>, from the number of rounds left. \<open>1 << i\<close> is an \<open>int\<close>: for 31
  and 32 the result is undefined.
\<close>

fun count_zeros :: "nat \<Rightarrow> bitstream_reader \<Rightarrow> nat \<times> bitstream_reader" where
  "count_zeros 0 gb = (0, gb)"
| "count_zeros (Suc n) gb =
     (let (b, gb) = bitstream_reader_read_bits 1 gb
      in if b \<noteq> 0 then (0, gb) else let (i, gb) = count_zeros n gb in (Suc i, gb))"

definition get_ue_golomb :: "bitstream_reader \<Rightarrow> (byte \<times> bitstream_reader) option" where
  "get_ue_golomb gb =
     (let (i, gb) = count_zeros 32 gb; (v, gb) = bitstream_reader_read_bits i gb
      in if i < 31 then Some (of_int (int (unat v) + 2 ^ i - 1), gb) else None)"

text \<open>Removal of the emulation prevention bytes.\<close>

fun extract_rbsp :: "byte list \<Rightarrow> byte list" where
  "extract_rbsp (x # y # z # sps) =
     (if x = 0 \<and> y = 0 \<and> z = 3 then x # y # extract_rbsp sps else x # extract_rbsp (y # z # sps))"
| "extract_rbsp sps = sps"

definition get_sps_high_params :: "byte list \<Rightarrow> (byte \<times> byte \<times> byte) option" where
  "get_sps_high_params sps =
     (let rbsp = extract_rbsp sps;
          gb = bitstream_reader_init rbsp (length rbsp);
          (_, gb) = bitstream_reader_read_bits 24 gb
      in do {
        (_, gb) \<leftarrow> get_ue_golomb gb;
        (chroma_format_idc, gb) \<leftarrow> get_ue_golomb gb;
        let gb = (if chroma_format_idc = 3 then snd (bitstream_reader_read_bits 1 gb) else gb);
        (bit_depth_luma, gb) \<leftarrow> get_ue_golomb gb;
        (bit_depth_chroma, gb) \<leftarrow> get_ue_golomb gb;
        Some (chroma_format_idc, bit_depth_luma, bit_depth_chroma)
      })"

definition high_profile :: "byte \<Rightarrow> bool" where
  "high_profile profile_idc = (profile_idc = 100 \<or> profile_idc = 110 \<or> profile_idc = 122 \<or> profile_idc = 244)"

definition write_high_params :: "byte list \<Rightarrow> ser \<Rightarrow> ser option" where
  "write_high_params sps out = do {
     (chroma_format_idc, bit_depth_luma, bit_depth_chroma) \<leftarrow> get_sps_high_params (drop 1 sps);
     out \<leftarrow> s_w8 (0xfc OR chroma_format_idc) out;
     out \<leftarrow> s_w8 (0xf8 OR bit_depth_luma) out;
     out \<leftarrow> s_w8 (0xf8 OR bit_depth_chroma) out;
     s_w8 0 out
   }"

text \<open>The result is the header, if one has been stored, and its size.\<close>

definition obs_parse_avc_header :: "nat \<Rightarrow> byte list \<Rightarrow> (byte list option \<times> nat) option" where
  "obs_parse_avc_header al data =
     (if length data \<le> 6 then Some (None, 0)
      else do {
        coded \<leftarrow> has_start_code data;
        if \<not> coded then Some (Some data, length data)
        else do {
          found \<leftarrow> get_sps_pps al data;
          (case found of
             (Some (sps, sps_size), Some (pps, pps_size)) \<Rightarrow>
               (if sps_size < 4 then Some (None, 0)
                else do {
                  sps_data \<leftarrow> mem_read sps sps_size data;
                  pps_data \<leftarrow> mem_read pps pps_size data;
                  out \<leftarrow> s_w8 0x01 array_output_serializer_init;
                  (out, _) \<leftarrow> s_write out (take 3 (drop 1 sps_data));
                  out \<leftarrow> s_w8 0xff out;
                  out \<leftarrow> s_w8 0xe1 out;
                  out \<leftarrow> s_wb16 (of_nat sps_size) out;
                  (out, _) \<leftarrow> s_write out sps_data;
                  out \<leftarrow> s_w8 0x01 out;
                  out \<leftarrow> s_wb16 (of_nat pps_size) out;
                  (out, _) \<leftarrow> s_write out pps_data;
                  out \<leftarrow> (if high_profile (sps_data ! 1) then write_high_params sps_data out else Some out);
                  bytes \<leftarrow> mem_bytes 0 (da_num (ao_bytes out)) (da_array (ao_bytes out));
                  Some (Some bytes, da_num (ao_bytes out))
                })
           | _ \<Rightarrow> Some (None, 0))
        }
      })"

section \<open>Headers\<close>

definition sort_avc_unit :: "byte list \<Rightarrow> nat \<Rightarrow> byte \<Rightarrow> nat \<Rightarrow> nat \<Rightarrow> extracted_headers \<Rightarrow> extracted_headers option" where
  "sort_avc_unit m i b s e st =
     (if is_avc b OBS_NAL_SPS \<or> is_avc b OBS_NAL_PPS
      then map_option (\<lambda>d. st\<lparr>eh_header := d\<rparr>) (push_bytes m i (e - i) (eh_header st))
      else if is_avc b OBS_NAL_SEI
      then map_option (\<lambda>d. st\<lparr>eh_sei := d\<rparr>) (push_bytes m i (e - i) (eh_sei st))
      else map_option (\<lambda>d. st\<lparr>eh_new_packet := d\<rparr>) (push_bytes m i (e - i) (eh_new_packet st)))"

definition obs_extract_avc_headers :: "nat \<Rightarrow> byte list \<Rightarrow> extracted_headers option" where
  "obs_extract_avc_headers al packet = nal_loop (\<lambda>b st. Inr st) (sort_avc_unit packet) al packet no_headers"

end
