(* ===== verification/Avc_Packets.thy ===== *)
theory Avc_Packets
  imports Avc
begin

text \<open>
  What the H.264 functions do to streams of units: packets keep their units, headers are separated
  without loss, a keyframe is told by the first slice.
\<close>

section \<open>The codec\<close>

definition avc_level :: "byte \<Rightarrow> int" where
  "avc_level b = int (unat b div 32)"

interpretation avc: packet_codec compute_avc_keyframe_priority "\<lambda>b. is_avc b OBS_NAL_SLICE_IDR" avc_level
proof
  have "unat (drop_bit 5 b) = unat b div 32" for b :: byte
    using unat_drop_bit_eq [of 5 b] drop_bit_eq_div [of 5 "unat b"] by simp
  then show "compute_avc_keyframe_priority b (kf, p) = (kf \<or> is_avc b OBS_NAL_SLICE_IDR, max p (avc_level b))" for b kf p
    by (auto simp: compute_avc_keyframe_priority_def avc_level_def max_def Let_def)
qed

interpretation avc_headers: header_codec sort_avc_unit
  "\<lambda>b. is_avc b OBS_NAL_SPS \<or> is_avc b OBS_NAL_PPS" "\<lambda>b. is_avc b OBS_NAL_SEI"
  by unfold_locales (simp add: sort_avc_unit_def)

section \<open>Packets\<close>

text \<open>C12: a packet of units with start codes is turned into the units with their lengths, which a reader of lengths
  splits into the same units; the packet is a keyframe if it was one or a unit is an IDR slice, its priority the
  highest one of its units, which is also what the priority alone is computed to be.\<close>

theorem avc_packet_roundtrip:
  assumes us: "\<forall>u \<in> set us. nal_ok (snd u) \<and> length (snd u) < 2 ^ 32" and src: "pk_data src = annexb us"
  shows "\<exists>pk. obs_parse_avc_packet al src = Some pk \<and> length_split (pk_data pk) = Some (map snd us) \<and>
    pk_keyframe pk = (pk_keyframe src \<or> (\<exists>u \<in> set us. is_avc (hd (snd u)) OBS_NAL_SLICE_IDR)) \<and>
    pk_priority pk = fold max (map (\<lambda>u. avc_level (hd (snd u))) us) (pk_priority src) \<and>
    pk_drop_priority pk = pk_priority pk \<and> obs_parse_avc_packet_priority al src = Some (pk_priority pk)"
  by (rule avc.parse_units [OF us src])
    (simp_all only: obs_parse_avc_packet_def serialize_avc_data_def obs_parse_avc_packet_priority_def)

definition sample_packet :: encoder_packet where
  "sample_packet = \<lparr>pk_data = annexb [(True, [0x67, 1]), (False, [0x65, 2])], pk_pts = 0, pk_dts = 0, pk_timebase_num = 1,
     pk_timebase_den = 30, pk_type = OBS_ENCODER_VIDEO, pk_keyframe = False, pk_dts_usec = 0, pk_sys_dts_usec = 0,
     pk_priority = 0, pk_drop_priority = 0, pk_track_idx = 0, pk_encoder = 0\<rparr>"

lemma sample_units_ok: "\<forall>u \<in> set [(True, [0x67, 1]), (False, [0x65, 2])]. nal_ok (snd u) \<and> length (snd u) < 2 ^ 32"
  by (simp add: nal_ok_def)

theorem avc_packet_roundtrip_witness:
  "\<exists>pk. obs_parse_avc_packet 3 sample_packet = Some pk \<and> length_split (pk_data pk) = Some [[0x67, 1], [0x65, 2]] \<and>
    pk_keyframe pk \<and> pk_priority pk = 3"
proof -
  have "pk_data sample_packet = annexb [(True, [0x67, 1]), (False, [0x65, 2])]" by (simp add: sample_packet_def)
  from avc_packet_roundtrip [OF sample_units_ok this, of 3] show ?thesis
    by (auto simp: is_avc_def avc_type_def avc_level_def sample_packet_def)
qed

section \<open>Keyframes\<close>

text \<open>A stream is a keyframe exactly when the first of its slices is an IDR slice.\<close>

theorem avc_keyframe_first_slice:
  assumes "\<forall>u \<in> set us. nal_ok (snd u)"
  shows "obs_avc_keyframe al (annexb us) =
    Some (case List.find (\<lambda>u. is_avc (hd (snd u)) OBS_NAL_SLICE_IDR \<or> is_avc (hd (snd u)) OBS_NAL_SLICE) us of
        None \<Rightarrow> False | Some u \<Rightarrow> is_avc (hd (snd u)) OBS_NAL_SLICE_IDR)"
  using first_unit_decides [OF assms, of "\<lambda>b. is_avc b OBS_NAL_SLICE_IDR \<or> is_avc b OBS_NAL_SLICE"
      "\<lambda>b. is_avc b OBS_NAL_SLICE_IDR" al False]
  by (simp add: obs_avc_keyframe_def avc_keyframe_enter_def [abs_def])

section \<open>Headers\<close>

text \<open>The headers of a packet are taken out of it: parameter sets to one array, supplemental information to
  another, all else to the new packet, each unit with its start code and in its order, nothing lost.\<close>

theorem avc_headers_separated:
  assumes "\<forall>u \<in> set us. nal_ok (snd u)"
  shows "\<exists>st. obs_extract_avc_headers al (annexb us) = Some st \<and>
    headers_repr st
      (annexb (filter (\<lambda>u. \<not> (\<exists>t \<in> {OBS_NAL_SPS, OBS_NAL_PPS, OBS_NAL_SEI}. is_avc (hd (snd u)) t)) us))
      (annexb (filter (\<lambda>u. is_avc (hd (snd u)) OBS_NAL_SPS \<or> is_avc (hd (snd u)) OBS_NAL_PPS) us))
      (annexb (filter (\<lambda>u. is_avc (hd (snd u)) OBS_NAL_SEI) us))"
proof -
  have "avc_headers.unit_rest = (\<lambda>u. \<not> (\<exists>t \<in> {OBS_NAL_SPS, OBS_NAL_PPS, OBS_NAL_SEI}. is_avc (hd (snd u)) t))"
    by (auto simp: fun_eq_iff avc_headers.unit_rest_def avc_headers.unit_sei_def avc_headers.unit_header_def)
  moreover have "avc_headers.unit_header = (\<lambda>u. is_avc (hd (snd u)) OBS_NAL_SPS \<or> is_avc (hd (snd u)) OBS_NAL_PPS)"
    by (simp add: fun_eq_iff avc_headers.unit_header_def)
  moreover have "avc_headers.unit_sei = (\<lambda>u. is_avc (hd (snd u)) OBS_NAL_SEI)"
    unfolding fun_eq_iff avc_headers.unit_sei_def avc_headers.unit_header_def by (auto simp: is_avc_def)
  ultimately show ?thesis
    using avc_headers.extract_units [OF assms, of al] by (simp add: obs_extract_avc_headers_def)
qed

theorem avc_headers_separated_witness:
  "\<exists>st. obs_extract_avc_headers 1 (annexb [(True, [0x67, 1]), (False, [0x65, 2])]) = Some st \<and>
    headers_repr st (annexb [(False, [0x65, 2])]) (annexb [(True, [0x67, 1])]) (annexb [])"
proof -
  have "\<forall>u \<in> set [(True, [0x67, 1]), (False, [0x65, 2])]. nal_ok (snd u)" using sample_units_ok by blast
  from avc_headers_separated [OF this, of 1] show ?thesis by (simp add: is_avc_def avc_type_def)
qed

end
