(* ===== verification/Avc_Header.thy ===== *)
theory Avc_Header
  imports Avc_Packets
begin

text \<open>
  The configuration record of \<open>obs_parse_avc_header\<close>: the Exp-Golomb reader and the removal of the
  emulation prevention bytes are inverses of the codings of the standard, and the record is the one
  of the stream's parameter sets.
\<close>

section \<open>Exp-Golomb\<close>

fun nat_bits :: "nat \<Rightarrow> nat \<Rightarrow> bool list" where
  "nat_bits 0 v = []"
| "nat_bits (Suc k) v = nat_bits k (v div 2) @ [odd v]"

lemma length_nat_bits [simp]: "length (nat_bits k v) = k"
  by (induction k arbitrary: v) simp_all

lemma bits_nat_append: "bits_nat (bs @ [b]) = 2 * bits_nat bs + of_bool b"
  by (simp add: bits_nat_def)

lemma bits_nat_bits: "bits_nat (nat_bits k v) = v mod 2 ^ k"
proof (induction k arbitrary: v)
  case 0
  then show ?case by (simp add: bits_nat_def)
next
  case (Suc k)
  have "2 * (v div 2 mod 2 ^ k) + of_bool (odd v) = v mod (2 * 2 ^ k)"
    by (simp add: mod_mult2_eq odd_iff_mod_2_eq_one)
  with Suc show ?case by (simp add: bits_nat_append)
qed

text \<open>\<open>k\<close> zeros, a one, and the \<open>k\<close> low bits of the number plus one, which has \<open>k + 1\<close> of them.\<close>

definition ue_code :: "nat \<Rightarrow> nat \<Rightarrow> bool list" where
  "ue_code k v = replicate k False @ True # nat_bits k (v + 1)"

definition ue_size :: "nat \<Rightarrow> nat \<Rightarrow> bool" where
  "ue_size k v \<longleftrightarrow> 2 ^ k \<le> v + 1 \<and> v + 1 < 2 ^ (k + 1)"

lemma read_one: "reads r (b # bs) \<Longrightarrow> \<exists>r'. bitstream_reader_read_bits 1 r = (of_bool b, r') \<and> reads r' bs"
  using read_bits [of r "[b]" bs 1] by (auto simp: bits_nat_def)

lemma count_zeros_run:
  "reads r (replicate k False @ True # bs) \<Longrightarrow> k < n \<Longrightarrow> \<exists>r'. count_zeros n r = (k, r') \<and> reads r' bs"
proof (induction k arbitrary: r n)
  case 0
  then obtain n' where n: "n = Suc n'" by (cases n) auto
  from 0 read_one [of r True bs] n show ?case by auto
next
  case (Suc k)
  then obtain n' where n: "n = Suc n'" "k < n'" by (cases n) auto
  obtain r1 where r1: "bitstream_reader_read_bits 1 r = (of_bool False, r1)" "reads r1 (replicate k False @ True # bs)"
    using Suc.prems(1) read_one [of r False] by auto
  from Suc.IH [OF r1(2) n(2)] r1(1) n(1) show ?case by (auto simp: Let_def)
qed

lemma golomb_value: "(of_int (int (unat (of_nat a :: byte)) + 2 ^ k - 1) :: byte) = of_nat a + 2 ^ k - 1"
  by simp

lemma golomb_roundtrip_core:
  assumes "reads gb (ue_code k v @ rest)" "ue_size k v" "k < 31"
  shows "\<exists>gb'. get_ue_golomb gb = Some (of_nat v, gb') \<and> reads gb' rest"
proof -
  obtain g1 where g1: "count_zeros 32 gb = (k, g1)" "reads g1 (nat_bits k (v + 1) @ rest)"
    using count_zeros_run [of gb k "nat_bits k (v + 1) @ rest" 32] assms(1,3) by (auto simp: ue_code_def)
  obtain g2 where g2: "bitstream_reader_read_bits k g1 = (of_nat ((v + 1) mod 2 ^ k), g2)" "reads g2 rest"
    using read_bits [OF g1(2), of k] by (auto simp: bits_nat_bits)
  obtain w where "v + 1 = 2 ^ k + w" "w < 2 ^ k"
    using assms(2) le_Suc_ex [of "2 ^ k" "v + 1"] by (auto simp: ue_size_def)
  then have "(v + 1) mod 2 ^ k + 2 ^ k = v + 1" by simp
  then have "(of_nat ((v + 1) mod 2 ^ k) + 2 ^ k :: byte) = of_nat (v + 1)"
    by (metis of_nat_add of_nat_numeral of_nat_power)
  then have "(of_int (int (unat (of_nat ((v + 1) mod 2 ^ k) :: byte)) + 2 ^ k - 1) :: byte) = of_nat v"
    by (simp add: golomb_value)
  then show ?thesis using g1 g2 assms(3) by (simp only: get_ue_golomb_def Let_def case_prod_conv if_True) simp
qed

section \<open>Emulation prevention\<close>

text \<open>The writer: \<open>z\<close> zeros have just been written.\<close>

fun escape :: "nat \<Rightarrow> byte list \<Rightarrow> byte list" where
  "escape z [] = []"
| "escape z (b # bs) =
     (if z \<ge> 2 \<and> b \<le> 3 then 3 # b # escape (if b = 0 then 1 else 0) bs
      else b # escape (if b = 0 then z + 1 else 0) bs)"

lemma extract_nonzero: "x \<noteq> 0 \<Longrightarrow> extract_rbsp (x # xs) = x # extract_rbsp xs"
  by (cases xs rule: extract_rbsp.cases) auto

lemma extract_second: "y \<noteq> 0 \<Longrightarrow> extract_rbsp (0 # y # xs) = 0 # y # extract_rbsp xs"
  using extract_nonzero [of y xs] by (cases xs) auto

lemma extract_third: "z \<noteq> 3 \<Longrightarrow> z \<noteq> 0 \<Longrightarrow> extract_rbsp (0 # 0 # z # xs) = 0 # 0 # z # extract_rbsp xs"
  using extract_second [of z xs] by simp

lemma extract_escape_from:
  "extract_rbsp (escape 0 bs) = bs \<and> extract_rbsp (0 # escape 1 bs) = 0 # bs \<and> extract_rbsp (0 # 0 # escape 2 bs) = 0 # 0 # bs"
proof (induction bs)
  case (Cons b bs)
  note a = conjunct1 [OF Cons.IH] and b1 = conjunct1 [OF conjunct2 [OF Cons.IH]] and b2 = conjunct2 [OF conjunct2 [OF Cons.IH]]
  show ?case
  proof (cases "b = 0")
    case True
    then show ?thesis using a b1 b2 by (simp add: numeral_2_eq_2)
  next
    case False
    then show ?thesis using a extract_nonzero [of b "escape 0 bs"] extract_second [of b "escape 0 bs"] extract_third [of b "escape 0 bs"]
      by auto
  qed
qed simp

section \<open>The fields of a high profile\<close>

text \<open>
  The bits of the escaped payload of a sequence parameter set: three bytes, the id, the chroma format
  (format 3 has a flag), the two depths.
\<close>

definition sps_fields :: "byte list \<Rightarrow> nat \<Rightarrow> nat \<Rightarrow> nat \<Rightarrow> bool" where
  "sps_fields sps chroma luma depth \<longleftrightarrow>
     (\<exists>payload start k0 id k1 flag k2 k3 rest.
        drop 1 sps = escape 0 payload \<and> length payload \<le> 255 \<and> length start = 24 \<and>
        bits_of_bytes payload = start @ ue_code k0 id @ ue_code k1 chroma @
          (if chroma mod 256 = 3 then [flag] else []) @ ue_code k2 luma @ ue_code k3 depth @ rest \<and>
        ue_size k0 id \<and> ue_size k1 chroma \<and> ue_size k2 luma \<and> ue_size k3 depth \<and>
        k0 < 31 \<and> k1 < 31 \<and> k2 < 31 \<and> k3 < 31)"

lemma high_params:
  assumes "sps_fields sps chroma luma depth"
  shows "get_sps_high_params (drop 1 sps) = Some (of_nat chroma, of_nat luma, of_nat depth)"
proof -
  from assms obtain payload start k0 id k1 flag k2 k3 rest where
    p: "drop 1 sps = escape 0 payload" "length payload \<le> 255" "length start = 24"
    and bits: "bits_of_bytes payload = start @ ue_code k0 id @ ue_code k1 chroma @
      (if chroma mod 256 = 3 then [flag] else []) @ ue_code k2 luma @ ue_code k3 depth @ rest"
    and size: "ue_size k0 id" "ue_size k1 chroma" "ue_size k2 luma" "ue_size k3 depth" "k0 < 31" "k1 < 31" "k2 < 31" "k3 < 31"
    unfolding sps_fields_def by blast
  let ?g = "bitstream_reader_init payload (length payload)"
  have x: "extract_rbsp (drop 1 sps) = payload" unfolding p(1) using extract_escape_from by blast
  have r: "reads ?g (bits_of_bytes payload)" using reads_start [of payload] p(2) by simp
  obtain v1 g1 where g1: "bitstream_reader_read_bits 24 ?g = (v1, g1)"
    "reads g1 (ue_code k0 id @ ue_code k1 chroma @ (if chroma mod 256 = 3 then [flag] else []) @
      ue_code k2 luma @ ue_code k3 depth @ rest)"
    using read_bits [OF r [unfolded bits], of 24] p(3) by auto
  obtain g2 where g2: "get_ue_golomb g1 = Some (of_nat id, g2)"
    "reads g2 (ue_code k1 chroma @ (if chroma mod 256 = 3 then [flag] else []) @ ue_code k2 luma @ ue_code k3 depth @ rest)"
    using golomb_roundtrip_core [OF g1(2) size(1,5)] by blast
  obtain g3 where g3: "get_ue_golomb g2 = Some (of_nat chroma, g3)"
    "reads g3 ((if chroma mod 256 = 3 then [flag] else []) @ ue_code k2 luma @ ue_code k3 depth @ rest)"
    using golomb_roundtrip_core [OF g2(2) size(2,6)] by blast
  have three: "(of_nat chroma = (3 :: byte)) = (chroma mod 256 = 3)"
    by (simp add: word_unat_eq_iff unat_of_nat)
  obtain g4 where g4: "(if of_nat chroma = (3 :: byte) then snd (bitstream_reader_read_bits 1 g3) else g3) = g4"
    "reads g4 (ue_code k2 luma @ ue_code k3 depth @ rest)"
    using g3(2) read_one [of g3 flag "ue_code k2 luma @ ue_code k3 depth @ rest"]
    by (cases "chroma mod 256 = 3") (auto simp: three)
  obtain g5 where g5: "get_ue_golomb g4 = Some (of_nat luma, g5)" "reads g5 (ue_code k3 depth @ rest)"
    using golomb_roundtrip_core [OF g4(2) size(3,7)] by blast
  obtain g6 where g6: "get_ue_golomb g5 = Some (of_nat depth, g6)"
    using golomb_roundtrip_core [OF g5(2) size(4,8)] by blast
  show ?thesis
    unfolding get_sps_high_params_def Let_def x g1(1) case_prod_conv g2(1) bind.bind_lunit g3(1) g4(1) g5(1) g6 ..
qed

section \<open>The parameter sets of a stream\<close>

definition last_unit :: "obs_nal_type \<Rightarrow> nal_unit list \<Rightarrow> byte list option" where
  "last_unit t us = fold (\<lambda>u r. if is_avc (hd (snd u)) t then Some (snd u) else r) us None"

definition noted :: "byte list \<Rightarrow> (nat \<times> nat) option \<Rightarrow> byte list option \<Rightarrow> bool" where
  "noted m p x \<longleftrightarrow> (case p of None \<Rightarrow> x = None
     | Some (s, n) \<Rightarrow> \<exists>c. x = Some c \<and> n = length c \<and> mem_read s n m = Some c)"

lemma sps_pps_walk:
  "\<forall>u \<in> set us. nal_ok (snd u) \<Longrightarrow> m = pre @ annexb us \<Longrightarrow> noted m p x \<Longrightarrow> noted m q y \<Longrightarrow>
    \<exists>p' q'. nal_walk (\<lambda>b st. Inr st) note_sps_pps al m (length pre) (p, q) = Some (p', q') \<and>
      noted m p' (fold (\<lambda>u r. if is_avc (hd (snd u)) OBS_NAL_SPS then Some (snd u) else r) us x) \<and>
      noted m q' (fold (\<lambda>u r. if is_avc (hd (snd u)) OBS_NAL_PPS then Some (snd u) else r) us y)"
proof (induction us arbitrary: pre p q x y)
  case Nil
  then show ?case by (simp add: nal_walk.simps nal_skip_end)
next
  case (Cons u us)
  have m: "m = pre @ unit_bytes u @ annexb us" "m = (pre @ unit_bytes u) @ annexb us" using Cons.prems(2) by simp_all
  let ?s = "length pre + length (startcode (fst u))" and ?n = "length (snd u)"
  let ?p = "if is_avc (hd (snd u)) OBS_NAL_SPS then Some (?s, ?n) else p"
  let ?q = "if is_avc (hd (snd u)) OBS_NAL_PPS then Some (?s, ?n) else q"
  let ?x = "if is_avc (hd (snd u)) OBS_NAL_SPS then Some (snd u) else x"
  let ?y = "if is_avc (hd (snd u)) OBS_NAL_PPS then Some (snd u) else y"
  have n: "length pre + length (unit_bytes u) - ?s = ?n" by (simp add: unit_bytes_def)
  have both: "\<not> (is_avc (hd (snd u)) OBS_NAL_SPS \<and> is_avc (hd (snd u)) OBS_NAL_PPS)" by (simp add: is_avc_def)
  have nt: "note_sps_pps (length pre) (hd (snd u)) ?s (length pre + length (unit_bytes u)) (p, q) = Some (?p, ?q)"
    unfolding note_sps_pps_def n using both by simp
  have step: "nal_walk (\<lambda>b st. Inr st) note_sps_pps al m (length pre) (p, q) =
      nal_walk (\<lambda>b st. Inr st) note_sps_pps al m (length (pre @ unit_bytes u)) (?p, ?q)"
    unfolding nal_walk_step(1) [OF Cons.prems(1) m(1)] nal_walk_step(2) [OF Cons.prems(1) m(1)] sum.case nt option.case by simp
  have r: "mem_read ?s ?n m = Some (snd u)"
    using m(1) mem_read_at [of _ "pre @ startcode (fst u)" _ "snd u" "annexb us"] by (simp add: unit_bytes_def)
  have "noted m ?p ?x" "noted m ?q ?y" using Cons.prems(3,4) r by (auto simp: noted_def)
  from Cons.IH [OF _ m(2) this] Cons.prems(1) show ?case unfolding step fold.simps comp_def by simp
qed

lemma get_sps_pps_units:
  assumes "\<forall>u \<in> set us. nal_ok (snd u)"
  shows "\<exists>p q. get_sps_pps al (annexb us) = Some (p, q) \<and>
    noted (annexb us) p (last_unit OBS_NAL_SPS us) \<and> noted (annexb us) q (last_unit OBS_NAL_PPS us)"
proof -
  have "noted (annexb us) None None" by (simp add: noted_def)
  from sps_pps_walk [OF assms _ this this, of "[]" al] show ?thesis
    by (simp add: get_sps_pps_def nal_loop_def find_first_unit [OF assms] last_unit_def)
qed

section \<open>The record\<close>

definition avc_record :: "byte list \<Rightarrow> byte list \<Rightarrow> byte list" where
  "avc_record sps pps =
     [1] @ take 3 (drop 1 sps) @ [0xff, 0xe1] @ be_bytes 2 (length sps) @ sps @ [1] @ be_bytes 2 (length pps) @ pps"

definition ser_has :: "ser \<Rightarrow> byte list \<Rightarrow> bool" where
  "ser_has s bs = ser_repr s (bs, length bs)"

lemma ser_has_start: "ser_has array_output_serializer_init []"
  using ser_repr_init by (simp add: ser_has_def)

lemma ser_has_puts: "puts w xs \<Longrightarrow> ser_has s bs \<Longrightarrow> \<exists>s'. w s = Some s' \<and> ser_has s' (bs @ xs)"
  unfolding puts_def ser_has_def by (force simp: file_put_def)

lemma ser_has_write: "ser_has s bs \<Longrightarrow> \<exists>s'. s_write s xs = Some (s', length xs) \<and> ser_has s' (bs @ xs)"
  using ser_write_opt [of s "(bs, length bs)" xs] by (simp add: ser_has_def file_put_def)

lemma ser_has_bytes:
  "ser_has s bs \<Longrightarrow> mem_bytes 0 (da_num (ao_bytes s)) (da_array (ao_bytes s)) = Some bs \<and> da_num (ao_bytes s) = length bs"
  using mem_bytes_at [of 0 "[]" "length bs" bs] by (auto simp: ser_has_def ser_repr_def da_repr_def)

lemma start_code_there:
  assumes "\<forall>u \<in> set us. nal_ok (snd u)" "us \<noteq> []"
  shows "has_start_code (annexb us) = Some True"
proof -
  obtain f n us' where us: "us = (f, n) # us'" using assms(2) by (metis neq_Nil_conv surj_pair)
  then have "n \<noteq> []" using assms(1) by (auto simp: nal_ok_def)
  then obtain b n' where "n = b # n'" by (cases n) auto
  with us show ?thesis by (cases f) (simp_all add: has_start_code_def byte_is_def unit_bytes_def startcode_def)
qed

lemma write_high:
  assumes "ser_has out bs"
  shows "sps_fields sps chroma luma depth \<Longrightarrow>
    \<exists>out'. write_high_params sps out = Some out' \<and>
      ser_has out' (bs @ [0xfc OR of_nat chroma, 0xf8 OR of_nat luma, 0xf8 OR of_nat depth, 0])"
proof -
  assume f: "sps_fields sps chroma luma depth"
  obtain o1 where o1: "s_w8 (0xfc OR of_nat chroma) out = Some o1" "ser_has o1 (bs @ [0xfc OR of_nat chroma])"
    using ser_has_puts [OF puts_w8 assms] by blast
  obtain o2 where o2: "s_w8 (0xf8 OR of_nat luma) o1 = Some o2" "ser_has o2 ((bs @ [0xfc OR of_nat chroma]) @ [0xf8 OR of_nat luma])"
    using ser_has_puts [OF puts_w8 o1(2)] by blast
  obtain o3 where o3: "s_w8 (0xf8 OR of_nat depth) o2 = Some o3"
    "ser_has o3 (((bs @ [0xfc OR of_nat chroma]) @ [0xf8 OR of_nat luma]) @ [0xf8 OR of_nat depth])"
    using ser_has_puts [OF puts_w8 o2(2)] by blast
  obtain o4 where o4: "s_w8 0 o3 = Some o4"
    "ser_has o4 ((((bs @ [0xfc OR of_nat chroma]) @ [0xf8 OR of_nat luma]) @ [0xf8 OR of_nat depth]) @ [0])"
    using ser_has_puts [OF puts_w8 o3(2)] by blast
  show ?thesis using o1(1) o2(1) o3(1) o4 by (simp add: write_high_params_def high_params [OF f, unfolded One_nat_def])
qed

lemma last_unit_in: "last_unit t us = Some c \<Longrightarrow> \<exists>u \<in> set us. snd u = c"
proof -
  have "fold (\<lambda>u r. if is_avc (hd (snd u)) t then Some (snd u) else r) us x = Some c \<Longrightarrow>
      (\<exists>u \<in> set us. snd u = c) \<or> x = Some c" for x
    by (induction us arbitrary: x) (auto split: if_splits)
  then show "last_unit t us = Some c \<Longrightarrow> \<exists>u \<in> set us. snd u = c" by (auto simp: last_unit_def)
qed

lemma annexb_long: "u \<in> set us \<Longrightarrow> length (unit_bytes u) \<le> length (annexb us)"
  by (induction us) auto

lemma u16_length: "n < 65536 \<Longrightarrow> unat (of_nat n :: u16) = n"
  by (simp add: unat_of_nat)

text \<open>C13: from a stream with parameter sets the function makes the configuration record of the last ones: profile and
  level, both sets with their lengths, and for the high profiles the chroma format and the depths that the set has in
  its escaped bits.\<close>

theorem avc_header_record:
  assumes us: "\<forall>u \<in> set us. nal_ok (snd u)"
    and sets: "last_unit OBS_NAL_SPS us = Some sps" "last_unit OBS_NAL_PPS us = Some pps"
    and size: "4 \<le> length sps" "length sps < 65536" "length pps < 65536"
    and fields: "high_profile (sps ! 1) \<longrightarrow> sps_fields sps chroma luma depth"
  shows "obs_parse_avc_header al (annexb us) =
    (let record = avc_record sps pps @ (if high_profile (sps ! 1)
         then [0xfc OR of_nat chroma, 0xf8 OR of_nat luma, 0xf8 OR of_nat depth, 0] else [])
     in Some (Some record, length record))"
proof -
  let ?m = "annexb us"
  let ?high = "if high_profile (sps ! 1) then [0xfc OR of_nat chroma, 0xf8 OR of_nat luma, 0xf8 OR of_nat depth, 0] else []"
  obtain u where u: "u \<in> set us" "snd u = sps" using last_unit_in [OF sets(1)] by blast
  have "us \<noteq> []" using u by auto
  note coded = start_code_there [OF us this]
  have long: "\<not> length ?m \<le> 6" using annexb_long [OF u(1)] u(2) size(1) by (auto simp: unit_bytes_def startcode_def split: if_splits)
  obtain s n s' n' where found: "get_sps_pps al ?m = Some (Some (s, n), Some (s', n'))"
    and n: "n = length sps" "n' = length pps" and read: "mem_read s n ?m = Some sps" "mem_read s' n' ?m = Some pps"
    using get_sps_pps_units [OF us, of al] sets by (auto simp: noted_def split: option.splits)
  have small: "\<not> n < 4" using n(1) size(1) by simp
  obtain o1 where o1: "s_w8 0x01 array_output_serializer_init = Some o1" "ser_has o1 ([] @ [0x01])"
    using ser_has_puts [OF puts_w8 ser_has_start] by blast
  obtain k2 o2 where o2: "s_write o1 (take 3 (drop 1 sps)) = Some (o2, k2)" "ser_has o2 (([] @ [0x01]) @ take 3 (drop 1 sps))"
    using ser_has_write [OF o1(2)] by blast
  obtain o3 where o3: "s_w8 0xff o2 = Some o3" "ser_has o3 ((([] @ [0x01]) @ take 3 (drop 1 sps)) @ [0xff])"
    using ser_has_puts [OF puts_w8 o2(2)] by blast
  obtain o4 where o4: "s_w8 0xe1 o3 = Some o4" "ser_has o4 (((([] @ [0x01]) @ take 3 (drop 1 sps)) @ [0xff]) @ [0xe1])"
    using ser_has_puts [OF puts_w8 o3(2)] by blast
  obtain o5 where o5: "s_wb16 (of_nat n) o4 = Some o5"
    "ser_has o5 ((((([] @ [0x01]) @ take 3 (drop 1 sps)) @ [0xff]) @ [0xe1]) @ be_bytes 2 (length sps))"
    using ser_has_puts [OF puts_b16 o4(2), of "of_nat n"] u16_length [OF size(2)] n(1) by auto
  obtain k6 o6 where o6: "s_write o5 sps = Some (o6, k6)"
    "ser_has o6 (((((([] @ [0x01]) @ take 3 (drop 1 sps)) @ [0xff]) @ [0xe1]) @ be_bytes 2 (length sps)) @ sps)"
    using ser_has_write [OF o5(2)] by blast
  obtain o7 where o7: "s_w8 0x01 o6 = Some o7"
    "ser_has o7 ((((((([] @ [0x01]) @ take 3 (drop 1 sps)) @ [0xff]) @ [0xe1]) @ be_bytes 2 (length sps)) @ sps) @ [0x01])"
    using ser_has_puts [OF puts_w8 o6(2)] by blast
  obtain o8 where o8: "s_wb16 (of_nat n') o7 = Some o8"
    "ser_has o8 (((((((([] @ [0x01]) @ take 3 (drop 1 sps)) @ [0xff]) @ [0xe1]) @ be_bytes 2 (length sps)) @ sps) @ [0x01]) @ be_bytes 2 (length pps))"
    using ser_has_puts [OF puts_b16 o7(2), of "of_nat n'"] u16_length [OF size(3)] n(2) by auto
  obtain k9 o9 where o9: "s_write o8 pps = Some (o9, k9)" "ser_has o9 (avc_record sps pps)"
    using ser_has_write [OF o8(2), of pps] by (auto simp: avc_record_def)
  obtain o10 where o10: "(if high_profile (sps ! 1) then write_high_params sps o9 else Some o9) = Some o10"
    "ser_has o10 (avc_record sps pps @ ?high)"
    using write_high [OF o9(2), of sps chroma luma depth] o9(2) fields by (cases "high_profile (sps ! 1)") auto
  show ?thesis
    unfolding obs_parse_avc_header_def if_not_P [OF long] coded bind.bind_lunit not_True_eq_False if_False found option.case
      case_prod_conv if_not_P [OF small] read o1(1) o2(1) o3(1) o4(1) o5(1) o6(1) o7(1) o8(1) o9(1) o10(1)
      conjunct1 [OF ser_has_bytes [OF o10(2)]]
    unfolding conjunct2 [OF ser_has_bytes [OF o10(2)]] Let_def by (rule refl)
qed

definition sample_high :: "nal_unit list" where
  "sample_high = [(True, [0x67, 100, 0, 31, 0xae]), (True, [0x68, 0xee]), (False, [0x65, 1])]"

lemma sample_high_fields: "sps_fields [0x67, 100, 0, 31, 0xae] 1 0 0"
  unfolding sps_fields_def
proof (intro exI conjI)
  show "drop 1 [0x67, 100, 0, 31, 0xae] = escape 0 [100, 0, 31, 0xae :: byte]" by simp
  show "bits_of_bytes [100, 0, 31, 0xae] = bits_of_bytes [100, 0, 31] @ ue_code 0 0 @ ue_code 1 1 @
      (if (1 :: nat) mod 256 = 3 then [False] else []) @ ue_code 0 0 @ ue_code 0 0 @ [True, False]"
    by (simp add: bits_of_def ue_code_def upt_rec)
qed (simp_all add: ue_size_def)

theorem avc_header_record_witness:
  "obs_parse_avc_header 2 (annexb sample_high) =
    Some (Some (avc_record [0x67, 100, 0, 31, 0xae] [0x68, 0xee] @ [0xfd, 0xf8, 0xf8, 0]), 22)"
proof -
  have "\<forall>u \<in> set sample_high. nal_ok (snd u)" by (simp add: sample_high_def nal_ok_simps)
  moreover have "last_unit OBS_NAL_SPS sample_high = Some [0x67, 100, 0, 31, 0xae]"
    "last_unit OBS_NAL_PPS sample_high = Some [0x68, 0xee]"
    by (simp_all add: sample_high_def last_unit_def is_avc_def avc_type_def)
  ultimately show ?thesis
    using avc_header_record [of sample_high "[0x67, 100, 0, 31, 0xae]" "[0x68, 0xee]" 1 0 0 2] sample_high_fields
    by (simp add: high_profile_def avc_record_def)
qed

end
