(* ===== verification/Hevc.thy ===== *)
theory Hevc
  imports Nal_Packets
begin

text \<open>
  The H.265 helpers of \<open>libobs/obs-hevc.c\<close>: the functions of the H.264 file with the unit types and
  priorities of this standard, and their properties from the same locales.
\<close>

section \<open>Units\<close>

definition OBS_HEVC_NAL_BLA_W_LP :: nat where "OBS_HEVC_NAL_BLA_W_LP = 16"
definition OBS_HEVC_NAL_RSV_IRAP_VCL23 :: nat where "OBS_HEVC_NAL_RSV_IRAP_VCL23 = 23"
definition OBS_HEVC_NAL_VPS :: nat where "OBS_HEVC_NAL_VPS = 32"
definition OBS_HEVC_NAL_SPS :: nat where "OBS_HEVC_NAL_SPS = 33"
definition OBS_HEVC_NAL_PPS :: nat where "OBS_HEVC_NAL_PPS = 34"
definition OBS_HEVC_NAL_SEI_PREFIX :: nat where "OBS_HEVC_NAL_SEI_PREFIX = 39"
definition OBS_HEVC_NAL_SEI_SUFFIX :: nat where "OBS_HEVC_NAL_SEI_SUFFIX = 40"

lemmas hevc_types = OBS_HEVC_NAL_BLA_W_LP_def OBS_HEVC_NAL_RSV_IRAP_VCL23_def OBS_HEVC_NAL_VPS_def
  OBS_HEVC_NAL_SPS_def OBS_HEVC_NAL_PPS_def OBS_HEVC_NAL_SEI_PREFIX_def OBS_HEVC_NAL_SEI_SUFFIX_def

definition hevc_type :: "byte \<Rightarrow> nat" where
  "hevc_type b = unat (drop_bit 1 (b AND 0x7F))"

definition obs_hevc_keyframe :: "nat \<Rightarrow> byte list \<Rightarrow> bool option" where
  "obs_hevc_keyframe al data =
     nal_loop
       (\<lambda>b st. if hevc_type b \<le> OBS_HEVC_NAL_RSV_IRAP_VCL23 then Inl (hevc_type b \<ge> OBS_HEVC_NAL_BLA_W_LP) else Inr st)
       keep_state al data False"

section \<open>Packets\<close>

text \<open>
  The cases of the \<open>switch\<close>: IRAP pictures (16 to 23), reference pictures of a sub-layer (the odd types
  up to 9), the others (the even types up to 8 and all else).
\<close>

definition compute_hevc_keyframe_priority :: "byte \<Rightarrow> bool \<times> int \<Rightarrow> bool \<times> int" where
  "compute_hevc_keyframe_priority b st =
     (let (is_keyframe, priority) = st;
          type = hevc_type b;
          (is_keyframe, new_priority) =
            (if type \<in> {16, 17, 18, 19, 20, 21, 22, 23} then (True, 3)
             else if type \<in> {1, 3, 5, 7, 9} then (is_keyframe, 2)
             else if type \<in> {0, 2, 4, 6, 8} then (is_keyframe, 0)
             else (is_keyframe, 0))
      in (is_keyframe, if priority > new_priority then priority else new_priority))"

definition serialize_hevc_data :: "nat \<Rightarrow> byte list \<Rightarrow> ser \<Rightarrow> bool \<times> int \<Rightarrow> (ser \<times> bool \<times> int) option" where
  "serialize_hevc_data al data out k =
     nal_loop (\<lambda>b (out, k). Inr (out, compute_hevc_keyframe_priority b k)) (write_unit data) al data (out, k)"

definition obs_parse_hevc_packet :: "nat \<Rightarrow> encoder_packet \<Rightarrow> encoder_packet option" where
  "obs_parse_hevc_packet al src = do {
     (out, n) \<leftarrow> serialize array_output_serializer_init (le_bytes 8 1);
     (out, keyframe, priority) \<leftarrow> serialize_hevc_data al (pk_data src) out (pk_keyframe src, pk_priority src);
     data \<leftarrow> packet_bytes out;
     Some (src\<lparr>pk_data := data, pk_keyframe := keyframe, pk_priority := priority, pk_drop_priority := priority\<rparr>)
   }"

definition obs_parse_hevc_packet_priority :: "nat \<Rightarrow> encoder_packet \<Rightarrow> int option" where
  "obs_parse_hevc_packet_priority al packet =
     map_option snd
       (nal_loop (\<lambda>b k. Inr (compute_hevc_keyframe_priority b k)) keep_state al (pk_data packet) (False, pk_priority packet))"

section \<open>Headers\<close>

definition sort_hevc_unit :: "byte list \<Rightarrow> nat \<Rightarrow> byte \<Rightarrow> nat \<Rightarrow> nat \<Rightarrow> extracted_headers \<Rightarrow> extracted_headers option" where
  "sort_hevc_unit m i b s e st =
     (let type = hevc_type b
      in if type = OBS_HEVC_NAL_VPS \<or> type = OBS_HEVC_NAL_SPS \<or> type = OBS_HEVC_NAL_PPS
         then map_option (\<lambda>d. st\<lparr>eh_header := d\<rparr>) (push_bytes m i (e - i) (eh_header st))
         else if type = OBS_HEVC_NAL_SEI_PREFIX \<or> type = OBS_HEVC_NAL_SEI_SUFFIX
         then map_option (\<lambda>d. st\<lparr>eh_sei := d\<rparr>) (push_bytes m i (e - i) (eh_sei st))
         else map_option (\<lambda>d. st\<lparr>eh_new_packet := d\<rparr>) (push_bytes m i (e - i) (eh_new_packet st)))"

definition obs_extract_hevc_headers :: "nat \<Rightarrow> byte list \<Rightarrow> extracted_headers option" where
  "obs_extract_hevc_headers al packet = nal_loop (\<lambda>b st. Inr st) (sort_hevc_unit packet) al packet no_headers"

section \<open>Streams of units\<close>

definition hevc_irap :: "byte \<Rightarrow> bool" where
  "hevc_irap b = (16 \<le> hevc_type b \<and> hevc_type b \<le> 23)"

definition hevc_level :: "byte \<Rightarrow> int" where
  "hevc_level b = (if hevc_irap b then 3 else if odd (hevc_type b) \<and> hevc_type b < 10 then 2 else 0)"

lemma low_types: "(n \<in> {1, 3, 5, 7, 9}) = (odd n \<and> n < 10)" "(n \<in> {16, 17, 18, 19, 20, 21, 22, 23}) = (16 \<le> n \<and> n \<le> 23)"
  for n :: nat
  by (auto, presburger+)

interpretation hevc: packet_codec compute_hevc_keyframe_priority hevc_irap hevc_level
proof
  show "compute_hevc_keyframe_priority b (kf, p) = (kf \<or> hevc_irap b, max p (hevc_level b))" for b kf p
    unfolding compute_hevc_keyframe_priority_def Let_def case_prod_conv low_types hevc_level_def hevc_irap_def
    by (auto simp: max_def)
qed

interpretation hevc_headers: header_codec sort_hevc_unit
  "\<lambda>b. hevc_type b \<in> {OBS_HEVC_NAL_VPS, OBS_HEVC_NAL_SPS, OBS_HEVC_NAL_PPS}"
  "\<lambda>b. hevc_type b \<in> {OBS_HEVC_NAL_SEI_PREFIX, OBS_HEVC_NAL_SEI_SUFFIX}"
  by unfold_locales (simp add: sort_hevc_unit_def Let_def)

text \<open>C34: a packet of H.265 units is turned into the same units with their lengths; it is a keyframe if it was one
  or a unit is a random access picture, which also gives it the highest priority, reference pictures the next one.\<close>

theorem hevc_packet_roundtrip:
  assumes us: "\<forall>u \<in> set us. nal_ok (snd u) \<and> length (snd u) < 2 ^ 32" and src: "pk_data src = annexb us"
  shows "\<exists>pk. obs_parse_hevc_packet al src = Some pk \<and> length_split (pk_data pk) = Some (map snd us) \<and>
    pk_keyframe pk = (pk_keyframe src \<or> (\<exists>u \<in> set us. hevc_irap (hd (snd u)))) \<and>
    pk_priority pk = fold max (map (\<lambda>u. hevc_level (hd (snd u))) us) (pk_priority src) \<and>
    pk_drop_priority pk = pk_priority pk \<and> obs_parse_hevc_packet_priority al src = Some (pk_priority pk)"
  by (rule hevc.parse_units [OF us src])
    (simp_all only: obs_parse_hevc_packet_def serialize_hevc_data_def obs_parse_hevc_packet_priority_def)

definition sample_hevc :: encoder_packet where
  "sample_hevc = \<lparr>pk_data = annexb [(True, [0x40, 1]), (False, [0x26, 1])], pk_pts = 0, pk_dts = 0, pk_timebase_num = 1,
     pk_timebase_den = 30, pk_type = OBS_ENCODER_VIDEO, pk_keyframe = False, pk_dts_usec = 0, pk_sys_dts_usec = 0,
     pk_priority = 0, pk_drop_priority = 0, pk_track_idx = 0, pk_encoder = 0\<rparr>"

theorem hevc_packet_roundtrip_witness:
  "\<exists>pk. obs_parse_hevc_packet 1 sample_hevc = Some pk \<and> length_split (pk_data pk) = Some [[0x40, 1], [0x26, 1]] \<and>
    pk_keyframe pk \<and> pk_priority pk = 3"
proof -
  have us: "\<forall>u \<in> set [(True, [0x40, 1]), (False, [0x26, 1])]. nal_ok (snd u) \<and> length (snd u) < 2 ^ 32"
    by (simp add: nal_ok_simps)
  have "pk_data sample_hevc = annexb [(True, [0x40, 1]), (False, [0x26, 1])]" by (simp add: sample_hevc_def)
  from hevc_packet_roundtrip [OF us this, of 1] show ?thesis
    by (auto simp: hevc_irap_def hevc_level_def hevc_type_def sample_hevc_def)
qed

text \<open>The first picture decides whether a stream is a keyframe; the headers are separated without loss.\<close>

lemma hevc_keyframe_first_picture:
  assumes "\<forall>u \<in> set us. nal_ok (snd u)"
  shows "obs_hevc_keyframe al (annexb us) =
    Some (case List.find (\<lambda>u. hevc_type (hd (snd u)) \<le> 23) us of None \<Rightarrow> False | Some u \<Rightarrow> hevc_irap (hd (snd u)))"
proof -
  have "hevc_irap (hd (snd u)) = (16 \<le> hevc_type (hd (snd u)))"
    if "List.find (\<lambda>u. hevc_type (hd (snd u)) \<le> 23) us = Some u" for u
    using that by (auto simp: find_Some_iff hevc_irap_def)
  then show ?thesis
    using first_unit_decides [OF assms, of "\<lambda>b. hevc_type b \<le> 23" "\<lambda>b. 16 \<le> hevc_type b" al False]
    unfolding obs_hevc_keyframe_def hevc_types by (auto split: option.splits)
qed

lemma hevc_headers_separated:
  "\<forall>u \<in> set us. nal_ok (snd u) \<Longrightarrow>
    \<exists>st. obs_extract_hevc_headers al (annexb us) = Some st \<and>
      headers_repr st (annexb (filter hevc_headers.unit_rest us)) (annexb (filter hevc_headers.unit_header us))
        (annexb (filter hevc_headers.unit_sei us))"
  unfolding obs_extract_hevc_headers_def by (rule hevc_headers.extract_units)

end
