(* ===== verification/Av1.thy ===== *)
theory Av1
  imports Darray_List
begin

text \<open>
  The AV1 helpers of \<open>libobs/obs-av1.c\<close>: sizes in LEB128, the header of an open bitstream unit (OBU),
  metadata units, the keyframe test and the copy of the headers. A packet is the list of its bytes, a
  pointer an index; \<^term>\<open>None\<close> is an access outside of the packet or a shift that C leaves undefined.
\<close>

section \<open>Sizes\<close>

text \<open>\<open>(leb128_byte & 0x7f) << (i * 7)\<close> is an \<open>int\<close> of 32 bits.\<close>

definition int_shift :: "nat \<Rightarrow> nat \<Rightarrow> nat option" where
  "int_shift x k = (if k < 32 \<and> x * 2 ^ k < 2 ^ 31 then Some (x * 2 ^ k) else None)"

fun leb128_loop :: "nat \<Rightarrow> byte list \<Rightarrow> nat \<Rightarrow> nat \<Rightarrow> nat \<Rightarrow> u64 \<Rightarrow> nat \<Rightarrow> (u64 \<times> nat) option" where
  "leb128_loop 0 m p avail i val len = Some (val, len)"
| "leb128_loop (Suc n) m p avail i val len =
     (if avail < 1 then Some (val, len)
      else if p + i \<ge> length m then None
      else
        let b = m ! (p + i)
        in case int_shift (unat (b AND 0x7f)) (i * 7) of
             None \<Rightarrow> None
           | Some x \<Rightarrow>
               let val = val OR of_nat x
               in if b AND 0x80 = 0 then Some (val, len + 1)
                  else leb128_loop n m p (avail - 1) (i + 1) val (len + 1))"

definition leb128 :: "byte list \<Rightarrow> nat \<Rightarrow> nat \<Rightarrow> (u64 \<times> nat) option" where
  "leb128 m p avail = leb128_loop 8 m p avail 0 0 0"

text \<open>The bytes written, from the pending byte and the rest of the value.\<close>

function uleb_loop :: "byte \<Rightarrow> nat \<Rightarrow> byte list" where
  "uleb_loop b val = (if val > 0 then (b OR 0x80) # uleb_loop (of_nat (val mod 128)) (val div 128) else [b])"
  by pat_completeness auto

termination uleb_loop
  by (relation "measure snd") auto

definition encode_uleb128 :: "nat \<Rightarrow> byte list" where
  "encode_uleb128 val = uleb_loop (of_nat (val mod 128)) (val div 128)"

section \<open>Units\<close>

datatype obs_obu_type =
    OBS_OBU_SEQUENCE_HEADER | OBS_OBU_TEMPORAL_DELIMITER | OBS_OBU_FRAME_HEADER | OBS_OBU_TILE_GROUP
  | OBS_OBU_METADATA | OBS_OBU_FRAME | OBS_OBU_REDUNDANT_FRAME_HEADER | OBS_OBU_TILE_LIST | OBS_OBU_PADDING

fun obu_value :: "obs_obu_type \<Rightarrow> nat" where
  "obu_value OBS_OBU_SEQUENCE_HEADER = 1"
| "obu_value OBS_OBU_TEMPORAL_DELIMITER = 2"
| "obu_value OBS_OBU_FRAME_HEADER = 3"
| "obu_value OBS_OBU_TILE_GROUP = 4"
| "obu_value OBS_OBU_METADATA = 5"
| "obu_value OBS_OBU_FRAME = 6"
| "obu_value OBS_OBU_REDUNDANT_FRAME_HEADER = 7"
| "obu_value OBS_OBU_TILE_LIST = 8"
| "obu_value OBS_OBU_PADDING = 15"

definition get_bits :: "byte \<Rightarrow> nat \<Rightarrow> nat \<Rightarrow> nat" where
  "get_bits val n cnt = drop_bit (8 - n - cnt) (unat val) AND (2 ^ (cnt - 1) * 2 - 1)"

text \<open>Start, size and type; the difference of two sizes wraps around.\<close>

definition parse_obu_header :: "byte list \<Rightarrow> nat \<Rightarrow> nat \<Rightarrow> (nat \<times> nat \<times> nat) option" where
  "parse_obu_header m p avail =
     (if avail < 1 then Some (0, 0, 0)
      else if p \<ge> length m then None
      else
        let b = m ! p;
            obu_type = get_bits b 1 4; extension_flag = get_bits b 5 1; has_size_field = get_bits b 6 1;
            obu_start = (if extension_flag \<noteq> 0 then 1 else 0) + 1
        in if has_size_field \<noteq> 0
           then map_option (\<lambda>(v, len). (obu_start + len, unat v, obu_type))
                  (leb128 m (p + obu_start) (if obu_start \<le> avail then avail - obu_start else 2 ^ 64 + avail - obu_start))
           else Some (obu_start, avail - 1, obu_type))"

definition metadata_obu :: "byte list \<Rightarrow> byte \<Rightarrow> byte list" where
  "metadata_obu source metadata_type =
     (let obu_header_byte = of_nat (obu_value OBS_OBU_METADATA * 8) OR 2;
          size_field = 1 + length source + 1;
          size_buf = encode_uleb128 size_field
      in [obu_header_byte] @ size_buf @ [metadata_type] @ source @ [0x80])"

definition metadata_obu_itu_t35 :: "byte list \<Rightarrow> byte list" where
  "metadata_obu_itu_t35 buf = metadata_obu buf 4"

lemma obu_start_pos:
  "parse_obu_header m p avail = Some (start, sz, ty) \<Longrightarrow> 0 < avail \<Longrightarrow> 0 < start \<and> p < length m"
  by (auto simp: parse_obu_header_def Let_def split: if_splits)

function av1_keyframe_loop :: "byte list \<Rightarrow> nat \<Rightarrow> bool option" where
  "av1_keyframe_loop m p =
     (if p < length m
      then (case parse_obu_header m p (length m - p) of
          None \<Rightarrow> None
        | Some (start, sz, ty) \<Rightarrow>
            if sz \<noteq> 0 \<and> (ty = obu_value OBS_OBU_FRAME \<or> ty = obu_value OBS_OBU_FRAME_HEADER)
            then (if p + start \<ge> length m then None
                  else let val = m ! (p + start)
                    in if get_bits val 0 1 = 0 then Some (get_bits val 1 2 = 0) else Some False)
            else av1_keyframe_loop m (p + start + sz))
      else Some False)"
  by pat_completeness auto

termination av1_keyframe_loop
  by (relation "measure (\<lambda>(m, p). length m - p)") (auto dest!: obu_start_pos)

definition obs_av1_keyframe :: "byte list \<Rightarrow> bool option" where
  "obs_av1_keyframe data = av1_keyframe_loop data 0"

definition push_obu :: "byte list \<Rightarrow> nat \<Rightarrow> nat \<Rightarrow> byte darray \<Rightarrow> byte darray option" where
  "push_obu m p n d = map_option fst (darray_push_back_array d (map Some (drop p m)) n)"

function av1_headers_loop :: "byte list \<Rightarrow> nat \<Rightarrow> byte darray \<times> byte darray \<Rightarrow> (byte darray \<times> byte darray) option" where
  "av1_headers_loop m p st =
     (if p < length m
      then (case parse_obu_header m p (length m - p) of
          None \<Rightarrow> None
        | Some (start, sz, ty) \<Rightarrow>
            (case (if ty = obu_value OBS_OBU_METADATA \<or> ty = obu_value OBS_OBU_SEQUENCE_HEADER
                   then push_obu m p (start + sz) (snd st) else Some (snd st)) of
               None \<Rightarrow> None
             | Some header \<Rightarrow>
                 (case push_obu m p (start + sz) (fst st) of
                    None \<Rightarrow> None
                  | Some new_packet \<Rightarrow> av1_headers_loop m (p + start + sz) (new_packet, header))))
      else Some st)"
  by pat_completeness auto

termination av1_headers_loop
  by (relation "measure (\<lambda>(m, p, st). length m - p)") (auto dest!: obu_start_pos)

text \<open>The new packet and the headers.\<close>

definition obs_extract_av1_headers :: "byte list \<Rightarrow> (byte darray \<times> byte darray) option" where
  "obs_extract_av1_headers packet = av1_headers_loop packet 0 (darray_init, darray_init)"

declare uleb_loop.simps [simp del] av1_keyframe_loop.simps [simp del] av1_headers_loop.simps [simp del]

section \<open>Sizes come back\<close>

lemma low_seven: "unat (b AND 0x7f) = unat b mod 128" for b :: byte
proof -
  have "(0x7f :: byte) = mask 7" by (simp add: mask_numeral)
  then have "b AND 0x7f = take_bit 7 b" by (simp only: take_bit_eq_mask)
  then have "unat (b AND 0x7f) = take_bit 7 (unat b)" by (simp only: unsigned_take_bit_eq)
  then show ?thesis by (simp add: take_bit_eq_mod)
qed

lemma high_bit: "(b AND 0x80 = 0) = (unat b < 128)" for b :: byte
proof -
  have e: "(0x80 :: byte) = push_bit 7 1" by simp
  have "unat b < 256" using unsigned_less [of b] by simp
  have "(b AND 0x80 = 0) = (\<not> bit b 7)"
  proof
    assume "b AND 0x80 = 0"
    moreover have "bit (0x80 :: byte) 7" unfolding e by (simp only: bit_push_bit_iff bit_1_iff possible_bit_word) simp
    ultimately show "\<not> bit b 7" by (metis bit_and_iff bit_0_eq bot_apply bot_bool_def)
  next
    assume "\<not> bit b 7"
    moreover have "bit (0x80 :: byte) n \<Longrightarrow> n = 7" for n
      unfolding e by (auto simp only: bit_push_bit_iff bit_1_iff)
    ultimately show "b AND 0x80 = 0" by (intro bit_word_eqI) (auto simp: bit_and_iff)
  qed
  also have "\<dots> = (\<not> bit (unat b) 7)" by (simp add: bit_unsigned_iff)
  also have "\<dots> = even (unat b div 128)" by (simp add: bit_iff_odd)
  also have "\<dots> = (unat b < 128)" using \<open>unat b < 256\<close> by (cases "unat b < 128") (auto simp: div_if)
  finally show ?thesis .
qed

lemma seven_bits: "x < 128 \<Longrightarrow> unat (of_nat x :: byte) = x" "x < 128 \<Longrightarrow> unat (of_nat x OR 0x80 :: byte) = x + 128"
proof -
  assume x: "x < 128"
  then show u: "unat (of_nat x :: byte) = x" by (simp add: unat_of_nat)
  have "(of_nat x AND 0x80 :: byte) = 0" using high_bit u x by simp
  then have "(of_nat x OR 0x80 :: byte) = of_nat x + 0x80" by (simp add: disjunctive_add_eq_or [symmetric])
  then show "unat (of_nat x OR 0x80 :: byte) = x + 128" using x u by (simp add: unat_word_ariths)
qed

lemma uleb_length: "val < 128 ^ k \<Longrightarrow> length (uleb_loop b val) \<le> k + 1"
proof (induction k arbitrary: b val)
  case (Suc k)
  then have "val div 128 < 128 ^ k" by (simp add: less_mult_imp_div_less mult.commute)
  with Suc.IH [of "val div 128" "of_nat (val mod 128)"] show ?case by (simp add: uleb_loop.simps [of b val])
qed (simp add: uleb_loop.simps)

lemma or_place_nat: "low < 2 ^ k \<Longrightarrow> low OR x * 2 ^ k = low + x * 2 ^ k" for low :: nat
proof -
  assume low: "low < 2 ^ k"
  have "low AND push_bit k x = 0"
  proof (rule bit_eqI)
    fix n
    have "\<not> (bit low n \<and> k \<le> n)"
    proof
      assume "bit low n \<and> k \<le> n"
      moreover from this have "take_bit k low = low" using low by (simp add: take_bit_nat_eq_self)
      ultimately show False by (metis bit_take_bit_iff not_le)
    qed
    then show "bit (low AND push_bit k x) n = bit 0 n" by (auto simp: bit_and_iff bit_push_bit_iff)
  qed
  then show "low OR x * 2 ^ k = low + x * 2 ^ k" by (simp add: disjunctive_add_eq_or push_bit_eq_mult)
qed

lemma or_place: "low < 2 ^ k \<Longrightarrow> (of_nat low OR of_nat (x * 2 ^ k) :: u64) = of_nat (low + x * 2 ^ k)"
  by (metis of_nat_or_eq or_place_nat)

text \<open>The reader at byte \<open>i\<close> of a size of which the bytes up to \<open>i\<close> have been read.\<close>

lemma leb128_reads:
  assumes "drop (p + i) m = uleb_loop (of_nat x) val @ post"
  shows "x < 128 \<Longrightarrow> low < 128 ^ i \<Longrightarrow> low + 128 ^ i * (x + 128 * val) < 2 ^ 31 \<Longrightarrow> 0 < i \<longrightarrow> 0 < x + 128 * val \<Longrightarrow>
    length (uleb_loop (of_nat x) val) \<le> n \<Longrightarrow> length (uleb_loop (of_nat x) val) \<le> avail \<Longrightarrow>
    leb128_loop n m p avail i (of_nat low) i =
      Some (of_nat (low + 128 ^ i * (x + 128 * val)), i + length (uleb_loop (of_nat x) val))"
  using assms
proof (induction val arbitrary: x i low n avail rule: less_induct)
  case (less val)
  let ?bs = "uleb_loop (of_nat x) val"
  obtain n' where n: "n = Suc n'" using less.prems(5) by (cases n) (auto simp: uleb_loop.simps [of "of_nat x" val] split: if_splits)
  have avail: "\<not> avail < 1" using less.prems(6) by (auto simp: uleb_loop.simps [of "of_nat x" val] split: if_splits)
  have five: "128 ^ i < (2 :: nat) ^ 31 \<or> i = 0"
  proof (cases "i = 0")
    case False
    then have "128 ^ i * 1 \<le> 128 ^ i * (x + 128 * val)" using mp [OF less.prems(4)] False by (intro mult_le_mono2) linarith
    then show ?thesis using less.prems(3) by linarith
  qed simp
  have i: "i * 7 < 32"
  proof (rule ccontr)
    assume "\<not> i * 7 < 32"
    then have "128 ^ 5 \<le> (128 :: nat) ^ i" by (intro power_increasing) auto
    then show False using five \<open>\<not> i * 7 < 32\<close> by auto
  qed
  have pw: "(2 :: nat) ^ (i * 7) = 128 ^ i" by (simp add: power_mult mult.commute [of i])
  have "x * 128 ^ i \<le> 128 ^ i * (x + 128 * val)" by (simp add: algebra_simps)
  then have "x * 128 ^ i < 2 ^ 31" using less.prems(3) by linarith
  then have shift: "int_shift x (i * 7) = Some (x * 128 ^ i)"
    using i by (simp add: int_shift_def pw)
  have val': "(of_nat low OR of_nat (x * 128 ^ i) :: u64) = of_nat (low + x * 128 ^ i)"
    using or_place [of low "i * 7" x] less.prems(2) by (simp only: pw)
  have inside: "p + i < length m"
    using less.prems(7) by (cases "p + i < length m") (auto simp: uleb_loop.simps [of "of_nat x" val] split: if_splits)
  have at: "m ! (p + i) = hd (drop (p + i) m)" using inside by (simp add: hd_drop_conv_nth)
  show ?case
  proof (cases "val = 0")
    case True
    then have bs: "?bs = [of_nat x]" by (simp add: uleb_loop.simps)
    then have "m ! (p + i) = of_nat x" using at less.prems(7) by simp
    then show ?thesis
      using inside avail shift val' bs True less.prems(1) seven_bits(1) [OF less.prems(1)]
      by (simp add: n low_seven high_bit Let_def mult.commute)
  next
    case False
    let ?x = "val mod 128" and ?val = "val div 128"
    have bs: "?bs = (of_nat x OR 0x80) # uleb_loop (of_nat ?x) ?val" using False by (simp add: uleb_loop.simps [of "of_nat x" val])
    then have b: "m ! (p + i) = of_nat x OR 0x80" using at less.prems(7) by simp
    have rest: "drop (p + (i + 1)) m = uleb_loop (of_nat ?x) ?val @ post"
      using arg_cong [OF less.prems(7), of tl] bs by (simp add: tl_drop drop_Suc)
    have v: "?x + 128 * ?val = val" by simp
    have total: "low + x * 128 ^ i + 128 ^ (i + 1) * val = low + 128 ^ i * (x + 128 * val)" by (simp add: algebra_simps)
    have low: "low + x * 128 ^ i < 128 ^ (i + 1)"
    proof -
      have "x * 128 ^ i \<le> 127 * 128 ^ i" using less.prems(1) by (intro mult_le_mono1) simp
      moreover have "(128 :: nat) ^ (i + 1) = 128 ^ i + 127 * 128 ^ i" by simp
      ultimately show ?thesis using less.prems(2) by linarith
    qed
    have IH: "leb128_loop n' m p (avail - 1) (i + 1) (of_nat (low + x * 128 ^ i)) (i + 1) =
        Some (of_nat (low + x * 128 ^ i + 128 ^ (i + 1) * (?x + 128 * ?val)), i + 1 + length (uleb_loop (of_nat ?x) ?val))"
    proof (rule less.IH)
      show "low + x * 128 ^ i + 128 ^ (i + 1) * (?x + 128 * ?val) < 2 ^ 31" unfolding v total by (rule less.prems(3))
    qed (use False less.prems(5,6) bs n low rest v in auto)
    have "leb128_loop n m p avail i (of_nat low) i =
        leb128_loop n' m p (avail - 1) (i + 1) (of_nat (low + x * 128 ^ i)) (i + 1)"
      using inside avail shift b less.prems(1) seven_bits(2) [OF less.prems(1)] val'
      by (simp add: n low_seven high_bit Let_def)
    then show ?thesis unfolding IH v total using bs by simp
  qed
qed

lemma leb128_encode:
  assumes "drop p m = encode_uleb128 v @ post" "v < 2 ^ 31" "length (encode_uleb128 v) \<le> avail"
  shows "leb128 m p avail = Some (of_nat v, length (encode_uleb128 v))"
proof -
  have v: "v mod 128 + 128 * (v div 128) = v" by simp
  have "length (encode_uleb128 v) \<le> 4 + 1"
    unfolding encode_uleb128_def using assms(2) by (intro uleb_length) simp
  with leb128_reads [of p 0 m "v mod 128" "v div 128" post 0 8 avail] assms v show ?thesis
    by (simp add: leb128_def encode_uleb128_def)
qed

section \<open>Streams of units\<close>

text \<open>A unit with its size: type, extension byte if there is one, payload.\<close>

record obu =
  o_type :: nat
  o_ext :: "byte option"
  o_payload :: "byte list"

definition obu_first :: "obu \<Rightarrow> byte" where
  "obu_first u = of_nat (o_type u * 8 + (if o_ext u = None then 2 else 6))"

definition obu_prefix :: "obu \<Rightarrow> byte list" where
  "obu_prefix u = obu_first u # (case o_ext u of None \<Rightarrow> [] | Some x \<Rightarrow> [x]) @ encode_uleb128 (length (o_payload u))"

definition obu_bytes :: "obu \<Rightarrow> byte list" where
  "obu_bytes u = obu_prefix u @ o_payload u"

definition obu_ok :: "obu \<Rightarrow> bool" where
  "obu_ok u \<longleftrightarrow> o_type u < 16 \<and> length (o_payload u) < 2 ^ 31"

definition obu_stream :: "obu list \<Rightarrow> byte list" where
  "obu_stream us = concat (map obu_bytes us)"

lemma obu_stream_simps [simp]: "obu_stream [] = []" "obu_stream (u # us) = obu_bytes u @ obu_stream us"
  by (simp_all add: obu_stream_def)

lemma and_low: "(n :: nat) AND 15 = n mod 16" "(n :: nat) AND 1 = n mod 2"
  using take_bit_eq_mask [of 4 n] by (simp_all add: mask_eq_exp_minus_1 take_bit_eq_mod and_one_eq)

lemma first_bits:
  assumes "o_type u < 16"
  shows "get_bits (obu_first u) 1 4 = o_type u" "get_bits (obu_first u) 5 1 = (if o_ext u = None then 0 else 1)"
    "get_bits (obu_first u) 6 1 = 1"
proof -
  have n: "unat (obu_first u) = o_type u * 8 + (if o_ext u = None then 2 else 6)"
    unfolding obu_first_def unat_of_nat using assms by auto
  show "get_bits (obu_first u) 1 4 = o_type u" "get_bits (obu_first u) 5 1 = (if o_ext u = None then 0 else 1)"
    "get_bits (obu_first u) 6 1 = 1"
    using assms unfolding get_bits_def n by (auto simp: drop_bit_eq_div and_low; presburger)+
qed

lemma parse_obu:
  assumes "m = pre @ obu_bytes u @ post" "obu_ok u" "length m < 2 ^ 63"
  shows "parse_obu_header m (length pre) (length m - length pre) =
    Some (length (obu_prefix u), length (o_payload u), o_type u)"
proof -
  let ?e = "case o_ext u of None \<Rightarrow> [] | Some x \<Rightarrow> [x]" and ?n = "length (o_payload u)"
  let ?start = "1 + length ?e"
  have ok: "o_type u < 16" "?n < 2 ^ 31" using assms(2) by (simp_all add: obu_ok_def)
  have e: "(if get_bits (obu_first u) 5 1 \<noteq> 0 then 1 else 0) + 1 = ?start"
    using first_bits(2) [OF ok(1)] by (cases "o_ext u") auto
  have first: "m ! length pre = obu_first u" "length pre < length m" "0 < length m - length pre"
    by (simp_all add: assms(1) obu_bytes_def obu_prefix_def)
  have d: "drop (length pre + ?start) m = encode_uleb128 ?n @ o_payload u @ post"
    by (simp add: assms(1) obu_bytes_def obu_prefix_def)
  have fits: "?start \<le> length m - length pre" "length (encode_uleb128 ?n) \<le> length m - length pre - ?start"
    by (simp_all add: assms(1) obu_bytes_def obu_prefix_def)
  have v: "unat (of_nat ?n :: u64) = ?n" using ok(2) by (simp add: unat_of_nat)
  show ?thesis
    using leb128_encode [OF d ok(2) fits(2)] first first_bits [OF ok(1)] fits(1) v e
    by (simp add: parse_obu_header_def Let_def obu_prefix_def)
qed

lemma prefix_pos: "0 < length (obu_prefix u)"
  by (simp add: obu_prefix_def)

lemma push_obu_repr:
  assumes "m = pre @ obu_bytes u @ post" "da_repr d xs"
  shows "\<exists>d'. push_obu m (length pre) (length (obu_prefix u) + length (o_payload u)) d = Some d' \<and>
    da_repr d' (xs @ obu_bytes u)"
  using da_push_back_array [OF assms(2), of "obu_bytes u" "map Some post"] assms(1)
  by (auto simp: push_obu_def obu_bytes_def)

definition obu_header :: "obu \<Rightarrow> bool" where
  "obu_header u \<longleftrightarrow> o_type u = obu_value OBS_OBU_METADATA \<or> o_type u = obu_value OBS_OBU_SEQUENCE_HEADER"

lemma av1_headers_from:
  "\<forall>u \<in> set us. obu_ok u \<Longrightarrow> m = pre @ obu_stream us \<Longrightarrow> length m < 2 ^ 63 \<Longrightarrow> da_repr d xs \<Longrightarrow> da_repr h ys \<Longrightarrow>
    \<exists>d' h'. av1_headers_loop m (length pre) (d, h) = Some (d', h') \<and> da_repr d' (xs @ obu_stream us) \<and>
      da_repr h' (ys @ obu_stream (filter obu_header us))"
proof (induction us arbitrary: pre d h xs ys)
  case Nil
  then show ?case by (simp add: av1_headers_loop.simps)
next
  case (Cons u us)
  have m: "m = pre @ obu_bytes u @ obu_stream us" "m = (pre @ obu_bytes u) @ obu_stream us" using Cons.prems(2) by simp_all
  have here: "length pre < length m" using prefix_pos [of u] by (simp add: m(1) obu_bytes_def)
  have parse: "parse_obu_header m (length pre) (length m - length pre) =
      Some (length (obu_prefix u), length (o_payload u), o_type u)"
    using parse_obu [OF m(1) _ Cons.prems(3)] Cons.prems(1) by simp
  obtain d' where d': "push_obu m (length pre) (length (obu_prefix u) + length (o_payload u)) d = Some d'"
    "da_repr d' (xs @ obu_bytes u)" using push_obu_repr [OF m(1) Cons.prems(4)] by blast
  obtain h' where h': "(if obu_header u then push_obu m (length pre) (length (obu_prefix u) + length (o_payload u)) h else Some h) = Some h'"
    "da_repr h' (ys @ (if obu_header u then obu_bytes u else []))"
    using push_obu_repr [OF m(1) Cons.prems(5)] Cons.prems(5) by (cases "obu_header u") auto
  have next_pos: "length pre + length (obu_prefix u) + length (o_payload u) = length (pre @ obu_bytes u)"
    by (simp add: obu_bytes_def)
  have step: "av1_headers_loop m (length pre) (d, h) = av1_headers_loop m (length (pre @ obu_bytes u)) (d', h')"
    by (subst av1_headers_loop.simps)
      (simp only: here if_True parse option.case case_prod_conv fst_conv snd_conv obu_header_def [symmetric] h'(1) d'(1) next_pos)
  from Cons.IH [OF _ m(2) Cons.prems(3) d'(2) h'(2)] Cons.prems(1) show ?case
    unfolding step by (cases "obu_header u") simp_all
qed

text \<open>C35: from a packet of AV1 units with sizes the function copies the sequence headers and the metadata, in their
  order and byte for byte, and leaves the packet as it is.\<close>

theorem av1_headers_copied:
  assumes "\<forall>u \<in> set us. obu_ok u" "length (obu_stream us) < 2 ^ 63"
  shows "\<exists>packet header. obs_extract_av1_headers (obu_stream us) = Some (packet, header) \<and>
    da_repr packet (obu_stream us) \<and> da_repr header (obu_stream (filter obu_header us))"
  using av1_headers_from [OF assms(1) _ assms(2) da_repr_init da_repr_init, of "[]"]
  by (simp add: obs_extract_av1_headers_def)

text \<open>A metadata unit is a unit of its type with the metadata type, the data and the trailing bits as its payload.\<close>

lemma metadata_is_obu:
  "metadata_obu source t = obu_bytes \<lparr>o_type = 5, o_ext = None, o_payload = t # source @ [0x80]\<rparr>"
  by (simp add: metadata_obu_def obu_bytes_def obu_prefix_def obu_first_def Let_def)

theorem av1_headers_copied_witness:
  "\<exists>packet header. obs_extract_av1_headers (metadata_obu [7, 8] 4 @ obu_bytes \<lparr>o_type = 6, o_ext = Some 8, o_payload = [0, 1]\<rparr>) =
      Some (packet, header) \<and> da_repr header (metadata_obu [7, 8] 4)"
proof -
  let ?us = "[\<lparr>o_type = 5, o_ext = None, o_payload = [4, 7, 8, 0x80]\<rparr>, \<lparr>o_type = 6, o_ext = Some 8, o_payload = [0, 1]\<rparr>]"
  have s: "obu_stream ?us = metadata_obu [7, 8] 4 @ obu_bytes \<lparr>o_type = 6, o_ext = Some 8, o_payload = [0, 1]\<rparr>"
    by (simp add: metadata_is_obu)
  have "\<forall>u \<in> set ?us. obu_ok u" by (simp add: obu_ok_def)
  moreover have "length (obu_stream ?us) < 2 ^ 63"
    by (simp add: obu_bytes_def obu_prefix_def encode_uleb128_def uleb_loop.simps)
  ultimately show ?thesis using av1_headers_copied [of ?us] unfolding s [symmetric] by (auto simp: obu_header_def metadata_is_obu)
qed

section \<open>Units that leave the packet\<close>

text \<open>
  A unit without a size, which is the last one, with an extension: the code takes all bytes but one for
  the payload, where the standard (quoted in the file) takes two off, and copies a byte after the packet.
\<close>

theorem unsized_extension_overreads:
  "parse_obu_header (0x0c # x # xs) 0 (2 + length xs) = Some (2, 1 + length xs, 1) \<and>
   obs_extract_av1_headers (0x0c # x # xs) = None"
proof -
  have p: "parse_obu_header (0x0c # x # xs) 0 (2 + length xs) = Some (2, 1 + length xs, 1)"
    by (simp add: parse_obu_header_def get_bits_def Let_def drop_bit_eq_div and_low)
  have "push_obu (0x0c # x # xs) 0 (2 + (1 + length xs)) darray_init = None"
  proof -
    have "mem_read 0 (3 + length xs) (map Some (0x0c # x # xs)) = None" by (simp add: mem_read_def)
    then show ?thesis by (auto simp: push_obu_def darray_push_back_array_def Let_def numeral_3_eq_3 bind_eq_None_conv)
  qed
  with p show ?thesis
    by (simp add: obs_extract_av1_headers_def av1_headers_loop.simps)
qed

end
