(* ===== verification/Rtmp_Av1.thy ===== *)
theory Rtmp_Av1
  imports Av1 Avc_Header
begin

text \<open>
  The AV1 functions of the FLV muxer: \<open>plugins/obs-outputs/rtmp-av1.c\<close>, which rewrites packets and makes the
  configuration record from the sequence header. Its bit reader goes eight bits past the end it was given before
  it stands still; a byte read outside of the memory behind the buffer is \<^term>\<open>None\<close>.
\<close>

section \<open>The bit reader\<close>

text \<open>\<open>gb_buffer\<close> is the memory from the buffer on, which may go on after the last bit.\<close>

record av1_bits =
  gb_buffer :: "byte list"
  gb_index :: nat
  gb_size_in_bits :: nat

definition init_get_bits_xe :: "byte list \<Rightarrow> int \<Rightarrow> av1_bits \<times> int" where
  "init_get_bits_xe buffer bit_size =
     (if bit_size \<ge> 2147483647 - 64 * 8 \<or> bit_size < 0
      then (\<lparr>gb_buffer = [], gb_index = 0, gb_size_in_bits = 0\<rparr>, -1)
      else (\<lparr>gb_buffer = buffer, gb_index = 0, gb_size_in_bits = nat bit_size\<rparr>, 0))"

definition init_get_bits8 :: "byte list \<Rightarrow> int \<Rightarrow> av1_bits \<times> int" where
  "init_get_bits8 buffer byte_size =
     (let byte_size = (if byte_size > c_div 2147483647 8 \<or> byte_size < 0 then -1 else byte_size)
      in init_get_bits_xe buffer (byte_size * 8))"

definition get_bit1 :: "av1_bits \<Rightarrow> (nat \<times> av1_bits) option" where
  "get_bit1 s =
     (let index = gb_index s in
      if index div 8 < length (gb_buffer s)
      then let result = drop_bit 7 (push_bit (index mod 8) (gb_buffer s ! (index div 8)))
        in Some (unat result, s\<lparr>gb_index := (if index < gb_size_in_bits s + 8 then index + 1 else index)\<rparr>)
      else None)"

text \<open>The result is an \<open>unsigned int\<close>: shifting 32 bits and more loses the first ones.\<close>

fun get_bits_loop :: "nat \<Rightarrow> u32 \<Rightarrow> av1_bits \<Rightarrow> (u32 \<times> av1_bits) option" where
  "get_bits_loop 0 out s = Some (out, s)"
| "get_bits_loop (Suc n) out s = do { (b, s) \<leftarrow> get_bit1 s; get_bits_loop n (push_bit 1 out OR of_nat b) s }"

definition get_bits_av1 :: "nat \<Rightarrow> av1_bits \<Rightarrow> (nat \<times> av1_bits) option" where
  "get_bits_av1 n s = map_option (\<lambda>(v, s). (unat v, s)) (get_bits_loop n 0 s)"

definition skip_bits :: "nat \<Rightarrow> av1_bits \<Rightarrow> av1_bits option" where
  "skip_bits n s = map_option snd (get_bits_av1 n s)"

definition get_bits_left :: "av1_bits \<Rightarrow> int" where
  "get_bits_left s = int (gb_size_in_bits s) - int (gb_index s)"

text \<open>\<open>for (i = 0; i < 8; i++)\<close> from \<open>i\<close>, with the rounds left.\<close>

fun leb128_rounds :: "nat \<Rightarrow> nat \<Rightarrow> nat \<Rightarrow> av1_bits \<Rightarrow> (nat \<times> av1_bits) option" where
  "leb128_rounds 0 i ret gb = Some (ret, gb)"
| "leb128_rounds (Suc n) i ret gb = do {
     (byte, gb) \<leftarrow> get_bits_av1 8 gb;
     let ret = ret OR push_bit (i * 7) (byte AND 0x7f);
     if byte AND 0x80 = 0 then Some (ret, gb) else leb128_rounds n (i + 1) ret gb
   }"

definition leb128_av1 :: "av1_bits \<Rightarrow> (nat \<times> av1_bits) option" where
  "leb128_av1 gb = leb128_rounds 8 0 0 gb"

text \<open>\<open>while (get_bits_left(gb))\<close>: with a negative number of bits left it only ends at a bit that is set.\<close>

partial_function (option) uvlc_zeros :: "nat \<Rightarrow> av1_bits \<Rightarrow> (nat \<times> av1_bits) option" where
  "uvlc_zeros leading_zeros gb =
     (if get_bits_left gb = 0 then Some (leading_zeros, gb)
      else case get_bits_av1 1 gb of None \<Rightarrow> None
        | Some (b, gb) \<Rightarrow> if b \<noteq> 0 then Some (leading_zeros, gb) else uvlc_zeros (leading_zeros + 1) gb)"

definition uvlc :: "av1_bits \<Rightarrow> av1_bits option" where
  "uvlc gb = do {
     (leading_zeros, gb) \<leftarrow> uvlc_zeros 0 gb;
     if leading_zeros \<ge> 32 then Some gb else skip_bits leading_zeros gb
   }"

section \<open>Units\<close>

definition AV1_OBU_SEQUENCE_HEADER :: nat where "AV1_OBU_SEQUENCE_HEADER = 1"
definition AV1_OBU_TEMPORAL_DELIMITER :: nat where "AV1_OBU_TEMPORAL_DELIMITER = 2"
definition AV1_OBU_FRAME_HEADER :: nat where "AV1_OBU_FRAME_HEADER = 3"
definition AV1_OBU_TILE_GROUP :: nat where "AV1_OBU_TILE_GROUP = 4"
definition AV1_OBU_METADATA :: nat where "AV1_OBU_METADATA = 5"
definition AV1_OBU_FRAME :: nat where "AV1_OBU_FRAME = 6"
definition AV1_OBU_REDUNDANT_FRAME_HEADER :: nat where "AV1_OBU_REDUNDANT_FRAME_HEADER = 7"
definition AV1_OBU_TILE_LIST :: nat where "AV1_OBU_TILE_LIST = 8"

text \<open>The length of the unit, its payload's size and place, its type; or the negative result.\<close>

definition parse_obu_header_av1 :: "byte list \<Rightarrow> nat \<Rightarrow> (int \<times> nat \<times> nat \<times> nat) option option" where
  "parse_obu_header_av1 buf buf_size =
     (case init_get_bits8 buf (min (int buf_size) 10) of (gb, ret) \<Rightarrow>
      if ret < 0 then Some None
      else do {
        (forbidden, gb) \<leftarrow> get_bits_av1 1 gb;
        if forbidden \<noteq> 0 then Some None
        else do {
          (type, gb) \<leftarrow> get_bits_av1 4 gb;
          (extension_flag, gb) \<leftarrow> get_bits_av1 1 gb;
          (has_size_flag, gb) \<leftarrow> get_bits_av1 1 gb;
          gb \<leftarrow> skip_bits 1 gb;
          gb \<leftarrow> (if extension_flag \<noteq> 0 then do {
                   (_, gb) \<leftarrow> get_bits_av1 3 gb;
                   (_, gb) \<leftarrow> get_bits_av1 2 gb;
                   skip_bits 3 gb
                 } else Some gb);
          (obu_size, gb) \<leftarrow> (if has_size_flag \<noteq> 0 then map_option (\<lambda>(v, gb). (int v, gb)) (leb128_av1 gb)
                              else Some (int buf_size - 1 - int extension_flag, gb));
          if get_bits_left gb < 0 then Some None
          else let start_pos = gb_index gb div 8; size = obu_size + int start_pos
            in if size > int buf_size then Some None
               else Some (Some (obu_size, start_pos, nat size, type))
        }
      })"

text \<open>\<open>while (size > 0 && buf[size - 1] == 0)\<close>.\<close>

fun unpadded :: "byte list \<Rightarrow> nat \<Rightarrow> nat" where
  "unpadded buf 0 = 0"
| "unpadded buf (Suc n) = (if buf ! n = 0 then unpadded buf n else Suc n)"

fun ctz32 :: "nat \<Rightarrow> nat \<Rightarrow> nat" where
  "ctz32 0 v = 0"
| "ctz32 (Suc n) v = (if odd v then 0 else Suc (ctz32 n (v div 2)))"

definition get_obu_bit_length :: "byte list \<Rightarrow> int \<Rightarrow> nat \<Rightarrow> int" where
  "get_obu_bit_length buf len type =
     (if type = AV1_OBU_TILE_GROUP \<or> type = AV1_OBU_TILE_LIST \<or> type = AV1_OBU_FRAME
      then (if len > c_div 2147483647 8 then -1 else len * 8)
      else let size = unpadded buf (nat len) in
        if size = 0 then 0
        else let v = unat (buf ! (size - 1)) in
          if int size > c_div 2147483647 8 then -1
          else if v \<noteq> 0 then int (size * 8) - (int (ctz32 32 v) + 1) else int (size * 8))"

section \<open>The sequence header\<close>

text \<open>\<open>color_description_present_flag\<close>, which is used where it is read only, is not kept.\<close>

record av1_params =
  sp_profile :: nat
  sp_level :: nat
  sp_tier :: nat
  sp_bitdepth :: nat
  sp_monochrome :: nat
  sp_chroma_subsampling_x :: nat
  sp_chroma_subsampling_y :: nat
  sp_chroma_sample_position :: nat
  sp_color_primaries :: nat
  sp_transfer_characteristics :: nat
  sp_matrix_coefficients :: nat
  sp_color_range :: nat

definition no_params :: av1_params where
  "no_params = \<lparr>sp_profile = 0, sp_level = 0, sp_tier = 0, sp_bitdepth = 0, sp_monochrome = 0, sp_chroma_subsampling_x = 0,
     sp_chroma_subsampling_y = 0, sp_chroma_sample_position = 0, sp_color_primaries = 0, sp_transfer_characteristics = 0,
     sp_matrix_coefficients = 0, sp_color_range = 0\<rparr>"

definition parse_color_config :: "av1_params \<Rightarrow> av1_bits \<Rightarrow> (av1_params \<times> av1_bits) option" where
  "parse_color_config sp gb = do {
     (high_bitdepth, gb) \<leftarrow> get_bits_av1 1 gb;
     (twelve_bit, gb) \<leftarrow> (if sp_profile sp = 2 \<and> high_bitdepth \<noteq> 0 then get_bits_av1 1 gb else Some (0, gb));
     let sp = sp\<lparr>sp_bitdepth := 8 + high_bitdepth * 2 + twelve_bit * 2\<rparr>;
     (mono, gb) \<leftarrow> (if sp_profile sp = 1 then Some (0, gb) else get_bits_av1 1 gb);
     let sp = sp\<lparr>sp_monochrome := mono\<rparr>;
     (present, gb) \<leftarrow> get_bits_av1 1 gb;
     (sp, gb) \<leftarrow> (if present \<noteq> 0 then do {
                     (pri, gb) \<leftarrow> get_bits_av1 8 gb;
                     (trc, gb) \<leftarrow> get_bits_av1 8 gb;
                     (mat, gb) \<leftarrow> get_bits_av1 8 gb;
                     Some (sp\<lparr>sp_color_primaries := pri, sp_transfer_characteristics := trc, sp_matrix_coefficients := mat\<rparr>, gb)
                   } else Some (sp\<lparr>sp_color_primaries := 2, sp_transfer_characteristics := 2, sp_matrix_coefficients := 2\<rparr>, gb));
     if mono \<noteq> 0 then do {
       (range, gb) \<leftarrow> get_bits_av1 1 gb;
       Some (sp\<lparr>sp_color_range := range, sp_chroma_subsampling_x := 1, sp_chroma_subsampling_y := 1,
         sp_chroma_sample_position := 0\<rparr>, gb)
     } else do {
       (sp, gb) \<leftarrow>
         (if sp_color_primaries sp = 1 \<and> sp_transfer_characteristics sp = 13 \<and> sp_matrix_coefficients sp = 0
          then Some (sp\<lparr>sp_chroma_subsampling_x := 0, sp_chroma_subsampling_y := 0\<rparr>, gb)
          else do {
            (range, gb) \<leftarrow> get_bits_av1 1 gb;
            let sp = sp\<lparr>sp_color_range := range\<rparr>;
            ((x, y), gb) \<leftarrow>
              (if sp_profile sp = 0 then Some ((1, 1), gb)
               else if sp_profile sp = 1 then Some ((0, 0), gb)
               else if twelve_bit \<noteq> 0 then do {
                 (x, gb) \<leftarrow> get_bits_av1 1 gb;
                 (y, gb) \<leftarrow> (if x \<noteq> 0 then get_bits_av1 1 gb else Some (0, gb));
                 Some ((x, y), gb)
               } else Some ((1, 0), gb));
            let sp = sp\<lparr>sp_chroma_subsampling_x := x, sp_chroma_subsampling_y := y\<rparr>;
            if x \<noteq> 0 \<and> y \<noteq> 0 then do {
              (pos, gb) \<leftarrow> get_bits_av1 2 gb;
              Some (sp\<lparr>sp_chroma_sample_position := pos\<rparr>, gb)
            } else Some (sp, gb)
          });
       gb \<leftarrow> skip_bits 1 gb;
       Some (sp, gb)
     }
   }"

definition parse_timing_info :: "av1_bits \<Rightarrow> (nat option \<times> av1_bits) option" where
  "parse_timing_info gb = do {
     (timing, gb) \<leftarrow> get_bits_av1 1 gb;
     if timing \<noteq> 0 then do {
       gb \<leftarrow> skip_bits 32 gb;
       gb \<leftarrow> skip_bits 32 gb;
       (equal, gb) \<leftarrow> get_bits_av1 1 gb;
       gb \<leftarrow> (if equal \<noteq> 0 then uvlc gb else Some gb);
       (model, gb) \<leftarrow> get_bits_av1 1 gb;
       if model \<noteq> 0 then do {
         (delay_length, gb) \<leftarrow> get_bits_av1 5 gb;
         gb \<leftarrow> skip_bits 32 gb;
         gb \<leftarrow> skip_bits 10 gb;
         Some (Some delay_length, gb)
       } else Some (None, gb)
     } else Some (None, gb)
   }"

text \<open>One operating point: its level and tier. \<open>delay_length\<close> stands for the decoder model's flag and length.\<close>

definition parse_operating_point :: "nat option \<Rightarrow> bool \<Rightarrow> av1_bits \<Rightarrow> ((nat \<times> nat) \<times> av1_bits) option" where
  "parse_operating_point delay_length display_delay gb = do {
     gb \<leftarrow> skip_bits 12 gb;
     (level, gb) \<leftarrow> get_bits_av1 5 gb;
     (tier, gb) \<leftarrow> (if level > 7 then get_bits_av1 1 gb else Some (0, gb));
     gb \<leftarrow> (case delay_length of
              Some n \<Rightarrow> do {
                (f, gb) \<leftarrow> get_bits_av1 1 gb;
                if f \<noteq> 0 then do {
                  gb \<leftarrow> skip_bits (n + 1) gb;
                  gb \<leftarrow> skip_bits (n + 1) gb;
                  skip_bits 1 gb
                } else Some gb
              }
            | None \<Rightarrow> Some gb);
     gb \<leftarrow> (if display_delay then do {
              (f, gb) \<leftarrow> get_bits_av1 1 gb;
              if f \<noteq> 0 then skip_bits 4 gb else Some gb
            } else Some gb);
     Some ((level, tier), gb)
   }"

text \<open>The loop over the operating points: the level and tier of the first one, which is point 0, are kept.\<close>

fun parse_points :: "nat \<Rightarrow> nat option \<Rightarrow> bool \<Rightarrow> av1_bits \<Rightarrow> ((nat \<times> nat) list \<times> av1_bits) option" where
  "parse_points 0 dl dd gb = Some ([], gb)"
| "parse_points (Suc n) dl dd gb = do {
     (p, gb) \<leftarrow> parse_operating_point dl dd gb;
     (ps, gb) \<leftarrow> parse_points n dl dd gb;
     Some (p # ps, gb)
   }"

definition parse_tools :: "av1_bits \<Rightarrow> av1_bits option" where
  "parse_tools gb = do {
     gb \<leftarrow> skip_bits 4 gb;
     (enable_order_hint, gb) \<leftarrow> get_bits_av1 1 gb;
     gb \<leftarrow> (if enable_order_hint \<noteq> 0 then skip_bits 2 gb else Some gb);
     (choose_screen, gb) \<leftarrow> get_bits_av1 1 gb;
     (force, gb) \<leftarrow> (if choose_screen \<noteq> 0 then Some (2, gb) else get_bits_av1 1 gb);
     gb \<leftarrow> (if force \<noteq> 0 then do {
              (mv, gb) \<leftarrow> get_bits_av1 1 gb;
              if mv = 0 then skip_bits 1 gb else Some gb
            } else Some gb);
     if enable_order_hint \<noteq> 0 then skip_bits 3 gb else Some gb
   }"

definition parse_sequence_header :: "byte list \<Rightarrow> int \<Rightarrow> av1_params option option" where
  "parse_sequence_header buf len =
     (let size_bits = get_obu_bit_length buf len AV1_OBU_SEQUENCE_HEADER in
      if size_bits < 0 then Some None
      else case init_get_bits_xe buf size_bits of (gb, ret) \<Rightarrow>
        if ret < 0 then Some None
        else do {
          (profile, gb) \<leftarrow> get_bits_av1 3 gb;
          gb \<leftarrow> skip_bits 1 gb;
          (reduced, gb) \<leftarrow> get_bits_av1 1 gb;
          ((level, tier), gb) \<leftarrow>
            (if reduced \<noteq> 0 then do { (level, gb) \<leftarrow> get_bits_av1 5 gb; Some ((level, 0), gb) }
             else do {
               (delay_length, gb) \<leftarrow> parse_timing_info gb;
               (display_delay, gb) \<leftarrow> get_bits_av1 1 gb;
               (cnt_minus_1, gb) \<leftarrow> get_bits_av1 5 gb;
               (points, gb) \<leftarrow> parse_points (cnt_minus_1 + 1) delay_length (display_delay \<noteq> 0) gb;
               Some (hd points, gb)
             });
          (width_bits, gb) \<leftarrow> get_bits_av1 4 gb;
          (height_bits, gb) \<leftarrow> get_bits_av1 4 gb;
          gb \<leftarrow> skip_bits (width_bits + 1) gb;
          gb \<leftarrow> skip_bits (height_bits + 1) gb;
          gb \<leftarrow> (if reduced = 0 then do {
                   (ids, gb) \<leftarrow> get_bits_av1 1 gb;
                   if ids \<noteq> 0 then skip_bits 7 gb else Some gb
                 } else Some gb);
          gb \<leftarrow> skip_bits 3 gb;
          gb \<leftarrow> (if reduced = 0 then parse_tools gb else Some gb);
          gb \<leftarrow> skip_bits 3 gb;
          (sp, gb) \<leftarrow> parse_color_config (no_params\<lparr>sp_profile := profile, sp_level := level, sp_tier := tier\<rparr>) gb;
          gb \<leftarrow> skip_bits 1 gb;
          Some (if get_bits_left gb \<noteq> 0 then None else Some sp)
        })"

section \<open>The configuration record\<close>

record av1_found =
  af_seq :: "(av1_params \<times> byte list) option"
  af_meta :: "byte list"

text \<open>The loop of \<open>obs_parse_av1_header\<close>; \<^term>\<open>Some None\<close> is its \<open>return 0\<close>.\<close>

function av1_header_units :: "byte list \<Rightarrow> av1_found \<Rightarrow> av1_found option option" where
  "av1_header_units buf st =
     (if buf = [] then Some (Some st)
      else if length buf \<ge> 2 ^ 31 then None
      else case parse_obu_header_av1 buf (length buf) of None \<Rightarrow> None
        | Some None \<Rightarrow> Some None
        | Some (Some (obu_size, start_pos, len, type)) \<Rightarrow>
          if len = 0 then None
          else if type = AV1_OBU_SEQUENCE_HEADER then
            (if obu_size = 0 \<or> af_seq st \<noteq> None then Some None
             else case parse_sequence_header (drop start_pos buf) obu_size of None \<Rightarrow> None
               | Some None \<Rightarrow> Some None
               | Some (Some sp) \<Rightarrow> av1_header_units (drop len buf) (st\<lparr>af_seq := Some (sp, take len buf)\<rparr>))
          else if type = AV1_OBU_METADATA then
            (if obu_size = 0 then Some None else av1_header_units (drop len buf) (st\<lparr>af_meta := take len buf\<rparr>))
          else av1_header_units (drop len buf) st)"
  by pat_completeness auto
termination av1_header_units
  by (relation "measure (\<lambda>(buf, st). length buf)") auto

declare av1_header_units.simps [simp del]

definition av1_config_bytes :: "av1_params \<Rightarrow> byte list" where
  "av1_config_bytes sp =
     [of_nat (push_bit 7 1 OR 1),
      of_nat (push_bit 5 (sp_profile sp) OR sp_level sp),
      of_nat (push_bit 7 (sp_tier sp) OR push_bit 6 (if sp_bitdepth sp > 8 then 1 else 0) OR
        push_bit 5 (if sp_bitdepth sp = 12 then 1 else 0) OR push_bit 4 (sp_monochrome sp) OR
        push_bit 3 (sp_chroma_subsampling_x sp) OR push_bit 2 (sp_chroma_subsampling_y sp) OR
        sp_chroma_sample_position sp),
      0]"

definition obs_parse_av1_header :: "byte list \<Rightarrow> (byte list option \<times> nat) option" where
  "obs_parse_av1_header data =
     (if data = [] then None
      else if hd data AND 0x80 \<noteq> 0 then
        (if hd data AND 0x7f \<noteq> 1 \<or> length data < 4 then Some (None, 0) else Some (Some data, length data))
      else do {
        found \<leftarrow> av1_header_units data \<lparr>af_seq = None, af_meta = []\<rparr>;
        (case found of
           Some st \<Rightarrow>
             (case af_seq st of
                None \<Rightarrow> Some (None, 0)
              | Some (sp, seq) \<Rightarrow> do {
                  (s, _) \<leftarrow> s_write array_output_serializer_init (av1_config_bytes sp);
                  (s, _) \<leftarrow> s_write s seq;
                  (s, _) \<leftarrow> s_write s (af_meta st);
                  bytes \<leftarrow> mem_bytes 0 (da_num (ao_bytes s)) (da_array (ao_bytes s));
                  Some (Some bytes, da_num (ao_bytes s))
                })
         | None \<Rightarrow> Some (None, 0))
      })"

section \<open>Packets\<close>

definition compute_av1_keyframe_priority :: "byte list \<Rightarrow> bool \<times> int \<Rightarrow> (bool \<times> int) option" where
  "compute_av1_keyframe_priority buf k =
     (if snd k \<noteq> 0 then Some k
      else do {
        let gb = fst (init_get_bits8 buf 1);
        (show_existing, gb) \<leftarrow> get_bit1 gb;
        if show_existing \<noteq> 0 then Some k
        else do {
          (type, gb) \<leftarrow> get_bits_av1 2 gb;
          (show_frame, gb) \<leftarrow> get_bit1 gb;
          Some (if type = 0 then (True, 3)
                else if type = 1 then (fst k, if show_frame \<noteq> 0 then 1 else 2)
                else if type = 2 then (fst k, 3)
                else (fst k, 2))
        }
      })"

text \<open>A unit of length 0 would be looked at for ever: \<^term>\<open>None\<close>; the theories show that there is none.\<close>

function serialize_av1_data :: "byte list \<Rightarrow> ser \<Rightarrow> bool \<times> int \<Rightarrow> (ser \<times> bool \<times> int) option" where
  "serialize_av1_data buf s k =
     (if buf = [] then Some (s, k)
      else if length buf \<ge> 2 ^ 31 then None
      else case parse_obu_header_av1 buf (length buf) of None \<Rightarrow> None
        | Some None \<Rightarrow> Some (s, k)
        | Some (Some (obu_size, start_pos, len, type)) \<Rightarrow>
          if len = 0 then None
          else if type = AV1_OBU_TEMPORAL_DELIMITER \<or> type = AV1_OBU_REDUNDANT_FRAME_HEADER \<or> type = AV1_OBU_TILE_LIST
          then serialize_av1_data (drop len buf) s k
          else do {
            k \<leftarrow> (if type = AV1_OBU_FRAME \<or> type = AV1_OBU_FRAME_HEADER
                   then compute_av1_keyframe_priority (drop start_pos buf) k else Some k);
            (s, _) \<leftarrow> s_write s (take len buf);
            serialize_av1_data (drop len buf) s k
          })"
  by pat_completeness auto
termination serialize_av1_data
  by (relation "measure (\<lambda>(buf, s, k). length buf)") auto

declare serialize_av1_data.simps [simp del]

definition obs_parse_av1_packet :: "encoder_packet \<Rightarrow> encoder_packet option" where
  "obs_parse_av1_packet src = do {
     (s, _) \<leftarrow> serialize array_output_serializer_init (le_bytes 8 1);
     (s, keyframe, priority) \<leftarrow> serialize_av1_data (pk_data src) s (pk_keyframe src, pk_priority src);
     data \<leftarrow> packet_bytes s;
     Some (src\<lparr>pk_data := data, pk_keyframe := keyframe, pk_priority := priority, pk_drop_priority := priority\<rparr>)
   }"

end
