(* ===== verification/Rtmp_Av1_Packets.thy ===== *)
theory Rtmp_Av1_Packets
  imports Rtmp_Av1
begin

text \<open>
  What the AV1 functions of the FLV muxer make of streams of units: the bits of the unit header, the units that a
  packet keeps, its key flag and priority; and where the bit reader leaves the packet or does not end.
\<close>

section \<open>Bits inside a byte\<close>

lemma one_bit_value: "j < 8 \<Longrightarrow> unat (drop_bit 7 (push_bit j b)) = unat b div 2 ^ (7 - j) mod 2" for b :: byte
proof -
  assume "j < 8"
  have "unat (drop_bit 7 (push_bit j b)) = drop_bit 7 (take_bit LENGTH(8) (push_bit j (unat b)))"
    by (simp only: unat_drop_bit_eq unsigned_push_bit_eq)
  also have "\<dots> = take_bit 1 (drop_bit (7 - j) (unat b))"
    using \<open>j < 8\<close> by (intro bit_eqI) (auto simp: bit_simps simp flip: bit_iff_odd_drop_bit)
  also have "\<dots> = unat b div 2 ^ (7 - j) mod 2" by (simp add: drop_bit_eq_div take_bit_eq_mod)
  finally show ?thesis .
qed

lemma get_bit1_in:
  assumes "gb_index s = 8 * i + j" "j < 8" "i < length (gb_buffer s)" "gb_index s < gb_size_in_bits s + 8"
  shows "get_bit1 s = Some (unat (gb_buffer s ! i) div 2 ^ (7 - j) mod 2, s\<lparr>gb_index := gb_index s + 1\<rparr>)"
proof -
  have "(8 * i + j) div 8 = i" "(8 * i + j) mod 8 = j" using assms(2) by simp_all
  then show ?thesis using assms by (simp add: get_bit1_def one_bit_value Let_def)
qed

lemma shift_in_bit: "push_bit 1 (of_nat out) OR of_nat (b mod 2) = (of_nat (2 * out + b mod 2) :: u32)"
proof -
  have "b mod 2 OR out * 2 = b mod 2 + out * 2"
    using or_place_nat [of "b mod 2" 1 out] by (simp only: power_one_right mod_less_divisor pos2 if_True simp_thms)
  then have "of_nat (b mod 2) OR of_nat (out * 2) = (of_nat (b mod 2 + out * 2) :: u32)" by (metis of_nat_or_eq)
  moreover have "push_bit 1 (of_nat out) = (of_nat (out * 2) :: u32)" by (simp add: push_bit_eq_mult)
  ultimately show ?thesis by (simp only: or.commute add.commute mult.commute)
qed

lemma get_bits_loop_in:
  "gb_index s = 8 * i + j \<Longrightarrow> j + n \<le> 8 \<Longrightarrow> i < length (gb_buffer s) \<Longrightarrow> 8 * i + 8 \<le> gb_size_in_bits s + 8 \<Longrightarrow>
    get_bits_loop n (of_nat out) s =
      Some (of_nat (out * 2 ^ n + unat (gb_buffer s ! i) mod 2 ^ (8 - j) div 2 ^ (8 - j - n)), s\<lparr>gb_index := gb_index s + n\<rparr>)"
proof (induction n arbitrary: j out s)
  case 0
  then show ?case by simp
next
  case (Suc n)
  let ?b = "unat (gb_buffer s ! i)"
  have one: "get_bit1 s = Some (?b div 2 ^ (7 - j) mod 2, s\<lparr>gb_index := gb_index s + 1\<rparr>)"
    using Suc.prems by (intro get_bit1_in [of s i j]) simp_all
  have r: "(2 * out + ?b div 2 ^ (7 - j) mod 2) * 2 ^ n + ?b mod 2 ^ (7 - j) div 2 ^ (7 - j - n) =
      out * 2 ^ Suc n + ?b mod 2 ^ (8 - j) div 2 ^ (8 - j - Suc n)"
  proof -
    have "?b mod 2 ^ (8 - j) = 2 ^ (7 - j) * (?b div 2 ^ (7 - j) mod 2) + ?b mod 2 ^ (7 - j)"
    proof -
      have "8 - j = Suc (7 - j)" using Suc.prems(2) by simp
      then show ?thesis using mod_mult2_eq [of ?b "2 ^ (7 - j)" 2] by (simp add: mult.commute)
    qed
    moreover have "(2 :: nat) ^ (7 - j) = 2 ^ n * 2 ^ (7 - j - n)" using Suc.prems(2) by (simp flip: power_add)
    ultimately have "?b mod 2 ^ (8 - j) = ?b mod 2 ^ (7 - j) + 2 ^ (7 - j - n) * (2 ^ n * (?b div 2 ^ (7 - j) mod 2))"
      by (simp only: ac_simps)
    then have "?b mod 2 ^ (8 - j) div 2 ^ (7 - j - n) = 2 ^ n * (?b div 2 ^ (7 - j) mod 2) + ?b mod 2 ^ (7 - j) div 2 ^ (7 - j - n)"
      by (simp only:) simp
    then show ?thesis by (simp add: algebra_simps)
  qed
  have "get_bits_loop n (of_nat (2 * out + ?b div 2 ^ (7 - j) mod 2)) (s\<lparr>gb_index := gb_index s + 1\<rparr>) =
      Some (of_nat (out * 2 ^ Suc n + ?b mod 2 ^ (8 - j) div 2 ^ (8 - j - Suc n)), s\<lparr>gb_index := gb_index s + Suc n\<rparr>)"
    unfolding r [symmetric]
    using Suc.IH [of "s\<lparr>gb_index := gb_index s + 1\<rparr>" "j + 1" "2 * out + ?b div 2 ^ (7 - j) mod 2"] Suc.prems by simp
  then show ?case unfolding get_bits_loop.simps one bind.bind_lunit case_prod_conv shift_in_bit .
qed

lemma get_bits_in:
  assumes "gb_index s = 8 * i + j" "j + n \<le> 8" "i < length (gb_buffer s)" "8 * i \<le> gb_size_in_bits s"
  shows "get_bits_av1 n s = Some (unat (gb_buffer s ! i) mod 2 ^ (8 - j) div 2 ^ (8 - j - n), s\<lparr>gb_index := gb_index s + n\<rparr>)"
proof -
  let ?v = "unat (gb_buffer s ! i) mod 2 ^ (8 - j) div 2 ^ (8 - j - n)"
  have "?v \<le> unat (gb_buffer s ! i)" by (meson div_le_dividend mod_less_eq_dividend order_trans)
  then have "?v < 2 ^ 32" using unsigned_less [of "gb_buffer s ! i", where 'a = nat] by simp
  then have "unat (of_nat ?v :: u32) = ?v" by (simp add: unat_of_nat)
  then show ?thesis using get_bits_loop_in [of s i j n 0] assms by (simp add: get_bits_av1_def)
qed

section \<open>The header of a unit\<close>

lemma skip_bits_in:
  "gb_index s = 8 * i + j \<Longrightarrow> j + n \<le> 8 \<Longrightarrow> i < length (gb_buffer s) \<Longrightarrow> 8 * i \<le> gb_size_in_bits s \<Longrightarrow>
    skip_bits n s = Some (s\<lparr>gb_index := gb_index s + n\<rparr>)"
  using get_bits_in [of s i j n] by (simp add: skip_bits_def)

lemma get_byte: "gb_index s = 8 * i \<Longrightarrow> i < length (gb_buffer s) \<Longrightarrow> 8 * i \<le> gb_size_in_bits s \<Longrightarrow>
    get_bits_av1 8 s = Some (unat (gb_buffer s ! i), s\<lparr>gb_index := 8 * (i + 1)\<rparr>)"
  using get_bits_in [of s i 0 8] unsigned_less [of "gb_buffer s ! i", where 'a = nat] by simp

lemma nat_low_seven: "n AND 0x7f = n mod 128" "(n AND 0x80 = 0) = (n < 128)" if "n < 256" for n :: nat
proof -
  show "n AND 0x7f = n mod 128" using take_bit_eq_mask [of 7 n] by (simp add: mask_eq_exp_minus_1 take_bit_eq_mod)
  have u: "unat (of_nat n :: byte) = n" using that by (simp add: unat_of_nat)
  have "(of_nat n AND 0x80 = (0 :: byte)) = (n AND 0x80 = 0)"
  proof -
    have "unat (of_nat n AND 0x80 :: byte) = n AND 0x80" by (simp only: unsigned_and_eq u) simp
    then show ?thesis by (metis unat_eq_zero)
  qed
  then show "(n AND 0x80 = 0) = (n < 128)" using high_bit [of "of_nat n"] u by simp
qed

text \<open>The reader at byte \<open>i\<close> of a size: what has been read is below \<open>128 ^ i\<close>.\<close>

lemma leb128_rounds_reads:
  "x < 128 \<Longrightarrow> low < 128 ^ i \<Longrightarrow> length (uleb_loop (of_nat x) val) \<le> n \<Longrightarrow>
    drop k (gb_buffer s) = uleb_loop (of_nat x) val @ post \<Longrightarrow> gb_index s = 8 * k \<Longrightarrow>
    8 * (k + length (uleb_loop (of_nat x) val)) \<le> gb_size_in_bits s \<Longrightarrow>
    leb128_rounds n i low s = Some (low + 128 ^ i * (x + 128 * val),
      s\<lparr>gb_index := 8 * (k + length (uleb_loop (of_nat x) val))\<rparr>)"
proof (induction val arbitrary: x i low n k s rule: less_induct)
  case (less val)
  let ?bs = "uleb_loop (of_nat x) val"
  have ne: "0 < length ?bs" by (simp add: uleb_loop.simps [of "of_nat x" val])
  then obtain n' where n: "n = Suc n'" using less.prems(3) by (cases n) auto
  have inside: "k < length (gb_buffer s)" using ne less.prems(4) by (cases "k < length (gb_buffer s)") auto
  have at: "gb_buffer s ! k = hd ?bs" using less.prems(4) inside ne hd_drop_conv_nth [OF inside] by (cases ?bs) auto
  have byte: "get_bits_av1 8 s = Some (unat (hd ?bs), s\<lparr>gb_index := 8 * (k + 1)\<rparr>)"
    using get_byte [OF less.prems(5) inside] less.prems(6) at by simp
  have pw: "(2 :: nat) ^ (i * 7) = 128 ^ i" by (simp add: power_mult mult.commute [of i])
  have or: "low OR push_bit (i * 7) x = low + 128 ^ i * x"
    using or_place_nat [of low "i * 7" x] less.prems(2) by (simp add: push_bit_eq_mult pw mult.commute)
  show ?case
  proof (cases "val = 0")
    case True
    then have bs: "?bs = [of_nat x]" by (simp add: uleb_loop.simps)
    have "x AND 0x7f = x" "x AND 0x80 = 0" using nat_low_seven [of x] less.prems(1) by simp_all
    with bs show ?thesis using byte or True by (simp add: n seven_bits(1) [OF less.prems(1)] Let_def del: push_bit_and)
  next
    case False
    let ?x = "val mod 128" and ?val = "val div 128"
    have bs: "?bs = (of_nat x OR 0x80) # uleb_loop (of_nat ?x) ?val" using False by (simp add: uleb_loop.simps [of "of_nat x" val])
    have rest: "drop (k + 1) (gb_buffer (s\<lparr>gb_index := 8 * (k + 1)\<rparr>)) = uleb_loop (of_nat ?x) ?val @ post"
      using arg_cong [OF less.prems(4), of tl] bs by (simp add: tl_drop drop_Suc)
    have low: "low + 128 ^ i * x < 128 ^ (i + 1)"
    proof -
      have "128 ^ i * x \<le> 128 ^ i * 127" using less.prems(1) by (intro mult_le_mono2) simp
      moreover have "(128 :: nat) ^ (i + 1) = 128 ^ i * 127 + 128 ^ i" by simp
      ultimately show ?thesis using less.prems(2) by linarith
    qed
    have "leb128_rounds n' (i + 1) (low + 128 ^ i * x) (s\<lparr>gb_index := 8 * (k + 1)\<rparr>) =
        Some (low + 128 ^ i * x + 128 ^ (i + 1) * (?x + 128 * ?val), s\<lparr>gb_index := 8 * (k + 1)\<rparr>
          \<lparr>gb_index := 8 * (k + 1 + length (uleb_loop (of_nat ?x) ?val))\<rparr>)"
      by (rule less.IH [OF _ _ low _ rest]) (use False less.prems(3,6) bs n in auto)
    moreover have "low + 128 ^ i * x + 128 ^ (i + 1) * (?x + 128 * ?val) = low + 128 ^ i * (x + 128 * val)"
      by (simp add: algebra_simps)
    moreover have "leb128_rounds n i low s = leb128_rounds n' (i + 1) (low + 128 ^ i * x) (s\<lparr>gb_index := 8 * (k + 1)\<rparr>)"
    proof -
      have "(x + 128) AND 0x7f = x" "(x + 128) AND 0x80 \<noteq> 0" using nat_low_seven [of "x + 128"] less.prems(1) by simp_all
      then show ?thesis using byte or by (simp add: n bs seven_bits(2) [OF less.prems(1)] Let_def del: push_bit_and)
    qed
    ultimately show ?thesis using bs by simp
  qed
qed

lemma leb128_av1_reads:
  assumes "drop k (gb_buffer s) = encode_uleb128 v @ post" "v < 2 ^ 31" "gb_index s = 8 * k"
    "8 * (k + length (encode_uleb128 v)) \<le> gb_size_in_bits s"
  shows "leb128_av1 s = Some (v, s\<lparr>gb_index := 8 * (k + length (encode_uleb128 v))\<rparr>)"
proof -
  have "length (encode_uleb128 v) \<le> 4 + 1"
    unfolding encode_uleb128_def using assms(2) by (intro uleb_length) simp
  with leb128_rounds_reads [of "v mod 128" 0 0 "v div 128" 8 k s post] assms show ?thesis
    by (simp add: leb128_av1_def encode_uleb128_def)
qed

lemma first_byte: "o_type u < 16 \<Longrightarrow> unat (obu_first u) = o_type u * 8 + (if o_ext u = None then 2 else 6)"
  unfolding obu_first_def unat_of_nat by auto

lemma uleb_short: "v < 2 ^ 31 \<Longrightarrow> length (encode_uleb128 v) \<le> 5"
  unfolding encode_uleb128_def using uleb_length [of "v div 128" 4] by simp

lemma prefix_short: "obu_ok u \<Longrightarrow> length (obu_prefix u) \<le> 7"
  using uleb_short [of "length (o_payload u)"] by (auto simp: obu_prefix_def obu_ok_def split: option.splits)

lemma init_bits: "0 \<le> n \<Longrightarrow> n \<le> 10 \<Longrightarrow>
    init_get_bits8 buf n = (\<lparr>gb_buffer = buf, gb_index = 0, gb_size_in_bits = nat n * 8\<rparr>, 0)"
  by (simp add: init_get_bits8_def init_get_bits_xe_def c_div_def nat_mult_distrib Let_def)

lemma parse_obu_av1:
  assumes "obu_ok u" "length (obu_bytes u @ post) < 2 ^ 31"
  shows "parse_obu_header_av1 (obu_bytes u @ post) (length (obu_bytes u @ post)) =
    Some (Some (int (length (o_payload u)), length (obu_prefix u), length (obu_bytes u), o_type u))"
proof -
  let ?buf = "obu_bytes u @ post" and ?n = "length (o_payload u)" and ?b = "obu_first u"
  let ?lim = "nat (min (int (length ?buf)) 10) * 8"
  have ok: "o_type u < 16" "?n < 2 ^ 31" using assms(1) by (simp_all add: obu_ok_def)
  note b = first_byte [OF ok(1)]
  define g where "g = (\<lambda>i. \<lparr>gb_buffer = ?buf, gb_index = i, gb_size_in_bits = ?lim\<rparr>)"
  have init: "init_get_bits8 ?buf (min (int (length ?buf)) 10) = (g 0, 0)"
    unfolding g_def by (rule init_bits) simp_all
  have lim: "8 * length (obu_prefix u) \<le> ?lim" "0 < length (obu_prefix u)"
    using prefix_short [OF assms(1)] prefix_pos [of u] by (auto simp: obu_bytes_def)
  have first: "?buf ! 0 = ?b" "0 < length ?buf" by (simp_all add: obu_bytes_def obu_prefix_def)
  have upd: "(g i)\<lparr>gb_index := k\<rparr> = g k" "gb_index (g i) = i" "gb_buffer (g i) = ?buf" "gb_size_in_bits (g i) = ?lim" for i k
    by (simp_all add: g_def)
  have v: "unat ?b mod 256 div 128 = 0" "unat ?b mod 128 div 8 = o_type u" "unat ?b mod 8 div 4 = (if o_ext u = None then 0 else 1)"
    "unat ?b mod 4 div 2 = 1"
    unfolding b using ok(1) by (cases "o_ext u"; simp; presburger)+
  have "get_bits_av1 1 (g 0) = Some (0, g 1)" using get_bits_in [of "g 0" 0 0 1] first v(1) by (simp add: upd)
  moreover have "get_bits_av1 4 (g 1) = Some (o_type u, g 5)" using get_bits_in [of "g 1" 0 1 4] first v(2) by (simp add: upd)
  moreover have "get_bits_av1 1 (g 5) = Some (if o_ext u = None then 0 else 1, g 6)"
    using get_bits_in [of "g 5" 0 5 1] first v(3) by (simp add: upd)
  moreover have "get_bits_av1 1 (g 6) = Some (1, g 7)" using get_bits_in [of "g 6" 0 6 1] first v(4) by (simp add: upd)
  moreover have "skip_bits 1 (g 7) = Some (g 8)" using skip_bits_in [of "g 7" 0 7 1] first by (simp add: upd)
  ultimately have bits: "get_bits_av1 1 (g 0) = Some (0, g 1)" "get_bits_av1 4 (g 1) = Some (o_type u, g 5)"
    "get_bits_av1 1 (g 5) = Some (if o_ext u = None then 0 else 1, g 6)" "get_bits_av1 1 (g 6) = Some (1, g 7)"
    "skip_bits 1 (g 7) = Some (g 8)" by blast+
  define k where "k = (if o_ext u = None then 1 else 2 :: nat)"
  have ext: "(if (if o_ext u = None then 0 else 1 :: nat) \<noteq> 0 then do {
                   (_, gb) \<leftarrow> get_bits_av1 3 (g 8);
                   (_, gb) \<leftarrow> get_bits_av1 2 gb;
                   skip_bits 3 gb
                 } else Some (g 8)) = Some (g (8 * k))"
  proof (cases "o_ext u")
    case (Some x)
    then have "1 < length ?buf" by (simp add: obu_bytes_def obu_prefix_def)
    moreover have "8 \<le> ?lim" using lim by linarith
    ultimately show ?thesis
      using get_bits_in [of "g 8" 1 0 3] get_bits_in [of "g 11" 1 3 2] skip_bits_in [of "g 13" 1 5 3] Some by (simp add: upd k_def)
  qed (simp add: k_def)
  have d: "drop k ?buf = encode_uleb128 ?n @ o_payload u @ post" and p: "k + length (encode_uleb128 ?n) = length (obu_prefix u)"
    by (cases "o_ext u"; simp add: obu_bytes_def obu_prefix_def k_def)+
  have leb: "leb128_av1 (g (8 * k)) = Some (?n, g (8 * length (obu_prefix u)))"
    using leb128_av1_reads [of k "g (8 * k)" ?n "o_payload u @ post"] d p ok(2) lim by (simp add: upd)
  have left: "\<not> get_bits_left (g (8 * length (obu_prefix u))) < 0"
    using lim by (simp add: get_bits_left_def upd)
  show ?thesis
    unfolding parse_obu_header_av1_def init bits bind.bind_lunit case_prod_conv
    unfolding ext bind.bind_lunit leb
    using left lim(2) by (simp add: upd obu_bytes_def nat_int_add Let_def)
qed

section \<open>Packets\<close>

lemmas obu_types = AV1_OBU_FRAME_def AV1_OBU_FRAME_HEADER_def AV1_OBU_TEMPORAL_DELIMITER_def
  AV1_OBU_REDUNDANT_FRAME_HEADER_def AV1_OBU_TILE_LIST_def

definition kept_unit :: "obu \<Rightarrow> bool" where
  "kept_unit u \<longleftrightarrow> o_type u \<notin> {AV1_OBU_TEMPORAL_DELIMITER, AV1_OBU_REDUNDANT_FRAME_HEADER, AV1_OBU_TILE_LIST}"

definition frame_unit :: "obu \<Rightarrow> bool" where
  "frame_unit u \<longleftrightarrow> o_type u = AV1_OBU_FRAME \<or> o_type u = AV1_OBU_FRAME_HEADER"

text \<open>The first bits of a frame: whether an old frame is shown again, the type, whether it is shown.\<close>

definition new_frame :: "obu \<Rightarrow> bool" where
  "new_frame u \<longleftrightarrow> frame_unit u \<and> unat (hd (o_payload u)) < 128"

definition frame_type :: "obu \<Rightarrow> nat" where
  "frame_type u = unat (hd (o_payload u)) div 32 mod 4"

definition frame_shown :: "obu \<Rightarrow> bool" where
  "frame_shown u \<longleftrightarrow> odd (unat (hd (o_payload u)) div 16)"

definition frame_priority :: "obu \<Rightarrow> int" where
  "frame_priority u = (if frame_type u = 1 then (if frame_shown u then 1 else 2) else if frame_type u = 3 then 2 else 3)"

definition packet_unit_ok :: "obu \<Rightarrow> bool" where
  "packet_unit_ok u \<longleftrightarrow> obu_ok u \<and> (frame_unit u \<longrightarrow> o_payload u \<noteq> [])"

text \<open>The key flag and priority after the units: those that there were if there was a priority, else those of the first frame.\<close>

definition units_priority :: "obu list \<Rightarrow> bool \<times> int \<Rightarrow> bool \<times> int" where
  "units_priority us k =
     (if snd k \<noteq> 0 then k
      else case List.find new_frame us of None \<Rightarrow> k | Some u \<Rightarrow> (fst k \<or> frame_type u = 0, frame_priority u))"

lemma units_priority_Cons:
  "units_priority (u # us) k = units_priority us (if snd k = 0 \<and> new_frame u then (fst k \<or> frame_type u = 0, frame_priority u) else k)"
  by (auto simp: units_priority_def frame_priority_def)

lemma key_priority_step:
  assumes "frame_unit u" "o_payload u \<noteq> []"
  shows "compute_av1_keyframe_priority (o_payload u @ post) k =
    Some (if snd k = 0 \<and> new_frame u then (fst k \<or> frame_type u = 0, frame_priority u) else k)"
proof (cases "snd k = 0")
  case False
  then show ?thesis by (simp add: compute_av1_keyframe_priority_def)
next
  case True
  let ?buf = "o_payload u @ post" and ?b = "hd (o_payload u)"
  define g where "g = (\<lambda>i. \<lparr>gb_buffer = ?buf, gb_index = i, gb_size_in_bits = 8\<rparr>)"
  have upd: "(g i)\<lparr>gb_index := k\<rparr> = g k" "gb_index (g i) = i" "gb_buffer (g i) = ?buf" "gb_size_in_bits (g i) = 8" for i k
    by (simp_all add: g_def)
  have init: "init_get_bits8 ?buf 1 = (g 0, 0)" using init_bits [of 1 ?buf] by (simp add: g_def)
  have first: "?buf ! 0 = ?b" "0 < length ?buf" using assms(2) by (cases "o_payload u"; simp)+
  have n: "unat ?b < 256" using unsigned_less [of ?b, where 'a = nat] by simp
  have bits: "get_bit1 (g 0) = Some (unat ?b div 128 mod 2, g 1)" "get_bits_av1 2 (g 1) = Some (unat ?b mod 128 div 32, g 3)"
    "get_bit1 (g 3) = Some (unat ?b div 16 mod 2, g 4)"
    using get_bit1_in [of "g 0" 0 0] get_bits_in [of "g 1" 0 1 2] get_bit1_in [of "g 3" 0 3] first by (simp_all add: upd)
  have t: "unat ?b mod 128 div 32 = frame_type u" "frame_type u < 4" "(unat ?b div 128 mod 2 \<noteq> 0) = (\<not> unat ?b < 128)"
    "(unat ?b div 16 mod 2 \<noteq> 0) = frame_shown u"
  proof -
    show "unat ?b mod 128 div 32 = frame_type u" using mod_mult2_eq [of "unat ?b" 32 4] by (simp add: frame_type_def)
    show "frame_type u < 4" by (simp add: frame_type_def)
    have "unat ?b div 128 = 1" if "\<not> unat ?b < 128" using that n by (intro div_nat_eqI) simp_all
    then show "(unat ?b div 128 mod 2 \<noteq> 0) = (\<not> unat ?b < 128)" by (cases "unat ?b < 128") simp_all
    show "(unat ?b div 16 mod 2 \<noteq> 0) = frame_shown u" by (simp add: frame_shown_def odd_iff_mod_2_eq_one)
  qed
  have "frame_type u \<in> {0, 1, 2, 3}" using t(2) by auto
  then show ?thesis
    unfolding compute_av1_keyframe_priority_def init bits Let_def fst_conv bind.bind_lunit case_prod_conv t
    using True assms(1) by (auto simp: new_frame_def frame_priority_def)
qed

lemma serialize_obus:
  "\<forall>u \<in> set us. packet_unit_ok u \<Longrightarrow> length (obu_stream us @ post) < 2 ^ 31 \<Longrightarrow> ser_has s bs \<Longrightarrow>
    \<exists>s'. serialize_av1_data (obu_stream us @ post) s k = serialize_av1_data post s' (units_priority us k) \<and>
      ser_has s' (bs @ obu_stream (filter kept_unit us))"
proof (induction us arbitrary: s bs k)
  case Nil
  then show ?case by (intro exI [of _ s]) (simp add: units_priority_def)
next
  case (Cons u us)
  let ?rest = "obu_stream us @ post"
  let ?buf = "obu_bytes u @ ?rest"
  have ok: "obu_ok u" "frame_unit u \<Longrightarrow> o_payload u \<noteq> []" using Cons.prems(1) by (auto simp: packet_unit_ok_def)
  have short: "length ?buf < 2 ^ 31" "length ?rest < 2 ^ 31" using Cons.prems(2) by simp_all
  have ne: "?buf \<noteq> []" "length (obu_bytes u) \<noteq> 0" using prefix_pos [of u] by (auto simp: obu_bytes_def)
  have parse: "parse_obu_header_av1 ?buf (length ?buf) =
      Some (Some (int (length (o_payload u)), length (obu_prefix u), length (obu_bytes u), o_type u))"
    by (rule parse_obu_av1 [OF ok(1) short(1)])
  have parts: "drop (length (obu_bytes u)) ?buf = ?rest" "take (length (obu_bytes u)) ?buf = obu_bytes u"
    "drop (length (obu_prefix u)) ?buf = o_payload u @ ?rest" by (simp_all add: obu_bytes_def)
  define k' where "k' = (if snd k = 0 \<and> new_frame u then (fst k \<or> frame_type u = 0, frame_priority u) else k)"
  have step: "serialize_av1_data ?buf s k =
      (if \<not> kept_unit u then serialize_av1_data ?rest s k
       else do {
         k \<leftarrow> (if frame_unit u then compute_av1_keyframe_priority (o_payload u @ ?rest) k else Some k);
         (s, _) \<leftarrow> s_write s (obu_bytes u);
         serialize_av1_data ?rest s k
       })"
    by (subst serialize_av1_data.simps) (use ne short(1) in \<open>simp only: if_False parse option.case case_prod_conv parts
      kept_unit_def frame_unit_def linorder_not_le insert_iff empty_iff simp_thms de_Morgan_disj flip: not_less\<close>, simp)
  have buf: "obu_stream (u # us) @ post = ?buf" by simp
  show ?case
  proof (cases "kept_unit u")
    case False
    then have "k' = k" by (auto simp: k'_def new_frame_def frame_unit_def kept_unit_def obu_types)
    then have "units_priority (u # us) k = units_priority us k" unfolding units_priority_Cons k'_def [symmetric] by simp
    then show ?thesis using Cons.IH [OF _ short(2) Cons.prems(3), of k] Cons.prems(1) False unfolding buf step by simp
  next
    case True
    have k: "(if frame_unit u then compute_av1_keyframe_priority (o_payload u @ ?rest) k else Some k) = Some k'"
      using key_priority_step [of u ?rest k] ok(2) by (auto simp: k'_def new_frame_def)
    obtain s1 where s1: "s_write s (obu_bytes u) = Some (s1, length (obu_bytes u))" "ser_has s1 (bs @ obu_bytes u)"
      using ser_has_write [OF Cons.prems(3)] by blast
    have "serialize_av1_data ?buf s k = serialize_av1_data ?rest s1 k'"
      unfolding step using True by (simp only: simp_thms if_False k bind.bind_lunit s1(1) case_prod_conv)
    then show ?thesis using Cons.IH [OF _ short(2) s1(2), of k'] Cons.prems(1) True
      unfolding buf units_priority_Cons k'_def [symmetric] by simp
  qed
qed

text \<open>C37: a packet of AV1 units with sizes keeps, byte for byte and in order, all units but temporal delimiters, redundant
  headers and tile lists, which are not to be sent; without a priority from its encoder it gets the one of its first
  new frame (a shown inter frame can be dropped first) and is a key frame if that is one.\<close>

theorem av1_packet_units:
  assumes "\<forall>u \<in> set us. packet_unit_ok u" "length (obu_stream us) < 2 ^ 31" "pk_data src = obu_stream us"
  shows "\<exists>pk. obs_parse_av1_packet src = Some pk \<and> pk_data pk = obu_stream (filter kept_unit us) \<and>
    (pk_keyframe pk, pk_priority pk) = units_priority us (pk_keyframe src, pk_priority src) \<and>
    pk_drop_priority pk = pk_priority pk \<and> pk_dts pk = pk_dts src \<and> pk_pts pk = pk_pts src"
proof -
  obtain s where s: "serialize array_output_serializer_init (le_bytes 8 1) = Some (s, 8)"
    "ser_repr s (le_bytes 8 1, length (le_bytes 8 1))" using ref_start by blast
  then have "ser_has s (le_bytes 8 1)" by (simp add: ser_has_def)
  from serialize_obus [OF assms(1) _ this, of "[]" "(pk_keyframe src, pk_priority src)"] assms(2) obtain s' where
    s': "serialize_av1_data (obu_stream us) s (pk_keyframe src, pk_priority src) =
      Some (s', units_priority us (pk_keyframe src, pk_priority src))"
    "ser_has s' (le_bytes 8 1 @ obu_stream (filter kept_unit us))" by (auto simp: serialize_av1_data.simps)
  have "packet_bytes s' = Some (obu_stream (filter kept_unit us))"
    using packet_bytes_repr [of s' "le_bytes 8 1"] s'(2) by (simp add: ser_has_def)
  then show ?thesis
    unfolding obs_parse_av1_packet_def s(1) assms(3) bind.bind_lunit case_prod_conv s'(1)
    by (cases "units_priority us (pk_keyframe src, pk_priority src)") simp
qed

theorem av1_packet_units_witness:
  "\<exists>pk. obs_parse_av1_packet (sample_packet\<lparr>pk_data := obu_bytes \<lparr>o_type = 2, o_ext = None, o_payload = []\<rparr> @
      obu_bytes \<lparr>o_type = 6, o_ext = Some 8, o_payload = [0x30, 1]\<rparr>\<rparr>) = Some pk \<and>
    pk_data pk = obu_bytes \<lparr>o_type = 6, o_ext = Some 8, o_payload = [0x30, 1]\<rparr> \<and> \<not> pk_keyframe pk \<and> pk_priority pk = 1"
proof -
  let ?us = "[\<lparr>o_type = 2, o_ext = None, o_payload = []\<rparr>, \<lparr>o_type = 6, o_ext = Some 8, o_payload = [0x30, 1]\<rparr>]"
  have s: "obu_stream ?us = obu_bytes \<lparr>o_type = 2, o_ext = None, o_payload = []\<rparr> @
      obu_bytes \<lparr>o_type = 6, o_ext = Some 8, o_payload = [0x30, 1]\<rparr>" by simp
  have "\<forall>u \<in> set ?us. packet_unit_ok u" by (simp add: packet_unit_ok_def obu_ok_def frame_unit_def obu_types)
  moreover have "length (obu_stream ?us) < 2 ^ 31"
    by (simp add: obu_bytes_def obu_prefix_def encode_uleb128_def uleb_loop.simps)
  ultimately show ?thesis
    using av1_packet_units [of ?us "sample_packet\<lparr>pk_data := obu_stream ?us\<rparr>"] unfolding s [symmetric]
    by (auto simp: kept_unit_def units_priority_def new_frame_def frame_unit_def frame_priority_def frame_type_def frame_shown_def
      sample_packet_def obu_types)
qed

section \<open>Outside of the packet\<close>

lemma cut_header:
  assumes "unat b < 128" "unat b mod 8 div 2 \<noteq> 0"
  shows "parse_obu_header_av1 [b] 1 = None"
proof -
  define g where "g = (\<lambda>i. \<lparr>gb_buffer = [b], gb_index = i, gb_size_in_bits = 8\<rparr>)"
  have upd: "(g i)\<lparr>gb_index := k\<rparr> = g k" "gb_index (g i) = i" "gb_buffer (g i) = [b]" "gb_size_in_bits (g i) = 8" for i k
    by (simp_all add: g_def)
  have init: "init_get_bits8 [b] (min (int 1) 10) = (g 0, 0)" using init_bits [of 1 "[b]"] by (simp add: g_def)
  have bits: "get_bits_av1 1 (g 0) = Some (0, g 1)" "get_bits_av1 4 (g 1) = Some (unat b mod 128 div 8, g 5)"
    "get_bits_av1 1 (g 5) = Some (unat b mod 8 div 4, g 6)" "get_bits_av1 1 (g 6) = Some (unat b mod 4 div 2, g 7)"
    "skip_bits 1 (g 7) = Some (g 8)"
    using get_bits_in [of "g 0" 0 0 1] get_bits_in [of "g 1" 0 1 4] get_bits_in [of "g 5" 0 5 1] get_bits_in [of "g 6" 0 6 1]
      skip_bits_in [of "g 7" 0 7 1] assms(1) by (simp_all add: upd)
  have out: "get_bits_av1 (Suc n) (g 8) = None" for n by (simp add: get_bits_av1_def get_bit1_def upd)
  have eight: "get_bits_av1 8 (g 8) = None" using out [of 7] by simp
  have "leb128_av1 (g 8) = leb128_rounds (Suc 7) 0 0 (g 8)" by (simp add: leb128_av1_def)
  also have "\<dots> = None" by (simp only: leb128_rounds.simps eight bind.bind_lzero)
  finally have "leb128_av1 (g 8) = None" .
  moreover have size: "unat b mod 4 div 2 \<noteq> 0" if "unat b mod 8 div 4 = 0"
  proof -
    have "unat b mod 8 < 4" using that by (simp add: div_eq_0_iff)
    then have "unat b mod 4 = unat b mod 8" using mod_mod_cancel [of 4 8 "unat b"] by simp
    then show ?thesis using assms(2) by simp
  qed
  moreover have three: "get_bits_av1 3 (g 8) = None" using out [of 2] by simp
  note start = parse_obu_header_av1_def init bits bind.bind_lunit case_prod_conv
  show ?thesis
  proof (cases "unat b mod 8 div 4 = 0")
    case True
    then show ?thesis using size [OF True] \<open>leb128_av1 (g 8) = None\<close> unfolding start by simp
  next
    case False
    then show ?thesis using three unfolding start by simp
  qed
qed

text \<open>A packet that ends after the first byte of a unit that goes on (with an extension or a size): the bits that are
  missing are noticed only after they have been read, from a byte behind the packet.\<close>

theorem cut_unit_overreads:
  assumes "\<forall>u \<in> set us. packet_unit_ok u" "length (obu_stream us) < 2 ^ 31 - 1" "pk_data src = obu_stream us @ [b]"
    "unat b < 128" "unat b mod 8 div 2 \<noteq> 0"
  shows "obs_parse_av1_packet src = None"
proof -
  obtain s where s: "serialize array_output_serializer_init (le_bytes 8 1) = Some (s, 8)"
    "ser_repr s (le_bytes 8 1, length (le_bytes 8 1))" using ref_start by blast
  then have "ser_has s (le_bytes 8 1)" by (simp add: ser_has_def)
  from serialize_obus [OF assms(1) _ this, of "[b]" "(pk_keyframe src, pk_priority src)"] assms(2) obtain s' where
    "serialize_av1_data (pk_data src) s (pk_keyframe src, pk_priority src) =
      serialize_av1_data [b] s' (units_priority us (pk_keyframe src, pk_priority src))" by (auto simp: assms(3))
  moreover have "serialize_av1_data [b] s' k = None" for s' k
    using cut_header [OF assms(4,5)] by (subst serialize_av1_data.simps) simp
  ultimately show ?thesis unfolding obs_parse_av1_packet_def s(1) by simp
qed

theorem cut_unit_overreads_witness: "obs_parse_av1_packet (sample_packet\<lparr>pk_data := [0x0a]\<rparr>) = None"
  using cut_unit_overreads [of "[]" "sample_packet\<lparr>pk_data := [0x0a]\<rparr>" "0x0a"] by simp

text \<open>\<open>uvlc\<close> beyond the end: where the reader stands still at a zero, a round changes nothing, and the loop does not end.\<close>

lemma uvlc_zeros_bit:
  assumes "uvlc_zeros n s = Some r"
  shows "get_bits_av1 1 s = Some (0, s) \<longrightarrow> get_bits_left s = 0"
  by (rule uvlc_zeros.raw_induct [OF _ assms, of "\<lambda>n s r. get_bits_av1 1 s = Some (0, s) \<longrightarrow> get_bits_left s = 0"])
    (auto split: if_splits option.splits)

lemma uvlc_stands_still:
  assumes "gb_index s = gb_size_in_bits s + 8" "gb_index s = 8 * i + j" "j < 8" "i < length (gb_buffer s)"
    "\<not> bit (gb_buffer s ! i) (7 - j)"
  shows "get_bits_av1 1 s = Some (0, s)" "get_bits_left s \<noteq> 0" "uvlc s = None"
proof -
  have d: "gb_index s div 8 = i" "gb_index s mod 8 = j" using assms(2,3) by simp_all
  have "unat (gb_buffer s ! i) div 2 ^ (7 - j) mod 2 = 0"
  proof -
    have "\<not> bit (unat (gb_buffer s ! i)) (7 - j)" using assms(5) by (simp add: bit_unsigned_iff)
    then show ?thesis by (simp only: bit_iff_odd not_not even_iff_mod_2_eq_zero)
  qed
  then have "get_bit1 s = Some (0, s)" using one_bit_value [OF assms(3), of "gb_buffer s ! i"] assms(1,4) d
    by (simp add: get_bit1_def Let_def)
  then show one: "get_bits_av1 1 s = Some (0, s)" by (simp add: get_bits_av1_def)
  show left: "get_bits_left s \<noteq> 0" using assms(1) by (simp add: get_bits_left_def)
  then have "uvlc_zeros 0 s = None" using uvlc_zeros_bit [of 0 s] one by (cases "uvlc_zeros 0 s") auto
  then show "uvlc s = None" by (simp add: uvlc_def)
qed

end
