(* ===== verification/Flv.thy ===== *)
theory Flv
  imports Avc_Header
begin

text \<open>
  The FLV tags that the streaming and the file output write: \<open>plugins/obs-outputs/flv-mux.c\<close> and
  \<open>flv-mux.h\<close>, over the array serializer, built with \<open>ENABLE_HEVC\<close>, which is the default. An overflow of
  a signed number, a division by zero and a failed \<open>assert\<close> are \<^term>\<open>None\<close>. The AMF description
  of the stream (\<open>build_flv_meta_data\<close>) is an argument: it is doubles of the encoders' settings.
\<close>

section \<open>Codecs and times\<close>

datatype audio_id_t = AUDIO_CODEC_NONE | AUDIO_CODEC_AAC

datatype video_id_t = CODEC_NONE | CODEC_H264 | CODEC_AV1 | CODEC_HEVC

definition to_audio_type :: "string \<Rightarrow> audio_id_t" where
  "to_audio_type codec = (if codec = ''aac'' then AUDIO_CODEC_AAC else AUDIO_CODEC_NONE)"

definition to_video_type :: "string \<Rightarrow> video_id_t" where
  "to_video_type codec =
     (if codec = ''h264'' then CODEC_H264
      else if codec = ''av1'' then CODEC_AV1
      else if codec = ''hevc'' then CODEC_HEVC
      else CODEC_NONE)"

text \<open>Signed arithmetic of C: a result outside of the type is undefined, a conversion wraps.\<close>

definition signed_fit :: "nat \<Rightarrow> int \<Rightarrow> int option" where
  "signed_fit w v = (if - (2 ^ (w - 1)) \<le> v \<and> v < 2 ^ (w - 1) then Some v else None)"

definition to_i32 :: "int \<Rightarrow> int" where
  "to_i32 v = (v + 2 ^ 31) mod 2 ^ 32 - 2 ^ 31"

definition get_ms_time :: "encoder_packet \<Rightarrow> int \<Rightarrow> int option" where
  "get_ms_time packet val = do {
     v \<leftarrow> signed_fit 64 (val * 1000);
     if pk_timebase_den packet = 0 then None
     else Some (to_i32 (c_div v (pk_timebase_den packet)))
   }"

section \<open>Constants\<close>

definition RTMP_PACKET_TYPE_AUDIO :: byte where "RTMP_PACKET_TYPE_AUDIO = 0x08"
definition RTMP_PACKET_TYPE_VIDEO :: byte where "RTMP_PACKET_TYPE_VIDEO = 0x09"
definition RTMP_PACKET_TYPE_INFO :: byte where "RTMP_PACKET_TYPE_INFO = 0x12"

definition FT_KEY :: byte where "FT_KEY = push_bit 4 1"
definition FT_INTER :: byte where "FT_INTER = push_bit 4 2"

definition AUDIO_HEADER_EX :: byte where "AUDIO_HEADER_EX = push_bit 4 9"
definition AUDIO_PACKETTYPE_SEQ_START :: byte where "AUDIO_PACKETTYPE_SEQ_START = 0"
definition AUDIO_PACKETTYPE_FRAMES :: byte where "AUDIO_PACKETTYPE_FRAMES = 1"
definition AUDIO_PACKETTYPE_MULTITRACK :: byte where "AUDIO_PACKETTYPE_MULTITRACK = 5"

definition FRAME_HEADER_EX :: byte where "FRAME_HEADER_EX = push_bit 4 8"
definition PACKETTYPE_SEQ_START :: byte where "PACKETTYPE_SEQ_START = 0"
definition PACKETTYPE_FRAMES :: byte where "PACKETTYPE_FRAMES = 1"
definition PACKETTYPE_SEQ_END :: byte where "PACKETTYPE_SEQ_END = 2"
definition PACKETTYPE_FRAMESX :: byte where "PACKETTYPE_FRAMESX = 3"
definition PACKETTYPE_METADATA :: byte where "PACKETTYPE_METADATA = 4"
definition PACKETTYPE_MULTITRACK :: byte where "PACKETTYPE_MULTITRACK = 6"

definition MULTITRACKTYPE_ONE_TRACK :: byte where "MULTITRACKTYPE_ONE_TRACK = 0"

definition DATA_TYPE_NUMBER :: byte where "DATA_TYPE_NUMBER = 0"
definition DATA_TYPE_STRING :: byte where "DATA_TYPE_STRING = 2"
definition DATA_TYPE_OBJECT :: byte where "DATA_TYPE_OBJECT = 3"
definition DATA_TYPE_OBJECT_END :: byte where "DATA_TYPE_OBJECT_END = 9"

section \<open>Writers\<close>

definition char_bytes :: "string \<Rightarrow> byte list" where
  "char_bytes s = map of_char s"

definition s_w4 :: "string \<Rightarrow> ser \<Rightarrow> ser option" where
  "s_w4 cc s = do {
     s \<leftarrow> s_w8 (of_char (cc ! 0)) s;
     s \<leftarrow> s_w8 (of_char (cc ! 1)) s;
     s \<leftarrow> s_w8 (of_char (cc ! 2)) s;
     s_w8 (of_char (cc ! 3)) s
   }"

fun s_wa4cc :: "audio_id_t \<Rightarrow> ser \<Rightarrow> ser option" where
  "s_wa4cc AUDIO_CODEC_NONE s = None"
| "s_wa4cc AUDIO_CODEC_AAC s = s_w4 ''mp4a'' s"

fun s_w4cc :: "video_id_t \<Rightarrow> ser \<Rightarrow> ser option" where
  "s_w4cc CODEC_NONE s = None"
| "s_w4cc CODEC_AV1 s = s_w4 ''av01'' s"
| "s_w4cc CODEC_HEVC s = s_w4 ''hvc1'' s"
| "s_w4cc CODEC_H264 s = s_w4 ''avc1'' s"

definition s_wdata :: "byte list \<Rightarrow> ser \<Rightarrow> ser option" where
  "s_wdata data s = map_option fst (s_write s data)"

definition s_wstring :: "string \<Rightarrow> ser \<Rightarrow> ser option" where
  "s_wstring str s = do {
     s \<leftarrow> s_wb16 (of_nat (length str)) s;
     s_wdata (char_bytes str) s
   }"

text \<open>The sign extension of \<open>i32 >> 24\<close> is the division that rounds down.\<close>

definition time_high :: "int \<Rightarrow> byte" where
  "time_high i32 = word_of_int (i32 div 2 ^ 24) AND 0x7F"

definition s_wtimestamp :: "int \<Rightarrow> ser \<Rightarrow> ser option" where
  "s_wtimestamp i32 s = do {
     s \<leftarrow> s_wb24 (word_of_int i32 AND 0xFFFFFF) s;
     s_w8 (time_high i32) s
   }"

text \<open>The binary64 of a whole number below \<open>2 ^ 53\<close>, which is exact.\<close>

fun ilog2 :: "nat \<Rightarrow> nat" where
  "ilog2 n = (if n < 2 then 0 else Suc (ilog2 (n div 2)))"

declare ilog2.simps [simp del]

definition double_bits :: "int \<Rightarrow> u64" where
  "double_bits v =
     (if v = 0 then 0
      else let a = nat \<bar>v\<bar>; e = ilog2 a
        in of_nat ((if v < 0 then 2 ^ 63 else 0) + (1023 + e) * 2 ^ 52 + (a - 2 ^ e) * 2 ^ (52 - e)))"

definition s_wbd :: "int \<Rightarrow> ser \<Rightarrow> ser option" where
  "s_wbd v s = s_wb64 (double_bits v) s"

definition write_previous_tag_size_without_header :: "nat \<Rightarrow> ser \<Rightarrow> ser option" where
  "write_previous_tag_size_without_header header_size s =
     (if array_output_get_pos s \<ge> int header_size \<and> array_output_get_pos s \<ge> 11
      then s_wb32 (word_of_int (array_output_get_pos s) - of_nat header_size) s
      else None)"

definition write_previous_tag_size :: "ser \<Rightarrow> ser option" where
  "write_previous_tag_size s = write_previous_tag_size_without_header 0 s"

definition ser_bytes :: "ser \<Rightarrow> byte list option" where
  "ser_bytes s = mem_bytes 0 (da_num (ao_bytes s)) (da_array (ao_bytes s))"

definition flv_meta_data :: "byte list \<Rightarrow> bool \<Rightarrow> byte list option" where
  "flv_meta_data meta_data write_header = do {
     s \<leftarrow> (if write_header then do {
             s \<leftarrow> s_wdata (char_bytes ''FLV'') array_output_serializer_init;
             s \<leftarrow> s_w8 1 s;
             s \<leftarrow> s_w8 5 s;
             s \<leftarrow> s_wb32 9 s;
             s_wb32 0 s
           } else Some array_output_serializer_init);
     let start_pos = nat (array_output_get_pos s);
     s \<leftarrow> s_w8 RTMP_PACKET_TYPE_INFO s;
     s \<leftarrow> s_wb24 (of_nat (length meta_data)) s;
     s \<leftarrow> s_wb32 0 s;
     s \<leftarrow> s_wb24 0 s;
     s \<leftarrow> s_wdata meta_data s;
     s \<leftarrow> write_previous_tag_size_without_header start_pos s;
     ser_bytes s
   }"

section \<open>Packets\<close>

definition flv_video :: "int \<Rightarrow> encoder_packet \<Rightarrow> bool \<Rightarrow> ser \<Rightarrow> ser option" where
  "flv_video dts_offset packet is_header s = do {
     pts_ms \<leftarrow> get_ms_time packet (pk_pts packet);
     dts_ms \<leftarrow> get_ms_time packet (pk_dts packet);
     ct_offset_ms \<leftarrow> signed_fit 32 (pts_ms - dts_ms);
     time_ms \<leftarrow> signed_fit 32 (dts_ms - dts_offset);
     if pk_data packet = [] then Some s
     else do {
       s \<leftarrow> s_w8 RTMP_PACKET_TYPE_VIDEO s;
       s \<leftarrow> s_wb24 (of_nat (length (pk_data packet)) + 5) s;
       s \<leftarrow> s_wb24 (word_of_int time_ms) s;
       s \<leftarrow> s_w8 (time_high time_ms) s;
       s \<leftarrow> s_wb24 0 s;
       s \<leftarrow> s_w8 (if pk_keyframe packet then 0x17 else 0x27) s;
       s \<leftarrow> s_w8 (if is_header then 0 else 1) s;
       s \<leftarrow> s_wb24 (word_of_int ct_offset_ms) s;
       s \<leftarrow> s_wdata (pk_data packet) s;
       write_previous_tag_size s
     }
   }"

definition flv_audio :: "int \<Rightarrow> encoder_packet \<Rightarrow> bool \<Rightarrow> ser \<Rightarrow> ser option" where
  "flv_audio dts_offset packet is_header s = do {
     dts_ms \<leftarrow> get_ms_time packet (pk_dts packet);
     time_ms \<leftarrow> signed_fit 32 (dts_ms - dts_offset);
     if pk_data packet = [] then Some s
     else do {
       s \<leftarrow> s_w8 RTMP_PACKET_TYPE_AUDIO s;
       s \<leftarrow> s_wb24 (of_nat (length (pk_data packet)) + 2) s;
       s \<leftarrow> s_wb24 (word_of_int time_ms) s;
       s \<leftarrow> s_w8 (time_high time_ms) s;
       s \<leftarrow> s_wb24 0 s;
       s \<leftarrow> s_w8 0xaf s;
       s \<leftarrow> s_w8 (if is_header then 0 else 1) s;
       s \<leftarrow> s_wdata (pk_data packet) s;
       write_previous_tag_size s
     }
   }"

definition flv_packet_mux :: "encoder_packet \<Rightarrow> int \<Rightarrow> bool \<Rightarrow> byte list option" where
  "flv_packet_mux packet dts_offset is_header = do {
     s \<leftarrow> (case pk_type packet of
             OBS_ENCODER_VIDEO \<Rightarrow> flv_video dts_offset packet is_header array_output_serializer_init
           | OBS_ENCODER_AUDIO \<Rightarrow> flv_audio dts_offset packet is_header array_output_serializer_init);
     ser_bytes s
   }"

text \<open>The inner \<^term>\<open>None\<close>: the function returns without having set its outputs.\<close>

definition flv_packet_audio_ex ::
  "encoder_packet \<Rightarrow> audio_id_t \<Rightarrow> int \<Rightarrow> byte \<Rightarrow> nat \<Rightarrow> byte list option option" where
  "flv_packet_audio_ex packet codec_id dts_offset type idx =
     (if pk_type packet \<noteq> OBS_ENCODER_AUDIO then None
      else do {
        dts_ms \<leftarrow> get_ms_time packet (pk_dts packet);
        time_ms \<leftarrow> signed_fit 32 (dts_ms - dts_offset);
        let is_multitrack = (idx > 0);
        if pk_data packet = [] then Some None
        else do {
          let header_metadata_size = (if is_multitrack then 5 + 2 else 5);
          s \<leftarrow> s_w8 RTMP_PACKET_TYPE_AUDIO array_output_serializer_init;
          s \<leftarrow> s_wb24 (of_nat (length (pk_data packet)) + header_metadata_size) s;
          s \<leftarrow> s_wb24 (word_of_int time_ms) s;
          s \<leftarrow> s_w8 (time_high time_ms) s;
          s \<leftarrow> s_wb24 0 s;
          s \<leftarrow> s_w8 (AUDIO_HEADER_EX OR (if is_multitrack then AUDIO_PACKETTYPE_MULTITRACK else type)) s;
          s \<leftarrow> (if is_multitrack then do {
                  s \<leftarrow> s_w8 (MULTITRACKTYPE_ONE_TRACK OR type) s;
                  s \<leftarrow> s_wa4cc codec_id s;
                  s_w8 (of_nat idx) s
                } else s_wa4cc codec_id s);
          s \<leftarrow> s_wdata (pk_data packet) s;
          s \<leftarrow> write_previous_tag_size s;
          map_option Some (ser_bytes s)
        }
      })"

definition flv_packet_ex :: "encoder_packet \<Rightarrow> video_id_t \<Rightarrow> int \<Rightarrow> byte \<Rightarrow> nat \<Rightarrow> byte list option" where
  "flv_packet_ex packet codec_id dts_offset type idx =
     (if pk_type packet \<noteq> OBS_ENCODER_VIDEO then None
      else do {
        dts_ms \<leftarrow> get_ms_time packet (pk_dts packet);
        time_ms \<leftarrow> signed_fit 32 (dts_ms - dts_offset);
        let is_multitrack = (idx > 0);
        let has_offset = ((codec_id = CODEC_H264 \<or> codec_id = CODEC_HEVC) \<and> type = PACKETTYPE_FRAMES);
        let header_metadata_size = 5 + (if has_offset then 3 else 0) + (if is_multitrack then 2 else 0);
        s \<leftarrow> s_w8 RTMP_PACKET_TYPE_VIDEO array_output_serializer_init;
        s \<leftarrow> s_wb24 (of_nat (length (pk_data packet)) + header_metadata_size) s;
        s \<leftarrow> s_wtimestamp time_ms s;
        s \<leftarrow> s_wb24 0 s;
        let frame_type = (if pk_keyframe packet then FT_KEY else FT_INTER);
        s \<leftarrow> (if is_multitrack then do {
                s \<leftarrow> s_w8 (FRAME_HEADER_EX OR PACKETTYPE_MULTITRACK OR frame_type) s;
                s \<leftarrow> s_w8 (MULTITRACKTYPE_ONE_TRACK OR type) s;
                s \<leftarrow> s_w4cc codec_id s;
                s_w8 (of_nat idx) s
              } else do {
                s \<leftarrow> s_w8 (FRAME_HEADER_EX OR type OR frame_type) s;
                s_w4cc codec_id s
              });
        s \<leftarrow> (if has_offset then do {
                pts_ms \<leftarrow> get_ms_time packet (pk_pts packet);
                dts_ms \<leftarrow> get_ms_time packet (pk_dts packet);
                ct_offset_ms \<leftarrow> signed_fit 32 (pts_ms - dts_ms);
                s_wb24 (word_of_int ct_offset_ms) s
              } else Some s);
        s \<leftarrow> s_wdata (pk_data packet) s;
        s \<leftarrow> write_previous_tag_size s;
        ser_bytes s
      })"

definition flv_packet_start :: "encoder_packet \<Rightarrow> video_id_t \<Rightarrow> nat \<Rightarrow> byte list option" where
  "flv_packet_start packet codec idx = flv_packet_ex packet codec 0 PACKETTYPE_SEQ_START idx"

definition flv_packet_frames :: "encoder_packet \<Rightarrow> video_id_t \<Rightarrow> int \<Rightarrow> nat \<Rightarrow> byte list option" where
  "flv_packet_frames packet codec dts_offset idx =
     (let packet_type =
        (if (codec = CODEC_H264 \<or> codec = CODEC_HEVC) \<and> pk_dts packet = pk_pts packet
         then PACKETTYPE_FRAMESX else PACKETTYPE_FRAMES)
      in flv_packet_ex packet codec dts_offset packet_type idx)"

definition flv_packet_end :: "encoder_packet \<Rightarrow> video_id_t \<Rightarrow> nat \<Rightarrow> byte list option" where
  "flv_packet_end packet codec idx = flv_packet_ex packet codec 0 PACKETTYPE_SEQ_END idx"

definition flv_packet_audio_start :: "encoder_packet \<Rightarrow> audio_id_t \<Rightarrow> nat \<Rightarrow> byte list option option" where
  "flv_packet_audio_start packet codec idx = flv_packet_audio_ex packet codec 0 AUDIO_PACKETTYPE_SEQ_START idx"

definition flv_packet_audio_frames ::
  "encoder_packet \<Rightarrow> audio_id_t \<Rightarrow> int \<Rightarrow> nat \<Rightarrow> byte list option option" where
  "flv_packet_audio_frames packet codec dts_offset idx =
     flv_packet_audio_ex packet codec dts_offset AUDIO_PACKETTYPE_FRAMES idx"

section \<open>Colour information\<close>

definition s_wnumber :: "string \<Rightarrow> int \<Rightarrow> ser \<Rightarrow> ser option" where
  "s_wnumber name v s = do {
     s \<leftarrow> s_wstring name s;
     s \<leftarrow> s_w8 DATA_TYPE_NUMBER s;
     s_wbd v s
   }"

definition s_wobject_end :: "ser \<Rightarrow> ser option" where
  "s_wobject_end s = do {
     s \<leftarrow> s_w8 0 s;
     s \<leftarrow> s_w8 0 s;
     s_w8 DATA_TYPE_OBJECT_END s
   }"

definition color_info :: "int \<Rightarrow> byte \<Rightarrow> int \<Rightarrow> int \<Rightarrow> int \<Rightarrow> int \<Rightarrow> byte list option" where
  "color_info bits_per_raw_sample color_primaries color_trc color_space min_luminance max_luminance = do {
     s \<leftarrow> s_w8 DATA_TYPE_STRING array_output_serializer_init;
     s \<leftarrow> s_wstring ''colorInfo'' s;
     s \<leftarrow> s_w8 DATA_TYPE_OBJECT s;
     s \<leftarrow> s_wstring ''colorConfig'' s;
     s \<leftarrow> s_w8 DATA_TYPE_OBJECT s;
     s \<leftarrow> s_wnumber ''bitDepth'' bits_per_raw_sample s;
     s \<leftarrow> s_wnumber ''colorPrimaries'' (uint color_primaries) s;
     s \<leftarrow> s_wnumber ''transferCharacteristics'' color_trc s;
     s \<leftarrow> s_wnumber ''matrixCoefficients'' color_space s;
     s \<leftarrow> s_wobject_end s;
     s \<leftarrow> (if max_luminance \<noteq> 0 then do {
             s \<leftarrow> s_wstring ''hdrMdcv'' s;
             s \<leftarrow> s_w8 DATA_TYPE_OBJECT s;
             s \<leftarrow> s_wnumber ''maxLuminance'' max_luminance s;
             s \<leftarrow> s_wnumber ''minLuminance'' min_luminance s;
             s_wobject_end s
           } else Some s);
     s \<leftarrow> s_wobject_end s;
     ser_bytes s
   }"

definition flv_packet_metadata ::
  "video_id_t \<Rightarrow> int \<Rightarrow> byte \<Rightarrow> int \<Rightarrow> int \<Rightarrow> int \<Rightarrow> int \<Rightarrow> nat \<Rightarrow> byte list option" where
  "flv_packet_metadata codec_id bits_per_raw_sample color_primaries color_trc color_space min_luminance
     max_luminance idx = do {
     metadata \<leftarrow> color_info bits_per_raw_sample color_primaries color_trc color_space min_luminance max_luminance;
     let is_multitrack = (idx > 0);
     let header_metadata_size = (if is_multitrack then 5 + 2 else 5);
     s \<leftarrow> s_w8 RTMP_PACKET_TYPE_VIDEO array_output_serializer_init;
     s \<leftarrow> s_wb24 (of_nat (length metadata) + header_metadata_size) s;
     s \<leftarrow> s_wtimestamp 0 s;
     s \<leftarrow> s_wb24 0 s;
     s \<leftarrow> s_w8 (FRAME_HEADER_EX OR (if is_multitrack then PACKETTYPE_MULTITRACK else PACKETTYPE_METADATA)) s;
     s \<leftarrow> (if is_multitrack then do {
             s \<leftarrow> s_w8 (MULTITRACKTYPE_ONE_TRACK OR PACKETTYPE_METADATA) s;
             s \<leftarrow> s_w4cc codec_id s;
             s_w8 (of_nat idx) s
           } else s_w4cc codec_id s);
     s \<leftarrow> s_wdata metadata s;
     s \<leftarrow> write_previous_tag_size s;
     ser_bytes s
   }"

end
