(* ===== verification/Rtmp_Queue.thy ===== *)
theory Rtmp_Queue
  imports Deque Flv Rtmp_Av1 Hevc Interleave_Properties
begin

text \<open>
  The packet queue of the RTMP output with its dropping of frames and its dynamic bitrate:
  \<open>plugins/obs-outputs/rtmp-stream.c\<close>, from the callback that gets packets to the ring buffer the send thread
  empties. The mutexes make each operation atomic. \<open>congestion\<close>, a float that is only shown, is left out.
\<close>

section \<open>State\<close>

definition OBS_NAL_PRIORITY_HIGH :: int where "OBS_NAL_PRIORITY_HIGH = 2"
definition OBS_NAL_PRIORITY_HIGHEST :: int where "OBS_NAL_PRIORITY_HIGHEST = 3"

definition DBR_INC_TIMER :: u64 where "DBR_INC_TIMER = 4 * 1000000000"
definition DBR_TRIGGER_USEC :: int where "DBR_TRIGGER_USEC = 200 * 1000"
definition MIN_ESTIMATE_DURATION_MS :: nat where "MIN_ESTIMATE_DURATION_MS = 1000"
definition MAX_ESTIMATE_DURATION_MS :: nat where "MAX_ESTIMATE_DURATION_MS = 2000"

record dbr_frame =
  df_send_beg :: u64
  df_send_end :: u64
  df_size :: nat

text \<open>\<open>rs_enc_bitrate\<close> is the \<open>bitrate\<close> in the settings of the video encoders that are there, \<open>rs_sem\<close> the count of
  the semaphore, \<open>rs_written\<close> what has been given to \<open>RTMP_Write\<close>, \<open>rs_stopped\<close> the \<open>stop_event\<close>.\<close>

record rtmp_stream =
  rs_packets :: "encoder_packet deque"
  rs_sent_headers :: bool
  rs_got_first_packet :: bool
  rs_start_dts_offset :: int
  rs_active :: bool
  rs_disconnected :: bool
  rs_encode_error :: bool
  rs_sem :: nat
  rs_stopped :: bool
  rs_stop_ts :: u64
  rs_shutdown_timeout_ts :: u64
  rs_max_shutdown_time_sec :: int
  rs_drop_threshold_usec :: int
  rs_pframe_drop_threshold_usec :: int
  rs_min_priority :: int
  rs_last_dts_usec :: int
  rs_total_bytes_sent :: nat
  rs_dropped_frames :: int
  rs_dbr_frames :: "dbr_frame deque"
  rs_dbr_data_size :: u64
  rs_dbr_inc_timeout :: u64
  rs_audio_bitrate :: int
  rs_dbr_est_bitrate :: int
  rs_dbr_orig_bitrate :: int
  rs_dbr_prev_bitrate :: int
  rs_dbr_cur_bitrate :: int
  rs_dbr_inc_bitrate :: int
  rs_dbr_enabled :: bool
  rs_dbr_table :: "int list list"
  rs_enc_bitrate :: "int option list"
  rs_audio_codec :: "audio_id_t list"
  rs_video_codec :: "video_id_t list"
  rs_written :: "byte list list"

text \<open>The clock as it is read in one call (in the order of the text), the alignment of packet data, and the product of a
  difference of bitrates with \<open>min(remaining / (double) overall, 1)\<close>, a double cut to a \<open>long\<close>.\<close>

record rtmp_env =
  re_now :: "nat \<Rightarrow> u64"
  re_al :: nat
  re_scale :: "int \<Rightarrow> int \<Rightarrow> int \<Rightarrow> int"

definition nth_opt :: "'a list \<Rightarrow> nat \<Rightarrow> 'a option" where
  "nth_opt xs i = (if i < length xs then Some (xs ! i) else None)"

section \<open>Queue\<close>

definition num_buffered_packets :: "rtmp_stream \<Rightarrow> nat" where
  "num_buffered_packets st = dq_size (rs_packets st)"

definition add_packet :: "encoder_packet \<Rightarrow> rtmp_stream \<Rightarrow> (bool \<times> rtmp_stream) option" where
  "add_packet packet st =
     map_option (\<lambda>q. (True, st\<lparr>rs_packets := q\<rparr>)) (deque_push_back (rs_packets st) [packet])"

definition pop_packet_front :: "'a deque \<Rightarrow> ('a \<times> 'a deque) option" where
  "pop_packet_front q = do {
     (cells, q) \<leftarrow> deque_pop_front q True 1;
     cell \<leftarrow> hd cells;
     Some (cell, q)
   }"

definition get_next_packet :: "rtmp_stream \<Rightarrow> (encoder_packet option \<times> rtmp_stream) option" where
  "get_next_packet st =
     (if dq_size (rs_packets st) \<noteq> 0
      then map_option (\<lambda>(packet, q). (Some packet, st\<lparr>rs_packets := q\<rparr>)) (pop_packet_front (rs_packets st))
      else Some (None, st))"

text \<open>\<open>while (stream->packets.size)\<close>, with the number of rounds left; each takes a packet off.\<close>

fun free_packets_loop :: "nat \<Rightarrow> encoder_packet deque \<Rightarrow> encoder_packet deque option" where
  "free_packets_loop n q =
     (if dq_size q = 0 then Some q
      else case n of 0 \<Rightarrow> None
        | Suc n \<Rightarrow> Option.bind (pop_packet_front q) (\<lambda>(_, q). free_packets_loop n q))"

definition free_packets :: "rtmp_stream \<Rightarrow> rtmp_stream option" where
  "free_packets st =
     map_option (\<lambda>q. st\<lparr>rs_packets := q\<rparr>) (free_packets_loop (num_buffered_packets st) (rs_packets st))"

section \<open>Dropping frames\<close>

fun drop_loop :: "nat \<Rightarrow> int \<Rightarrow> encoder_packet deque \<Rightarrow> encoder_packet deque \<Rightarrow> nat \<Rightarrow> (encoder_packet deque \<times> nat) option" where
  "drop_loop n highest_priority q new_buf dropped =
     (if dq_size q = 0 then Some (new_buf, dropped)
      else case n of 0 \<Rightarrow> None
        | Suc n \<Rightarrow> do {
            (packet, q) \<leftarrow> pop_packet_front q;
            if pk_type packet = OBS_ENCODER_AUDIO \<or> pk_drop_priority packet \<ge> highest_priority
            then do {
              new_buf \<leftarrow> deque_push_back new_buf [packet];
              drop_loop n highest_priority q new_buf dropped
            }
            else drop_loop n highest_priority q new_buf (dropped + 1)
          })"

declare free_packets_loop.simps [simp del] drop_loop.simps [simp del]

definition drop_frames :: "int \<Rightarrow> rtmp_stream \<Rightarrow> rtmp_stream option" where
  "drop_frames highest_priority st = do {
     new_buf \<leftarrow> deque_reserve deque_init 8;
     (new_buf, num_frames_dropped) \<leftarrow>
       drop_loop (dq_size (rs_packets st)) highest_priority (rs_packets st) new_buf 0;
     let st = st\<lparr>rs_packets := new_buf\<rparr>;
     let st = (if rs_min_priority st < highest_priority then st\<lparr>rs_min_priority := highest_priority\<rparr> else st);
     Some (if num_frames_dropped = 0 then st
           else st\<lparr>rs_dropped_frames := rs_dropped_frames st + int num_frames_dropped\<rparr>)
   }"

fun find_first_loop :: "encoder_packet deque \<Rightarrow> nat \<Rightarrow> nat \<Rightarrow> encoder_packet option option" where
  "find_first_loop q i 0 = Some None"
| "find_first_loop q i (Suc n) = do {
     place \<leftarrow> deque_data q i;
     cur \<leftarrow> dq_data q ! place;
     if pk_type cur = OBS_ENCODER_VIDEO \<and> \<not> pk_keyframe cur then Some (Some cur) else find_first_loop q (i + 1) n
   }"

definition find_first_video_packet :: "rtmp_stream \<Rightarrow> encoder_packet option option" where
  "find_first_video_packet st = find_first_loop (rs_packets st) 0 (dq_size (rs_packets st))"

section \<open>Dynamic bitrate\<close>

definition dbr_add_frame :: "dbr_frame \<Rightarrow> rtmp_stream \<Rightarrow> rtmp_stream option" where
  "dbr_add_frame back st = do {
     q \<leftarrow> deque_push_back (rs_dbr_frames st) [back];
     cells \<leftarrow> deque_peek_front q True 1;
     front \<leftarrow> hd cells;
     let data_size = rs_dbr_data_size st + of_nat (df_size back);
     let dur = unat (df_send_end back - df_send_beg front) div 1000000;
     (q, data_size) \<leftarrow>
       (if dur \<ge> MAX_ESTIMATE_DURATION_MS
        then map_option (\<lambda>(_, q). (q, data_size - of_nat (df_size front))) (deque_pop_front q False 1)
        else Some (q, data_size));
     let est = (if dur \<ge> MIN_ESTIMATE_DURATION_MS then int (unat (data_size * 1000) div dur) else 0);
     let est = c_div (est * 8) 1000;
     let est = (if est \<noteq> 0 then (if est - rs_audio_bitrate st < 50 then 50 else est - rs_audio_bitrate st) else est);
     Some (st\<lparr>rs_dbr_frames := q, rs_dbr_data_size := data_size, rs_dbr_est_bitrate := est\<rparr>)
   }"

definition dbr_bitrate_lowered :: "rtmp_env \<Rightarrow> rtmp_stream \<Rightarrow> (bool \<times> rtmp_stream) option" where
  "dbr_bitrate_lowered E st = do {
     let prev_bitrate = rs_dbr_prev_bitrate st;
     (est_bitrate, st) \<leftarrow>
       (if rs_dbr_est_bitrate st \<noteq> 0 \<and> rs_dbr_est_bitrate st < rs_dbr_cur_bitrate st then do {
          (_, q) \<leftarrow> deque_pop_front (rs_dbr_frames st) False (dq_size (rs_dbr_frames st));
          let est = c_div (rs_dbr_est_bitrate st) 100 * 100;
          Some (if est < 50 then 50 else est, st\<lparr>rs_dbr_data_size := 0, rs_dbr_frames := q\<rparr>)
        } else Some (0, st));
     if est_bitrate = 0 \<and> prev_bitrate = 0 then Some (False, st)
     else let new_bitrate = (if est_bitrate \<noteq> 0 then est_bitrate else prev_bitrate) in
       if new_bitrate = rs_dbr_cur_bitrate st then Some (False, st)
       else Some (True, st\<lparr>rs_dbr_prev_bitrate := 0, rs_dbr_cur_bitrate := new_bitrate,
         rs_dbr_inc_timeout := re_now E 2 + DBR_INC_TIMER\<rparr>)
   }"

text \<open>The columns from \<open>column\<close> on; the last one that does not exceed the bitrate before one that does.\<close>

fun dbr_columns :: "int \<Rightarrow> int list list \<Rightarrow> nat \<Rightarrow> nat \<Rightarrow> nat" where
  "dbr_columns cur [] column base = base"
| "dbr_columns cur (point # points) column base =
     (if sum_list point > cur then base else dbr_columns cur points (column + 1) column)"

definition dbr_base_column :: "rtmp_stream \<Rightarrow> nat" where
  "dbr_base_column st = dbr_columns (rs_dbr_cur_bitrate st) (rs_dbr_table st) 0 (length (rs_dbr_table st) - 1)"

definition dbr_set_bitrate :: "rtmp_env \<Rightarrow> rtmp_stream \<Rightarrow> rtmp_stream" where
  "dbr_set_bitrate E st =
     (if rs_dbr_table st = [] then st
      else
        let base = dbr_base_column st;
            upper = (if base + 1 \<ge> length (rs_dbr_table st) then length (rs_dbr_table st) - 1 else base + 1);
            base_point = rs_dbr_table st ! base;
            upper_point = rs_dbr_table st ! upper;
            deltas = map2 (\<lambda>u b. u - b) upper_point base_point;
            remaining = rs_dbr_cur_bitrate st - sum_list base_point;
            overall = (if sum_list deltas < 1 then 1 else sum_list deltas)
        in st\<lparr>rs_enc_bitrate := map2 (\<lambda>enc (b, d). map_option (\<lambda>_. b + re_scale E d remaining overall) enc)
             (rs_enc_bitrate st) (zip base_point deltas)\<rparr>)"

definition dbr_inc_bitrate :: "rtmp_env \<Rightarrow> rtmp_stream \<Rightarrow> rtmp_stream" where
  "dbr_inc_bitrate E st =
     (let st = st\<lparr>rs_dbr_prev_bitrate := rs_dbr_cur_bitrate st,
                  rs_dbr_cur_bitrate := rs_dbr_cur_bitrate st + rs_dbr_inc_bitrate st\<rparr>
      in if rs_dbr_cur_bitrate st \<ge> rs_dbr_orig_bitrate st
         then st\<lparr>rs_dbr_cur_bitrate := rs_dbr_orig_bitrate st\<rparr>
         else st\<lparr>rs_dbr_inc_timeout := re_now E 1 + DBR_INC_TIMER\<rparr>)"

section \<open>Packets from the interleaver\<close>

text \<open>The timer at the beginning of \<open>check_to_drop_frames\<close>.\<close>

definition dbr_check_timer :: "rtmp_env \<Rightarrow> bool \<Rightarrow> rtmp_stream \<Rightarrow> rtmp_stream" where
  "dbr_check_timer E pframes st =
     (if \<not> pframes \<and> rs_dbr_enabled st \<and> rs_dbr_inc_timeout st \<noteq> 0 \<and> re_now E 0 \<ge> rs_dbr_inc_timeout st
      then dbr_set_bitrate E (dbr_inc_bitrate E (st\<lparr>rs_dbr_inc_timeout := 0\<rparr>)) else st)"

definition check_to_drop_frames :: "rtmp_env \<Rightarrow> bool \<Rightarrow> rtmp_stream \<Rightarrow> rtmp_stream option" where
  "check_to_drop_frames E pframes st =
     (let num_packets = num_buffered_packets st;
          priority = (if pframes then OBS_NAL_PRIORITY_HIGHEST else OBS_NAL_PRIORITY_HIGH);
          drop_threshold = (if pframes then rs_pframe_drop_threshold_usec st else rs_drop_threshold_usec st);
          st = dbr_check_timer E pframes st
      in if num_packets < 5 then Some st
         else do {
           first \<leftarrow> find_first_video_packet st;
           (case first of None \<Rightarrow> Some st
            | Some first \<Rightarrow>
               let buffer_duration_usec = rs_last_dts_usec st - pk_dts_usec first in
               if rs_dbr_enabled st then
                 (if pframes then Some st
                  else do {
                    (changed, st) \<leftarrow> (if buffer_duration_usec mod 2 ^ 64 \<ge> DBR_TRIGGER_USEC
                                       then dbr_bitrate_lowered E st else Some (False, st));
                    Some (if changed then dbr_set_bitrate E st else st)
                  })
               else if buffer_duration_usec > drop_threshold then drop_frames priority st
               else Some st)
         })"

definition add_video_packet :: "rtmp_env \<Rightarrow> encoder_packet \<Rightarrow> rtmp_stream \<Rightarrow> (bool \<times> rtmp_stream) option" where
  "add_video_packet E packet st = do {
     st \<leftarrow> check_to_drop_frames E False st;
     st \<leftarrow> check_to_drop_frames E True st;
     if pk_drop_priority packet < rs_min_priority st
     then Some (False, st\<lparr>rs_dropped_frames := rs_dropped_frames st + 1\<rparr>)
     else add_packet packet (st\<lparr>rs_min_priority := 0, rs_last_dts_usec := pk_dts_usec packet\<rparr>)
   }"

definition note_first_packet :: "encoder_packet \<Rightarrow> rtmp_stream \<Rightarrow> rtmp_stream option" where
  "note_first_packet packet st =
     (if \<not> rs_got_first_packet st
      then map_option (\<lambda>ms. st\<lparr>rs_start_dts_offset := ms, rs_got_first_packet := True\<rparr>) (get_ms_time packet (pk_dts packet))
      else Some st)"

definition enqueue :: "rtmp_env \<Rightarrow> encoder_packet \<Rightarrow> rtmp_stream \<Rightarrow> rtmp_stream option" where
  "enqueue E new_packet st = do {
     (added, st) \<leftarrow> (case pk_type new_packet of
         OBS_ENCODER_VIDEO \<Rightarrow> add_video_packet E new_packet st
       | OBS_ENCODER_AUDIO \<Rightarrow> add_packet new_packet st);
     Some (if added then st\<lparr>rs_sem := rs_sem st + 1\<rparr> else st)
   }"

definition rtmp_stream_data :: "rtmp_env \<Rightarrow> encoder_packet option \<Rightarrow> rtmp_stream \<Rightarrow> rtmp_stream option" where
  "rtmp_stream_data E packet st =
     (if rs_disconnected st \<or> \<not> rs_active st then Some st
      else case packet of
        None \<Rightarrow> Some (st\<lparr>rs_encode_error := True, rs_sem := rs_sem st + 1\<rparr>)
      | Some packet \<Rightarrow> do {
          st \<leftarrow> note_first_packet packet st;
          (case pk_type packet of
             OBS_ENCODER_VIDEO \<Rightarrow> do {
               codec \<leftarrow> nth_opt (rs_video_codec st) (pk_track_idx packet);
               (case codec of
                  CODEC_NONE \<Rightarrow> Some st
                | CODEC_H264 \<Rightarrow> Option.bind (obs_parse_avc_packet (re_al E) packet) (\<lambda>p. enqueue E p st)
                | CODEC_HEVC \<Rightarrow> Option.bind (obs_parse_hevc_packet (re_al E) packet) (\<lambda>p. enqueue E p st)
                | CODEC_AV1 \<Rightarrow> Option.bind (obs_parse_av1_packet packet) (\<lambda>p. enqueue E p st))
             }
           | OBS_ENCODER_AUDIO \<Rightarrow> enqueue E packet st)
        })"

section \<open>Connecting\<close>

text \<open>What \<open>rtmp_stream_create\<close> allocates, all zero.\<close>

definition rtmp_stream_create :: rtmp_stream where
  "rtmp_stream_create =
     \<lparr>rs_packets = deque_init, rs_sent_headers = False, rs_got_first_packet = False, rs_start_dts_offset = 0,
      rs_active = False, rs_disconnected = False, rs_encode_error = False, rs_sem = 0, rs_stopped = False, rs_stop_ts = 0,
      rs_shutdown_timeout_ts = 0, rs_max_shutdown_time_sec = 0, rs_drop_threshold_usec = 0,
      rs_pframe_drop_threshold_usec = 0, rs_min_priority = 0, rs_last_dts_usec = 0, rs_total_bytes_sent = 0,
      rs_dropped_frames = 0, rs_dbr_frames = deque_init, rs_dbr_data_size = 0, rs_dbr_inc_timeout = 0,
      rs_audio_bitrate = 0, rs_dbr_est_bitrate = 0, rs_dbr_orig_bitrate = 0, rs_dbr_prev_bitrate = 0,
      rs_dbr_cur_bitrate = 0, rs_dbr_inc_bitrate = 0, rs_dbr_enabled = False, rs_dbr_table = [], rs_enc_bitrate = [],
      rs_audio_codec = replicate MAX_OUTPUT_AUDIO_ENCODERS AUDIO_CODEC_NONE,
      rs_video_codec = replicate MAX_OUTPUT_VIDEO_ENCODERS CODEC_NONE, rs_written = []\<rparr>"

text \<open>The settings of the output; the interpolation table as the JSON library reads it, if there is one: the arrays of
  the array, an entry that is not an integer as \<^term>\<open>None\<close>.\<close>

record rtmp_settings =
  se_service :: bool
  se_drop_b :: int
  se_drop_p :: int
  se_max_shutdown_time_sec :: int
  se_dyn_bitrate :: bool
  se_delay :: nat
  se_table :: "int option list list option option"

record rtmp_audio_encoder =
  ae_codec :: string
  ae_bitrate :: int

record rtmp_video_encoder =
  ve_codec :: string
  ve_bitrate :: int
  ve_dyn_bitrate_cap :: bool
  ve_multitrack_cap :: bool

text \<open>The first loop of \<open>build_dbr_interpolation_table\<close> over the encoders: the common size, and whether the data is malformed.\<close>

fun table_check :: "int option list list \<Rightarrow> nat \<Rightarrow> rtmp_video_encoder option list \<Rightarrow> nat \<times> bool \<Rightarrow> nat \<times> bool" where
  "table_check json i [] st = st"
| "table_check json i (None # encs) st = table_check json (i + 1) encs st"
| "table_check json i (Some enc # encs) (all_size, malformed) =
     table_check json (i + 1) encs
       (case nth_opt json i of None \<Rightarrow> (all_size, True)
        | Some array \<Rightarrow>
            if all_size = 0 then (length array, malformed)
            else (all_size, malformed \<or> all_size \<noteq> length array))"

definition table_row :: "int option list list \<Rightarrow> nat \<Rightarrow> int list" where
  "table_row json i =
     map (\<lambda>j. case nth_opt json j of None \<Rightarrow> 0
        | Some array \<Rightarrow> (case nth_opt array i of Some (Some v) \<Rightarrow> v | _ \<Rightarrow> 0)) [0..<MAX_OUTPUT_VIDEO_ENCODERS]"

definition build_dbr_interpolation_table ::
    "int option list list option \<Rightarrow> rtmp_video_encoder option list \<Rightarrow> rtmp_stream \<Rightarrow> bool \<times> rtmp_stream" where
  "build_dbr_interpolation_table data encs st =
     (case data of None \<Rightarrow> (False, st)
      | Some json \<Rightarrow>
          (let (all_array_size, malformed_data) = table_check json 0 encs (0, False)
           in if malformed_data then (False, st)
              else (True, st\<lparr>rs_dbr_table := map (table_row json) [0..<all_array_size]\<rparr>)))"

definition init_connect ::
    "rtmp_settings \<Rightarrow> rtmp_audio_encoder option list \<Rightarrow> rtmp_video_encoder option list \<Rightarrow> rtmp_stream \<Rightarrow>
     (bool \<times> rtmp_stream) option" where
  "init_connect se aencs vencs st = do {
     st \<leftarrow> free_packets st;
     if \<not> se_service se then Some (False, st)
     else
       let st = st\<lparr>rs_disconnected := False, rs_encode_error := False, rs_total_bytes_sent := 0, rs_dropped_frames := 0,
                   rs_min_priority := 0, rs_got_first_packet := False,
                   rs_max_shutdown_time_sec := se_max_shutdown_time_sec se\<rparr>;
           audio = sum_list (map (\<lambda>e. case e of None \<Rightarrow> 0 | Some enc \<Rightarrow> ae_bitrate enc) aencs);
           st = st\<lparr>rs_audio_codec := map2 (\<lambda>e c. case e of None \<Rightarrow> c | Some enc \<Rightarrow> to_audio_type (ae_codec enc)) aencs (rs_audio_codec st)\<rparr>;
           is_multitrack = list_ex (\<lambda>e. e \<noteq> None) (drop 1 vencs);
           st = st\<lparr>rs_video_codec := map2 (\<lambda>e c. case e of None \<Rightarrow> c | Some enc \<Rightarrow> to_video_type (ve_codec enc)) vencs (rs_video_codec st)\<rparr>;
           dbr_capable = list_all (\<lambda>e. case e of None \<Rightarrow> True
             | Some enc \<Rightarrow> if is_multitrack then ve_multitrack_cap enc else ve_dyn_bitrate_cap enc) vencs;
           bitrates = map (\<lambda>e. case e of None \<Rightarrow> 0 | Some enc \<Rightarrow> ve_bitrate enc) vencs;
           st = st\<lparr>rs_dbr_table := rs_dbr_table st @ [replicate MAX_OUTPUT_VIDEO_ENCODERS 0, bitrates],
                   rs_enc_bitrate := map (map_option ve_bitrate) vencs,
                   rs_dbr_frames := deque_free (rs_dbr_frames st), rs_audio_bitrate := audio, rs_dbr_data_size := 0,
                   rs_dbr_orig_bitrate := sum_list bitrates, rs_dbr_cur_bitrate := sum_list bitrates,
                   rs_dbr_est_bitrate := 0, rs_dbr_inc_bitrate := c_div (sum_list bitrates) 10, rs_dbr_inc_timeout := 0,
                   rs_dbr_enabled := dbr_capable \<and> se_dyn_bitrate se \<and> se_delay se = 0\<rparr>;
           st = (case se_table se of None \<Rightarrow> st
             | Some data \<Rightarrow> (case build_dbr_interpolation_table data vencs st of
                 (ok, st) \<Rightarrow> if ok then st else st\<lparr>rs_dbr_enabled := False\<rparr>));
           drop_p = (if se_drop_p se < se_drop_b se + 200 then se_drop_b se + 200 else se_drop_p se)
       in Some (True, st\<lparr>rs_drop_threshold_usec := 1000 * se_drop_b se, rs_pframe_drop_threshold_usec := 1000 * drop_p\<rparr>)
   }"

end
