(* ===== verification/Flv_Tags.thy ===== *)
theory Flv_Tags
  imports Flv
begin

text \<open>
  Reading FLV: what a player that follows the FLV and Enhanced RTMP specifications makes of the bytes that
  the functions of \<open>flv-mux.c\<close> write, tag by tag.
\<close>

section \<open>A reader\<close>

text \<open>A tag: its type, its time (31 bits), its body.\<close>

definition read_tag :: "byte list \<Rightarrow> ((byte \<times> int \<times> byte list) \<times> byte list) option" where
  "read_tag bs =
     (let n = be_nat (take 3 (drop 1 bs)) in
      if length bs < 15 + n \<or> take 3 (drop 8 bs) \<noteq> [0, 0, 0] \<or> be_nat (take 4 (drop (11 + n) bs)) \<noteq> 11 + n then None
      else Some ((hd bs, int (be_nat (take 3 (drop 4 bs)) + 2 ^ 24 * unat (bs ! 7)), take n (drop 11 bs)),
        drop (15 + n) bs))"

definition read_si24 :: "byte list \<Rightarrow> int" where
  "read_si24 bs = (let n = int (be_nat bs) in if n < 2 ^ 23 then n else n - 2 ^ 24)"

datatype flv_body =
    Video_Body bool bool int "byte list"
  | Audio_Body bool "byte list"
  | Video_Body_Ex bool byte video_id_t nat int "byte list"
  | Audio_Body_Ex byte audio_id_t nat "byte list"

definition read_video_4cc :: "byte list \<Rightarrow> video_id_t option" where
  "read_video_4cc cc =
     (if cc = char_bytes ''avc1'' then Some CODEC_H264 else if cc = char_bytes ''hvc1'' then Some CODEC_HEVC
      else if cc = char_bytes ''av01'' then Some CODEC_AV1 else None)"

definition read_audio_4cc :: "byte list \<Rightarrow> audio_id_t option" where
  "read_audio_4cc cc = (if cc = char_bytes ''mp4a'' then Some AUDIO_CODEC_AAC else None)"

definition read_offset :: "video_id_t \<Rightarrow> byte \<Rightarrow> byte list \<Rightarrow> int \<times> byte list" where
  "read_offset codec type bs =
     (if codec \<noteq> CODEC_AV1 \<and> type = 1 then (read_si24 (take 3 bs), drop 3 bs) else (0, bs))"

definition read_video :: "byte list \<Rightarrow> flv_body option" where
  "read_video body =
     (let b = hd body in
      if b AND 0x80 = 0 then
        (if b = 0x17 \<or> b = 0x27
         then Some (Video_Body (b = 0x17) (body ! 1 = 0) (read_si24 (take 3 (drop 2 body))) (drop 5 body)) else None)
      else if b AND 0x0f = 6 then
        (if body ! 1 AND 0xf0 = 0 then do {
           codec \<leftarrow> read_video_4cc (take 4 (drop 2 body));
           let (ct, data) = read_offset codec (body ! 1) (drop 7 body);
           Some (Video_Body_Ex (b AND 0x70 = 0x10) (body ! 1) codec (unat (body ! 6)) ct data)
         } else None)
      else do {
        codec \<leftarrow> read_video_4cc (take 4 (drop 1 body));
        let (ct, data) = read_offset codec (b AND 0x0f) (drop 5 body);
        Some (Video_Body_Ex (b AND 0x70 = 0x10) (b AND 0x0f) codec 0 ct data)
      })"

definition read_audio :: "byte list \<Rightarrow> flv_body option" where
  "read_audio body =
     (let b = hd body in
      if b = 0xaf then Some (Audio_Body (body ! 1 = 0) (drop 2 body))
      else if b = 0x95 then
        (if body ! 1 AND 0xf0 = 0
         then map_option (\<lambda>codec. Audio_Body_Ex (body ! 1) codec (unat (body ! 6)) (drop 7 body))
           (read_audio_4cc (take 4 (drop 2 body)))
         else None)
      else if b AND 0xf0 = 0x90
      then map_option (\<lambda>codec. Audio_Body_Ex (b AND 0x0f) codec 0 (drop 5 body)) (read_audio_4cc (take 4 (drop 1 body)))
      else None)"

definition read_body :: "byte \<Rightarrow> byte list \<Rightarrow> flv_body option" where
  "read_body t body = (if t = 0x09 then read_video body else if t = 0x08 then read_audio body else None)"

function read_tags :: "byte list \<Rightarrow> (int \<times> flv_body) list option" where
  "read_tags bs =
     (if bs = [] then Some []
      else case read_tag bs of None \<Rightarrow> None
        | Some ((t, ms, body), rest) \<Rightarrow> do {
            b \<leftarrow> read_body t body;
            tags \<leftarrow> read_tags rest;
            Some ((ms, b) # tags)
          })"
  by pat_completeness auto
termination read_tags
  by (relation "measure length") (auto simp: read_tag_def Let_def split: if_splits)

declare read_tags.simps [simp del]

section \<open>Tags as bytes\<close>

definition flv_tag :: "byte \<Rightarrow> int \<Rightarrow> byte list \<Rightarrow> byte list" where
  "flv_tag t ms body =
     [t] @ be_bytes 3 (length body) @ be_bytes 3 (nat (ms mod 2 ^ 24)) @ [time_high ms] @ [0, 0, 0] @ body @
       be_bytes 4 (11 + length body)"

lemma time_high_uint: "uint (time_high ms) = ms div 2 ^ 24 mod 2 ^ 7"
proof -
  have "time_high ms = take_bit 7 (word_of_int (ms div 2 ^ 24))"
    unfolding time_high_def take_bit_eq_mask by (rule arg_cong [of _ _ "(AND) _"]) (simp add: mask_eq_exp_minus_1)
  then have "uint (time_high ms) = take_bit 7 (take_bit LENGTH(8) (ms div 2 ^ 24))"
    by (simp only: unsigned_take_bit_eq uint_word_of_int_eq)
  then show ?thesis by (simp add: take_bit_take_bit) (simp add: take_bit_eq_mod)
qed

lemma time_parts: "int (nat (ms mod 2 ^ 24) + 2 ^ 24 * unat (time_high ms)) = ms mod 2 ^ 31"
proof -
  have "ms mod (2 ^ 24 * 2 ^ 7) = 2 ^ 24 * (ms div 2 ^ 24 mod 2 ^ 7) + ms mod 2 ^ 24"
    by (rule zmod_zmult2_eq) simp
  then show ?thesis using time_high_uint [of ms] by simp
qed

lemma read_flv_tag:
  assumes "length body < 2 ^ 24 - 11"
  shows "read_tag (flv_tag t ms body @ rest) = Some ((t, ms mod 2 ^ 31, body), rest)"
proof -
  let ?bs = "flv_tag t ms body @ rest" and ?n = "length body"
  have n: "be_nat (be_bytes 3 ?n) = ?n" using assms by (intro be_nat_bytes) simp
  have p: "be_nat (be_bytes 4 (11 + ?n)) = 11 + ?n" using assms by (intro be_nat_bytes) simp
  have m: "be_nat (be_bytes 3 (nat (ms mod 2 ^ 24))) = nat (ms mod 2 ^ 24)"
    by (intro be_nat_bytes) (simp add: nat_less_iff)
  define pre where "pre = [t] @ be_bytes 3 ?n @ be_bytes 3 (nat (ms mod 2 ^ 24)) @ [time_high ms] @ [0, 0, 0] @ body"
  have bs: "?bs = pre @ be_bytes 4 (11 + ?n) @ rest" and pre: "length pre = 11 + ?n"
    by (simp_all add: flv_tag_def pre_def)
  have ends: "take 4 (drop (11 + ?n) ?bs) = be_bytes 4 (11 + ?n)" "drop (15 + ?n) ?bs = rest"
    unfolding bs using pre by simp_all
  have parts: "hd ?bs = t" "take 3 (drop 1 ?bs) = be_bytes 3 ?n" "take 3 (drop 4 ?bs) = be_bytes 3 (nat (ms mod 2 ^ 24))"
    "?bs ! 7 = time_high ms" "take 3 (drop 8 ?bs) = [0, 0, 0]" "take ?n (drop 11 ?bs) = body"
    "length ?bs = 15 + ?n + length rest"
    by (simp_all add: flv_tag_def nth_append)
  show ?thesis unfolding read_tag_def parts ends n p m Let_def time_parts by simp
qed

section \<open>What the writers write\<close>

lemma le_bytes_mod: "le_bytes k (n mod 256 ^ k) = le_bytes k n"
proof (induction k arbitrary: n)
  case (Suc k)
  have "n mod (256 * 256 ^ k) = 256 * (n div 256 mod 256 ^ k) + n mod 256" by (rule mod_mult2_eq)
  then have "n mod 256 ^ Suc k div 256 = n div 256 mod 256 ^ k" "n mod 256 ^ Suc k mod 256 = n mod 256" by simp_all
  moreover from this(2) have "(of_nat (n mod 256 ^ Suc k) :: byte) = of_nat n"
    by (intro word_unat_eq_iff [THEN iffD2]) (simp only: unat_byte)
  ultimately show ?case using Suc.IH [of "n div 256"] by simp
qed simp

lemma be_bytes_mod: "be_bytes k (n mod 256 ^ k) = be_bytes k n"
  by (simp add: be_bytes_def le_bytes_mod)

lemma int_bytes_24: "be_bytes 3 (unat (word_of_int ms :: u32)) = be_bytes 3 (nat (ms mod 2 ^ 24))"
proof -
  have "int (unat (word_of_int ms :: u32) mod 2 ^ 24) = ms mod 2 ^ 24"
    by (simp add: zmod_int uint_word_of_int mod_mod_cancel)
  then have "nat (ms mod 2 ^ 24) = unat (word_of_int ms :: u32) mod 256 ^ 3" by simp
  then show ?thesis by (simp only: be_bytes_mod)
qed

lemma masked_bytes_24: "be_bytes 3 (unat (word_of_int ms AND 0xFFFFFF :: u32)) = be_bytes 3 (nat (ms mod 2 ^ 24))"
proof -
  have "(word_of_int ms AND 0xFFFFFF :: u32) = take_bit 24 (word_of_int ms)"
    unfolding take_bit_eq_mask by (rule arg_cong [of _ _ "(AND) _"]) (simp add: mask_eq_exp_minus_1)
  then have "unat (word_of_int ms AND 0xFFFFFF :: u32) = unat (word_of_int ms :: u32) mod 256 ^ 3"
    by (simp only: unsigned_take_bit_eq) (simp add: take_bit_eq_mod)
  then show ?thesis by (simp only: be_bytes_mod int_bytes_24)
qed

named_theorems puts_rules \<open>what the writers put\<close>

lemmas [puts_rules] = puts_w8 puts_b16 puts_b24 puts_b32 puts_b64

lemma puts_wdata [puts_rules]: "puts (s_wdata data) data"
  unfolding puts_def s_wdata_def using ser_write_opt by fastforce

lemma puts_cong: "puts w xs \<Longrightarrow> xs = ys \<Longrightarrow> puts w ys"
  by simp

lemma puts_w4: "length cc = 4 \<Longrightarrow> puts (s_w4 cc) (char_bytes cc)"
  unfolding s_w4_def [abs_def]
  by (rule puts_cong, (rule puts_seq puts_w8)+) (auto simp: char_bytes_def numeral_eq_Suc length_Suc_conv)

definition video_4cc :: "video_id_t \<Rightarrow> byte list" where
  "video_4cc codec = char_bytes (case codec of CODEC_AV1 \<Rightarrow> ''av01'' | CODEC_HEVC \<Rightarrow> ''hvc1'' | _ \<Rightarrow> ''avc1'')"

lemma puts_w4cc: "codec \<noteq> CODEC_NONE \<Longrightarrow> puts (s_w4cc codec) (video_4cc codec)"
proof -
  have "s_w4cc CODEC_AV1 = s_w4 ''av01''" "s_w4cc CODEC_HEVC = s_w4 ''hvc1''" "s_w4cc CODEC_H264 = s_w4 ''avc1''"
    by (simp_all add: fun_eq_iff)
  then show "codec \<noteq> CODEC_NONE \<Longrightarrow> puts (s_w4cc codec) (video_4cc codec)"
    by (cases codec) (simp_all add: video_4cc_def puts_w4)
qed

lemma puts_wa4cc: "codec \<noteq> AUDIO_CODEC_NONE \<Longrightarrow> puts (s_wa4cc codec) (char_bytes ''mp4a'')"
proof -
  have "s_wa4cc AUDIO_CODEC_AAC = s_w4 ''mp4a''" by (simp add: fun_eq_iff)
  then show "codec \<noteq> AUDIO_CODEC_NONE \<Longrightarrow> puts (s_wa4cc codec) (char_bytes ''mp4a'')"
    by (cases codec) (simp_all add: puts_w4)
qed

lemma puts_wtimestamp [puts_rules]: "puts (s_wtimestamp ms) (be_bytes 3 (nat (ms mod 2 ^ 24)) @ [time_high ms])"
  unfolding s_wtimestamp_def [abs_def] by (rule puts_cong, (rule puts_seq puts_rules)+) (simp add: masked_bytes_24)

definition named :: "string \<Rightarrow> byte list" where
  "named str = be_bytes 2 (unat (of_nat (length str) :: u16)) @ char_bytes str"

lemma puts_wstring [puts_rules]: "puts (s_wstring str) (named str)"
  unfolding s_wstring_def [abs_def] named_def by (rule puts_seq puts_rules)+

lemma puts_wnumber [puts_rules]:
  "puts (s_wnumber name v) (named name @ [DATA_TYPE_NUMBER] @ be_bytes 8 (unat (double_bits v)))"
  unfolding s_wnumber_def [abs_def] s_wbd_def by (rule puts_seq puts_rules)+

lemma puts_wobject_end [puts_rules]: "puts s_wobject_end ([0] @ [0] @ [DATA_TYPE_OBJECT_END])"
  unfolding s_wobject_end_def [abs_def] by (rule puts_seq puts_rules)+

text \<open>A sequence of writers, one at a time.\<close>

lemma ser_then:
  assumes "ser_has s bs" "puts w xs" "\<And>t. ser_has t (bs @ xs) \<Longrightarrow> k t = Some r"
  shows "Option.bind (w s) k = Some r"
  using ser_has_puts [OF assms(2,1)] assms(3) by auto

lemma ser_bytes_has: "ser_has s bs \<Longrightarrow> ser_bytes s = Some bs"
  by (metis ser_bytes_def ser_has_bytes)

lemma tag_end:
  assumes "ser_has s bs" "11 \<le> length bs" "length bs < 2 ^ 32" "bs @ be_bytes 4 (length bs) = r"
  shows "Option.bind (write_previous_tag_size s) ser_bytes = Some r"
proof -
  have p: "array_output_get_pos s = int (length bs)"
    using ser_has_bytes [OF assms(1)] by (simp add: array_output_get_pos_def)
  have "unat (word_of_int (int (length bs)) - of_nat 0 :: u32) = length bs" using assms(3) by (simp add: unat_of_nat)
  then obtain t where t: "s_wb32 (word_of_int (int (length bs)) - of_nat 0) s = Some t" "ser_has t (bs @ be_bytes 4 (length bs))"
    using ser_has_puts [OF puts_b32 assms(1), of "word_of_int (int (length bs)) - of_nat 0"] by (metis (no_types))
  then show ?thesis using assms(2,4) p ser_bytes_has [OF t(2)]
    by (simp add: write_previous_tag_size_def write_previous_tag_size_without_header_def)
qed

lemma size_bytes: "m + n < 2 ^ 24 \<Longrightarrow> be_bytes 3 (unat (of_nat m + of_nat n :: u32)) = be_bytes 3 (m + n)"
proof -
  assume "m + n < 2 ^ 24"
  then have "unat (of_nat (m + n) :: u32) = m + n" by (subst unat_of_nat) simp
  then show ?thesis by (simp only: of_nat_add)
qed

section \<open>The tags of packets\<close>

text \<open>The time of a tag and its composition offset, when no signed number overflows.\<close>

definition tag_ms :: "encoder_packet \<Rightarrow> int \<Rightarrow> int option" where
  "tag_ms packet dts_offset = do { d \<leftarrow> get_ms_time packet (pk_dts packet); signed_fit 32 (d - dts_offset) }"

definition offset_ms :: "encoder_packet \<Rightarrow> int option" where
  "offset_ms packet = do {
     p \<leftarrow> get_ms_time packet (pk_pts packet);
     d \<leftarrow> get_ms_time packet (pk_dts packet);
     signed_fit 32 (p - d)
   }"

lemma tag_ms_Some: "tag_ms packet off = Some ms \<Longrightarrow>
    \<exists>d. get_ms_time packet (pk_dts packet) = Some d \<and> signed_fit 32 (d - off) = Some ms"
  by (auto simp: tag_ms_def bind_eq_Some_conv)

lemma offset_ms_Some: "offset_ms packet = Some ct \<Longrightarrow>
    \<exists>p d. get_ms_time packet (pk_pts packet) = Some p \<and> get_ms_time packet (pk_dts packet) = Some d \<and>
      signed_fit 32 (p - d) = Some ct"
  by (auto simp: offset_ms_def bind_eq_Some_conv)


lemma be_bytes_zero_24 [simp]: "be_bytes 3 0 = [0, 0, 0]"
  by (simp add: be_bytes_def le_bytes_zero numeral_3_eq_3)

lemma length_char_bytes [simp]: "length (char_bytes s) = length s"
  by (simp add: char_bytes_def)

lemma tag_start:
  assumes "m + n < 2 ^ 24"
    "\<And>s. ser_has s ([t] @ be_bytes 3 (m + n) @ be_bytes 3 (nat (ms mod 2 ^ 24)) @ [time_high ms] @ [0, 0, 0]) \<Longrightarrow> k s = Some r"
  shows "do {
      s \<leftarrow> s_w8 t array_output_serializer_init;
      s \<leftarrow> s_wb24 (of_nat m + of_nat n) s;
      s \<leftarrow> s_wb24 (word_of_int ms) s;
      s \<leftarrow> s_w8 (time_high ms) s;
      s \<leftarrow> s_wb24 0 s;
      k s
    } = Some r"
  apply (rule ser_then [OF ser_has_start], rule puts_rules, (erule ser_then, rule puts_rules)+)
  apply (rule assms(2))
  using assms(1) by (simp add: size_bytes int_bytes_24)

lemma tag_start_ex:
  assumes "m + n < 2 ^ 24"
    "\<And>s. ser_has s ([t] @ be_bytes 3 (m + n) @ be_bytes 3 (nat (ms mod 2 ^ 24)) @ [time_high ms] @ [0, 0, 0]) \<Longrightarrow> k s = Some r"
  shows "do {
      s \<leftarrow> s_w8 t array_output_serializer_init;
      s \<leftarrow> s_wb24 (of_nat m + of_nat n) s;
      s \<leftarrow> s_wtimestamp ms s;
      s \<leftarrow> s_wb24 0 s;
      k s
    } = Some r"
  apply (rule ser_then [OF ser_has_start], rule puts_rules, (erule ser_then, rule puts_rules)+)
  apply (rule assms(2))
  using assms(1) by (simp add: size_bytes)

lemma mux_video:
  assumes "pk_type packet = OBS_ENCODER_VIDEO" "pk_data packet \<noteq> []" "length (pk_data packet) < 2 ^ 24 - 18"
    "tag_ms packet off = Some ms" "offset_ms packet = Some ct"
  shows "flv_packet_mux packet off hdr = Some (flv_tag RTMP_PACKET_TYPE_VIDEO ms
    ([if pk_keyframe packet then 0x17 else 0x27, if hdr then 0 else 1] @ be_bytes 3 (nat (ct mod 2 ^ 24)) @ pk_data packet))"
proof -
  obtain p d where t: "get_ms_time packet (pk_pts packet) = Some p" "get_ms_time packet (pk_dts packet) = Some d"
    "signed_fit 32 (p - d) = Some ct" "signed_fit 32 (d - off) = Some ms"
    using tag_ms_Some [OF assms(4)] offset_ms_Some [OF assms(5)] by auto
  show ?thesis
    using assms(1-3)
    apply (simp only: flv_packet_mux_def flv_video_def t bind.bind_lunit obs_encoder_type.case if_False bind_assoc)
    apply (rule tag_start [where n = 5, unfolded of_nat_numeral], simp)
    apply ((erule ser_then, rule puts_rules)+, erule tag_end)
    by (simp_all add: int_bytes_24 flv_tag_def ac_simps)
qed

lemma mux_audio:
  assumes "pk_type packet = OBS_ENCODER_AUDIO" "pk_data packet \<noteq> []" "length (pk_data packet) < 2 ^ 24 - 18"
    "tag_ms packet off = Some ms"
  shows "flv_packet_mux packet off hdr =
    Some (flv_tag RTMP_PACKET_TYPE_AUDIO ms ([0xaf, if hdr then 0 else 1] @ pk_data packet))"
proof -
  obtain d where t: "get_ms_time packet (pk_dts packet) = Some d" "signed_fit 32 (d - off) = Some ms"
    using tag_ms_Some [OF assms(4)] by auto
  show ?thesis
    using assms(1-3)
    apply (simp only: flv_packet_mux_def flv_audio_def t bind.bind_lunit obs_encoder_type.case if_False bind_assoc)
    apply (rule tag_start [where n = 2, unfolded of_nat_numeral], simp)
    apply ((erule ser_then, rule puts_rules)+, erule tag_end)
    by (simp_all add: flv_tag_def ac_simps)
qed

lemma tag_end_set:
  assumes "ser_has s bs" "11 \<le> length bs" "length bs < 2 ^ 32" "bs @ be_bytes 4 (length bs) = r"
  shows "do { s \<leftarrow> write_previous_tag_size s; map_option Some (ser_bytes s) } = Some (Some r)"
  using tag_end [OF assms] by (auto simp: bind_eq_Some_conv)

definition audio_ex_head :: "byte \<Rightarrow> nat \<Rightarrow> byte list" where
  "audio_ex_head type idx =
     (if 0 < idx then [0x95, type] @ char_bytes ''mp4a'' @ [of_nat idx] else [0x90 OR type] @ char_bytes ''mp4a'')"

lemma mux_audio_ex:
  assumes "pk_type packet = OBS_ENCODER_AUDIO" "pk_data packet \<noteq> []" "length (pk_data packet) < 2 ^ 24 - 21"
    "tag_ms packet off = Some ms" "codec \<noteq> AUDIO_CODEC_NONE"
  shows "flv_packet_audio_ex packet codec off type idx =
    Some (Some (flv_tag RTMP_PACKET_TYPE_AUDIO ms (audio_ex_head type idx @ pk_data packet)))"
proof -
  obtain d where t: "get_ms_time packet (pk_dts packet) = Some d" "signed_fit 32 (d - off) = Some ms"
    using tag_ms_Some [OF assms(4)] by auto
  have seven: "5 + 2 = (7 :: u32)" by simp
  have sucs: "Suc (Suc (Suc (Suc (Suc (Suc (Suc n)))))) = n + 7" "Suc (Suc (Suc (Suc (Suc n)))) = n + 5" for n by simp_all
  note enums = AUDIO_HEADER_EX_def AUDIO_PACKETTYPE_MULTITRACK_def MULTITRACKTYPE_ONE_TRACK_def
  show ?thesis
  proof (cases "0 < idx")
    case True
    show ?thesis
      using assms(2,3)
      apply (simp only: flv_packet_audio_ex_def t bind.bind_lunit if_False if_True bind_assoc Let_def True simp_thms assms(1) seven)
      apply (rule tag_start [where n = 7, unfolded of_nat_numeral], simp)
      apply ((erule ser_then, rule puts_rules puts_wa4cc [OF assms(5)])+, erule tag_end_set)
      using True by (simp_all add: flv_tag_def ac_simps audio_ex_head_def enums sucs)
  next
    case False
    show ?thesis 
      using assms(2,3)
      apply (simp only: flv_packet_audio_ex_def t bind.bind_lunit if_False if_True bind_assoc Let_def False simp_thms assms(1))
      apply (rule tag_start [where n = 5, unfolded of_nat_numeral], simp)
      apply ((erule ser_then, rule puts_rules puts_wa4cc [OF assms(5)])+, erule tag_end_set)
      using False by (simp_all add: flv_tag_def ac_simps audio_ex_head_def enums sucs)
  qed
qed

definition video_ex_head :: "bool \<Rightarrow> video_id_t \<Rightarrow> byte \<Rightarrow> nat \<Rightarrow> byte list" where
  "video_ex_head key codec type idx =
     (let frame = (if key then 0x10 else 0x20) in
      if 0 < idx then [0x86 OR frame, type] @ video_4cc codec @ [of_nat idx]
      else [0x80 OR type OR frame] @ video_4cc codec)"

definition sends_offset :: "video_id_t \<Rightarrow> byte \<Rightarrow> bool" where
  "sends_offset codec type \<longleftrightarrow> codec \<noteq> CODEC_AV1 \<and> type = PACKETTYPE_FRAMES"

lemma length_video_4cc [simp]: "length (video_4cc codec) = 4"
  by (cases codec) (simp_all add: video_4cc_def)

lemma mux_video_ex:
  assumes "pk_type packet = OBS_ENCODER_VIDEO" "length (pk_data packet) < 2 ^ 24 - 21"
    "tag_ms packet off = Some ms" "codec \<noteq> CODEC_NONE" "sends_offset codec type \<Longrightarrow> offset_ms packet = Some ct"
  shows "flv_packet_ex packet codec off type idx = Some (flv_tag RTMP_PACKET_TYPE_VIDEO ms
    (video_ex_head (pk_keyframe packet) codec type idx @
     (if sends_offset codec type then be_bytes 3 (nat (ct mod 2 ^ 24)) else []) @ pk_data packet))"
proof -
  obtain d where t: "get_ms_time packet (pk_dts packet) = Some d" "signed_fit 32 (d - off) = Some ms"
    using tag_ms_Some [OF assms(3)] by auto
  have ten: "5 + 3 + 2 = (10 :: u32)" "5 + 0 + 2 = (7 :: u32)" "5 + 3 + 0 = (8 :: u32)" "5 + 0 + 0 = (5 :: u32)" by simp_all
  note enums = FRAME_HEADER_EX_def PACKETTYPE_MULTITRACK_def MULTITRACKTYPE_ONE_TRACK_def FT_KEY_def FT_INTER_def
  have s: "((codec = CODEC_H264 \<or> codec = CODEC_HEVC) \<and> type = PACKETTYPE_FRAMES) = sends_offset codec type"
    using assms(4) by (cases codec) (auto simp: sends_offset_def)
  note start = flv_packet_ex_def t bind.bind_lunit if_False if_True bind_assoc Let_def simp_thms assms(1) s ten
  note steps = puts_rules puts_w4cc [OF assms(4)]
  show ?thesis
  proof (cases "sends_offset codec type")
    case True
    obtain p where o: "get_ms_time packet (pk_pts packet) = Some p" "signed_fit 32 (p - d) = Some ct"
      using offset_ms_Some [OF assms(5) [OF True]] t(1) by auto
    show ?thesis
    proof (cases "0 < idx")
      case idx: True
      show ?thesis using assms(2)
        apply (simp only: start o True idx)
        apply (rule tag_start_ex [where n = 10, unfolded of_nat_numeral], simp)
        apply ((erule ser_then, rule steps)+, erule tag_end)
        using idx by (simp_all add: flv_tag_def ac_simps video_ex_head_def enums int_bytes_24)
    next
      case idx: False
      show ?thesis using assms(2)
        apply (simp only: start o True idx)
        apply (rule tag_start_ex [where n = 8, unfolded of_nat_numeral], simp)
        apply ((erule ser_then, rule steps)+, erule tag_end)
        using idx by (simp_all add: flv_tag_def ac_simps video_ex_head_def enums int_bytes_24)
    qed
  next
    case False
    show ?thesis
    proof (cases "0 < idx")
      case idx: True
      show ?thesis using assms(2)
        apply (simp only: start False idx)
        apply (rule tag_start_ex [where n = 7, unfolded of_nat_numeral], simp)
        apply ((erule ser_then, rule steps)+, erule tag_end)
        using idx by (simp_all add: flv_tag_def ac_simps video_ex_head_def enums)
    next
      case idx: False
      show ?thesis using assms(2)
        apply (simp only: start False idx)
        apply (rule tag_start_ex [where n = 5, unfolded of_nat_numeral], simp)
        apply ((erule ser_then, rule steps)+, erule tag_end)
        using idx by (simp_all add: flv_tag_def ac_simps video_ex_head_def enums)
    qed
  qed
qed

section \<open>Streams of tags\<close>

datatype flv_request =
    Mux encoder_packet int bool
  | Video_Start encoder_packet video_id_t nat
  | Video_Frames encoder_packet video_id_t int nat
  | Video_End encoder_packet video_id_t nat
  | Audio_Start encoder_packet audio_id_t nat
  | Audio_Frames encoder_packet audio_id_t int nat

fun mux_request :: "flv_request \<Rightarrow> byte list option" where
  "mux_request (Mux packet off hdr) = flv_packet_mux packet off hdr"
| "mux_request (Video_Start packet codec idx) = flv_packet_start packet codec idx"
| "mux_request (Video_Frames packet codec off idx) = flv_packet_frames packet codec off idx"
| "mux_request (Video_End packet codec idx) = flv_packet_end packet codec idx"
| "mux_request (Audio_Start packet codec idx) = Option.bind (flv_packet_audio_start packet codec idx) id"
| "mux_request (Audio_Frames packet codec off idx) = Option.bind (flv_packet_audio_frames packet codec off idx) id"

text \<open>What the player is meant to get.\<close>

definition player_ms :: "encoder_packet \<Rightarrow> int \<Rightarrow> int" where
  "player_ms packet off = the (tag_ms packet off) mod 2 ^ 31"

fun request_tag :: "flv_request \<Rightarrow> int \<times> flv_body" where
  "request_tag (Mux packet off hdr) = (player_ms packet off,
     case pk_type packet of
       OBS_ENCODER_VIDEO \<Rightarrow> Video_Body (pk_keyframe packet) hdr (the (offset_ms packet)) (pk_data packet)
     | OBS_ENCODER_AUDIO \<Rightarrow> Audio_Body hdr (pk_data packet))"
| "request_tag (Video_Start packet codec idx) =
     (player_ms packet 0, Video_Body_Ex (pk_keyframe packet) 0 codec idx 0 (pk_data packet))"
| "request_tag (Video_Frames packet codec off idx) = (player_ms packet off,
     if codec = CODEC_AV1 then Video_Body_Ex (pk_keyframe packet) 1 codec idx 0 (pk_data packet)
     else Video_Body_Ex (pk_keyframe packet) (if pk_dts packet = pk_pts packet then 3 else 1) codec idx
       (the (offset_ms packet)) (pk_data packet))"
| "request_tag (Video_End packet codec idx) =
     (player_ms packet 0, Video_Body_Ex (pk_keyframe packet) 2 codec idx 0 (pk_data packet))"
| "request_tag (Audio_Start packet codec idx) = (player_ms packet 0, Audio_Body_Ex 0 codec idx (pk_data packet))"
| "request_tag (Audio_Frames packet codec off idx) = (player_ms packet off, Audio_Body_Ex 1 codec idx (pk_data packet))"

text \<open>No overflow, a size and a composition offset that fit in 24 bits, a track number in a byte, a known codec; data,
  where the functions do not write a tag without.\<close>

definition fits :: "obs_encoder_type \<Rightarrow> encoder_packet \<Rightarrow> int \<Rightarrow> bool" where
  "fits t packet off \<longleftrightarrow> pk_type packet = t \<and> length (pk_data packet) < 2 ^ 24 - 21 \<and> tag_ms packet off \<noteq> None"

definition offset_fits :: "encoder_packet \<Rightarrow> bool" where
  "offset_fits packet \<longleftrightarrow> (case offset_ms packet of None \<Rightarrow> False | Some ct \<Rightarrow> - (2 ^ 23) \<le> ct \<and> ct < 2 ^ 23)"

fun request_ok :: "flv_request \<Rightarrow> bool" where
  "request_ok (Mux packet off hdr) \<longleftrightarrow> fits (pk_type packet) packet off \<and> pk_data packet \<noteq> [] \<and>
     (pk_type packet = OBS_ENCODER_AUDIO \<or> offset_fits packet)"
| "request_ok (Video_Start packet codec idx) \<longleftrightarrow> fits OBS_ENCODER_VIDEO packet 0 \<and> codec \<noteq> CODEC_NONE \<and> idx < 256"
| "request_ok (Video_Frames packet codec off idx) \<longleftrightarrow> fits OBS_ENCODER_VIDEO packet off \<and> codec \<noteq> CODEC_NONE \<and> idx < 256 \<and>
     (codec = CODEC_AV1 \<or> offset_fits packet)"
| "request_ok (Video_End packet codec idx) \<longleftrightarrow> fits OBS_ENCODER_VIDEO packet 0 \<and> codec \<noteq> CODEC_NONE \<and> idx < 256"
| "request_ok (Audio_Start packet codec idx) \<longleftrightarrow> fits OBS_ENCODER_AUDIO packet 0 \<and> pk_data packet \<noteq> [] \<and>
     codec \<noteq> AUDIO_CODEC_NONE \<and> idx < 256"
| "request_ok (Audio_Frames packet codec off idx) \<longleftrightarrow> fits OBS_ENCODER_AUDIO packet off \<and> pk_data packet \<noteq> [] \<and>
     codec \<noteq> AUDIO_CODEC_NONE \<and> idx < 256"

lemma read_si24_bytes: "- (2 ^ 23) \<le> ct \<Longrightarrow> ct < 2 ^ 23 \<Longrightarrow> read_si24 (be_bytes 3 (nat (ct mod 2 ^ 24))) = ct"
proof -
  assume ct: "- (2 ^ 23) \<le> ct" "ct < 2 ^ 23"
  have "be_nat (be_bytes 3 (nat (ct mod 2 ^ 24))) = nat (ct mod 2 ^ 24)" by (intro be_nat_bytes) (simp add: nat_less_iff)
  then have n: "int (be_nat (be_bytes 3 (nat (ct mod 2 ^ 24)))) = ct mod 2 ^ 24" by simp
  show ?thesis
  proof (cases "0 \<le> ct")
    case True
    then have "ct mod 2 ^ 24 = ct" using ct by (intro mod_pos_pos_trivial) simp_all
    then show ?thesis using n ct by (simp add: read_si24_def)
  next
    case False
    then have "ct mod 2 ^ 24 = ct + 2 ^ 24" using ct by (intro int_mod_pos_eq [symmetric, of _ _ "-1", THEN sym]) simp_all
    then show ?thesis using n ct False by (simp add: read_si24_def)
  qed
qed

lemma read_video_legacy:
  "- (2 ^ 23) \<le> ct \<Longrightarrow> ct < 2 ^ 23 \<Longrightarrow>
    read_video ([if key then 0x17 else 0x27, if hdr then 0 else 1] @ be_bytes 3 (nat (ct mod 2 ^ 24)) @ data) =
      Some (Video_Body key hdr ct data)"
  using read_si24_bytes [of ct] by (simp add: read_video_def)

lemma read_audio_ex: "codec \<noteq> AUDIO_CODEC_NONE \<Longrightarrow> idx < 256 \<Longrightarrow> type \<in> {0, 1} \<Longrightarrow>
    read_audio (audio_ex_head type idx @ data) = Some (Audio_Body_Ex type codec idx data)"
  by (cases codec) (auto simp: read_audio_def audio_ex_head_def read_audio_4cc_def char_bytes_def unat_of_nat)

lemma read_4cc [simp]: "codec \<noteq> CODEC_NONE \<Longrightarrow> read_video_4cc (video_4cc codec) = Some codec"
  by (cases codec) (simp_all add: read_video_4cc_def video_4cc_def char_bytes_def)

lemma read_video_ex:
  assumes "codec \<noteq> CODEC_NONE" "idx < 256" "type \<in> {0, 1, 2, 3}"
    "sends_offset codec type \<Longrightarrow> - (2 ^ 23) \<le> ct \<and> ct < 2 ^ 23"
  shows "read_video (video_ex_head key codec type idx @
    (if sends_offset codec type then be_bytes 3 (nat (ct mod 2 ^ 24)) else []) @ data) =
      Some (Video_Body_Ex key type codec idx (if sends_offset codec type then ct else 0) data)"
proof -
  have "read_offset codec type ((if sends_offset codec type then be_bytes 3 (nat (ct mod 2 ^ 24)) else []) @ data) =
      (if sends_offset codec type then ct else 0, data)"
    using assms(4) read_si24_bytes [of ct] by (auto simp: read_offset_def sends_offset_def PACKETTYPE_FRAMES_def)
  then show ?thesis using assms(1-3)
    by (cases "0 < idx"; cases key) (auto simp: read_video_def video_ex_head_def unat_of_nat nth_append)
qed

lemma read_tags_tag:
  "length body < 2 ^ 24 - 11 \<Longrightarrow> read_body t body = Some b \<Longrightarrow>
    read_tags (flv_tag t ms body @ rest) = map_option (Cons (ms mod 2 ^ 31, b)) (read_tags rest)"
proof -
  assume a: "length body < 2 ^ 24 - 11" "read_body t body = Some b"
  have "flv_tag t ms body @ rest \<noteq> []" by (simp add: flv_tag_def)
  then show ?thesis
    using read_flv_tag [OF a(1), of t ms rest] a(2)
    by (subst read_tags.simps) (cases "read_tags rest", auto)
qed

definition reads_as :: "byte list option \<Rightarrow> int \<times> flv_body \<Rightarrow> bool" where
  "reads_as bs tag \<longleftrightarrow> (\<exists>t ms body. bs = Some (flv_tag t ms body) \<and> length body < 2 ^ 24 - 11 \<and>
     read_body t body = Some (snd tag) \<and> fst tag = ms mod 2 ^ 31)"

lemma reads_asI:
  "w = Some (flv_tag t ms body) \<Longrightarrow> length body < 2 ^ 24 - 11 \<Longrightarrow> read_body t body = Some b \<Longrightarrow> m = ms mod 2 ^ 31 \<Longrightarrow>
    reads_as w (m, b)"
  by (auto simp: reads_as_def)

lemma read_body_video [simp]: "read_body RTMP_PACKET_TYPE_VIDEO = read_video"
  by (simp add: read_body_def RTMP_PACKET_TYPE_VIDEO_def fun_eq_iff)

lemma read_body_audio [simp]: "read_body RTMP_PACKET_TYPE_AUDIO = read_audio"
  by (simp add: read_body_def RTMP_PACKET_TYPE_AUDIO_def fun_eq_iff)

lemma video_reads:
  assumes "fits OBS_ENCODER_VIDEO packet off" "codec \<noteq> CODEC_NONE" "idx < 256" "type \<in> {0, 1, 2, 3}"
    "sends_offset codec type \<Longrightarrow> offset_fits packet"
  shows "reads_as (flv_packet_ex packet codec off type idx) (player_ms packet off,
    Video_Body_Ex (pk_keyframe packet) type codec idx (if sends_offset codec type then the (offset_ms packet) else 0)
      (pk_data packet))"
proof -
  let ?ct = "the (offset_ms packet)"
  obtain ms where f: "pk_type packet = OBS_ENCODER_VIDEO" "length (pk_data packet) < 2 ^ 24 - 21" "tag_ms packet off = Some ms"
    using assms(1) by (auto simp: fits_def)
  have o: "offset_ms packet = Some ?ct \<and> - (2 ^ 23) \<le> ?ct \<and> ?ct < 2 ^ 23" if "sends_offset codec type"
    using assms(5) [OF that] by (auto simp: offset_fits_def split: option.splits)
  have w: "flv_packet_ex packet codec off type idx = Some (flv_tag RTMP_PACKET_TYPE_VIDEO ms
    (video_ex_head (pk_keyframe packet) codec type idx @
     (if sends_offset codec type then be_bytes 3 (nat (?ct mod 2 ^ 24)) else []) @ pk_data packet))"
    by (rule mux_video_ex [OF f assms(2)]) (use o in simp)
  have "length (video_ex_head (pk_keyframe packet) codec type idx) \<le> 7" by (simp add: video_ex_head_def Let_def)
  then show ?thesis
    by (intro reads_asI [OF w]) (use f(2,3) o read_video_ex [OF assms(2-4)] in \<open>auto simp: player_ms_def\<close>)
qed

lemma audio_reads:
  assumes "fits OBS_ENCODER_AUDIO packet off" "codec \<noteq> AUDIO_CODEC_NONE" "idx < 256" "type \<in> {0, 1}" "pk_data packet \<noteq> []"
  shows "reads_as (Option.bind (flv_packet_audio_ex packet codec off type idx) id)
    (player_ms packet off, Audio_Body_Ex type codec idx (pk_data packet))"
proof -
  obtain ms where f: "pk_type packet = OBS_ENCODER_AUDIO" "length (pk_data packet) < 2 ^ 24 - 21" "tag_ms packet off = Some ms"
    using assms(1) by (auto simp: fits_def)
  have w: "flv_packet_audio_ex packet codec off type idx =
      Some (Some (flv_tag RTMP_PACKET_TYPE_AUDIO ms (audio_ex_head type idx @ pk_data packet)))"
    by (rule mux_audio_ex [OF f(1) assms(5) f(2,3) assms(2)])
  have "length (audio_ex_head type idx) \<le> 7" by (simp add: audio_ex_head_def)
  then show ?thesis unfolding w bind.bind_lunit id_apply
    by (intro reads_asI [OF refl]) (use f(2,3) read_audio_ex [OF assms(2-4)] in \<open>auto simp: player_ms_def\<close>)
qed

lemma legacy_reads:
  assumes "request_ok (Mux packet off hdr)"
  shows "reads_as (flv_packet_mux packet off hdr) (request_tag (Mux packet off hdr))"
proof -
  obtain ms where f: "length (pk_data packet) < 2 ^ 24 - 21" "tag_ms packet off = Some ms" "pk_data packet \<noteq> []"
    using assms by (auto simp: fits_def)
  show ?thesis
  proof (cases "pk_type packet")
    case OBS_ENCODER_AUDIO
    have w: "flv_packet_mux packet off hdr =
        Some (flv_tag RTMP_PACKET_TYPE_AUDIO ms ([0xaf, if hdr then 0 else 1] @ pk_data packet))"
      by (rule mux_audio [OF OBS_ENCODER_AUDIO f(3) _ f(2)]) (use f(1) in simp)
    show ?thesis unfolding request_tag.simps OBS_ENCODER_AUDIO obs_encoder_type.case
      by (rule reads_asI [OF w]) (use f(1,2) in \<open>auto simp: read_audio_def player_ms_def\<close>)
  next
    case OBS_ENCODER_VIDEO
    obtain ct where o: "offset_ms packet = Some ct" "- (2 ^ 23) \<le> ct" "ct < 2 ^ 23"
      using assms OBS_ENCODER_VIDEO by (auto simp: offset_fits_def split: option.splits)
    have w: "flv_packet_mux packet off hdr = Some (flv_tag RTMP_PACKET_TYPE_VIDEO ms
      ([if pk_keyframe packet then 0x17 else 0x27, if hdr then 0 else 1] @ be_bytes 3 (nat (ct mod 2 ^ 24)) @ pk_data packet))"
      by (rule mux_video [OF OBS_ENCODER_VIDEO f(3) _ f(2) o(1)]) (use f(1) in simp)
    show ?thesis unfolding request_tag.simps OBS_ENCODER_VIDEO obs_encoder_type.case
      by (rule reads_asI [OF w]) (use f(1,2) o(1) read_video_legacy [OF o(2,3)] in \<open>auto simp: player_ms_def\<close>)
  qed
qed

lemma no_offset: "pk_dts packet = pk_pts packet \<Longrightarrow> offset_fits packet \<Longrightarrow> the (offset_ms packet) = 0"
  by (auto simp: offset_fits_def offset_ms_def signed_fit_def bind_eq_Some_conv split: option.splits if_splits)

lemma request_reads: "request_ok r \<Longrightarrow> reads_as (mux_request r) (request_tag r)"
proof (induction r rule: request_ok.induct)
  case (1 packet off hdr)
  then show ?case using legacy_reads by simp
next
  case (2 packet codec idx)
  then show ?case using video_reads [of packet 0 codec idx 0]
    by (simp add: flv_packet_start_def PACKETTYPE_SEQ_START_def sends_offset_def PACKETTYPE_FRAMES_def)
next
  case (3 packet codec off idx)
  then show ?case
    using video_reads [of packet off codec idx 1] video_reads [of packet off codec idx 3] no_offset [of packet]
    by (cases codec) (auto simp: flv_packet_frames_def PACKETTYPE_FRAMES_def PACKETTYPE_FRAMESX_def sends_offset_def)
next
  case (4 packet codec idx)
  then show ?case using video_reads [of packet 0 codec idx 2]
    by (simp add: flv_packet_end_def PACKETTYPE_SEQ_END_def sends_offset_def PACKETTYPE_FRAMES_def)
next
  case (5 packet codec idx)
  then show ?case using audio_reads [of packet 0 codec idx 0]
    by (simp add: flv_packet_audio_start_def AUDIO_PACKETTYPE_SEQ_START_def)
next
  case (6 packet codec off idx)
  then show ?case using audio_reads [of packet off codec idx 1]
    by (simp add: flv_packet_audio_frames_def AUDIO_PACKETTYPE_FRAMES_def)
qed

text \<open>C10: whatever packets, headers and footers of whatever tracks are muxed one after the other, a player reads
  from the bytes exactly their tags: kind, codec, track, key flag, composition offset, data, and the time in
  milliseconds modulo the 31 bits that are sent.\<close>

theorem flv_stream_roundtrip:
  assumes "\<forall>r \<in> set rs. request_ok r"
  shows "\<exists>bs. those (map mux_request rs) = Some bs \<and> read_tags (concat bs) = Some (map request_tag rs)"
  using assms
proof (induction rs)
  case Nil
  show ?case by (simp add: read_tags.simps)
next
  case (Cons r rs)
  from Cons obtain bs where bs: "those (map mux_request rs) = Some bs" "read_tags (concat bs) = Some (map request_tag rs)"
    by auto
  obtain t ms body where r: "mux_request r = Some (flv_tag t ms body)" "length body < 2 ^ 24 - 11"
    "read_body t body = Some (snd (request_tag r))" "fst (request_tag r) = ms mod 2 ^ 31"
    using request_reads [of r] Cons.prems by (auto simp: reads_as_def)
  have "read_tags (flv_tag t ms body @ concat bs) = Some (map request_tag (r # rs))"
    using read_tags_tag [OF r(2,3)] bs(2) r(4) by (simp add: prod_eq_iff)
  then show ?case using bs(1) r(1) by (intro exI [of _ "flv_tag t ms body # bs"]) simp
qed

definition sample_flv :: "obs_encoder_type \<Rightarrow> int \<Rightarrow> int \<Rightarrow> encoder_packet" where
  "sample_flv t pts dts = \<lparr>pk_data = [1, 2, 3], pk_pts = pts, pk_dts = dts, pk_timebase_num = 1, pk_timebase_den = 30,
     pk_type = t, pk_keyframe = False, pk_dts_usec = 0, pk_sys_dts_usec = 0, pk_priority = 0, pk_drop_priority = 0,
     pk_track_idx = 0, pk_encoder = 0\<rparr>"

theorem flv_stream_roundtrip_witness:
  "\<exists>bs. those (map mux_request [Mux (sample_flv OBS_ENCODER_VIDEO 0 3) 0 False,
      Video_Frames (sample_flv OBS_ENCODER_VIDEO 6 3) CODEC_HEVC 0 2,
      Audio_Frames (sample_flv OBS_ENCODER_AUDIO 3 3) AUDIO_CODEC_AAC 200 1]) = Some bs \<and>
    read_tags (concat bs) = Some [(100, Video_Body False False (-100) [1, 2, 3]),
      (100, Video_Body_Ex False 1 CODEC_HEVC 2 100 [1, 2, 3]), (2 ^ 31 - 100, Audio_Body_Ex 1 AUDIO_CODEC_AAC 1 [1, 2, 3])]"
proof -
  note ms = tag_ms_def offset_ms_def get_ms_time_def signed_fit_def to_i32_def c_div_def sample_flv_def
  have "\<forall>r \<in> set [Mux (sample_flv OBS_ENCODER_VIDEO 0 3) 0 False, Video_Frames (sample_flv OBS_ENCODER_VIDEO 6 3) CODEC_HEVC 0 2,
      Audio_Frames (sample_flv OBS_ENCODER_AUDIO 3 3) AUDIO_CODEC_AAC 200 1]. request_ok r"
    by (simp add: fits_def offset_fits_def ms)
  from flv_stream_roundtrip [OF this] show ?thesis by (simp add: player_ms_def ms)
qed

section \<open>Numbers\<close>

lemma ilog2_bounds: "0 < a \<Longrightarrow> 2 ^ ilog2 a \<le> a \<and> a < 2 ^ Suc (ilog2 a)"
proof (induction a rule: ilog2.induct)
  case (1 a)
  show ?case
  proof (cases "a < 2")
    case True
    then show ?thesis using 1(2) by (simp add: ilog2.simps)
  next
    case False
    then have "2 ^ ilog2 (a div 2) \<le> a div 2 \<and> a div 2 < 2 * 2 ^ ilog2 (a div 2)" using 1(1) by simp
    then show ?thesis using False by (subst (1 2) ilog2.simps) auto
  qed
qed

definition double_int :: "nat \<Rightarrow> int" where
  "double_int n =
     (if n = 0 then 0
      else (if n div 2 ^ 63 = 0 then 1 else -1) * int ((2 ^ 52 + n mod 2 ^ 52) div 2 ^ (1075 - n div 2 ^ 52 mod 2 ^ 11)))"

lemma double_int_bits:
  assumes "\<bar>v\<bar> < 2 ^ 53"
  shows "double_int (unat (double_bits v)) = v"
proof (cases "v = 0")
  case False
  define a e s where "a = nat \<bar>v\<bar>" and "e = ilog2 a" and "s = (if v < 0 then 1 else 0 :: nat)"
  have a: "0 < a" "a < 2 ^ 53" using False assms by (auto simp: a_def nat_less_iff)
  have b: "2 ^ e \<le> a" "a < 2 * 2 ^ e" using ilog2_bounds [OF a(1)] by (auto simp: e_def)
  have "(2::nat) ^ e < 2 ^ 53" using a(2) b(1) by (rule le_less_trans [rotated])
  then have e: "e \<le> 52" using power_less_imp_less_exp [of "2::nat" e 53] by simp
  define m where "m = (a - 2 ^ e) * 2 ^ (52 - e)"
  have "(a - 2 ^ e) * 2 ^ (52 - e) < 2 ^ e * 2 ^ (52 - e)" using b by (intro mult_strict_right_mono) auto
  then have m: "m < 2 ^ 52" using e by (simp add: m_def power_add [symmetric])
  define n where "n = (s * 2 ^ 11 + (1023 + e)) * 2 ^ 52 + m"
  have d: "n div 2 ^ 52 = s * 2 ^ 11 + (1023 + e)" "n mod 2 ^ 52 = m"
    unfolding n_def using m by (simp_all only: mod_mult_self3 div_mult_self3 mod_less div_less)
  have "n div 2 ^ 63 = n div 2 ^ 52 div 2 ^ 11" by (simp add: div_mult2_eq [symmetric])
  then have d3: "n div 2 ^ 63 = s" "n div 2 ^ 52 mod 2 ^ 11 = 1023 + e" using e d(1) by simp_all
  have "n < 2 ^ 64" using m e by (simp add: n_def s_def)
  then have "unat (of_nat n :: u64) = n" by (subst unat_of_nat) simp
  moreover have "(if v < 0 then 2 ^ 63 else 0) + (1023 + e) * 2 ^ 52 + (a - 2 ^ e) * 2 ^ (52 - e) = n"
    by (simp add: n_def m_def s_def add_mult_distrib)
  ultimately have u: "unat (double_bits v) = n"
    using False unfolding double_bits_def Let_def a_def [symmetric] e_def [symmetric] by (simp only: if_False)
  have "2 ^ e * 2 ^ (52 - e) \<le> a * 2 ^ (52 - e)" using b(1) by (rule mult_right_mono) simp
  then have "2 ^ 52 + m = a * 2 ^ (52 - e)"
    using b(1) e by (simp add: m_def diff_mult_distrib power_add [symmetric])
  then have v: "(2 ^ 52 + n mod 2 ^ 52) div 2 ^ (1075 - n div 2 ^ 52 mod 2 ^ 11) = a"
    using d3(2) d(2) by simp
  have "n \<noteq> 0" using d(1) by (metis add_is_0 div_0 zero_neq_numeral)
  then show ?thesis unfolding u double_int_def d3(1) v using False by (simp add: s_def a_def)
qed (simp add: double_bits_def double_int_def)

section \<open>Colour information\<close>

datatype amf = Amf_Number int | Amf_Object "(byte list \<times> amf) list"

fun read_fields :: "nat \<Rightarrow> byte list \<Rightarrow> ((byte list \<times> amf) list \<times> byte list) option" where
  "read_fields 0 bs = None"
| "read_fields (Suc n) bs =
     (let k = be_nat (take 2 bs); name = take k (drop 2 bs); r = drop (2 + k) bs in
      if r = [] then None
      else if k = 0 then (if hd r = 9 then Some ([], tl r) else None)
      else if hd r = 0 then do {
        (fields, rest) \<leftarrow> read_fields n (drop 9 r);
        Some ((name, Amf_Number (double_int (be_nat (take 8 (tl r))))) # fields, rest)
      }
      else if hd r = 3 then do {
        (inner, rest) \<leftarrow> read_fields n (tl r);
        (fields, rest) \<leftarrow> read_fields n rest;
        Some ((name, Amf_Object inner) # fields, rest)
      }
      else None)"

definition read_metadata :: "byte list \<Rightarrow> (byte list \<times> (byte list \<times> amf) list) option" where
  "read_metadata bs =
     (let k = be_nat (take 2 (tl bs)) in
      if hd bs = 2 \<and> bs ! (3 + k) = 3
      then map_option (\<lambda>(fields, _). (take k (drop 3 bs), fields)) (read_fields (length bs) (drop (4 + k) bs))
      else None)"

lemma named_size: "length s < 2 ^ 16 \<Longrightarrow> be_nat (be_bytes 2 (unat (of_nat (length s) :: u16))) = length s"
  by (subst unat_of_nat, subst mod_less) (simp_all add: be_nat_bytes)

lemma read_number:
  assumes "s \<noteq> ''''" "length s < 2 ^ 16" "\<bar>v\<bar> < 2 ^ 53"
  shows "read_fields (Suc n) (named s @ [0] @ be_bytes 8 (unat (double_bits v)) @ rest) =
    map_option (\<lambda>(fields, rest). ((char_bytes s, Amf_Number v) # fields, rest)) (read_fields n rest)"
proof -
  note k = named_size [OF assms(2)]
  have "unat (double_bits v) < 256 ^ 8" using unsigned_less [of "double_bits v"] by simp
  then have v: "be_nat (be_bytes 8 (unat (double_bits v))) = unat (double_bits v)" by (rule be_nat_bytes)
  show ?thesis using assms(1)
    by (cases "read_fields n rest") (simp_all add: named_def k v double_int_bits [OF assms(3)] Let_def split: prod.splits)
qed

lemma read_object:
  assumes "s \<noteq> ''''" "length s < 2 ^ 16" "read_fields n xs = Some (inner, rest)"
  shows "read_fields (Suc n) (named s @ [3] @ xs) =
    map_option (\<lambda>(fields, rest). ((char_bytes s, Amf_Object inner) # fields, rest)) (read_fields n rest)"
proof -
  note k = named_size [OF assms(2)]
  show ?thesis using assms(1,3)
    by (cases "read_fields n rest") (simp_all add: named_def k Let_def split: prod.splits)
qed

lemma read_end: "read_fields (Suc n) ([0] @ [0] @ [9] @ rest) = Some ([], rest)"
  by (simp add: be_nat_def)

definition color_fields :: "int \<Rightarrow> byte \<Rightarrow> int \<Rightarrow> int \<Rightarrow> int \<Rightarrow> int \<Rightarrow> (byte list \<times> amf) list" where
  "color_fields bits pri trc spc min_lum max_lum =
     (char_bytes ''colorConfig'', Amf_Object
        [(char_bytes ''bitDepth'', Amf_Number bits), (char_bytes ''colorPrimaries'', Amf_Number (uint pri)),
         (char_bytes ''transferCharacteristics'', Amf_Number trc), (char_bytes ''matrixCoefficients'', Amf_Number spc)]) #
     (if max_lum = 0 then []
      else [(char_bytes ''hdrMdcv'', Amf_Object
        [(char_bytes ''maxLuminance'', Amf_Number max_lum), (char_bytes ''minLuminance'', Amf_Number min_lum)])])"

definition amf_number :: "string \<Rightarrow> int \<Rightarrow> byte list" where
  "amf_number name v = named name @ [0] @ be_bytes 8 (unat (double_bits v))"

definition amf_end :: "byte list" where
  "amf_end = [0] @ [0] @ [9]"

definition hdr_bytes :: "int \<Rightarrow> int \<Rightarrow> byte list" where
  "hdr_bytes max_lum min_lum = (if max_lum = 0 then []
     else named ''hdrMdcv'' @ [3] @ amf_number ''maxLuminance'' max_lum @ amf_number ''minLuminance'' min_lum @ amf_end)"

definition color_bytes :: "int \<Rightarrow> byte \<Rightarrow> int \<Rightarrow> int \<Rightarrow> int \<Rightarrow> int \<Rightarrow> byte list" where
  "color_bytes bits pri trc spc min_lum max_lum =
     named ''colorConfig'' @ [3] @ amf_number ''bitDepth'' bits @ amf_number ''colorPrimaries'' (uint pri) @
     amf_number ''transferCharacteristics'' trc @ amf_number ''matrixCoefficients'' spc @ amf_end @
     hdr_bytes max_lum min_lum @ amf_end"

lemma color_info_bytes:
  "color_info bits pri trc spc min_lum max_lum =
    Some ([2] @ named ''colorInfo'' @ [3] @ color_bytes bits pri trc spc min_lum max_lum)"
proof -
  note enums = DATA_TYPE_STRING_def DATA_TYPE_OBJECT_def DATA_TYPE_NUMBER_def DATA_TYPE_OBJECT_END_def
  note bytes = color_bytes_def amf_number_def amf_end_def hdr_bytes_def enums
  show ?thesis
  proof (cases "max_lum = 0")
    case True
    show ?thesis unfolding color_info_def
      apply (simp only: True simp_thms if_False bind.bind_lunit)
      apply (rule ser_then [OF ser_has_start], rule puts_rules, (erule ser_then, rule puts_rules)+, drule ser_bytes_has)
      by (simp add: bytes)
  next
    case False
    show ?thesis unfolding color_info_def
      apply (simp only: False simp_thms if_True bind_assoc)
      apply (rule ser_then [OF ser_has_start], rule puts_rules, (erule ser_then, rule puts_rules)+, drule ser_bytes_has)
      using False by (simp add: bytes)
  qed
qed

lemma read_amf_number:
  "s \<noteq> '''' \<Longrightarrow> length s < 2 ^ 16 \<Longrightarrow> \<bar>v\<bar> < 2 ^ 53 \<Longrightarrow> read_fields (Suc n) (amf_number s v @ rest) =
    map_option (\<lambda>(fields, rest). ((char_bytes s, Amf_Number v) # fields, rest)) (read_fields n rest)"
  using read_number [of s v n rest] by (simp add: amf_number_def)

lemma read_amf_end: "read_fields (Suc n) (amf_end @ rest) = Some ([], rest)"
  using read_end by (simp add: amf_end_def)

lemma read_hdr:
  assumes "\<bar>min_lum\<bar> < 2 ^ 53" "\<bar>max_lum\<bar> < 2 ^ 53"
  shows "read_fields (Suc (Suc (Suc (Suc n)))) (hdr_bytes max_lum min_lum @ amf_end) =
    Some (tl (color_fields 0 0 0 0 min_lum max_lum), [])"
proof (cases "max_lum = 0")
  case True
  then show ?thesis using read_amf_end [of _ "[]"] by (simp add: hdr_bytes_def color_fields_def)
next
  case False
  let ?inner = "amf_number ''maxLuminance'' max_lum @ amf_number ''minLuminance'' min_lum @ amf_end @ amf_end"
  have "read_fields (Suc (Suc (Suc n))) ?inner = Some ([(char_bytes ''maxLuminance'', Amf_Number max_lum),
      (char_bytes ''minLuminance'', Amf_Number min_lum)], amf_end)"
    using assms by (simp add: read_amf_number read_amf_end del: read_fields.simps)
  from read_object [OF _ _ this, of "''hdrMdcv''"] show ?thesis
    using False read_amf_end [of _ "[]"] by (simp add: hdr_bytes_def color_fields_def del: read_fields.simps)
qed

lemma read_color:
  assumes "\<bar>bits\<bar> < 2 ^ 53" "\<bar>trc\<bar> < 2 ^ 53" "\<bar>spc\<bar> < 2 ^ 53" "\<bar>min_lum\<bar> < 2 ^ 53" "\<bar>max_lum\<bar> < 2 ^ 53"
  shows "read_fields (Suc (Suc (Suc (Suc (Suc (Suc n)))))) (color_bytes bits pri trc spc min_lum max_lum) =
    Some (color_fields bits pri trc spc min_lum max_lum, [])"
proof -
  let ?rest = "hdr_bytes max_lum min_lum @ amf_end"
  let ?inner = "amf_number ''bitDepth'' bits @ amf_number ''colorPrimaries'' (uint pri) @
     amf_number ''transferCharacteristics'' trc @ amf_number ''matrixCoefficients'' spc @ amf_end @ ?rest"
  have "uint pri < 2 ^ 8" using unsigned_less [of pri, where 'a = int] by simp
  then have "\<bar>uint pri\<bar> < 2 ^ 53" by simp
  then have "read_fields (Suc (Suc (Suc (Suc (Suc n))))) ?inner = Some ([(char_bytes ''bitDepth'', Amf_Number bits),
      (char_bytes ''colorPrimaries'', Amf_Number (uint pri)), (char_bytes ''transferCharacteristics'', Amf_Number trc),
      (char_bytes ''matrixCoefficients'', Amf_Number spc)], ?rest)"
    using assms by (simp add: read_amf_number read_amf_end del: read_fields.simps)
  from read_object [OF _ _ this, of "''colorConfig''"] show ?thesis
    using read_hdr [OF assms(4,5), of "Suc n"]
    by (simp add: color_bytes_def color_fields_def del: read_fields.simps)
qed

lemma read_color_info:
  assumes "\<bar>bits\<bar> < 2 ^ 53" "\<bar>trc\<bar> < 2 ^ 53" "\<bar>spc\<bar> < 2 ^ 53" "\<bar>min_lum\<bar> < 2 ^ 53" "\<bar>max_lum\<bar> < 2 ^ 53"
  shows "read_metadata ([2] @ named ''colorInfo'' @ [3] @ color_bytes bits pri trc spc min_lum max_lum) =
    Some (char_bytes ''colorInfo'', color_fields bits pri trc spc min_lum max_lum)"
proof -
  have k: "be_nat (be_bytes 2 9) = 9" by (rule be_nat_bytes) simp
  obtain n where n: "length ([2] @ named ''colorInfo'' @ [3] @ color_bytes bits pri trc spc min_lum max_lum) =
      Suc (Suc (Suc (Suc (Suc (Suc n)))))"
    by (simp add: named_def)
  show ?thesis unfolding read_metadata_def n
    using read_color [OF assms, of n pri] by (simp add: named_def k Let_def nth_append del: read_fields.simps)
qed

lemma hdr_bytes_length: "length (hdr_bytes max_lum min_lum) \<le> 100"
  by (simp add: hdr_bytes_def amf_number_def amf_end_def named_def)

lemma color_bytes_length: "length (color_bytes bits pri trc spc min_lum max_lum) \<le> 300"
  using hdr_bytes_length [of max_lum min_lum] by (simp add: color_bytes_def amf_number_def amf_end_def named_def)

definition metadata_head :: "video_id_t \<Rightarrow> nat \<Rightarrow> byte list" where
  "metadata_head codec idx = (if 0 < idx then [0x86, 4] @ video_4cc codec @ [of_nat idx] else [0x84] @ video_4cc codec)"

lemma read_metadata_head: "codec \<noteq> CODEC_NONE \<Longrightarrow> idx < 256 \<Longrightarrow>
    read_video (metadata_head codec idx @ data) = Some (Video_Body_Ex False 4 codec idx 0 data)"
  by (auto simp: read_video_def metadata_head_def read_offset_def unat_of_nat nth_append)

lemma mux_metadata:
  assumes "codec \<noteq> CODEC_NONE" "color_info bits pri trc spc min_lum max_lum = Some data" "length data < 2 ^ 20"
  shows "flv_packet_metadata codec bits pri trc spc min_lum max_lum idx =
    Some (flv_tag RTMP_PACKET_TYPE_VIDEO 0 (metadata_head codec idx @ data))"
proof -
  have seven: "5 + 2 = (7 :: u32)" by simp
  have sucs: "Suc (Suc (Suc (Suc (Suc (Suc (Suc n)))))) = n + 7" "Suc (Suc (Suc (Suc (Suc n)))) = n + 5" for n by simp_all
  note enums = FRAME_HEADER_EX_def PACKETTYPE_MULTITRACK_def MULTITRACKTYPE_ONE_TRACK_def PACKETTYPE_METADATA_def
  note start = flv_packet_metadata_def assms(2) bind.bind_lunit if_False if_True bind_assoc Let_def simp_thms seven
  note steps = puts_rules puts_w4cc [OF assms(1)]
  show ?thesis
  proof (cases "0 < idx")
    case True
    show ?thesis using assms(3)
      apply (simp only: start True)
      apply (rule tag_start_ex [where n = 7, unfolded of_nat_numeral], simp)
      apply ((erule ser_then, rule steps)+, erule tag_end)
      using True by (simp_all add: flv_tag_def ac_simps metadata_head_def enums sucs)
  next
    case False
    show ?thesis using assms(3)
      apply (simp only: start False)
      apply (rule tag_start_ex [where n = 5, unfolded of_nat_numeral], simp)
      apply ((erule ser_then, rule steps)+, erule tag_end)
      using False by (simp_all add: flv_tag_def ac_simps metadata_head_def enums sucs)
  qed
qed

text \<open>The colour metadata of a stream is one video tag from which a player reads the same numbers back, the
  mastering luminances exactly when there is a maximum, for all values of C's \<open>int\<close>, on any track.\<close>

theorem hdr_metadata_roundtrip:
  assumes "codec \<noteq> CODEC_NONE" "idx < 256" "\<forall>v \<in> {bits, trc, spc, min_lum, max_lum}. - (2 ^ 31) \<le> v \<and> v < 2 ^ 31"
  shows "\<exists>bs data. flv_packet_metadata codec bits pri trc spc min_lum max_lum idx = Some bs \<and>
    read_tags bs = Some [(0, Video_Body_Ex False 4 codec idx 0 data)] \<and>
    read_metadata data = Some (char_bytes ''colorInfo'', color_fields bits pri trc spc min_lum max_lum)"
proof -
  let ?data = "[2] @ named ''colorInfo'' @ [3] @ color_bytes bits pri trc spc min_lum max_lum"
  have l: "length ?data \<le> 400" using color_bytes_length [of bits pri trc spc min_lum max_lum] by (simp add: named_def)
  have "length (metadata_head codec idx) \<le> 7" by (simp add: metadata_head_def)
  with l have b: "length (metadata_head codec idx @ ?data) < 2 ^ 24 - 11" by simp
  have "flv_packet_metadata codec bits pri trc spc min_lum max_lum idx =
      Some (flv_tag RTMP_PACKET_TYPE_VIDEO 0 (metadata_head codec idx @ ?data))"
    by (rule mux_metadata [OF assms(1) color_info_bytes]) (use l in simp)
  moreover have "read_body RTMP_PACKET_TYPE_VIDEO (metadata_head codec idx @ ?data) =
      Some (Video_Body_Ex False 4 codec idx 0 ?data)"
    unfolding read_body_video by (rule read_metadata_head [OF assms(1,2)])
  then have "read_tags (flv_tag RTMP_PACKET_TYPE_VIDEO 0 (metadata_head codec idx @ ?data)) =
      Some [(0, Video_Body_Ex False 4 codec idx 0 ?data)]"
    using read_tags_tag [OF b, of RTMP_PACKET_TYPE_VIDEO _ 0 "[]"] by (simp add: read_tags.simps)
  moreover have "read_metadata ?data = Some (char_bytes ''colorInfo'', color_fields bits pri trc spc min_lum max_lum)"
    using assms(3) by (intro read_color_info) (auto simp: abs_less_iff)
  ultimately show ?thesis by blast
qed

theorem hdr_metadata_roundtrip_witness:
  "\<exists>bs data. flv_packet_metadata CODEC_HEVC 10 9 16 9 0 1000 1 = Some bs \<and>
    read_tags bs = Some [(0, Video_Body_Ex False 4 CODEC_HEVC 1 0 data)] \<and>
    read_metadata data = Some (char_bytes ''colorInfo'', color_fields 10 9 16 9 0 1000)"
  by (rule hdr_metadata_roundtrip) simp_all

end
