(* ===== verification/Rtmp_Drop.thy ===== *)
theory Rtmp_Drop
  imports Rtmp_Queue Flv_Tags
begin

text \<open>
  What the RTMP output may drop: the operations on the queue as operations on a list, the rule that no frame
  leaves after a dropped one before one of a higher priority, and the range of the dynamic bitrate.
\<close>

section \<open>The queue as a list\<close>

lemma pop_packet_front_repr:
  "deque_repr q (x # xs) \<Longrightarrow> \<exists>q'. pop_packet_front q = Some (x, q') \<and> deque_repr q' xs"
  using dq.pop_front [of q "x # xs" 1 True] by (auto simp: pop_packet_front_def)

lemma size_repr: "deque_repr q xs \<Longrightarrow> dq_size q = length xs"
  by (rule deque_repr_length)

definition keeps :: "int \<Rightarrow> encoder_packet \<Rightarrow> bool" where
  "keeps h p \<longleftrightarrow> pk_type p = OBS_ENCODER_AUDIO \<or> pk_drop_priority p \<ge> h"

lemma drop_loop_step:
  "dq_size q \<noteq> 0 \<Longrightarrow> pop_packet_front q = Some (x, q') \<Longrightarrow> drop_loop (Suc m) h q new d =
    (if keeps h x then Option.bind (deque_push_back new [x]) (\<lambda>new. drop_loop m h q' new d)
     else drop_loop m h q' new (d + 1))"
  by (subst drop_loop.simps) (simp add: keeps_def)

lemma drop_loop_repr:
  "deque_repr q xs \<Longrightarrow> deque_repr new ys \<Longrightarrow> length xs \<le> n \<Longrightarrow>
    \<exists>new'. drop_loop n h q new d = Some (new', d + length (filter (\<lambda>p. \<not> keeps h p) xs)) \<and>
      deque_repr new' (ys @ filter (keeps h) xs)"
proof (induction xs arbitrary: n q new ys d)
  case Nil
  then show ?case using size_repr [of q "[]"] by (subst drop_loop.simps) simp
next
  case (Cons x xs)
  obtain m where n: "n = Suc m" "length xs \<le> m" using Cons.prems(3) by (cases n) auto
  obtain q' where q': "pop_packet_front q = Some (x, q')" "deque_repr q' xs"
    using pop_packet_front_repr [OF Cons.prems(1)] by blast
  have s: "dq_size q \<noteq> 0" using size_repr [OF Cons.prems(1)] by simp
  show ?case
  proof (cases "keeps h x")
    case True
    obtain new' where "deque_push_back new [x] = Some new'" "deque_repr new' (ys @ [x])"
      using dq.push_one [OF Cons.prems(2)] by blast
    with Cons.IH [OF q'(2) this(2) n(2), of d] True show ?thesis
      unfolding n(1) drop_loop_step [OF s q'(1)] by simp
  next
    case False
    with Cons.IH [OF q'(2) Cons.prems(2) n(2), of "Suc d"] show ?thesis
      unfolding n(1) drop_loop_step [OF s q'(1)] by simp
  qed
qed

text \<open>The fields that dropping does not touch.\<close>

definition rs_rest :: "rtmp_stream \<Rightarrow> rtmp_stream" where
  "rs_rest st = st\<lparr>rs_packets := deque_init, rs_min_priority := 0, rs_dropped_frames := 0\<rparr>"

lemma drop_frames_repr:
  assumes "deque_repr (rs_packets st) xs"
  shows "\<exists>st'. drop_frames h st = Some st' \<and> deque_repr (rs_packets st') (filter (keeps h) xs) \<and>
    rs_min_priority st' = max (rs_min_priority st) h \<and>
    rs_dropped_frames st' = rs_dropped_frames st + int (length (filter (\<lambda>p. \<not> keeps h p) xs)) \<and> rs_rest st' = rs_rest st"
proof -
  obtain new where new: "deque_reserve deque_init 8 = Some new" "deque_repr new ([] :: encoder_packet list)"
    using deque_reserve_repr [OF deque_repr_init] by blast
  obtain q where q: "drop_loop (dq_size (rs_packets st)) h (rs_packets st) new 0 =
      Some (q, length (filter (\<lambda>p. \<not> keeps h p) xs))" "deque_repr q (filter (keeps h) xs)"
    using drop_loop_repr [OF assms new(2), of _ h 0] size_repr [OF assms] by auto
  show ?thesis
    unfolding drop_frames_def new(1) bind.bind_lunit q(1) Let_def case_prod_conv
    using q(2) by (simp add: max_def rs_rest_def)
qed

lemma find_first_repr:
  assumes "deque_repr q xs"
  shows "i + n = length xs \<Longrightarrow>
    find_first_loop q i n = Some (List.find (\<lambda>p. pk_type p = OBS_ENCODER_VIDEO \<and> \<not> pk_keyframe p) (drop i xs))"
proof (induction n arbitrary: i)
  case (Suc n)
  then have i: "i < length xs" "drop i xs = xs ! i # drop (Suc i) xs" by (simp_all add: Cons_nth_drop_Suc)
  obtain place where "deque_data q i = Some place" "dq_data q ! place = Some (xs ! i)"
    using deque_data_eq [OF assms, of i] i(1) by (auto split: option.splits)
  then show ?case using Suc i(2) by simp
qed simp


section \<open>One decision\<close>

text \<open>The queue as a list and the priority that is waited for.\<close>

definition dropped_to :: "int \<Rightarrow> encoder_packet list \<times> int \<Rightarrow> encoder_packet list \<times> int \<Rightarrow> bool" where
  "dropped_to h a b \<longleftrightarrow> b = a \<or> b = (filter (keeps h) (fst a), max (snd a) h)"

definition queue_is :: "rtmp_stream \<Rightarrow> encoder_packet list \<times> int \<Rightarrow> bool" where
  "queue_is st a \<longleftrightarrow> deque_repr (rs_packets st) (fst a) \<and> rs_min_priority st = snd a"

definition dbr_frames_are :: "rtmp_stream \<Rightarrow> dbr_frame list \<Rightarrow> bool" where
  "dbr_frames_are st fs \<longleftrightarrow> deque_repr (rs_dbr_frames st) fs"

lemma dbr_set_same [simp]:
  "rs_packets (dbr_set_bitrate E st) = rs_packets st" "rs_min_priority (dbr_set_bitrate E st) = rs_min_priority st"
  "rs_dbr_frames (dbr_set_bitrate E st) = rs_dbr_frames st" "rs_dbr_enabled (dbr_set_bitrate E st) = rs_dbr_enabled st"
  "rs_dropped_frames (dbr_set_bitrate E st) = rs_dropped_frames st"
  by (simp_all add: dbr_set_bitrate_def Let_def)

lemma dbr_inc_same [simp]:
  "rs_packets (dbr_inc_bitrate E st) = rs_packets st" "rs_min_priority (dbr_inc_bitrate E st) = rs_min_priority st"
  "rs_dbr_frames (dbr_inc_bitrate E st) = rs_dbr_frames st" "rs_dbr_enabled (dbr_inc_bitrate E st) = rs_dbr_enabled st"
  "rs_dropped_frames (dbr_inc_bitrate E st) = rs_dropped_frames st"
  by (simp_all add: dbr_inc_bitrate_def Let_def)

lemma dbr_lowered_ok:
  assumes "dbr_frames_are st fs"
  shows "\<exists>c st' fs'. dbr_bitrate_lowered E st = Some (c, st') \<and> rs_packets st' = rs_packets st \<and>
    rs_min_priority st' = rs_min_priority st \<and> dbr_frames_are st' fs' \<and> rs_dbr_enabled st' = rs_dbr_enabled st \<and>
    rs_dropped_frames st' = rs_dropped_frames st"
proof -
  obtain q where q: "deque_pop_front (rs_dbr_frames st) False (dq_size (rs_dbr_frames st)) = Some ([], q)" "deque_repr q []"
    using dq.pop_front [of "rs_dbr_frames st" fs "length fs" False] assms size_repr [of "rs_dbr_frames st" fs]
    by (auto simp: dbr_frames_are_def)
  show ?thesis
  proof (cases "rs_dbr_est_bitrate st \<noteq> 0 \<and> rs_dbr_est_bitrate st < rs_dbr_cur_bitrate st")
    case True
    then show ?thesis unfolding dbr_bitrate_lowered_def Let_def
      by (simp only: if_True q(1) simp_thms bind.bind_lunit case_prod_conv)
        (use q(2) in \<open>auto simp: dbr_frames_are_def\<close>)
  next
    case False
    then show ?thesis unfolding dbr_bitrate_lowered_def Let_def
      by (simp only: if_False bind.bind_lunit case_prod_conv) (use assms in \<open>auto simp: dbr_frames_are_def\<close>)
  qed
qed

lemma check_ok:
  assumes "queue_is st a" "dbr_frames_are st fs"
  shows "\<exists>st' a' fs'. check_to_drop_frames E pf st = Some st' \<and> queue_is st' a' \<and> dbr_frames_are st' fs' \<and>
    dropped_to (if pf then OBS_NAL_PRIORITY_HIGHEST else OBS_NAL_PRIORITY_HIGH) a a' \<and>
    rs_dbr_enabled st' = rs_dbr_enabled st \<and> (rs_dbr_enabled st \<longrightarrow> a' = a)"
proof -
  define st1 where "st1 = dbr_check_timer E pf st"
  have st1: "queue_is st1 a" "dbr_frames_are st1 fs" "rs_dbr_enabled st1 = rs_dbr_enabled st"
    using assms by (simp_all add: st1_def dbr_check_timer_def queue_is_def dbr_frames_are_def)
  obtain first where first: "find_first_video_packet st1 = Some first"
    using find_first_repr [of "rs_packets st1" "fst a" 0 "length (fst a)"] st1(1)
    by (auto simp: find_first_video_packet_def queue_is_def size_repr)
  obtain c st2 fs2 where low: "dbr_bitrate_lowered E st1 = Some (c, st2)" "rs_packets st2 = rs_packets st1"
    "rs_min_priority st2 = rs_min_priority st1" "dbr_frames_are st2 fs2" "rs_dbr_enabled st2 = rs_dbr_enabled st1"
    using dbr_lowered_ok [OF st1(2), of E] by blast
  obtain st3 where dr: "drop_frames (if pf then OBS_NAL_PRIORITY_HIGHEST else OBS_NAL_PRIORITY_HIGH) st1 = Some st3"
    "deque_repr (rs_packets st3) (filter (keeps (if pf then OBS_NAL_PRIORITY_HIGHEST else OBS_NAL_PRIORITY_HIGH)) (fst a))"
    "rs_min_priority st3 = max (rs_min_priority st1) (if pf then OBS_NAL_PRIORITY_HIGHEST else OBS_NAL_PRIORITY_HIGH)"
    "rs_rest st3 = rs_rest st1"
    using drop_frames_repr [of st1 "fst a"] st1(1) unfolding queue_is_def by blast
  have r3: "rs_dbr_frames st3 = rs_dbr_frames st1" "rs_dbr_enabled st3 = rs_dbr_enabled st1"
    using dr(4) by (cases st3; cases st1; simp add: rs_rest_def)+
  have two: "queue_is st2 a" using st1(1) low(2,3) by (simp add: queue_is_def)
  have three: "queue_is st3 (filter (keeps (if pf then OBS_NAL_PRIORITY_HIGHEST else OBS_NAL_PRIORITY_HIGH)) (fst a),
      max (snd a) (if pf then OBS_NAL_PRIORITY_HIGHEST else OBS_NAL_PRIORITY_HIGH))" "dbr_frames_are st3 fs"
    using dr(2,3) st1 r3 by (simp_all add: queue_is_def dbr_frames_are_def)
  have same: "\<exists>st' a' fs'. Some s = Some st' \<and> queue_is st' a' \<and> dbr_frames_are st' fs' \<and> dropped_to h a a' \<and>
      rs_dbr_enabled st' = rs_dbr_enabled st \<and> (rs_dbr_enabled st \<longrightarrow> a' = a)"
    if "queue_is s a" "dbr_frames_are s f" "rs_dbr_enabled s = rs_dbr_enabled st" for s f h
    using that by (intro exI [of _ s] exI [of _ a] exI [of _ f]) (simp add: dropped_to_def)
  note start = check_to_drop_frames_def Let_def st1_def [symmetric]
  note reduce = if_True if_False first bind.bind_lunit option.case simp_thms
  show ?thesis
  proof (cases "num_buffered_packets st < 5 \<or> first = None \<or> (rs_dbr_enabled st1 \<and> pf)")
    case True
    then have "check_to_drop_frames E pf st = Some st1"
      by (cases "num_buffered_packets st < 5"; cases first) (simp_all only: start reduce, simp_all)
    then show ?thesis using same [OF st1(1,2,3)] by simp
  next
    case False
    then obtain f where n: "(num_buffered_packets st < 5) = False" and f: "first = Some f"
      and pf: "rs_dbr_enabled st1 \<Longrightarrow> \<not> pf" by auto
    show ?thesis
    proof (cases "rs_dbr_enabled st1")
      case True
      then have pf': "pf = False" and e: "rs_dbr_enabled st1 = True" using pf by simp_all
      have "check_to_drop_frames E pf st = Some st1 \<or> check_to_drop_frames E pf st = Some st2 \<or>
          check_to_drop_frames E pf st = Some (dbr_set_bitrate E st2)"
        unfolding start
        unfolding reduce n f e pf' low(1) case_prod_conv
        by (cases "(rs_last_dts_usec st1 - pk_dts_usec f) mod 2 ^ 64 \<ge> DBR_TRIGGER_USEC"; cases c)
          (simp_all only: if_True if_False bind.bind_lunit low(1) case_prod_conv simp_thms)
      moreover have "queue_is (dbr_set_bitrate E st2) a" "dbr_frames_are (dbr_set_bitrate E st2) fs2"
        using two low(4) by (simp_all add: queue_is_def dbr_frames_are_def)
      ultimately show ?thesis using same [OF st1(1,2,3)] same [OF two low(4)] same [of "dbr_set_bitrate E st2" fs2] low(5) st1(3)
        by (elim disjE) simp_all
    next
      case False
      then have e: "rs_dbr_enabled st = False" "rs_dbr_enabled st1 = False" using st1(3) by simp_all
      have "check_to_drop_frames E pf st = Some st1 \<or> check_to_drop_frames E pf st = Some st3"
        unfolding start
        unfolding reduce n f e dr(1) by (auto simp only: if_True if_False split: if_splits)
      then show ?thesis
      proof
        assume "check_to_drop_frames E pf st = Some st1"
        then show ?thesis using same [OF st1(1,2,3)] by simp
      next
        assume c: "check_to_drop_frames E pf st = Some st3"
        show ?thesis unfolding c
          by (intro exI [of _ st3] exI [of _ "(filter (keeps (if pf then OBS_NAL_PRIORITY_HIGHEST else OBS_NAL_PRIORITY_HIGH)) (fst a),
            max (snd a) (if pf then OBS_NAL_PRIORITY_HIGHEST else OBS_NAL_PRIORITY_HIGH))"] exI [of _ fs])
            (use three r3 e in \<open>simp add: dropped_to_def\<close>)
      qed
    qed
  qed
qed

section \<open>Logs\<close>

text \<open>What has become of the packets so far, in the order of their arrival: kept (sent or in the queue) or dropped.
  \<open>next_kept\<close> is the priority of the first video packet kept, or the one that is waited for. A log has no
  gaps if audio is never dropped and what follows a dropped frame has a higher priority.\<close>

type_synonym packet_log = "(encoder_packet \<times> bool) list"

fun next_kept :: "packet_log \<Rightarrow> int \<Rightarrow> int" where
  "next_kept [] m = m"
| "next_kept ((p, k) # ls) m = (if k \<and> pk_type p = OBS_ENCODER_VIDEO then pk_drop_priority p else next_kept ls m)"

fun drops_ok :: "packet_log \<Rightarrow> int \<Rightarrow> bool" where
  "drops_ok [] m \<longleftrightarrow> True"
| "drops_ok ((p, k) # ls) m \<longleftrightarrow>
     (k \<or> pk_type p = OBS_ENCODER_VIDEO \<and> pk_drop_priority p < next_kept ls m) \<and> drops_ok ls m"

definition kept :: "packet_log \<Rightarrow> encoder_packet list" where
  "kept ls = map fst (filter snd ls)"

definition drop_log :: "int \<Rightarrow> packet_log \<Rightarrow> packet_log" where
  "drop_log h ls = map (\<lambda>(p, k). (p, k \<and> keeps h p)) ls"

lemma kept_simps [simp]: "kept [] = []" "kept (x # ls) = (if snd x then fst x # kept ls else kept ls)"
  "kept (ls @ ls') = kept ls @ kept ls'"
  by (simp_all add: kept_def)

lemma next_kept_append: "next_kept (ls @ ls') m = next_kept ls (next_kept ls' m)"
  by (induction ls m rule: next_kept.induct) auto

lemma drops_ok_append: "drops_ok (ls @ ls') m \<longleftrightarrow> drops_ok ls (next_kept ls' m) \<and> drops_ok ls' m"
  by (induction ls m rule: drops_ok.induct) (auto simp: next_kept_append)

lemma next_kept_mono: "m \<le> m' \<Longrightarrow> next_kept ls m \<le> next_kept ls m'"
  by (induction ls m rule: next_kept.induct) auto

lemma drops_ok_mono: "drops_ok ls m \<Longrightarrow> m \<le> m' \<Longrightarrow> drops_ok ls m'"
  by (induction ls m rule: drops_ok.induct) (auto dest: next_kept_mono order_less_le_trans)

lemma kept_drop: "kept (drop_log h ls) = filter (keeps h) (kept ls)"
  by (induction ls) (auto simp: drop_log_def)

lemma map_fst_drop [simp]: "map fst (drop_log h ls) = map fst ls"
  by (auto simp: drop_log_def)

lemma next_drop_h: "h \<le> next_kept (drop_log h ls) (max m h)"
proof (induction ls)
  case (Cons e ls)
  then show ?case by (cases e; cases "pk_type (fst e)") (auto simp: drop_log_def keeps_def)
qed (simp add: drop_log_def)

lemma next_drop_mono: "next_kept ls m \<le> next_kept (drop_log h ls) (max m h)"
proof (induction ls m rule: next_kept.induct)
  case (2 p k ls m)
  have "h \<le> next_kept (drop_log h ls) (max m h)" by (rule next_drop_h)
  with 2 show ?case by (cases "pk_type p") (auto simp: drop_log_def keeps_def)
qed (simp add: drop_log_def)

lemma drops_ok_drop: "drops_ok ls m \<Longrightarrow> drops_ok (drop_log h ls) (max m h)"
proof (induction ls m rule: drops_ok.induct)
  case (2 p k ls m)
  then have ok: "drops_ok (drop_log h ls) (max m h)" by simp
  have "\<not> (k \<and> keeps h p) \<Longrightarrow> pk_type p = OBS_ENCODER_VIDEO \<and> pk_drop_priority p < next_kept (drop_log h ls) (max m h)"
    using 2 next_drop_h [of h ls m] next_drop_mono [of ls m h] by (cases "pk_type p") (auto simp: keeps_def)
  with ok show ?case by (auto simp: drop_log_def)
qed (simp add: drop_log_def)

lemma drops_ok_queue:
  assumes "drops_ok (pre @ post) m"
  shows "drops_ok (pre @ drop_log h post) (max m h)"
  using assms next_drop_mono [of post m h] drops_ok_drop [of post m h]
  by (auto simp: drops_ok_append intro: drops_ok_mono)

section \<open>Runs of the queue\<close>

text \<open>The output gets a packet, or the send thread takes one.\<close>

datatype queue_event = Offer rtmp_env encoder_packet | Take

fun queue_run :: "queue_event list \<Rightarrow> rtmp_stream \<Rightarrow> encoder_packet list \<Rightarrow> (rtmp_stream \<times> encoder_packet list) option" where
  "queue_run [] st gone = Some (st, gone)"
| "queue_run (Offer E p # evs) st gone = Option.bind (enqueue E p st) (\<lambda>st. queue_run evs st gone)"
| "queue_run (Take # evs) st gone = do {
     (p, st) \<leftarrow> get_next_packet st;
     queue_run evs st (case p of None \<Rightarrow> gone | Some p \<Rightarrow> gone @ [p])
   }"

fun offered :: "queue_event list \<Rightarrow> encoder_packet list" where
  "offered [] = []"
| "offered (Offer E p # evs) = p # offered evs"
| "offered (Take # evs) = offered evs"

definition logged :: "rtmp_stream \<Rightarrow> packet_log \<Rightarrow> packet_log \<Rightarrow> bool" where
  "logged st pre post \<longleftrightarrow> queue_is st (kept post, rs_min_priority st) \<and> (\<exists>fs. dbr_frames_are st fs) \<and>
     drops_ok (pre @ post) (rs_min_priority st)"

lemma logged_dropped:
  assumes "logged st pre post" "queue_is st' a'" "dbr_frames_are st' fs'"
    "dropped_to h (kept post, rs_min_priority st) a'"
  shows "\<exists>post'. logged st' pre post' \<and> map fst post' = map fst post"
  using assms(4) unfolding dropped_to_def
proof
  assume "a' = (kept post, rs_min_priority st)"
  then show ?thesis using assms(1-3) by (intro exI [of _ post]) (auto simp: logged_def queue_is_def)
next
  assume "a' = (filter (keeps h) (fst (kept post, rs_min_priority st)), max (snd (kept post, rs_min_priority st)) h)"
  then show ?thesis using assms(1-3) drops_ok_queue [of pre post "rs_min_priority st" h]
    by (intro exI [of _ "drop_log h post"]) (auto simp: logged_def queue_is_def kept_drop)
qed

lemma logged_check:
  assumes "logged st pre post"
  shows "\<exists>st' post'. check_to_drop_frames E pf st = Some st' \<and> logged st' pre post' \<and> map fst post' = map fst post \<and>
    rs_dbr_enabled st' = rs_dbr_enabled st"
proof -
  obtain fs where q: "queue_is st (kept post, rs_min_priority st)" "dbr_frames_are st fs"
    using assms by (auto simp: logged_def)
  show ?thesis using check_ok [OF q, of E pf] logged_dropped [OF assms] by metis
qed

lemma logged_add:
  assumes "logged st pre post" "pk_type p = OBS_ENCODER_VIDEO \<Longrightarrow> rs_min_priority st \<le> pk_drop_priority p"
    "rs_packets st' = rs_packets st" "rs_dbr_frames st' = rs_dbr_frames st"
    "rs_min_priority st' = (if pk_type p = OBS_ENCODER_VIDEO then 0 else rs_min_priority st)"
  shows "\<exists>st''. add_packet p st' = Some (True, st'') \<and> logged st'' pre (post @ [(p, True)])"
proof -
  have "deque_repr (rs_packets st') (kept post)" using assms(1,3) by (simp add: logged_def queue_is_def)
  then obtain q where q: "deque_push_back (rs_packets st') [p] = Some q" "deque_repr q (kept post @ [p])"
    using dq.push_one [of "rs_packets st'" "kept post" p] by auto
  have n: "next_kept [(p, True)] (rs_min_priority st') =
      (if pk_type p = OBS_ENCODER_VIDEO then pk_drop_priority p else rs_min_priority st)"
    using assms(5) by simp
  have le: "rs_min_priority st \<le> next_kept [(p, True)] (rs_min_priority st')"
    unfolding n using assms(2) by simp
  have "drops_ok (pre @ post) (rs_min_priority st)" using assms(1) by (simp add: logged_def)
  then have "drops_ok (pre @ post) (next_kept [(p, True)] (rs_min_priority st'))" using le by (rule drops_ok_mono)
  then have ok: "drops_ok (pre @ (post @ [(p, True)])) (rs_min_priority st')"
    unfolding append_assoc [symmetric] drops_ok_append [of "pre @ post"] by simp
  obtain fs where "dbr_frames_are st fs" using assms(1) by (auto simp: logged_def)
  then have "\<exists>fs. dbr_frames_are (st'\<lparr>rs_packets := q\<rparr>) fs" using assms(4) by (auto simp: dbr_frames_are_def)
  with ok q have "logged (st'\<lparr>rs_packets := q\<rparr>) pre (post @ [(p, True)])" by (simp add: logged_def queue_is_def)
  then show ?thesis using q(1) by (simp add: add_packet_def)
qed

lemma logged_enqueue:
  assumes "logged st pre post"
  shows "\<exists>st' post'. enqueue E p st = Some st' \<and> logged st' pre post' \<and> map fst post' = map fst post @ [p]"
proof (cases "pk_type p")
  case OBS_ENCODER_AUDIO
  obtain st' where "add_packet p st = Some (True, st')" "logged st' pre (post @ [(p, True)])"
    using logged_add [OF assms, of p st] OBS_ENCODER_AUDIO by auto
  then show ?thesis using OBS_ENCODER_AUDIO
    by (intro exI [of _ "st'\<lparr>rs_sem := rs_sem st' + 1\<rparr>"] exI [of _ "post @ [(p, True)]"])
      (auto simp: enqueue_def logged_def queue_is_def dbr_frames_are_def)
next
  case OBS_ENCODER_VIDEO
  obtain st1 post1 where c1: "check_to_drop_frames E False st = Some st1" "logged st1 pre post1" "map fst post1 = map fst post"
    using logged_check [OF assms] by blast
  obtain st2 post2 where c2: "check_to_drop_frames E True st1 = Some st2" "logged st2 pre post2" "map fst post2 = map fst post1"
    using logged_check [OF c1(2)] by blast
  show ?thesis
  proof (cases "pk_drop_priority p < rs_min_priority st2")
    case True
    let ?st = "st2\<lparr>rs_dropped_frames := rs_dropped_frames st2 + 1\<rparr>"
    have "drops_ok (pre @ (post2 @ [(p, False)])) (rs_min_priority st2)"
      unfolding append_assoc [symmetric] drops_ok_append [of "pre @ post2"]
      using c2(2) True OBS_ENCODER_VIDEO by (simp add: logged_def)
    then have "logged ?st pre (post2 @ [(p, False)])"
      using c2(2) by (auto simp: logged_def queue_is_def dbr_frames_are_def)
    moreover have "enqueue E p st = Some ?st"
      using c1(1) c2(1) True OBS_ENCODER_VIDEO by (simp add: enqueue_def add_video_packet_def)
    ultimately show ?thesis using c1(3) c2(3) by (intro exI [of _ ?st] exI [of _ "post2 @ [(p, False)]"]) simp
  next
    case False
    obtain st' where s: "add_packet p (st2\<lparr>rs_min_priority := 0, rs_last_dts_usec := pk_dts_usec p\<rparr>) = Some (True, st')"
      "logged st' pre (post2 @ [(p, True)])"
      using logged_add [OF c2(2), of p "st2\<lparr>rs_min_priority := 0, rs_last_dts_usec := pk_dts_usec p\<rparr>"] False OBS_ENCODER_VIDEO
      by auto
    then have "enqueue E p st = Some (st'\<lparr>rs_sem := rs_sem st' + 1\<rparr>)"
      using c1(1) c2(1) False OBS_ENCODER_VIDEO by (simp add: enqueue_def add_video_packet_def)
    moreover have "logged (st'\<lparr>rs_sem := rs_sem st' + 1\<rparr>) pre (post2 @ [(p, True)])"
      using s(2) by (simp add: logged_def queue_is_def dbr_frames_are_def)
    ultimately show ?thesis using c1(3) c2(3) by (intro exI [of _ "st'\<lparr>rs_sem := rs_sem st' + 1\<rparr>"] exI [of _ "post2 @ [(p, True)]"]) simp
  qed
qed

lemma kept_Cons:
  "kept ls = x # xs \<Longrightarrow> \<exists>a b. ls = a @ (x, True) # b \<and> kept a = [] \<and> kept b = xs"
proof (induction ls)
  case (Cons e ls)
  show ?case
  proof (cases "snd e")
    case True
    then show ?thesis using Cons.prems by (intro exI [of _ "[]"] exI [of _ ls]) (cases e, simp)
  next
    case False
    then obtain a b where "ls = a @ (x, True) # b" "kept a = []" "kept b = xs" using Cons by auto
    then show ?thesis using False by (intro exI [of _ "e # a"] exI [of _ b]) simp
  qed
qed simp

lemma logged_take:
  assumes "logged st pre post"
  shows "\<exists>p st' pre' post'. get_next_packet st = Some (p, st') \<and> logged st' pre' post' \<and> pre' @ post' = pre @ post \<and>
    kept pre' = kept pre @ (case p of None \<Rightarrow> [] | Some p \<Rightarrow> [p])"
proof (cases "kept post")
  case Nil
  then have "get_next_packet st = Some (None, st)"
    using assms size_repr [of "rs_packets st" "kept post"] by (simp add: logged_def queue_is_def get_next_packet_def)
  then show ?thesis using assms by (intro exI [of _ None] exI [of _ st] exI [of _ pre] exI [of _ post]) simp
next
  case (Cons x xs)
  obtain a b where s: "post = a @ (x, True) # b" "kept a = []" "kept b = xs" using kept_Cons [OF Cons] by blast
  have r: "deque_repr (rs_packets st) (x # xs)" using assms Cons by (simp add: logged_def queue_is_def)
  obtain q where q: "pop_packet_front (rs_packets st) = Some (x, q)" "deque_repr q xs" using pop_packet_front_repr [OF r] by blast
  have "get_next_packet st = Some (Some x, st\<lparr>rs_packets := q\<rparr>)"
    using q(1) size_repr [OF r] by (simp add: get_next_packet_def)
  moreover have "logged (st\<lparr>rs_packets := q\<rparr>) (pre @ a @ [(x, True)]) b"
    using assms q(2) s by (auto simp: logged_def queue_is_def dbr_frames_are_def)
  ultimately show ?thesis using s
    by (intro exI [of _ "Some x"] exI [of _ "st\<lparr>rs_packets := q\<rparr>"] exI [of _ "pre @ a @ [(x, True)]"] exI [of _ b]) simp
qed

lemma queue_run_logged:
  "logged st pre post \<Longrightarrow> \<exists>st' gone pre' post'. queue_run evs st (kept pre) = Some (st', gone) \<and> logged st' pre' post' \<and>
    gone = kept pre' \<and> map fst (pre' @ post') = map fst (pre @ post) @ offered evs"
proof (induction evs arbitrary: st pre post)
  case Nil
  then show ?case by (intro exI [of _ st] exI [of _ "kept pre"] exI [of _ pre] exI [of _ post]) simp
next
  case (Cons ev evs)
  show ?case
  proof (cases ev)
    case (Offer E p)
    obtain st1 post1 where e: "enqueue E p st = Some st1" "logged st1 pre post1" "map fst post1 = map fst post @ [p]"
      using logged_enqueue [OF Cons.prems] by blast
    show ?thesis using Cons.IH [OF e(2)] e(1,3) Offer by simp
  next
    case Take
    obtain p st1 pre1 post1 where t: "get_next_packet st = Some (p, st1)" "logged st1 pre1 post1" "pre1 @ post1 = pre @ post"
      "kept pre1 = kept pre @ (case p of None \<Rightarrow> [] | Some p \<Rightarrow> [p])" using logged_take [OF Cons.prems] by blast
    have "queue_run (ev # evs) st (kept pre) = queue_run evs st1 (kept pre1)"
      using t(1,4) Take by (cases p) simp_all
    then show ?thesis using Cons.IH [OF t(2)] t(3) Take by simp
  qed
qed

text \<open>C4: however packets arrive and are taken by the send thread, and however late it is, the packets that are sent
  and those that wait are the packets that arrived, in their order, less the dropped ones; audio is never dropped, and
  no frame goes out after a dropped one before a frame of a higher priority, which is also what is waited for.\<close>

theorem dropping_keeps_references:
  assumes "deque_repr (rs_packets st) []" "deque_repr (rs_dbr_frames st) frames"
  shows "\<exists>st' gone waiting flags. queue_run evs st [] = Some (st', gone) \<and> deque_repr (rs_packets st') waiting \<and>
    length flags = length (offered evs) \<and> kept (zip (offered evs) flags) = gone @ waiting \<and>
    drops_ok (zip (offered evs) flags) (rs_min_priority st')"
proof -
  have "logged st [] []" using assms by (auto simp: logged_def queue_is_def dbr_frames_are_def)
  from queue_run_logged [OF this, of evs] obtain st' gone pre post where
    r: "queue_run evs st [] = Some (st', gone)" "logged st' pre post" "gone = kept pre" "map fst (pre @ post) = offered evs"
    by auto
  have "zip (offered evs) (map snd (pre @ post)) = pre @ post" unfolding r(4) [symmetric] by (rule zip_map_fst_snd)
  moreover have "length (map snd (pre @ post)) = length (offered evs)" unfolding r(4) [symmetric] by simp
  ultimately show ?thesis using r
    by (intro exI [of _ st'] exI [of _ gone] exI [of _ "kept post"] exI [of _ "map snd (pre @ post)"])
      (simp add: logged_def queue_is_def)
qed

definition sample_env :: rtmp_env where
  "sample_env = \<lparr>re_now = (\<lambda>_. 7), re_al = 3, re_scale = (\<lambda>d r all. d * min r all div all)\<rparr>"

theorem dropping_keeps_references_witness:
  "\<exists>st' gone waiting flags. queue_run [Offer sample_env (sample_flv OBS_ENCODER_VIDEO 3 3), Take] rtmp_stream_create [] = Some (st', gone) \<and>
    length flags = 1 \<and> kept (zip [sample_flv OBS_ENCODER_VIDEO 3 3] flags) = gone @ waiting"
  using dropping_keeps_references [of rtmp_stream_create "[]" "[Offer sample_env (sample_flv OBS_ENCODER_VIDEO 3 3), Take]"]
  by (auto simp: rtmp_stream_create_def deque_repr_init)

section \<open>Several tracks\<close>

text \<open>The priority that is waited for is one for all tracks: a frame of another track that has it ends the waiting, and a
  frame of the first track that builds on the dropped one is queued.\<close>

lemma short_queue_check:
  "queue_is st a \<Longrightarrow> length (fst a) < 5 \<Longrightarrow> \<not> rs_dbr_enabled st \<Longrightarrow> check_to_drop_frames E pf st = Some st"
  using size_repr [of "rs_packets st" "fst a"]
  by (simp add: check_to_drop_frames_def dbr_check_timer_def num_buffered_packets_def queue_is_def Let_def)

lemma other_track_ends_dropping:
  assumes q: "queue_is st (xs, m)" "length xs < 4" "\<not> rs_dbr_enabled st"
    and p: "pk_type p = OBS_ENCODER_VIDEO" "pk_drop_priority p < m"
    and k: "pk_type k = OBS_ENCODER_VIDEO" "m \<le> pk_drop_priority k" "pk_track_idx k \<noteq> pk_track_idx p"
    and r: "pk_type r = OBS_ENCODER_VIDEO" "0 \<le> pk_drop_priority r" "pk_track_idx r = pk_track_idx p"
  shows "\<exists>st'. queue_run [Offer E p, Offer E k, Offer E r] st [] = Some (st', []) \<and> queue_is st' (xs @ [k, r], 0)"
proof -
  let ?s1 = "st\<lparr>rs_dropped_frames := rs_dropped_frames st + 1\<rparr>"
  have e1: "enqueue E p st = Some ?s1"
    using short_queue_check [OF q(1), of E] q p by (simp add: enqueue_def add_video_packet_def queue_is_def)
  have q1: "queue_is ?s1 (xs, m)" using q(1) by (simp add: queue_is_def)
  obtain d where d: "deque_push_back (rs_packets st) [k] = Some d" "deque_repr d (xs @ [k])"
    using dq.push_one [of "rs_packets st" xs k] q(1) by (auto simp: queue_is_def)
  let ?s2 = "?s1\<lparr>rs_packets := d, rs_min_priority := 0, rs_last_dts_usec := pk_dts_usec k, rs_sem := rs_sem st + 1\<rparr>"
  have e2: "enqueue E k ?s1 = Some ?s2"
    using short_queue_check [OF q1, of E] q k d(1) q1 by (simp add: enqueue_def add_video_packet_def add_packet_def queue_is_def)
  have q2: "queue_is ?s2 (xs @ [k], 0)" using d(2) by (simp add: queue_is_def)
  obtain d' where d': "deque_push_back d [r] = Some d'" "deque_repr d' ((xs @ [k]) @ [r])"
    using dq.push_one [OF d(2), of r] by auto
  let ?s3 = "?s2\<lparr>rs_packets := d', rs_last_dts_usec := pk_dts_usec r, rs_sem := rs_sem st + 2\<rparr>"
  have e3: "enqueue E r ?s2 = Some ?s3"
    using short_queue_check [OF q2, of E] q r d'(1) by (simp add: enqueue_def add_video_packet_def add_packet_def)
  show ?thesis using e1 e2 e3 d'(2) by (intro exI [of _ ?s3]) (simp add: queue_is_def)
qed

end
