(* ===== verification/Rtmp_Bitrate.thy ===== *)
theory Rtmp_Bitrate
  imports Rtmp_Drop
begin

text \<open>
  The dynamic bitrate of the RTMP output: frames are not dropped, the bitrates of the encoders stay between nothing
  and what the user has set, the estimate is that of the frames in the window. A stream that connects again starts
  from what the first session has left.
\<close>

section \<open>Nothing is dropped\<close>

lemma check_dbr_keeps:
  assumes "queue_is st (xs, 0)" "dbr_frames_are st fs" "rs_dbr_enabled st"
  shows "\<exists>st' fs'. check_to_drop_frames E pf st = Some st' \<and> queue_is st' (xs, 0) \<and> dbr_frames_are st' fs' \<and> rs_dbr_enabled st'"
  using check_ok [OF assms(1,2), of E pf] assms(3) by auto

lemma enqueue_dbr:
  assumes "queue_is st (xs, 0)" "dbr_frames_are st fs" "rs_dbr_enabled st" "0 \<le> pk_drop_priority p"
  shows "\<exists>st' fs'. enqueue E p st = Some st' \<and> queue_is st' (xs @ [p], 0) \<and> dbr_frames_are st' fs' \<and> rs_dbr_enabled st'"
proof (cases "pk_type p")
  case OBS_ENCODER_AUDIO
  obtain q where "deque_push_back (rs_packets st) [p] = Some q" "deque_repr q (xs @ [p])"
    using dq.push_one [of "rs_packets st" xs p] assms(1) by (auto simp: queue_is_def)
  then show ?thesis using OBS_ENCODER_AUDIO assms
    by (intro exI [of _ "st\<lparr>rs_packets := q, rs_sem := rs_sem st + 1\<rparr>"] exI [of _ fs])
      (simp add: enqueue_def add_packet_def queue_is_def dbr_frames_are_def)
next
  case OBS_ENCODER_VIDEO
  obtain st1 f1 where c1: "check_to_drop_frames E False st = Some st1" "queue_is st1 (xs, 0)" "dbr_frames_are st1 f1" "rs_dbr_enabled st1"
    using check_dbr_keeps [OF assms(1-3)] by blast
  obtain st2 f2 where c2: "check_to_drop_frames E True st1 = Some st2" "queue_is st2 (xs, 0)" "dbr_frames_are st2 f2" "rs_dbr_enabled st2"
    using check_dbr_keeps [OF c1(2-4)] by blast
  obtain q where "deque_push_back (rs_packets st2) [p] = Some q" "deque_repr q (xs @ [p])"
    using dq.push_one [of "rs_packets st2" xs p] c2(2) by (auto simp: queue_is_def)
  then show ?thesis using OBS_ENCODER_VIDEO assms(4) c1(1) c2
    by (intro exI [of _ "st2\<lparr>rs_packets := q, rs_min_priority := 0, rs_last_dts_usec := pk_dts_usec p, rs_sem := rs_sem st2 + 1\<rparr>"]
        exI [of _ f2]) (simp add: enqueue_def add_video_packet_def add_packet_def queue_is_def dbr_frames_are_def)
qed

text \<open>With dynamic bitrate every packet that arrives is sent or waits, in order, however late the sending is.\<close>

theorem dynamic_bitrate_drops_nothing:
  assumes "deque_repr (rs_packets st) waiting" "deque_repr (rs_dbr_frames st) frames" "rs_dbr_enabled st" "rs_min_priority st = 0"
    "\<forall>p \<in> set (offered evs). 0 \<le> pk_drop_priority p"
  shows "\<exists>st' more waiting'. queue_run evs st gone = Some (st', gone @ more) \<and> deque_repr (rs_packets st') waiting' \<and>
    more @ waiting' = waiting @ offered evs"
  using assms
proof (induction evs arbitrary: st waiting frames gone)
  case Nil
  then show ?case by auto
next
  case (Cons ev evs)
  have q: "queue_is st (waiting, 0)" "dbr_frames_are st frames"
    using Cons.prems(1,2,4) by (simp_all add: queue_is_def dbr_frames_are_def)
  show ?case
  proof (cases ev)
    case (Offer E p)
    obtain st1 f1 where e: "enqueue E p st = Some st1" "queue_is st1 (waiting @ [p], 0)" "dbr_frames_are st1 f1" "rs_dbr_enabled st1"
      using enqueue_dbr [OF q Cons.prems(3), of p E] Cons.prems(5) Offer by auto
    show ?thesis
      using Cons.IH [of st1 "waiting @ [p]" f1 gone] e Cons.prems(5) Offer by (simp add: queue_is_def dbr_frames_are_def)
  next
    case Take
    show ?thesis
    proof (cases waiting)
      case Nil
      then have "get_next_packet st = Some (None, st)"
        using size_repr [OF Cons.prems(1)] by (simp add: get_next_packet_def)
      then show ?thesis using Cons.IH [OF Cons.prems(1-4), of gone] Cons.prems(5) Take by simp
    next
      case (Cons x xs)
      obtain d where d: "pop_packet_front (rs_packets st) = Some (x, d)" "deque_repr d xs"
        using pop_packet_front_repr [of "rs_packets st" x xs] Cons.prems(1) Cons by auto
      then have "get_next_packet st = Some (Some x, st\<lparr>rs_packets := d\<rparr>)"
        using size_repr [OF Cons.prems(1)] Cons by (simp add: get_next_packet_def)
      then show ?thesis
        using Cons.IH [of "st\<lparr>rs_packets := d\<rparr>" xs frames "gone @ [x]"] d(2) Cons.prems Take Cons by auto
    qed
  qed
qed

section \<open>The range of the bitrate\<close>

text \<open>What a double product with a factor between 0 and 1, cut to a whole number, keeps.\<close>

definition scale_ok :: "rtmp_env \<Rightarrow> bool" where
  "scale_ok E \<longleftrightarrow> (\<forall>d r all. 0 \<le> d \<longrightarrow> 0 \<le> r \<longrightarrow> 0 < all \<longrightarrow> 0 \<le> re_scale E d r all \<and> re_scale E d r all \<le> d)"

definition dbr_ok :: "int list \<Rightarrow> rtmp_stream \<Rightarrow> bool" where
  "dbr_ok bs st \<longleftrightarrow> (\<forall>b \<in> set bs. 0 \<le> b) \<and> rs_dbr_table st = [replicate (length bs) 0, bs] \<and>
     rs_dbr_orig_bitrate st = sum_list bs \<and>
     min 50 (sum_list bs) \<le> rs_dbr_cur_bitrate st \<and> rs_dbr_cur_bitrate st \<le> sum_list bs \<and>
     (rs_dbr_prev_bitrate st = 0 \<or> min 50 (sum_list bs) \<le> rs_dbr_prev_bitrate st \<and> rs_dbr_prev_bitrate st \<le> sum_list bs) \<and>
     (rs_dbr_est_bitrate st = 0 \<or> 50 \<le> rs_dbr_est_bitrate st) \<and> 0 \<le> rs_dbr_inc_bitrate st \<and>
     list_all2 (\<lambda>e b. \<forall>v. e = Some v \<longrightarrow> 0 \<le> v \<and> v \<le> b) (rs_enc_bitrate st) bs \<and>
     (\<exists>fs. dbr_frames_are st fs \<and> rs_dbr_data_size st = of_nat (sum_list (map df_size fs)))"

lemma dbr_ok_rest: "dbr_ok bs (rs_rest st) = dbr_ok bs st"
  by (simp add: dbr_ok_def rs_rest_def dbr_frames_are_def)

lemma scaled: "scale_ok E \<Longrightarrow> 0 \<le> d \<Longrightarrow> 0 \<le> r \<Longrightarrow> 0 < all \<Longrightarrow> 0 \<le> re_scale E d r all \<and> re_scale E d r all \<le> d"
  by (simp add: scale_ok_def)

lemma sum_nonneg: "\<forall>b \<in> set bs. (0 :: int) \<le> b \<Longrightarrow> 0 \<le> sum_list bs"
  by (rule sum_list_nonneg) auto

lemma set_bitrate_ok:
  assumes "dbr_ok bs st" "scale_ok E"
  shows "dbr_ok bs (dbr_set_bitrate E st)"
proof -
  let ?Z = "replicate (length bs) (0 :: int)" and ?cur = "rs_dbr_cur_bitrate st"
  have a: "\<forall>b \<in> set bs. 0 \<le> b" "rs_dbr_table st = [?Z, bs]" "min 50 (sum_list bs) \<le> ?cur" "?cur \<le> sum_list bs"
    and l: "list_all2 (\<lambda>e b. \<forall>v. e = Some v \<longrightarrow> 0 \<le> v \<and> v \<le> b) (rs_enc_bitrate st) bs"
    using assms(1) by (simp_all add: dbr_ok_def)
  have cur: "0 \<le> ?cur" using a(3) sum_nonneg [OF a(1)] by simp
  have n: "length (rs_enc_bitrate st) = length bs" using l by (rule list_all2_lengthD)
  have d: "map2 (\<lambda>u b. u - b) bs ?Z = bs" "map2 (\<lambda>u b. u - b) bs bs = ?Z" by (simp_all add: list_eq_iff_nth_eq)
  have "list_all2 (\<lambda>e b. \<forall>v. e = Some v \<longrightarrow> 0 \<le> v \<and> v \<le> b) (rs_enc_bitrate (dbr_set_bitrate E st)) bs"
  proof (cases "?cur < sum_list bs")
    case True
    then have "dbr_base_column st = 0" using cur by (simp add: dbr_base_column_def a(2) sum_list_replicate)
    then have "rs_enc_bitrate (dbr_set_bitrate E st) = map2 (\<lambda>enc (b, d). map_option (\<lambda>_. b + re_scale E d ?cur
        (if sum_list bs < 1 then 1 else sum_list bs)) enc) (rs_enc_bitrate st) (zip ?Z bs)"
      by (simp add: dbr_set_bitrate_def Let_def a(2) d sum_list_replicate)
    then show ?thesis using n a(1) scaled [OF assms(2) _ cur, of _ "if sum_list bs < 1 then 1 else sum_list bs"]
      by (auto simp: list_all2_conv_all_nth)
  next
    case False
    then have eq: "?cur = sum_list bs" using a(4) by simp
    then have "dbr_base_column st = 1" using cur by (simp add: dbr_base_column_def a(2) sum_list_replicate)
    then have "rs_enc_bitrate (dbr_set_bitrate E st) = map2 (\<lambda>enc (b, d). map_option (\<lambda>_. b + re_scale E d 0 1) enc)
        (rs_enc_bitrate st) (zip bs ?Z)"
      by (simp add: dbr_set_bitrate_def Let_def a(2) d eq sum_list_replicate)
    moreover have "re_scale E 0 0 1 = 0" using scaled [OF assms(2), of 0 0 1] by simp
    ultimately show ?thesis using n a(1) by (auto simp: list_all2_conv_all_nth)
  qed
  then show ?thesis using assms(1)
    by (simp add: dbr_ok_def dbr_set_bitrate_def Let_def dbr_frames_are_def)
qed

lemma inc_bitrate_ok:
  "dbr_ok bs st \<Longrightarrow> dbr_ok bs (dbr_inc_bitrate E st)"
  using sum_nonneg [of bs] by (auto simp: dbr_ok_def dbr_inc_bitrate_def Let_def dbr_frames_are_def min_def split: if_splits)

lemma lowered_ok:
  assumes "dbr_ok bs st"
  shows "\<exists>c st'. dbr_bitrate_lowered E st = Some (c, st') \<and> dbr_ok bs st'"
proof -
  obtain fs where fs: "dbr_frames_are st fs" using assms by (auto simp: dbr_ok_def)
  obtain q where q: "deque_pop_front (rs_dbr_frames st) False (dq_size (rs_dbr_frames st)) = Some ([], q)" "deque_repr q []"
    using dq.pop_front [of "rs_dbr_frames st" fs "length fs" False] fs size_repr [of "rs_dbr_frames st" fs]
    by (auto simp: dbr_frames_are_def)
  show ?thesis
  proof (cases "rs_dbr_est_bitrate st \<noteq> 0 \<and> rs_dbr_est_bitrate st < rs_dbr_cur_bitrate st")
    case True
    let ?st = "st\<lparr>rs_dbr_data_size := 0, rs_dbr_frames := q\<rparr>"
    let ?est = "if c_div (rs_dbr_est_bitrate st) 100 * 100 < 50 then 50 else c_div (rs_dbr_est_bitrate st) 100 * 100"
    have est: "50 \<le> rs_dbr_est_bitrate st" using True assms by (simp add: dbr_ok_def)
    then have "c_div (rs_dbr_est_bitrate st) 100 * 100 \<le> rs_dbr_est_bitrate st" by (simp add: c_div_pos)
    then have e: "50 \<le> ?est" "?est < rs_dbr_cur_bitrate st" using est True by auto
    have "dbr_bitrate_lowered E st = Some (True, ?st\<lparr>rs_dbr_prev_bitrate := 0, rs_dbr_cur_bitrate := ?est,
        rs_dbr_inc_timeout := re_now E 2 + DBR_INC_TIMER\<rparr>)"
      using e unfolding dbr_bitrate_lowered_def Let_def
      by (simp only: True if_True q(1) simp_thms bind.bind_lunit case_prod_conv) simp
    moreover have "dbr_ok bs (?st\<lparr>rs_dbr_prev_bitrate := 0, rs_dbr_cur_bitrate := ?est,
        rs_dbr_inc_timeout := re_now E 2 + DBR_INC_TIMER\<rparr>)"
      using assms e q(2) by (auto simp: dbr_ok_def dbr_frames_are_def intro: exI [of _ "[]"])
    ultimately show ?thesis by blast
  next
    case False
    then show ?thesis unfolding dbr_bitrate_lowered_def Let_def
      by (simp only: if_False bind.bind_lunit case_prod_conv) (use assms in \<open>auto simp: dbr_ok_def dbr_frames_are_def\<close>)
  qed
qed

lemma check_bitrate_ok:
  assumes "queue_is st a" "dbr_ok bs st" "scale_ok E"
  shows "\<exists>st' a'. check_to_drop_frames E pf st = Some st' \<and> queue_is st' a' \<and> dbr_ok bs st'"
proof -
  obtain fs where fs: "dbr_frames_are st fs" using assms(2) by (auto simp: dbr_ok_def)
  obtain st' a' where c: "check_to_drop_frames E pf st = Some st'" "queue_is st' a'"
    using check_ok [OF assms(1) fs, of E pf] by blast
  let ?st = "dbr_check_timer E pf st"
  have "dbr_ok bs (st\<lparr>rs_dbr_inc_timeout := 0\<rparr>)" using assms(2) by (simp add: dbr_ok_def dbr_frames_are_def)
  then have t: "dbr_ok bs ?st" using assms(2,3) by (simp add: dbr_check_timer_def inc_bitrate_ok set_bitrate_ok)
  obtain l st2 where low: "dbr_bitrate_lowered E ?st = Some (l, st2)" "dbr_ok bs st2" using lowered_ok [OF t] by blast
  have dropped: "dbr_ok bs s" if "drop_frames h ?st = Some s" for h s
  proof -
    have "queue_is ?st a" using assms(1) by (simp add: queue_is_def dbr_check_timer_def)
    then have "rs_rest s = rs_rest ?st" using drop_frames_repr [of ?st "fst a" h] that by (auto simp: queue_is_def)
    then show ?thesis using t dbr_ok_rest by metis
  qed
  have "dbr_ok bs st'"
    using c(1) t low set_bitrate_ok [OF low(2) assms(3)] dropped
    by (auto simp: check_to_drop_frames_def Let_def bind_eq_Some_conv split: if_splits option.splits)
  then show ?thesis using c by blast
qed

lemma sem_same [simp]: "queue_is (st\<lparr>rs_sem := n\<rparr>) a = queue_is st a" "dbr_ok bs (st\<lparr>rs_sem := n\<rparr>) = dbr_ok bs st"
  by (simp_all add: queue_is_def dbr_ok_def dbr_frames_are_def)

lemma enqueue_bitrate_ok:
  assumes "queue_is st a" "dbr_ok bs st" "scale_ok E"
  shows "\<exists>st' a'. enqueue E p st = Some st' \<and> queue_is st' a' \<and> dbr_ok bs st'"
proof -
  have add: "\<exists>st' a'. add_packet p s = Some (True, st') \<and> queue_is st' a' \<and> dbr_ok bs st'"
    if q: "queue_is s c" "dbr_ok bs s" for s c
  proof -
    obtain d where "deque_push_back (rs_packets s) [p] = Some d" "deque_repr d (fst c @ [p])"
      using dq.push_one [of "rs_packets s" "fst c" p] q(1) by (auto simp: queue_is_def)
    then show ?thesis using q
      by (intro exI [of _ "s\<lparr>rs_packets := d\<rparr>"] exI [of _ "(fst c @ [p], snd c)"])
        (simp add: add_packet_def queue_is_def dbr_ok_def dbr_frames_are_def)
  qed
  show ?thesis
  proof (cases "pk_type p")
    case OBS_ENCODER_AUDIO
    obtain s' a' where "add_packet p st = Some (True, s')" "queue_is s' a'" "dbr_ok bs s'" using add [OF assms(1,2)] by blast
    then show ?thesis using OBS_ENCODER_AUDIO
      by (intro exI [of _ "s'\<lparr>rs_sem := rs_sem s' + 1\<rparr>"] exI [of _ a']) (simp add: enqueue_def)
  next
    case OBS_ENCODER_VIDEO
    obtain st1 a1 where c1: "check_to_drop_frames E False st = Some st1" "queue_is st1 a1" "dbr_ok bs st1"
      using check_bitrate_ok [OF assms] by blast
    obtain st2 a2 where c2: "check_to_drop_frames E True st1 = Some st2" "queue_is st2 a2" "dbr_ok bs st2"
      using check_bitrate_ok [OF c1(2,3) assms(3)] by blast
    show ?thesis
    proof (cases "pk_drop_priority p < rs_min_priority st2")
      case True
      then show ?thesis using OBS_ENCODER_VIDEO c1(1) c2
        by (intro exI [of _ "st2\<lparr>rs_dropped_frames := rs_dropped_frames st2 + 1\<rparr>"] exI [of _ a2])
          (simp add: enqueue_def add_video_packet_def queue_is_def dbr_ok_def dbr_frames_are_def)
    next
      case False
      let ?s = "st2\<lparr>rs_min_priority := 0, rs_last_dts_usec := pk_dts_usec p\<rparr>"
      have "queue_is ?s (fst a2, 0)" "dbr_ok bs ?s" using c2(2,3) by (simp_all add: queue_is_def dbr_ok_def dbr_frames_are_def)
      from add [OF this] obtain s' a' where "add_packet p ?s = Some (True, s')"
        "queue_is s' a'" "dbr_ok bs s'" by blast
      then show ?thesis using OBS_ENCODER_VIDEO c1(1) c2(1) False
        by (intro exI [of _ "s'\<lparr>rs_sem := rs_sem s' + 1\<rparr>"] exI [of _ a']) (simp add: enqueue_def add_video_packet_def)
    qed
  qed
qed

text \<open>The window of frames: the sum that is kept with it stays its sum.\<close>

lemma add_frame_result:
  assumes fs: "deque_repr (rs_dbr_frames st) fs"
  shows "\<exists>q size est fs'. dbr_add_frame f st = Some (st\<lparr>rs_dbr_frames := q, rs_dbr_data_size := size, rs_dbr_est_bitrate := est\<rparr>) \<and>
    deque_repr q fs' \<and> (est = 0 \<or> 50 \<le> est) \<and>
    (rs_dbr_data_size st = of_nat (sum_list (map df_size fs)) \<longrightarrow> size = of_nat (sum_list (map df_size fs')))"
proof -
  obtain q where q: "deque_push_back (rs_dbr_frames st) [f] = Some q" "deque_repr q (fs @ [f])"
    using dq.push_one [OF fs, of f] by auto
  obtain front rest where r: "fs @ [f] = front # rest" by (cases "fs @ [f]") auto
  have peek: "deque_peek_front q True 1 = Some [Some front]" using dq.peek_one [of q front rest] q(2) r by simp
  obtain q' where pop: "deque_pop_front q False 1 = Some ([], q')" "deque_repr q' rest"
    using dq.pop_one [of q front rest False] q(2) r by auto
  have all: "rs_dbr_data_size st + of_nat (df_size f) = of_nat (sum_list (map df_size (front # rest)))"
    if "rs_dbr_data_size st = of_nat (sum_list (map df_size fs))"
    unfolding r [symmetric] that by simp
  let ?dur = "unat (df_send_end f - df_send_beg front) div 1000000"
  define q2 s2 where "q2 = (if ?dur \<ge> MAX_ESTIMATE_DURATION_MS then q' else q)"
    and "s2 = (if ?dur \<ge> MAX_ESTIMATE_DURATION_MS then rs_dbr_data_size st + of_nat (df_size f) - of_nat (df_size front)
      else rs_dbr_data_size st + of_nat (df_size f) :: u64)"
  have w: "\<exists>fs'. deque_repr q2 fs' \<and>
      (rs_dbr_data_size st = of_nat (sum_list (map df_size fs)) \<longrightarrow> s2 = of_nat (sum_list (map df_size fs')))"
  proof (cases "?dur \<ge> MAX_ESTIMATE_DURATION_MS")
    case True
    then show ?thesis using pop(2) all by (intro exI [of _ rest]) (simp add: q2_def s2_def)
  next
    case False
    then show ?thesis using q(2) all r by (intro exI [of _ "front # rest"]) (simp add: q2_def s2_def)
  qed
  have bind: "(if ?dur \<ge> MAX_ESTIMATE_DURATION_MS
      then map_option (\<lambda>(_, q). (q, rs_dbr_data_size st + of_nat (df_size f) - of_nat (df_size front))) (deque_pop_front q False 1)
      else Some (q, rs_dbr_data_size st + of_nat (df_size f))) = Some (q2, s2)"
    by (simp add: q2_def s2_def pop(1) [unfolded One_nat_def])
  obtain est where "dbr_add_frame f st = Some (st\<lparr>rs_dbr_frames := q2, rs_dbr_data_size := s2, rs_dbr_est_bitrate := est\<rparr>)"
      "est = 0 \<or> 50 \<le> est"
    unfolding dbr_add_frame_def q(1) peek list.sel Let_def bind.bind_lunit bind case_prod_conv by auto
  then show ?thesis using w by blast
qed

lemma add_frame_ok:
  assumes "dbr_ok bs st"
  shows "\<exists>st'. dbr_add_frame f st = Some st' \<and> dbr_ok bs st' \<and> rs_packets st' = rs_packets st \<and> rs_min_priority st' = rs_min_priority st"
proof -
  obtain fs where fs: "deque_repr (rs_dbr_frames st) fs" "rs_dbr_data_size st = of_nat (sum_list (map df_size fs))"
    using assms by (auto simp: dbr_ok_def dbr_frames_are_def)
  obtain q size est fs' where r: "dbr_add_frame f st = Some (st\<lparr>rs_dbr_frames := q, rs_dbr_data_size := size, rs_dbr_est_bitrate := est\<rparr>)"
    "deque_repr q fs'" "est = 0 \<or> 50 \<le> est" "size = of_nat (sum_list (map df_size fs'))"
    using add_frame_result [OF fs(1), of f] fs(2) by blast
  then show ?thesis using assms by (simp add: dbr_ok_def dbr_frames_are_def) blast
qed

section \<open>Sessions\<close>

text \<open>The output gets a packet, or a frame has been sent.\<close>

datatype bitrate_event = Got rtmp_env encoder_packet | Frame_Sent dbr_frame

fun bitrate_run :: "bitrate_event list \<Rightarrow> rtmp_stream \<Rightarrow> rtmp_stream option" where
  "bitrate_run [] st = Some st"
| "bitrate_run (Got E p # evs) st = Option.bind (enqueue E p st) (bitrate_run evs)"
| "bitrate_run (Frame_Sent f # evs) st = Option.bind (dbr_add_frame f st) (bitrate_run evs)"

lemma bitrate_run_ok:
  "queue_is st a \<Longrightarrow> dbr_ok bs st \<Longrightarrow> \<forall>E p. Got E p \<in> set evs \<longrightarrow> scale_ok E \<Longrightarrow>
    \<exists>st'. bitrate_run evs st = Some st' \<and> dbr_ok bs st'"
proof (induction evs arbitrary: st a)
  case (Cons ev evs)
  show ?case
  proof (cases ev)
    case (Got E p)
    obtain st1 a1 where "enqueue E p st = Some st1" "queue_is st1 a1" "dbr_ok bs st1"
      using enqueue_bitrate_ok [OF Cons.prems(1,2), of E p] Cons.prems(3) Got by auto
    moreover have "\<forall>E p. Got E p \<in> set evs \<longrightarrow> scale_ok E" using Cons.prems(3) by auto
    ultimately show ?thesis using Cons.IH Got by simp
  next
    case (Frame_Sent f)
    obtain st1 where s: "dbr_add_frame f st = Some st1" "dbr_ok bs st1" "rs_packets st1 = rs_packets st"
      "rs_min_priority st1 = rs_min_priority st" using add_frame_ok [OF Cons.prems(2)] by blast
    then have "queue_is st1 a" using Cons.prems(1) by (simp add: queue_is_def)
    moreover have "\<forall>E p. Got E p \<in> set evs \<longrightarrow> scale_ok E" using Cons.prems(3) by auto
    ultimately show ?thesis using Cons.IH s(1,2) Frame_Sent by simp
  qed
qed simp

definition configured :: "rtmp_video_encoder option list \<Rightarrow> int list" where
  "configured vencs = map (\<lambda>e. case e of None \<Rightarrow> 0 | Some enc \<Rightarrow> ve_bitrate enc) vencs"

lemma first_connect:
  assumes "se_service se" "se_table se = None" "length vencs = MAX_OUTPUT_VIDEO_ENCODERS"
    "\<forall>e. Some e \<in> set vencs \<longrightarrow> 0 \<le> ve_bitrate e"
  shows "\<exists>st. init_connect se aencs vencs rtmp_stream_create = Some (True, st) \<and> queue_is st ([], 0) \<and> dbr_ok (configured vencs) st"
proof -
  have "deque_repr (deque_init :: encoder_packet deque) []" "deque_repr (deque_init :: dbr_frame deque) []" by (rule deque_repr_init)+
  moreover have nn: "\<forall>b \<in> set (configured vencs). 0 \<le> b"
    using assms(4) by (auto simp: configured_def split: option.splits)
  moreover have "free_packets rtmp_stream_create = Some rtmp_stream_create"
    by (simp add: free_packets_def free_packets_loop.simps rtmp_stream_create_def deque_init_def)
  moreover have "list_all2 (\<lambda>e b. \<forall>v. e = Some v \<longrightarrow> 0 \<le> v \<and> v \<le> b) (map (map_option ve_bitrate) vencs) (configured vencs)"
    unfolding configured_def list_all2_map1 list_all2_map2
    by (rule list.rel_refl_strong) (use assms(4) in \<open>auto split: option.splits\<close>)
  moreover have "length (configured vencs) = MAX_OUTPUT_VIDEO_ENCODERS" using assms(3) by (simp add: configured_def)
  moreover have "0 \<le> c_div (sum_list (configured vencs)) 10"
    using sum_nonneg [OF nn] by (simp add: c_div_pos pos_imp_zdiv_nonneg_iff)
  ultimately show ?thesis using assms(1,2)
    by (simp add: init_connect_def Let_def configured_def [symmetric] queue_is_def dbr_ok_def dbr_frames_are_def
        rtmp_stream_create_def deque_free_def) (auto intro: exI [of _ "[]"])
qed


definition sample_settings :: rtmp_settings where
  "sample_settings = \<lparr>se_service = True, se_drop_b = 700, se_drop_p = 900, se_max_shutdown_time_sec = 30,
     se_dyn_bitrate = True, se_delay = 0, se_table = None\<rparr>"

definition sample_encoders :: "int \<Rightarrow> rtmp_video_encoder option list" where
  "sample_encoders b = Some \<lparr>ve_codec = ''h264'', ve_bitrate = b, ve_dyn_bitrate_cap = True, ve_multitrack_cap = False\<rparr> #
     replicate 9 None"

lemma sample_scale: "scale_ok sample_env"
proof -
  have "0 \<le> d * min r all div all \<and> d * min r all div all \<le> d" if "0 \<le> d" "0 \<le> r" "0 < all" for d r all :: int
  proof -
    have "d * min r all div all \<le> d * all div all" using that by (intro zdiv_mono1 mult_left_mono) auto
    then show ?thesis using that by (simp add: pos_imp_zdiv_nonneg_iff)
  qed
  then show ?thesis by (simp add: scale_ok_def sample_env_def)
qed


text \<open>Connecting again does not begin anew: the rows of the default table of the last session stay in front of the new
  ones, and its previous bitrate is taken at the first congestion, be it above all that is now set.\<close>

theorem second_session_inherits:
  assumes "init_connect se aencs vencs st = Some (True, st1)" "se_table se = None"
    "rs_dbr_prev_bitrate st \<noteq> 0" "rs_dbr_prev_bitrate st \<noteq> sum_list (configured vencs)"
  shows "rs_dbr_table st1 = rs_dbr_table st @ [replicate MAX_OUTPUT_VIDEO_ENCODERS 0, configured vencs] \<and>
    (\<exists>st2. dbr_bitrate_lowered E st1 = Some (True, st2) \<and> rs_dbr_cur_bitrate st2 = rs_dbr_prev_bitrate st)"
proof -
  obtain q where q: "free_packets st = Some (st\<lparr>rs_packets := q\<rparr>)"
    using assms(1) by (auto simp: init_connect_def bind_eq_Some_conv free_packets_def)
  have "rs_dbr_table st1 = rs_dbr_table st @ [replicate MAX_OUTPUT_VIDEO_ENCODERS 0, configured vencs]"
    "rs_dbr_est_bitrate st1 = 0" "rs_dbr_prev_bitrate st1 = rs_dbr_prev_bitrate st"
    "rs_dbr_cur_bitrate st1 = sum_list (configured vencs)"
    using assms(1,2) by (auto simp: init_connect_def q Let_def configured_def split: if_splits)
  then show ?thesis using assms(3,4) by (simp add: dbr_bitrate_lowered_def Let_def)
qed

theorem second_session_inherits_witness:
  "\<exists>st1 st2. init_connect sample_settings (replicate 6 None) (sample_encoders 1000) (rtmp_stream_create\<lparr>rs_dbr_prev_bitrate := 4500\<rparr>) = Some (True, st1) \<and>
    rs_dbr_orig_bitrate st1 = 1000 \<and> dbr_bitrate_lowered sample_env st1 = Some (True, st2) \<and> rs_dbr_cur_bitrate st2 = 4500"
proof -
  have s: "sum_list (configured (sample_encoders 1000)) = 1000" by (simp add: configured_def sample_encoders_def sum_list_replicate)
  obtain st1 where i: "init_connect sample_settings (replicate 6 None) (sample_encoders 1000) (rtmp_stream_create\<lparr>rs_dbr_prev_bitrate := 4500\<rparr>) = Some (True, st1)"
    "rs_dbr_orig_bitrate st1 = 1000"
    using s by (simp add: init_connect_def free_packets_def free_packets_loop.simps num_buffered_packets_def rtmp_stream_create_def deque_init_def
        sample_settings_def Let_def configured_def)
  from second_session_inherits [OF i(1), of sample_env] s i show ?thesis
    by (auto simp: sample_settings_def rtmp_stream_create_def)
qed

text \<open>If even the first column of the table exceeds the bitrate, the last one is taken.\<close>

lemma lowest_level_exceeded: "rs_dbr_table st = point # points \<Longrightarrow> rs_dbr_cur_bitrate st < sum_list point \<Longrightarrow>
    dbr_base_column st = length points"
  by (simp add: dbr_base_column_def)

theorem dynamic_bitrate_drops_nothing_witness:
  "\<exists>st' more waiting. queue_run [Offer sample_env (sample_flv OBS_ENCODER_VIDEO 3 3), Take, Offer sample_env (sample_flv OBS_ENCODER_AUDIO 3 3)]
      (rtmp_stream_create\<lparr>rs_dbr_enabled := True\<rparr>) [] = Some (st', [] @ more) \<and> deque_repr (rs_packets st') waiting \<and>
    more @ waiting = [sample_flv OBS_ENCODER_VIDEO 3 3, sample_flv OBS_ENCODER_AUDIO 3 3]"
  using dynamic_bitrate_drops_nothing [of "rtmp_stream_create\<lparr>rs_dbr_enabled := True\<rparr>" "[]" "[]"
    "[Offer sample_env (sample_flv OBS_ENCODER_VIDEO 3 3), Take, Offer sample_env (sample_flv OBS_ENCODER_AUDIO 3 3)]" "[]"]
  by (simp add: rtmp_stream_create_def deque_repr_init sample_flv_def)

end
