(* ===== verification/Video_Io.thy ===== *)
theory Video_Io
  imports Pause
begin

text \<open>
  The raw video output: \<open>libobs/media-io/video-io.c\<close>, the cache of frames between the graphics thread, which fills
  it, and the video thread, which gives each frame to the inputs, as often as it counts; and \<open>video_sleep\<close> of
  \<open>libobs/obs-video.c\<close>, from which the counts come. The parts of the functions between locks are single steps, so that
  threads can be interleaved between them. What scalers do is an argument, the pixels are left out. A video output
  stands for its root, whose cache the ones made for a frame rate divisor share.
\<close>

section \<open>Formats\<close>

datatype video_colorspace =
    VIDEO_CS_DEFAULT | VIDEO_CS_601 | VIDEO_CS_709 | VIDEO_CS_SRGB | VIDEO_CS_2100_PQ | VIDEO_CS_2100_HLG

datatype video_range_type = VIDEO_RANGE_DEFAULT | VIDEO_RANGE_PARTIAL | VIDEO_RANGE_FULL

datatype video_format =
    VIDEO_FORMAT_NONE | VIDEO_FORMAT_I420 | VIDEO_FORMAT_NV12 | VIDEO_FORMAT_YVYU | VIDEO_FORMAT_YUY2 | VIDEO_FORMAT_UYVY
  | VIDEO_FORMAT_RGBA | VIDEO_FORMAT_BGRA | VIDEO_FORMAT_BGRX | VIDEO_FORMAT_Y800 | VIDEO_FORMAT_I444 | VIDEO_FORMAT_BGR3
  | VIDEO_FORMAT_I422 | VIDEO_FORMAT_I40A | VIDEO_FORMAT_I42A | VIDEO_FORMAT_YUVA | VIDEO_FORMAT_AYUV | VIDEO_FORMAT_I010
  | VIDEO_FORMAT_P010 | VIDEO_FORMAT_I210 | VIDEO_FORMAT_I412 | VIDEO_FORMAT_YA2L | VIDEO_FORMAT_P216 | VIDEO_FORMAT_P416
  | VIDEO_FORMAT_V210 | VIDEO_FORMAT_R10L

record video_scale_info =
  vs_format :: video_format
  vs_width :: u32
  vs_height :: u32
  vs_range :: video_range_type
  vs_colorspace :: video_colorspace

definition match_range :: "video_range_type \<Rightarrow> video_range_type \<Rightarrow> bool" where
  "match_range a b \<longleftrightarrow> (a = VIDEO_RANGE_FULL) = (b = VIDEO_RANGE_FULL)"

definition collapse_space :: "video_colorspace \<Rightarrow> video_colorspace" where
  "collapse_space cs =
     (case cs of VIDEO_CS_SRGB \<Rightarrow> VIDEO_CS_709 | VIDEO_CS_2100_HLG \<Rightarrow> VIDEO_CS_2100_PQ | cs \<Rightarrow> cs)"

definition match_space :: "video_colorspace \<Rightarrow> video_colorspace \<Rightarrow> bool" where
  "match_space a b \<longleftrightarrow> a = VIDEO_CS_DEFAULT \<or> b = VIDEO_CS_DEFAULT \<or> collapse_space a = collapse_space b"

section \<open>State\<close>

definition MAX_CONVERT_BUFFERS :: nat where "MAX_CONVERT_BUFFERS = 3"
definition MAX_CACHE_SIZE :: nat where "MAX_CACHE_SIZE = 16"

record cached_frame_info =
  cf_timestamp :: u64
  cf_skipped :: int
  cf_count :: int

text \<open>\<open>vi_key\<close> is the callback with its parameter, \<open>vi_scaler\<close> tells whether the input has a scaler.\<close>

record video_input =
  vi_key :: nat
  vi_scaler :: bool
  vi_cur_frame :: nat
  vi_divisor :: u32
  vi_counter :: u32

text \<open>Where the video thread is: at \<open>os_sem_wait\<close>, at the test of the inner loop, and before each of the three locked
  parts of \<open>video_output_cur_frame\<close>, with the frame it has taken.\<close>

datatype video_place = Waiting | Testing | Taking | Giving nat | Closing nat | Exited

record video_output =
  vo_info :: video_scale_info
  vo_cache_size :: nat
  vo_place :: video_place
  vo_stop :: bool
  vo_sem :: nat
  vo_frame_time :: u64
  vo_skipped_frames :: int
  vo_total_frames :: int
  vo_inputs :: "video_input list"
  vo_available_frames :: nat
  vo_first_added :: nat
  vo_last_added :: nat
  vo_cache :: "cached_frame_info list"
  vo_raw_active :: bool
  vo_gpu_refs :: int

record video_output_info =
  voi_info :: video_scale_info
  voi_fps_num :: u32
  voi_fps_den :: u32
  voi_cache_size :: nat

definition valid_video_params :: "video_output_info \<Rightarrow> bool" where
  "valid_video_params info \<longleftrightarrow>
     vs_height (voi_info info) \<noteq> 0 \<and> vs_width (voi_info info) \<noteq> 0 \<and> voi_fps_den info \<noteq> 0 \<and> voi_fps_num info \<noteq> 0"

text \<open>\<^term>\<open>None\<close> is \<open>VIDEO_OUTPUT_INVALIDPARAM\<close>.\<close>

definition video_output_open :: "video_output_info \<Rightarrow> video_output option" where
  "video_output_open info =
     (if \<not> valid_video_params info then None
      else
        let cache_size = min (voi_cache_size info) MAX_CACHE_SIZE
        in Some \<lparr>vo_info = voi_info info, vo_cache_size = cache_size, vo_place = Waiting, vo_stop = False, vo_sem = 0,
             vo_frame_time = util_mul_div64 1000000000 (ucast (voi_fps_den info)) (ucast (voi_fps_num info)),
             vo_skipped_frames = 0, vo_total_frames = 0, vo_inputs = [], vo_available_frames = cache_size,
             vo_first_added = 0, vo_last_added = 0,
             vo_cache = replicate MAX_CACHE_SIZE \<lparr>cf_timestamp = 0, cf_skipped = 0, cf_count = 0\<rparr>,
             vo_raw_active = False, vo_gpu_refs = 0\<rparr>)"

section \<open>Inputs\<close>

definition needs_scaler :: "video_scale_info \<Rightarrow> video_output \<Rightarrow> bool" where
  "needs_scaler conv vo \<longleftrightarrow>
     vs_width conv \<noteq> vs_width (vo_info vo) \<or> vs_height conv \<noteq> vs_height (vo_info vo) \<or>
     vs_format conv \<noteq> vs_format (vo_info vo) \<or> \<not> match_range (vs_range conv) (vs_range (vo_info vo)) \<or>
     \<not> match_space (vs_colorspace conv) (vs_colorspace (vo_info vo))"

text \<open>\<open>created\<close> is whether \<open>video_scaler_create\<close> succeeds.\<close>

definition video_input_init :: "(video_scale_info \<Rightarrow> bool) \<Rightarrow> video_scale_info \<Rightarrow> video_output \<Rightarrow> video_input \<Rightarrow> video_input option" where
  "video_input_init created conv vo input =
     (if needs_scaler conv vo then (if created conv then Some (input\<lparr>vi_scaler := True\<rparr>) else None) else Some input)"

definition video_get_input_idx :: "video_output \<Rightarrow> nat \<Rightarrow> nat option" where
  "video_get_input_idx vo key = first_idx (\<lambda>i. vi_key i = key) (vo_inputs vo)"

definition reset_frames :: "video_output \<Rightarrow> video_output" where
  "reset_frames vo = vo\<lparr>vo_skipped_frames := 0, vo_total_frames := 0\<rparr>"

definition video_output_connect2 ::
    "(video_scale_info \<Rightarrow> bool) \<Rightarrow> video_scale_info option \<Rightarrow> u32 \<Rightarrow> nat \<Rightarrow> video_output \<Rightarrow> bool \<times> video_output" where
  "video_output_connect2 created conversion divisor key vo =
     (if divisor = 0 \<or> video_get_input_idx vo key \<noteq> None then (False, vo)
      else
        let conv = (case conversion of Some c \<Rightarrow> c | None \<Rightarrow> vo_info vo);
            conv = (if vs_width conv = 0 then conv\<lparr>vs_width := vs_width (vo_info vo)\<rparr> else conv);
            conv = (if vs_height conv = 0 then conv\<lparr>vs_height := vs_height (vo_info vo)\<rparr> else conv)
        in case video_input_init created conv vo
              \<lparr>vi_key = key, vi_scaler = False, vi_cur_frame = 0, vi_divisor = divisor, vi_counter = 0\<rparr> of
             None \<Rightarrow> (False, vo)
           | Some input \<Rightarrow>
               let vo = (if vo_inputs vo = []
                         then (if vo_gpu_refs vo = 0 then reset_frames vo else vo)\<lparr>vo_raw_active := True\<rparr> else vo)
               in (True, vo\<lparr>vo_inputs := vo_inputs vo @ [input]\<rparr>))"

definition video_output_disconnect2 :: "nat \<Rightarrow> video_output \<Rightarrow> bool \<times> video_output" where
  "video_output_disconnect2 key vo =
     (case video_get_input_idx vo key of
        None \<Rightarrow> (False, vo)
      | Some idx \<Rightarrow>
          let inputs = take idx (vo_inputs vo) @ drop (idx + 1) (vo_inputs vo)
          in (True, vo\<lparr>vo_inputs := inputs, vo_raw_active := (vo_raw_active vo \<and> inputs \<noteq> [])\<rparr>))"

section \<open>Texture encoders\<close>

definition video_output_inc_texture_encoders :: "video_output \<Rightarrow> video_output" where
  "video_output_inc_texture_encoders vo =
     (let vo = vo\<lparr>vo_gpu_refs := vo_gpu_refs vo + 1\<rparr>
      in if vo_gpu_refs vo = 1 \<and> \<not> vo_raw_active vo then reset_frames vo else vo)"

definition video_output_dec_texture_encoders :: "video_output \<Rightarrow> video_output" where
  "video_output_dec_texture_encoders vo = vo\<lparr>vo_gpu_refs := vo_gpu_refs vo - 1\<rparr>"

definition video_output_inc_texture_frames :: "video_output \<Rightarrow> video_output" where
  "video_output_inc_texture_frames vo = vo\<lparr>vo_total_frames := vo_total_frames vo + 1\<rparr>"

definition video_output_inc_texture_skipped_frames :: "video_output \<Rightarrow> video_output" where
  "video_output_inc_texture_skipped_frames vo = vo\<lparr>vo_skipped_frames := vo_skipped_frames vo + 1\<rparr>"

text \<open>The description of an output at a fraction of the frame rate, whose operations are those of its root.\<close>

definition video_output_create_with_frame_rate_divisor :: "u32 \<Rightarrow> video_output_info \<Rightarrow> video_output_info option" where
  "video_output_create_with_frame_rate_divisor divisor info =
     (if divisor = 0 \<or> divisor = 1 then None else Some (info\<lparr>voi_fps_den := voi_fps_den info * divisor\<rparr>))"

section \<open>Filling the cache\<close>

definition video_output_lock_frame :: "int \<Rightarrow> u64 \<Rightarrow> video_output \<Rightarrow> (bool \<times> video_output) option" where
  "video_output_lock_frame n timestamp vo =
     (if vo_available_frames vo = 0 then
        (if vo_last_added vo < length (vo_cache vo)
         then let cfi = vo_cache vo ! vo_last_added vo
           in Some (False, vo\<lparr>vo_cache := (vo_cache vo)[vo_last_added vo :=
                cfi\<lparr>cf_count := cf_count cfi + n, cf_skipped := cf_skipped cfi + n\<rparr>]\<rparr>)
         else None)
      else
        let last = (if vo_available_frames vo \<noteq> vo_cache_size vo
                    then (if vo_last_added vo + 1 = vo_cache_size vo then 0 else vo_last_added vo + 1) else vo_last_added vo)
        in if last < length (vo_cache vo)
           then Some (True, vo\<lparr>vo_last_added := last, vo_cache := (vo_cache vo)[last :=
             \<lparr>cf_timestamp = timestamp, cf_skipped = 0, cf_count = n\<rparr>]\<rparr>)
           else None)"

text \<open>The size below zero would wrap: \<^term>\<open>None\<close>.\<close>

definition video_output_unlock_frame :: "video_output \<Rightarrow> video_output option" where
  "video_output_unlock_frame vo =
     (if vo_available_frames vo = 0 then None
      else Some (vo\<lparr>vo_available_frames := vo_available_frames vo - 1, vo_sem := vo_sem vo + 1\<rparr>))"

definition video_output_stop :: "video_output \<Rightarrow> video_output" where
  "video_output_stop vo = (if \<not> vo_stop vo then vo\<lparr>vo_stop := True, vo_sem := vo_sem vo + 1\<rparr> else vo)"

section \<open>The video thread\<close>

text \<open>\<open>scales\<close> is whether scaling into the buffer with a given number succeeds for an input.\<close>

definition scale_video_output :: "(nat \<Rightarrow> nat \<Rightarrow> bool) \<Rightarrow> video_input \<Rightarrow> bool \<times> video_input" where
  "scale_video_output scales input =
     (if vi_scaler input then
        let cur = (if vi_cur_frame input + 1 = MAX_CONVERT_BUFFERS then 0 else vi_cur_frame input + 1)
        in (scales (vi_key input) cur, input\<lparr>vi_cur_frame := cur\<rparr>)
      else (True, input))"

text \<open>An input at a frame: whether its callback is called.\<close>

definition input_frame :: "(nat \<Rightarrow> nat \<Rightarrow> bool) \<Rightarrow> video_input \<Rightarrow> bool \<times> video_input" where
  "input_frame scales input =
     (let skip = vi_counter input;
          counter = vi_counter input + 1;
          input = input\<lparr>vi_counter := (if counter = vi_divisor input then 0 else counter)\<rparr>
      in if skip \<noteq> 0 then (False, input) else scale_video_output scales input)"

definition give_frame :: "(nat \<Rightarrow> nat \<Rightarrow> bool) \<Rightarrow> video_output \<Rightarrow> nat list \<times> video_output" where
  "give_frame scales vo =
     (let r = map (input_frame scales) (vo_inputs vo)
      in (map (\<lambda>(_, i). vi_key i) (filter fst r), vo\<lparr>vo_inputs := map snd r\<rparr>))"

text \<open>The last part of \<open>video_output_cur_frame\<close>: whether the frame is complete.\<close>

definition close_frame :: "nat \<Rightarrow> video_output \<Rightarrow> (bool \<times> video_output) option" where
  "close_frame idx vo =
     (if idx \<ge> length (vo_cache vo) then None
      else
        let cfi = vo_cache vo ! idx;
            cfi = cfi\<lparr>cf_timestamp := cf_timestamp cfi + vo_frame_time vo, cf_count := cf_count cfi - 1\<rparr>;
            complete = (cf_count cfi = 0);
            skipped = (cf_skipped cfi > 0)
        in if complete then
             let first = (if vo_first_added vo + 1 = vo_cache_size vo then 0 else vo_first_added vo + 1);
                 available = vo_available_frames vo + 1
             in Some (True, vo\<lparr>vo_cache := (vo_cache vo)[idx := cfi], vo_first_added := first, vo_available_frames := available,
                  vo_last_added := (if available = vo_cache_size vo then first else vo_last_added vo)\<rparr>)
           else if skipped then
             Some (False, vo\<lparr>vo_cache := (vo_cache vo)[idx := cfi\<lparr>cf_skipped := cf_skipped cfi - 1\<rparr>],
               vo_skipped_frames := vo_skipped_frames vo + 1\<rparr>)
           else Some (False, vo\<lparr>vo_cache := (vo_cache vo)[idx := cfi]\<rparr>))"

definition count_frame :: "video_output \<Rightarrow> video_output" where
  "count_frame vo = vo\<lparr>vo_total_frames := vo_total_frames vo + 1\<rparr>"

text \<open>The next step of \<open>video_thread\<close>, with the callbacks it makes: the timestamp and those who get it. At the semaphore
  without a count it stays where it is. Each frame is counted with the step that ends it.\<close>

definition video_thread_step :: "(nat \<Rightarrow> nat \<Rightarrow> bool) \<Rightarrow> video_output \<Rightarrow> ((u64 \<times> nat list) list \<times> video_output) option" where
  "video_thread_step scales vo =
     (case vo_place vo of
        Waiting \<Rightarrow>
          Some ([], if vo_sem vo = 0 then vo
                    else vo\<lparr>vo_sem := vo_sem vo - 1, vo_place := (if vo_stop vo then Exited else Testing)\<rparr>)
      | Testing \<Rightarrow> Some ([], if vo_stop vo then count_frame (vo\<lparr>vo_place := Waiting\<rparr>) else vo\<lparr>vo_place := Taking\<rparr>)
      | Taking \<Rightarrow> Some ([], vo\<lparr>vo_place := Giving (vo_first_added vo)\<rparr>)
      | Giving idx \<Rightarrow>
          (if idx \<ge> length (vo_cache vo) then None
           else case give_frame scales vo of
             (keys, vo') \<Rightarrow> Some ([(cf_timestamp (vo_cache vo ! idx), keys)], vo'\<lparr>vo_place := Closing idx\<rparr>))
      | Closing idx \<Rightarrow> do {
          (complete, vo) \<leftarrow> close_frame idx vo;
          Some ([], count_frame (vo\<lparr>vo_place := (if complete then Waiting else Testing)\<rparr>))
        }
      | Exited \<Rightarrow> Some ([], vo))"

section \<open>The graphics thread\<close>

text \<open>\<open>video_sleep\<close>: how many frames the time that has passed counts for, and the time of the next one. \<open>slept\<close> is what
  \<open>os_sleepto_ns\<close> returns, \<open>now\<close> the clock. A zero interval is a division by zero.\<close>

definition video_sleep :: "bool \<Rightarrow> u64 \<Rightarrow> u64 \<Rightarrow> u64 \<Rightarrow> (int \<times> u64) option" where
  "video_sleep slept now cur_time interval_ns =
     (if slept then Some (1, cur_time + interval_ns)
      else if interval_ns = 0 then None
      else
        let udiff = now - cur_time;
            clamped = (if sint udiff > sint interval_ns then udiff else interval_ns);
            n = sint (ucast (clamped div interval_ns) :: u32)
        in Some (n, cur_time + interval_ns * word_of_int n))"

end
