(* ===== verification/Rtmp_Send.thy ===== *)
theory Rtmp_Send
  imports Rtmp_Queue Video_Io
begin

text \<open>
  The send thread of the RTMP output (\<open>plugins/obs-outputs/rtmp-stream.c\<close>): headers, frames and footers as tags given to
  \<open>RTMP_Write\<close>, the loop round by round, its end, and the stop request. The socket is what its calls answer. The
  socket loop of Windows (\<open>new_socket_loop\<close>) is off, as it is elsewhere.
\<close>

section \<open>Surroundings\<close>

record send_video =
  sv_video :: bool
  sv_colorspace :: video_colorspace
  sv_extra_data :: "byte list option"

text \<open>The encoders of the output with their codec data, the format of the video, the parser of H.265 headers
  (\<open>rtmp-hevc.c\<close>, not modelled), and what the socket answers at the read before and at the write with a given number.\<close>

record send_env =
  sd_audio :: "nat \<Rightarrow> byte list option option"
  sd_video :: "nat \<Rightarrow> send_video option"
  sd_format :: video_format
  sd_colorspace :: video_colorspace
  sd_peak_level :: int
  sd_al :: nat
  sd_hevc_header :: "byte list \<Rightarrow> byte list"
  sd_read :: "nat \<Rightarrow> bool"
  sd_write :: "nat \<Rightarrow> int"
  sd_time :: u64
  sd_send_beg :: u64
  sd_send_end :: u64

definition header_packet :: "obs_encoder_type \<Rightarrow> bool \<Rightarrow> byte list \<Rightarrow> encoder_packet" where
  "header_packet type keyframe data = \<lparr>pk_data = data, pk_pts = 0, pk_dts = 0, pk_timebase_num = 0, pk_timebase_den = 1,
     pk_type = type, pk_keyframe = keyframe, pk_dts_usec = 0, pk_sys_dts_usec = 0, pk_priority = 0,
     pk_drop_priority = 0, pk_track_idx = 0, pk_encoder = 0\<rparr>"

section \<open>Sending\<close>

definition rtmp_write :: "send_env \<Rightarrow> byte list \<Rightarrow> rtmp_stream \<Rightarrow> int \<times> rtmp_stream" where
  "rtmp_write E data st = (sd_write E (length (rs_written st)), st\<lparr>rs_written := rs_written st @ [data]\<rparr>)"

definition count_bytes :: "byte list \<Rightarrow> rtmp_stream \<Rightarrow> rtmp_stream" where
  "count_bytes data st = st\<lparr>rs_total_bytes_sent := rs_total_bytes_sent st + length data\<rparr>"

definition send_packet :: "send_env \<Rightarrow> encoder_packet \<Rightarrow> bool \<Rightarrow> rtmp_stream \<Rightarrow> (int \<times> rtmp_stream) option" where
  "send_packet E packet is_header st =
     (if \<not> sd_read E (length (rs_written st)) then Some (-1, st)
      else do {
        data \<leftarrow> flv_packet_mux packet (if is_header then 0 else to_i32 (rs_start_dts_offset st)) is_header;
        let (ret, st) = rtmp_write E data st;
        Some (ret, count_bytes data st)
      })"

definition send_packet_ex :: "send_env \<Rightarrow> encoder_packet \<Rightarrow> bool \<Rightarrow> bool \<Rightarrow> nat \<Rightarrow> rtmp_stream \<Rightarrow> (int \<times> rtmp_stream) option" where
  "send_packet_ex E packet is_header is_footer idx st =
     (if \<not> sd_read E (length (rs_written st)) then Some (-1, st)
      else do {
        codec \<leftarrow> nth_opt (rs_video_codec st) idx;
        data \<leftarrow> (if is_header then flv_packet_start packet codec idx
                 else if is_footer then flv_packet_end packet codec idx
                 else flv_packet_frames packet codec (to_i32 (rs_start_dts_offset st)) idx);
        let (ret, st) = rtmp_write E data st;
        Some (ret, count_bytes data st)
      })"

text \<open>Without data the muxer sets no output, and the uninitialised pointer is freed.\<close>

definition send_audio_packet_ex :: "send_env \<Rightarrow> encoder_packet \<Rightarrow> bool \<Rightarrow> nat \<Rightarrow> rtmp_stream \<Rightarrow> (int \<times> rtmp_stream) option" where
  "send_audio_packet_ex E packet is_header idx st =
     (if \<not> sd_read E (length (rs_written st)) then Some (-1, st)
      else do {
        codec \<leftarrow> nth_opt (rs_audio_codec st) idx;
        out \<leftarrow> (if is_header then flv_packet_audio_start packet codec idx
                else flv_packet_audio_frames packet codec (to_i32 (rs_start_dts_offset st)) idx);
        data \<leftarrow> out;
        Some (rtmp_write E data st)
      })"

definition send_audio_header :: "send_env \<Rightarrow> nat \<Rightarrow> rtmp_stream \<Rightarrow> (bool \<times> rtmp_stream) option" where
  "send_audio_header E idx st =
     (case sd_audio E idx of None \<Rightarrow> Some (True, st)
      | Some None \<Rightarrow> Some (False, st)
      | Some (Some header) \<Rightarrow>
          map_option (\<lambda>(ret, st). (ret \<ge> 0, st))
            (if idx = 0 then send_packet E (header_packet OBS_ENCODER_AUDIO False header) True st
             else send_audio_packet_ex E (header_packet OBS_ENCODER_AUDIO False header) True idx st))"

definition parsed_header :: "(byte list option \<times> nat) \<Rightarrow> byte list" where
  "parsed_header r = (case fst r of None \<Rightarrow> [] | Some data \<Rightarrow> data)"

definition send_video_header :: "send_env \<Rightarrow> nat \<Rightarrow> rtmp_stream \<Rightarrow> (bool \<times> rtmp_stream) option" where
  "send_video_header E idx st =
     (case sd_video E idx of None \<Rightarrow> Some (False, st)
      | Some v \<Rightarrow>
        (case sv_extra_data v of None \<Rightarrow> Some (False, st)
         | Some header \<Rightarrow> do {
             codec \<leftarrow> nth_opt (rs_video_codec st) idx;
             (case codec of
                CODEC_NONE \<Rightarrow> Some (False, st)
              | CODEC_H264 \<Rightarrow> do {
                  r \<leftarrow> obs_parse_avc_header (sd_al E) header;
                  let packet = header_packet OBS_ENCODER_VIDEO True (parsed_header r);
                  map_option (\<lambda>(ret, st). (ret \<ge> 0, st))
                    (if idx = 0 then send_packet E packet True st else send_packet_ex E packet True False idx st)
                }
              | CODEC_HEVC \<Rightarrow>
                  map_option (\<lambda>(ret, st). (ret \<ge> 0, st))
                    (send_packet_ex E (header_packet OBS_ENCODER_VIDEO True (sd_hevc_header E header)) True False idx st)
              | CODEC_AV1 \<Rightarrow> do {
                  r \<leftarrow> obs_parse_av1_header header;
                  map_option (\<lambda>(ret, st). (ret \<ge> 0, st))
                    (send_packet_ex E (header_packet OBS_ENCODER_VIDEO True (parsed_header r)) True False idx st)
                })
           }))"

definition bits_per_raw_sample :: "video_format \<Rightarrow> int" where
  "bits_per_raw_sample format =
     (case format of VIDEO_FORMAT_I010 \<Rightarrow> 10 | VIDEO_FORMAT_P010 \<Rightarrow> 10 | VIDEO_FORMAT_I210 \<Rightarrow> 10
      | VIDEO_FORMAT_I412 \<Rightarrow> 12 | VIDEO_FORMAT_YA2L \<Rightarrow> 12 | _ \<Rightarrow> 8)"

text \<open>Primaries, transfer characteristic and matrix of a colour space, by their numbers in ITU-T H.273.\<close>

definition color_codes :: "video_colorspace \<Rightarrow> byte \<times> int \<times> int" where
  "color_codes colorspace =
     (case colorspace of VIDEO_CS_601 \<Rightarrow> (6, 6, 6) | VIDEO_CS_DEFAULT \<Rightarrow> (1, 1, 1) | VIDEO_CS_709 \<Rightarrow> (1, 1, 1)
      | VIDEO_CS_SRGB \<Rightarrow> (1, 13, 1) | VIDEO_CS_2100_PQ \<Rightarrow> (9, 16, 9) | VIDEO_CS_2100_HLG \<Rightarrow> (9, 18, 9))"

definition send_video_metadata :: "send_env \<Rightarrow> nat \<Rightarrow> rtmp_stream \<Rightarrow> (bool \<times> rtmp_stream) option" where
  "send_video_metadata E idx st =
     (case sd_video E idx of None \<Rightarrow> Some (False, st)
      | Some v \<Rightarrow>
        if \<not> sv_video v then Some (False, st)
        else if \<not> (sv_colorspace v = VIDEO_CS_2100_PQ \<or> sv_colorspace v = VIDEO_CS_2100_HLG) then Some (True, st)
        else if \<not> sd_read E (length (rs_written st)) then Some (False, st)
        else do {
          codec \<leftarrow> nth_opt (rs_video_codec st) idx;
          if codec = CODEC_H264 then Some (True, st)
          else
            let (pri, trc, spc) = color_codes (sd_colorspace E);
                max_luminance = (if trc = 18 then 1000 else if trc = 16 then sd_peak_level E else 0)
            in do {
              data \<leftarrow> flv_packet_metadata codec (bits_per_raw_sample (sd_format E)) pri trc spc 0 max_luminance idx;
              let (ret, st) = rtmp_write E data st;
              Some (ret \<ge> 0, count_bytes data st)
            }
        })"

definition send_video_footer :: "send_env \<Rightarrow> nat \<Rightarrow> rtmp_stream \<Rightarrow> (bool \<times> rtmp_stream) option" where
  "send_video_footer E idx st =
     map_option (\<lambda>(ret, st). (ret \<ge> 0, st))
       (send_packet_ex E (header_packet OBS_ENCODER_VIDEO False []) False True idx st)"

text \<open>A loop over the encoders that returns at the first failure.\<close>

fun until_failure :: "(nat \<Rightarrow> rtmp_stream \<Rightarrow> (bool \<times> rtmp_stream) option) \<Rightarrow> nat list \<Rightarrow> rtmp_stream \<Rightarrow> (bool \<times> rtmp_stream) option" where
  "until_failure f [] st = Some (True, st)"
| "until_failure f (i # is) st = do { (ok, st) \<leftarrow> f i st; if ok then until_failure f is st else Some (False, st) }"

definition audio_header_step :: "send_env \<Rightarrow> nat \<Rightarrow> rtmp_stream \<Rightarrow> (bool \<times> rtmp_stream) option" where
  "audio_header_step E i st = (if sd_audio E i = None then Some (True, st) else send_audio_header E i st)"

definition video_header_step :: "send_env \<Rightarrow> nat \<Rightarrow> rtmp_stream \<Rightarrow> (bool \<times> rtmp_stream) option" where
  "video_header_step E i st =
     (if sd_video E i = None then Some (True, st)
      else do {
        (ok, st) \<leftarrow> send_video_metadata E i st;
        if ok then send_video_header E i st else Some (False, st)
      })"

definition footer_step :: "send_env \<Rightarrow> nat \<Rightarrow> rtmp_stream \<Rightarrow> (bool \<times> rtmp_stream) option" where
  "footer_step E i st =
     (if sd_video E i = None then Some (True, st)
      else do {
        codec \<leftarrow> nth_opt (rs_video_codec st) i;
        if i = 0 \<and> codec = CODEC_H264 then Some (True, st) else send_video_footer E i st
      })"

definition send_headers :: "send_env \<Rightarrow> rtmp_stream \<Rightarrow> (bool \<times> rtmp_stream) option" where
  "send_headers E st = do {
     (ok, st) \<leftarrow> until_failure (audio_header_step E) [0..<MAX_OUTPUT_AUDIO_ENCODERS] (st\<lparr>rs_sent_headers := True\<rparr>);
     if ok then until_failure (video_header_step E) [0..<MAX_OUTPUT_VIDEO_ENCODERS] st else Some (False, st)
   }"

definition send_footers :: "send_env \<Rightarrow> rtmp_stream \<Rightarrow> (bool \<times> rtmp_stream) option" where
  "send_footers E st = until_failure (footer_step E) [0..<MAX_OUTPUT_VIDEO_ENCODERS] st"

definition send_meta_data :: "send_env \<Rightarrow> byte list \<Rightarrow> rtmp_stream \<Rightarrow> (bool \<times> rtmp_stream) option" where
  "send_meta_data E meta st = do {
     data \<leftarrow> flv_meta_data meta False;
     let (ret, st) = rtmp_write E data st;
     Some (ret \<ge> 0, st)
   }"

section \<open>The thread\<close>

datatype send_start = SEND_SUCCESS | SEND_DISCONNECTED

definition init_send :: "send_env \<Rightarrow> byte list \<Rightarrow> rtmp_stream \<Rightarrow> (send_start \<times> rtmp_stream) option" where
  "init_send E meta st = do {
     (ok, st) \<leftarrow> send_meta_data E meta (st\<lparr>rs_sem := 0, rs_active := True\<rparr>);
     Some (if ok then SEND_SUCCESS else SEND_DISCONNECTED, st)
   }"

definition can_shutdown_stream :: "send_env \<Rightarrow> encoder_packet \<Rightarrow> rtmp_stream \<Rightarrow> bool" where
  "can_shutdown_stream E packet st \<longleftrightarrow>
     sd_time E \<ge> rs_shutdown_timeout_ts st \<or> pk_sys_dts_usec packet \<ge> sint (rs_stop_ts st)"

definition send_frame :: "send_env \<Rightarrow> encoder_packet \<Rightarrow> rtmp_stream \<Rightarrow> (int \<times> rtmp_stream) option" where
  "send_frame E packet st =
     (case pk_type packet of
        OBS_ENCODER_VIDEO \<Rightarrow> do {
          codec \<leftarrow> nth_opt (rs_video_codec st) (pk_track_idx packet);
          if codec \<noteq> CODEC_H264 \<or> codec = CODEC_H264 \<and> pk_track_idx packet \<noteq> 0
          then send_packet_ex E packet False False (pk_track_idx packet) st
          else send_packet E packet False st
        }
      | OBS_ENCODER_AUDIO \<Rightarrow>
          if pk_track_idx packet \<noteq> 0 then send_audio_packet_ex E packet False (pk_track_idx packet) st
          else send_packet E packet False st)"

text \<open>One round of the loop, after \<open>os_sem_wait\<close>; the flag tells whether it goes on, the list what it has sent.\<close>

definition send_round :: "send_env \<Rightarrow> rtmp_stream \<Rightarrow> (bool \<times> encoder_packet list \<times> rtmp_stream) option" where
  "send_round E st =
     (if rs_stopped st \<and> rs_stop_ts st = 0 then Some (False, [], st)
      else do {
        (next, st) \<leftarrow> get_next_packet st;
        (case next of None \<Rightarrow> Some (True, [], st)
         | Some packet \<Rightarrow>
             if rs_stopped st \<and> can_shutdown_stream E packet st then Some (False, [], st)
             else do {
               (ok, st) \<leftarrow> (if \<not> rs_sent_headers st then send_headers E st else Some (True, st));
               if \<not> ok then Some (False, [], st\<lparr>rs_disconnected := True\<rparr>)
               else do {
                 (sent, st) \<leftarrow> send_frame E packet st;
                 if sent < 0 then Some (False, [], st\<lparr>rs_disconnected := True\<rparr>)
                 else do {
                   st \<leftarrow> (if rs_dbr_enabled st
                          then dbr_add_frame \<lparr>df_send_beg = sd_send_beg E, df_send_end = sd_send_end E,
                            df_size = length (pk_data packet)\<rparr> st
                          else Some st);
                   Some (True, [packet], st)
                 }
               }
             })
      })"

datatype send_end = SIGNAL_DISCONNECTED | SIGNAL_ENCODE_ERROR | END_DATA_CAPTURE

text \<open>What follows the loop.\<close>

definition send_thread_end :: "rtmp_env \<Rightarrow> send_env \<Rightarrow> rtmp_stream \<Rightarrow> (send_end \<times> rtmp_stream) option" where
  "send_thread_end R E st = do {
     let encode_error = rs_encode_error st;
     st \<leftarrow> (if rs_disconnected st then Some st else map_option snd (send_footers E st));
     let st = (if rs_dbr_enabled st \<and> rs_dbr_cur_bitrate st \<noteq> rs_dbr_orig_bitrate st
               then dbr_set_bitrate R (st\<lparr>rs_dbr_cur_bitrate := rs_dbr_orig_bitrate st\<rparr>) else st);
     let signal = (if \<not> rs_stopped st then SIGNAL_DISCONNECTED
                   else if encode_error then SIGNAL_ENCODE_ERROR else END_DATA_CAPTURE);
     st \<leftarrow> free_packets st;
     Some (signal, st\<lparr>rs_stopped := False, rs_active := False, rs_sent_headers := False\<rparr>)
   }"

text \<open>The stop request, once a connection thread has ended; \<^term>\<open>True\<close>: the stop is signalled at once.\<close>

definition rtmp_stream_stop :: "u64 \<Rightarrow> rtmp_stream \<Rightarrow> bool \<times> rtmp_stream" where
  "rtmp_stream_stop ts st =
     (if rs_stopped st \<and> ts \<noteq> 0 then (False, st)
      else
        let st = st\<lparr>rs_stop_ts := ts div 1000\<rparr>;
            st = (if ts \<noteq> 0
                  then st\<lparr>rs_shutdown_timeout_ts := ts + of_int (rs_max_shutdown_time_sec st) * 1000000000\<rparr> else st)
        in if rs_active st
           then (False, st\<lparr>rs_stopped := True, rs_sem := (if rs_stop_ts st = 0 then rs_sem st + 1 else rs_sem st)\<rparr>)
           else (True, st))"

end
