(* ===== verification/Rtmp_Session.thy ===== *)
theory Rtmp_Session
  imports Rtmp_Bitrate Rtmp_Send
begin

text \<open>
  A session of the RTMP output from its start to its stop: what a player reads of all that is written, however the
  packets arrive between the rounds of the send thread, and how the thread ends.
\<close>

section \<open>What is written\<close>

definition io_ok :: "send_env \<Rightarrow> bool" where
  "io_ok E \<longleftrightarrow> (\<forall>n. sd_read E n \<and> 0 \<le> sd_write E n)"

text \<open>All but what is written and counted.\<close>

definition core :: "rtmp_stream \<Rightarrow> rtmp_stream" where
  "core st = st\<lparr>rs_written := [], rs_total_bytes_sent := 0\<rparr>"

definition sends :: "rtmp_stream \<Rightarrow> flv_request list \<Rightarrow> rtmp_stream \<Rightarrow> bool" where
  "sends st rs st' \<longleftrightarrow> rs_written st' = rs_written st @ map (\<lambda>r. the (mux_request r)) rs \<and> core st' = core st"

lemma core_fields:
  "rs_packets (core st) = rs_packets st" "rs_sent_headers (core st) = rs_sent_headers st"
  "rs_start_dts_offset (core st) = rs_start_dts_offset st" "rs_stopped (core st) = rs_stopped st"
  "rs_audio_codec (core st) = rs_audio_codec st" "rs_video_codec (core st) = rs_video_codec st"
  "rs_dbr_enabled (core st) = rs_dbr_enabled st" "rs_dbr_frames (core st) = rs_dbr_frames st"
  "rs_min_priority (core st) = rs_min_priority st"
  by (simp_all add: core_def)

lemma core_eq:
  assumes "core st' = core st"
  shows "rs_packets st' = rs_packets st" "rs_sent_headers st' = rs_sent_headers st"
    "rs_start_dts_offset st' = rs_start_dts_offset st" "rs_stopped st' = rs_stopped st"
    "rs_audio_codec st' = rs_audio_codec st" "rs_video_codec st' = rs_video_codec st"
    "rs_dbr_enabled st' = rs_dbr_enabled st" "rs_dbr_frames st' = rs_dbr_frames st"
    "rs_min_priority st' = rs_min_priority st"
  using core_fields [of st] core_fields [of st'] unfolding assms by simp_all

lemma sends_none: "sends st [] st"
  by (simp add: sends_def)

lemma sends_trans: "sends st rs st1 \<Longrightarrow> sends st1 rs' st2 \<Longrightarrow> sends st (rs @ rs') st2"
  by (simp add: sends_def)

lemma request_muxes: "request_ok r \<Longrightarrow> \<exists>data. mux_request r = Some data"
  using request_reads [of r] by (auto simp: reads_as_def)

lemma sends_write: "mux_request r = Some data \<Longrightarrow> sends st [r] (count_bytes data (snd (rtmp_write E data st)))"
  "mux_request r = Some data \<Longrightarrow> sends st [r] (snd (rtmp_write E data st))"
  by (simp_all add: sends_def count_bytes_def rtmp_write_def core_def)

lemma write_result: "io_ok E \<Longrightarrow> 0 \<le> fst (rtmp_write E data st)"
  by (simp add: io_ok_def rtmp_write_def)

lemma send_packet_ok:
  assumes "io_ok E" "request_ok (Mux packet (if hdr then 0 else to_i32 (rs_start_dts_offset st)) hdr)"
  shows "\<exists>ret st'. send_packet E packet hdr st = Some (ret, st') \<and> 0 \<le> ret \<and>
    sends st [Mux packet (if hdr then 0 else to_i32 (rs_start_dts_offset st)) hdr] st'"
proof -
  obtain data where m: "mux_request (Mux packet (if hdr then 0 else to_i32 (rs_start_dts_offset st)) hdr) = Some data"
    using request_muxes [OF assms(2)] by blast
  then show ?thesis using assms(1) sends_write(1) [OF m, of st E] write_result [OF assms(1), of data st]
    by (auto simp: send_packet_def io_ok_def case_prod_unfold Let_def)
qed

lemma send_packet_ex_ok:
  assumes "io_ok E" "idx < length (rs_video_codec st)" "request_ok r"
    "r = (if hdr then Video_Start packet (rs_video_codec st ! idx) idx
      else if footer then Video_End packet (rs_video_codec st ! idx) idx
      else Video_Frames packet (rs_video_codec st ! idx) (to_i32 (rs_start_dts_offset st)) idx)"
  shows "\<exists>ret st'. send_packet_ex E packet hdr footer idx st = Some (ret, st') \<and> 0 \<le> ret \<and> sends st [r] st'"
proof -
  obtain data where m: "mux_request r = Some data" using request_muxes [OF assms(3)] by blast
  have d: "(if hdr then flv_packet_start packet (rs_video_codec st ! idx) idx
      else if footer then flv_packet_end packet (rs_video_codec st ! idx) idx
      else flv_packet_frames packet (rs_video_codec st ! idx) (to_i32 (rs_start_dts_offset st)) idx) = Some data"
    using m unfolding assms(4) by (auto split: if_splits)
  have "send_packet_ex E packet hdr footer idx st =
      Some (fst (rtmp_write E data st), count_bytes data (snd (rtmp_write E data st)))"
    using assms(1,2) by (simp add: send_packet_ex_def io_ok_def nth_opt_def d case_prod_unfold Let_def)
  then show ?thesis using sends_write(1) [OF m, of st E] write_result [OF assms(1), of data st] by simp
qed

lemma send_audio_packet_ex_ok:
  assumes "io_ok E" "idx < length (rs_audio_codec st)" "request_ok r"
    "r = (if hdr then Audio_Start packet (rs_audio_codec st ! idx) idx
      else Audio_Frames packet (rs_audio_codec st ! idx) (to_i32 (rs_start_dts_offset st)) idx)"
  shows "\<exists>ret st'. send_audio_packet_ex E packet hdr idx st = Some (ret, st') \<and> 0 \<le> ret \<and> sends st [r] st'"
proof -
  obtain data where m: "mux_request r = Some data" using request_muxes [OF assms(3)] by blast
  have d: "(if hdr then flv_packet_audio_start packet (rs_audio_codec st ! idx) idx
      else flv_packet_audio_frames packet (rs_audio_codec st ! idx) (to_i32 (rs_start_dts_offset st)) idx) = Some (Some data)"
    using m unfolding assms(4) by (auto simp: bind_eq_Some_conv split: if_splits)
  have "send_audio_packet_ex E packet hdr idx st = Some (rtmp_write E data st)"
    using assms(1,2) by (simp add: send_audio_packet_ex_def io_ok_def nth_opt_def d)
  then show ?thesis using sends_write(2) [OF m, of st E] write_result [OF assms(1), of data st]
    by (metis prod.collapse)
qed

section \<open>Frames\<close>

definition frame_request :: "rtmp_stream \<Rightarrow> encoder_packet \<Rightarrow> flv_request" where
  "frame_request st p =
     (let off = to_i32 (rs_start_dts_offset st); i = pk_track_idx p in
      case pk_type p of
        OBS_ENCODER_VIDEO \<Rightarrow>
          if rs_video_codec st ! i = CODEC_H264 \<and> i = 0 then Mux p off False else Video_Frames p (rs_video_codec st ! i) off i
      | OBS_ENCODER_AUDIO \<Rightarrow> if i = 0 then Mux p off False else Audio_Frames p (rs_audio_codec st ! i) off i)"

definition frame_ok :: "rtmp_stream \<Rightarrow> encoder_packet \<Rightarrow> bool" where
  "frame_ok st p \<longleftrightarrow> request_ok (frame_request st p) \<and>
     pk_track_idx p < (case pk_type p of OBS_ENCODER_VIDEO \<Rightarrow> length (rs_video_codec st)
       | OBS_ENCODER_AUDIO \<Rightarrow> length (rs_audio_codec st))"

lemma send_frame_ok:
  assumes "io_ok E" "frame_ok st p"
  shows "\<exists>ret st'. send_frame E p st = Some (ret, st') \<and> 0 \<le> ret \<and> sends st [frame_request st p] st'"
proof (cases "pk_type p")
  case OBS_ENCODER_AUDIO
  then show ?thesis
    using send_packet_ok [OF assms(1), of p False st] send_audio_packet_ex_ok [OF assms(1), of "pk_track_idx p" st "frame_request st p" False p] assms(2)
    by (cases "pk_track_idx p = 0") (simp_all add: send_frame_def frame_ok_def frame_request_def Let_def)
next
  case OBS_ENCODER_VIDEO
  then show ?thesis
    using send_packet_ok [OF assms(1), of p False st] send_packet_ex_ok [OF assms(1), of "pk_track_idx p" st "frame_request st p" False p False] assms(2)
    by (cases "pk_track_idx p = 0 \<and> rs_video_codec st ! pk_track_idx p = CODEC_H264")
      (auto simp: send_frame_def frame_ok_def frame_request_def Let_def nth_opt_def)
qed

section \<open>Headers and footers\<close>

text \<open>The requests for the headers, and for streams that are not HDR the conditions under which they are sent.\<close>

definition audio_request :: "send_env \<Rightarrow> rtmp_stream \<Rightarrow> nat \<Rightarrow> flv_request list" where
  "audio_request E st i =
     (case sd_audio E i of
        Some (Some h) \<Rightarrow> [if i = 0 then Mux (header_packet OBS_ENCODER_AUDIO False h) 0 True
          else Audio_Start (header_packet OBS_ENCODER_AUDIO False h) (rs_audio_codec st ! i) i]
      | _ \<Rightarrow> [])"

definition codec_header :: "send_env \<Rightarrow> video_id_t \<Rightarrow> byte list \<Rightarrow> byte list option" where
  "codec_header E codec h =
     (case codec of CODEC_H264 \<Rightarrow> map_option parsed_header (obs_parse_avc_header (sd_al E) h)
      | CODEC_HEVC \<Rightarrow> Some (sd_hevc_header E h)
      | CODEC_AV1 \<Rightarrow> map_option parsed_header (obs_parse_av1_header h)
      | CODEC_NONE \<Rightarrow> None)"

definition video_request :: "send_env \<Rightarrow> rtmp_stream \<Rightarrow> nat \<Rightarrow> flv_request list" where
  "video_request E st i =
     (case sd_video E i of None \<Rightarrow> []
      | Some v \<Rightarrow>
        let codec = rs_video_codec st ! i;
            p = header_packet OBS_ENCODER_VIDEO True (the (codec_header E codec (the (sv_extra_data v))))
        in [if codec = CODEC_H264 \<and> i = 0 then Mux p 0 True else Video_Start p codec i])"

definition header_requests :: "send_env \<Rightarrow> rtmp_stream \<Rightarrow> flv_request list" where
  "header_requests E st =
     concat (map (audio_request E st) [0..<MAX_OUTPUT_AUDIO_ENCODERS]) @
     concat (map (video_request E st) [0..<MAX_OUTPUT_VIDEO_ENCODERS])"

definition audio_header_ok :: "send_env \<Rightarrow> rtmp_stream \<Rightarrow> nat \<Rightarrow> bool" where
  "audio_header_ok E st i \<longleftrightarrow> sd_audio E i \<noteq> Some None \<and> i < length (rs_audio_codec st) \<and>
     list_all request_ok (audio_request E st i)"

definition video_header_ok :: "send_env \<Rightarrow> rtmp_stream \<Rightarrow> nat \<Rightarrow> bool" where
  "video_header_ok E st i \<longleftrightarrow> i < length (rs_video_codec st) \<and>
     (case sd_video E i of None \<Rightarrow> True
      | Some v \<Rightarrow> sv_video v \<and> sv_colorspace v \<notin> {VIDEO_CS_2100_PQ, VIDEO_CS_2100_HLG} \<and>
          (\<exists>h. sv_extra_data v = Some h \<and> codec_header E (rs_video_codec st ! i) h \<noteq> None) \<and>
          list_all request_ok (video_request E st i))"

definition headers_ok :: "send_env \<Rightarrow> rtmp_stream \<Rightarrow> bool" where
  "headers_ok E st \<longleftrightarrow> (\<forall>i < MAX_OUTPUT_AUDIO_ENCODERS. audio_header_ok E st i) \<and>
     (\<forall>i < MAX_OUTPUT_VIDEO_ENCODERS. video_header_ok E st i)"

lemma until_failure_sends:
  assumes "\<And>i s. i \<in> set js \<Longrightarrow> core s = core st \<Longrightarrow> \<exists>s'. f i s = Some (True, s') \<and> sends s (reqs i) s'" "core s = core st"
  shows "\<exists>s'. until_failure f js s = Some (True, s') \<and> sends s (concat (map reqs js)) s'"
  using assms
proof (induction js arbitrary: s)
  case Nil
  then show ?case using sends_none by simp
next
  case (Cons i js)
  obtain s1 where s1: "f i s = Some (True, s1)" "sends s (reqs i) s1" using Cons.prems(1) [of i s] Cons.prems(2) by auto
  have c: "core s1 = core st" using s1(2) Cons.prems(2) by (simp add: sends_def)
  obtain s2 where "until_failure f js s1 = Some (True, s2)" "sends s1 (concat (map reqs js)) s2"
    using Cons.IH [of s1] Cons.prems(1) c by auto
  then show ?case using s1 sends_trans by auto
qed

lemma audio_header_sends:
  assumes "io_ok E" "audio_header_ok E st i" "core s = core st"
  shows "\<exists>s'. audio_header_step E i s = Some (True, s') \<and> sends s (audio_request E st i) s'"
proof (cases "sd_audio E i")
  case None
  then show ?thesis using sends_none by (simp add: audio_header_step_def audio_request_def)
next
  case (Some x)
  then obtain h where h: "x = Some h" using assms(2) by (cases x) (auto simp: audio_header_ok_def)
  let ?p = "header_packet OBS_ENCODER_AUDIO False h"
  have c: "rs_audio_codec s = rs_audio_codec st" using core_eq(5) [OF assms(3)] .
  have req: "audio_request E st i = [if i = 0 then Mux ?p 0 True else Audio_Start ?p (rs_audio_codec st ! i) i]"
    by (simp add: audio_request_def Some h)
  have ok: "i < length (rs_audio_codec s)" "request_ok (if i = 0 then Mux ?p 0 True else Audio_Start ?p (rs_audio_codec st ! i) i)"
    using assms(2) by (simp_all add: audio_header_ok_def req c)
  have "\<exists>ret s'. (if i = 0 then send_packet E ?p True s else send_audio_packet_ex E ?p True i s) = Some (ret, s') \<and> 0 \<le> ret \<and>
      sends s (audio_request E st i) s'"
  proof (cases "i = 0")
    case True
    then show ?thesis using ok(2) send_packet_ok [OF assms(1), of ?p True s] unfolding req by simp
  next
    case False
    then have "request_ok (Audio_Start ?p (rs_audio_codec st ! i) i)" using ok(2) by simp
    from send_audio_packet_ex_ok [OF assms(1) ok(1) this, of True ?p] show ?thesis unfolding req c if_not_P [OF False] by simp
  qed
  then obtain ret s' where "(if i = 0 then send_packet E ?p True s else send_audio_packet_ex E ?p True i s) = Some (ret, s')"
    "0 \<le> ret" "sends s (audio_request E st i) s'" by (elim exE conjE)
  then show ?thesis by (simp add: audio_header_step_def send_audio_header_def Some h)
qed

lemma video_header_sends:
  assumes "io_ok E" "video_header_ok E st i" "core s = core st"
  shows "\<exists>s'. video_header_step E i s = Some (True, s') \<and> sends s (video_request E st i) s'"
proof (cases "sd_video E i")
  case None
  then show ?thesis using sends_none by (simp add: video_header_step_def video_request_def)
next
  case (Some v)
  obtain h d where v: "sv_video v" "sv_colorspace v \<notin> {VIDEO_CS_2100_PQ, VIDEO_CS_2100_HLG}" "sv_extra_data v = Some h"
    "codec_header E (rs_video_codec st ! i) h = Some d" and r: "list_all request_ok (video_request E st i)"
    using assms(2) Some by (auto simp: video_header_ok_def)
  let ?c = "rs_video_codec st ! i" and ?p = "header_packet OBS_ENCODER_VIDEO True d"
  have c: "rs_video_codec s = rs_video_codec st" using core_eq(6) [OF assms(3)] .
  have i: "i < length (rs_video_codec s)" using assms(2) by (simp add: video_header_ok_def c)
  have req: "video_request E st i = [if ?c = CODEC_H264 \<and> i = 0 then Mux ?p 0 True else Video_Start ?p ?c i]"
    unfolding video_request_def Some option.case Let_def v(3) option.sel v(4) ..
  have m: "send_video_metadata E i s = Some (True, s)" using v(1,2) by (simp add: send_video_metadata_def Some)
  have n: "nth_opt (rs_video_codec s) i = Some ?c" using i by (simp add: nth_opt_def c)
  define action where "action = (if ?c = CODEC_H264 \<and> i = 0 then send_packet E ?p True s else send_packet_ex E ?p True False i s)"
  have "\<exists>ret s'. action = Some (ret, s') \<and> 0 \<le> ret \<and> sends s (video_request E st i) s'"
  proof (cases "?c = CODEC_H264 \<and> i = 0")
    case True
    then have "request_ok (Mux ?p 0 True)" using r unfolding req if_P [OF True] by simp
    then show ?thesis using send_packet_ok [OF assms(1), of ?p True s]
      unfolding req action_def if_P [OF True] if_P [OF TrueI] by blast
  next
    case False
    then have "request_ok (Video_Start ?p ?c i)" using r unfolding req if_not_P [OF False] by simp
    from send_packet_ex_ok [OF assms(1) i this, of True ?p False] show ?thesis
      unfolding req action_def c if_not_P [OF False] by simp
  qed
  then obtain ret s' where s': "action = Some (ret, s')" "0 \<le> ret" "sends s (video_request E st i) s'" by (elim exE conjE)
  have "video_header_step E i s = Some (True, s')"
    using s'(1,2) v(4)
    by (cases ?c) (auto simp: video_header_step_def Some m send_video_header_def v(3) n codec_header_def action_def)
  then show ?thesis using s'(3) by blast
qed

lemma send_headers_ok:
  assumes "io_ok E" "headers_ok E st"
  shows "\<exists>s. send_headers E st = Some (True, s) \<and> sends (st\<lparr>rs_sent_headers := True\<rparr>) (header_requests E st) s"
proof -
  let ?st = "st\<lparr>rs_sent_headers := True\<rparr>"
  have same: "audio_header_ok E ?st = audio_header_ok E st" "video_header_ok E ?st = video_header_ok E st"
    "audio_request E ?st = audio_request E st" "video_request E ?st = video_request E st"
    by (simp_all add: fun_eq_iff audio_header_ok_def video_header_ok_def audio_request_def video_request_def Let_def split: option.splits)
  have a: "\<exists>s'. audio_header_step E i s = Some (True, s') \<and> sends s (audio_request E st i) s'"
    if "i \<in> set [0..<MAX_OUTPUT_AUDIO_ENCODERS]" "core s = core ?st" for i s
    using audio_header_sends [OF assms(1) _ that(2), of i] that(1) assms(2) by (simp add: headers_ok_def same)
  have v: "\<exists>s'. video_header_step E i s = Some (True, s') \<and> sends s (video_request E st i) s'"
    if "i \<in> set [0..<MAX_OUTPUT_VIDEO_ENCODERS]" "core s = core ?st" for i s
    using video_header_sends [OF assms(1) _ that(2), of i] that(1) assms(2) by (simp add: headers_ok_def same)
  obtain s1 where s1: "until_failure (audio_header_step E) [0..<MAX_OUTPUT_AUDIO_ENCODERS] ?st = Some (True, s1)"
    "sends ?st (concat (map (audio_request E st) [0..<MAX_OUTPUT_AUDIO_ENCODERS])) s1"
    using until_failure_sends [of _ ?st "audio_header_step E" "audio_request E st" ?st, OF a refl] by blast
  have "core s1 = core ?st" using s1(2) by (simp add: sends_def)
  then obtain s2 where s2: "until_failure (video_header_step E) [0..<MAX_OUTPUT_VIDEO_ENCODERS] s1 = Some (True, s2)"
    "sends s1 (concat (map (video_request E st) [0..<MAX_OUTPUT_VIDEO_ENCODERS])) s2"
    using until_failure_sends [of _ ?st "video_header_step E" "video_request E st" s1, OF v] by blast
  from s1(1) s2(1) have "send_headers E st = Some (True, s2)" by (simp add: send_headers_def)
  moreover have "sends ?st (header_requests E st) s2"
    unfolding header_requests_def by (rule sends_trans [OF s1(2) s2(2)])
  ultimately show ?thesis by blast
qed

section \<open>Rounds\<close>

text \<open>What the queue and the window of frames do not touch.\<close>

definition session_part :: "rtmp_stream \<Rightarrow> byte list list \<times> bool \<times> int \<times> bool \<times> audio_id_t list \<times> video_id_t list" where
  "session_part st = (rs_written st, rs_sent_headers st, rs_start_dts_offset st, rs_stopped st, rs_audio_codec st, rs_video_codec st)"

lemma drop_frames_part: "drop_frames h st = Some st' \<Longrightarrow> session_part st' = session_part st"
  unfolding drop_frames_def bind_eq_Some_conv by (elim exE conjE) (auto simp: session_part_def Let_def split: if_splits)

lemma set_bitrate_part [simp]: "session_part (dbr_set_bitrate E st) = session_part st"
  by (simp add: dbr_set_bitrate_def session_part_def Let_def)

lemma inc_bitrate_part [simp]: "session_part (dbr_inc_bitrate E st) = session_part st"
  by (simp add: dbr_inc_bitrate_def session_part_def Let_def)

lemma check_timer_part [simp]: "session_part (dbr_check_timer E pf st) = session_part st"
proof -
  have "session_part (st\<lparr>rs_dbr_inc_timeout := 0\<rparr>) = session_part st" by (simp add: session_part_def)
  then show ?thesis by (simp add: dbr_check_timer_def)
qed

lemma lowered_part: "dbr_bitrate_lowered E st = Some (c, st') \<Longrightarrow> session_part st' = session_part st"
  by (auto simp: dbr_bitrate_lowered_def session_part_def Let_def bind_eq_Some_conv split: if_splits)

lemma check_part:
  assumes "check_to_drop_frames E pf st = Some st'"
  shows "session_part st' = session_part st"
proof -
  define st1 where "st1 = dbr_check_timer E pf st"
  have p: "session_part st1 = session_part st" by (simp add: st1_def)
  note check = assms [unfolded check_to_drop_frames_def Let_def st1_def [symmetric]]
  show ?thesis
  proof (cases "num_buffered_packets st < 5")
    case True
    then show ?thesis using check p by simp
  next
    case False
    then obtain first where first: "find_first_video_packet st1 = Some first"
      using check by (cases "find_first_video_packet st1") simp_all
    note rest = check [unfolded if_not_P [OF False] first bind.bind_lunit]
    show ?thesis
    proof (cases "first = None \<or> \<not> rs_dbr_enabled st1")
      case True
      then show ?thesis using rest p drop_frames_part [of _ st1 st'] by (cases first) (auto split: if_splits)
    next
      case False
      then show ?thesis using rest p lowered_part [of E st1] by (cases first) (auto simp: bind_eq_Some_conv split: if_splits)
    qed
  qed
qed

lemma enqueue_part: "enqueue E p st = Some st' \<Longrightarrow> session_part st' = session_part st"
proof -
  have add: "add_packet p s = Some (b, s') \<Longrightarrow> session_part s' = session_part s" for s b s'
    by (auto simp: add_packet_def session_part_def)
  have upd: "session_part (s\<lparr>rs_min_priority := m, rs_last_dts_usec := d\<rparr>) = session_part s"
    "session_part (s\<lparr>rs_dropped_frames := m\<rparr>) = session_part s" "session_part (s\<lparr>rs_sem := n\<rparr>) = session_part s" for s m d n
    by (simp_all add: session_part_def)
  have video: "add_video_packet E p s = Some (b, s') \<Longrightarrow> session_part s' = session_part s" for s b s'
    by (auto simp: add_video_packet_def bind_eq_Some_conv upd dest!: check_part add split: if_splits)
  show "enqueue E p st = Some st' \<Longrightarrow> session_part st' = session_part st"
    by (auto simp: enqueue_def bind_eq_Some_conv upd dest: video add split: obs_encoder_type.splits)
qed

lemma part_fields: "session_part st' = session_part st \<Longrightarrow> rs_written st' = rs_written st \<and> rs_sent_headers st' = rs_sent_headers st \<and>
    rs_stopped st' = rs_stopped st"
  by (simp add: session_part_def)

text \<open>The requests depend on the codecs and the first time stamp only.\<close>

definition request_part :: "rtmp_stream \<Rightarrow> int \<times> audio_id_t list \<times> video_id_t list" where
  "request_part st = (rs_start_dts_offset st, rs_audio_codec st, rs_video_codec st)"

lemma request_part_cong:
  assumes "request_part st' = request_part st"
  shows "frame_request st' = frame_request st" "frame_ok st' = frame_ok st" "headers_ok E st' = headers_ok E st"
    "header_requests E st' = header_requests E st"
proof -
  have f: "rs_start_dts_offset st' = rs_start_dts_offset st" "rs_audio_codec st' = rs_audio_codec st" "rs_video_codec st' = rs_video_codec st"
    using assms by (simp_all add: request_part_def)
  have r: "audio_request E st' = audio_request E st" "video_request E st' = video_request E st"
    by (simp_all add: fun_eq_iff audio_request_def video_request_def f Let_def split: option.splits)
  show q: "frame_request st' = frame_request st" by (rule ext) (unfold frame_request_def f, rule refl)
  show "frame_ok st' = frame_ok st" by (rule ext) (unfold frame_ok_def f q, rule refl)
  show "headers_ok E st' = headers_ok E st"
    by (simp add: headers_ok_def audio_header_ok_def video_header_ok_def r f split: option.splits)
  show "header_requests E st' = header_requests E st" by (simp add: header_requests_def r)
qed

lemma logged_cong:
  "rs_packets st' = rs_packets st \<Longrightarrow> rs_min_priority st' = rs_min_priority st \<Longrightarrow> rs_dbr_frames st' = rs_dbr_frames st \<Longrightarrow>
    logged st' pre post = logged st pre post"
  by (simp add: logged_def queue_is_def dbr_frames_are_def)

text \<open>A round that finds a packet sends the headers first if it is the first to do so, then the packet.\<close>

lemma send_round_ok:
  assumes "logged st pre post" "io_ok E" "headers_ok E st" "\<not> rs_stopped st"
    "\<And>p. p \<in> set (kept post) \<Longrightarrow> frame_ok st p"
  shows "\<exists>one st' pre' post'. send_round E st = Some (True, one, st') \<and> logged st' pre' post' \<and> pre' @ post' = pre @ post \<and>
    kept pre' = kept pre @ one \<and> rs_stopped st' = rs_stopped st \<and> request_part st' = request_part st \<and>
    rs_sent_headers st' = (rs_sent_headers st \<or> one \<noteq> []) \<and> set one \<subseteq> set (kept post) \<and>
    rs_written st' = rs_written st @ map (\<lambda>r. the (mux_request r))
      ((if one = [] \<or> rs_sent_headers st then [] else header_requests E st) @ map (frame_request st) one)"
proof -
  obtain p st1 pre' post' where t: "get_next_packet st = Some (p, st1)" "logged st1 pre' post'" "pre' @ post' = pre @ post"
    "kept pre' = kept pre @ (case p of None \<Rightarrow> [] | Some p \<Rightarrow> [p])" using logged_take [OF assms(1)] by blast
  have part: "session_part st1 = session_part st"
    using t(1) by (auto simp: get_next_packet_def session_part_def split: if_splits)
  then have r1: "request_part st1 = request_part st" by (simp add: session_part_def request_part_def)
  note f1 = part_fields [OF part]
  show ?thesis
  proof (cases p)
    case None
    then show ?thesis using t f1 r1 assms(4)
      by (intro exI [of _ "[]"] exI [of _ st1] exI [of _ pre'] exI [of _ post']) (simp add: send_round_def)
  next
    case (Some x)
    have "kept pre' @ kept post' = kept pre @ kept post" using arg_cong [OF t(3), of kept] by simp
    then have "kept post = x # kept post'" using t(4) Some by simp
    then have x: "x \<in> set (kept post)" by simp
    define hs where "hs = (if rs_sent_headers st then [] else header_requests E st)"
    obtain st2 where h: "(if \<not> rs_sent_headers st1 then send_headers E st1 else Some (True, st1)) = Some (True, st2)"
      "sends (st1\<lparr>rs_sent_headers := True\<rparr>) hs st2"
    proof (cases "rs_sent_headers st1")
      case True
      then have e: "st1\<lparr>rs_sent_headers := True\<rparr> = st1" by (cases st1) simp
      have "sends (st1\<lparr>rs_sent_headers := True\<rparr>) hs st1" unfolding e using sends_none [of st1] f1 True by (simp add: hs_def)
      with True show ?thesis by (intro that [of st1]) simp_all
    next
      case False
      obtain s where s: "send_headers E st1 = Some (True, s)" "sends (st1\<lparr>rs_sent_headers := True\<rparr>) (header_requests E st1) s"
        using send_headers_ok [OF assms(2), of st1] assms(3) request_part_cong(3) [OF r1] by auto
      then show ?thesis using that [of s] False f1 request_part_cong(4) [OF r1] by (simp add: hs_def)
    qed
    note c2 = core_eq [of st2 "st1\<lparr>rs_sent_headers := True\<rparr>"]
    have core2: "core st2 = core (st1\<lparr>rs_sent_headers := True\<rparr>)" using h(2) by (simp add: sends_def)
    have r2: "request_part st2 = request_part st" using c2 [OF core2] r1 by (simp add: request_part_def)
    obtain ret st3 where s: "send_frame E x st2 = Some (ret, st3)" "0 \<le> ret" "sends st2 [frame_request st2 x] st3"
      using send_frame_ok [OF assms(2), of st2 x] assms(5) [OF x] request_part_cong(2) [OF r2] by auto
    have core3: "core st3 = core (st1\<lparr>rs_sent_headers := True\<rparr>)" using s(3) core2 by (simp add: sends_def)
    note c3 = core_eq [OF core3]
    obtain fs where fs: "deque_repr (rs_dbr_frames st3) fs" using t(2) c3(8) by (auto simp: logged_def dbr_frames_are_def)
    define st4 where "st4 = (if rs_dbr_enabled st3 then dbr_add_frame \<lparr>df_send_beg = sd_send_beg E, df_send_end = sd_send_end E,
                            df_size = length (pk_data x)\<rparr> st3 else Some st3)"
    obtain st5 where st5: "st4 = Some st5" "rs_packets st5 = rs_packets st3" "rs_min_priority st5 = rs_min_priority st3"
      "\<exists>fs. dbr_frames_are st5 fs" "session_part st5 = session_part st3"
    proof (cases "rs_dbr_enabled st3")
      case True
      obtain q size est fs' where "dbr_add_frame \<lparr>df_send_beg = sd_send_beg E, df_send_end = sd_send_end E,
          df_size = length (pk_data x)\<rparr> st3 = Some (st3\<lparr>rs_dbr_frames := q, rs_dbr_data_size := size, rs_dbr_est_bitrate := est\<rparr>)"
        "deque_repr q fs'"
        using add_frame_result [OF fs] by blast
      then show ?thesis using True
        by (intro that [of "st3\<lparr>rs_dbr_frames := q, rs_dbr_data_size := size, rs_dbr_est_bitrate := est\<rparr>"])
          (auto simp: st4_def session_part_def dbr_frames_are_def)
    next
      case False
      then show ?thesis using that [of st3] fs by (auto simp: st4_def dbr_frames_are_def)
    qed
    have "send_round E st = Some (True, [x], st5)"
      using t(1) Some assms(4) f1 h(1) s(1,2) st5(1) by (simp add: send_round_def st4_def)
    moreover have "logged st5 pre' post'" using t(2) st5(2-4) c3 by (auto simp: logged_def queue_is_def)
    moreover have "rs_written st5 = rs_written st @ map (\<lambda>r. the (mux_request r)) (hs @ [frame_request st x])"
      using part_fields [OF st5(5)] s(3) h(2) f1 request_part_cong(1) [OF r2] by (simp add: sends_def)
    moreover have "rs_stopped st5 = rs_stopped st \<and> rs_sent_headers st5" using part_fields [OF st5(5)] c3 f1 by simp
    moreover have "request_part st5 = request_part st" using st5(5) c3 r1 by (simp add: session_part_def request_part_def)
    ultimately show ?thesis using t(3,4) Some x
      by (intro exI [of _ "[x]"] exI [of _ st5] exI [of _ pre'] exI [of _ post']) (simp add: hs_def)
  qed
qed

section \<open>Sessions\<close>

text \<open>A packet is delivered, or the send thread makes a round.\<close>

datatype session_event = Deliver rtmp_env encoder_packet | Round send_env

fun session_run :: "session_event list \<Rightarrow> rtmp_stream \<Rightarrow> encoder_packet list \<Rightarrow> (rtmp_stream \<times> encoder_packet list) option" where
  "session_run [] st gone = Some (st, gone)"
| "session_run (Deliver R p # evs) st gone = Option.bind (enqueue R p st) (\<lambda>st. session_run evs st gone)"
| "session_run (Round E # evs) st gone = do {
     (goes_on, one, st) \<leftarrow> send_round E st;
     if goes_on then session_run evs st (gone @ one) else None
   }"

fun delivered :: "session_event list \<Rightarrow> encoder_packet list" where
  "delivered [] = []"
| "delivered (Deliver R p # evs) = p # delivered evs"
| "delivered (Round E # evs) = delivered evs"

definition session_requests :: "flv_request list \<Rightarrow> rtmp_stream \<Rightarrow> encoder_packet list \<Rightarrow> flv_request list" where
  "session_requests headers st gone =
     (if gone = [] then [] else headers) @ map (frame_request st) gone"

definition in_session :: "rtmp_stream \<Rightarrow> flv_request list \<Rightarrow> packet_log \<Rightarrow> packet_log \<Rightarrow> rtmp_stream \<Rightarrow> bool" where
  "in_session st0 headers pre post st \<longleftrightarrow> logged st pre post \<and> \<not> rs_stopped st \<and> request_part st = request_part st0 \<and>
     rs_sent_headers st = (kept pre \<noteq> []) \<and>
     rs_written st = rs_written st0 @ map (\<lambda>r. the (mux_request r)) (session_requests headers st0 (kept pre))"

lemma session_deliver:
  assumes "in_session st0 headers pre post st"
  shows "\<exists>st' post'. enqueue R p st = Some st' \<and> in_session st0 headers pre post' st' \<and> map fst post' = map fst post @ [p]"
proof -
  obtain st' post' where e: "enqueue R p st = Some st'" "logged st' pre post'" "map fst post' = map fst post @ [p]"
    using logged_enqueue [of st pre post R p] assms by (auto simp: in_session_def)
  have "session_part st' = session_part st" by (rule enqueue_part [OF e(1)])
  then have "in_session st0 headers pre post' st'"
    using assms e(2) by (simp add: in_session_def session_part_def request_part_def)
  then show ?thesis using e by blast
qed

lemma session_round:
  assumes "in_session st0 headers pre post st" "io_ok E" "headers_ok E st0" "header_requests E st0 = headers"
    "\<forall>p \<in> set (map fst post). frame_ok st0 p"
  shows "\<exists>one st' pre' post'. send_round E st = Some (True, one, st') \<and> in_session st0 headers pre' post' st' \<and>
    pre' @ post' = pre @ post \<and> kept pre' = kept pre @ one"
proof -
  have s: "logged st pre post" "\<not> rs_stopped st" "request_part st = request_part st0" "rs_sent_headers st = (kept pre \<noteq> [])"
    "rs_written st = rs_written st0 @ map (\<lambda>r. the (mux_request r)) (session_requests headers st0 (kept pre))"
    using assms(1) by (simp_all add: in_session_def)
  note same = request_part_cong [OF s(3)]
  have "frame_ok st p" if "p \<in> set (kept post)" for p
    using that assms(5) by (auto simp: kept_def same(2))
  then obtain one st' pre' post' where r: "send_round E st = Some (True, one, st')" "logged st' pre' post'" "pre' @ post' = pre @ post"
    "kept pre' = kept pre @ one" "rs_stopped st' = rs_stopped st" "request_part st' = request_part st"
    "rs_sent_headers st' = (rs_sent_headers st \<or> one \<noteq> [])"
    "rs_written st' = rs_written st @ map (\<lambda>r. the (mux_request r))
      ((if one = [] \<or> rs_sent_headers st then [] else header_requests E st) @ map (frame_request st) one)"
    using send_round_ok [OF s(1) assms(2) _ s(2)] assms(3) same(3) by blast
  have "in_session st0 headers pre' post' st'"
    using r s assms(4) same(1,4) by (auto simp: in_session_def session_requests_def)
  then show ?thesis using r by blast
qed

lemma session_run_ok:
  "in_session st0 headers pre post st \<Longrightarrow>
    \<forall>E. Round E \<in> set evs \<longrightarrow> io_ok E \<and> headers_ok E st0 \<and> header_requests E st0 = headers \<Longrightarrow>
    \<forall>p \<in> set (map fst (pre @ post) @ delivered evs). frame_ok st0 p \<Longrightarrow>
    \<exists>st' pre' post'. session_run evs st (kept pre) = Some (st', kept pre') \<and> in_session st0 headers pre' post' st' \<and>
      map fst (pre' @ post') = map fst (pre @ post) @ delivered evs"
proof (induction evs arbitrary: st pre post)
  case Nil
  then show ?case by auto
next
  case (Cons ev evs)
  show ?case
  proof (cases ev)
    case (Deliver R p)
    obtain st1 post1 where e: "enqueue R p st = Some st1" "in_session st0 headers pre post1 st1" "map fst post1 = map fst post @ [p]"
      using session_deliver [OF Cons.prems(1)] by blast
    show ?thesis using Cons.IH [OF e(2)] Cons.prems(2,3) e(1,3) Deliver by simp
  next
    case (Round E)
    obtain one st1 pre1 post1 where r: "send_round E st = Some (True, one, st1)" "in_session st0 headers pre1 post1 st1"
      "pre1 @ post1 = pre @ post" "kept pre1 = kept pre @ one"
      using session_round [OF Cons.prems(1), of E] Cons.prems(2,3) Round by auto
    have "session_run (ev # evs) st (kept pre) = session_run evs st1 (kept pre1)" using r(1,4) Round by simp
    moreover have "\<forall>p \<in> set (map fst (pre1 @ post1) @ delivered evs). frame_ok st0 p"
      using Cons.prems(3) Round by (simp only: r(3)) simp
    ultimately show ?thesis using Cons.IH [OF r(2)] Cons.prems(2) Round unfolding r(3) by simp
  qed
qed

lemma requests_read:
  assumes "list_all request_ok rs"
  shows "read_tags (concat (map (\<lambda>r. the (mux_request r)) rs)) = Some (map request_tag rs)"
  using assms
proof (induction rs)
  case Nil
  show ?case by (simp add: read_tags.simps)
next
  case (Cons r rs)
  obtain t ms body where r: "mux_request r = Some (flv_tag t ms body)" "length body < 2 ^ 24 - 11"
    "read_body t body = Some (snd (request_tag r))" "fst (request_tag r) = ms mod 2 ^ 31"
    using request_reads [of r] Cons.prems by (auto simp: reads_as_def)
  show ?case using read_tags_tag [OF r(2,3)] Cons r(1,4) by (simp add: prod_eq_iff)
qed

lemma headers_fine:
  assumes "headers_ok E st"
  shows "list_all request_ok (header_requests E st)"
proof -
  have "list_all request_ok (video_request E st i)" if "video_header_ok E st i" for i
    using that by (cases "sd_video E i") (simp_all add: video_header_ok_def video_request_def)
  moreover have "list_all request_ok (audio_request E st i)" if "audio_header_ok E st i" for i
    using that by (simp add: audio_header_ok_def)
  ultimately show ?thesis using assms by (auto simp: headers_ok_def header_requests_def list_all_iff)
qed

text \<open>C3: however packets arrive and the send thread runs between them, what has been written is read by a player as the
  headers of all encoders, once and before the first frame, and then one tag for each packet sent; and the packets
  sent, with those that wait, are those that arrived, in their order, less the dropped ones.\<close>

theorem session_reads_back:
  assumes "deque_repr (rs_packets st) []" "deque_repr (rs_dbr_frames st) frames" "\<not> rs_stopped st" "\<not> rs_sent_headers st"
    "\<forall>E. Round E \<in> set evs \<longrightarrow> io_ok E \<and> headers_ok E st \<and> header_requests E st = headers"
    "\<forall>p \<in> set (delivered evs). frame_ok st p"
  shows "\<exists>st' sent waiting flags bs. session_run evs st [] = Some (st', sent) \<and> rs_written st' = rs_written st @ bs \<and>
    read_tags (concat bs) = Some (map request_tag (session_requests headers st sent)) \<and>
    deque_repr (rs_packets st') waiting \<and> length flags = length (delivered evs) \<and>
    kept (zip (delivered evs) flags) = sent @ waiting \<and> drops_ok (zip (delivered evs) flags) (rs_min_priority st')"
proof -
  have "in_session st headers [] [] st"
    using assms(1-4) by (auto simp: in_session_def logged_def queue_is_def dbr_frames_are_def session_requests_def)
  from session_run_ok [OF this assms(5)] assms(6) obtain st' pre post where
    r: "session_run evs st [] = Some (st', kept pre)" "in_session st headers pre post st'" "map fst (pre @ post) = delivered evs"
    by auto
  have z: "zip (delivered evs) (map snd (pre @ post)) = pre @ post" unfolding r(3) [symmetric] by (rule zip_map_fst_snd)
  have l: "length (map snd (pre @ post)) = length (delivered evs)" unfolding r(3) [symmetric] by simp
  have "kept pre = [] \<or> (\<exists>E. Round E \<in> set evs)"
  proof -
    have "\<forall>E. Round E \<notin> set evs \<Longrightarrow> session_run evs s gone = Some (s', gone') \<Longrightarrow> gone' = gone" for s gone s' gone'
      by (induction evs s gone rule: session_run.induct) (auto simp: bind_eq_Some_conv)
    then show ?thesis using r(1) by blast
  qed
  then have "kept pre = [] \<or> list_all request_ok headers" using assms(5) headers_fine by blast
  moreover have "set (kept pre) \<subseteq> set (delivered evs)" unfolding r(3) [symmetric] by (auto simp: kept_def)
  then have "list_all request_ok (map (frame_request st) (kept pre))"
    using assms(6) by (auto simp: list_all_iff frame_ok_def)
  ultimately have "list_all request_ok (session_requests headers st (kept pre))" by (auto simp: session_requests_def)
  note read = requests_read [OF this]
  show ?thesis using r(1,2) z l read
    by (intro exI [of _ st'] exI [of _ "kept pre"] exI [of _ "kept post"] exI [of _ "map snd (pre @ post)"] exI)
      (auto simp: in_session_def logged_def queue_is_def)
qed

definition sample_send :: send_env where
  "sample_send = \<lparr>sd_audio = (\<lambda>i. if i = 0 then Some (Some [18, 16]) else None),
     sd_video = (\<lambda>i. if i = 0 then Some \<lparr>sv_video = True, sv_colorspace = VIDEO_CS_709, sv_extra_data = Some [0]\<rparr> else None),
     sd_format = VIDEO_FORMAT_NV12, sd_colorspace = VIDEO_CS_709, sd_peak_level = 0, sd_al = 3, sd_hevc_header = (\<lambda>h. 1 # h),
     sd_read = (\<lambda>_. True), sd_write = (\<lambda>_. 1), sd_time = 0, sd_send_beg = 0, sd_send_end = 0\<rparr>"

definition sample_stream :: rtmp_stream where
  "sample_stream = rtmp_stream_create\<lparr>rs_audio_codec := replicate MAX_OUTPUT_AUDIO_ENCODERS AUDIO_CODEC_AAC,
     rs_video_codec := replicate MAX_OUTPUT_VIDEO_ENCODERS CODEC_HEVC\<rparr>"

definition sample_headers :: "flv_request list" where
  "sample_headers = [Mux (header_packet OBS_ENCODER_AUDIO False [18, 16]) 0 True,
     Video_Start (header_packet OBS_ENCODER_VIDEO True [1, 0]) CODEC_HEVC 0]"

lemma sample_headers_ok: "io_ok sample_send" "headers_ok sample_send sample_stream"
  "header_requests sample_send sample_stream = sample_headers"
proof -
  note ms = tag_ms_def offset_ms_def get_ms_time_def signed_fit_def c_div_def header_packet_def to_i32_def
  show "io_ok sample_send" by (simp add: io_ok_def sample_send_def)
  show "headers_ok sample_send sample_stream"
    by (auto simp: headers_ok_def audio_header_ok_def video_header_ok_def audio_request_def video_request_def sample_send_def
      sample_stream_def codec_header_def fits_def offset_fits_def ms Let_def)
  show "header_requests sample_send sample_stream = sample_headers"
    by (simp add: header_requests_def audio_request_def video_request_def sample_send_def sample_stream_def codec_header_def
      sample_headers_def upt_rec Let_def)
qed

theorem session_reads_back_witness:
  "\<exists>st' sent waiting flags bs. session_run [Deliver sample_env (sample_flv OBS_ENCODER_VIDEO 3 3), Round sample_send]
      sample_stream [] = Some (st', sent) \<and> rs_written st' = bs \<and>
    read_tags (concat bs) = Some (map request_tag (session_requests sample_headers sample_stream sent)) \<and>
    length flags = 1 \<and> kept (zip [sample_flv OBS_ENCODER_VIDEO 3 3] flags) = sent @ waiting"
proof -
  note ms = tag_ms_def offset_ms_def get_ms_time_def signed_fit_def c_div_def to_i32_def sample_flv_def
  let ?p = "sample_flv OBS_ENCODER_VIDEO 3 3"
  have empty: "deque_repr (rs_packets sample_stream) []" "deque_repr (rs_dbr_frames sample_stream) []"
    "\<not> rs_stopped sample_stream" "\<not> rs_sent_headers sample_stream" "rs_written sample_stream = []"
    by (simp_all add: sample_stream_def rtmp_stream_create_def deque_repr_init)
  have "frame_ok sample_stream ?p"
    by (simp add: frame_ok_def frame_request_def sample_stream_def rtmp_stream_create_def fits_def offset_fits_def ms Let_def)
  then show ?thesis
    using session_reads_back [OF empty(1-4), of "[Deliver sample_env ?p, Round sample_send]" sample_headers] sample_headers_ok
      empty(5) by auto
qed

section \<open>The end of a session\<close>

definition footer_request :: "send_env \<Rightarrow> rtmp_stream \<Rightarrow> nat \<Rightarrow> flv_request list" where
  "footer_request E st i =
     (if sd_video E i = None \<or> (i = 0 \<and> rs_video_codec st ! i = CODEC_H264) then []
      else [Video_End (header_packet OBS_ENCODER_VIDEO False []) (rs_video_codec st ! i) i])"

definition footers_ok :: "send_env \<Rightarrow> rtmp_stream \<Rightarrow> bool" where
  "footers_ok E st \<longleftrightarrow> MAX_OUTPUT_VIDEO_ENCODERS \<le> length (rs_video_codec st) \<and>
     (\<forall>i < MAX_OUTPUT_VIDEO_ENCODERS. list_all request_ok (footer_request E st i))"

definition footer_requests :: "send_env \<Rightarrow> rtmp_stream \<Rightarrow> flv_request list" where
  "footer_requests E st = concat (map (footer_request E st) [0..<MAX_OUTPUT_VIDEO_ENCODERS])"

lemma footer_sends:
  assumes "io_ok E" "list_all request_ok (footer_request E st i)" "i < length (rs_video_codec st)" "core s = core st"
  shows "\<exists>s'. footer_step E i s = Some (True, s') \<and> sends s (footer_request E st i) s'"
proof -
  have c: "rs_video_codec s = rs_video_codec st" using core_eq(6) [OF assms(4)] .
  have n: "nth_opt (rs_video_codec s) i = Some (rs_video_codec st ! i)" using assms(3) by (simp add: nth_opt_def c)
  show ?thesis
  proof (cases "sd_video E i = None \<or> (i = 0 \<and> rs_video_codec st ! i = CODEC_H264)")
    case True
    then show ?thesis using n sends_none by (auto simp: footer_step_def footer_request_def)
  next
    case False
    let ?r = "Video_End (header_packet OBS_ENCODER_VIDEO False []) (rs_video_codec st ! i) i"
    have req: "footer_request E st i = [?r]" using False by (simp only: footer_request_def if_False)
    have "request_ok ?r" using assms(2) unfolding req by simp
    moreover have i: "i < length (rs_video_codec s)" using assms(3) c by simp
    ultimately have "\<exists>ret s'. send_packet_ex E (header_packet OBS_ENCODER_VIDEO False []) False True i s = Some (ret, s') \<and>
        0 \<le> ret \<and> sends s [?r] s'"
      by (intro send_packet_ex_ok [OF assms(1)]) (simp_all only: c if_True if_False)
    then obtain ret s' where s': "send_packet_ex E (header_packet OBS_ENCODER_VIDEO False []) False True i s = Some (ret, s')"
      "0 \<le> ret" "sends s [?r] s'" by (elim exE conjE)
    have "footer_step E i s = Some (True, s')"
      using False s'(1,2) by (auto simp: footer_step_def send_video_footer_def n)
    then show ?thesis using s'(3) unfolding req by blast
  qed
qed

lemma send_footers_ok:
  assumes "io_ok E" "footers_ok E st"
  shows "\<exists>s. send_footers E st = Some (True, s) \<and> sends st (footer_requests E st) s"
proof -
  have f: "\<exists>s'. footer_step E i s = Some (True, s') \<and> sends s (footer_request E st i) s'"
    if "i \<in> set [0..<MAX_OUTPUT_VIDEO_ENCODERS]" "core s = core st" for i s
    using footer_sends [OF assms(1) _ _ that(2), of i] that(1) assms(2) by (simp add: footers_ok_def)
  show ?thesis unfolding send_footers_def footer_requests_def
    using until_failure_sends [of _ st "footer_step E" "footer_request E st" st, OF f refl] by blast
qed

lemma free_packets_loop_repr:
  "deque_repr q xs \<Longrightarrow> length xs \<le> n \<Longrightarrow> \<exists>q'. free_packets_loop n q = Some q' \<and> deque_repr q' []"
proof (induction xs arbitrary: n q)
  case Nil
  then show ?case using size_repr [of q "[]"] by (subst free_packets_loop.simps) simp
next
  case (Cons x xs)
  obtain m where n: "n = Suc m" "length xs \<le> m" using Cons.prems(2) by (cases n) auto
  obtain q' where q': "pop_packet_front q = Some (x, q')" "deque_repr q' xs" using pop_packet_front_repr [OF Cons.prems(1)] by blast
  have "dq_size q \<noteq> 0" using size_repr [OF Cons.prems(1)] by simp
  then show ?case using Cons.IH [OF q'(2) n(2)] q'(1) n(1) by (subst free_packets_loop.simps) simp
qed

lemma free_packets_repr:
  "deque_repr (rs_packets st) xs \<Longrightarrow> \<exists>q. free_packets st = Some (st\<lparr>rs_packets := q\<rparr>) \<and> deque_repr q []"
  using free_packets_loop_repr [of "rs_packets st" xs "length xs"] size_repr [of "rs_packets st" xs]
  by (auto simp: free_packets_def num_buffered_packets_def)



end
