(* ===== verification/Video_Cache.thy ===== *)
theory Video_Cache
  imports Video_Io "HOL-Library.Sublist"
begin

text \<open>
  The frame cache under every interleaving of the graphics thread, the video thread and those who connect and
  disconnect: no step leaves the cache, the frames form a queue, and each input gets frames at a constant rate, also
  when it lags.
\<close>

section \<open>Ring\<close>

definition ring_repr :: "'a list \<Rightarrow> nat \<Rightarrow> nat \<Rightarrow> 'a list \<Rightarrow> bool" where
  "ring_repr c cs first q \<longleftrightarrow> length q \<le> cs \<and> cs \<le> length c \<and> (\<forall>k < length q. c ! ((first + k) mod cs) = q ! k)"

lemma ring_slot: "0 < cs \<Longrightarrow> cs \<le> length c \<Longrightarrow> (first + k) mod cs < length c"
  by (rule less_le_trans [OF mod_less_divisor])

lemma ring_distinct_le:
  fixes first :: nat
  assumes "j \<le> k" "k < cs" "(first + k) mod cs = (first + j) mod cs"
  shows "k = j"
proof -
  have "first + j \<le> first + k" using assms(1) by simp
  from mod_eq_dvd_iff_nat [OF this, of cs] have "cs dvd (first + k) - (first + j)" using assms(3) by (rule iffD1)
  then have "cs dvd k - j" by simp
  then show ?thesis using assms(1,2) by (auto dest: dvd_imp_le)
qed

lemma ring_distinct: "j < cs \<Longrightarrow> k < cs \<Longrightarrow> (first + j) mod cs = (first + k) mod cs \<Longrightarrow> j = k" for first :: nat
  by (metis nat_le_linear ring_distinct_le)

lemma ring_update:
  assumes "ring_repr c cs first q" "k < length q"
  shows "ring_repr (c[(first + k) mod cs := x]) cs first (q[k := x])"
proof -
  have l: "length q \<le> cs" "cs \<le> length c" "\<And>j. j < length q \<Longrightarrow> c ! ((first + j) mod cs) = q ! j"
    using assms(1) by (simp_all add: ring_repr_def)
  have "c[(first + k) mod cs := x] ! ((first + j) mod cs) = q[k := x] ! j" if j: "j < length q" for j
  proof (cases "j = k")
    case True
    then show ?thesis using ring_slot [of cs c first k] l assms(2) by simp
  next
    case False
    then have "(first + k) mod cs \<noteq> (first + j) mod cs" using ring_distinct [of k cs j first] j assms(2) l(1) by auto
    then show ?thesis using l(3) [OF j] False by simp
  qed
  then show ?thesis using l by (simp add: ring_repr_def)
qed

lemma ring_push:
  assumes "ring_repr c cs first q" "length q < cs"
  shows "ring_repr (c[(first + length q) mod cs := x]) cs first (q @ [x])"
proof -
  have l: "cs \<le> length c" "\<And>j. j < length q \<Longrightarrow> c ! ((first + j) mod cs) = q ! j"
    using assms(1) by (simp_all add: ring_repr_def)
  have "c[(first + length q) mod cs := x] ! ((first + j) mod cs) = (q @ [x]) ! j" if j: "j < length (q @ [x])" for j
  proof (cases "j = length q")
    case True
    then show ?thesis using ring_slot [of cs c first "length q"] l(1) assms(2) by simp
  next
    case False
    then have "j < length q" using j by simp
    moreover from this have "(first + length q) mod cs \<noteq> (first + j) mod cs"
      using ring_distinct [of "length q" cs j first] assms(2) by auto
    ultimately show ?thesis using l(2) by (simp add: nth_append)
  qed
  then show ?thesis using l(1) assms(2) by (simp add: ring_repr_def)
qed

lemma ring_pop: "ring_repr c cs first (x # q) \<Longrightarrow> ring_repr c cs ((first + 1) mod cs) q"
  unfolding ring_repr_def
proof (elim conjE, intro conjI allI impI)
  fix k assume "\<forall>k < length (x # q). c ! ((first + k) mod cs) = (x # q) ! k" "k < length q"
  then have "c ! ((first + Suc k) mod cs) = (x # q) ! Suc k" by (metis Suc_less_eq length_Cons)
  then show "c ! (((first + 1) mod cs + k) mod cs) = q ! k" by (simp add: mod_add_left_eq)
qed simp_all

lemma ring_head: "ring_repr c cs first (x # q) \<Longrightarrow> first < cs \<Longrightarrow> c ! first = x"
  by (auto simp: ring_repr_def)

lemma wrap_next: "first < cs \<Longrightarrow> (if first + 1 = cs then 0 else first + 1) = (first + 1) mod cs" for first :: nat
  by auto

section \<open>Threads\<close>

text \<open>The output, whether the graphics thread is between lock and unlock, the time of its next frame, and the callbacks made.\<close>

record video_sys =
  sy_out :: video_output
  sy_held :: bool
  sy_time :: u64
  sy_log :: "(u64 \<times> nat list) list"

text \<open>\<open>scales\<close> has the number of the frame first.\<close>

inductive video_step :: "(nat \<Rightarrow> nat \<Rightarrow> nat \<Rightarrow> bool) \<Rightarrow> video_sys \<Rightarrow> video_sys \<Rightarrow> bool" for scales where
  Frame_Lock: "\<not> sy_held s \<Longrightarrow> video_sleep slept now (sy_time s) (vo_frame_time (sy_out s)) = Some (n, t) \<Longrightarrow> 0 < n \<Longrightarrow>
    video_output_lock_frame n (sy_time s) (sy_out s) = Some (locked, vo) \<Longrightarrow>
    video_step scales s (s\<lparr>sy_out := vo, sy_held := locked, sy_time := t\<rparr>)"
| Frame_Unlock: "sy_held s \<Longrightarrow> video_output_unlock_frame (sy_out s) = Some vo \<Longrightarrow>
    video_step scales s (s\<lparr>sy_out := vo, sy_held := False\<rparr>)"
| Video_Thread: "video_thread_step (scales (length (sy_log s))) (sy_out s) = Some (calls, vo) \<Longrightarrow>
    video_step scales s (s\<lparr>sy_out := vo, sy_log := sy_log s @ calls\<rparr>)"
| Video_Connect: "video_output_connect2 created conversion divisor key (sy_out s) = (ok, vo) \<Longrightarrow>
    video_step scales s (s\<lparr>sy_out := vo\<rparr>)"
| Video_Disconnect: "video_output_disconnect2 key (sy_out s) = (ok, vo) \<Longrightarrow> video_step scales s (s\<lparr>sy_out := vo\<rparr>)"
| Video_Texture: "change \<in> {video_output_inc_texture_encoders, video_output_dec_texture_encoders,
      video_output_inc_texture_frames, video_output_inc_texture_skipped_frames} \<Longrightarrow>
    video_step scales s (s\<lparr>sy_out := change (sy_out s)\<rparr>)"
| Video_Stop: "video_step scales s (s\<lparr>sy_out := video_output_stop (sy_out s)\<rparr>)"

definition ticks :: "u64 \<Rightarrow> cached_frame_info \<Rightarrow> u64 list" where
  "ticks ft f = map (\<lambda>i. cf_timestamp f + of_nat i * ft) [0..<nat (cf_count f)]"

definition grid :: "u64 \<Rightarrow> u64 \<Rightarrow> nat \<Rightarrow> u64 list" where
  "grid t0 ft n = map (\<lambda>i. t0 + of_nat i * ft) [0..<n]"

text \<open>The frames in the cache, in order, the one being filled at the end.\<close>

definition ring_ok :: "bool \<Rightarrow> video_output \<Rightarrow> cached_frame_info list \<Rightarrow> bool" where
  "ring_ok held vo q \<longleftrightarrow> (let cs = vo_cache_size vo in
     0 < cs \<and> cs \<le> MAX_CACHE_SIZE \<and> length (vo_cache vo) = MAX_CACHE_SIZE \<and>
     vo_available_frames vo \<le> cs \<and> vo_first_added vo < cs \<and>
     ring_repr (vo_cache vo) cs (vo_first_added vo) q \<and> length q = cs - vo_available_frames vo + of_bool held \<and>
     vo_last_added vo = (if q = [] then vo_first_added vo else (vo_first_added vo + (length q - 1)) mod cs) \<and>
     (\<forall>f \<in> set q. 0 < cf_count f))"

text \<open>Once per queued frame the video thread is at work or the semaphore counts it.\<close>

definition thread_ok :: "video_output \<Rightarrow> bool" where
  "thread_ok vo \<longleftrightarrow>
     (vo_place vo \<notin> {Waiting, Exited} \<longrightarrow> vo_available_frames vo < vo_cache_size vo) \<and>
     (\<forall>i. vo_place vo = Giving i \<or> vo_place vo = Closing i \<longrightarrow> i = vo_first_added vo) \<and>
     (\<not> vo_stop vo \<longrightarrow> vo_place vo \<noteq> Exited \<and>
       vo_sem vo + of_bool (vo_place vo \<noteq> Waiting) = vo_cache_size vo - vo_available_frames vo)"

definition cache_ok :: "video_sys \<Rightarrow> cached_frame_info list \<Rightarrow> bool" where
  "cache_ok s q \<longleftrightarrow> ring_ok (sy_held s) (sy_out s) q \<and> thread_ok (sy_out s)"

definition is_closing :: "video_place \<Rightarrow> bool" where
  "is_closing p \<longleftrightarrow> (\<exists>i. p = Closing i)"

text \<open>All frames that are due: those given, then those in the cache; the first one there may just have been given.\<close>

definition grid_ok :: "u64 \<Rightarrow> u64 \<Rightarrow> video_sys \<Rightarrow> cached_frame_info list \<Rightarrow> bool" where
  "grid_ok t0 ft s q \<longleftrightarrow> vo_frame_time (sy_out s) = ft \<and> (\<exists>n gone. sy_time s = t0 + of_nat n * ft \<and>
     grid t0 ft n = gone @ concat (map (ticks ft) q) \<and>
     map fst (sy_log s) = gone @ (if is_closing (vo_place (sy_out s)) then [cf_timestamp (hd q)] else []))"

definition video_inv :: "u64 \<Rightarrow> u64 \<Rightarrow> video_sys \<Rightarrow> bool" where
  "video_inv t0 ft s \<longleftrightarrow> (\<exists>q. cache_ok s q \<and> grid_ok t0 ft s q)"

lemma grid_add: "grid t0 ft (n + m) = grid t0 ft n @ grid (t0 + of_nat n * ft) ft m"
  unfolding grid_def by (rule nth_equalityI) (auto simp: nth_append algebra_simps)

lemma ticks_grid: "ticks ft f = grid (cf_timestamp f) ft (nat (cf_count f))"
  by (simp add: ticks_def grid_def)

lemma sleep_time:
  assumes "video_sleep slept now t ft = Some (n, t')" "0 < n"
  shows "t' = t + of_nat (nat n) * ft"
  using assms by (auto simp: video_sleep_def Let_def mult.commute split: if_splits)

section \<open>Each step\<close>

lemma last_tick:
  assumes "grid t0 ft n = xs @ ticks ft f" "0 < cf_count f"
  shows "cf_timestamp f + of_nat (nat (cf_count f)) * ft = t0 + of_nat n * ft"
proof -
  obtain m where m: "nat (cf_count f) = Suc m" using assms(2) by (cases "nat (cf_count f)") auto
  have "grid t0 ft n \<noteq> []" using assms(1) m by (simp add: ticks_def)
  then obtain k where k: "n = Suc k" by (cases n) (auto simp: grid_def)
  have "last (grid t0 ft n) = last (ticks ft f)" using assms(1) m by (simp add: ticks_def)
  then have "t0 + of_nat k * ft = cf_timestamp f + of_nat m * ft" by (simp add: grid_def ticks_def k m)
  then show ?thesis by (simp add: k m algebra_simps)
qed

lemma lock_ok:
  assumes "cache_ok s q" "grid_ok t0 ft s q" "\<not> sy_held s" "0 < n" "t = sy_time s + of_nat (nat n) * ft"
  shows "\<exists>locked vo. video_output_lock_frame n (sy_time s) (sy_out s) = Some (locked, vo) \<and>
    video_inv t0 ft (s\<lparr>sy_out := vo, sy_held := locked, sy_time := t\<rparr>)"
proof -
  define vo cs where "vo = sy_out s" and "cs = vo_cache_size vo"
  have ok: "0 < cs" "cs \<le> MAX_CACHE_SIZE" "length (vo_cache vo) = MAX_CACHE_SIZE" "vo_available_frames vo \<le> cs"
    "vo_first_added vo < cs" "ring_repr (vo_cache vo) cs (vo_first_added vo) q" "length q = cs - vo_available_frames vo"
    "vo_last_added vo = (if q = [] then vo_first_added vo else (vo_first_added vo + (length q - 1)) mod cs)"
    "\<forall>f \<in> set q. 0 < cf_count f"
    using assms(1,3) by (simp_all add: cache_ok_def ring_ok_def vo_def cs_def Let_def)
  have th: "thread_ok vo" using assms(1) by (simp add: cache_ok_def vo_def)
  obtain m gone where g: "vo_frame_time vo = ft" "sy_time s = t0 + of_nat m * ft" "grid t0 ft m = gone @ concat (map (ticks ft) q)"
    "map fst (sy_log s) = gone @ (if is_closing (vo_place vo) then [cf_timestamp (hd q)] else [])"
    using assms(2) by (auto simp: grid_ok_def vo_def)
  have t: "t = t0 + of_nat (m + nat n) * ft" using assms(5) g(2) by (simp add: algebra_simps)
  have closing: "is_closing (vo_place vo) \<Longrightarrow> q \<noteq> []"
    using th ok(7) by (auto simp: thread_ok_def is_closing_def cs_def)
  have mid: "(vo_first_added vo + k) mod cs < length (vo_cache vo)" for k
    using ring_slot [OF ok(1), of "vo_cache vo"] ok(2,3) by simp
  show ?thesis
  proof (cases "vo_available_frames vo = 0")
    case True
    then have len: "length q = cs" "q \<noteq> []" using ok(1,7) by auto
    define f where "f = last q"
    define f' where "f' = f\<lparr>cf_count := cf_count f + n, cf_skipped := cf_skipped f + n\<rparr>"
    have qf: "q = butlast q @ [f]" using len(2) by (simp add: f_def)
    have at: "vo_last_added vo = (vo_first_added vo + (length q - 1)) mod cs" using ok(8) len by simp
    have "length q - 1 < length q" using len(2) by simp
    then have "vo_cache vo ! ((vo_first_added vo + (length q - 1)) mod cs) = q ! (length q - 1)"
      using ok(6) unfolding ring_repr_def by blast
    then have here: "vo_cache vo ! vo_last_added vo = f"
      unfolding at f_def last_conv_nth [OF len(2)] .
    define vo' where "vo' = vo\<lparr>vo_cache := (vo_cache vo)[vo_last_added vo := f']\<rparr>"
    define q' where "q' = butlast q @ [f']"
    have upd: "q[length q - 1 := f'] = q'"
      using list_update_length [of "butlast q" f "[]" f'] unfolding length_butlast qf [symmetric] by (simp add: q'_def)
    have "ring_repr (vo_cache vo') cs (vo_first_added vo) q'"
      using ring_update [OF ok(6), of "length q - 1" f'] len(2) unfolding upd vo'_def at by simp
    moreover have "length q' = length q" "q' \<noteq> []" using len(2) by (simp_all add: q'_def)
    moreover have f0: "0 < cf_count f" using ok(9) len(2) by (simp add: f_def)
    then have "\<forall>x \<in> set q'. 0 < cf_count x" using ok(9) assms(4) by (auto simp: q'_def f'_def dest: in_set_butlastD)
    ultimately have "cache_ok (s\<lparr>sy_out := vo', sy_held := False, sy_time := t\<rparr>) q'"
      using th ok len(2) by (simp add: cache_ok_def ring_ok_def thread_ok_def vo'_def cs_def [symmetric] Let_def)
    moreover have "ticks ft f' = ticks ft f @ grid (t0 + of_nat m * ft) ft (nat n)"
    proof -
      have "cf_timestamp f + of_nat (nat (cf_count f)) * ft = t0 + of_nat m * ft"
        by (rule last_tick [of _ _ _ "gone @ concat (map (ticks ft) (butlast q))"]) (use g(3) qf f0 in \<open>metis append_assoc concat.simps concat_append map_append list.simps(8,9) append_Nil2\<close>)+
      moreover have "nat (cf_count f + n) = nat (cf_count f) + nat n" using f0 assms(4) by (simp add: nat_add_distrib)
      ultimately show ?thesis using grid_add [of "cf_timestamp f" ft "nat (cf_count f)" "nat n"]
        by (simp only: ticks_grid) (simp add: f'_def)
    qed
    then have "grid t0 ft (m + nat n) = gone @ concat (map (ticks ft) q')"
    proof -
      assume "ticks ft f' = ticks ft f @ grid (t0 + of_nat m * ft) ft (nat n)"
      moreover have "concat (map (ticks ft) q) = concat (map (ticks ft) (butlast q)) @ ticks ft f" by (subst qf) simp
      ultimately show ?thesis using g(3) by (simp add: grid_add q'_def)
    qed
    moreover have "cf_timestamp (hd q') = cf_timestamp (hd q)"
      using arg_cong [OF qf, of hd] by (cases "butlast q") (simp_all add: q'_def f'_def)
    ultimately have "video_inv t0 ft (s\<lparr>sy_out := vo', sy_held := False, sy_time := t\<rparr>)"
      using g(1,4) t unfolding video_inv_def grid_ok_def by (intro exI [of _ q'] conjI exI [of _ "m + nat n"] exI [of _ gone]) (simp_all add: vo'_def)
    moreover have "video_output_lock_frame n (sy_time s) vo = Some (False, vo')"
      using True here mid [of "length q - 1"] at by (simp add: video_output_lock_frame_def vo'_def f'_def Let_def)
    ultimately show ?thesis unfolding vo_def by blast
  next
    case False
    then have len: "length q < cs" using ok(1,4,7) by simp
    define f where "f = \<lparr>cf_timestamp = sy_time s, cf_skipped = 0, cf_count = n\<rparr>"
    define place where "place = (vo_first_added vo + length q) mod cs"
    have pl: "(if vo_available_frames vo \<noteq> cs then (if vo_last_added vo + 1 = cs then 0 else vo_last_added vo + 1) else vo_last_added vo) = place"
    proof (cases "q = []")
      case True
      then show ?thesis using ok(4,5,7,8) by (simp add: place_def)
    next
      case False
      then obtain k where k: "length q = Suc k" by (cases q) simp_all
      then have "vo_available_frames vo \<noteq> cs" using ok(7) by simp
      moreover have at: "vo_last_added vo = (vo_first_added vo + k) mod cs" using ok(8) False k by simp
      then have "(if vo_last_added vo + 1 = cs then 0 else vo_last_added vo + 1) = (vo_last_added vo + 1) mod cs"
        using ok(1) by (intro wrap_next) simp
      ultimately show ?thesis by (simp only: simp_thms if_True place_def k at mod_simps add_Suc_right Suc_eq_plus1 add.assoc)
    qed
    define vo' where "vo' = vo\<lparr>vo_last_added := place, vo_cache := (vo_cache vo)[place := f]\<rparr>"
    have "ring_repr (vo_cache vo') cs (vo_first_added vo) (q @ [f])"
      using ring_push [OF ok(6) len, of f] by (simp add: vo'_def place_def)
    then have "cache_ok (s\<lparr>sy_out := vo', sy_held := True, sy_time := t\<rparr>) (q @ [f])"
      using th assms(4) ok by (simp add: cache_ok_def ring_ok_def thread_ok_def vo'_def cs_def [symmetric] Let_def place_def f_def)
    moreover have "ticks ft f = grid (t0 + of_nat m * ft) ft (nat n)" by (simp add: ticks_grid f_def g(2))
    then have "grid t0 ft (m + nat n) = gone @ concat (map (ticks ft) (q @ [f]))" using g(3) by (simp add: grid_add)
    ultimately have "video_inv t0 ft (s\<lparr>sy_out := vo', sy_held := True, sy_time := t\<rparr>)"
      using g(1,4) t closing unfolding video_inv_def grid_ok_def
      by (intro exI [of _ "q @ [f]"] conjI exI [of _ "m + nat n"] exI [of _ gone]) (simp_all add: vo'_def)
    moreover have "video_output_lock_frame n (sy_time s) vo = Some (True, vo')"
      unfolding video_output_lock_frame_def Let_def if_not_P [OF False] cs_def [symmetric] pl
      using mid [of "length q"] by (simp add: vo'_def f_def place_def)
    ultimately show ?thesis unfolding vo_def by blast
  qed
qed

lemma unlock_ok:
  assumes "cache_ok s q" "grid_ok t0 ft s q" "sy_held s"
  shows "\<exists>vo. video_output_unlock_frame (sy_out s) = Some vo \<and> video_inv t0 ft (s\<lparr>sy_out := vo, sy_held := False\<rparr>)"
proof -
  define vo where "vo = sy_out s"
  have len: "length q = vo_cache_size vo - vo_available_frames vo + 1" "length q \<le> vo_cache_size vo"
    using assms(1,3) by (simp_all add: cache_ok_def ring_ok_def ring_repr_def Let_def vo_def)
  then have free: "vo_available_frames vo \<noteq> 0" by auto
  define vo' where "vo' = vo\<lparr>vo_available_frames := vo_available_frames vo - 1, vo_sem := vo_sem vo + 1\<rparr>"
  have "cache_ok (s\<lparr>sy_out := vo', sy_held := False\<rparr>) q"
    using assms(1,3) free len unfolding cache_ok_def vo_def [symmetric]
    by (auto simp: ring_ok_def thread_ok_def Let_def vo'_def)
  moreover have "grid_ok t0 ft (s\<lparr>sy_out := vo', sy_held := False\<rparr>) q"
    using assms(2) by (simp add: grid_ok_def vo'_def vo_def [symmetric])
  ultimately have "video_inv t0 ft (s\<lparr>sy_out := vo', sy_held := False\<rparr>)" unfolding video_inv_def by blast
  then show ?thesis using free by (simp add: video_output_unlock_frame_def vo'_def vo_def)
qed

text \<open>What a step that only moves the video thread changes of the cache.\<close>

definition cache_part where
  "cache_part vo = (vo_cache_size vo, vo_available_frames vo, vo_first_added vo, vo_last_added vo, vo_cache vo, vo_frame_time vo)"

definition thread_part where "thread_part vo = (vo_place vo, vo_stop vo, vo_sem vo)"

lemma ring_same: "cache_part vo' = cache_part vo \<Longrightarrow> ring_ok held vo' q = ring_ok held vo q"
  by (simp add: ring_ok_def cache_part_def)

lemma thread_same: "cache_part vo' = cache_part vo \<Longrightarrow> thread_part vo' = thread_part vo \<Longrightarrow> thread_ok vo' = thread_ok vo"
  by (simp add: thread_ok_def cache_part_def thread_part_def)

lemma moved_inv:
  assumes "cache_ok s q" "grid_ok t0 ft s q" "sy_held s' = sy_held s" "sy_time s' = sy_time s"
    "cache_part (sy_out s') = cache_part (sy_out s)" "thread_ok (sy_out s')"
    "map fst (sy_log s') = map fst (sy_log s) @
       (if is_closing (vo_place (sy_out s')) \<and> \<not> is_closing (vo_place (sy_out s)) then [cf_timestamp (hd q)] else [])"
    "is_closing (vo_place (sy_out s)) \<Longrightarrow> is_closing (vo_place (sy_out s'))"
  shows "video_inv t0 ft s'"
proof -
  have "cache_ok s' q" using assms(1,3,6) ring_same [OF assms(5)] by (simp add: cache_ok_def)
  moreover have "grid_ok t0 ft s' q" using assms(2,4,5,7,8) by (auto simp: grid_ok_def cache_part_def)
  ultimately show ?thesis unfolding video_inv_def by blast
qed

lemma same_inv:
  assumes "cache_part vo = cache_part (sy_out s)" "thread_part vo = thread_part (sy_out s)" "video_inv t0 ft s"
  shows "video_inv t0 ft (s\<lparr>sy_out := vo\<rparr>)"
proof -
  obtain q where q: "cache_ok s q" "grid_ok t0 ft s q" using assms(3) unfolding video_inv_def by blast
  have "thread_ok vo" using q(1) thread_same [OF assms(1,2)] by (simp add: cache_ok_def)
  then show ?thesis using moved_inv [OF q, of "s\<lparr>sy_out := vo\<rparr>"] assms(1,2) by (simp add: thread_part_def)
qed

lemma texture_parts:
  assumes "change \<in> {video_output_inc_texture_encoders, video_output_dec_texture_encoders,
      video_output_inc_texture_frames, video_output_inc_texture_skipped_frames}"
  shows "cache_part (change vo) = cache_part vo" "thread_part (change vo) = thread_part vo"
    "vo_inputs (change vo) = vo_inputs vo"
  using assms by (auto simp: cache_part_def thread_part_def Let_def reset_frames_def
    video_output_inc_texture_encoders_def video_output_dec_texture_encoders_def
    video_output_inc_texture_frames_def video_output_inc_texture_skipped_frames_def split: if_splits)

lemma connect_parts:
  assumes "video_output_connect2 created conv d key vo = (ok, vo')"
  shows "cache_part vo' = cache_part vo" "thread_part vo' = thread_part vo"
  using assms
  by (auto simp: video_output_connect2_def Let_def cache_part_def thread_part_def reset_frames_def
      split: if_splits option.splits)

lemma disconnect_parts:
  assumes "video_output_disconnect2 key vo = (ok, vo')"
  shows "cache_part vo' = cache_part vo" "thread_part vo' = thread_part vo"
  using assms by (auto simp: video_output_disconnect2_def Let_def cache_part_def thread_part_def split: option.splits)

lemma video_stop_ok:
  assumes "video_inv t0 ft s"
  shows "video_inv t0 ft (s\<lparr>sy_out := video_output_stop (sy_out s)\<rparr>)"
proof -
  obtain q where q: "cache_ok s q" "grid_ok t0 ft s q" using assms unfolding video_inv_def by blast
  have "thread_ok (sy_out s)" using q(1) by (simp add: cache_ok_def)
  then have "thread_ok (video_output_stop (sy_out s))" by (simp add: thread_ok_def video_output_stop_def)
  then show ?thesis using moved_inv [OF q, of "s\<lparr>sy_out := video_output_stop (sy_out s)\<rparr>"]
    by (simp add: cache_part_def video_output_stop_def)
qed

lemma give_parts:
  "cache_part (snd (give_frame scales vo)) = cache_part vo" "thread_part (snd (give_frame scales vo)) = thread_part vo"
  by (simp_all add: give_frame_def Let_def cache_part_def thread_part_def)

lemma thread_moves_ok:
  assumes "cache_ok s q" "grid_ok t0 ft s q" "vo_place (sy_out s) \<in> {Waiting, Testing, Taking, Exited}"
  shows "\<exists>vo. video_thread_step scales (sy_out s) = Some ([], vo) \<and> video_inv t0 ft (s\<lparr>sy_out := vo, sy_log := sy_log s @ []\<rparr>)"
proof -
  define vo where "vo = snd (the (video_thread_step scales (sy_out s)))"
  have step: "video_thread_step scales (sy_out s) = Some ([], vo)"
    using assms(3) by (auto simp: vo_def video_thread_step_def)
  have "thread_ok (sy_out s)" using assms(1) by (simp add: cache_ok_def)
  then have "thread_ok vo"
    using assms(3) unfolding vo_def video_thread_step_def
    by (elim insertE emptyE; simp add: thread_ok_def count_frame_def; arith?)
  moreover have "cache_part vo = cache_part (sy_out s)" "is_closing (vo_place vo) = is_closing (vo_place (sy_out s))"
    using assms(3) unfolding vo_def video_thread_step_def
    by (elim insertE emptyE; simp add: cache_part_def count_frame_def is_closing_def)+
  ultimately show ?thesis using step moved_inv [OF assms(1,2), of "s\<lparr>sy_out := vo, sy_log := sy_log s @ []\<rparr>"] by auto
qed

lemma queue_head:
  assumes "cache_ok s q" "vo_place (sy_out s) = Giving i \<or> vo_place (sy_out s) = Closing i"
  obtains x qs where "q = x # qs" "vo_cache (sy_out s) ! i = x" "i = vo_first_added (sy_out s)" "i < length (vo_cache (sy_out s))"
proof -
  have "i = vo_first_added (sy_out s)" "vo_available_frames (sy_out s) < vo_cache_size (sy_out s)"
    using assms by (auto simp: cache_ok_def thread_ok_def)
  moreover from this have "vo_first_added (sy_out s) < vo_cache_size (sy_out s)" "vo_cache_size (sy_out s) \<le> length (vo_cache (sy_out s))"
    "q \<noteq> []" "ring_repr (vo_cache (sy_out s)) (vo_cache_size (sy_out s)) (vo_first_added (sy_out s)) q"
    using assms(1) by (auto simp: cache_ok_def ring_ok_def Let_def)
  ultimately show ?thesis using that by (cases q) (auto dest: ring_head)
qed

lemma give_ok:
  assumes "cache_ok s q" "grid_ok t0 ft s q" "vo_place (sy_out s) = Giving i"
  shows "\<exists>calls vo. video_thread_step scales (sy_out s) = Some (calls, vo) \<and>
    video_inv t0 ft (s\<lparr>sy_out := vo, sy_log := sy_log s @ calls\<rparr>)"
proof -
  obtain x qs where q: "q = x # qs" "vo_cache (sy_out s) ! i = x" "i = vo_first_added (sy_out s)"
      "i < length (vo_cache (sy_out s))"
    using queue_head [OF assms(1)] assms(3) by blast
  define keys vo where "keys = fst (give_frame scales (sy_out s))"
    and "vo = (snd (give_frame scales (sy_out s)))\<lparr>vo_place := Closing i\<rparr>"
  have "video_thread_step scales (sy_out s) = Some ([(cf_timestamp x, keys)], vo)"
    using assms(3) q by (simp add: video_thread_step_def keys_def vo_def split: prod.split)
  moreover have "cache_part vo = cache_part (sy_out s)" unfolding vo_def using give_parts(1) [of scales "sy_out s"] by (simp add: cache_part_def)
  moreover from this have "thread_ok vo"
    using assms(1,3) q(3) give_parts(2) [of scales "sy_out s"]
    by (simp add: cache_ok_def thread_ok_def cache_part_def thread_part_def vo_def)
  ultimately show ?thesis
    using moved_inv [OF assms(1,2), of "s\<lparr>sy_out := vo, sy_log := sy_log s @ [(cf_timestamp x, keys)]\<rparr>"] assms(3) q(1)
    by (auto simp: is_closing_def vo_def)
qed

lemma ring_okI:
  assumes "vo_cache_size vo = cs" "0 < cs" "cs \<le> MAX_CACHE_SIZE" "length (vo_cache vo) = MAX_CACHE_SIZE"
    "vo_available_frames vo \<le> cs" "vo_first_added vo < cs" "ring_repr (vo_cache vo) cs (vo_first_added vo) q"
    "length q = cs - vo_available_frames vo + of_bool held"
    "vo_last_added vo = (if q = [] then vo_first_added vo else (vo_first_added vo + (length q - 1)) mod cs)"
    "\<forall>f \<in> set q. 0 < cf_count f"
  shows "ring_ok held vo q"
  using assms(2-) unfolding ring_ok_def assms(1) Let_def by (intro conjI)

text \<open>\<^const>\<open>close_frame\<close> at the first frame, which counts once more or is complete.\<close>

lemma close_cases:
  assumes "i < length (vo_cache vo)" "vo_cache vo ! i = x"
  obtains (complete) "cf_count x = 1" "close_frame i vo = Some (True, vo\<lparr>
      vo_cache := (vo_cache vo)[i := x\<lparr>cf_timestamp := cf_timestamp x + vo_frame_time vo, cf_count := 0\<rparr>],
      vo_first_added := (if vo_first_added vo + 1 = vo_cache_size vo then 0 else vo_first_added vo + 1),
      vo_available_frames := vo_available_frames vo + 1,
      vo_last_added := (if vo_available_frames vo + 1 = vo_cache_size vo
        then (if vo_first_added vo + 1 = vo_cache_size vo then 0 else vo_first_added vo + 1) else vo_last_added vo)\<rparr>)"
  | (again) y k where "cf_count x \<noteq> 1" "cf_timestamp y = cf_timestamp x + vo_frame_time vo" "cf_count y = cf_count x - 1"
      "close_frame i vo = Some (False, vo\<lparr>vo_cache := (vo_cache vo)[i := y], vo_skipped_frames := k\<rparr>)"
proof (cases "cf_count x = 1")
  case True
  then show ?thesis using assms by (intro complete) (simp_all add: close_frame_def Let_def)
next
  case False
  let ?y = "x\<lparr>cf_timestamp := cf_timestamp x + vo_frame_time vo, cf_count := cf_count x - 1\<rparr>"
  show ?thesis
  proof (cases "cf_skipped x > 0")
    case True
    show ?thesis
      by (rule again [OF False, of "?y\<lparr>cf_skipped := cf_skipped x - 1\<rparr>" "vo_skipped_frames vo + 1"])
        (use True False assms in \<open>simp_all add: close_frame_def Let_def\<close>)
  next
    case False': False
    show ?thesis
      by (rule again [OF False, of ?y "vo_skipped_frames vo"])
        (use False' False assms in \<open>simp_all add: close_frame_def Let_def\<close>)
  qed
qed

lemma ticks_Cons:
  assumes "0 < cf_count x" "cf_timestamp y = cf_timestamp x + ft" "cf_count y = cf_count x - 1"
  shows "ticks ft x = cf_timestamp x # ticks ft y"
proof -
  have "nat (cf_count x) = 1 + nat (cf_count y)" using assms(1,3) by simp
  then show ?thesis unfolding ticks_grid assms(2) by (simp only: grid_add) (simp add: grid_def)
qed

lemma close_done_ok:
  assumes "ring_ok held vo (x # qs)" "thread_ok vo" "vo_place vo = Closing (vo_first_added vo)"
    "first = (if vo_first_added vo + 1 = vo_cache_size vo then 0 else vo_first_added vo + 1)"
    "vo' = vo\<lparr>vo_cache := (vo_cache vo)[vo_first_added vo := y], vo_first_added := first,
        vo_available_frames := vo_available_frames vo + 1,
        vo_last_added := (if vo_available_frames vo + 1 = vo_cache_size vo then first else vo_last_added vo),
        vo_place := Waiting, vo_total_frames := k\<rparr>"
  shows "ring_ok held vo' qs \<and> thread_ok vo'"
proof
  define cs where "cs = vo_cache_size vo"
  have ok: "0 < cs" "cs \<le> MAX_CACHE_SIZE" "length (vo_cache vo) = MAX_CACHE_SIZE"
    "vo_first_added vo < cs" "ring_repr (vo_cache vo) cs (vo_first_added vo) (x # qs)"
    "Suc (length qs) = cs - vo_available_frames vo + of_bool held"
    "vo_last_added vo = (vo_first_added vo + length qs) mod cs" "\<forall>f \<in> set qs. 0 < cf_count f"
    using assms(1) by (simp_all add: ring_ok_def Let_def cs_def)
  have free: "vo_available_frames vo < cs" using assms(2,3) by (simp add: thread_ok_def cs_def)
  have first: "first = (vo_first_added vo + 1) mod cs" unfolding assms(4) cs_def [symmetric] by (rule wrap_next [OF ok(4)])
  have "ring_repr ((vo_cache vo)[vo_first_added vo := y]) cs (vo_first_added vo) (y # qs)"
    using ring_update [OF ok(5), of 0 y] ok(4) by simp
  then have ring: "ring_repr ((vo_cache vo)[vo_first_added vo := y]) cs first qs" unfolding first by (rule ring_pop)
  have at: "(if vo_available_frames vo + 1 = cs then first else vo_last_added vo) =
      (if qs = [] then first else (first + (length qs - 1)) mod cs)"
  proof (cases qs)
    case Nil
    then have "vo_available_frames vo + 1 = cs" using ok(6) free by auto
    then show ?thesis using Nil by simp
  next
    case (Cons f fs)
    have "(vo_first_added vo + length qs) mod cs = (first + (length qs - 1)) mod cs"
      unfolding first by (simp add: Cons mod_simps)
    moreover have "length fs = 0" if "vo_available_frames vo + 1 = cs" using ok(6) that Cons by (cases held) auto
    ultimately show ?thesis unfolding ok(7) using Cons first by simp
  qed
  have "first < cs" using ok(1) by (simp add: first)
  moreover have "length qs = cs - (vo_available_frames vo + 1) + of_bool held" using ok(6) free by simp
  moreover have "vo_cache_size vo' = cs" "vo_cache vo' = (vo_cache vo)[vo_first_added vo := y]"
    "vo_available_frames vo' = vo_available_frames vo + 1" "vo_first_added vo' = first"
    "vo_last_added vo' = (if vo_available_frames vo + 1 = cs then first else vo_last_added vo)"
    by (simp_all add: assms(5) cs_def)
  note new = this
  ultimately show "ring_ok held vo' qs"
    by (intro ring_okI [of _ cs]) (unfold new at, use ok(1-3,8) ring free in simp_all)
  show "thread_ok vo'" using assms(2,3) free by (auto simp: thread_ok_def assms(5) cs_def)
qed

lemma close_ok:
  assumes "cache_ok s q" "grid_ok t0 ft s q" "vo_place (sy_out s) = Closing i"
  shows "\<exists>vo. video_thread_step scales (sy_out s) = Some ([], vo) \<and> video_inv t0 ft (s\<lparr>sy_out := vo, sy_log := sy_log s @ []\<rparr>)"
proof -
  obtain x qs where q: "q = x # qs" "vo_cache (sy_out s) ! i = x" "i = vo_first_added (sy_out s)"
      "i < length (vo_cache (sy_out s))"
    using queue_head [OF assms(1)] assms(3) by blast
  have ok: "ring_ok (sy_held s) (sy_out s) (x # qs)" "thread_ok (sy_out s)"
    using assms(1) unfolding cache_ok_def q(1) by simp_all
  then have pos: "0 < cf_count x" by (simp add: ring_ok_def Let_def)
  obtain n gone where g: "vo_frame_time (sy_out s) = ft" "sy_time s = t0 + of_nat n * ft"
      "grid t0 ft n = gone @ concat (map (ticks ft) q)" "map fst (sy_log s) = gone @ [cf_timestamp x]"
    using assms(2,3) q(1) by (auto simp: grid_ok_def is_closing_def)
  from q(4,2) show ?thesis
  proof (cases rule: close_cases)
    case complete
    define vo where "vo = count_frame ((snd (the (close_frame i (sy_out s))))\<lparr>vo_place := Waiting\<rparr>)"
    have "video_thread_step scales (sy_out s) = Some ([], vo)" using assms(3) complete(2) by (simp add: video_thread_step_def vo_def)
    moreover have "ring_ok (sy_held s) vo qs \<and> thread_ok vo"
      by (rule close_done_ok [OF ok(1,2) assms(3) [unfolded q(3)] refl,
            where y = "x\<lparr>cf_timestamp := cf_timestamp x + vo_frame_time (sy_out s), cf_count := 0\<rparr>"
              and k = "vo_total_frames (sy_out s) + 1"])
        (simp add: vo_def complete(2) count_frame_def, simp add: q(3))
    then have "cache_ok (s\<lparr>sy_out := vo, sy_log := sy_log s @ []\<rparr>) qs" by (simp add: cache_ok_def)
    moreover have "ticks ft x = [cf_timestamp x]" using complete(1) by (simp add: ticks_def)
    then have "grid_ok t0 ft (s\<lparr>sy_out := vo, sy_log := sy_log s @ []\<rparr>) qs"
      using g q(1) unfolding grid_ok_def
      by (intro conjI exI [of _ n] exI [of _ "gone @ [cf_timestamp x]"]) (simp_all add: vo_def complete(2) count_frame_def is_closing_def)
    ultimately show ?thesis unfolding video_inv_def by blast
  next
    case (again y k)
    define vo where "vo = count_frame ((snd (the (close_frame i (sy_out s))))\<lparr>vo_place := Testing\<rparr>)"
    have vo: "vo = (sy_out s)\<lparr>vo_cache := (vo_cache (sy_out s))[i := y], vo_skipped_frames := k, vo_place := Testing,
        vo_total_frames := vo_total_frames (sy_out s) + 1\<rparr>"
      by (simp add: vo_def again(4) count_frame_def)
    have step: "video_thread_step scales (sy_out s) = Some ([], vo)"
      using assms(3) again(4) by (simp add: video_thread_step_def vo_def)
    have "ring_repr ((vo_cache (sy_out s))[i := y]) (vo_cache_size (sy_out s)) (vo_first_added (sy_out s)) (y # qs)"
    proof -
      have r: "ring_repr (vo_cache (sy_out s)) (vo_cache_size (sy_out s)) (vo_first_added (sy_out s)) (x # qs)"
        "vo_first_added (sy_out s) < vo_cache_size (sy_out s)"
        using ok(1) by (simp_all add: ring_ok_def Let_def)
      show ?thesis using ring_update [OF r(1), of 0 y] r(2) by (simp add: q(3))
    qed
    moreover have "vo_cache_size vo = vo_cache_size (sy_out s)" "vo_cache vo = (vo_cache (sy_out s))[i := y]"
      "vo_available_frames vo = vo_available_frames (sy_out s)" "vo_first_added vo = vo_first_added (sy_out s)"
      "vo_last_added vo = vo_last_added (sy_out s)"
      by (simp_all add: vo)
    note new = this
    ultimately have "ring_ok (sy_held s) vo (y # qs)"
      using ok(1) by (intro ring_okI [OF new(1)], unfold new) (use pos again(1,3) in \<open>auto simp: ring_ok_def Let_def\<close>)
    moreover have "thread_ok vo" using ok(2) assms(3) by (simp add: thread_ok_def vo)
    ultimately have "cache_ok (s\<lparr>sy_out := vo, sy_log := sy_log s @ []\<rparr>) (y # qs)" by (simp add: cache_ok_def)
    moreover have "grid_ok t0 ft (s\<lparr>sy_out := vo, sy_log := sy_log s @ []\<rparr>) (y # qs)"
      using g q(1) ticks_Cons [OF pos again(2) [unfolded g(1)] again(3)] unfolding grid_ok_def
      by (intro conjI exI [of _ n] exI [of _ "gone @ [cf_timestamp x]"]) (simp_all add: vo is_closing_def)
    ultimately show ?thesis using step unfolding video_inv_def by blast
  qed
qed

lemma thread_step_ok:
  assumes "video_inv t0 ft s"
  shows "\<exists>calls vo. video_thread_step scales (sy_out s) = Some (calls, vo) \<and>
    video_inv t0 ft (s\<lparr>sy_out := vo, sy_log := sy_log s @ calls\<rparr>)"
proof -
  obtain q where q: "cache_ok s q" "grid_ok t0 ft s q" using assms unfolding video_inv_def by blast
  show ?thesis
  proof (cases "vo_place (sy_out s)")
    case (Giving i)
    then show ?thesis by (rule give_ok [OF q])
  next
    case (Closing i)
    then show ?thesis using close_ok [OF q] by blast
  qed (use thread_moves_ok [OF q] in blast)+
qed

lemma video_step_inv:
  assumes "video_step scales s s'" "video_inv t0 ft s"
  shows "video_inv t0 ft s'"
proof -
  obtain q where q: "cache_ok s q" "grid_ok t0 ft s q" using assms(2) unfolding video_inv_def by blast
  have ft: "vo_frame_time (sy_out s) = ft" using q(2) by (simp add: grid_ok_def)
  from assms(1) show ?thesis
  proof cases
    case (Frame_Lock slept now n t locked vo)
    then show ?thesis using lock_ok [OF q Frame_Lock(2) Frame_Lock(4) sleep_time [OF Frame_Lock(3)[unfolded ft] Frame_Lock(4)]] by auto
  next
    case (Frame_Unlock vo)
    then show ?thesis using unlock_ok [OF q] by auto
  next
    case (Video_Thread calls vo)
    then show ?thesis using thread_step_ok [OF assms(2), of "scales (length (sy_log s))"] by auto
  next
    case (Video_Connect created conv d key ok vo)
    then show ?thesis using connect_parts [OF Video_Connect(2)] same_inv assms(2) by blast
  next
    case (Video_Disconnect key ok vo)
    then show ?thesis using disconnect_parts [OF Video_Disconnect(2)] same_inv assms(2) by blast
  next
    case (Video_Texture change)
    then show ?thesis using texture_parts [OF Video_Texture(2)] same_inv assms(2) by blast
  next
    case Video_Stop
    then show ?thesis using video_stop_ok [OF assms(2)] by simp
  qed
qed

lemma video_steps_inv: "(video_step scales)\<^sup>*\<^sup>* s s' \<Longrightarrow> video_inv t0 ft s \<Longrightarrow> video_inv t0 ft s'"
  by (induction rule: rtranclp_induct) (auto dest: video_step_inv)

section \<open>Whole runs\<close>

definition video_start :: "video_output \<Rightarrow> u64 \<Rightarrow> video_sys" where
  "video_start vo t0 = \<lparr>sy_out = vo, sy_held = False, sy_time = t0, sy_log = []\<rparr>"

lemma start_inv:
  assumes "video_output_open info = Some vo" "0 < voi_cache_size info"
  shows "video_inv t0 (vo_frame_time vo) (video_start vo t0)"
proof -
  define cs where "cs = min (voi_cache_size info) MAX_CACHE_SIZE"
  have cs: "0 < cs" "cs \<le> MAX_CACHE_SIZE" using assms(2) by (simp_all add: cs_def MAX_CACHE_SIZE_def)
  have vo: "vo_cache_size vo = cs" "vo_available_frames vo = cs" "vo_first_added vo = 0" "vo_last_added vo = 0"
    "length (vo_cache vo) = MAX_CACHE_SIZE" "vo_place vo = Waiting" "vo_sem vo = 0"
    using assms(1) by (auto simp: video_output_open_def Let_def cs_def split: if_splits)
  have "cache_ok (video_start vo t0) []"
    using cs by (simp add: cache_ok_def ring_ok_def thread_ok_def ring_repr_def Let_def video_start_def vo)
  moreover have "grid_ok t0 (vo_frame_time vo) (video_start vo t0) []"
    by (simp add: grid_ok_def video_start_def grid_def vo(6) is_closing_def)
  ultimately show ?thesis unfolding video_inv_def by blast
qed

lemma given_prefix:
  assumes "cache_ok s q" "grid t0 ft n = gone @ concat (map (ticks ft) q)"
    "map fst (sy_log s) = gone @ (if is_closing (vo_place (sy_out s)) then [cf_timestamp (hd q)] else [])"
  shows "prefix (map fst (sy_log s)) (grid t0 ft n)"
proof (cases "is_closing (vo_place (sy_out s))")
  case True
  then obtain i where "vo_place (sy_out s) = Closing i" by (auto simp: is_closing_def)
  then obtain x qs where q: "q = x # qs" using queue_head [OF assms(1)] by blast
  then have "0 < cf_count x" using assms(1) by (simp add: cache_ok_def ring_ok_def Let_def)
  from ticks_Cons [OF this, of "x\<lparr>cf_timestamp := cf_timestamp x + ft, cf_count := cf_count x - 1\<rparr>" ft]
  show ?thesis unfolding assms(2,3) q using True by simp
qed (simp add: assms(2,3))

lemma drained:
  assumes "cache_ok s q" "vo_available_frames (sy_out s) = vo_cache_size (sy_out s)" "\<not> sy_held s"
  shows "q = []" "\<not> is_closing (vo_place (sy_out s))"
  using assms by (auto simp: cache_ok_def ring_ok_def thread_ok_def Let_def is_closing_def)


text \<open>C38: and in every state so reached, the next step of the video thread, unlocking a locked frame and locking a frame
  succeed: no index leaves the cache, no frame is closed that is not there, and the size of the queue never wraps.\<close>

theorem cache_accesses_in_range:
  assumes "video_output_open info = Some vo" "0 < voi_cache_size info"
    "(video_step scales)\<^sup>*\<^sup>* (video_start vo t0) s" "0 < n"
  shows "video_thread_step scaled (sy_out s) \<noteq> None \<and>
    (if sy_held s then video_output_unlock_frame (sy_out s) \<noteq> None
     else video_output_lock_frame n (sy_time s) (sy_out s) \<noteq> None)"
proof -
  have inv: "video_inv t0 (vo_frame_time vo) s" by (rule video_steps_inv [OF assms(3) start_inv [OF assms(1,2)]])
  then obtain q where q: "cache_ok s q" "grid_ok t0 (vo_frame_time vo) s q" unfolding video_inv_def by blast
  show ?thesis using thread_step_ok [OF inv, of scaled] unlock_ok [OF q] lock_ok [OF q _ assms(4) refl] by (cases "sy_held s") auto
qed

section \<open>Frame rate divisors\<close>

definition connected :: "nat \<Rightarrow> video_sys \<Rightarrow> bool" where
  "connected key s \<longleftrightarrow> (\<exists>i \<in> set (vo_inputs (sy_out s)). vi_key i = key)"

definition inputs_of :: "nat \<Rightarrow> video_output \<Rightarrow> video_input list" where
  "inputs_of key vo = filter (\<lambda>i. vi_key i = key) (vo_inputs vo)"

lemma input_key: "vi_key (snd (input_frame scales i)) = vi_key i"
  by (simp add: input_frame_def scale_video_output_def Let_def)

lemma give_inputs: "inputs_of key (snd (give_frame scales vo)) = map (\<lambda>i. snd (input_frame scales i)) (inputs_of key vo)"
  by (simp add: inputs_of_def give_frame_def Let_def filter_map o_def input_key)

lemma give_key: "key \<in> set (fst (give_frame scales vo)) \<longleftrightarrow> (\<exists>i \<in> set (inputs_of key vo). fst (input_frame scales i))"
proof -
  have "key \<in> set (map (\<lambda>(_, i). vi_key i) (filter fst (map f xs))) \<longleftrightarrow> (\<exists>i \<in> set xs. fst (f i) \<and> vi_key (snd (f i)) = key)"
    for f :: "video_input \<Rightarrow> bool \<times> video_input" and xs
    by (induction xs) (auto simp: case_prod_beta)
  then show ?thesis by (auto simp: give_frame_def Let_def inputs_of_def input_key)
qed

lemma input_rounds:
  assumes "vi_counter i = of_nat (n mod unat (vi_divisor i))" "vi_divisor i \<noteq> 0" "\<And>k. scales (vi_key i) k"
  shows "fst (input_frame scales i) \<longleftrightarrow> n mod unat (vi_divisor i) = 0"
    "vi_counter (snd (input_frame scales i)) = of_nat (Suc n mod unat (vi_divisor i))"
    "vi_divisor (snd (input_frame scales i)) = vi_divisor i"
proof -
  let ?d = "unat (vi_divisor i)"
  have d: "0 < ?d" "n mod ?d < ?d" using assms(2) by (simp_all add: unat_gt_0)
  have lt: "?d < 2 ^ 32" using unsigned_less [of "vi_divisor i"] by simp
  have "unat (vi_counter i) = n mod ?d" unfolding assms(1) using d lt by (simp add: unat_of_nat)
  then have c0: "vi_counter i = 0 \<longleftrightarrow> n mod ?d = 0" by (metis unsigned_0 unat_eq_0)
  then show "fst (input_frame scales i) \<longleftrightarrow> n mod ?d = 0"
    using assms(3) by (simp add: input_frame_def scale_video_output_def Let_def)
  have "vi_counter i + 1 = of_nat (Suc (n mod ?d))" by (simp add: assms(1))
  moreover have "vi_counter i + 1 = vi_divisor i \<longleftrightarrow> Suc (n mod ?d) = ?d"
  proof -
    have "unat (of_nat (Suc (n mod ?d)) :: u32) = Suc (n mod ?d)"
      using d lt by (simp add: unat_of_nat del: of_nat_Suc)
    then show ?thesis unfolding calculation word_unat_eq_iff by simp
  qed
  moreover have "vi_counter (snd (input_frame scales i)) = (if vi_counter i + 1 = vi_divisor i then 0 else vi_counter i + 1)"
    by (simp only: input_frame_def scale_video_output_def Let_def) simp
  ultimately have new: "vi_counter (snd (input_frame scales i)) = (if Suc (n mod ?d) = ?d then 0 else of_nat (Suc (n mod ?d)))"
    by (simp only:)
  show "vi_counter (snd (input_frame scales i)) = of_nat (Suc n mod ?d)"
  proof (cases "Suc (n mod ?d) = ?d")
    case True
    show ?thesis unfolding new mod_Suc if_P [OF True] by simp
  next
    case False
    show ?thesis unfolding new mod_Suc if_not_P [OF False] by (rule refl)
  qed
  show "vi_divisor (snd (input_frame scales i)) = vi_divisor i"
    by (simp add: input_frame_def scale_video_output_def Let_def)
qed

text \<open>The only input of a callback has its divisor, and its counter tells the frames given since it was connected.\<close>

definition divides :: "nat \<Rightarrow> u32 \<Rightarrow> nat \<Rightarrow> video_output \<Rightarrow> bool" where
  "divides key d n vo \<longleftrightarrow>
     (\<exists>i. inputs_of key vo = [i] \<and> vi_key i = key \<and> vi_divisor i = d \<and> vi_counter i = of_nat (n mod unat d))"

lemma divides_same: "vo_inputs vo' = vo_inputs vo \<Longrightarrow> divides key d n vo' = divides key d n vo"
  by (simp add: divides_def inputs_of_def)

lemma lock_inputs: "video_output_lock_frame n t vo = Some (l, vo') \<Longrightarrow> vo_inputs vo' = vo_inputs vo"
  by (auto simp: video_output_lock_frame_def Let_def split: if_splits)

lemma unlock_inputs: "video_output_unlock_frame vo = Some vo' \<Longrightarrow> vo_inputs vo' = vo_inputs vo"
  by (auto simp: video_output_unlock_frame_def split: if_splits)

lemma divides_open: "divides key d n vo \<Longrightarrow> video_get_input_idx vo key \<noteq> None"
  by (auto simp: divides_def inputs_of_def video_get_input_idx_def first_idx_None filter_eq_Cons_iff)

lemma connect_divides:
  assumes "video_output_connect2 created conv d' key' vo = (ok, vo')" "divides key d n vo"
  shows "divides key d n vo'"
proof (cases ok)
  case True
  then have "key' \<noteq> key" using assms divides_open [OF assms(2)] by (auto simp: video_output_connect2_def split: if_splits)
  moreover obtain i where "vo_inputs vo' = vo_inputs vo @ [i]" "vi_key i = key'"
    using assms(1) True
    by (auto simp: video_output_connect2_def video_input_init_def reset_frames_def Let_def split: if_splits option.splits)
  ultimately show ?thesis using assms(2) by (simp add: divides_def inputs_of_def)
next
  case False
  then have "vo' = vo" using assms(1) by (auto simp: video_output_connect2_def Let_def split: if_splits option.splits)
  then show ?thesis using assms(2) by simp
qed

lemma disconnect_divides:
  assumes "video_output_disconnect2 key' vo = (ok, vo')" "divides key d n vo" "\<exists>i \<in> set (vo_inputs vo'). vi_key i = key"
  shows "divides key d n vo'"
proof (cases "video_get_input_idx vo key'")
  case None
  then show ?thesis using assms(1,2) by (simp add: video_output_disconnect2_def)
next
  case (Some idx)
  then have idx: "idx < length (vo_inputs vo)" "vi_key (vo_inputs vo ! idx) = key'"
    by (simp_all add: video_get_input_idx_def first_idx_Some)
  have new: "vo_inputs vo' = take idx (vo_inputs vo) @ drop (idx + 1) (vo_inputs vo)"
    using assms(1) Some by (auto simp: video_output_disconnect2_def Let_def)
  have "vo_inputs vo = take idx (vo_inputs vo) @ vo_inputs vo ! idx # drop (Suc idx) (vo_inputs vo)"
    by (rule id_take_nth_drop [OF idx(1)])
  from arg_cong [OF this, of "filter (\<lambda>i. vi_key i = key)"]
  have old: "inputs_of key vo = filter (\<lambda>i. vi_key i = key) (take idx (vo_inputs vo)) @
      (if key' = key then [vo_inputs vo ! idx] else []) @ filter (\<lambda>i. vi_key i = key) (drop (idx + 1) (vo_inputs vo))"
    unfolding inputs_of_def filter_append filter.simps idx(2) by simp
  have rest: "inputs_of key vo' = filter (\<lambda>i. vi_key i = key) (take idx (vo_inputs vo)) @
      filter (\<lambda>i. vi_key i = key) (drop (idx + 1) (vo_inputs vo))"
    unfolding inputs_of_def new by simp
  have "inputs_of key vo' \<noteq> []" using assms(3) by (auto simp: inputs_of_def filter_empty_conv)
  moreover have "length (inputs_of key vo) = 1" using assms(2) by (auto simp: divides_def)
  ultimately have "key' \<noteq> key" unfolding old rest by (auto split: if_splits)
  then have "inputs_of key vo' = inputs_of key vo" unfolding old rest by simp
  then show ?thesis using assms(2) by (simp add: divides_def)
qed

lemma close_inputs:
  assumes "close_frame idx vo = Some (c, vo')"
  shows "vo_inputs vo' = vo_inputs vo"
proof (cases "idx < length (vo_cache vo)")
  case True
  from True refl show ?thesis by (rule close_cases) (use assms in auto)
qed (use assms in \<open>simp add: close_frame_def\<close>)

lemma move_inputs:
  assumes "video_thread_step scales vo = Some (calls, vo')" "\<nexists>i. vo_place vo = Giving i"
  shows "calls = [] \<and> vo_inputs vo' = vo_inputs vo"
proof (cases "vo_place vo")
  case (Closing i)
  then obtain c vo1 where "close_frame i vo = Some (c, vo1)" "calls = []" "vo_inputs vo' = vo_inputs vo1"
    using assms(1) by (auto simp: video_thread_step_def count_frame_def bind_eq_Some_conv)
  then show ?thesis using close_inputs by simp
qed (use assms in \<open>auto simp: video_thread_step_def count_frame_def\<close>)

lemma thread_divides:
  assumes "video_thread_step scales vo = Some (calls, vo')" "divides key d n vo" "d \<noteq> 0" "\<And>k. scales key k"
  shows "divides key d (n + length calls) vo' \<and> length calls \<le> 1 \<and>
    (\<forall>c \<in> set calls. key \<in> set (snd c) \<longleftrightarrow> n mod unat d = 0)"
proof (cases "\<exists>i. vo_place vo = Giving i")
  case True
  define r where "r = give_frame scales vo"
  from True obtain i where "vo_place vo = Giving i" by blast
  then obtain t where calls: "calls = [(t, fst r)]" "vo' = (snd r)\<lparr>vo_place := Closing i\<rparr>"
    using assms(1) by (auto simp: video_thread_step_def r_def split: if_splits prod.splits)
  obtain x where x: "inputs_of key vo = [x]" "vi_key x = key" "vi_divisor x = d" "vi_counter x = of_nat (n mod unat d)"
    using assms(2) by (auto simp: divides_def)
  have round: "fst (input_frame scales x) \<longleftrightarrow> n mod unat d = 0"
    "vi_counter (snd (input_frame scales x)) = of_nat (Suc n mod unat d)" "vi_divisor (snd (input_frame scales x)) = d"
    using input_rounds [of x n scales] assms(3,4) x by simp_all
  have "inputs_of key vo' = [snd (input_frame scales x)]"
    using give_inputs [of key scales vo] x(1) by (simp add: calls(2) r_def inputs_of_def)
  then have "divides key d (Suc n) vo'" using round x(2) by (simp add: divides_def input_key)
  moreover have "key \<in> set (fst r) \<longleftrightarrow> n mod unat d = 0" using give_key [of key scales vo] x(1) round(1) by (simp add: r_def)
  ultimately show ?thesis by (simp add: calls(1))
next
  case False
  then have moved: "calls = []" "vo_inputs vo' = vo_inputs vo" using move_inputs [OF assms(1)] by simp_all
  then show ?thesis using assms(2) divides_same [OF moved(2)] by simp
qed

lemma connect_new:
  assumes "video_output_connect2 created conv d key vo = (True, vo')"
  shows "d \<noteq> 0 \<and> divides key d 0 vo'"
proof -
  have new: "d \<noteq> 0" "video_get_input_idx vo key = None" using assms by (auto simp: video_output_connect2_def split: if_splits)
  obtain i where i: "vo_inputs vo' = vo_inputs vo @ [i]" "vi_key i = key" "vi_divisor i = d" "vi_counter i = 0"
    using assms
    by (auto simp: video_output_connect2_def video_input_init_def reset_frames_def Let_def split: if_splits option.splits)
  have "inputs_of key vo' = [i]"
    using new(2) i(1,2) by (auto simp: inputs_of_def video_get_input_idx_def first_idx_None filter_empty_conv)
  then show ?thesis using i new(1) by (simp add: divides_def)
qed

lemma step_divides:
  assumes "video_step scales s s'" "divides key d n (sy_out s)" "connected key s'" "d \<noteq> 0" "\<And>m k. scales m key k"
  shows "\<exists>calls. sy_log s' = sy_log s @ calls \<and> divides key d (n + length calls) (sy_out s') \<and> length calls \<le> 1 \<and>
    (\<forall>c \<in> set calls. key \<in> set (snd c) \<longleftrightarrow> n mod unat d = 0)"
  using assms(1)
proof cases
  case (Frame_Lock slept now m t locked vo)
  then show ?thesis using divides_same [OF lock_inputs [OF Frame_Lock(5)]] assms(2) by (intro exI [of _ "[]"]) simp
next
  case (Frame_Unlock vo)
  then show ?thesis using divides_same [OF unlock_inputs [OF Frame_Unlock(3)]] assms(2) by (intro exI [of _ "[]"]) simp
next
  case (Video_Thread calls vo)
  then show ?thesis using thread_divides [OF Video_Thread(2) assms(2,4,5)] by (intro exI [of _ calls]) simp
next
  case (Video_Connect created conv d' key' ok vo)
  then show ?thesis using connect_divides [OF Video_Connect(2) assms(2)] by (intro exI [of _ "[]"]) simp
next
  case (Video_Disconnect key' ok vo)
  then show ?thesis
    using disconnect_divides [OF Video_Disconnect(2) assms(2)] assms(3) by (intro exI [of _ "[]"]) (simp add: connected_def)
next
  case (Video_Texture change)
  then show ?thesis using divides_same [OF texture_parts(3) [OF Video_Texture(2)]] assms(2) by (intro exI [of _ "[]"]) simp
next
  case Video_Stop
  then show ?thesis using assms(2) divides_same [of "video_output_stop (sy_out s)" "sy_out s"]
    by (intro exI [of _ "[]"]) (simp add: video_output_stop_def)
qed

text \<open>C39: an input connected with a frame rate divisor is called, for as long as it stays connected and its scaler works, at
  the first frame from then on and at every frame whose number is a multiple of the divisor, and at no other, whatever
  other inputs come and go.\<close>

theorem divisor_takes_every_nth_frame:
  assumes "video_output_connect2 created conversion d key (sy_out s) = (True, vo)"
    "(\<lambda>a b. video_step scales a b \<and> connected key b)\<^sup>*\<^sup>* (s\<lparr>sy_out := vo\<rparr>) s'" "\<And>m k. scales m key k"
  shows "\<exists>new. sy_log s' = sy_log s @ new \<and>
    (\<forall>j < length new. key \<in> set (snd (new ! j)) \<longleftrightarrow> j mod unat d = 0)"
proof -
  have start: "d \<noteq> 0" "divides key d 0 vo" using connect_new [OF assms(1)] by simp_all
  have "\<exists>new. sy_log s' = sy_log s @ new \<and> divides key d (length new) (sy_out s') \<and>
      (\<forall>j < length new. key \<in> set (snd (new ! j)) \<longleftrightarrow> j mod unat d = 0)"
    using assms(2)
  proof (induction rule: rtranclp_induct)
    case base
    then show ?case using start(2) by simp
  next
    case (step a b)
    then obtain new where new: "sy_log a = sy_log s @ new" "divides key d (length new) (sy_out a)"
      "\<forall>j < length new. key \<in> set (snd (new ! j)) \<longleftrightarrow> j mod unat d = 0" by blast
    from step(2) have ab: "video_step scales a b" "connected key b" by simp_all
    obtain calls where calls: "sy_log b = sy_log a @ calls" "divides key d (length new + length calls) (sy_out b)"
      "length calls \<le> 1" "\<forall>c \<in> set calls. key \<in> set (snd c) \<longleftrightarrow> length new mod unat d = 0"
      using step_divides [OF ab(1) new(2) ab(2) start(1) assms(3)] by blast
    have "\<forall>j < length (new @ calls). key \<in> set (snd ((new @ calls) ! j)) \<longleftrightarrow> j mod unat d = 0"
      using new(3) calls(3,4) by (cases calls) (auto simp: nth_append less_Suc_eq)
    then show ?case using new(1) calls(1,2) by (intro exI [of _ "new @ calls"]) simp
  qed
  then show ?thesis by blast
qed

section \<open>A small run\<close>

definition small_info :: video_output_info where
  "small_info = \<lparr>voi_info = \<lparr>vs_format = VIDEO_FORMAT_NV12, vs_width = 2, vs_height = 2, vs_range = VIDEO_RANGE_DEFAULT,
      vs_colorspace = VIDEO_CS_DEFAULT\<rparr>, voi_fps_num = 1000, voi_fps_den = 1, voi_cache_size = 2\<rparr>"

definition small_output :: video_output where
  "small_output = the (video_output_open small_info)"

definition lock_one :: "video_sys \<Rightarrow> video_sys" where
  "lock_one s = (case video_output_lock_frame 1 (sy_time s) (sy_out s) of
     None \<Rightarrow> s
   | Some (locked, vo) \<Rightarrow> s\<lparr>sy_out := vo, sy_held := locked, sy_time := sy_time s + vo_frame_time (sy_out s)\<rparr>)"

definition unlock_one :: "video_sys \<Rightarrow> video_sys" where
  "unlock_one s = (case video_output_unlock_frame (sy_out s) of None \<Rightarrow> s | Some vo \<Rightarrow> s\<lparr>sy_out := vo, sy_held := False\<rparr>)"

primrec run_thread :: "nat \<Rightarrow> video_sys \<Rightarrow> video_sys" where
  "run_thread 0 s = s"
| "run_thread (Suc k) s = run_thread k
     (case video_thread_step (\<lambda>_ _. True) (sy_out s) of
        None \<Rightarrow> s
      | Some (calls, vo) \<Rightarrow> s\<lparr>sy_out := vo, sy_log := sy_log s @ calls\<rparr>)"

lemma lock_one_step: "\<not> sy_held s \<Longrightarrow> (video_step (\<lambda>_ _ _. True))\<^sup>*\<^sup>* s (lock_one s)"
  by (auto simp: lock_one_def video_sleep_def split: option.split
      intro!: r_into_rtranclp Frame_Lock [of _ True _ "1" "sy_time s + vo_frame_time (sy_out s)"])

lemma unlock_one_step: "sy_held s \<Longrightarrow> (video_step (\<lambda>_ _ _. True))\<^sup>*\<^sup>* s (unlock_one s)"
  by (auto simp: unlock_one_def split: option.split intro!: r_into_rtranclp Frame_Unlock)

lemma thread_connected:
  assumes "video_thread_step scales vo = Some (calls, vo')" "\<exists>i \<in> set (vo_inputs vo). vi_key i = key"
  shows "\<exists>i \<in> set (vo_inputs vo'). vi_key i = key"
proof (cases "\<exists>i. vo_place vo = Giving i")
  case True
  then have "vo_inputs vo' = vo_inputs (snd (give_frame scales vo))"
    using assms(1) by (auto simp: video_thread_step_def split: if_splits prod.splits)
  then show ?thesis using assms(2) by (auto simp: give_frame_def Let_def input_key)
qed (use move_inputs [OF assms(1)] assms(2) in auto)

lemma run_thread_connected:
  "connected key s \<Longrightarrow> (\<lambda>a b. video_step (\<lambda>_ _ _. True) a b \<and> connected key b)\<^sup>*\<^sup>* s (run_thread k s)"
proof (induction k arbitrary: s)
  case (Suc k)
  show ?case
  proof (cases "video_thread_step (\<lambda>_ _. True) (sy_out s)")
    case None
    then show ?thesis using Suc by simp
  next
    case (Some r)
    obtain calls vo where r: "r = (calls, vo)" by (cases r)
    let ?s = "s\<lparr>sy_out := vo, sy_log := sy_log s @ calls\<rparr>"
    have "video_step (\<lambda>_ _ _. True) s ?s" using Some r by (intro Video_Thread) simp
    moreover have "connected key ?s"
      using thread_connected [of _ "sy_out s" calls vo key] Some r Suc.prems by (simp add: connected_def)
    ultimately show ?thesis using Suc.IH [of ?s] Some r by (simp add: converse_rtranclp_into_rtranclp)
  qed
qed simp

lemma run_thread_steps: "(video_step (\<lambda>_ _ _. True))\<^sup>*\<^sup>* s (run_thread k s)"
proof (induction k arbitrary: s)
  case (Suc k)
  have "(video_step (\<lambda>_ _ _. True))\<^sup>*\<^sup>* s (s\<lparr>sy_out := vo, sy_log := sy_log s @ calls\<rparr>)"
    if "video_thread_step (\<lambda>_ _. True) (sy_out s) = Some (calls, vo)" for calls vo
    using that by (intro r_into_rtranclp Video_Thread) simp
  then show ?case using Suc.IH by (auto split: option.split intro: rtranclp_trans)
qed simp

definition after_lock :: video_sys where "after_lock = lock_one (video_start small_output 100)"
definition after_frame :: video_sys where "after_frame = run_thread 5 (unlock_one after_lock)"

lemma after_frame_reached: "(video_step (\<lambda>_ _ _. True))\<^sup>*\<^sup>* (video_start small_output 100) after_frame"
proof -
  have "sy_held after_lock" by code_simp
  then have "(video_step (\<lambda>_ _ _. True))\<^sup>*\<^sup>* after_lock (unlock_one after_lock)" by (rule unlock_one_step)
  moreover have "(video_step (\<lambda>_ _ _. True))\<^sup>*\<^sup>* (video_start small_output 100) after_lock"
    unfolding after_lock_def by (rule lock_one_step) (simp add: video_start_def)
  ultimately show ?thesis unfolding after_frame_def using run_thread_steps by (meson rtranclp_trans)
qed

lemma small_opened: "video_output_open small_info = Some small_output \<and> 0 < voi_cache_size small_info"
  by code_simp


theorem cache_accesses_in_range_witness:
  "video_thread_step (\<lambda>_ _. True) (sy_out after_frame) \<noteq> None \<and>
    (if sy_held after_frame then video_output_unlock_frame (sy_out after_frame) \<noteq> None
     else video_output_lock_frame 3 (sy_time after_frame) (sy_out after_frame) \<noteq> None)"
  by (rule cache_accesses_in_range [OF conjunct1 [OF small_opened] conjunct2 [OF small_opened] after_frame_reached]) simp

definition joined :: "bool \<times> video_output" where
  "joined = video_output_connect2 (\<lambda>_. True) None 2 7 (sy_out (unlock_one after_lock))"

definition after_join :: video_sys where "after_join = (unlock_one after_lock)\<lparr>sy_out := snd joined\<rparr>"

theorem divisor_takes_every_nth_frame_witness:
  "sy_log (run_thread 5 after_join) = [(100, [7])] \<and>
   (\<exists>new. sy_log (run_thread 5 after_join) = sy_log (unlock_one after_lock) @ new \<and>
      (\<forall>j < length new. 7 \<in> set (snd (new ! j)) \<longleftrightarrow> j mod unat (2 :: u32) = 0))"
proof
  show "sy_log (run_thread 5 after_join) = [(100, [7])]" by code_simp
  have "fst joined" by code_simp
  then have join: "video_output_connect2 (\<lambda>_. True) None 2 7 (sy_out (unlock_one after_lock)) = (True, snd joined)"
    by (cases joined) (simp add: joined_def)
  have "connected 7 after_join" by code_simp
  then have "(\<lambda>a b. video_step (\<lambda>_ _ _. True) a b \<and> connected 7 b)\<^sup>*\<^sup>* after_join (run_thread 5 after_join)"
    by (rule run_thread_connected)
  then show "\<exists>new. sy_log (run_thread 5 after_join) = sy_log (unlock_one after_lock) @ new \<and>
      (\<forall>j < length new. 7 \<in> set (snd (new ! j)) \<longleftrightarrow> j mod unat (2 :: u32) = 0)"
    unfolding after_join_def by (rule divisor_takes_every_nth_frame [OF join _ TrueI])
qed

end
