(* ===== verification/Lexer.thy ===== *)
theory Lexer
  imports Prelude
begin

text \<open>
  The tokenizer of libobs: \<open>util/lexer.h\<close> and \<open>util/lexer.c\<close>, without the lists of errors. A C string is a list of
  characters that none of which is NUL, pointers into it are positions, and reading at its end gives NUL. A segment
  (\<open>strref\<close>) is a position in the text of the lexer, or \<^term>\<open>None\<close>, with a length.
\<close>

section \<open>Characters\<close>

definition NUL :: char where "NUL = CHR 0x00"

abbreviation LF :: char where "LF \<equiv> CHR 0x0A"
abbreviation CR :: char where "CR \<equiv> CHR 0x0D"
abbreviation TAB :: char where "TAB \<equiv> CHR 0x09"

definition char_at :: "string \<Rightarrow> nat \<Rightarrow> char" where
  "char_at s i = (if i < length s then s ! i else NUL)"

text \<open>The value of a \<open>char\<close>, which is signed.\<close>

definition schar :: "char \<Rightarrow> int" where
  "schar c = (let n = of_char c :: nat in if n < 128 then int n else int n - 256)"

definition is_whitespace :: "char \<Rightarrow> bool" where
  "is_whitespace ch \<longleftrightarrow> ch = CHR '' '' \<or> ch = CR \<or> ch = TAB \<or> ch = LF"

definition is_newline :: "char \<Rightarrow> bool" where
  "is_newline ch \<longleftrightarrow> ch = CR \<or> ch = LF"

definition is_space_or_tab :: "char \<Rightarrow> bool" where
  "is_space_or_tab ch \<longleftrightarrow> ch = CHR '' '' \<or> ch = TAB"

definition is_newline_pair :: "char \<Rightarrow> char \<Rightarrow> bool" where
  "is_newline_pair ch1 ch2 \<longleftrightarrow> ch1 = CR \<and> ch2 = LF \<or> ch1 = LF \<and> ch2 = CR"

definition newline_size :: "string \<Rightarrow> nat \<Rightarrow> nat" where
  "newline_size text i =
     (if is_newline_pair (char_at text i) (char_at text (i + 1)) then 2
      else if char_at text i = CR \<or> char_at text i = LF then 1 else 0)"

datatype base_token_type = BASETOKEN_NONE | BASETOKEN_ALPHA | BASETOKEN_DIGIT | BASETOKEN_WHITESPACE | BASETOKEN_OTHER

definition get_char_token_type :: "char \<Rightarrow> base_token_type" where
  "get_char_token_type ch =
     (if is_whitespace ch then BASETOKEN_WHITESPACE
      else if schar (CHR ''0'') \<le> schar ch \<and> schar ch \<le> schar (CHR ''9'') then BASETOKEN_DIGIT
      else if schar (CHR ''a'') \<le> schar ch \<and> schar ch \<le> schar (CHR ''z'') \<or>
        schar (CHR ''A'') \<le> schar ch \<and> schar ch \<le> schar (CHR ''Z'') then BASETOKEN_ALPHA
      else BASETOKEN_OTHER)"

section \<open>Segments\<close>

record strref =
  sr_array :: "nat option"
  sr_len :: nat

definition strref_clear :: strref where "strref_clear = \<lparr>sr_array = None, sr_len = 0\<rparr>"

definition strref_set :: "nat \<Rightarrow> nat \<Rightarrow> strref" where
  "strref_set array len = \<lparr>sr_array = Some array, sr_len = len\<rparr>"

definition strref_add :: "strref \<Rightarrow> strref \<Rightarrow> strref" where
  "strref_add dst t = (if sr_array dst = None then t else dst\<lparr>sr_len := sr_len dst + sr_len t\<rparr>)"

definition strref_is_empty :: "string \<Rightarrow> strref \<Rightarrow> bool" where
  "strref_is_empty text str \<longleftrightarrow>
     (case sr_array str of None \<Rightarrow> True | Some a \<Rightarrow> sr_len str = 0 \<or> char_at text a = NUL)"

text \<open>What \<open>bstrdup_n\<close> copies of a segment.\<close>

definition strref_text :: "string \<Rightarrow> strref \<Rightarrow> string" where
  "strref_text text str = (case sr_array str of None \<Rightarrow> [] | Some a \<Rightarrow> take (sr_len str) (drop a text))"

section \<open>Tokens\<close>

record base_token =
  tk_text :: strref
  tk_type :: base_token_type

record lexer =
  lx_text :: string
  lx_offset :: nat

definition lexer_start :: "string \<Rightarrow> lexer" where
  "lexer_start text = \<lparr>lx_text = text, lx_offset = 0\<rparr>"

definition lexer_reset :: "lexer \<Rightarrow> lexer" where
  "lexer_reset lx = lx\<lparr>lx_offset := 0\<rparr>"

text \<open>The loop of \<open>lexer_getbasetoken\<close>: the offset after it, the start of the token and its type.\<close>

function getbasetoken_loop ::
    "string \<Rightarrow> bool \<Rightarrow> nat \<Rightarrow> nat option \<Rightarrow> base_token_type \<Rightarrow> nat \<times> nat option \<times> base_token_type" where
  "getbasetoken_loop text ignore_whitespace offset token_start type =
     (if char_at text offset = NUL then (offset, token_start, type)
      else
        let ch = char_at text offset;
            offset = offset + 1;
            new_type = get_char_token_type ch
        in if type = BASETOKEN_NONE then
             (if new_type = BASETOKEN_WHITESPACE \<and> ignore_whitespace
              then getbasetoken_loop text ignore_whitespace offset token_start type
              else if new_type \<noteq> BASETOKEN_DIGIT \<and> new_type \<noteq> BASETOKEN_ALPHA
              then (if is_newline ch \<and> is_newline_pair ch (char_at text offset) then offset + 1 else offset,
                Some (offset - 1), new_type)
              else getbasetoken_loop text ignore_whitespace offset (Some (offset - 1)) new_type)
           else if type \<noteq> new_type then (offset - 1, token_start, type)
           else getbasetoken_loop text ignore_whitespace offset token_start type)"
  by pat_completeness auto

termination getbasetoken_loop
  by (relation "measure (\<lambda>(text, _, offset, _, _). length text - offset)") (auto simp: char_at_def split: if_splits)

declare getbasetoken_loop.simps [simp del]

text \<open>The token, if there is one, and the lexer after it.\<close>

definition lexer_getbasetoken :: "bool \<Rightarrow> lexer \<Rightarrow> base_token option \<times> lexer" where
  "lexer_getbasetoken ignore_whitespace lx =
     (case getbasetoken_loop (lx_text lx) ignore_whitespace (lx_offset lx) None BASETOKEN_NONE of
        (offset, token_start, type) \<Rightarrow>
          (case token_start of
             Some start \<Rightarrow>
               (if start < offset then Some \<lparr>tk_text = strref_set start (offset - start), tk_type = type\<rparr> else None)
           | None \<Rightarrow> None, lx\<lparr>lx_offset := offset\<rparr>))"

section \<open>Comparing\<close>

definition toupper :: "char \<Rightarrow> char" where
  "toupper c = (if schar (CHR ''a'') \<le> schar c \<and> schar c \<le> schar (CHR ''z'') then char_of (of_char c - (32 :: nat)) else c)"

text \<open>The loop of \<open>strref_cmp\<close> and \<open>strref_cmpi\<close>: \<open>str1\<close> is the contents of the segment, \<open>f\<close> the case mapping.\<close>

function strref_cmp_loop :: "(char \<Rightarrow> char) \<Rightarrow> string \<Rightarrow> string \<Rightarrow> nat \<Rightarrow> int" where
  "strref_cmp_loop f str1 str2 i =
     (let ch1 = (if i < length str1 then f (str1 ! i) else NUL);
          ch2 = f (char_at str2 i)
      in if schar ch1 < schar ch2 then -1
         else if schar ch1 > schar ch2 then 1
         else if i < length str1 \<and> char_at str2 i \<noteq> NUL then strref_cmp_loop f str1 str2 (i + 1) else 0)"
  by pat_completeness auto

termination strref_cmp_loop
  by (relation "measure (\<lambda>(f, str1, str2, i). length str1 - i)") auto

declare strref_cmp_loop.simps [simp del]

definition strref_cmp :: "string \<Rightarrow> string \<Rightarrow> int" where
  "strref_cmp str1 str2 = (if str1 = [] \<or> hd str1 = NUL then if str2 = [] then 0 else -1 else strref_cmp_loop id str1 str2 0)"

definition strref_cmpi :: "string \<Rightarrow> string \<Rightarrow> int" where
  "strref_cmpi str1 str2 =
     (if str1 = [] \<or> hd str1 = NUL then if str2 = [] then 0 else -1 else strref_cmp_loop toupper str1 str2 0)"

function strref_cmp_strref_loop :: "(char \<Rightarrow> char) \<Rightarrow> string \<Rightarrow> string \<Rightarrow> nat \<Rightarrow> int" where
  "strref_cmp_strref_loop f str1 str2 i =
     (let ch1 = (if i < length str1 then f (str1 ! i) else NUL);
          ch2 = (if i < length str2 then f (str2 ! i) else NUL)
      in if schar ch1 < schar ch2 then -1
         else if schar ch1 > schar ch2 then 1
         else if i + 1 \<le> length str1 \<and> i + 1 \<le> length str2 then strref_cmp_strref_loop f str1 str2 (i + 1) else 0)"
  by pat_completeness auto

termination strref_cmp_strref_loop
  by (relation "measure (\<lambda>(f, str1, str2, i). length str1 - i)") auto

declare strref_cmp_strref_loop.simps [simp del]

definition strref_cmp_strref :: "string \<Rightarrow> string \<Rightarrow> int" where
  "strref_cmp_strref str1 str2 =
     (if str1 = [] \<or> hd str1 = NUL then if str2 = [] \<or> hd str2 = NUL then 0 else -1
      else if str2 = [] \<or> hd str2 = NUL then -1 else strref_cmp_strref_loop id str1 str2 0)"

definition strref_cmpi_strref :: "string \<Rightarrow> string \<Rightarrow> int" where
  "strref_cmpi_strref str1 str2 =
     (if str1 = [] \<or> hd str1 = NUL then if str2 = [] \<or> hd str2 = NUL then 0 else -1
      else if str2 = [] \<or> hd str2 = NUL then -1 else strref_cmp_strref_loop toupper str1 str2 0)"

section \<open>Numbers\<close>

text \<open>\<open>s\<close> is what is left of the string from the pointer on.\<close>

fun int_str_loop :: "string \<Rightarrow> nat \<Rightarrow> bool" where
  "int_str_loop s n =
     (if schar (char_at s 0) > schar (CHR ''9'') \<or> schar (char_at s 0) < schar (CHR ''0'') then False
      else if tl s \<noteq> [] \<and> n - 1 \<noteq> 0 then int_str_loop (tl s) (n - 1) else True)"

declare int_str_loop.simps [simp del]

definition valid_int_str :: "string \<Rightarrow> nat \<Rightarrow> bool" where
  "valid_int_str str n =
     (if str = [] then False
      else
        let n = (if n = 0 then length str else n);
            str = (if hd str = CHR ''-'' \<or> hd str = CHR ''+'' then tl str else str)
        in int_str_loop str n)"

fun float_str_loop :: "string \<Rightarrow> nat \<Rightarrow> bool \<Rightarrow> bool \<Rightarrow> bool \<Rightarrow> bool" where
  "float_str_loop s n found_num found_exp found_dec =
     (let ch = char_at s 0;
          more = (tl s \<noteq> [] \<and> n - 1 \<noteq> 0)
      in if ch = CHR ''.'' then
           (if found_dec \<or> found_exp \<or> \<not> found_num then False
            else if more then float_str_loop (tl s) (n - 1) found_num found_exp True else found_num)
         else if ch = CHR ''e'' then
           (if found_exp \<or> \<not> found_num then False
            else if more then float_str_loop (tl s) (n - 1) False True found_dec else False)
         else if ch = CHR ''-'' \<or> ch = CHR ''+'' then
           (if \<not> found_exp \<or> \<not> found_num then False
            else if more then float_str_loop (tl s) (n - 1) found_num found_exp found_dec else found_num)
         else if schar ch > schar (CHR ''9'') \<or> schar ch < schar (CHR ''0'') then False
         else if more then float_str_loop (tl s) (n - 1) True found_exp found_dec else True)"

declare float_str_loop.simps [simp del]

definition valid_float_str :: "string \<Rightarrow> nat \<Rightarrow> bool" where
  "valid_float_str str n =
     (if str = [] then False
      else
        let n = (if n = 0 then length str else n);
            str = (if hd str = CHR ''-'' \<or> hd str = CHR ''+'' then tl str else str)
        in float_str_loop str n False False False)"

section \<open>Rows and columns\<close>

function getstroffset_loop :: "string \<Rightarrow> nat \<Rightarrow> nat \<Rightarrow> nat \<Rightarrow> nat \<Rightarrow> nat \<times> nat" where
  "getstroffset_loop text i str cur_row cur_col =
     (if i < str then
        (if is_newline (char_at text i)
         then getstroffset_loop text (i + (newline_size text i - 1) + 1) str (cur_row + 1) 1
         else getstroffset_loop text (i + 1) str cur_row (cur_col + 1))
      else (cur_row, cur_col))"
  by pat_completeness auto

termination getstroffset_loop
  by (relation "measure (\<lambda>(_, i, str, _, _). str - i)") auto

declare getstroffset_loop.simps [simp del]

definition lexer_getstroffset :: "lexer \<Rightarrow> nat \<Rightarrow> nat \<times> nat" where
  "lexer_getstroffset lx str = getstroffset_loop (lx_text lx) 0 str 1 1"

section \<open>Tokens, at once\<close>

lemma type_NUL: "get_char_token_type NUL = BASETOKEN_OTHER"
  by (simp add: get_char_token_type_def is_whitespace_def NUL_def schar_def)

lemma type_not_none: "get_char_token_type c \<noteq> BASETOKEN_NONE"
  by (simp add: get_char_token_type_def)

lemma drop_char_at: "char_at text i \<noteq> NUL \<Longrightarrow> drop i text = char_at text i # drop (Suc i) text"
  by (cases "i < length text") (simp_all add: char_at_def Cons_nth_drop_Suc)

lemma char_at_end: "length text \<le> i \<Longrightarrow> char_at text i = NUL"
  by (simp add: char_at_def)

lemma loop_run:
  assumes "t = BASETOKEN_DIGIT \<or> t = BASETOKEN_ALPHA"
  shows "getbasetoken_loop xs ig off st t = (off + length (takeWhile (\<lambda>c. get_char_token_type c = t) (drop off xs)), st, t)"
  using assms
proof (induction xs ig off st t rule: getbasetoken_loop.induct)
  case (1 xs ig off st t)
  show ?case
  proof (cases "char_at xs off = NUL")
    case True
    then have "takeWhile (\<lambda>c. get_char_token_type c = t) (drop off xs) = []"
      using 1(4) type_NUL by (cases "off < length xs") (auto simp: char_at_def Cons_nth_drop_Suc [symmetric])
    then show ?thesis using True by (simp add: getbasetoken_loop.simps)
  next
    case False
    have run: "takeWhile (\<lambda>c. get_char_token_type c = t) (drop off xs) =
        (if get_char_token_type (char_at xs off) = t then char_at xs off # takeWhile (\<lambda>c. get_char_token_type c = t) (drop (Suc off) xs) else [])"
      by (simp add: drop_char_at [OF False])
    show ?thesis
      using "1.IH"(3) [OF False refl refl refl] 1(4) False
      by (subst getbasetoken_loop.simps, unfold run) (auto simp: Let_def)
  qed
qed

text \<open>The length of the token at a position: a run of digits or letters, two characters that are a line end together,
  or one character.\<close>

definition token_size :: "string \<Rightarrow> nat \<Rightarrow> nat" where
  "token_size text off =
     (let ch = char_at text off; t = get_char_token_type ch
      in if t = BASETOKEN_DIGIT \<or> t = BASETOKEN_ALPHA then length (takeWhile (\<lambda>c. get_char_token_type c = t) (drop off text))
         else if is_newline_pair ch (char_at text (off + 1)) then 2 else 1)"

lemma token_size_pos:
  assumes "char_at text off \<noteq> NUL"
  shows "0 < token_size text off" "off + token_size text off \<le> length text"
proof -
  have off: "off < length text" using assms by (rule_tac ccontr) (simp add: char_at_def)
  show "0 < token_size text off" by (simp add: token_size_def Let_def drop_char_at [OF assms])
  have "off + length (takeWhile P (drop off text)) \<le> length text" for P
    using length_takeWhile_le [of P "drop off text"] off by simp
  moreover have "off + 2 \<le> length text" if "is_newline_pair (char_at text off) (char_at text (off + 1))"
    using that by (rule_tac ccontr) (auto simp: is_newline_pair_def char_at_def NUL_def split: if_splits)
  ultimately show "off + token_size text off \<le> length text" using off by (simp add: token_size_def Let_def)
qed

text \<open>The tokenizer takes at each position exactly the longest run of digits or of letters, a line end of one or two
  characters, or one character, and goes on behind it; at the end of the text it gives no token. So the tokens of a text
  are the text, cut up.\<close>

lemma getbasetoken_takes_run_eq:
  "lexer_getbasetoken False lx =
     (if char_at (lx_text lx) (lx_offset lx) = NUL then (None, lx)
      else (Some \<lparr>tk_text = strref_set (lx_offset lx) (token_size (lx_text lx) (lx_offset lx)),
              tk_type = get_char_token_type (char_at (lx_text lx) (lx_offset lx))\<rparr>,
            lx\<lparr>lx_offset := lx_offset lx + token_size (lx_text lx) (lx_offset lx)\<rparr>))"
proof (cases "char_at (lx_text lx) (lx_offset lx) = NUL")
  case True
  then show ?thesis by (simp add: lexer_getbasetoken_def getbasetoken_loop.simps)
next
  case False
  let ?text = "lx_text lx" and ?off = "lx_offset lx"
  let ?t = "get_char_token_type (char_at ?text ?off)"
  have "getbasetoken_loop ?text False ?off None BASETOKEN_NONE = (?off + token_size ?text ?off, Some ?off, ?t)"
  proof (cases "?t = BASETOKEN_DIGIT \<or> ?t = BASETOKEN_ALPHA")
    case True
    have "getbasetoken_loop ?text False ?off None BASETOKEN_NONE = getbasetoken_loop ?text False (?off + 1) (Some ?off) ?t"
      using False True by (subst getbasetoken_loop.simps) (auto simp: Let_def)
    also have "\<dots> = (?off + token_size ?text ?off, Some ?off, ?t)"
      using True by (simp add: loop_run token_size_def Let_def drop_char_at [OF False])
    finally show ?thesis .
  next
    case other: False
    have "is_newline_pair a b \<Longrightarrow> is_newline a" for a b by (auto simp: is_newline_pair_def is_newline_def)
    then show ?thesis using False other by (subst getbasetoken_loop.simps) (auto simp: Let_def token_size_def)
  qed
  then show ?thesis using False token_size_pos(1) [OF False] by (simp add: lexer_getbasetoken_def)
qed

section \<open>Comparisons\<close>

lemma schar_inject: "schar c = schar d \<longleftrightarrow> c = d"
proof
  define m n :: nat where "m = of_char c" and "n = of_char d"
  have lt: "m < 256" "n < 256" by (simp_all add: m_def n_def)
  assume "schar c = schar d"
  then have "(if m < 128 then int m else int m - 256) = (if n < 128 then int n else int n - 256)"
    unfolding schar_def Let_def m_def n_def .
  then have "m = n" using lt by (auto split: if_splits)
  then show "c = d" by (simp add: m_def n_def)
qed simp

lemma cmp_loop_zero:
  assumes "NUL \<notin> set xs" "NUL \<notin> set ys" "i \<le> length xs" "i \<le> length ys"
  shows "strref_cmp_loop id xs ys i = 0 \<longleftrightarrow> drop i xs = drop i ys"
  using assms
proof (induction "length xs - i" arbitrary: i)
  case 0
  then have i: "i = length xs" by simp
  show ?case
  proof (cases "i < length ys")
    case True
    then have "ys ! i \<noteq> NUL" using 0(3) by (metis nth_mem)
    then have "schar NUL \<noteq> schar (ys ! i)" by (simp add: schar_inject)
    then show ?thesis using i True by (subst strref_cmp_loop.simps) (auto simp: Let_def char_at_def)
  next
    case False
    then show ?thesis using i by (subst strref_cmp_loop.simps) (simp add: Let_def char_at_def)
  qed
next
  case (Suc n)
  then have i: "i < length xs" by simp
  show ?case
  proof (cases "i < length ys")
    case True
    have "xs ! i \<noteq> NUL" "ys ! i \<noteq> NUL" using Suc.prems i True by (metis nth_mem)+
    moreover have "strref_cmp_loop id xs ys (i + 1) = 0 \<longleftrightarrow> drop (i + 1) xs = drop (i + 1) ys"
      using Suc i True by simp
    moreover have "drop i xs = xs ! i # drop (i + 1) xs" "drop i ys = ys ! i # drop (i + 1) ys"
      using i True by (simp_all add: Cons_nth_drop_Suc)
    ultimately show ?thesis using i True schar_inject [of "xs ! i" "ys ! i"]
      by (subst strref_cmp_loop.simps) (auto simp: Let_def char_at_def)
  next
    case False
    have "xs ! i \<noteq> NUL" using Suc.prems i by (metis nth_mem)
    then have "schar (xs ! i) \<noteq> schar NUL" by (simp add: schar_inject)
    then show ?thesis using i False by (subst strref_cmp_loop.simps) (auto simp: Let_def char_at_def)
  qed
qed

text \<open>Equality of a segment with a string is what \<open>strref_cmp\<close> tells by zero.\<close>

lemma strref_cmp_zero:
  assumes "NUL \<notin> set xs" "NUL \<notin> set ys"
  shows "strref_cmp xs ys = 0 \<longleftrightarrow> xs = ys"
proof -
  have "hd xs \<noteq> NUL" if "xs \<noteq> []" using assms(1) that by (cases xs) auto
  then show ?thesis using cmp_loop_zero [OF assms, of 0] by (cases "xs = []") (auto simp: strref_cmp_def)
qed

text \<open>The order is not one: each of a segment and an empty segment is less than the other.\<close>

lemma strref_cmp_strref_asymmetric: "strref_cmp_strref ''a'' [] = -1 \<and> strref_cmp_strref [] ''a'' = -1"
  by (simp add: strref_cmp_strref_def NUL_def)

text \<open>The sign is not counted, so that with one the character behind the segment is tested; a sign in an exponent is
  refused, one behind its digits taken.\<close>

lemma signed_segment_refused: "\<not> valid_int_str ''-1,'' 2 \<and> valid_int_str ''12,'' 2"
  by code_simp

lemma exponent_signs: "\<not> valid_float_str ''1e-5'' 0 \<and> valid_float_str ''1e5-3'' 0"
  by code_simp

end
