(* ===== verification/Dstr.thy ===== *)
theory Dstr
  imports Lexer
begin

text \<open>
  What configuration and translation files use of \<open>util/dstr.c\<close> (\<open>dstr_replace\<close>, \<open>astrcmpi\<close>) and, for their numbers, of
  the standard library. A dynamic string stands for its contents.
\<close>

section \<open>Replacing\<close>

text \<open>The three branches of \<open>dstr_replace\<close> differ in how they make room; each searches on behind what it has put in. No
  caller looks for the empty string.\<close>

function replace_loop :: "string \<Rightarrow> string \<Rightarrow> string \<Rightarrow> string" where
  "replace_loop pat repl temp =
     (if temp = [] \<or> pat = [] then temp
      else if take (length pat) temp = pat then repl @ replace_loop pat repl (drop (length pat) temp)
      else hd temp # replace_loop pat repl (tl temp))"
  by pat_completeness auto

termination replace_loop
  by (relation "measure (\<lambda>(_, _, s). length s)") auto

declare replace_loop.simps [simp del]

definition dstr_replace :: "string \<Rightarrow> string \<Rightarrow> string \<Rightarrow> string" where
  "dstr_replace str pat repl = (if str = [] then str else replace_loop pat repl str)"

lemma replace_char: "dstr_replace s [c] r = concat (map (\<lambda>x. if x = c then r else [x]) s)"
proof -
  have "replace_loop [c] r s = concat (map (\<lambda>x. if x = c then r else [x]) s)" for s
    by (induction s) (simp_all add: replace_loop.simps [of "[c]"])
  then show ?thesis by (simp add: dstr_replace_def)
qed

section \<open>Comparing\<close>

definition astrcmpi :: "string \<Rightarrow> string \<Rightarrow> int" where
  "astrcmpi str1 str2 = strref_cmp_loop toupper str1 str2 0"

section \<open>Numbers\<close>

text \<open>The conversions \<open>%lld\<close> and \<open>%llu\<close> of \<open>printf\<close>.\<close>

fun print_nat :: "nat \<Rightarrow> string" where
  "print_nat n = (if n < 10 then [char_of (48 + n)] else print_nat (n div 10) @ [char_of (48 + n mod 10)])"

declare print_nat.simps [simp del]

definition print_int :: "int \<Rightarrow> string" where
  "print_int i = (if i < 0 then CHR ''-'' # print_nat (nat (- i)) else print_nat (nat i))"

text \<open>\<open>strtoll\<close> and \<open>strtoull\<close>: spaces, a sign, for base 16 a prefix, then digits.\<close>

definition digit_of :: "nat \<Rightarrow> char \<Rightarrow> nat option" where
  "digit_of base c =
     (let n = of_char c :: nat;
          v = (if 48 \<le> n \<and> n \<le> 57 then n - 48
               else if 97 \<le> n \<and> n \<le> 122 then n - 87
               else if 65 \<le> n \<and> n \<le> 90 then n - 55 else base)
      in if v < base then Some v else None)"

fun digits_value :: "nat \<Rightarrow> nat \<Rightarrow> string \<Rightarrow> nat" where
  "digits_value base acc [] = acc"
| "digits_value base acc (c # s) =
     (case digit_of base c of Some d \<Rightarrow> digits_value base (acc * base + d) s | None \<Rightarrow> acc)"

definition is_space :: "char \<Rightarrow> bool" where
  "is_space c \<longleftrightarrow> c = CHR '' '' \<or> (9 \<le> (of_char c :: nat) \<and> (of_char c :: nat) \<le> 13)"

definition skip_prefix :: "nat \<Rightarrow> string \<Rightarrow> string" where
  "skip_prefix base s =
     (if base = 16 \<and> length s > 2 \<and> hd s = CHR ''0'' \<and> (s ! 1 = CHR ''x'' \<or> s ! 1 = CHR ''X'') \<and> digit_of 16 (s ! 2) \<noteq> None
      then drop 2 s else s)"

definition strto_parts :: "nat \<Rightarrow> string \<Rightarrow> bool \<times> nat" where
  "strto_parts base s =
     (let s = dropWhile is_space s;
          neg = (s \<noteq> [] \<and> hd s = CHR ''-'');
          s = (if s \<noteq> [] \<and> (hd s = CHR ''-'' \<or> hd s = CHR ''+'') then tl s else s)
      in (neg, digits_value base 0 (skip_prefix base s)))"

definition strtoll :: "nat \<Rightarrow> string \<Rightarrow> int" where
  "strtoll base s =
     (case strto_parts base s of (neg, v) \<Rightarrow> if neg then max (- (2 ^ 63)) (- int v) else min (2 ^ 63 - 1) (int v))"

definition strtoull :: "nat \<Rightarrow> string \<Rightarrow> int" where
  "strtoull base s =
     (case strto_parts base s of (neg, v) \<Rightarrow>
        if v \<ge> 2 ^ 64 then 2 ^ 64 - 1 else if neg then (- int v) mod 2 ^ 64 else int v)"

lemma digit_char: "n < 10 \<Longrightarrow> digit_of 10 (char_of (48 + n)) = Some n"
  by (simp add: digit_of_def of_char_of Let_def)

lemma digits_app: "(\<forall>c \<in> set s. digit_of base c \<noteq> None) \<Longrightarrow> digits_value base acc (s @ t) = digits_value base (digits_value base acc s) t"
  by (induction s arbitrary: acc) auto

lemma print_nat_digits: "c \<in> set (print_nat n) \<Longrightarrow> \<exists>d < (10::nat). c = char_of (48 + d)"
proof (induction n rule: print_nat.induct)
  case (1 n)
  then show ?case
    by (cases "n < 10") (auto simp: print_nat.simps [of n] intro: exI [of _ "n mod 10"])
qed

lemma print_nat_value: "digits_value 10 0 (print_nat n) = n"
proof (induction n rule: print_nat.induct)
  case (1 n)
  show ?case
  proof (cases "n < 10")
    case True
    then show ?thesis by (simp add: print_nat.simps [of n] digit_char)
  next
    case False
    have "\<forall>c \<in> set (print_nat (n div 10)). digit_of 10 c \<noteq> None" using print_nat_digits digit_char by fastforce
    from digits_app [OF this, of 0 "[char_of (48 + n mod 10)]"] have
      "digits_value 10 0 (print_nat n) = digits_value 10 (digits_value 10 0 (print_nat (n div 10))) [char_of (48 + n mod 10)]"
      using False by (simp add: print_nat.simps [of n])
    then show ?thesis using 1 False by (simp add: digit_char)
  qed
qed

end
