(* ===== verification/Config_File.thy ===== *)
theory Config_File
  imports Dstr
begin

text \<open>
  Configuration files, \<open>util/config-file.c\<close>: the parser over the tokenizer, reading and changing values, saving. A
  hash table of uthash is the list of its elements in the order they were added, which is the order it is gone through.
  Looking up is an argument, \<open>hf\<close>: the place of an element with the key among the keys. Files are a map from paths to
  contents. What the system refuses is an argument as well: the files that cannot be opened for writing, the bytes
  that there is room for, the renames that fail. Numbers that are doubles are left out.
\<close>

section \<open>State\<close>

type_synonym config_item = "string \<times> string"
type_synonym config_section = "string \<times> config_item list"
type_synonym hash_find = "string list \<Rightarrow> string \<Rightarrow> nat option"

record config_data =
  cd_file :: "string option"
  cd_sections :: "config_section list"
  cd_defaults :: "config_section list"

text \<open>What uthash documents of \<open>HASH_FIND\<close>.\<close>

definition hash_finds :: "hash_find \<Rightarrow> bool" where
  "hash_finds hf \<longleftrightarrow>
     (\<forall>keys k. case hf keys k of None \<Rightarrow> k \<notin> set keys | Some i \<Rightarrow> i < length keys \<and> keys ! i = k)"

section \<open>Parsing\<close>

abbreviation next_token :: "lexer \<Rightarrow> base_token option \<times> lexer" where
  "next_token \<equiv> lexer_getbasetoken False"

text \<open>The first character of a token, and what it is.\<close>

definition token_char :: "lexer \<Rightarrow> base_token \<Rightarrow> char" where
  "token_char lx token = (case sr_array (tk_text token) of Some a \<Rightarrow> char_at (lx_text lx) a | None \<Rightarrow> NUL)"

definition lexer_left :: "lexer \<Rightarrow> nat" where
  "lexer_left lx = length (lx_text lx) - lx_offset lx"

lemma next_token_less: "next_token lx = (Some token, lx') \<Longrightarrow> lexer_left lx' < lexer_left lx"
  using token_size_pos [of "lx_text lx" "lx_offset lx"]
  by (auto simp: getbasetoken_takes_run_eq lexer_left_def split: if_splits)

text \<open>\<^term>\<open>None\<close> for \<open>end\<close> is 0: up to the end of the line.\<close>

function config_parse_string :: "char option \<Rightarrow> lexer \<Rightarrow> strref \<Rightarrow> bool \<times> strref \<times> lexer" where
  "config_parse_string ch lx ref =
     (case next_token lx of
        (None, lx) \<Rightarrow> (ch \<noteq> None, ref, lx)
      | (Some token, lx) \<Rightarrow>
          if ch = Some (token_char lx token) then (True, ref, lx)
          else if is_newline (token_char lx token) then (ch = None, ref, lx)
          else config_parse_string ch lx (strref_add ref (tk_text token)))"
  by pat_completeness auto

termination config_parse_string
  by (relation "measure (\<lambda>(_, lx, _). lexer_left lx)") (auto dest: next_token_less [OF sym])

declare config_parse_string.simps [simp del]

fun unescape :: "string \<Rightarrow> string" where
  "unescape [] = []"
| "unescape (cur # str) =
     (if cur = CHR 0x5C \<and> str \<noteq> [] then
        (if hd str = CHR 0x5C then cur # unescape (tl str)
         else if hd str = CHR ''r'' then CR # unescape (tl str)
         else if hd str = CHR ''n'' then LF # unescape (tl str)
         else cur # unescape str)
      else cur # unescape str)"

definition config_add_item :: "string \<Rightarrow> strref \<Rightarrow> strref \<Rightarrow> config_item list \<Rightarrow> config_item list" where
  "config_add_item text name value items =
     items @ [(strref_text text name, if \<not> strref_is_empty text value then unescape (strref_text text value) else [])]"

text \<open>To the first token that is not white, or \<^term>\<open>None\<close> at the end.\<close>

function skip_white :: "base_token \<Rightarrow> lexer \<Rightarrow> base_token option \<times> lexer" where
  "skip_white token lx =
     (if tk_type token \<noteq> BASETOKEN_WHITESPACE then (Some token, lx)
      else case next_token lx of (None, lx) \<Rightarrow> (None, lx) | (Some token, lx) \<Rightarrow> skip_white token lx)"
  by pat_completeness auto

termination skip_white
  by (relation "measure (\<lambda>(_, lx). lexer_left lx)") (auto dest: next_token_less [OF sym])

declare skip_white.simps [simp del]

text \<open>Behind the next line end: whether there is one.\<close>

function skip_comment :: "lexer \<Rightarrow> bool \<times> lexer" where
  "skip_comment lx =
     (case next_token lx of
        (None, lx) \<Rightarrow> (False, lx)
      | (Some token, lx) \<Rightarrow> if is_newline (token_char lx token) then (True, lx) else skip_comment lx)"
  by pat_completeness auto

termination skip_comment
  by (relation "measure lexer_left") (auto dest: next_token_less [OF sym])

declare skip_comment.simps [simp del]

lemma next_token_le: "lexer_left (snd (next_token lx)) \<le> lexer_left lx"
  by (auto simp: getbasetoken_takes_run_eq lexer_left_def intro: diff_le_mono2)

lemma skip_white_le: "lexer_left (snd (skip_white token lx)) \<le> lexer_left lx"
proof (induction token lx rule: skip_white.induct)
  case (1 token lx)
  then show ?case using next_token_le [of lx]
    by (subst skip_white.simps) (fastforce split: prod.split option.split)
qed

lemma skip_comment_le: "lexer_left (snd (skip_comment lx)) \<le> lexer_left lx"
proof (induction lx rule: skip_comment.induct)
  case (1 lx)
  then show ?case using next_token_le [of lx]
    by (subst skip_comment.simps) (fastforce split: prod.split option.split)
qed

lemma parse_string_le: "lexer_left (snd (snd (config_parse_string ch lx ref))) \<le> lexer_left lx"
proof (induction ch lx ref rule: config_parse_string.induct)
  case (1 ch lx ref)
  then show ?case using next_token_le [of lx]
    by (subst config_parse_string.simps) (fastforce split: prod.split option.split)
qed

text \<open>A round of the loop of \<open>config_parse_section\<close>: it returns, goes on, or adds an item. The lexer is put back before the
  bracket that begins another section.\<close>

datatype section_round = Return lexer | Continue lexer | Add_Item strref strref lexer

definition parse_section_round :: "lexer \<Rightarrow> section_round" where
  "parse_section_round lx =
     (case next_token lx of
        (None, lx) \<Rightarrow> Return lx
      | (Some token, lx) \<Rightarrow>
          (case skip_white token lx of
             (None, lx) \<Rightarrow> Return lx
           | (Some token, lx) \<Rightarrow>
               if tk_type token = BASETOKEN_OTHER \<and> token_char lx token = CHR ''#'' then
                 (case skip_comment lx of (found, lx) \<Rightarrow> if found then Continue lx else Return lx)
               else if tk_type token = BASETOKEN_OTHER \<and> token_char lx token = CHR ''['' then
                 Return (lx\<lparr>lx_offset := lx_offset lx - 1\<rparr>)
               else
                 (case config_parse_string (Some (CHR ''='')) lx (tk_text token) of
                    (ok, name, lx) \<Rightarrow>
                      if \<not> ok then Continue lx
                      else case config_parse_string None lx strref_clear of (_, value, lx) \<Rightarrow> Add_Item name value lx)))"

lemma skip_white_left: "skip_white token lx = (r, lx') \<Longrightarrow> lexer_left lx' \<le> lexer_left lx"
  using skip_white_le [of token lx] by simp

lemma skip_comment_left: "skip_comment lx = (r, lx') \<Longrightarrow> lexer_left lx' \<le> lexer_left lx"
  using skip_comment_le [of lx] by simp

lemma parse_string_left: "config_parse_string ch lx ref = (ok, r, lx') \<Longrightarrow> lexer_left lx' \<le> lexer_left lx"
  using parse_string_le [of ch lx ref] by simp

lemma back_left: "lexer_left (lx\<lparr>lx_offset := lx_offset lx - 1\<rparr>) \<le> lexer_left lx + 1"
  by (simp add: lexer_left_def)

lemma round_left:
  "(case parse_section_round lx of
      Return lx' \<Rightarrow> lexer_left lx' \<le> lexer_left lx
    | Continue lx' \<Rightarrow> lexer_left lx' < lexer_left lx
    | Add_Item _ _ lx' \<Rightarrow> lexer_left lx' < lexer_left lx)"
proof (cases "next_token lx")
  case (Pair t lx1)
  show ?thesis
  proof (cases t)
    case None
    then show ?thesis using Pair next_token_le [of lx] by (simp add: parse_section_round_def)
  next
    case (Some token)
    then have l1: "lexer_left lx1 < lexer_left lx" using Pair next_token_less by simp
    obtain t2 lx2 where w: "skip_white token lx1 = (t2, lx2)" by (cases "skip_white token lx1")
    then have l2: "lexer_left lx2 < lexer_left lx" using skip_white_left [OF w] l1 by simp
    then have "lexer_left (lx2\<lparr>lx_offset := lx_offset lx2 - 1\<rparr>) \<le> lexer_left lx" using back_left [of lx2] by simp
    then show ?thesis
      using l2 unfolding parse_section_round_def Pair prod.case Some option.case w
      by (auto split: option.splits prod.splits if_splits dest!: skip_comment_left parse_string_left)
  qed
qed

function config_parse_section :: "config_item list \<Rightarrow> lexer \<Rightarrow> config_item list \<times> lexer" where
  "config_parse_section items lx =
     (case parse_section_round lx of
        Return lx \<Rightarrow> (items, lx)
      | Continue lx \<Rightarrow> config_parse_section items lx
      | Add_Item name value lx \<Rightarrow> config_parse_section (config_add_item (lx_text lx) name value items) lx)"
  by pat_completeness auto

termination config_parse_section
proof (relation "measure (\<lambda>(_, lx). lexer_left lx)")
  show "((items, lx'), items, lx) \<in> measure (\<lambda>(_, lx). lexer_left lx)" if "parse_section_round lx = Continue lx'" for items lx lx'
    using round_left [of lx] that by simp
  show "((items', lx'), items, lx) \<in> measure (\<lambda>(_, lx). lexer_left lx)" if "parse_section_round lx = Add_Item n v lx'" for items items' lx lx' n v
    using round_left [of lx] that by simp
qed simp

declare config_parse_section.simps [simp del]

lemma parse_section_le: "lexer_left (snd (config_parse_section items lx)) \<le> lexer_left lx"
proof (induction items lx rule: config_parse_section.induct)
  case (1 items lx)
  then show ?case using round_left [of lx]
    by (subst config_parse_section.simps) (cases "parse_section_round lx"; fastforce)
qed

text \<open>\<open>parse_config_data\<close>, its loop over lines that are not a section head and over sections.\<close>

function parse_config_data :: "config_section list \<Rightarrow> lexer \<Rightarrow> config_section list" where
  "parse_config_data sections lx =
     (case next_token lx of
        (None, lx) \<Rightarrow> sections
      | (Some token, lx) \<Rightarrow>
          (case skip_white token lx of
             (None, lx) \<Rightarrow> sections
           | (Some token, lx) \<Rightarrow>
               if token_char lx token \<noteq> CHR ''['' then
                 (if is_newline (token_char lx token) then parse_config_data sections lx
                  else case skip_comment lx of (found, lx) \<Rightarrow> if found then parse_config_data sections lx else sections)
               else
                 (case config_parse_string (Some (CHR '']'')) lx strref_clear of
                    (_, name, lx) \<Rightarrow>
                      if sr_len name = 0 then sections
                      else
                        let section_name = strref_text (lx_text lx) name
                        in case config_parse_section [] lx of
                             (items, lx) \<Rightarrow> parse_config_data (sections @ [(section_name, items)]) lx)))"
  by pat_completeness auto

lemma parse_section_left: "config_parse_section items lx = (r, lx') \<Longrightarrow> lexer_left lx' \<le> lexer_left lx"
  using parse_section_le [of items lx] by simp

termination parse_config_data
proof (relation "measure (\<lambda>(_, lx). lexer_left lx)")
qed (auto dest!: next_token_less [OF sym] skip_white_left [OF sym] skip_comment_left [OF sym] parse_string_left [OF sym]
    parse_section_left [OF sym])

declare parse_config_data.simps [simp del]

section \<open>Opening\<close>

definition CONFIG_SUCCESS :: int where "CONFIG_SUCCESS = 0"
definition CONFIG_FILENOTFOUND :: int where "CONFIG_FILENOTFOUND = -1"
definition CONFIG_ERROR :: int where "CONFIG_ERROR = -2"

type_synonym files = "string \<rightharpoonup> string"

text \<open>The text in a file without a byte order mark, as a C string, if there is any.\<close>

definition os_fread_utf8 :: "string \<Rightarrow> string option" where
  "os_fread_utf8 content =
     (let rest = (if take 3 content = [CHR 0xEF, CHR 0xBB, CHR 0xBF] then drop 3 content else content)
      in if rest = [] then None else Some (takeWhile (\<lambda>c. c \<noteq> NUL) rest))"

text \<open>\<open>writable\<close> are the files that can be opened for writing.\<close>

definition config_parse_file ::
    "(string \<Rightarrow> bool) \<Rightarrow> config_section list \<Rightarrow> string \<Rightarrow> bool \<Rightarrow> files \<Rightarrow> int \<times> config_section list \<times> files" where
  "config_parse_file writable sections file always_open fs =
     (case (if always_open \<and> fs file = None \<and> writable file then fs(file \<mapsto> []) else fs) of fs \<Rightarrow>
        (case fs file of
           None \<Rightarrow> (CONFIG_FILENOTFOUND, sections, fs)
         | Some content \<Rightarrow>
             (case os_fread_utf8 content of
                None \<Rightarrow> (CONFIG_SUCCESS, sections, fs)
              | Some file_data \<Rightarrow> (CONFIG_SUCCESS, parse_config_data sections (lexer_start file_data), fs))))"

definition config_open :: "(string \<Rightarrow> bool) \<Rightarrow> string \<Rightarrow> bool \<Rightarrow> files \<Rightarrow> int \<times> config_data option \<times> files" where
  "config_open writable file always_open fs =
     (case config_parse_file writable [] file always_open fs of
        (errorcode, sections, fs) \<Rightarrow>
          (errorcode,
           if errorcode \<noteq> CONFIG_SUCCESS then None
           else Some \<lparr>cd_file = Some file, cd_sections = sections, cd_defaults = []\<rparr>, fs))"

definition config_open_string :: "string \<Rightarrow> config_data" where
  "config_open_string str =
     \<lparr>cd_file = None, cd_sections = parse_config_data [] (lexer_start str), cd_defaults = []\<rparr>"

definition config_open_defaults :: "(string \<Rightarrow> bool) \<Rightarrow> config_data \<Rightarrow> string \<Rightarrow> files \<Rightarrow> int \<times> config_data \<times> files" where
  "config_open_defaults writable config file fs =
     (case config_parse_file writable (cd_defaults config) file False fs of
        (ret, defaults, fs) \<Rightarrow> (ret, config\<lparr>cd_defaults := defaults\<rparr>, fs))"

definition config_create :: "(string \<Rightarrow> bool) \<Rightarrow> string \<Rightarrow> files \<Rightarrow> config_data option \<times> files" where
  "config_create writable file fs =
     (if writable file then (Some \<lparr>cd_file = Some file, cd_sections = [], cd_defaults = []\<rparr>, fs(file \<mapsto> [])) else (None, fs))"

section \<open>Saving\<close>

definition escape :: "string \<Rightarrow> string" where
  "escape v =
     dstr_replace (dstr_replace (dstr_replace v [CHR 0x5C] [CHR 0x5C, CHR 0x5C]) [CR] [CHR 0x5C, CHR ''r'']) [LF] [CHR 0x5C, CHR ''n'']"

definition item_text :: "config_item \<Rightarrow> string" where
  "item_text item = fst item @ ''='' @ escape (snd item) @ [LF]"

fun sections_text :: "bool \<Rightarrow> config_section list \<Rightarrow> string" where
  "sections_text later [] = []"
| "sections_text later (section # sections) =
     (if later then [LF] else []) @ ''['' @ fst section @ '']'' @ [LF] @ concat (map item_text (snd section)) @
     sections_text True sections"

text \<open>\<open>room\<close> is how many bytes can be written. \<open>fwrite\<close> of nothing gives 0, like one that fails.\<close>

definition config_save :: "(string \<Rightarrow> bool) \<Rightarrow> nat \<Rightarrow> config_data \<Rightarrow> files \<Rightarrow> int \<times> files" where
  "config_save writable room config fs =
     (case cd_file config of
        None \<Rightarrow> (CONFIG_ERROR, fs)
      | Some file \<Rightarrow>
          if \<not> writable file then (CONFIG_FILENOTFOUND, fs)
          else
            let str = sections_text False (cd_sections config)
            in (if str \<noteq> [] \<and> length str \<le> room then CONFIG_SUCCESS else CONFIG_ERROR, fs(file \<mapsto> take room str)))"

text \<open>\<open>rename\<close>, which \<open>fails\<close> for some paths, and \<open>os_safe_replace\<close>.\<close>

definition rename_file :: "(string \<Rightarrow> string \<Rightarrow> bool) \<Rightarrow> string \<Rightarrow> string \<Rightarrow> files \<Rightarrow> int \<times> files" where
  "rename_file fails from to fs =
     (if fs from = None \<or> fails from to then (-1, fs)
      else (0, if from = to then fs else (fs(to := fs from))(from := None)))"

definition os_safe_replace ::
    "(string \<Rightarrow> string \<Rightarrow> bool) \<Rightarrow> string \<Rightarrow> string \<Rightarrow> string option \<Rightarrow> files \<Rightarrow> int \<times> files" where
  "os_safe_replace fails target from backup fs =
     (case (case backup of
              Some backup \<Rightarrow> if fs target \<noteq> None then rename_file fails target backup fs else (0, fs)
            | None \<Rightarrow> (0, fs)) of
        (ret, fs) \<Rightarrow> if ret \<noteq> 0 then (-1, fs) else rename_file fails from target fs)"

text \<open>Without a file the path given to the system is a null pointer: \<^term>\<open>None\<close>. A missing extension is an empty one.\<close>

definition with_ext :: "string \<Rightarrow> string \<Rightarrow> string" where
  "with_ext file ext = file @ (if hd ext \<noteq> CHR ''.'' then ''.'' else []) @ ext"

definition config_save_safe ::
    "(string \<Rightarrow> bool) \<Rightarrow> nat \<Rightarrow> (string \<Rightarrow> string \<Rightarrow> bool) \<Rightarrow> config_data \<Rightarrow> string \<Rightarrow> string \<Rightarrow> files \<Rightarrow> (int \<times> files) option" where
  "config_save_safe writable room fails config temp_ext backup_ext fs =
     (if temp_ext = [] then Some (CONFIG_ERROR, fs)
      else case cd_file config of
        None \<Rightarrow> None
      | Some file \<Rightarrow>
          let temp_file = with_ext file temp_ext
          in case config_save writable room (config\<lparr>cd_file := Some temp_file\<rparr>) fs of
               (ret, fs) \<Rightarrow>
                 if ret \<noteq> CONFIG_SUCCESS then Some (ret, fs)
                 else case os_safe_replace fails file temp_file (if backup_ext = [] then None else Some (with_ext file backup_ext)) fs of
                   (r, fs) \<Rightarrow> Some (if r \<noteq> 0 then CONFIG_ERROR else ret, fs))"

section \<open>Values\<close>

definition config_num_sections :: "config_data \<Rightarrow> nat" where
  "config_num_sections config = length (cd_sections config)"

definition config_get_section :: "config_data \<Rightarrow> nat \<Rightarrow> string option" where
  "config_get_section config idx =
     (if idx \<ge> config_num_sections config then None else Some (fst (cd_sections config ! idx)))"

definition config_find_item :: "hash_find \<Rightarrow> config_section list \<Rightarrow> string \<Rightarrow> string \<Rightarrow> string option" where
  "config_find_item hf sections section name = do {
     i \<leftarrow> hf (map fst sections) section;
     j \<leftarrow> hf (map fst (snd (sections ! i))) name;
     Some (snd (snd (sections ! i) ! j))
   }"

definition set_in_items :: "hash_find \<Rightarrow> string \<Rightarrow> string \<Rightarrow> config_item list \<Rightarrow> config_item list" where
  "set_in_items hf name value items =
     (case hf (map fst items) name of
        None \<Rightarrow> items @ [(name, value)]
      | Some j \<Rightarrow> items[j := (fst (items ! j), value)])"

definition config_set_item :: "hash_find \<Rightarrow> string \<Rightarrow> string \<Rightarrow> string \<Rightarrow> config_section list \<Rightarrow> config_section list" where
  "config_set_item hf section name value sections =
     (case (case hf (map fst sections) section of
              None \<Rightarrow> (length sections, sections @ [(section, [])])
            | Some i \<Rightarrow> (i, sections)) of
        (i, sections) \<Rightarrow> sections[i := (fst (sections ! i), set_in_items hf name value (snd (sections ! i)))])"

definition config_has_user_value :: "hash_find \<Rightarrow> config_data \<Rightarrow> string \<Rightarrow> string \<Rightarrow> bool" where
  "config_has_user_value hf config section name \<longleftrightarrow> config_find_item hf (cd_sections config) section name \<noteq> None"

definition config_has_default_value :: "hash_find \<Rightarrow> config_data \<Rightarrow> string \<Rightarrow> string \<Rightarrow> bool" where
  "config_has_default_value hf config section name \<longleftrightarrow> config_find_item hf (cd_defaults config) section name \<noteq> None"

definition config_set_item_default :: "hash_find \<Rightarrow> string \<Rightarrow> string \<Rightarrow> string \<Rightarrow> config_data \<Rightarrow> config_data" where
  "config_set_item_default hf section name value config =
     (let config = config\<lparr>cd_defaults := config_set_item hf section name value (cd_defaults config)\<rparr>
      in if \<not> config_has_user_value hf config section name
         then config\<lparr>cd_sections := config_set_item hf section name value (cd_sections config)\<rparr> else config)"

text \<open>The five setters of each kind, without the one for doubles, differ in the string they store.\<close>

datatype config_value = String_Value "string option" | Int_Value int | Uint_Value int | Bool_Value bool

definition value_text :: "config_value \<Rightarrow> string" where
  "value_text v =
     (case v of
        String_Value s \<Rightarrow> (case s of None \<Rightarrow> [] | Some s \<Rightarrow> s)
      | Int_Value i \<Rightarrow> print_int i
      | Uint_Value u \<Rightarrow> print_int u
      | Bool_Value b \<Rightarrow> if b then ''true'' else ''false'')"

definition config_set :: "hash_find \<Rightarrow> string \<Rightarrow> string \<Rightarrow> config_value \<Rightarrow> config_data \<Rightarrow> config_data" where
  "config_set hf section name v config =
     config\<lparr>cd_sections := config_set_item hf section name (value_text v) (cd_sections config)\<rparr>"

definition config_set_default :: "hash_find \<Rightarrow> string \<Rightarrow> string \<Rightarrow> config_value \<Rightarrow> config_data \<Rightarrow> config_data" where
  "config_set_default hf section name v config = config_set_item_default hf section name (value_text v) config"

definition config_get_string :: "hash_find \<Rightarrow> config_data \<Rightarrow> string \<Rightarrow> string \<Rightarrow> string option" where
  "config_get_string hf config section name =
     (case config_find_item hf (cd_sections config) section name of
        Some v \<Rightarrow> Some v
      | None \<Rightarrow> config_find_item hf (cd_defaults config) section name)"

definition config_get_default_string :: "hash_find \<Rightarrow> config_data \<Rightarrow> string \<Rightarrow> string \<Rightarrow> string option" where
  "config_get_default_string hf config section name = config_find_item hf (cd_defaults config) section name"

definition str_to_int64 :: "string \<Rightarrow> int" where
  "str_to_int64 str =
     (if str = [] then 0
      else if str ! 0 = CHR ''0'' \<and> char_at str 1 = CHR ''x'' then strtoll 16 (drop 2 str) else strtoll 10 str)"

definition str_to_uint64 :: "string \<Rightarrow> int" where
  "str_to_uint64 str =
     (if str = [] then 0
      else if str ! 0 = CHR ''0'' \<and> char_at str 1 = CHR ''x'' then strtoull 16 (drop 2 str) else strtoull 10 str)"

definition str_to_bool :: "string \<Rightarrow> bool" where
  "str_to_bool str \<longleftrightarrow> astrcmpi str ''true'' = 0 \<or> str_to_uint64 str \<noteq> 0"

definition config_get_int :: "hash_find \<Rightarrow> config_data \<Rightarrow> string \<Rightarrow> string \<Rightarrow> int" where
  "config_get_int hf config section name =
     (case config_get_string hf config section name of Some v \<Rightarrow> str_to_int64 v | None \<Rightarrow> 0)"

definition config_get_uint :: "hash_find \<Rightarrow> config_data \<Rightarrow> string \<Rightarrow> string \<Rightarrow> int" where
  "config_get_uint hf config section name =
     (case config_get_string hf config section name of Some v \<Rightarrow> str_to_uint64 v | None \<Rightarrow> 0)"

definition config_get_bool :: "hash_find \<Rightarrow> config_data \<Rightarrow> string \<Rightarrow> string \<Rightarrow> bool" where
  "config_get_bool hf config section name =
     (case config_get_string hf config section name of Some v \<Rightarrow> str_to_bool v | None \<Rightarrow> False)"

definition config_get_default_int :: "hash_find \<Rightarrow> config_data \<Rightarrow> string \<Rightarrow> string \<Rightarrow> int" where
  "config_get_default_int hf config section name =
     (case config_get_default_string hf config section name of Some v \<Rightarrow> str_to_int64 v | None \<Rightarrow> 0)"

definition config_get_default_uint :: "hash_find \<Rightarrow> config_data \<Rightarrow> string \<Rightarrow> string \<Rightarrow> int" where
  "config_get_default_uint hf config section name =
     (case config_get_default_string hf config section name of Some v \<Rightarrow> str_to_uint64 v | None \<Rightarrow> 0)"

definition config_get_default_bool :: "hash_find \<Rightarrow> config_data \<Rightarrow> string \<Rightarrow> string \<Rightarrow> bool" where
  "config_get_default_bool hf config section name =
     (case config_get_default_string hf config section name of Some v \<Rightarrow> str_to_bool v | None \<Rightarrow> False)"

definition config_remove_value :: "hash_find \<Rightarrow> string \<Rightarrow> string \<Rightarrow> config_data \<Rightarrow> bool \<times> config_data" where
  "config_remove_value hf section name config =
     (case hf (map fst (cd_sections config)) section of
        None \<Rightarrow> (False, config)
      | Some i \<Rightarrow>
          let (n, items) = cd_sections config ! i
          in case hf (map fst items) name of
               None \<Rightarrow> (False, config)
             | Some j \<Rightarrow>
                 (True, config\<lparr>cd_sections := (cd_sections config)[i := (n, take j items @ drop (j + 1) items)]\<rparr>))"

end
