(* ===== verification/Config_Saved.thy ===== *)
theory Config_Saved
  imports Config_File
begin

text \<open>
  What is saved is read back: the parser on the text that \<open>config_save\<close> writes, files across saving and opening, and
  the values of a configuration as a map.
\<close>

section \<open>Tokens in a text\<close>

definition ahead :: "lexer \<Rightarrow> string" where
  "ahead lx = drop (lx_offset lx) (lx_text lx)"

abbreviation moved :: "nat \<Rightarrow> lexer \<Rightarrow> lexer" where
  "moved k lx \<equiv> lx\<lparr>lx_offset := lx_offset lx + k\<rparr>"

lemma ahead_moved: "ahead lx = w @ s \<Longrightarrow> k = length w \<Longrightarrow> ahead (moved k lx) = s"
  unfolding ahead_def by (metis add.commute append_eq_conv_conj drop_drop lexer.select_convs(1,2) lexer.simps(4,6) lexer.surjective lexer.update_convs(2))

lemma ahead_char: "ahead lx = c # s \<Longrightarrow> char_at (lx_text lx) (lx_offset lx) = c"
  unfolding ahead_def char_at_def by (cases "lx_offset lx < length (lx_text lx)") (simp_all add: Cons_nth_drop_Suc [symmetric])

lemma ahead_char1: "ahead lx = c # d # s \<Longrightarrow> char_at (lx_text lx) (lx_offset lx + 1) = d"
  using ahead_char [of "moved 1 lx" d s] ahead_moved [of lx "[c]" "d # s" 1] by simp

lemma ahead_end: "ahead lx = [] \<Longrightarrow> next_token lx = (None, lx)"
  by (simp add: getbasetoken_takes_run_eq ahead_def char_at_def)

lemma type_LF: "get_char_token_type LF = BASETOKEN_WHITESPACE"
  by (simp add: get_char_token_type_def is_whitespace_def)

lemma type_white: "get_char_token_type c = BASETOKEN_WHITESPACE \<longleftrightarrow> is_whitespace c"
  by (simp add: get_char_token_type_def)

lemma takeWhile_stops: "\<not> P e \<Longrightarrow> length (takeWhile P (w @ e # s)) \<le> length w"
  by (induction w) auto

lemma token_at:
  assumes "ahead lx = c # s" "c \<noteq> NUL"
  shows "next_token lx = (Some \<lparr>tk_text = strref_set (lx_offset lx) (token_size (lx_text lx) (lx_offset lx)),
      tk_type = get_char_token_type c\<rparr>, moved (token_size (lx_text lx) (lx_offset lx)) lx)"
  using assms by (simp add: getbasetoken_takes_run_eq ahead_char)

text \<open>A single character that is neither a digit nor a letter.\<close>

lemma size_single:
  assumes "ahead lx = c # s" "get_char_token_type c \<noteq> BASETOKEN_DIGIT" "get_char_token_type c \<noteq> BASETOKEN_ALPHA"
    "is_newline c \<Longrightarrow> c = LF \<and> (s = [] \<or> hd s \<noteq> CR)"
  shows "token_size (lx_text lx) (lx_offset lx) = 1"
proof -
  have "\<not> is_newline_pair c (char_at (lx_text lx) (lx_offset lx + 1))"
  proof (cases s)
    case Nil
    then have "length (lx_text lx) \<le> lx_offset lx + 1" using arg_cong [OF assms(1), of length] by (simp add: ahead_def)
    then show ?thesis by (simp add: char_at_def is_newline_pair_def NUL_def)
  next
    case (Cons d t)
    then show ?thesis using assms(1,4) ahead_char1 [of lx c d t] by (auto simp: is_newline_pair_def is_newline_def)
  qed
  then show ?thesis using assms(2,3) by (simp add: token_size_def Let_def ahead_char [OF assms(1)])
qed

definition plain :: "string \<Rightarrow> bool" where
  "plain w \<longleftrightarrow> NUL \<notin> set w \<and> CR \<notin> set w \<and> LF \<notin> set w"

lemma size_in_word:
  assumes "ahead lx = w @ e # s" "w \<noteq> []" "plain w" "get_char_token_type e \<noteq> BASETOKEN_DIGIT" "get_char_token_type e \<noteq> BASETOKEN_ALPHA"
  shows "0 < token_size (lx_text lx) (lx_offset lx)" "token_size (lx_text lx) (lx_offset lx) \<le> length w"
proof -
  obtain c t where w: "w = c # t" using assms(2) by (cases w) auto
  have c: "c \<noteq> NUL" "\<not> is_newline c" using assms(3) by (auto simp: w plain_def is_newline_def)
  have here: "char_at (lx_text lx) (lx_offset lx) = c" using ahead_char assms(1) w by simp
  show "0 < token_size (lx_text lx) (lx_offset lx)" using token_size_pos(1) here c(1) by simp
  show "token_size (lx_text lx) (lx_offset lx) \<le> length w"
  proof (cases "get_char_token_type c = BASETOKEN_DIGIT \<or> get_char_token_type c = BASETOKEN_ALPHA")
    case True
    then have "get_char_token_type e \<noteq> get_char_token_type c" using assms(4,5) by auto
    from takeWhile_stops [of "\<lambda>x. get_char_token_type x = get_char_token_type c", OF this, of w s] True
    show ?thesis using assms(1) by (simp add: token_size_def Let_def here ahead_def)
  next
    case False
    then have "token_size (lx_text lx) (lx_offset lx) = 1" using size_single [of lx c] assms(1) c(2) w by simp
    then show ?thesis using w by simp
  qed
qed

section \<open>Parsing words\<close>

definition extend :: "nat \<Rightarrow> nat \<Rightarrow> strref \<Rightarrow> strref" where
  "extend off k ref = (if k = 0 then ref else if sr_array ref = None then strref_set off k else ref\<lparr>sr_len := sr_len ref + k\<rparr>)"

lemma extend_add: "k > 0 \<Longrightarrow> strref_add ref (strref_set off k) = extend off k ref"
  by (simp add: strref_add_def extend_def strref_set_def)

lemma extend_extend: "k > 0 \<Longrightarrow> extend (off + k) l (extend off k ref) = extend off (k + l) ref"
  by (simp add: extend_def strref_set_def)

lemma parse_string_word:
  assumes "ahead lx = w @ e # s" "plain w"
    "ch = Some e \<and> get_char_token_type e = BASETOKEN_OTHER \<and> e \<notin> set w \<and> e \<noteq> NUL \<or> ch = None \<and> e = LF \<and> (s = [] \<or> hd s \<noteq> CR)"
  shows "config_parse_string ch lx ref = (True, extend (lx_offset lx) (length w) ref, moved (length w + 1) lx)"
  using assms(1,2,3)
proof (induction "length w" arbitrary: w lx ref rule: less_induct)
  case less
  have e: "get_char_token_type e \<noteq> BASETOKEN_DIGIT" "get_char_token_type e \<noteq> BASETOKEN_ALPHA" "e \<noteq> NUL"
    using less.prems(3) by (auto simp: type_LF NUL_def)
  show ?case
  proof (cases w)
    case Nil
    then have here: "ahead lx = e # s" using less.prems(1) by simp
    have "\<not> is_newline e" if "ch = Some e" using that less.prems(3) type_white [of e] by (auto simp: is_newline_def is_whitespace_def)
    then have "token_size (lx_text lx) (lx_offset lx) = 1" using size_single [OF here e(1,2)] less.prems(3) by auto
    then show ?thesis using less.prems(3) e(3) Nil
      by (subst config_parse_string.simps)
        (auto simp: token_at [OF here e(3)] token_char_def strref_set_def ahead_char [OF here] is_newline_def extend_def)
  next
    case (Cons c t)
    define k where "k = token_size (lx_text lx) (lx_offset lx)"
    have k: "0 < k" "k \<le> length w" using size_in_word [OF less.prems(1) _ less.prems(2) e(1,2)] Cons by (simp_all add: k_def)
    have here: "ahead lx = c # t @ e # s" using less.prems(1) Cons by simp
    have c: "c \<noteq> NUL" "\<not> is_newline c" "ch \<noteq> Some c" using less.prems(2,3) Cons by (auto simp: plain_def is_newline_def)
    have "ahead (moved k lx) = drop k w @ e # s"
      using ahead_moved [of lx "take k w" "drop k w @ e # s" k] less.prems(1) k(2) by simp
    moreover have "plain (drop k w)" "e \<notin> set w \<Longrightarrow> e \<notin> set (drop k w)"
      using less.prems(2) by (auto simp: plain_def dest: in_set_dropD)
    ultimately have "config_parse_string ch (moved k lx) (extend (lx_offset lx) k ref) =
        (True, extend (lx_offset lx + k) (length w - k) (extend (lx_offset lx) k ref), moved (length w - k + 1) (moved k lx))"
      using less.hyps [of "drop k w" "moved k lx" "extend (lx_offset lx) k ref"] k less.prems(3) by auto
    moreover have "config_parse_string ch lx ref = config_parse_string ch (moved k lx) (extend (lx_offset lx) k ref)"
      using c by (subst config_parse_string.simps)
        (simp add: token_at [OF here c(1)] token_char_def strref_set_def ahead_char [OF here] k_def [symmetric]
          extend_add [OF k(1), unfolded strref_set_def])
    ultimately show ?thesis using k by (simp add: extend_extend)
  qed
qed

section \<open>Lines\<close>

definition name_ok :: "string \<Rightarrow> bool" where
  "name_ok n \<longleftrightarrow> n \<noteq> [] \<and> plain n \<and> CHR ''='' \<notin> set n \<and> \<not> is_whitespace (hd n) \<and> hd n \<noteq> CHR ''#'' \<and> hd n \<noteq> CHR ''[''"

definition value_ok :: "string \<Rightarrow> bool" where
  "value_ok v \<longleftrightarrow> NUL \<notin> set v"

lemma skip_LFs:
  assumes "ahead lx = replicate m LF @ c # s" "c \<noteq> NUL" "\<not> is_whitespace c"
  shows "\<exists>t lx1. next_token lx = (Some t, lx1) \<and>
    skip_white t lx1 = (Some \<lparr>tk_text = strref_set (lx_offset lx + m) (token_size (lx_text lx) (lx_offset lx + m)),
      tk_type = get_char_token_type c\<rparr>, moved (m + token_size (lx_text lx) (lx_offset lx + m)) lx)"
  using assms(1)
proof (induction m arbitrary: lx)
  case 0
  then show ?case using token_at [of lx c s] assms(2,3) by (simp add: skip_white.simps type_white)
next
  case (Suc m)
  let ?s = "replicate m LF @ c # s"
  have here: "ahead lx = LF # ?s" using Suc.prems by simp
  have "hd ?s \<noteq> CR" using assms(3) by (cases m) (auto simp: is_whitespace_def)
  then have "token_size (lx_text lx) (lx_offset lx) = 1" using size_single [OF here] by (simp add: type_LF)
  then have t: "next_token lx = (Some \<lparr>tk_text = strref_set (lx_offset lx) 1, tk_type = BASETOKEN_WHITESPACE\<rparr>, moved 1 lx)"
    using token_at [OF here] by (simp add: NUL_def type_LF)
  have "ahead (moved 1 lx) = ?s" using ahead_moved [of lx "[LF]" ?s 1] here by simp
  from Suc.IH [OF this] show ?case unfolding t
    by (auto simp: skip_white.simps [of "\<lparr>tk_text = a, tk_type = BASETOKEN_WHITESPACE\<rparr>" for a] add.assoc)
qed

lemma skip_only_LFs:
  assumes "ahead lx = replicate m LF"
  shows "\<exists>lx'. ahead lx' = [] \<and> (next_token lx = (None, lx') \<or> (\<exists>t lx1. next_token lx = (Some t, lx1) \<and> skip_white t lx1 = (None, lx')))"
  using assms
proof (induction m arbitrary: lx)
  case 0
  then show ?case using ahead_end [of lx] by auto
next
  case (Suc m)
  let ?s = "replicate m LF"
  have here: "ahead lx = LF # ?s" using Suc.prems by simp
  have "?s = [] \<or> hd ?s \<noteq> CR" by (cases m) auto
  then have "token_size (lx_text lx) (lx_offset lx) = 1" using size_single [OF here] by (simp add: type_LF)
  then have t: "next_token lx = (Some \<lparr>tk_text = strref_set (lx_offset lx) 1, tk_type = BASETOKEN_WHITESPACE\<rparr>, moved 1 lx)"
    using token_at [OF here] by (simp add: NUL_def type_LF)
  have "ahead (moved 1 lx) = ?s" using ahead_moved [of lx "[LF]" ?s 1] here by simp
  from Suc.IH [OF this] obtain lx' where l: "ahead lx' = []"
    "next_token (moved 1 lx) = (None, lx') \<or> (\<exists>t lx1. next_token (moved 1 lx) = (Some t, lx1) \<and> skip_white t lx1 = (None, lx'))"
    by blast
  then have "skip_white \<lparr>tk_text = strref_set (lx_offset lx) 1, tk_type = BASETOKEN_WHITESPACE\<rparr> (moved 1 lx) = (None, lx')"
    by (subst skip_white.simps) auto
  then show ?case using t l(1) by auto
qed

lemma ahead_text: "ahead lx = w @ s \<Longrightarrow> strref_text (lx_text lx) (strref_set (lx_offset lx) (length w)) = w"
  by (simp add: strref_text_def strref_set_def ahead_def)

lemma round_end:
  assumes "ahead lx = replicate m LF"
  shows "\<exists>lx'. parse_section_round lx = Return lx' \<and> ahead lx' = []"
  using skip_only_LFs [OF assms] by (auto simp: parse_section_round_def)

lemma bracket_type: "get_char_token_type (CHR ''['') = BASETOKEN_OTHER" "get_char_token_type (CHR '']'') = BASETOKEN_OTHER"
    "get_char_token_type (CHR ''='') = BASETOKEN_OTHER" "get_char_token_type (CHR ''#'') = BASETOKEN_OTHER"
  by (simp_all add: get_char_token_type_def is_whitespace_def schar_def)

lemma moved_end: "ahead lx = replicate m LF @ s \<Longrightarrow> ahead (moved m lx) = s"
  using ahead_moved [of lx "replicate m LF" s m] by simp

lemma round_section:
  assumes "ahead lx = replicate m LF @ CHR ''['' # s"
  shows "parse_section_round lx = Return (moved m lx)"
proof -
  have here: "ahead (moved m lx) = CHR ''['' # s" using moved_end [OF assms] .
  have "token_size (lx_text lx) (lx_offset lx + m) = 1"
    using size_single [OF here] by (simp add: bracket_type is_newline_def)
  then obtain t lx1 where "next_token lx = (Some t, lx1)"
    "skip_white t lx1 = (Some \<lparr>tk_text = strref_set (lx_offset lx + m) 1, tk_type = BASETOKEN_OTHER\<rparr>, moved (m + 1) lx)"
    using skip_LFs [OF assms] by (auto simp: NUL_def is_whitespace_def bracket_type)
  then show ?thesis using ahead_char [OF here] by (simp add: parse_section_round_def token_char_def strref_set_def)
qed

lemma type_hash: "get_char_token_type c = BASETOKEN_OTHER \<and> c = CHR ''#'' \<longleftrightarrow> c = CHR ''#''"
  using bracket_type by auto

lemma round_item:
  assumes "ahead lx = replicate m LF @ n @ CHR ''='' # v @ LF # s" "name_ok n" "plain v" "s = [] \<or> hd s \<noteq> CR"
  shows "\<exists>ref. parse_section_round lx = Add_Item (strref_set (lx_offset lx + m) (length n)) ref
      (moved (m + length n + 1 + length v + 1) lx) \<and>
    strref_text (lx_text lx) (strref_set (lx_offset lx + m) (length n)) = n \<and>
    (if v = [] then ref = strref_clear else ref = strref_set (lx_offset lx + m + length n + 1) (length v)) \<and>
    strref_text (lx_text lx) ref = v"
proof -
  obtain c n' where n: "n = c # n'" using assms(2) by (cases n) (auto simp: name_ok_def)
  have c: "c \<noteq> NUL" "\<not> is_whitespace c" "c \<noteq> CHR ''#''" "c \<noteq> CHR ''[''" "plain n" "CHR ''='' \<notin> set n"
    using assms(2) by (auto simp: n name_ok_def plain_def)
  let ?lx = "moved m lx"
  let ?rest = "v @ LF # s"
  have here: "ahead ?lx = n @ CHR ''='' # ?rest" using moved_end [OF assms(1)] .
  define k where "k = token_size (lx_text lx) (lx_offset lx + m)"
  have k: "0 < k" "k \<le> length n" using size_in_word [OF here _ c(5)] n by (simp_all add: bracket_type k_def)
  obtain t lx1 where w: "next_token lx = (Some t, lx1)"
    "skip_white t lx1 = (Some \<lparr>tk_text = strref_set (lx_offset lx + m) k, tk_type = get_char_token_type c\<rparr>, moved (m + k) lx)"
    using skip_LFs [of lx m c "n' @ CHR ''='' # ?rest"] assms(1) c(1,2) by (auto simp: n k_def)
  have tc: "char_at (lx_text lx) (lx_offset lx + m) = c" using ahead_char [of ?lx c] here n by simp
  have in_name: "ahead (moved (m + k) lx) = drop k n @ CHR ''='' # ?rest"
    using ahead_moved [of ?lx "take k n" "drop k n @ CHR ''='' # ?rest" k] here k(2) by (simp add: add.assoc)
  have "plain (drop k n)" "CHR ''='' \<notin> set (drop k n)" using c(5,6) by (auto simp: plain_def dest: in_set_dropD)
  then have "config_parse_string (Some (CHR ''='')) (moved (m + k) lx) (strref_set (lx_offset lx + m) k) =
      (True, extend (lx_offset lx + m + k) (length n - k) (strref_set (lx_offset lx + m) k), moved (m + length n + 1) lx)"
    using parse_string_word [OF in_name, of "Some (CHR ''='')" "strref_set (lx_offset lx + m) k"] k(2)
    by (simp add: bracket_type NUL_def add.assoc)
  moreover have "extend (lx_offset lx + m + k) (length n - k) (strref_set (lx_offset lx + m) k) = strref_set (lx_offset lx + m) (length n)"
    using k by (simp add: extend_def strref_set_def)
  moreover have behind: "ahead (moved (m + length n + 1) lx) = v @ LF # s"
    using ahead_moved [of ?lx "n @ [CHR ''='']" "v @ LF # s" "length n + 1"] here by (simp add: add.assoc)
  from parse_string_word [OF this assms(3), of None strref_clear] assms(4)
  have "config_parse_string None (moved (m + length n + 1) lx) strref_clear =
      (True, extend (lx_offset lx + m + length n + 1) (length v) strref_clear, moved (m + length n + 1 + length v + 1) lx)"
    by (simp add: add.assoc)
  ultimately have "parse_section_round lx = Add_Item (strref_set (lx_offset lx + m) (length n))
      (extend (lx_offset lx + m + length n + 1) (length v) strref_clear) (moved (m + length n + 1 + length v + 1) lx)"
    unfolding parse_section_round_def w(1) prod.case option.case w(2)
    using c(3,4) tc by (simp add: token_char_def strref_set_def)
  moreover have "strref_text (lx_text lx) (strref_set (lx_offset lx + m) (length n)) = n" using ahead_text [OF here] by simp
  moreover have "strref_text (lx_text lx) (strref_set (lx_offset lx + m + length n + 1) (length v)) = v"
    using ahead_text [OF behind] by (simp add: add.assoc)
  ultimately show ?thesis by (auto simp: extend_def strref_clear_def strref_text_def)
qed

section \<open>The text that is saved\<close>

definition esc :: "char \<Rightarrow> string" where
  "esc c = (if c = CHR 0x5C then [CHR 0x5C, CHR 0x5C] else if c = CR then [CHR 0x5C, CHR ''r'']
     else if c = LF then [CHR 0x5C, CHR ''n''] else [c])"

lemma escape_esc: "escape v = concat (map esc v)"
  unfolding escape_def replace_char by (induction v) (auto simp: esc_def)

lemma unescape_esc: "unescape (concat (map esc v)) = v"
proof (induction v)
  case (Cons c v)
  have "unescape (esc c @ s) = c # unescape s" for s by (auto simp: esc_def)
  then show ?case using Cons by simp
qed simp

lemma escape_plain:
  assumes "value_ok v"
  shows "plain (escape v)" "escape v = [] \<longleftrightarrow> v = []"
proof -
  have "plain (esc c)" if "c \<noteq> NUL" for c using that by (auto simp: esc_def plain_def NUL_def)
  then have "\<forall>c \<in> set v. plain (esc c)" using assms unfolding value_ok_def by metis
  then show "plain (escape v)" unfolding escape_esc by (simp add: plain_def)
  show "escape v = [] \<longleftrightarrow> v = []" by (cases v) (simp_all add: escape_esc esc_def)
qed

lemma item_round:
  assumes "ahead lx = replicate m LF @ item_text (n, v) @ s" "name_ok n" "value_ok v" "s = [] \<or> hd s \<noteq> CR"
  shows "\<exists>name ref k. parse_section_round lx = Add_Item name ref (moved k lx) \<and> ahead (moved k lx) = s \<and>
    config_add_item (lx_text lx) name ref items = items @ [(n, v)]"
proof -
  let ?v = "escape v"
  let ?k = "m + length n + 1 + length ?v + 1"
  have here: "ahead lx = replicate m LF @ n @ CHR ''='' # ?v @ LF # s" using assms(1) by (simp add: item_text_def)
  from round_item [OF here assms(2) escape_plain(1) [OF assms(3)] assms(4)] obtain ref where r:
    "parse_section_round lx = Add_Item (strref_set (lx_offset lx + m) (length n)) ref (moved ?k lx)"
    "strref_text (lx_text lx) (strref_set (lx_offset lx + m) (length n)) = n" "strref_text (lx_text lx) ref = ?v"
    "if ?v = [] then ref = strref_clear else ref = strref_set (lx_offset lx + m + length n + 1) (length ?v)"
    by blast
  have behind: "ahead (moved ?k lx) = s"
    using ahead_moved [of lx "replicate m LF @ n @ CHR ''='' # ?v @ [LF]" s ?k] here by (simp add: add.assoc)
  have "strref_is_empty (lx_text lx) ref \<longleftrightarrow> v = []"
  proof (cases "v = []")
    case True
    then show ?thesis using r(4) escape_plain(2) [OF assms(3)] by (simp add: strref_is_empty_def strref_clear_def)
  next
    case False
    then obtain c t where e: "?v = c # t" using escape_plain(2) [OF assms(3)] by (cases ?v) auto
    have "ahead (moved (m + length n + 1) lx) = c # t @ LF # s"
      using ahead_moved [of lx "replicate m LF @ n @ [CHR ''='']" "?v @ LF # s" "m + length n + 1"] here e by (simp add: add.assoc)
    then have "char_at (lx_text lx) (lx_offset lx + m + length n + 1) = c"
      using ahead_char [of "moved (m + length n + 1) lx" c] by (simp add: add.assoc)
    moreover have "c \<noteq> NUL" using escape_plain(1) [OF assms(3)] e by (auto simp: plain_def)
    ultimately show ?thesis using r(4) e False by (simp add: strref_is_empty_def strref_set_def)
  qed
  then have "config_add_item (lx_text lx) (strref_set (lx_offset lx + m) (length n)) ref items = items @ [(n, v)]"
    using r(2,3) unescape_esc [of v] by (auto simp: config_add_item_def escape_esc)
  then show ?thesis using r(1) behind by blast
qed

definition items_ok :: "config_item list \<Rightarrow> bool" where
  "items_ok items \<longleftrightarrow> (\<forall>(n, v) \<in> set items. name_ok n \<and> value_ok v)"

text \<open>Items are followed by the end of the text or, after empty lines, by another section.\<close>

definition tail_ok :: "string \<Rightarrow> bool" where
  "tail_ok s \<longleftrightarrow> s = [] \<or> (\<exists>m t. s = replicate m LF @ CHR ''['' # t)"

lemma item_text_start: "name_ok (fst item) \<Longrightarrow> \<exists>c s. item_text item @ t = c # s \<and> c \<noteq> CR"
  by (cases "fst item") (auto simp: item_text_def name_ok_def is_whitespace_def)

lemma parse_items:
  assumes "items_ok its" "tail_ok s" "ahead lx = replicate m LF @ concat (map item_text its) @ s"
  shows "\<exists>lx'. config_parse_section items lx = (items @ its, lx') \<and> ahead lx' = dropWhile (\<lambda>c. c = LF) s"
  using assms
proof (induction its arbitrary: items lx m)
  case Nil
  show ?case
  proof (cases "s = []")
    case True
    then obtain lx' where "parse_section_round lx = Return lx'" "ahead lx' = []" using round_end [of lx m] Nil by auto
    then show ?thesis using True by (subst config_parse_section.simps) simp
  next
    case False
    then obtain k t where s: "s = replicate k LF @ CHR ''['' # t" using Nil.prems(2) by (auto simp: tail_ok_def)
    have here: "ahead lx = replicate (m + k) LF @ CHR ''['' # t" using Nil.prems(3) s by (simp add: replicate_add)
    have "dropWhile (\<lambda>c. c = LF) s = CHR ''['' # t" unfolding s by (induction k) auto
    then show ?thesis using round_section [OF here] moved_end [OF here] by (subst config_parse_section.simps) simp
  qed
next
  case (Cons item its)
  obtain n v where i: "item = (n, v)" by (cases item)
  let ?s = "concat (map item_text its) @ s"
  have ok: "name_ok n" "value_ok v" "items_ok its" using Cons.prems(1) by (auto simp: items_ok_def i)
  have "?s = [] \<or> hd ?s \<noteq> CR"
  proof (cases its)
    case Nil
    have "hd (replicate k LF @ CHR ''['' # t) \<noteq> CR" for k t by (cases k) auto
    then have "s = [] \<or> hd s \<noteq> CR" using Cons.prems(2) unfolding tail_ok_def by metis
    then show ?thesis using Nil by simp
  next
    case (Cons a b)
    then show ?thesis using item_text_start [of a "concat (map item_text b) @ s"] ok(3) by (auto simp: items_ok_def)
  qed
  then obtain name ref k where r: "parse_section_round lx = Add_Item name ref (moved k lx)" "ahead (moved k lx) = ?s"
      "config_add_item (lx_text lx) name ref items = items @ [(n, v)]"
    using item_round [of lx m n v ?s items] Cons.prems(3) ok(1,2) by (auto simp: i)
  have "ahead (moved k lx) = replicate 0 LF @ concat (map item_text its) @ s" using r(2) by simp
  from Cons.IH [OF ok(3) Cons.prems(2) this, of "items @ [(n, v)]"] show ?case
    using r(1,3) by (subst config_parse_section.simps) (simp add: i)
qed

definition section_ok :: "config_section \<Rightarrow> bool" where
  "section_ok section \<longleftrightarrow> fst section \<noteq> [] \<and> plain (fst section) \<and> CHR '']'' \<notin> set (fst section) \<and> items_ok (snd section)"

lemma sections_text_later: "sections_text True secs = (if secs = [] then [] else LF # sections_text False secs)"
  by (cases secs) auto

lemma sections_text_starts: "secs \<noteq> [] \<Longrightarrow> \<exists>t. sections_text False secs = CHR ''['' # t"
  by (cases secs) auto

lemma sections_tail: "tail_ok (sections_text True secs)"
proof (cases "secs = []")
  case False
  then obtain t where "sections_text False secs = CHR ''['' # t" using sections_text_starts by blast
  then have "sections_text True secs = replicate 1 LF @ CHR ''['' # t" using False by (simp add: sections_text_later)
  then show ?thesis unfolding tail_ok_def by blast
qed (simp add: tail_ok_def)

lemma parse_text:
  assumes "\<forall>section \<in> set secs. section_ok section" "ahead lx = sections_text False secs"
  shows "parse_config_data sections lx = sections @ secs"
  using assms
proof (induction secs arbitrary: sections lx)
  case Nil
  then show ?case using ahead_end [of lx] by (subst parse_config_data.simps) simp
next
  case (Cons sec secs)
  obtain n its where sec: "sec = (n, its)" by (cases sec)
  have ok: "n \<noteq> []" "plain n" "CHR '']'' \<notin> set n" "items_ok its" using Cons.prems(1) by (auto simp: section_ok_def sec)
  let ?tail = "sections_text True secs"
  let ?body = "LF # concat (map item_text its) @ ?tail"
  have here: "ahead lx = CHR ''['' # n @ CHR '']'' # ?body" using Cons.prems(2) by (simp add: sec)
  have one: "token_size (lx_text lx) (lx_offset lx) = 1" using size_single [OF here] by (simp add: bracket_type is_newline_def)
  have t: "next_token lx = (Some \<lparr>tk_text = strref_set (lx_offset lx) 1, tk_type = BASETOKEN_OTHER\<rparr>, moved 1 lx)"
    using token_at [OF here] one by (simp add: NUL_def bracket_type)
  have in_name: "ahead (moved 1 lx) = n @ CHR '']'' # ?body" using ahead_moved [of lx "[CHR ''['']" _ 1] here by simp
  have p: "config_parse_string (Some (CHR '']'')) (moved 1 lx) strref_clear =
      (True, strref_set (lx_offset lx + 1) (length n), moved (1 + length n + 1) lx)"
    using parse_string_word [OF in_name ok(2), of "Some (CHR '']'')" strref_clear] ok(1,3)
    by (simp add: bracket_type NUL_def extend_def strref_clear_def add.assoc)
  have name: "strref_text (lx_text lx) (strref_set (lx_offset lx + 1) (length n)) = n" using ahead_text [OF in_name] by simp
  have "ahead (moved (1 + length n + 1) lx) = replicate 1 LF @ concat (map item_text its) @ ?tail"
    using ahead_moved [of lx "CHR ''['' # n @ [CHR '']'']" _ "1 + length n + 1"] here by simp
  from parse_items [OF ok(4) sections_tail this, of "[]"] obtain lx' where
    s: "config_parse_section [] (moved (1 + length n + 1) lx) = (its, lx')" "ahead lx' = dropWhile (\<lambda>c. c = LF) ?tail" by auto
  have "dropWhile (\<lambda>c. c = LF) ?tail = sections_text False secs"
    using sections_text_starts [of secs] by (auto simp: sections_text_later)
  then have IH: "parse_config_data (sections @ [(n, its)]) lx' = (sections @ [(n, its)]) @ secs"
    using Cons.IH [of lx' "sections @ [(n, its)]"] Cons.prems(1) s(2) by simp
  show ?case
    using IH ok(1) name s(1) p ahead_char [OF here]
    by (subst parse_config_data.simps)
      (simp add: t skip_white.simps token_char_def strref_set_def sec)
qed

section \<open>Files\<close>

lemma text_no_NUL: "\<forall>section \<in> set secs. section_ok section \<Longrightarrow> NUL \<notin> set (sections_text later secs)"
proof (induction later secs rule: sections_text.induct)
  case (2 later sec secs)
  have "NUL \<notin> set (item_text item)" if "item \<in> set (snd sec)" for item
  proof -
    have ok: "name_ok (fst item)" "value_ok (snd item)" using 2(2) that by (auto simp: section_ok_def items_ok_def)
    then have "NUL \<notin> set (fst item)" "NUL \<notin> set (escape (snd item))" using escape_plain(1) by (auto simp: name_ok_def plain_def)
    moreover have "NUL \<notin> set ''=''" "NUL \<noteq> LF" by (simp_all add: NUL_def)
    ultimately show ?thesis by (simp add: item_text_def)
  qed
  moreover have "NUL \<notin> set (fst sec)" "NUL \<noteq> CHR ''[''" "NUL \<noteq> CHR '']''" "NUL \<noteq> LF"
    using 2(2) by (auto simp: section_ok_def plain_def NUL_def)
  ultimately show ?case using 2 by auto
qed simp

text \<open>A configuration whose section and item names are such that the format can hold them, is saved to its file and
  opened from there with the same sections, items and values in the same order, whatever characters the values have.\<close>

lemma saved_sections_parse:
  assumes "cd_file config = Some file" "\<forall>section \<in> set (cd_sections config). section_ok section" "cd_sections config \<noteq> []"
    "writable file" "length (sections_text False (cd_sections config)) \<le> room"
  shows "\<exists>fs'. config_save writable room config fs = (CONFIG_SUCCESS, fs') \<and>
    config_open writable' file always_open fs' =
      (CONFIG_SUCCESS, Some \<lparr>cd_file = Some file, cd_sections = cd_sections config, cd_defaults = []\<rparr>, fs')"
proof -
  let ?text = "sections_text False (cd_sections config)"
  obtain t where t: "?text = CHR ''['' # t" using sections_text_starts [OF assms(3)] by blast
  have save: "config_save writable room config fs = (CONFIG_SUCCESS, fs(file \<mapsto> ?text))"
    using assms(1,4,5) t by (simp add: config_save_def)
  have "takeWhile (\<lambda>c. c \<noteq> NUL) ?text = ?text" using text_no_NUL [OF assms(2)] by (simp add: takeWhile_eq_all_conv) metis
  then have "os_fread_utf8 ?text = Some ?text" using t by (simp add: os_fread_utf8_def)
  moreover have "parse_config_data [] (lexer_start ?text) = cd_sections config"
    using parse_text [OF assms(2), of "lexer_start ?text" "[]"] by (simp add: ahead_def lexer_start_def)
  ultimately have "config_open writable' file always_open (fs(file \<mapsto> ?text)) =
      (CONFIG_SUCCESS, Some \<lparr>cd_file = Some file, cd_sections = cd_sections config, cd_defaults = []\<rparr>, fs(file \<mapsto> ?text))"
    by (simp add: config_open_def config_parse_file_def)
  then show ?thesis using save by blast
qed

lemma with_ext_neq: "ext \<noteq> [] \<Longrightarrow> with_ext file ext \<noteq> file"
  by (simp add: with_ext_def)


section \<open>Values as a map\<close>

lemma hash_find_map_of:
  assumes "hash_finds hf" "distinct (map fst xs)"
  shows "(case hf (map fst xs) k of None \<Rightarrow> None | Some i \<Rightarrow> Some (snd (xs ! i))) = map_of xs k"
    "hf (map fst xs) k = Some i \<Longrightarrow> i < length xs \<and> fst (xs ! i) = k"
    "hf (map fst xs) k = None \<longleftrightarrow> map_of xs k = None"
proof -
  have laws: "case hf (map fst xs) k of None \<Rightarrow> k \<notin> fst ` set xs | Some i \<Rightarrow> i < length xs \<and> map fst xs ! i = k"
    using assms(1) unfolding hash_finds_def by (metis (mono_tags, lifting) length_map list.set_map option.case_eq_if)
  show "hf (map fst xs) k = Some i \<Longrightarrow> i < length xs \<and> fst (xs ! i) = k" using laws by auto
  show m: "(case hf (map fst xs) k of None \<Rightarrow> None | Some i \<Rightarrow> Some (snd (xs ! i))) = map_of xs k"
  proof (cases "hf (map fst xs) k")
    case None
    then have "map_of xs k = None" using laws by (simp add: map_of_eq_None_iff)
    then show ?thesis using None by simp
  next
    case (Some i)
    then have "i < length xs" "xs ! i = (k, snd (xs ! i))" using laws by (auto simp: prod_eq_iff)
    then have "(k, snd (xs ! i)) \<in> set xs" by (metis nth_mem)
    then show ?thesis using Some map_of_is_SomeI [OF assms(2)] by simp
  qed
  show "hf (map fst xs) k = None \<longleftrightarrow> map_of xs k = None" unfolding m [symmetric] by (simp split: option.split)
qed

text \<open>Setting the value of a key in an association list, in place or at the end.\<close>

lemma map_of_set:
  assumes "distinct (map fst xs)" "i < length xs" "fst (xs ! i) = k"
  shows "map_of (xs[i := (k, v)]) = (map_of xs)(k \<mapsto> v)" "distinct (map fst (xs[i := (k, v)]))"
proof -
  have keys: "map fst (xs[i := (k, v)]) = map fst xs" using assms(2,3) by (simp add: map_update list_update_same_conv)
  then show d: "distinct (map fst (xs[i := (k, v)]))" using assms(1) by simp
  have old: "(k', w) \<in> set (xs[i := (k, v)]) \<longleftrightarrow> (k', w) \<in> set xs" if "k' \<noteq> k" for k' w
    using that assms(2,3) by (auto simp: in_set_conv_nth nth_list_update prod_eq_iff split: if_splits)
  show "map_of (xs[i := (k, v)]) = (map_of xs)(k \<mapsto> v)"
  proof
    fix k'
    show "map_of (xs[i := (k, v)]) k' = ((map_of xs)(k \<mapsto> v)) k'"
    proof (cases "k' = k")
      case True
      have "(k, v) \<in> set (xs[i := (k, v)])" using assms(2) by (simp add: set_update_memI)
      then show ?thesis using True map_of_is_SomeI [OF d] by simp
    next
      case False
      have "map_of (xs[i := (k, v)]) k' = Some w \<longleftrightarrow> map_of xs k' = Some w" for w
        using old [OF False, of w] map_of_eq_Some_iff [OF d] map_of_eq_Some_iff [OF assms(1)] by simp
      then show ?thesis using False by (metis fun_upd_other not_Some_eq)
    qed
  qed
qed

lemma map_of_added: "map_of xs k = None \<Longrightarrow> map_of (xs @ [(k, v)]) = (map_of xs)(k \<mapsto> v)"
  by (rule ext) (auto simp: map_add_def split: option.split)

lemma set_in_items_map:
  assumes "hash_finds hf" "distinct (map fst items)"
  shows "map_of (set_in_items hf n v items) = (map_of items)(n \<mapsto> v)" "distinct (map fst (set_in_items hf n v items))"
proof -
  note f = hash_find_map_of [OF assms, of n]
  have "map_of (set_in_items hf n v items) = (map_of items)(n \<mapsto> v) \<and> distinct (map fst (set_in_items hf n v items))"
  proof (cases "hf (map fst items) n")
    case None
    then show ?thesis using f(3) assms(2) map_of_added [of items n v] by (auto simp: set_in_items_def map_of_eq_None_iff)
  next
    case (Some j)
    then show ?thesis using f(2) [OF Some] map_of_set [OF assms(2), of j n v] by (simp add: set_in_items_def)
  qed
  then show "map_of (set_in_items hf n v items) = (map_of items)(n \<mapsto> v)" "distinct (map fst (set_in_items hf n v items))" by simp_all
qed

definition keys_ok :: "config_section list \<Rightarrow> bool" where
  "keys_ok secs \<longleftrightarrow> distinct (map fst secs) \<and> (\<forall>sec \<in> set secs. distinct (map fst (snd sec)))"

definition values_of :: "config_section list \<Rightarrow> string \<times> string \<Rightarrow> string option" where
  "values_of secs = (\<lambda>(s, n). case map_of secs s of None \<Rightarrow> None | Some items \<Rightarrow> map_of items n)"

lemma find_values:
  assumes "hash_finds hf" "keys_ok secs"
  shows "config_find_item hf secs s n = values_of secs (s, n)"
proof -
  have d: "distinct (map fst secs)" using assms(2) by (simp add: keys_ok_def)
  note f = hash_find_map_of [OF assms(1) d, of s]
  show ?thesis
  proof (cases "hf (map fst secs) s")
    case None
    then show ?thesis using f(3) by (simp add: config_find_item_def values_of_def)
  next
    case (Some i)
    then have "secs ! i \<in> set secs" "map_of secs s = Some (snd (secs ! i))" using f(1,2) by auto
    then show ?thesis
      using Some hash_find_map_of(1) [OF assms(1), of "snd (secs ! i)" n] assms(2)
      by (auto simp: config_find_item_def values_of_def keys_ok_def split: option.splits)
  qed
qed

lemma set_values:
  assumes "hash_finds hf" "keys_ok secs"
  shows "values_of (config_set_item hf s n v secs) = (values_of secs)((s, n) \<mapsto> v)" "keys_ok (config_set_item hf s n v secs)"
proof -
  have d: "distinct (map fst secs)" using assms(2) by (simp add: keys_ok_def)
  note f = hash_find_map_of [OF assms(1) d, of s]
  have "values_of (config_set_item hf s n v secs) = (values_of secs)((s, n) \<mapsto> v) \<and> keys_ok (config_set_item hf s n v secs)"
  proof (cases "hf (map fst secs) s")
    case None
    have new: "config_set_item hf s n v secs = secs @ [(s, set_in_items hf n v [])]"
      using None by (simp add: config_set_item_def)
    have absent: "map_of secs s = None" using None f(3) by simp
    note i = set_in_items_map [OF assms(1), of "[]" n v, simplified]
    have mo: "map_of (secs @ [(s, set_in_items hf n v [])]) = (map_of secs)(s \<mapsto> set_in_items hf n v [])"
      using absent by (intro map_of_added)
    have "values_of (secs @ [(s, set_in_items hf n v [])]) = (values_of secs)((s, n) \<mapsto> v)"
      unfolding values_of_def mo using i(1) absent by (auto simp: fun_eq_iff)
    moreover have "keys_ok (secs @ [(s, set_in_items hf n v [])])"
      using assms(2) i(2) absent by (auto simp: keys_ok_def map_of_eq_None_iff)
    ultimately show ?thesis unfolding new by blast
  next
    case (Some j)
    then have j: "j < length secs" "fst (secs ! j) = s" "map_of secs s = Some (snd (secs ! j))" using f(1,2) by auto
    let ?items = "set_in_items hf n v (snd (secs ! j))"
    have new: "config_set_item hf s n v secs = secs[j := (s, ?items)]" using Some j(2) by (simp add: config_set_item_def)
    have "distinct (map fst (snd (secs ! j)))" using assms(2) j(1) by (auto simp: keys_ok_def)
    note i = set_in_items_map [OF assms(1) this, of n v]
    note m = map_of_set [OF d j(1,2), of ?items]
    have "values_of (secs[j := (s, ?items)]) = (values_of secs)((s, n) \<mapsto> v)"
      using i(1) j(3) by (auto simp: values_of_def fun_eq_iff m(1))
    moreover have "keys_ok (secs[j := (s, ?items)])"
      using assms(2) i(2) m(2) by (auto simp: keys_ok_def dest: set_update_subset_insert [THEN subsetD])
    ultimately show ?thesis unfolding new by blast
  qed
  then show "values_of (config_set_item hf s n v secs) = (values_of secs)((s, n) \<mapsto> v)" "keys_ok (config_set_item hf s n v secs)" by simp_all
qed

lemma map_of_remove:
  assumes "distinct (map fst xs)" "j < length xs" "fst (xs ! j) = k"
  shows "map_of (take j xs @ drop (j + 1) xs) = (map_of xs)(k := None)" "distinct (map fst (take j xs @ drop (j + 1) xs))"
proof -
  have xs: "xs = take j xs @ (k, snd (xs ! j)) # drop (j + 1) xs"
    using id_take_nth_drop [OF assms(2)] assms(3) by (metis Suc_eq_plus1 prod.collapse)
  have d: "distinct (map fst (take j xs @ (k, snd (xs ! j)) # drop (j + 1) xs))" using assms(1) xs by simp
  then show "distinct (map fst (take j xs @ drop (j + 1) xs))" by auto
  have gone: "map_of (take j xs) k = None" "map_of (drop (j + 1) xs) k = None" using d by (simp_all add: map_of_eq_None_iff)
  have "map_of (take j xs @ drop (j + 1) xs) = (map_of (take j xs @ (k, snd (xs ! j)) # drop (j + 1) xs))(k := None)"
  proof
    fix k'
    show "map_of (take j xs @ drop (j + 1) xs) k' = ((map_of (take j xs @ (k, snd (xs ! j)) # drop (j + 1) xs))(k := None)) k'"
      using gone by (cases "k' = k") (simp_all add: map_add_def split: option.split)
  qed
  then show "map_of (take j xs @ drop (j + 1) xs) = (map_of xs)(k := None)" unfolding xs [symmetric] .
qed

section \<open>Programs\<close>

datatype config_op =
    Set_Op string string config_value | Set_Default_Op string string config_value | Remove_Op string string
  | Get_Op string string | Get_Default_Op string string | Has_User_Op string string | Has_Default_Op string string

datatype config_out = Done_Out | Bool_Out bool | Text_Out "string option"

definition config_step :: "hash_find \<Rightarrow> config_data \<Rightarrow> config_op \<Rightarrow> (config_out \<times> config_data) option" where
  "config_step hf c x = Some (case x of
     Set_Op s n v \<Rightarrow> (Done_Out, config_set hf s n v c)
   | Set_Default_Op s n v \<Rightarrow> (Done_Out, config_set_default hf s n v c)
   | Remove_Op s n \<Rightarrow> (case config_remove_value hf s n c of (b, c) \<Rightarrow> (Bool_Out b, c))
   | Get_Op s n \<Rightarrow> (Text_Out (config_get_string hf c s n), c)
   | Get_Default_Op s n \<Rightarrow> (Text_Out (config_get_default_string hf c s n), c)
   | Has_User_Op s n \<Rightarrow> (Bool_Out (config_has_user_value hf c s n), c)
   | Has_Default_Op s n \<Rightarrow> (Bool_Out (config_has_default_value hf c s n), c))"

text \<open>What the interface promises: two maps, where a value that is not there is the default. A default is also stored as
  a value where there is none.\<close>

type_synonym value_map = "string \<times> string \<rightharpoonup> string"

definition map_step :: "value_map \<times> value_map \<Rightarrow> config_op \<Rightarrow> (config_out \<times> value_map \<times> value_map) option" where
  "map_step a x = (case a of (u, d) \<Rightarrow> Some (case x of
     Set_Op s n v \<Rightarrow> (Done_Out, u((s, n) \<mapsto> value_text v), d)
   | Set_Default_Op s n v \<Rightarrow>
       (Done_Out, if u (s, n) = None then u((s, n) \<mapsto> value_text v) else u, d((s, n) \<mapsto> value_text v))
   | Remove_Op s n \<Rightarrow> (Bool_Out (u (s, n) \<noteq> None), u((s, n) := None), d)
   | Get_Op s n \<Rightarrow> (Text_Out (case u (s, n) of Some v \<Rightarrow> Some v | None \<Rightarrow> d (s, n)), u, d)
   | Get_Default_Op s n \<Rightarrow> (Text_Out (d (s, n)), u, d)
   | Has_User_Op s n \<Rightarrow> (Bool_Out (u (s, n) \<noteq> None), u, d)
   | Has_Default_Op s n \<Rightarrow> (Bool_Out (d (s, n) \<noteq> None), u, d)))"

definition config_repr :: "hash_find \<Rightarrow> config_data \<Rightarrow> value_map \<times> value_map \<Rightarrow> bool" where
  "config_repr hf c a \<longleftrightarrow> hash_finds hf \<and> keys_ok (cd_sections c) \<and> keys_ok (cd_defaults c) \<and>
     a = (values_of (cd_sections c), values_of (cd_defaults c))"

lemma remove_values:
  assumes "hash_finds hf" "keys_ok (cd_sections c)" "config_remove_value hf s n c = (b, c')"
  shows "b \<longleftrightarrow> values_of (cd_sections c) (s, n) \<noteq> None" "values_of (cd_sections c') = (values_of (cd_sections c))((s, n) := None)"
    "keys_ok (cd_sections c')" "cd_defaults c' = cd_defaults c"
proof -
  let ?secs = "cd_sections c"
  have d: "distinct (map fst ?secs)" using assms(2) by (simp add: keys_ok_def)
  note f = hash_find_map_of [OF assms(1) d, of s]
  have "(b \<longleftrightarrow> values_of ?secs (s, n) \<noteq> None) \<and> values_of (cd_sections c') = (values_of ?secs)((s, n) := None) \<and>
      keys_ok (cd_sections c') \<and> cd_defaults c' = cd_defaults c"
  proof (cases "hf (map fst ?secs) s")
    case None
    then have "map_of ?secs s = None" using f(3) by simp
    then have "values_of ?secs (s, n) = None" by (simp add: values_of_def)
    then show ?thesis using None assms(2,3) by (auto simp: config_remove_value_def)
  next
    case (Some i)
    obtain items where i: "i < length ?secs" "?secs ! i = (s, items)" "map_of ?secs s = Some items"
      using f(2) [OF Some] f(1) Some by (cases "?secs ! i") auto
    then have "(s, items) \<in> set ?secs" by (metis nth_mem)
    then have di: "distinct (map fst items)" using assms(2) by (auto simp: keys_ok_def)
    note g = hash_find_map_of [OF assms(1) di, of n]
    show ?thesis
    proof (cases "hf (map fst items) n")
      case None
      then have "values_of ?secs (s, n) = None" using g(3) i(3) by (simp add: values_of_def)
      then show ?thesis using None Some i assms(2,3) by (auto simp: config_remove_value_def)
    next
      case (Some j)
      let ?items = "take j items @ drop (j + 1) items"
      have c': "b" "c' = c\<lparr>cd_sections := ?secs[i := (s, ?items)]\<rparr>"
        using assms(3) Some \<open>hf (map fst ?secs) s = Some i\<close> i(2) by (auto simp: config_remove_value_def)
      have j: "j < length items" "fst (items ! j) = n" using g(2) [OF Some] by simp_all
      note r = map_of_remove [OF di j]
      note m = map_of_set [OF d i(1), of s ?items]
      have "values_of (?secs[i := (s, ?items)]) = (values_of ?secs)((s, n) := None)"
        using m(1) i(2,3) r(1) by (auto simp: values_of_def fun_eq_iff)
      moreover have "keys_ok (?secs[i := (s, ?items)])"
        using assms(2) r(2) m(2) i(2) by (auto simp: keys_ok_def dest: set_update_subset_insert [THEN subsetD])
      moreover have "values_of ?secs (s, n) \<noteq> None" using g(3) Some i(3) by (auto simp: values_of_def)
      ultimately show ?thesis using c' by simp
    qed
  qed
  then show "b \<longleftrightarrow> values_of ?secs (s, n) \<noteq> None" "values_of (cd_sections c') = (values_of ?secs)((s, n) := None)"
    "keys_ok (cd_sections c')" "cd_defaults c' = cd_defaults c" by simp_all
qed

lemma config_step_refines:
  assumes "config_repr hf c a"
  shows "case map_step a x of None \<Rightarrow> config_step hf c x = None
    | Some (d, a') \<Rightarrow> \<exists>c'. config_step hf c x = Some (id d, c') \<and> config_repr hf c' a'"
proof -
  have r: "hash_finds hf" "keys_ok (cd_sections c)" "keys_ok (cd_defaults c)"
    "a = (values_of (cd_sections c), values_of (cd_defaults c))"
    using assms by (simp_all add: config_repr_def)
  note f = find_values [OF r(1,2)] find_values [OF r(1,3)]
  show ?thesis
  proof (cases x)
    case (Remove_Op s n)
    obtain b c' where rm: "config_remove_value hf s n c = (b, c')" by fastforce
    from remove_values [OF r(1,2) this] r rm show ?thesis
      by (simp add: Remove_Op map_step_def config_step_def config_repr_def)
  qed (simp_all add: r map_step_def config_step_def config_repr_def f set_values config_set_def config_set_default_def
      config_set_item_default_def config_has_user_value_def config_has_default_value_def config_get_string_def
      config_get_default_string_def Let_def split: option.split)
qed

interpretation cfg: step_refinement "config_repr hf" "config_step hf" map_step id for hf
  by unfold_locales (rule config_step_refines)


section \<open>Values survive saving\<close>

context step_refinement
begin

lemma run_repr:
  "repr c a \<Longrightarrow> op_run cstep c ops = Some (outs, c') \<Longrightarrow> \<exists>outs' a'. op_run astep a ops = Some (outs', a') \<and> repr c' a'"
proof (induction ops arbitrary: c a outs)
  case (Cons x ops)
  then obtain d c1 outs1 where c1: "cstep c x = Some (d, c1)" "op_run cstep c1 ops = Some (outs1, c')"
    by (auto simp: bind_eq_Some_conv)
  obtain e a1 where a1: "astep a x = Some (e, a1)" using step [OF Cons.prems(1), of x] c1(1) by (cases "astep a x") auto
  then have "repr c1 a1" using step [OF Cons.prems(1), of x] c1(1) by auto
  from Cons.IH [OF this c1(2)] show ?case using a1 by auto
qed auto

end

definition op_ok :: "config_op \<Rightarrow> bool" where
  "op_ok x \<longleftrightarrow> (case x of
     Set_Op s n v \<Rightarrow> s \<noteq> [] \<and> plain s \<and> CHR '']'' \<notin> set s \<and> name_ok n \<and> value_ok (value_text v)
   | Set_Default_Op s n v \<Rightarrow> s \<noteq> [] \<and> plain s \<and> CHR '']'' \<notin> set s \<and> name_ok n \<and> value_ok (value_text v)
   | _ \<Rightarrow> True)"

lemma set_in_items_ok: "hash_finds hf \<Longrightarrow> items_ok items \<Longrightarrow> name_ok n \<Longrightarrow> value_ok v \<Longrightarrow> items_ok (set_in_items hf n v items)"
proof -
  assume a: "hash_finds hf" "items_ok items" "name_ok n" "value_ok v"
  have "fst (items ! j) = n" if "hf (map fst items) n = Some j" for j
    using a(1) that unfolding hash_finds_def by (metis (mono_tags, lifting) length_map nth_map option.case(2))
  then show ?thesis
    using a(2-4) set_update_subset_insert [of items _ "(n, v)"]
    by (fastforce simp: set_in_items_def items_ok_def split: option.split)
qed

lemma set_item_ok:
  assumes "hash_finds hf" "\<forall>sec \<in> set secs. section_ok sec" "s \<noteq> []" "plain s" "CHR '']'' \<notin> set s" "name_ok n" "value_ok v"
  shows "\<forall>sec \<in> set (config_set_item hf s n v secs). section_ok sec"
proof (cases "hf (map fst secs) s")
  case None
  then show ?thesis using assms set_in_items_ok [OF assms(1) _ assms(6,7), of "[]"]
    by (simp add: config_set_item_def section_ok_def items_ok_def)
next
  case (Some i)
  then have i: "i < length secs" "fst (secs ! i) = s"
    using assms(1) unfolding hash_finds_def by (metis (mono_tags, lifting) length_map nth_map option.case(2))+
  then have "items_ok (snd (secs ! i))" using assms(2) by (auto simp: section_ok_def)
  from set_in_items_ok [OF assms(1) this assms(6,7)] show ?thesis
    using Some assms(2-5) i set_update_subset_insert [of secs i]
    by (fastforce simp: config_set_item_def section_ok_def)
qed

lemma remove_ok:
  assumes "hash_finds hf" "\<forall>sec \<in> set (cd_sections c). section_ok sec" "config_remove_value hf s n c = (b, c')"
  shows "\<forall>sec \<in> set (cd_sections c'). section_ok sec"
proof -
  have "\<exists>i items. cd_sections c' = cd_sections c \<or>
      i < length (cd_sections c) \<and> set items \<subseteq> set (snd (cd_sections c ! i)) \<and>
      cd_sections c' = (cd_sections c)[i := (fst (cd_sections c ! i), items)]"
  proof (cases "hf (map fst (cd_sections c)) s")
    case (Some i)
    then have i: "i < length (cd_sections c)"
      using assms(1) unfolding hash_finds_def by (metis (mono_tags, lifting) length_map option.case(2))
    show ?thesis
    proof (cases "hf (map fst (snd (cd_sections c ! i))) n")
      case None
      then show ?thesis using assms(3) Some by (auto simp: config_remove_value_def split: prod.splits)
    next
      case (Some j)
      let ?items = "snd (cd_sections c ! i)"
      have "set (take j ?items @ drop (j + 1) ?items) \<subseteq> set ?items" by (auto dest: in_set_takeD in_set_dropD)
      moreover have "cd_sections c' = (cd_sections c)[i := (fst (cd_sections c ! i), take j ?items @ drop (j + 1) ?items)]"
        using assms(3) Some \<open>hf (map fst (cd_sections c)) s = Some i\<close> by (auto simp: config_remove_value_def split: prod.splits)
      ultimately show ?thesis using i by blast
    qed
  qed (use assms(3) in \<open>auto simp: config_remove_value_def\<close>)
  then obtain i items where r: "cd_sections c' = cd_sections c \<or>
      i < length (cd_sections c) \<and> set items \<subseteq> set (snd (cd_sections c ! i)) \<and>
      cd_sections c' = (cd_sections c)[i := (fst (cd_sections c ! i), items)]" by blast
  have "section_ok (fst (cd_sections c ! i), items)"
    if "i < length (cd_sections c)" "set items \<subseteq> set (snd (cd_sections c ! i))"
  proof -
    have "section_ok (cd_sections c ! i)" using that(1) assms(2) by simp
    then have "fst (cd_sections c ! i) \<noteq> []" "plain (fst (cd_sections c ! i))" "CHR '']'' \<notin> set (fst (cd_sections c ! i))"
      "\<forall>(n, v) \<in> set (snd (cd_sections c ! i)). name_ok n \<and> value_ok v"
      by (simp_all add: section_ok_def items_ok_def)
    then show ?thesis using that(2) by (auto simp: section_ok_def items_ok_def)
  qed
  then show ?thesis using r assms(2) set_update_subset_insert [of "cd_sections c" i] by fastforce
qed

lemma step_ok:
  assumes "hash_finds hf" "\<forall>sec \<in> set (cd_sections c). section_ok sec" "op_ok x" "config_step hf c x = Some (d, c')"
  shows "\<forall>sec \<in> set (cd_sections c'). section_ok sec"
proof (cases x)
  case (Remove_Op s n)
  then obtain b where "config_remove_value hf s n c = (b, c')" using assms(4) by (auto simp: config_step_def split: prod.splits)
  then show ?thesis by (rule remove_ok [OF assms(1,2)])
qed (use assms set_item_ok [OF assms(1,2)] in \<open>auto simp: config_step_def op_ok_def config_set_def config_set_default_def
      config_set_item_default_def Let_def split: if_splits\<close>)

lemma run_ok:
  "hash_finds hf \<Longrightarrow> \<forall>sec \<in> set (cd_sections c). section_ok sec \<Longrightarrow> \<forall>x \<in> set ops. op_ok x \<Longrightarrow>
    op_run (config_step hf) c ops = Some (outs, c') \<Longrightarrow> \<forall>sec \<in> set (cd_sections c'). section_ok sec"
proof (induction ops arbitrary: c outs)
  case (Cons x ops)
  then obtain d c1 outs1 where c1: "config_step hf c x = Some (d, c1)" "op_run (config_step hf) c1 ops = Some (outs1, c')"
    by (auto simp: bind_eq_Some_conv)
  have "op_ok x" "\<forall>x \<in> set ops. op_ok x" using Cons.prems(3) by simp_all
  then show ?case using Cons.IH [OF Cons.prems(1) step_ok [OF Cons.prems(1,2) _ c1(1)] _ c1(2)] by blast
qed simp

lemma run_file: "op_run (config_step hf) c ops = Some (outs, c') \<Longrightarrow> cd_file c' = cd_file c"
proof (induction ops arbitrary: c outs)
  case (Cons x ops)
  then obtain d c1 outs1 where c1: "config_step hf c x = Some (d, c1)" "op_run (config_step hf) c1 ops = Some (outs1, c')"
    by (auto simp: bind_eq_Some_conv)
  have "cd_file c1 = cd_file c"
    using c1(1) by (cases x) (auto simp: config_step_def config_set_def config_set_default_def config_set_item_default_def
      config_remove_value_def Let_def split: prod.splits option.splits)
  then show ?case using Cons.IH [OF c1(2)] by simp
qed simp

text \<open>C7: after any program on a new configuration whose names the format can hold, saving and opening again gives a
  configuration that reads every value as the map of the values set, until then, has it.\<close>

theorem values_survive_saving:
  assumes "hash_finds hf" "\<forall>x \<in> set ops. op_ok x"
    "op_run (config_step hf) \<lparr>cd_file = Some file, cd_sections = [], cd_defaults = []\<rparr> ops = Some (outs, config)"
    "op_run map_step (Map.empty, Map.empty) ops = Some (outs', user, defaults)"
    "cd_sections config \<noteq> []" "writable file" "length (sections_text False (cd_sections config)) \<le> room"
    "config_save writable room config fs = (ret, fs')" "config_open writable file always_open fs' = (ret', opened, fs'')"
  shows "ret = CONFIG_SUCCESS \<and> ret' = CONFIG_SUCCESS \<and>
    (\<exists>config'. opened = Some config' \<and> (\<forall>s n. config_get_string hf config' s n = user (s, n)))"
proof -
  let ?new = "\<lparr>cd_file = Some file, cd_sections = [], cd_defaults = []\<rparr>"
  have empty: "values_of [] = Map.empty" by (auto simp: values_of_def)
  then have "config_repr hf ?new (Map.empty, Map.empty)" using assms(1) by (simp add: config_repr_def keys_ok_def)
  from cfg.run_repr [OF this assms(3)] assms(4) have repr: "config_repr hf config (user, defaults)" by simp
  have ok: "\<forall>sec \<in> set (cd_sections config). section_ok sec" using run_ok [OF assms(1) _ assms(2,3)] by simp
  have path: "cd_file config = Some file" using run_file [OF assms(3)] by simp
  from saved_sections_parse [OF path ok assms(5), of writable room fs writable always_open, OF assms(6,7)] assms(8,9)
  have saved: "ret = CONFIG_SUCCESS" "ret' = CONFIG_SUCCESS"
    "opened = Some \<lparr>cd_file = Some file, cd_sections = cd_sections config, cd_defaults = []\<rparr>" by fastforce+
  have "config_get_string hf \<lparr>cd_file = Some file, cd_sections = cd_sections config, cd_defaults = []\<rparr> s n = user (s, n)" for s n
    using repr find_values [of hf "cd_sections config" s n] find_values [of hf "[]" s n] empty
    by (auto simp: config_repr_def config_get_string_def keys_ok_def split: option.split)
  then show ?thesis using saved by blast
qed

section \<open>Numbers\<close>

lemma print_nat_start: "\<exists>d s. print_nat n = char_of (48 + d) # s \<and> d < (10 :: nat)"
proof -
  obtain c s where c: "print_nat n = c # s" by (cases "print_nat n") (auto simp: print_nat.simps [of n] split: if_splits)
  then show ?thesis using print_nat_digits [of c n] by auto
qed

lemma digit_char_is:
  assumes "d < (10 :: nat)"
  shows "\<not> is_space (char_of (48 + d))" "char_of (48 + d) \<noteq> CHR ''-''" "char_of (48 + d) \<noteq> CHR ''+''" "char_of (48 + d) \<noteq> CHR ''x''"
proof -
  have n: "of_char (char_of (48 + d) :: char) = 48 + d" using assms by (simp add: of_char_of)
  then have other: "c \<noteq> char_of (48 + d)" if "of_char c \<noteq> 48 + d" for c using that by auto
  from other [of "CHR '' ''"] have "char_of (48 + d) \<noteq> CHR '' ''" by auto
  then show "\<not> is_space (char_of (48 + d))" using n by (simp add: is_space_def)
  from other [of "CHR ''-''"] other [of "CHR ''+''"] other [of "CHR ''x''"] assms
  show "char_of (48 + d) \<noteq> CHR ''-''" "char_of (48 + d) \<noteq> CHR ''+''" "char_of (48 + d) \<noteq> CHR ''x''" by auto
qed

lemma print_nat_chars: "c \<in> set (print_nat n) \<Longrightarrow> c \<noteq> CHR ''x''"
  using print_nat_digits [of c n] digit_char_is(4) by auto

lemma parts_of_print:
  "strto_parts 10 (print_nat n) = (False, n)" "strto_parts 10 (CHR ''-'' # print_nat n) = (True, n)"
proof -
  obtain d :: nat and s where p: "print_nat n = char_of (48 + d) # s" "d < 10" using print_nat_start by blast
  have v: "digits_value 10 0 (print_nat n) = n" by (rule print_nat_value)
  show "strto_parts 10 (print_nat n) = (False, n)"
    using v digit_char_is [OF p(2)] by (simp add: strto_parts_def skip_prefix_def p(1) Let_def)
  show "strto_parts 10 (CHR ''-'' # print_nat n) = (True, n)"
    using v by (simp add: strto_parts_def skip_prefix_def is_space_def Let_def)
qed

lemma not_hex: "\<not> (char_at (print_int i) 1 = CHR ''x'')"
proof -
  have "c \<in> set (print_int i) \<Longrightarrow> c \<noteq> CHR ''x''" for c using print_nat_chars by (auto simp: print_int_def split: if_splits)
  then show ?thesis by (auto simp: char_at_def NUL_def dest: nth_mem)
qed

lemma print_int_some: "print_int i \<noteq> []"
  using print_nat_start [of "nat i"] by (auto simp: print_int_def)

lemma print_int_parts: "strto_parts 10 (print_int i) = (i < 0, nat (abs i))"
  using parts_of_print by (simp add: print_int_def)

lemma int_reads_back: "- (2 ^ 63) \<le> i \<Longrightarrow> i < 2 ^ 63 \<Longrightarrow> str_to_int64 (print_int i) = i"
  using not_hex [of i] print_int_some [of i] by (auto simp: str_to_int64_def strtoll_def print_int_parts)

lemma uint_reads_back: "0 \<le> u \<Longrightarrow> u < 2 ^ 64 \<Longrightarrow> str_to_uint64 (print_int u) = u"
  using not_hex [of u] print_int_some [of u] by (auto simp: str_to_uint64_def strtoull_def print_int_parts nat_le_iff)

text \<open>A number of 64 bits, signed or not, or a truth value that is set is read as the same.\<close>

theorem numbers_read_back:
  assumes "hash_finds hf" "keys_ok (cd_sections c)"
  shows "(- (2 ^ 63) \<le> i \<and> i < 2 ^ 63 \<longrightarrow> config_get_int hf (config_set hf s n (Int_Value i) c) s n = i) \<and>
    (0 \<le> u \<and> u < 2 ^ 64 \<longrightarrow> config_get_uint hf (config_set hf s n (Uint_Value u) c) s n = u) \<and>
    config_get_bool hf (config_set hf s n (Bool_Value b) c) s n = b"
proof -
  have got: "config_get_string hf (config_set hf s n v c) s n = Some (value_text v)" for v
    using set_values [OF assms] find_values [OF assms(1)] by (simp add: config_get_string_def config_set_def)
  have "astrcmpi ''true'' ''true'' = 0" "astrcmpi ''false'' ''true'' \<noteq> 0" by code_simp+
  moreover have "str_to_uint64 ''false'' = 0"
    by (simp add: str_to_uint64_def strtoull_def strto_parts_def skip_prefix_def is_space_def digit_of_def Let_def)
  ultimately have "str_to_bool ''true''" "\<not> str_to_bool ''false''" by (simp_all add: str_to_bool_def)
  then show ?thesis
    by (auto simp: config_get_int_def config_get_uint_def config_get_bool_def got value_text_def int_reads_back uint_reads_back)
qed

section \<open>What the header does not say\<close>

text \<open>A default is stored as a value, and a second default changes nothing of what is read.\<close>

lemma default_is_stored:
  assumes "hash_finds hf" "keys_ok (cd_sections c)" "keys_ok (cd_defaults c)" "\<not> config_has_user_value hf c s n"
  shows "config_has_user_value hf (config_set_default hf s n v c) s n"
    "config_get_string hf (config_set_default hf s n w (config_set_default hf s n v c)) s n = Some (value_text v)"
  using assms set_values [OF assms(1,2)] set_values [OF assms(1,3)]
  by (simp_all add: config_set_default_def config_set_item_default_def config_has_user_value_def config_get_string_def
    find_values Let_def)

text \<open>Saving a configuration without sections empties the file and fails.\<close>

lemma empty_save_fails:
  "cd_sections config = [] \<Longrightarrow> cd_file config = Some path \<Longrightarrow> writable path \<Longrightarrow>
    config_save writable room config fs = (CONFIG_ERROR, fs(path \<mapsto> []))"
  by (simp add: config_save_def)

text \<open>The last line of a file is an item without an equals sign, other lines are not.\<close>

lemma unfinished_line:
  "parse_config_data [] (lexer_start (''[a]'' @ [LF] @ ''foo'')) = [(''a'', [(''foo'', [])])] \<and>
   parse_config_data [] (lexer_start (''[a]'' @ [LF] @ ''foo'' @ [LF])) = [(''a'', [])]"
  by code_simp

text \<open>A section without a name hides the rest of the file.\<close>

lemma unnamed_section_hides:
  "parse_config_data [] (lexer_start (sections_text False [([], []), (''b'', [(''x'', ''1'')])])) = []"
  by code_simp

section \<open>A small configuration\<close>

definition first_find :: hash_find where
  "first_find keys k = first_idx (\<lambda>x. x = k) keys"

lemma first_finds: "hash_finds first_find"
  by (auto simp: hash_finds_def first_find_def first_idx_None first_idx_Some split: option.split)

definition small_ops :: "config_op list" where
  "small_ops = [Set_Op ''General'' ''Name'' (String_Value (Some [CHR ''a'', LF, CHR 0x5C])), Set_Default_Op ''Video'' ''FPS'' (Uint_Value 60),
     Set_Op ''Video'' ''FPS'' (Uint_Value 30), Get_Op ''Video'' ''FPS'']"

definition small_config :: config_data where
  "small_config = snd (the (op_run (config_step first_find) \<lparr>cd_file = Some ''f'', cd_sections = [], cd_defaults = []\<rparr> small_ops))"


theorem numbers_read_back_witness:
  "config_get_int first_find (config_set first_find ''a'' ''b'' (Int_Value (-5)) small_config) ''a'' ''b'' = -5 \<and>
   config_get_uint first_find (config_set first_find ''a'' ''b'' (Uint_Value 7) small_config) ''a'' ''b'' = 7 \<and>
   config_get_bool first_find (config_set first_find ''a'' ''b'' (Bool_Value True) small_config) ''a'' ''b'' = True"
proof -
  have "keys_ok (cd_sections small_config)" by code_simp
  from numbers_read_back [OF first_finds this, of "-5" "''a''" "''b''" 7 True] show ?thesis by simp
qed


theorem values_survive_saving_witness:
  "(let (ret, fs') = config_save (\<lambda>_. True) 100 small_config Map.empty;
        (ret', opened, fs'') = config_open (\<lambda>_. True) ''f'' False fs'
    in ret = CONFIG_SUCCESS \<and> ret' = CONFIG_SUCCESS \<and>
      (\<exists>config'. opened = Some config' \<and> (\<forall>s n. config_get_string first_find config' s n =
        [(''General'', ''Name'') \<mapsto> [CHR ''a'', LF, CHR 0x5C], (''Video'', ''FPS'') \<mapsto> ''30''] (s, n))))"
proof -
  let ?new = "\<lparr>cd_file = Some ''f'', cd_sections = [], cd_defaults = []\<rparr>"
  obtain outs where run: "op_run (config_step first_find) ?new small_ops = Some (outs, small_config)"
    unfolding small_config_def by (simp add: small_ops_def config_step_def)
  have map: "op_run map_step (Map.empty, Map.empty) small_ops = Some ([Done_Out, Done_Out, Done_Out, Text_Out (Some (print_int 30))],
      [(''General'', ''Name'') \<mapsto> [CHR ''a'', LF, CHR 0x5C], (''Video'', ''FPS'') \<mapsto> print_int 30], [(''Video'', ''FPS'') \<mapsto> print_int 60])"
    by (simp add: small_ops_def map_step_def value_text_def)
  have ok: "\<forall>x \<in> set small_ops. op_ok x" by code_simp
  have small: "cd_sections small_config \<noteq> []" "length (sections_text False (cd_sections small_config)) \<le> 100" by code_simp+
  have p: "print_int 30 = ''30''" by code_simp
  obtain ret fs' where s: "config_save (\<lambda>_. True) 100 small_config Map.empty = (ret, fs')" by fastforce
  obtain ret' opened fs'' where o1: "config_open (\<lambda>_. True) ''f'' False fs' = (ret', opened, fs'')" by (cases "config_open (\<lambda>_. True) ''f'' False fs'")
  from values_survive_saving [OF first_finds ok run map small(1) _ small(2) s o1] p show ?thesis by (simp add: s o1)
qed

end
