(* ===== verification/Encoder_Group.thy ===== *)
theory Encoder_Group
  imports Prelude
begin

text \<open>
  Groups of video encoders, \<open>libobs/obs-encoder.c\<close>: the encoders of a group, which may run at different fractions of the
  frame rate, apply new settings on the same frame, so that their keyframes stay together. Here are the shared state of
  a group, an update of the settings, what each encoder does before each of its frames, connecting and disconnecting,
  and a step relation in which encoders take frames and settings are updated in any order.
\<close>

section \<open>State\<close>

record encoder_group =
  eg_encoders :: nat
  eg_num_encoders_started :: nat
  eg_start_timestamp :: int
  eg_frame_rate_divisors_lcm :: nat
  eg_reconfigure_request :: nat
  eg_next_pts :: int
  eg_encoders_updated_next_pts :: nat
  eg_encoders_reconfigured :: nat
  eg_reconfigure_again :: bool

record group_encoder =
  ge_timebase_num :: nat
  ge_frame_rate_divisor :: nat
  ge_cur_pts :: int
  ge_last_reconfigure_request :: nat
  ge_last_handled_reconfigure_request :: nat
  ge_reconfigure_requested :: bool

section \<open>Connecting\<close>

text \<open>\<open>gcd\<close> and \<open>lcm\<close> of the file; \<^term>\<open>None\<close> is a division by zero or a product that is no \<open>int\<close>.\<close>

function encoder_gcd :: "nat \<Rightarrow> nat \<Rightarrow> nat option" where
  "encoder_gcd a b =
     (if min a b = 0 then None
      else
        let remainder = max a b mod min a b
        in if remainder = 0 then Some (min a b) else encoder_gcd (min a b) remainder)"
  by pat_completeness auto

termination encoder_gcd
proof (relation "measure (\<lambda>(a, b). min a b)")
  show "((min a b, x), a, b) \<in> measure (\<lambda>(a, b). min a b)" if "min a b \<noteq> 0" "x = max a b mod min a b" for a b x :: nat
    using that(1) mod_less_divisor [of "min a b" "max a b"] by (simp add: that(2))
qed simp

declare encoder_gcd.simps [simp del]

definition encoder_lcm :: "nat \<Rightarrow> nat \<Rightarrow> nat option" where
  "encoder_lcm a b = do {
     g \<leftarrow> encoder_gcd a b;
     if int ((a div g) * b) < 2 ^ 31 then Some ((a div g) * b) else None
   }"

text \<open>The group's part of \<open>add_connection\<close>: also whether the group is ready.\<close>

definition group_add_connection :: "group_encoder \<Rightarrow> encoder_group \<Rightarrow> (bool \<times> encoder_group) option" where
  "group_add_connection encoder grp = do {
     l \<leftarrow> encoder_lcm (if eg_frame_rate_divisors_lcm grp = 0 then 1 else eg_frame_rate_divisors_lcm grp)
       (ge_frame_rate_divisor encoder);
     let grp = grp\<lparr>eg_frame_rate_divisors_lcm := l, eg_num_encoders_started := eg_num_encoders_started grp + 1\<rparr>;
     Some (eg_num_encoders_started grp \<ge> eg_encoders grp, grp)
   }"

text \<open>The group's part of \<open>remove_connection\<close>.\<close>

definition group_remove_connection :: "encoder_group \<Rightarrow> encoder_group" where
  "group_remove_connection grp =
     (let grp = grp\<lparr>eg_num_encoders_started := eg_num_encoders_started grp - 1\<rparr>
      in if eg_num_encoders_started grp = 0
         then grp\<lparr>eg_start_timestamp := 0, eg_frame_rate_divisors_lcm := 1, eg_reconfigure_request := 0, eg_next_pts := 0,
           eg_encoders_reconfigured := 0, eg_encoders_updated_next_pts := 0, eg_reconfigure_again := False\<rparr>
         else grp)"

section \<open>New settings\<close>

text \<open>The product of two \<open>uint32_t\<close>.\<close>

definition u32_mult :: "nat \<Rightarrow> nat \<Rightarrow> int" where
  "u32_mult a b = (int a * int b) mod 2 ^ 32"

definition encoder_group_new_reconfigure_request :: "encoder_group \<Rightarrow> encoder_group" where
  "encoder_group_new_reconfigure_request grp =
     grp\<lparr>eg_reconfigure_request := eg_reconfigure_request grp + 1, eg_encoders_updated_next_pts := 0,
       eg_encoders_reconfigured := 0, eg_reconfigure_again := False\<rparr>"

text \<open>\<open>obs_encoder_update\<close> of an active encoder with a group, after the settings have been stored.\<close>

definition group_encoder_update :: "group_encoder \<Rightarrow> encoder_group \<Rightarrow> encoder_group" where
  "group_encoder_update encoder grp =
     (let first_reconfigure_request = (eg_reconfigure_request grp = 0);
          all_encoders_reconfigured = (eg_encoders_reconfigured grp = eg_encoders grp);
          current_encoder_reconfigured = (ge_last_handled_reconfigure_request encoder = eg_reconfigure_request grp)
      in if first_reconfigure_request \<or> all_encoders_reconfigured then encoder_group_new_reconfigure_request grp
         else if current_encoder_reconfigured then grp\<lparr>eg_reconfigure_again := True\<rparr>
         else grp)"

definition handle_encoder_group_reconfigure_request ::
    "group_encoder \<Rightarrow> encoder_group \<Rightarrow> group_encoder \<times> encoder_group" where
  "handle_encoder_group_reconfigure_request encoder grp =
     (let new_reconfigure_request = (ge_last_reconfigure_request encoder \<noteq> eg_reconfigure_request grp)
      in if \<not> new_reconfigure_request \<and> eg_encoders_updated_next_pts grp = eg_num_encoders_started grp \<and>
           ge_cur_pts encoder = eg_next_pts grp \<and>
           ge_last_handled_reconfigure_request encoder \<noteq> ge_last_reconfigure_request encoder then
           let grp = grp\<lparr>eg_encoders_reconfigured := eg_encoders_reconfigured grp + 1\<rparr>
           in (encoder\<lparr>ge_last_handled_reconfigure_request := ge_last_reconfigure_request encoder, ge_reconfigure_requested := True\<rparr>,
               if eg_encoders_reconfigured grp = eg_encoders grp \<and> eg_reconfigure_again grp
               then encoder_group_new_reconfigure_request grp else grp)
         else if new_reconfigure_request \<or> ge_cur_pts encoder = eg_next_pts grp then
           let overall_timestep = u32_mult (ge_timebase_num encoder) (eg_frame_rate_divisors_lcm grp);
               next_pts = ge_cur_pts encoder + u32_mult (ge_timebase_num encoder) (ge_frame_rate_divisor encoder);
               next_pts = (if next_pts mod overall_timestep \<noteq> 0 then (next_pts div overall_timestep + 1) * overall_timestep else next_pts)
           in (encoder\<lparr>ge_last_reconfigure_request := eg_reconfigure_request grp\<rparr>,
               grp\<lparr>eg_next_pts := (if next_pts > eg_next_pts grp then next_pts else eg_next_pts grp),
                 eg_encoders_updated_next_pts := eg_encoders_updated_next_pts grp + of_bool new_reconfigure_request\<rparr>)
         else (encoder, grp))"

text \<open>What \<open>receive_video\<close> and \<open>do_encode\<close> do with a frame that is encoded: the encoder, the group, and the request of
  which the settings are applied now.\<close>

definition group_frame :: "group_encoder \<Rightarrow> encoder_group \<Rightarrow> nat option \<times> group_encoder \<times> encoder_group" where
  "group_frame encoder grp =
     (case handle_encoder_group_reconfigure_request encoder grp of
        (encoder, grp) \<Rightarrow>
          (if ge_reconfigure_requested encoder then Some (ge_last_reconfigure_request encoder) else None,
           encoder\<lparr>ge_reconfigure_requested := False,
             ge_cur_pts := ge_cur_pts encoder + u32_mult (ge_timebase_num encoder) (ge_frame_rate_divisor encoder)\<rparr>,
           grp))"

section \<open>Threads\<close>

text \<open>The encoders of a group, the group, and a log: request, encoder and timestamp of each application of settings.\<close>

record group_sys =
  gs_encoders :: "group_encoder list"
  gs_group :: encoder_group
  gs_log :: "(nat \<times> nat \<times> int) list"

inductive group_step :: "group_sys \<Rightarrow> group_sys \<Rightarrow> bool" where
  Group_Frame: "i < length (gs_encoders s) \<Longrightarrow> group_frame (gs_encoders s ! i) (gs_group s) = (applied, encoder, grp) \<Longrightarrow>
    group_step s (s\<lparr>gs_encoders := (gs_encoders s)[i := encoder], gs_group := grp,
      gs_log := gs_log s @ (case applied of None \<Rightarrow> [] | Some r \<Rightarrow> [(r, i, ge_cur_pts (gs_encoders s ! i))])\<rparr>)"
| Group_Update: "i < length (gs_encoders s) \<Longrightarrow>
    group_step s (s\<lparr>gs_group := group_encoder_update (gs_encoders s ! i) (gs_group s)\<rparr>)"

text \<open>All encoders of a group connected, one after the other.\<close>

fun connect_all :: "group_encoder list \<Rightarrow> encoder_group \<Rightarrow> encoder_group option" where
  "connect_all [] grp = Some grp"
| "connect_all (encoder # encoders) grp = do {
     (ready, grp) \<leftarrow> group_add_connection encoder grp;
     connect_all encoders grp
   }"

definition new_group :: "nat \<Rightarrow> encoder_group" where
  "new_group n = \<lparr>eg_encoders = n, eg_num_encoders_started = 0, eg_start_timestamp = 0, eg_frame_rate_divisors_lcm = 0,
     eg_reconfigure_request = 0, eg_next_pts = 0, eg_encoders_updated_next_pts = 0, eg_encoders_reconfigured = 0,
     eg_reconfigure_again = False\<rparr>"

definition new_encoder :: "nat \<Rightarrow> nat \<Rightarrow> group_encoder" where
  "new_encoder timebase_num divisor = \<lparr>ge_timebase_num = timebase_num, ge_frame_rate_divisor = divisor, ge_cur_pts = 0,
     ge_last_reconfigure_request = 0, ge_last_handled_reconfigure_request = 0, ge_reconfigure_requested = False\<rparr>"

definition group_start :: "nat \<Rightarrow> nat list \<Rightarrow> group_sys option" where
  "group_start timebase_num divisors =
     (let encoders = map (new_encoder timebase_num) divisors
      in map_option (\<lambda>grp. \<lparr>gs_encoders = encoders, gs_group = grp, gs_log = []\<rparr>)
        (connect_all encoders (new_group (length divisors))))"

text \<open>
  After a session: each encoder has been disconnected and is started again, in \<open>obs_encoder_start_internal\<close>; what it
  remembers of requests stays.
\<close>

definition restarted :: "group_encoder \<Rightarrow> group_encoder" where
  "restarted encoder = encoder\<lparr>ge_cur_pts := 0\<rparr>"

definition next_session :: "group_sys \<Rightarrow> group_sys option" where
  "next_session s =
     (let encoders = map restarted (gs_encoders s)
      in map_option (\<lambda>grp. \<lparr>gs_encoders = encoders, gs_group = grp, gs_log = []\<rparr>)
        (connect_all encoders ((group_remove_connection ^^ length encoders) (gs_group s))))"

section \<open>The least common multiple\<close>

lemma encoder_gcd: "0 < a \<Longrightarrow> 0 < b \<Longrightarrow> encoder_gcd a b = Some (gcd a b)"
proof (induction a b rule: encoder_gcd.induct)
  case (1 a b)
  let ?m = "min a b" and ?x = "max a b"
  have "gcd ?m (?x mod ?m) = gcd ?x ?m" using gcd_red_nat [of ?x ?m] by simp
  moreover have "gcd ?x ?m = gcd a b" by (cases "a \<le> b") (simp_all add: min_def max_def gcd.commute)
  ultimately have g: "gcd a b = gcd ?m (?x mod ?m)" by simp
  show ?case
  proof (cases "?x mod ?m = 0")
    case True
    then show ?thesis using g 1(2,3) by (subst encoder_gcd.simps) simp
  next
    case False
    then have "encoder_gcd ?m (?x mod ?m) = Some (gcd ?m (?x mod ?m))" using 1 by simp
    then show ?thesis using g False 1(2,3) by (subst encoder_gcd.simps) (simp add: Let_def)
  qed
qed

lemma encoder_lcm: "0 < a \<Longrightarrow> 0 < b \<Longrightarrow> encoder_lcm a b = (if lcm a b < 2 ^ 31 then Some (lcm a b) else None)"
proof -
  assume "0 < a" "0 < b"
  moreover have "(a div gcd a b) * b = lcm a b" by (simp add: lcm_nat_def div_mult_swap mult.commute)
  ultimately show ?thesis by (simp add: encoder_lcm_def encoder_gcd del: of_nat_mult)
qed

lemma connect_all_lcm:
  assumes "connect_all encoders grp = Some grp'" "\<forall>e \<in> set encoders. 0 < ge_frame_rate_divisor e"
    "0 < eg_frame_rate_divisors_lcm grp"
  shows "grp' = grp\<lparr>eg_frame_rate_divisors_lcm := lcm (eg_frame_rate_divisors_lcm grp) (Lcm (set (map ge_frame_rate_divisor encoders))),
    eg_num_encoders_started := eg_num_encoders_started grp + length encoders\<rparr>"
  using assms
proof (induction encoders arbitrary: grp)
  case (Cons e encoders)
  let ?l = "lcm (eg_frame_rate_divisors_lcm grp) (ge_frame_rate_divisor e)"
  let ?g = "grp\<lparr>eg_frame_rate_divisors_lcm := ?l, eg_num_encoders_started := eg_num_encoders_started grp + 1\<rparr>"
  have "connect_all encoders ?g = Some grp'"
    using Cons.prems by (auto simp: group_add_connection_def encoder_lcm Let_def bind_eq_Some_conv split: if_splits)
  from Cons.IH [OF this] show ?case using Cons.prems(2,3) by (simp add: lcm_pos_nat lcm.assoc)
qed simp

end
