(* ===== verification/Encoder_Together.thy ===== *)
theory Encoder_Together
  imports Encoder_Group
begin

text \<open>
  The protocol by which the encoders of a group agree on the frame for new settings: what holds in every state that
  frames and updates lead to, and what goes wrong in a second session.
\<close>

section \<open>Counting\<close>

definition how_many :: "('a \<Rightarrow> bool) \<Rightarrow> 'a list \<Rightarrow> nat" where
  "how_many P xs = length (filter P xs)"

lemma how_many_update:
  assumes "i < length xs"
  shows "how_many P (xs[i := x]) + of_bool (P (xs ! i)) = how_many P xs + of_bool (P x)"
proof -
  have "how_many P xs = how_many P (take i xs @ xs ! i # drop (Suc i) xs)" using id_take_nth_drop [OF assms] by simp
  then show ?thesis unfolding upd_conv_take_nth_drop [OF assms] by (simp add: how_many_def)
qed

lemma how_many_all: "how_many P xs = length xs \<longleftrightarrow> (\<forall>x \<in> set xs. P x)"
  by (simp add: how_many_def filter_id_conv length_filter_less antisym_conv2 linorder_neq_iff)
    (metis filter_True length_filter_less less_irrefl)

lemma how_many_none: "(\<forall>x \<in> set xs. \<not> P x) \<Longrightarrow> how_many P xs = 0"
  by (simp add: how_many_def filter_empty_conv)

lemma how_many_le: "how_many P xs \<le> length xs"
  by (simp add: how_many_def)

section \<open>Timestamps\<close>

definition frame_step :: "group_encoder \<Rightarrow> int" where
  "frame_step e = u32_mult (ge_timebase_num e) (ge_frame_rate_divisor e)"

definition all_step :: "nat \<Rightarrow> encoder_group \<Rightarrow> int" where
  "all_step tb g = u32_mult tb (eg_frame_rate_divisors_lcm g)"

definition round_up :: "int \<Rightarrow> int \<Rightarrow> int" where
  "round_up t p = (if p mod t \<noteq> 0 then (p div t + 1) * t else p)"

lemma round_up: "0 < t \<Longrightarrow> t dvd round_up t p" "0 < t \<Longrightarrow> p \<le> round_up t p"
proof -
  assume t: "0 < t"
  show "t dvd round_up t p" by (auto simp: round_up_def dvd_eq_mod_eq_0)
  have "p = p div t * t + p mod t" by simp
  moreover have "p mod t < t" using t by simp
  moreover have "(p div t + 1) * t = p div t * t + t" by (simp add: algebra_simps)
  ultimately show "p \<le> round_up t p" unfolding round_up_def by (smt (verit))
qed

lemma next_multiple: "(s :: int) dvd a \<Longrightarrow> s dvd b \<Longrightarrow> 0 < s \<Longrightarrow> a < b \<Longrightarrow> a + s \<le> b"
  using zdvd_imp_le [of s "b - a"] by simp

section \<open>Invariant\<close>

definition encoder_ok :: "nat \<Rightarrow> encoder_group \<Rightarrow> group_encoder \<Rightarrow> bool" where
  "encoder_ok tb g e \<longleftrightarrow> ge_timebase_num e = tb \<and> 0 < ge_frame_rate_divisor e \<and>
     ge_frame_rate_divisor e dvd eg_frame_rate_divisors_lcm g \<and> frame_step e dvd ge_cur_pts e \<and>
     \<not> ge_reconfigure_requested e \<and> ge_last_handled_reconfigure_request e \<le> ge_last_reconfigure_request e \<and>
     ge_last_reconfigure_request e \<le> eg_reconfigure_request g"

definition has_seen :: "encoder_group \<Rightarrow> group_encoder \<Rightarrow> bool" where
  "has_seen g e \<longleftrightarrow> ge_last_reconfigure_request e = eg_reconfigure_request g"

definition has_handled :: "encoder_group \<Rightarrow> group_encoder \<Rightarrow> bool" where
  "has_handled g e \<longleftrightarrow> ge_last_handled_reconfigure_request e = eg_reconfigure_request g"

text \<open>An encoder that has seen the request has either carried it out, and is past the timestamp, or is not past it.\<close>

definition on_time :: "encoder_group \<Rightarrow> group_encoder \<Rightarrow> bool" where
  "on_time g e \<longleftrightarrow> (has_seen g e \<longrightarrow> (if has_handled g e then eg_next_pts g < ge_cur_pts e else ge_cur_pts e \<le> eg_next_pts g))"

definition request_ok :: "group_encoder list \<Rightarrow> encoder_group \<Rightarrow> (nat \<times> nat \<times> int) list \<Rightarrow> bool" where
  "request_ok es g log \<longleftrightarrow>
     eg_encoders_updated_next_pts g = how_many (has_seen g) es \<and> eg_encoders_reconfigured g = how_many (has_handled g) es \<and>
     (\<forall>e \<in> set es. on_time g e) \<and>
     ((\<exists>e \<in> set es. has_handled g e) \<longrightarrow> (\<forall>e \<in> set es. has_seen g e)) \<and>
     (\<forall>i p. (eg_reconfigure_request g, i, p) \<in> set log \<longleftrightarrow> i < length es \<and> has_handled g (es ! i) \<and> p = eg_next_pts g)"

definition idle_ok :: "encoder_group \<Rightarrow> (nat \<times> nat \<times> int) list \<Rightarrow> bool" where
  "idle_ok g log \<longleftrightarrow> eg_encoders_updated_next_pts g = 0 \<and> eg_encoders_reconfigured g = 0 \<and> log = []"

definition log_ok :: "nat \<Rightarrow> nat \<Rightarrow> (nat \<times> nat \<times> int) list \<Rightarrow> bool" where
  "log_ok n r log \<longleftrightarrow>
     (\<forall>(q, i, p) \<in> set log. 0 < q \<and> q \<le> r \<and> i < n) \<and>
     (\<forall>q i p j p'. (q, i, p) \<in> set log \<longrightarrow> (q, j, p') \<in> set log \<longrightarrow> p = p') \<and>
     distinct (map (\<lambda>(q, i, p). (q, i)) log) \<and>
     (\<forall>q i. 0 < q \<longrightarrow> q < r \<longrightarrow> i < n \<longrightarrow> (\<exists>p. (q, i, p) \<in> set log))"

definition together :: "nat \<Rightarrow> group_encoder list \<Rightarrow> encoder_group \<Rightarrow> (nat \<times> nat \<times> int) list \<Rightarrow> bool" where
  "together tb es g log \<longleftrightarrow> es \<noteq> [] \<and> eg_encoders g = length es \<and> eg_num_encoders_started g = length es \<and>
     0 < tb \<and> 0 < eg_frame_rate_divisors_lcm g \<and> tb * eg_frame_rate_divisors_lcm g < 2 ^ 32 \<and> all_step tb g dvd eg_next_pts g \<and>
     (\<forall>e \<in> set es. encoder_ok tb g e) \<and>
     (if eg_reconfigure_request g = 0 then idle_ok g log else request_ok es g log) \<and>
     log_ok (length es) (eg_reconfigure_request g) log"

lemma u32_mult_small: "a * b < 2 ^ 32 \<Longrightarrow> u32_mult a b = int (a * b)"
  by (simp add: u32_mult_def flip: of_nat_mult)

text \<open>The steps, with the products that cannot wrap.\<close>

lemma steps:
  assumes "together tb es g log" "e \<in> set es"
  shows "0 < frame_step e" "frame_step e dvd all_step tb g" "0 < all_step tb g"
proof -
  have e: "ge_timebase_num e = tb" "0 < ge_frame_rate_divisor e" "ge_frame_rate_divisor e dvd eg_frame_rate_divisors_lcm g"
    and g: "0 < tb" "0 < eg_frame_rate_divisors_lcm g" "tb * eg_frame_rate_divisors_lcm g < 2 ^ 32"
    using assms by (auto simp: together_def encoder_ok_def)
  then have "tb * ge_frame_rate_divisor e \<le> tb * eg_frame_rate_divisors_lcm g" by (simp add: dvd_imp_le)
  then have "tb * ge_frame_rate_divisor e < 2 ^ 32" using g(3) by (rule le_less_trans)
  then have "frame_step e = int (tb * ge_frame_rate_divisor e)" using e(1) by (simp add: frame_step_def u32_mult_small)
  moreover have a: "all_step tb g = int (tb * eg_frame_rate_divisors_lcm g)" using g by (simp add: all_step_def u32_mult_small)
  ultimately show "0 < frame_step e" "frame_step e dvd all_step tb g" using e g by (simp_all add: mult_dvd_mono)
  show "0 < all_step tb g" using a g by simp
qed

section \<open>An update\<close>

lemma new_request_together:
  assumes "together tb es g log" "eg_reconfigure_request g = 0 \<or> eg_encoders_reconfigured g = length es"
  shows "together tb es (encoder_group_new_reconfigure_request g) log"
proof -
  let ?g = "encoder_group_new_reconfigure_request g"
  have ok: "\<forall>e \<in> set es. encoder_ok tb g e" and l: "log_ok (length es) (eg_reconfigure_request g) log"
    using assms(1) by (simp_all add: together_def)
  have r: "eg_reconfigure_request ?g = eg_reconfigure_request g + 1" by (simp add: encoder_group_new_reconfigure_request_def)
  have "\<not> has_seen ?g e" "\<not> has_handled ?g e" if "e \<in> set es" for e
    using ok that by (fastforce simp: has_seen_def has_handled_def encoder_ok_def r)+
  moreover have "(eg_reconfigure_request ?g, i, p) \<notin> set log" for i p
    using l r by (fastforce simp: log_ok_def)
  ultimately have req: "request_ok es ?g log"
    by (auto simp: request_ok_def how_many_none on_time_def) (auto simp: encoder_group_new_reconfigure_request_def)
  have done_all: "\<exists>p. (eg_reconfigure_request g, i, p) \<in> set log" if "0 < eg_reconfigure_request g" "i < length es" for i
  proof -
    have "request_ok es g log" using assms(1) that(1) by (simp add: together_def)
    moreover from this have "has_handled g (es ! i)" using assms(2) that how_many_all [of "has_handled g" es]
      by (auto simp: request_ok_def)
    ultimately show ?thesis using that(2) by (auto simp: request_ok_def)
  qed
  have "\<exists>p. (q, i, p) \<in> set log" if "0 < q" "q < eg_reconfigure_request g + 1" "i < length es" for q i
    using l done_all that by (cases "q = eg_reconfigure_request g") (simp_all add: log_ok_def)
  then have "log_ok (length es) (eg_reconfigure_request g + 1) log"
    using l unfolding log_ok_def by fastforce
  moreover have "\<forall>e \<in> set es. encoder_ok tb ?g e" using ok by (auto simp: encoder_ok_def encoder_group_new_reconfigure_request_def)
  ultimately show ?thesis
    using assms(1) req r by (simp add: together_def) (simp add: encoder_group_new_reconfigure_request_def all_step_def)
qed

lemma again_together: "together tb es g log \<Longrightarrow> together tb es (g\<lparr>eg_reconfigure_again := True\<rparr>) log"
proof -
  let ?g = "g\<lparr>eg_reconfigure_again := True\<rparr>"
  have "has_seen ?g = has_seen g" "has_handled ?g = has_handled g" "on_time ?g = on_time g" "encoder_ok tb ?g = encoder_ok tb g"
    by (simp_all add: fun_eq_iff has_seen_def has_handled_def on_time_def encoder_ok_def)
  then have "request_ok es ?g log = request_ok es g log" "idle_ok ?g log = idle_ok g log" "all_step tb ?g = all_step tb g"
    "encoder_ok tb ?g = encoder_ok tb g"
    by (simp_all add: request_ok_def idle_ok_def all_step_def)
  then show "together tb es g log \<Longrightarrow> together tb es ?g log" by (simp add: together_def)
qed

lemma update_together:
  assumes "together tb es g log"
  shows "together tb es (group_encoder_update e g) log"
proof -
  have "eg_encoders g = length es" using assms by (simp add: together_def)
  then show ?thesis
    using assms new_request_together [OF assms] again_together [OF assms] by (auto simp: group_encoder_update_def Let_def)
qed

section \<open>A frame\<close>

lemma together_frame:
  assumes "together tb es g log" "i < length es" "encoder_ok tb g' e'"
    "eg_frame_rate_divisors_lcm g' = eg_frame_rate_divisors_lcm g" "eg_encoders g' = eg_encoders g"
    "eg_num_encoders_started g' = eg_num_encoders_started g" "eg_reconfigure_request g' = eg_reconfigure_request g"
    "all_step tb g dvd eg_next_pts g'" "eg_reconfigure_request g = 0 \<Longrightarrow> idle_ok g' log'"
    "0 < eg_reconfigure_request g \<Longrightarrow> request_ok (es[i := e']) g' log'"
    "log_ok (length es) (eg_reconfigure_request g) log'"
  shows "together tb (es[i := e']) g' log'"
proof -
  have "encoder_ok tb g' = encoder_ok tb g" by (simp add: fun_eq_iff encoder_ok_def assms)
  moreover have "all_step tb g' = all_step tb g" by (simp add: all_step_def assms)
  ultimately show ?thesis
    using assms set_update_subset_insert [of es i e'] by (auto simp: together_def)
qed

definition advanced :: "group_encoder \<Rightarrow> group_encoder" where
  "advanced e = e\<lparr>ge_reconfigure_requested := False, ge_cur_pts := ge_cur_pts e + frame_step e\<rparr>"

definition pushed :: "group_encoder \<Rightarrow> encoder_group \<Rightarrow> encoder_group" where
  "pushed e g = g\<lparr>eg_next_pts := max (eg_next_pts g) (round_up (all_step (ge_timebase_num e) g) (ge_cur_pts e + frame_step e)),
     eg_encoders_updated_next_pts := eg_encoders_updated_next_pts g + of_bool (\<not> has_seen g e)\<rparr>"

definition agreed :: "group_encoder \<Rightarrow> encoder_group \<Rightarrow> bool" where
  "agreed e g \<longleftrightarrow> has_seen g e \<and> eg_encoders_updated_next_pts g = eg_num_encoders_started g \<and>
     ge_cur_pts e = eg_next_pts g \<and> \<not> has_handled g e"

lemma group_frame_cases:
  assumes "\<not> ge_reconfigure_requested e"
  shows "group_frame e g =
    (if agreed e g then
       (Some (eg_reconfigure_request g), advanced (e\<lparr>ge_last_handled_reconfigure_request := eg_reconfigure_request g\<rparr>),
        let g' = g\<lparr>eg_encoders_reconfigured := eg_encoders_reconfigured g + 1\<rparr>
        in if eg_encoders_reconfigured g' = eg_encoders g' \<and> eg_reconfigure_again g'
           then encoder_group_new_reconfigure_request g' else g')
     else if \<not> has_seen g e \<or> ge_cur_pts e = eg_next_pts g then
       (None, advanced (e\<lparr>ge_last_reconfigure_request := eg_reconfigure_request g\<rparr>), pushed e g)
     else (None, advanced e, g))"
  using assms
  by (simp add: group_frame_def handle_encoder_group_reconfigure_request_def agreed_def has_seen_def has_handled_def advanced_def
      pushed_def Let_def frame_step_def all_step_def round_up_def max_def flip: not_le)

lemma advanced_simps [simp]:
  "ge_timebase_num (advanced e) = ge_timebase_num e" "ge_frame_rate_divisor (advanced e) = ge_frame_rate_divisor e"
  "ge_last_reconfigure_request (advanced e) = ge_last_reconfigure_request e"
  "ge_last_handled_reconfigure_request (advanced e) = ge_last_handled_reconfigure_request e"
  "ge_cur_pts (advanced e) = ge_cur_pts e + frame_step e" "\<not> ge_reconfigure_requested (advanced e)"
  "frame_step (advanced e) = frame_step e"
  by (simp_all add: advanced_def frame_step_def)

lemma frame_step_same [simp]:
  "frame_step (e\<lparr>ge_last_reconfigure_request := r\<rparr>) = frame_step e"
  "frame_step (e\<lparr>ge_last_handled_reconfigure_request := r\<rparr>) = frame_step e"
  by (simp_all add: frame_step_def)

lemma together_nth:
  assumes "together tb es g log" "i < length es"
  shows "encoder_ok tb g (es ! i)" "0 < eg_reconfigure_request g \<Longrightarrow> on_time g (es ! i)" "es ! i \<in> set es"
  using assms by (auto simp: together_def request_ok_def)

lemma how_many_same: "i < length xs \<Longrightarrow> P (xs ! i) = P x \<Longrightarrow> how_many P (xs[i := x]) = how_many P xs"
  using how_many_update [of i xs P x] by simp

lemma wait_together:
  assumes t: "together tb es g log" "i < length es" and w: "has_seen g (es ! i)" "ge_cur_pts (es ! i) \<noteq> eg_next_pts g"
  shows "together tb (es[i := advanced (es ! i)]) g log"
proof (rule together_frame [OF t])
  let ?e = "es ! i"
  note e = together_nth [OF t] steps [OF t(1) together_nth(3) [OF t]]
  have d: "frame_step ?e dvd eg_next_pts g" using t(1) e(5) by (auto simp: together_def intro: dvd_trans)
  show "encoder_ok tb g (advanced ?e)" using e(1) by (simp add: encoder_ok_def)
  show "request_ok (es[i := advanced ?e]) g log" if r: "0 < eg_reconfigure_request g"
  proof -
    have same: "has_seen g (advanced ?e) = has_seen g ?e" "has_handled g (advanced ?e) = has_handled g ?e"
      by (simp_all add: has_seen_def has_handled_def)
    have "ge_cur_pts ?e + frame_step ?e \<le> eg_next_pts g" if "\<not> has_handled g ?e"
      using next_multiple [of "frame_step ?e" "ge_cur_pts ?e" "eg_next_pts g"] d e(1,4) e(2) [OF r] w that
      by (simp add: on_time_def encoder_ok_def)
    then have "on_time g (advanced ?e)" using e(2) [OF r] e(4) w(1) by (auto simp: on_time_def same)
    moreover have "request_ok es g log" using t(1) r by (simp add: together_def)
    ultimately show ?thesis
      using t(2) set_update_subset_insert [of es i "advanced ?e"]
      by (auto simp: request_ok_def how_many_same same nth_list_update all_set_conv_all_nth Bex_def in_set_conv_nth)
  qed
qed (use t(1) in \<open>auto simp: together_def\<close>)

lemma push_together:
  assumes t: "together tb es g log" "i < length es" and p: "\<not> has_seen g (es ! i) \<or> ge_cur_pts (es ! i) = eg_next_pts g"
    and n: "\<not> agreed (es ! i) g"
  shows "together tb (es[i := advanced ((es ! i)\<lparr>ge_last_reconfigure_request := eg_reconfigure_request g\<rparr>)]) (pushed (es ! i) g) log"
    (is "together tb (es[i := ?e']) ?g log")
proof (rule together_frame [OF t])
  let ?e = "es ! i"
  note e = together_nth [OF t] steps [OF t(1) together_nth(3) [OF t]]
  have tb: "ge_timebase_num ?e = tb" and d: "all_step tb g dvd eg_next_pts g" using e(1) t(1) by (simp_all add: encoder_ok_def together_def)
  note up = round_up [OF e(6), of "ge_cur_pts ?e + frame_step ?e"]
  show "encoder_ok tb ?g ?e'" using e(1) by (auto simp: encoder_ok_def pushed_def)
  show "all_step tb g dvd eg_next_pts ?g" using d up(1) by (auto simp: pushed_def tb max_def)
  show "idle_ok ?g log" if "eg_reconfigure_request g = 0"
    using t(1) e(1) that by (simp add: together_def idle_ok_def pushed_def has_seen_def encoder_ok_def)
  show "request_ok (es[i := ?e']) ?g log" if r: "0 < eg_reconfigure_request g"
  proof -
    have ok: "request_ok es g log" using t(1) r by (simp add: together_def)
    have none: "\<forall>x \<in> set es. \<not> has_handled g x"
    proof (rule ccontr)
      assume "\<not> (\<forall>x \<in> set es. \<not> has_handled g x)"
      then have seen: "\<forall>x \<in> set es. has_seen g x" using ok by (auto simp: request_ok_def)
      then have "eg_encoders_updated_next_pts g = eg_num_encoders_started g"
        using ok t(1) by (simp add: request_ok_def together_def how_many_all)
      then show False using p n seen e(2) [OF r] e(3) by (auto simp: agreed_def on_time_def)
    qed
    have same: "has_seen ?g = has_seen g" "has_handled ?g = has_handled g" "eg_reconfigure_request ?g = eg_reconfigure_request g"
      "eg_encoders_reconfigured ?g = eg_encoders_reconfigured g"
      "eg_encoders_updated_next_pts ?g = eg_encoders_updated_next_pts g + of_bool (\<not> has_seen g ?e)"
      by (simp_all add: fun_eq_iff has_seen_def has_handled_def pushed_def)
    have e': "has_seen g ?e'" "\<not> has_handled g ?e'" using none e(3) by (auto simp: has_seen_def has_handled_def)
    have none': "\<forall>x \<in> set (es[i := ?e']). \<not> has_handled g x" using none e'(2) set_update_subset_insert [of es i ?e'] by auto
    have le: "eg_next_pts g \<le> eg_next_pts ?g" by (simp add: pushed_def)
    have "on_time ?g x" if "x \<in> set es" for x
    proof -
      have "on_time g x" "\<not> has_handled g x" using ok none that by (simp_all add: request_ok_def)
      then show ?thesis using le unfolding on_time_def same by auto
    qed
    moreover have "on_time ?g ?e'" using up(2) e'(2) by (auto simp: on_time_def same) (simp add: pushed_def tb)
    ultimately have "\<forall>x \<in> set (es[i := ?e']). on_time ?g x" using set_update_subset_insert [of es i ?e'] by auto
    moreover have "how_many (has_seen g) (es[i := ?e']) = eg_encoders_updated_next_pts ?g"
      using how_many_update [OF t(2), of "has_seen g" ?e'] e'(1) ok same(5) by (auto simp: request_ok_def)
    moreover have "how_many (has_handled g) (es[i := ?e']) = eg_encoders_reconfigured g"
      using how_many_none [OF none] how_many_none [OF none'] ok by (simp add: request_ok_def)
    moreover have "(eg_reconfigure_request g, j, q) \<notin> set log" for j q using ok none by (auto simp: request_ok_def)
    ultimately show ?thesis using none' nth_mem [of _ "es[i := ?e']"] by (auto simp: request_ok_def same)
  qed
qed (use t(1) in \<open>auto simp: together_def pushed_def\<close>)

lemma agree_together:
  assumes t: "together tb es g log" "i < length es" and a: "agreed (es ! i) g"
  shows "together tb (es[i := advanced ((es ! i)\<lparr>ge_last_handled_reconfigure_request := eg_reconfigure_request g\<rparr>)])
    (g\<lparr>eg_encoders_reconfigured := eg_encoders_reconfigured g + 1\<rparr>) (log @ [(eg_reconfigure_request g, i, ge_cur_pts (es ! i))])"
    (is "together tb (es[i := ?e']) ?g ?log")
proof (rule together_frame [OF t])
  let ?e = "es ! i"
  note e = together_nth [OF t] steps [OF t(1) together_nth(3) [OF t]]
  have r: "0 < eg_reconfigure_request g"
    using t(1) a by (auto simp: together_def idle_ok_def agreed_def split: if_splits)
  have ok: "request_ok es g log" and l: "log_ok (length es) (eg_reconfigure_request g) log" using t(1) r by (simp_all add: together_def)
  show "idle_ok ?g ?log" if "eg_reconfigure_request g = 0" using r that by simp
  show "encoder_ok tb ?g ?e'" using e(1) a by (auto simp: encoder_ok_def agreed_def has_seen_def)
  have same: "has_seen (g\<lparr>eg_encoders_reconfigured := m\<rparr>) = has_seen g" "on_time (g\<lparr>eg_encoders_reconfigured := m\<rparr>) = on_time g"
    "has_handled (g\<lparr>eg_encoders_reconfigured := m\<rparr>) = has_handled g" for m
    by (simp_all add: fun_eq_iff has_seen_def has_handled_def on_time_def)
  have new: "(eg_reconfigure_request g, i, q) \<notin> set log" for q using ok a t(2) by (auto simp: request_ok_def agreed_def)
  have old: "q = eg_next_pts g" if "(eg_reconfigure_request g, j, q) \<in> set log" for j q using ok that by (auto simp: request_ok_def)
  show "request_ok (es[i := ?e']) ?g ?log"
  proof -
    have seen: "\<forall>x \<in> set es. has_seen g x"
      using ok a t(1) by (auto simp: request_ok_def agreed_def together_def how_many_all [symmetric])
    have e': "has_seen g ?e'" "has_handled g ?e'" "on_time g ?e'"
      using a e(4) by (auto simp: has_seen_def has_handled_def on_time_def agreed_def)
    have "how_many (has_seen g) (es[i := ?e']) = eg_encoders_updated_next_pts g"
      using how_many_same [OF t(2), of "has_seen g" ?e'] e'(1) seen e(3) ok by (auto simp: request_ok_def)
    moreover have "how_many (has_handled g) (es[i := ?e']) = eg_encoders_reconfigured g + 1"
      using how_many_update [OF t(2), of "has_handled g" ?e'] e'(2) a ok by (auto simp: request_ok_def agreed_def)
    moreover have "\<forall>x \<in> set (es[i := ?e']). on_time g x \<and> has_seen g x"
      using ok seen e' set_update_subset_insert [of es i ?e'] by (auto simp: request_ok_def)
    moreover have "(eg_reconfigure_request g, j, q) \<in> set ?log \<longleftrightarrow>
      j < length es \<and> has_handled g (es[i := ?e'] ! j) \<and> q = eg_next_pts g" for j q
      using ok e'(2) a t(2) by (auto simp: request_ok_def agreed_def nth_list_update)
    ultimately show ?thesis by (simp add: request_ok_def same)
  qed
  show "log_ok (length es) (eg_reconfigure_request g) ?log"
  proof -
    have "distinct (map (\<lambda>(q, i, p). (q, i)) ?log)" using l new by (auto simp: log_ok_def)
    moreover have "\<forall>q i p j p'. (q, i, p) \<in> set ?log \<longrightarrow> (q, j, p') \<in> set ?log \<longrightarrow> p = p'"
      using l old a unfolding log_ok_def by (auto simp: agreed_def)
    ultimately show ?thesis using l r t(2) unfolding log_ok_def by auto
  qed
qed (use t(1) in \<open>auto simp: together_def\<close>)

lemma frame_together:
  assumes t: "together tb es g log" "i < length es" and f: "group_frame (es ! i) g = (a, e, g')"
  shows "together tb (es[i := e]) g' (log @ (case a of None \<Rightarrow> [] | Some r \<Rightarrow> [(r, i, ge_cur_pts (es ! i))]))"
proof -
  have "\<not> ge_reconfigure_requested (es ! i)" using together_nth(1) [OF t] by (simp add: encoder_ok_def)
  note c = group_frame_cases [OF this, of g]
  show ?thesis
  proof (cases "agreed (es ! i) g")
    case True
    note A = agree_together [OF t True]
    have "eg_encoders g = length es" using t(1) by (simp add: together_def)
    then show ?thesis using A new_request_together [OF A] f c True by (auto simp: Let_def split: if_splits)
  next
    case False
    then show ?thesis
      using f c push_together [OF t _ False] wait_together [OF t] by (auto split: if_splits)
  qed
qed

section \<open>Sessions\<close>

definition group_ok :: "nat \<Rightarrow> group_sys \<Rightarrow> bool" where
  "group_ok tb s \<longleftrightarrow> together tb (gs_encoders s) (gs_group s) (gs_log s)"

lemma group_step_ok: "group_step s s' \<Longrightarrow> group_ok tb s \<Longrightarrow> group_ok tb s'"
  by (induction rule: group_step.induct) (simp_all add: group_ok_def frame_together update_together)

lemma connect_zero: "encoders \<noteq> [] \<Longrightarrow> connect_all encoders (g\<lparr>eg_frame_rate_divisors_lcm := 0\<rparr>) =
    connect_all encoders (g\<lparr>eg_frame_rate_divisors_lcm := 1\<rparr>)"
  by (cases encoders) (simp_all add: group_add_connection_def Let_def)

lemma connected:
  assumes "connect_all encoders (new_group (length encoders)) = Some g" "encoders \<noteq> []"
    "\<forall>e \<in> set encoders. 0 < ge_frame_rate_divisor e"
  shows "g = (new_group (length encoders))\<lparr>eg_frame_rate_divisors_lcm := Lcm (set (map ge_frame_rate_divisor encoders)),
    eg_num_encoders_started := length encoders\<rparr>"
proof -
  let ?g = "new_group (length encoders)"
  have "?g\<lparr>eg_frame_rate_divisors_lcm := 0\<rparr> = ?g" by (simp add: new_group_def)
  then have "connect_all encoders (?g\<lparr>eg_frame_rate_divisors_lcm := 1\<rparr>) = Some g"
    using connect_zero [OF assms(2), of ?g] assms(1) by simp
  from connect_all_lcm [OF this assms(3)] show ?thesis by (simp add: new_group_def)
qed

lemma reachable_ok: "group_step\<^sup>*\<^sup>* s s' \<Longrightarrow> group_ok tb s \<Longrightarrow> group_ok tb s'"
  by (induction rule: rtranclp_induct) (auto intro: group_step_ok)

lemma step_log: "group_step s s' \<Longrightarrow> set (gs_log s) \<subseteq> set (gs_log s')"
  by (induction rule: group_step.induct) auto

lemma reachable_log: "group_step\<^sup>*\<^sup>* s s' \<Longrightarrow> set (gs_log s) \<subseteq> set (gs_log s')"
  by (induction rule: rtranclp_induct) (use step_log in auto)

abbreviation request :: "group_sys \<Rightarrow> nat" where
  "request s \<equiv> eg_reconfigure_request (gs_group s)"

abbreviation encoders :: "group_sys \<Rightarrow> nat" where
  "encoders s \<equiv> length (gs_encoders s)"

text \<open>What a step does to the request and its timestamp.\<close>

lemma frame_request:
  assumes "group_frame e g = (a, e', g')" "\<not> ge_reconfigure_requested e"
  shows "eg_reconfigure_request g \<le> eg_reconfigure_request g'" "ge_last_reconfigure_request e' = eg_reconfigure_request g"
    "ge_cur_pts e' = ge_cur_pts e + frame_step e"
    "has_seen g e \<Longrightarrow> eg_encoders_updated_next_pts g = eg_num_encoders_started g \<Longrightarrow> on_time g e \<Longrightarrow>
     eg_reconfigure_request g' = eg_reconfigure_request g \<Longrightarrow>
     eg_next_pts g' = eg_next_pts g \<and> eg_encoders_updated_next_pts g' = eg_encoders_updated_next_pts g"
proof -
  consider (A) "agreed e g" | (B) "\<not> agreed e g" "\<not> has_seen g e \<or> ge_cur_pts e = eg_next_pts g"
    | (C) "\<not> agreed e g" "has_seen g e" "ge_cur_pts e \<noteq> eg_next_pts g" by blast
  then have "eg_reconfigure_request g \<le> eg_reconfigure_request g' \<and> ge_last_reconfigure_request e' = eg_reconfigure_request g \<and>
    ge_cur_pts e' = ge_cur_pts e + frame_step e \<and>
    (has_seen g e \<longrightarrow> eg_encoders_updated_next_pts g = eg_num_encoders_started g \<longrightarrow> on_time g e \<longrightarrow>
     eg_reconfigure_request g' = eg_reconfigure_request g \<longrightarrow>
     eg_next_pts g' = eg_next_pts g \<and> eg_encoders_updated_next_pts g' = eg_encoders_updated_next_pts g)"
  proof cases
    case A
    then show ?thesis using assms(1) group_frame_cases [OF assms(2), of g]
      by (simp add: Let_def encoder_group_new_reconfigure_request_def split: if_splits)
        (auto simp: agreed_def has_seen_def)
  next
    case B
    then show ?thesis using assms(1) group_frame_cases [OF assms(2), of g]
      by (auto simp: pushed_def agreed_def on_time_def)
  next
    case C
    then show ?thesis using assms(1) group_frame_cases [OF assms(2), of g] by (auto simp: has_seen_def)
  qed
  then show "eg_reconfigure_request g \<le> eg_reconfigure_request g'" "ge_last_reconfigure_request e' = eg_reconfigure_request g"
    "ge_cur_pts e' = ge_cur_pts e + frame_step e"
    "has_seen g e \<Longrightarrow> eg_encoders_updated_next_pts g = eg_num_encoders_started g \<Longrightarrow> on_time g e \<Longrightarrow>
     eg_reconfigure_request g' = eg_reconfigure_request g \<Longrightarrow>
     eg_next_pts g' = eg_next_pts g \<and> eg_encoders_updated_next_pts g' = eg_encoders_updated_next_pts g"
    by blast+
qed

lemma update_request:
  "eg_reconfigure_request g \<le> eg_reconfigure_request (group_encoder_update e g)"
  "eg_reconfigure_request (group_encoder_update e g) = eg_reconfigure_request g \<Longrightarrow>
   eg_next_pts (group_encoder_update e g) = eg_next_pts g \<and>
   eg_encoders_updated_next_pts (group_encoder_update e g) = eg_encoders_updated_next_pts g \<and>
   eg_num_encoders_started (group_encoder_update e g) = eg_num_encoders_started g"
  by (auto simp: group_encoder_update_def Let_def encoder_group_new_reconfigure_request_def)

lemma step_request: "group_step s s' \<Longrightarrow> group_ok tb s \<Longrightarrow> request s \<le> request s'"
  by (induction rule: group_step.induct)
    (auto simp: update_request(1) group_ok_def together_def encoder_ok_def intro!: frame_request(1))

lemma group_ok_nth:
  "group_ok tb s \<Longrightarrow> i < encoders s \<Longrightarrow> \<not> ge_reconfigure_requested (gs_encoders s ! i)"
  "group_ok tb s \<Longrightarrow> i < encoders s \<Longrightarrow> 0 < request s \<Longrightarrow> on_time (gs_group s) (gs_encoders s ! i)"
  using together_nth by (auto simp: group_ok_def encoder_ok_def)

lemma all_seen:
  assumes "group_ok tb s" "0 < request s"
  shows "eg_encoders_updated_next_pts (gs_group s) = eg_num_encoders_started (gs_group s) \<longleftrightarrow>
    (\<forall>e \<in> set (gs_encoders s). has_seen (gs_group s) e)"
  using assms by (simp add: group_ok_def together_def request_ok_def how_many_all)

lemma group_ok_counts: "group_ok tb s \<Longrightarrow> eg_num_encoders_started (gs_group s) = encoders s"
  by (simp add: group_ok_def together_def)

lemma step_encoders: "group_step s s' \<Longrightarrow> encoders s' = encoders s"
  by (induction rule: group_step.induct) auto

lemma seen_after:
  assumes "group_step\<^sup>*\<^sup>* s s'" "group_ok tb s"
  shows "encoders s' = encoders s \<and> (request s < request s' \<or> request s' = request s \<and>
    (\<forall>i < encoders s. ge_cur_pts (gs_encoders s ! i) < ge_cur_pts (gs_encoders s' ! i) \<longrightarrow>
      ge_last_reconfigure_request (gs_encoders s' ! i) = request s))"
  using assms
proof (induction rule: rtranclp_induct)
  case (step s1 s2)
  have ok: "group_ok tb s1" using reachable_ok step.hyps(1) step.prems by blast
  have le: "request s1 \<le> request s2" using step_request step.hyps(2) ok by blast
  show ?case
  proof (cases "request s2 = request s")
    case True
    then have r: "request s1 = request s" using step.IH [OF step.prems] le by auto
    from step.hyps(2) show ?thesis
    proof cases
      case (Group_Frame i applied e g)
      have "ge_last_reconfigure_request e = request s"
        using frame_request(2) [OF Group_Frame(3) group_ok_nth(1) [OF ok Group_Frame(2)]] r by simp
      then show ?thesis using Group_Frame True r step.IH [OF step.prems] by (auto simp: nth_list_update)
    next
      case (Group_Update i)
      then show ?thesis using True r step.IH [OF step.prems] by auto
    qed
  next
    case False
    then show ?thesis using step.IH [OF step.prems] le step_encoders [OF step.hyps(2)] by auto
  qed
qed simp

lemma stays_agreed:
  assumes "group_step\<^sup>*\<^sup>* s s'" "group_ok tb s" "0 < request s"
    "eg_encoders_updated_next_pts (gs_group s) = eg_num_encoders_started (gs_group s)"
  shows "request s < request s' \<or> request s' = request s \<and> eg_next_pts (gs_group s') = eg_next_pts (gs_group s) \<and>
    eg_encoders_updated_next_pts (gs_group s') = eg_num_encoders_started (gs_group s')"
  using assms
proof (induction rule: rtranclp_induct)
  case (step s1 s2)
  have ok: "group_ok tb s1" and ok2: "group_ok tb s2" using reachable_ok step.hyps step.prems(1) group_step_ok by blast+
  have le: "request s1 \<le> request s2" using step_request step.hyps(2) ok by blast
  show ?case
  proof (cases "request s2 = request s")
    case True
    then have r: "request s1 = request s" and n: "eg_next_pts (gs_group s1) = eg_next_pts (gs_group s)"
      and u: "eg_encoders_updated_next_pts (gs_group s1) = eg_num_encoders_started (gs_group s1)"
      using step.IH [OF step.prems] le by auto
    have seen: "\<forall>e \<in> set (gs_encoders s1). has_seen (gs_group s1) e" using all_seen [OF ok] u r step.prems(2) by simp
    from step.hyps(2) have "eg_next_pts (gs_group s2) = eg_next_pts (gs_group s1) \<and>
      eg_encoders_updated_next_pts (gs_group s2) = eg_encoders_updated_next_pts (gs_group s1)"
    proof cases
      case (Group_Frame i applied e g)
      have "eg_reconfigure_request g = request s1" using True r Group_Frame(1) by simp
      then show ?thesis
        using frame_request(4) [OF Group_Frame(3) group_ok_nth(1) [OF ok Group_Frame(2)]] seen u Group_Frame(1,2)
          group_ok_nth(2) [OF ok Group_Frame(2)] r step.prems(2) by simp
    next
      case (Group_Update i)
      then show ?thesis using update_request(2) [of _ "gs_group s1"] True r by simp
    qed
    then show ?thesis using True n u group_ok_counts [OF ok] group_ok_counts [OF ok2] step_encoders [OF step.hyps(2)] by simp
  qed (use step.IH [OF step.prems] le in auto)
qed simp

text \<open>The frame agreed on is less than one common step ahead of the foremost encoder.\<close>

definition soon :: "nat \<Rightarrow> group_sys \<Rightarrow> bool" where
  "soon tb s \<longleftrightarrow> (\<exists>e \<in> set (gs_encoders s). eg_next_pts (gs_group s) < ge_cur_pts e + all_step tb (gs_group s))"

lemma round_up_less: "0 < t \<Longrightarrow> round_up t p < p + t"
proof -
  assume t: "0 < t"
  have "p = p div t * t + p mod t" "(p div t + 1) * t = p div t * t + t" by (simp_all add: algebra_simps)
  moreover have "0 \<le> p mod t" using t by simp
  ultimately show "round_up t p < p + t" using t unfolding round_up_def by (smt (verit))
qed

lemma frame_next:
  assumes "group_frame e g = (a, e', g')" "\<not> ge_reconfigure_requested e"
  shows "eg_frame_rate_divisors_lcm g' = eg_frame_rate_divisors_lcm g \<and>
    (eg_next_pts g' = eg_next_pts g \<or> eg_next_pts g' = round_up (all_step (ge_timebase_num e) g) (ge_cur_pts e'))"
proof -
  consider (A) "agreed e g" | (B) "\<not> agreed e g" "\<not> has_seen g e \<or> ge_cur_pts e = eg_next_pts g"
    | (C) "\<not> agreed e g" "has_seen g e" "ge_cur_pts e \<noteq> eg_next_pts g" by blast
  then show ?thesis
  proof cases
    case A
    then show ?thesis using assms(1) group_frame_cases [OF assms(2), of g]
      by (auto simp: Let_def encoder_group_new_reconfigure_request_def split: if_splits)
  next
    case B
    then show ?thesis using assms(1) group_frame_cases [OF assms(2), of g] by (auto simp: pushed_def max_def)
  next
    case C
    then show ?thesis using assms(1) group_frame_cases [OF assms(2), of g] by auto
  qed
qed

lemma step_soon:
  assumes "group_step s s'" "group_ok tb s" "soon tb s"
  shows "soon tb s' \<and> all_step tb (gs_group s') = all_step tb (gs_group s)"
  using assms(1)
proof cases
  case (Group_Frame i applied e g)
  note f = Group_Frame(3) group_ok_nth(1) [OF assms(2) Group_Frame(2)]
  have i: "gs_encoders s ! i \<in> set (gs_encoders s)" and tb: "ge_timebase_num (gs_encoders s ! i) = tb"
    using assms(2) Group_Frame(2) together_nth by (auto simp: group_ok_def encoder_ok_def)
  have T: "all_step tb g = all_step tb (gs_group s)" using frame_next [OF f] by (simp add: all_step_def)
  have pos: "0 < all_step tb (gs_group s)" "0 < frame_step (gs_encoders s ! i)"
    using steps(1,3) [OF assms(2) [unfolded group_ok_def] i] by auto
  have e: "e \<in> set ((gs_encoders s)[i := e])" using Group_Frame(2) by (rule set_update_memI)
  have "\<exists>x \<in> set ((gs_encoders s)[i := e]). eg_next_pts g < ge_cur_pts x + all_step tb (gs_group s)"
  proof (cases "eg_next_pts g = eg_next_pts (gs_group s)")
    case True
    obtain k where k: "k < encoders s" "eg_next_pts (gs_group s) < ge_cur_pts (gs_encoders s ! k) + all_step tb (gs_group s)"
      using assms(3) by (auto simp: soon_def in_set_conv_nth)
    then have "eg_next_pts g < ge_cur_pts ((gs_encoders s)[i := e] ! k) + all_step tb (gs_group s)"
      using True frame_request(3) [OF f] pos(2) Group_Frame(2) by (cases "i = k") simp_all
    then show ?thesis using k(1) by (metis length_list_update nth_mem)
  next
    case False
    then show ?thesis using frame_next [OF f] round_up_less [OF pos(1)] e by (auto simp: tb)
  qed
  then show ?thesis using Group_Frame(1) T by (simp add: soon_def)
next
  case (Group_Update i)
  have "eg_next_pts (gs_group s') = eg_next_pts (gs_group s) \<and> all_step tb (gs_group s') = all_step tb (gs_group s)"
    by (simp add: Group_Update(1) group_encoder_update_def encoder_group_new_reconfigure_request_def all_step_def Let_def)
  then show ?thesis using assms(3) Group_Update(1) by (simp add: soon_def)
qed

lemma reachable_soon:
  "group_step\<^sup>*\<^sup>* s s' \<Longrightarrow> group_ok tb s \<Longrightarrow> soon tb s \<Longrightarrow> soon tb s' \<and> all_step tb (gs_group s') = all_step tb (gs_group s)"
proof (induction rule: rtranclp_induct)
  case (step s1 s2)
  have "group_ok tb s1" using reachable_ok step.hyps(1) step.prems(1) by blast
  with step.IH [OF step.prems] show ?case using step_soon [OF step.hyps(2)] by auto
qed simp

lemma started:
  assumes "group_start tb ds = Some s" "ds \<noteq> []" "0 < tb" "\<forall>d \<in> set ds. 0 < d" "tb * Lcm (set ds) < 2 ^ 32"
  shows "group_ok tb s \<and> soon tb s \<and> all_step tb (gs_group s) = int (tb * Lcm (set ds)) \<and> encoders s = length ds"
proof -
  let ?es = "map (new_encoder tb) ds"
  obtain g where g: "connect_all ?es (new_group (length ?es)) = Some g" and s: "s = \<lparr>gs_encoders = ?es, gs_group = g, gs_log = []\<rparr>"
    using assms(1) by (auto simp: group_start_def Let_def)
  have g': "g = (new_group (length ds))\<lparr>eg_frame_rate_divisors_lcm := Lcm (set ds), eg_num_encoders_started := length ds\<rparr>"
    using connected [OF g] assms(2,4) by (simp add: new_encoder_def image_image)
  have l: "0 < Lcm (set ds)" using assms(4) Lcm_0_iff [of "set ds"] by fastforce
  have "group_ok tb s"
    using assms(2-5) l
    by (auto simp: group_ok_def s g' together_def idle_ok_def log_ok_def new_group_def encoder_ok_def new_encoder_def)
  moreover have "soon tb s \<and> all_step tb (gs_group s) = int (tb * Lcm (set ds)) \<and> encoders s = length ds"
    using assms(2-5) l
    by (auto simp: s g' soon_def all_step_def u32_mult_small new_group_def new_encoder_def neq_Nil_conv)
  ultimately show ?thesis by blast
qed

section \<open>Runs\<close>

text \<open>Steps given as a list, to compute with: a frame of an encoder, an update of its settings.\<close>

datatype group_action = Frame_Of nat | Update_Of nat

fun group_run :: "group_action list \<Rightarrow> group_sys \<Rightarrow> group_sys option" where
  "group_run [] s = Some s"
| "group_run (Frame_Of i # as) s =
     (if i < length (gs_encoders s) then
        case group_frame (gs_encoders s ! i) (gs_group s) of
          (applied, encoder, grp) \<Rightarrow>
            group_run as (s\<lparr>gs_encoders := (gs_encoders s)[i := encoder], gs_group := grp,
              gs_log := gs_log s @ (case applied of None \<Rightarrow> [] | Some r \<Rightarrow> [(r, i, ge_cur_pts (gs_encoders s ! i))])\<rparr>)
      else None)"
| "group_run (Update_Of i # as) s =
     (if i < length (gs_encoders s)
      then group_run as (s\<lparr>gs_group := group_encoder_update (gs_encoders s ! i) (gs_group s)\<rparr>) else None)"

lemma group_run_steps: "group_run as s = Some s' \<Longrightarrow> group_step\<^sup>*\<^sup>* s s'"
proof (induction as s rule: group_run.induct)
  case (2 i as s)
  then show ?case
    using Group_Frame [of i s] by (auto split: if_splits prod.splits intro: converse_rtranclp_into_rtranclp)
next
  case (3 i as s)
  then show ?case
    using Group_Update [of i s] by (auto split: if_splits intro: converse_rtranclp_into_rtranclp)
qed simp

section \<open>New settings in a group\<close>

text \<open>
  C6: However the frames and the updates of a group's encoders interleave, all encoders apply a request of new settings at one
  timestamp, each of them exactly once, and the next request is only made after all have.
\<close>

theorem settings_applied_together:
  assumes "group_start tb ds = Some s0" "ds \<noteq> []" "0 < tb" "\<forall>d \<in> set ds. 0 < d" "tb * Lcm (set ds) < 2 ^ 32"
    "group_step\<^sup>*\<^sup>* s0 s"
  shows "(\<forall>q i p j p'. (q, i, p) \<in> set (gs_log s) \<longrightarrow> (q, j, p') \<in> set (gs_log s) \<longrightarrow> p = p') \<and>
    distinct (map (\<lambda>(q, i, p). (q, i)) (gs_log s)) \<and>
    (\<forall>q i p. (q, i, p) \<in> set (gs_log s) \<longrightarrow> 0 < q \<and> q \<le> eg_reconfigure_request (gs_group s) \<and> i < length ds) \<and>
    (\<forall>q i. 0 < q \<longrightarrow> q < eg_reconfigure_request (gs_group s) \<longrightarrow> i < length ds \<longrightarrow> (\<exists>p. (q, i, p) \<in> set (gs_log s)))"
proof -
  note s0 = started [OF assms(1-5)]
  have "group_ok tb s" using reachable_ok [OF assms(6)] s0 by blast
  then have "log_ok (length (gs_encoders s)) (request s) (gs_log s)" by (simp add: group_ok_def together_def)
  moreover have "encoders s = length ds" using seen_after [OF assms(6)] s0 by auto
  ultimately have l: "log_ok (length ds) (request s) (gs_log s)" by simp
  then have "0 < q \<and> q \<le> request s \<and> i < length ds" if "(q, i, p) \<in> set (gs_log s)" for q i p
    using that by (fastforce simp: log_ok_def)
  moreover have "p = p'" if "(q, i, p) \<in> set (gs_log s)" "(q, j, p') \<in> set (gs_log s)" for q i j p p'
    using l that unfolding log_ok_def by blast
  moreover have "distinct (map (\<lambda>(q, i, p). (q, i)) (gs_log s))" using l by (simp add: log_ok_def)
  moreover have "\<exists>p. (q, i, p) \<in> set (gs_log s)" if "0 < q" "q < request s" "i < length ds" for q i
    using l that by (simp add: log_ok_def)
  ultimately show ?thesis by (intro conjI allI impI) blast+
qed

text \<open>
  C18: A request reaches every encoder of the group, all at one timestamp: once each encoder has taken a frame, and then
  each has gone on by the least common multiple of the frame intervals from where the foremost was.
\<close>

theorem settings_reach_every_encoder:
  assumes "group_start tb ds = Some s0" "ds \<noteq> []" "0 < tb" "\<forall>d \<in> set ds. 0 < d" "tb * Lcm (set ds) < 2 ^ 32"
    "group_step\<^sup>*\<^sup>* s0 s" "0 < eg_reconfigure_request (gs_group s)" "group_step\<^sup>*\<^sup>* s s1"
    "\<forall>i < length ds. ge_cur_pts (gs_encoders s ! i) < ge_cur_pts (gs_encoders s1 ! i)" "group_step\<^sup>*\<^sup>* s1 s2"
    "\<forall>i < length ds. \<forall>j < length ds. ge_cur_pts (gs_encoders s1 ! j) + int (tb * Lcm (set ds)) \<le> ge_cur_pts (gs_encoders s2 ! i)"
  shows "\<exists>p. \<forall>i < length ds. (eg_reconfigure_request (gs_group s), i, p) \<in> set (gs_log s2)"
proof -
  note s0 = started [OF assms(1-5)]
  have ok: "group_ok tb s" "soon tb s" using reachable_ok [OF assms(6), of tb] reachable_soon [OF assms(6), of tb] s0 by auto
  have ok1: "group_ok tb s1" using reachable_ok [OF assms(8) ok(1)] .
  have ok2: "group_ok tb s2" using reachable_ok [OF assms(10) ok1] .
  have n: "encoders s = length ds" "encoders s1 = length ds" "encoders s2 = length ds"
    using seen_after [OF assms(6)] seen_after [OF assms(8) ok(1)] seen_after [OF assms(10) ok1] s0 by auto
  have soon1: "soon tb s1" and T: "all_step tb (gs_group s1) = int (tb * Lcm (set ds))"
    using reachable_soon [OF assms(8) ok] reachable_soon [OF assms(6), of tb] s0 by auto
  have l: "log_ok (length ds) (request s2) (gs_log s2)" using ok2 n by (simp add: group_ok_def together_def)
  show ?thesis
  proof (cases "request s < request s2")
    case True
    then have "\<exists>p. (request s, i, p) \<in> set (gs_log s2)" if "i < length ds" for i
      using l assms(7) that by (simp add: log_ok_def)
    moreover have "p = p'" if "(request s, i, p) \<in> set (gs_log s2)" "(request s, j, p') \<in> set (gs_log s2)" for i j p p'
      using l that unfolding log_ok_def by blast
    ultimately show ?thesis by metis
  next
    case False
    then have r: "request s1 = request s" "request s2 = request s"
      using seen_after [OF assms(8) ok(1)] seen_after [OF assms(10) ok1] by auto
    have "\<forall>e \<in> set (gs_encoders s1). has_seen (gs_group s1) e"
      using seen_after [OF assms(8) ok(1)] assms(9) n r(1) by (auto simp: in_set_conv_nth has_seen_def)
    then have "eg_encoders_updated_next_pts (gs_group s1) = eg_num_encoders_started (gs_group s1)"
      using all_seen [OF ok1] r assms(7) by simp
    from stays_agreed [OF assms(10) ok1 _ this] have a: "eg_next_pts (gs_group s2) = eg_next_pts (gs_group s1)"
      "eg_encoders_updated_next_pts (gs_group s2) = eg_num_encoders_started (gs_group s2)"
      using r assms(7) by auto
    have "(request s, i, eg_next_pts (gs_group s2)) \<in> set (gs_log s2)" if i: "i < length ds" for i
    proof -
      let ?e = "gs_encoders s2 ! i"
      have "has_seen (gs_group s2) ?e" using all_seen [OF ok2] a(2) r assms(7) i n by simp
      moreover obtain j where "j < length ds" "eg_next_pts (gs_group s1) < ge_cur_pts (gs_encoders s1 ! j) + int (tb * Lcm (set ds))"
        using soon1 n T by (auto simp: soon_def in_set_conv_nth)
      then have "eg_next_pts (gs_group s2) < ge_cur_pts ?e" using assms(11) i a(1) by fastforce
      moreover have "on_time (gs_group s2) ?e" using group_ok_nth(2) [OF ok2, of i] i n r assms(7) by simp
      ultimately have "has_handled (gs_group s2) ?e" unfolding on_time_def by (metis linorder_not_less)
      moreover have "request_ok (gs_encoders s2) (gs_group s2) (gs_log s2)"
        using ok2 r assms(7) by (simp add: group_ok_def together_def)
      ultimately show ?thesis using i n r by (simp add: request_ok_def)
    qed
    then show ?thesis by blast
  qed
qed

section \<open>A second session\<close>

text \<open>A state in which nothing is applied any more: the request is taken for done by all, and their number is not.\<close>

definition stuck :: "group_sys \<Rightarrow> bool" where
  "stuck s \<longleftrightarrow> 0 < encoders s \<and> request s \<noteq> 0 \<and> eg_encoders (gs_group s) = encoders s \<and>
     eg_encoders_reconfigured (gs_group s) = 0 \<and> gs_log s = [] \<and>
     (\<forall>e \<in> set (gs_encoders s). has_seen (gs_group s) e \<and> has_handled (gs_group s) e \<and> \<not> ge_reconfigure_requested e)"

lemma stuck_step: "group_step s s' \<Longrightarrow> stuck s \<Longrightarrow> stuck s'"
proof (induction rule: group_step.induct)
  case (Group_Frame i s applied e g)
  let ?e = "gs_encoders s ! i"
  have e: "has_seen (gs_group s) ?e" "has_handled (gs_group s) ?e" "\<not> ge_reconfigure_requested ?e"
    using Group_Frame(1,3) by (auto simp: stuck_def)
  have g: "eg_reconfigure_request g = request s \<and> eg_encoders g = eg_encoders (gs_group s) \<and>
      eg_encoders_reconfigured g = eg_encoders_reconfigured (gs_group s) \<and> applied = None \<and>
      ge_last_reconfigure_request e = request s \<and> ge_last_handled_reconfigure_request e = request s \<and> \<not> ge_reconfigure_requested e"
    using Group_Frame(2) e group_frame_cases [OF e(3), of "gs_group s"]
    by (auto simp: agreed_def pushed_def has_seen_def has_handled_def split: if_splits)
  then show ?case
    using Group_Frame(1,3) set_update_subset_insert [of "gs_encoders s" i e]
    by (auto simp: stuck_def has_seen_def has_handled_def)
next
  case (Group_Update i s)
  then show ?case by (auto simp: stuck_def group_encoder_update_def Let_def has_seen_def has_handled_def)
qed

lemma stuck_reachable: "group_step\<^sup>*\<^sup>* s s' \<Longrightarrow> stuck s \<Longrightarrow> stuck s'"
  by (induction rule: rtranclp_induct) (auto intro: stuck_step)

lemma removed:
  "0 < n \<Longrightarrow> eg_num_encoders_started g = n \<Longrightarrow> (group_remove_connection ^^ n) g = (new_group (eg_encoders g))\<lparr>eg_frame_rate_divisors_lcm := 1\<rparr>"
proof (induction n arbitrary: g)
  case (Suc n)
  let ?g = "group_remove_connection g"
  show ?case
  proof (cases n)
    case 0
    then show ?thesis using Suc.prems by (simp add: group_remove_connection_def new_group_def)
  next
    case (Suc m)
    then have "eg_num_encoders_started ?g = n" using Suc.prems(2) by (simp add: group_remove_connection_def Let_def)
    with Suc.IH [of ?g] have "(group_remove_connection ^^ n) ?g = (new_group (eg_encoders ?g))\<lparr>eg_frame_rate_divisors_lcm := 1\<rparr>"
      using Suc by simp
    moreover have "eg_encoders ?g = eg_encoders g" by (simp add: group_remove_connection_def Let_def)
    ultimately show ?thesis by (simp only: funpow_Suc_right o_apply)
  qed
qed simp

lemma next_session_encoders:
  assumes "next_session s = Some s'" "group_ok tb s"
  shows "gs_encoders s' = map restarted (gs_encoders s) \<and> gs_log s' = [] \<and> request s' = 0 \<and> eg_encoders (gs_group s') = encoders s \<and>
    eg_encoders_reconfigured (gs_group s') = 0"
proof -
  let ?es = "map restarted (gs_encoders s)"
  let ?g = "(new_group (encoders s))\<lparr>eg_frame_rate_divisors_lcm := 1\<rparr>"
  have "0 < encoders s" "eg_num_encoders_started (gs_group s) = encoders s" "eg_encoders (gs_group s) = encoders s"
    using assms(2) by (auto simp: group_ok_def together_def)
  from removed [OF this(1,2)] this(3) obtain g where g: "connect_all ?es ?g = Some g"
    "s' = \<lparr>gs_encoders = ?es, gs_group = g, gs_log = []\<rparr>"
    using assms(1) by (auto simp: next_session_def Let_def)
  have "\<forall>e \<in> set ?es. 0 < ge_frame_rate_divisor e"
    using assms(2) by (auto simp: group_ok_def together_def encoder_ok_def restarted_def)
  from connect_all_lcm [OF g(1) this] g(2) show ?thesis by (simp add: new_group_def)
qed

text \<open>
  C19: Disconnecting resets the requests of the group, not what its encoders remember of them: when the first session ended
  with its first request carried out, and settings are updated in the next one before a frame, no encoder
  applies these or any later settings in the session.
\<close>

theorem stale_request_never_applied:
  assumes "group_start tb ds = Some s0" "ds \<noteq> []" "0 < tb" "\<forall>d \<in> set ds. 0 < d" "tb * Lcm (set ds) < 2 ^ 32"
    "group_step\<^sup>*\<^sup>* s0 s" "\<forall>e \<in> set (gs_encoders s). ge_last_handled_reconfigure_request e = 1"
    "eg_reconfigure_request (gs_group s) = 1" "next_session s = Some s1" "i < length ds"
    "group_step\<^sup>*\<^sup>* (s1\<lparr>gs_group := group_encoder_update (gs_encoders s1 ! i) (gs_group s1)\<rparr>) s2"
  shows "gs_log s2 = []"
proof -
  note s0 = started [OF assms(1-5)]
  have ok: "group_ok tb s" using reachable_ok [OF assms(6)] s0 by blast
  have n: "encoders s = length ds" using seen_after [OF assms(6)] s0 by auto
  note s1 = next_session_encoders [OF assms(9) ok]
  let ?s = "s1\<lparr>gs_group := group_encoder_update (gs_encoders s1 ! i) (gs_group s1)\<rparr>"
  have g: "gs_group ?s = encoder_group_new_reconfigure_request (gs_group s1)" using s1 by (simp add: group_encoder_update_def)
  have "ge_last_reconfigure_request e = 1 \<and> ge_last_handled_reconfigure_request e = 1 \<and> \<not> ge_reconfigure_requested e"
    if "e \<in> set (gs_encoders s)" for e
    using ok assms(7,8) that by (fastforce simp: group_ok_def together_def encoder_ok_def)
  then have "stuck ?s"
    unfolding stuck_def g using s1 n assms(2)
    by (auto simp: encoder_group_new_reconfigure_request_def has_seen_def has_handled_def restarted_def)
  from stuck_reachable [OF assms(11) this] show ?thesis by (simp add: stuck_def)
qed

section \<open>Concrete runs\<close>

text \<open>Two encoders, the second at half the frame rate.\<close>

definition half_rate :: group_sys where
  "half_rate = \<lparr>gs_encoders = [new_encoder 1 1, new_encoder 1 2],
     gs_group = (new_group 2)\<lparr>eg_frame_rate_divisors_lcm := 2, eg_num_encoders_started := 2\<rparr>, gs_log = []\<rparr>"

lemma half_rate: "group_start 1 [1, 2] = Some half_rate"
  by (simp add: group_start_def half_rate_def group_add_connection_def encoder_lcm new_encoder_def new_group_def)

definition asked :: group_sys where
  "asked = the (group_run [Frame_Of 0, Update_Of 0] half_rate)"

definition seen_by_all :: group_sys where
  "seen_by_all = the (group_run [Frame_Of 0, Frame_Of 1] asked)"

definition carried_out :: group_sys where
  "carried_out = the (group_run [Frame_Of 0, Frame_Of 1, Frame_Of 0] seen_by_all)"

definition asked_twice :: group_sys where
  "asked_twice = the (group_run [Update_Of 1, Frame_Of 0, Frame_Of 1, Frame_Of 1, Frame_Of 0, Frame_Of 0] carried_out)"

definition second_session :: group_sys where
  "second_session = the (next_session carried_out)"

definition still_waiting :: group_sys where
  "still_waiting = the (group_run [Frame_Of 0, Frame_Of 1, Frame_Of 0, Update_Of 1, Frame_Of 0, Frame_Of 1, Frame_Of 0, Frame_Of 1]
     (second_session\<lparr>gs_group := group_encoder_update (gs_encoders second_session ! 0) (gs_group second_session)\<rparr>))"

lemma runs:
  "group_run [Frame_Of 0, Update_Of 0] half_rate = Some asked"
  "group_run [Frame_Of 0, Frame_Of 1] asked = Some seen_by_all"
  "group_run [Frame_Of 0, Frame_Of 1, Frame_Of 0] seen_by_all = Some carried_out"
  "group_run [Update_Of 1, Frame_Of 0, Frame_Of 1, Frame_Of 1, Frame_Of 0, Frame_Of 0] carried_out = Some asked_twice"
  "next_session carried_out = Some second_session"
  "group_run [Frame_Of 0, Frame_Of 1, Frame_Of 0, Update_Of 1, Frame_Of 0, Frame_Of 1, Frame_Of 0, Frame_Of 1]
     (second_session\<lparr>gs_group := group_encoder_update (gs_encoders second_session ! 0) (gs_group second_session)\<rparr>) = Some still_waiting"
  by code_simp+

lemmas run_steps = runs(1-4,6) [THEN group_run_steps]

lemma carried_out: "group_step\<^sup>*\<^sup>* half_rate carried_out"
  using run_steps(1-3) by (meson rtranclp_trans)

lemma half_rate_bounds: "[1, 2 :: nat] \<noteq> []" "0 < (1 :: nat)" "\<forall>d \<in> set [1, 2 :: nat]. 0 < d" "1 * Lcm (set [1, 2 :: nat]) < 2 ^ 32"
  by simp_all

theorem settings_applied_together_witness:
  "gs_log asked_twice = [(1, 0, 2), (1, 1, 2), (2, 1, 6), (2, 0, 6)] \<and> distinct (map (\<lambda>(q, i, p). (q, i)) (gs_log asked_twice)) \<and>
   (\<exists>p. (1, 1, p) \<in> set (gs_log asked_twice))"
proof -
  have "group_step\<^sup>*\<^sup>* half_rate asked_twice" using carried_out run_steps(4) by (rule rtranclp_trans)
  note T = settings_applied_together [OF half_rate half_rate_bounds this]
  have "gs_log asked_twice = [(1, 0, 2), (1, 1, 2), (2, 1, 6), (2, 0, 6)]" "1 < request asked_twice" by code_simp+
  then show ?thesis
    using T [THEN conjunct2, THEN conjunct1] T [THEN conjunct2, THEN conjunct2, THEN conjunct2, rule_format, of 1 1] by simp
qed

theorem settings_reach_every_encoder_witness:
  "gs_log asked = [] \<and> (\<exists>p. \<forall>i < 2. (1, i, p) \<in> set (gs_log carried_out))"
proof -
  have "request asked = 1" "gs_log asked = []" by code_simp+
  moreover have "ge_cur_pts (gs_encoders asked ! 0) = 1" "ge_cur_pts (gs_encoders asked ! 1) = 0"
    "ge_cur_pts (gs_encoders seen_by_all ! 0) = 2" "ge_cur_pts (gs_encoders seen_by_all ! 1) = 2"
    "ge_cur_pts (gs_encoders carried_out ! 0) = 4" "ge_cur_pts (gs_encoders carried_out ! 1) = 4" by code_simp+
  ultimately show ?thesis
    using settings_reach_every_encoder [OF half_rate half_rate_bounds run_steps(1) _ run_steps(2) _ run_steps(3)]
    by (simp add: All_less_Suc numeral_2_eq_2)
qed

theorem stale_request_never_applied_witness:
  "gs_log carried_out = [(1, 0, 2), (1, 1, 2)] \<and> gs_log still_waiting = []"
proof -
  have "\<forall>e \<in> set (gs_encoders carried_out). ge_last_handled_reconfigure_request e = 1" "request carried_out = 1"
    "gs_log carried_out = [(1, 0, 2), (1, 1, 2)]" by code_simp+
  then show ?thesis
    using stale_request_never_applied [OF half_rate half_rate_bounds carried_out _ _ runs(5) _ run_steps(5)] by simp
qed

end
