(* ===== verification/Spec2Isabelle.thy ===== *)
theory Spec2Isabelle
  imports Prelude Deque Interleave_Properties Pause_Clock Output_Reconnect Darray_List Calldata_Map Signal_Calls Utf8
    Avc_Header Hevc Av1 Rtmp_Av1_Packets Rtmp_Session Video_Cache
    Config_Saved Encoder_Together
begin

text \<open>
  Verification library for the C core of OBS Studio as this repository carries it to Android: the path
  of encoded packets through an output, and the data structures and byte formats under it. All paths are
  below \<open>src/obs-studio\<close>.

  The program. The graphics thread puts raw frames into a cache, from which a thread gives them to encoders
  (\<open>libobs/media-io/video-io.c\<close>). An encoder (\<open>libobs/obs-encoder.c\<close>) hands packets to the outputs connected to it. An output
  (\<open>libobs/obs-output.c\<close>) puts them through a stream delay (\<open>libobs/obs-output-delay.c\<close>), interleaves audio
  and video in time order, waits until all tracks have begun, and calls the plugin's \<open>encoded_packet\<close>. The
  plugin signals the end of the connection, upon which the output stops or reconnects. Pausing shifts the
  clocks of encoders and raw outputs. Before they leave, video packets of the three codecs are rewritten
  (\<open>libobs/obs-avc.c\<close>, \<open>obs-hevc.c\<close>, \<open>obs-av1.c\<close>). The RTMP output (\<open>plugins/obs-outputs/rtmp-stream.c\<close>) queues
  the packets, drops frames or lowers bitrates when the network is slow, and its send thread writes them as
  tags (\<open>flv-mux.c\<close>, \<open>rtmp-av1.c\<close>). Below lie arrays and ring buffers, the signals that
  tell the application what happens, their parameter blocks, a serializer, a bit reader, and text conversion;
  beside them stand the configuration files, over a tokenizer.

  Conventions. State is a record that a function returns updated. An access outside of a block, a read of an
  uninitialised element, a failed \<open>assert\<close> or a division by zero is \<^term>\<open>None\<close> where the code could do it,
  so that a result \<^term>\<open>Some\<close> is also a statement of memory safety. Sizes are natural numbers and timestamps
  integers where the code cannot overflow without having exhausted memory or run for centuries; where the
  width matters (pause clocks, byte formats, serializer positions, the position of the bit reader) values are
  words or reduced explicitly. Locks make the modelled operations atomic; interleavings of operations are
  sequences of steps.

  Theories and sources, bottom up.

  \<^item> \<^theory_text>\<open>Prelude\<close>, \<^theory_text>\<open>Bytes\<close>: buffers, byte orders, runs of operations, and the locale \<^theory_text>\<open>step_refinement\<close>, by which
    operations that agree one by one with an abstract state agree over programs.
  \<^item> \<^theory_text>\<open>Deque\<close> (\<open>util/deque.h\<close>) and \<^theory_text>\<open>Darray\<close>, \<^theory_text>\<open>Darray_List\<close> (\<open>util/darray.h\<close>): every program over the ring
    buffer or the array behaves like the program over a list.
  \<^item> \<^theory_text>\<open>Signal\<close>, \<^theory_text>\<open>Signal_Calls\<close> (\<open>callback/signal.c\<close>) and \<^theory_text>\<open>Calldata\<close>, \<^theory_text>\<open>Calldata_Map\<close> (\<open>callback/calldata.c\<close>):
    who is called while callbacks connect and disconnect; the parameter block is a map.
  \<^item> \<^theory_text>\<open>Utf8\<close> (\<open>util/utf8.c\<close>), \<^theory_text>\<open>Serializer\<close> (\<open>util/array-serializer.c\<close>, \<open>util/serializer.h\<close>), \<^theory_text>\<open>Bitstream\<close>
    (\<open>util/bitstream.c\<close>): round trip, buffer bounds, a file in memory, the bits read.
  \<^item> \<^theory_text>\<open>Nal\<close> (\<open>obs-nal.c\<close>): the search for start codes by words is the obvious scan. \<^theory_text>\<open>Nal_Units\<close>, \<^theory_text>\<open>Nal_Packets\<close>:
    the loop over units that \<open>obs-avc.c\<close> and \<open>obs-hevc.c\<close> repeat, and the locales \<^theory_text>\<open>packet_codec\<close> and
    \<^theory_text>\<open>header_codec\<close>, which \<^theory_text>\<open>Avc_Packets\<close> and \<^theory_text>\<open>Hevc\<close> interpret on the two codecs. \<^theory_text>\<open>Avc\<close>, \<^theory_text>\<open>Avc_Header\<close>: the
    H.264 functions and the configuration record. \<^theory_text>\<open>Av1\<close> (\<open>obs-av1.c\<close>): units with LEB128 sizes.
  \<^item> \<^theory_text>\<open>Interleave\<close> (\<open>obs-output.c\<close>, the interleaver) with \<^theory_text>\<open>Interleave_Order\<close> (the buffer stays sorted),
    \<^theory_text>\<open>Interleave_Safety\<close> (no undefined step), \<^theory_text>\<open>Interleave_Stream\<close> (what a started output does),
    \<^theory_text>\<open>Interleave_Monotone\<close> (timestamps leave in order) and \<^theory_text>\<open>Interleave_Properties\<close>.
  \<^item> \<^theory_text>\<open>Pause\<close>, \<^theory_text>\<open>Pause_Clock\<close> (pausing in \<open>obs-output.c\<close> and \<open>obs-encoder.c\<close>): the encoder clock does not
    see the pause.
  \<^item> \<^theory_text>\<open>Output_Life\<close> (start, stop, reconnection, data capture), \<^theory_text>\<open>Output_Delay\<close> (the delay queue is a queue),
    \<^theory_text>\<open>Output_Callbacks\<close> (the invariant on hooked callbacks, operation by operation) and \<^theory_text>\<open>Output_Reconnect\<close>.

  \<^item> \<^theory_text>\<open>Flv\<close> (\<open>flv-mux.c\<close>) and \<^theory_text>\<open>Flv_Tags\<close>: a reader after the FLV and Enhanced RTMP specifications gets back every
    tag that is written. \<^theory_text>\<open>Rtmp_Av1\<close> (\<open>rtmp-av1.c\<close>) and \<^theory_text>\<open>Rtmp_Av1_Packets\<close>: the units that packets keep, the
    bit reader behind the end.
  \<^item> \<^theory_text>\<open>Rtmp_Queue\<close> (the queue and the dynamic bitrate of \<open>rtmp-stream.c\<close>) with \<^theory_text>\<open>Rtmp_Drop\<close> (what is dropped) and
    \<^theory_text>\<open>Rtmp_Bitrate\<close> (the range of bitrates); \<^theory_text>\<open>Rtmp_Send\<close> (the send thread, round by round) with
    \<^theory_text>\<open>Rtmp_Session\<close>: what a player reads of a session, over the theorems of all the others.
  \<^item> \<^theory_text>\<open>Video_Io\<close> (\<open>media-io/video-io.c\<close>, \<open>video_sleep\<close> of \<open>obs-video.c\<close>): the cache of raw frames, its inputs and the
    video thread, step by step between the locks. \<^theory_text>\<open>Video_Cache\<close>: whatever the interleaving with the graphics thread
    and with those who connect, frames are given at a constant rate and nothing leaves the cache. The times are those
    of a run in which every frame of the graphics thread is locked, as it is while the raw output is active.
  \<^item> \<^theory_text>\<open>Encoder_Group\<close> (groups in \<open>libobs/obs-encoder.c\<close>): the requests by which encoders of different frame rates agree
    on a frame for new settings. \<^theory_text>\<open>Encoder_Together\<close>: whatever the order of frames and updates, all apply them on that
    frame, once, and none is left out; what a later session of the group inherits. All encoders of the group are
    connected before the first update and until the end of the session.
  \<^item> \<^theory_text>\<open>Lexer\<close> (\<open>util/lexer.c\<close>), \<^theory_text>\<open>Dstr\<close> (of \<open>util/dstr.c\<close> and the standard library, what is needed) and
    \<^theory_text>\<open>Config_File\<close> (\<open>util/config-file.c\<close>): tokens, the parser, values, files. \<^theory_text>\<open>Config_Saved\<close>: a configuration is a
    map, what is saved is read back, and a failed save loses nothing.

  Interfaces as locales: \<^theory_text>\<open>step_refinement\<close> (ring buffer, array, serializer,
  configuration), \<^theory_text>\<open>param_store\<close> (parameters),
  \<^theory_text>\<open>packet_codec\<close> and \<^theory_text>\<open>header_codec\<close> (codecs); each is interpreted on the definitions of the code.

  Bounds and fuel. The loops that release and drain delayed packets get the length of the queue, which each
  round shortens. Giving a signal gets a number of rounds, as callbacks may connect others and give signals
  without end; \<^theory_text>\<open>signal_returns\<close> shows that one for each connection is enough when they only disconnect. The
  loops that free and drop queued packets get the size of the queue. \<open>uvlc\<close> of \<open>rtmp-av1.c\<close> can run for ever on a
  broken header and is a partial function (\<^theory_text>\<open>uvlc_stands_still\<close>). All other loops are recursive functions with termination proofs: they end on every input.

  Parameters of the model, for code outside of it: the insertion of captions, the plugin's callbacks as
  requests, the time, the codecs' data; for the RTMP output what the socket answers, the parsed settings, the
  AMF description of the stream, the parser of H.265 headers (\<open>rtmp-hevc.c\<close>), and the product with a double that
  scales bitrates, of which \<^theory_text>\<open>scale_ok\<close> says that it is between nothing and the scaled difference. The
  results of video scalers; looking up in a hash table, with what uthash documents as the hypothesis
  \<^theory_text>\<open>hash_finds\<close>; the failures of files. They are arguments of the definitions.

  Not modelled: threads other than as sequences of steps; floating point; the graphics, sources and scenes of
  \<open>libobs\<close>, whose state is spread over plugins and locks; codecs, devices and sockets behind plugins; vendored
  code (\<open>deps\<close>, \<open>librtmp\<close>, \<open>rnnoise\<close>); the user interface; \<open>long\<close> other than of eight bytes, \<open>wchar_t\<close> other
  than of four, machines that are not little endian; allocation failures, which end the program.

  Where the code does not do what it says, the theories prove what it does: see the theorems on nested and
  repeated signals, on delayed restarts and batch sizes of outputs, on pauses missed by a frame rate divisor and on what a divisor of one means,
  on tracks that begin with a delta frame, on \<open>darray_split\<close>, on characters that \<open>utf8.c\<close> refuses to read back,
  on the position of the bit reader and the unsized AV1 units, on tracks that share one priority to wait for, on
  the second session of an RTMP output and of an encoder group, and on AV1 units that are cut off.
\<close>

end
